(* ===== verification/Prelude.thy ===== *)
theory Prelude
  imports Main "HOL-Library.AList"
begin

text \<open>
  Shared material of the development: the simplification collections, the step systems in which
  every component with state is analysed (reachable states, invariants, monotone observations),
  insertion-ordered dictionaries, and a few facts on lists and options that several components use.

  \<^item> \<open>state_defs\<close> collects the definitions of a component's operations, to be unfolded when an
    invariant is checked operation by operation.
  \<^item> \<open>reach\<close> is the set of states a component can be in; the locale \<open>inv_system\<close> is the contract
    between the author of an invariant (the invariant holds at the start, every step keeps it) and
    its users (it holds in every reachable state), and \<open>mono_system\<close> adds an observation that never
    goes back.
\<close>

named_theorems state_defs \<open>definitions of the operations of a component\<close>

section \<open>Step systems and their invariants\<close>

inductive reach :: "('s \<Rightarrow> bool) \<Rightarrow> ('s \<Rightarrow> 's \<Rightarrow> bool) \<Rightarrow> 's \<Rightarrow> bool"
  for init :: "'s \<Rightarrow> bool" and step :: "'s \<Rightarrow> 's \<Rightarrow> bool" where
  reach_init: "init s \<Longrightarrow> reach init step s"
| reach_step: "reach init step s \<Longrightarrow> step s t \<Longrightarrow> reach init step t"

lemma reach_rtranclp: "reach init step s \<Longrightarrow> step\<^sup>*\<^sup>* s t \<Longrightarrow> reach init step t"
  by (rotate_tac, induction rule: rtranclp_induct) (auto intro: reach.intros)

locale inv_system =
  fixes init :: "'s \<Rightarrow> bool" and step :: "'s \<Rightarrow> 's \<Rightarrow> bool" and inv :: "'s \<Rightarrow> bool"
  assumes init_inv: "init s \<Longrightarrow> inv s"
    and step_inv: "inv s \<Longrightarrow> step s t \<Longrightarrow> inv t"
begin

lemma reach_inv: "reach init step s \<Longrightarrow> inv s"
  by (induction rule: reach.induct) (auto intro: init_inv step_inv)

lemma run_inv: "step\<^sup>*\<^sup>* s t \<Longrightarrow> inv s \<Longrightarrow> inv t"
  by (induction rule: rtranclp_induct) (auto intro: step_inv)

end

locale mono_system = inv_system init step inv
  for init :: "'s \<Rightarrow> bool" and step :: "'s \<Rightarrow> 's \<Rightarrow> bool" and inv :: "'s \<Rightarrow> bool" +
  fixes le :: "'o \<Rightarrow> 'o \<Rightarrow> bool" and obs :: "'s \<Rightarrow> 'o"
  assumes le_refl: "le x x"
    and le_trans: "le x y \<Longrightarrow> le y z \<Longrightarrow> le x z"
    and step_mono: "inv s \<Longrightarrow> step s t \<Longrightarrow> le (obs s) (obs t)"
begin

lemma run_mono: "step\<^sup>*\<^sup>* s t \<Longrightarrow> inv s \<Longrightarrow> le (obs s) (obs t)"
proof (induction rule: rtranclp_induct)
  case base
  show ?case by (rule le_refl)
next
  case (step t u)
  from step.hyps(1) step.prems have "inv t" by (rule run_inv)
  with step show ?case by (blast intro: le_trans step_mono)
qed

lemma reach_run_mono: "reach init step s \<Longrightarrow> step\<^sup>*\<^sup>* s t \<Longrightarrow> le (obs s) (obs t)"
  by (blast intro: run_mono reach_inv)

end

section \<open>Forward simulation\<close>

text \<open>
  The contract between a component and an abstract specification of it: the component starts in a
  state that represents a start of the specification, and each of its steps is matched by finitely
  many steps of the specification. Then every reachable state represents a reachable one.
\<close>

locale forward_sim =
  fixes init :: "'c \<Rightarrow> bool" and step :: "'c \<Rightarrow> 'c \<Rightarrow> bool"
    and ainit :: "'a \<Rightarrow> bool" and astep :: "'a \<Rightarrow> 'a \<Rightarrow> bool"
    and rel :: "'c \<Rightarrow> 'a \<Rightarrow> bool"
  assumes sim_init: "init c \<Longrightarrow> \<exists>a. ainit a \<and> rel c a"
    and sim_step: "rel c a \<Longrightarrow> step c c' \<Longrightarrow> \<exists>a'. astep\<^sup>*\<^sup>* a a' \<and> rel c' a'"
begin

lemma reach_refines: "reach init step c \<Longrightarrow> \<exists>a. reach ainit astep a \<and> rel c a"
proof (induction rule: reach.induct)
  case (reach_init c)
  from sim_init [OF this] obtain a where "ainit a" "rel c a" by blast
  then show ?case by (intro exI [of _ a] conjI reach.reach_init)
next
  case (reach_step c c')
  from reach_step.IH obtain a where a: "reach ainit astep a" "rel c a" by blast
  from sim_step [OF a(2) reach_step.hyps(2)] obtain a' where "astep\<^sup>*\<^sup>* a a'" "rel c' a'" by blast
  then show ?case by (intro exI [of _ a'] conjI reach_rtranclp [OF a(1)])
qed

end

section \<open>Guarded writes to a keyed table\<close>

text \<open>
  The contract between a table and a client that writes one of its rows on a condition: an operation
  that is refused leaves the table as it was; one that is applied found a row that satisfied the
  guard, returns the row it wrote, and touches no other key; and it is applied whenever the guard
  holds. \<open>look\<close> reads a row, \<open>op a k\<close> is the operation with argument \<open>a\<close> at key \<open>k\<close>.
\<close>

locale row_op =
  fixes look :: "'s \<Rightarrow> 'k \<Rightarrow> 'r option"
    and op :: "'a \<Rightarrow> 'k \<Rightarrow> 's \<Rightarrow> 'r option \<times> 's"
    and guard :: "'a \<Rightarrow> 'r \<Rightarrow> bool"
  assumes refused: "fst (op a k s) = None \<Longrightarrow> snd (op a k s) = s"
    and applied: "fst (op a k s) = Some r \<Longrightarrow>
      look (snd (op a k s)) k = Some r \<and> (\<exists>r0. look s k = Some r0 \<and> guard a r0)"
    and elsewhere: "j \<noteq> k \<Longrightarrow> look (snd (op a k s)) j = look s j"
    and accepted: "look s k = Some r0 \<Longrightarrow> guard a r0 \<Longrightarrow> fst (op a k s) \<noteq> None"
begin

lemma applied_iff: "fst (op a k s) \<noteq> None \<longleftrightarrow> (\<exists>r0. look s k = Some r0 \<and> guard a r0)"
  using applied accepted by fastforce

lemma stale: "look s k = Some r0 \<Longrightarrow> \<not> guard a r0 \<Longrightarrow> op a k s = (None, s)"
  using applied_iff [of a k s] refused [of a k s] by (metis option.inject prod.collapse)

text \<open>A second writer whose guard the first writer's row no longer satisfies is refused.\<close>

lemma overtaken:
  assumes "fst (op a k s) = Some r" "\<not> guard b r"
  shows "op b k (snd (op a k s)) = (None, snd (op a k s))"
  using applied [OF assms(1)] assms(2) stale by blast

end

section \<open>Insertion-ordered dictionaries\<close>

text \<open>
  A Python dict keeps the order of first insertion; assignment to a present key keeps its place.
  \<open>AList.update\<close> does exactly that; \<open>AList.delete\<close> is \<open>pop\<close> with a default.
\<close>

abbreviation dict_set :: "'k \<Rightarrow> 'v \<Rightarrow> ('k \<times> 'v) list \<Rightarrow> ('k \<times> 'v) list" where
  "dict_set \<equiv> AList.update"

abbreviation dict_pop :: "'k \<Rightarrow> ('k \<times> 'v) list \<Rightarrow> ('k \<times> 'v) list" where
  "dict_pop \<equiv> AList.delete"

lemma dict_set_new: "k \<notin> fst ` set d \<Longrightarrow> dict_set k v d = d @ [(k, v)]"
  by (induction d) auto

section \<open>Lists\<close>

definition delete_nth :: "nat \<Rightarrow> 'a list \<Rightarrow> 'a list" where
  "delete_nth i xs = take i xs @ drop (Suc i) xs"

lemma delete_nth_Nil [simp]: "delete_nth i [] = []"
  by (simp add: delete_nth_def)

lemma delete_nth_0 [simp]: "delete_nth 0 (x # xs) = xs"
  by (simp add: delete_nth_def)

lemma delete_nth_Suc [simp]: "delete_nth (Suc i) (x # xs) = x # delete_nth i xs"
  by (simp add: delete_nth_def)

lemma length_delete_nth [simp]: "i < length xs \<Longrightarrow> length (delete_nth i xs) = length xs - 1"
  by (simp add: delete_nth_def)

lemma map_delete_nth: "map f (delete_nth i xs) = delete_nth i (map f xs)"
  by (simp add: delete_nth_def take_map drop_map)

lemma set_delete_nth_subset: "set (delete_nth i xs) \<subseteq> set xs"
  by (auto simp: delete_nth_def dest: in_set_takeD in_set_dropD)

lemma set_delete_nth: "distinct xs \<Longrightarrow> i < length xs \<Longrightarrow> set (delete_nth i xs) = set xs - {xs ! i}"
proof (induction xs arbitrary: i)
  case Nil
  then show ?case by simp
next
  case (Cons x xs)
  then show ?case by (cases i) auto
qed

lemma deleted_is_nth: "x \<in> set xs \<Longrightarrow> x \<notin> set (delete_nth i xs) \<Longrightarrow> i < length xs \<and> x = xs ! i"
proof (induction xs arbitrary: i)
  case Nil
  then show ?case by simp
next
  case (Cons y ys)
  then show ?case by (cases i) auto
qed

lemma sorted_wrt_delete_nth: "sorted_wrt P xs \<Longrightarrow> sorted_wrt P (delete_nth i xs)"
proof (induction xs arbitrary: i)
  case Nil
  then show ?case by simp
next
  case (Cons x xs)
  then show ?case
    using set_delete_nth_subset by (cases i) fastforce+
qed

lemma sorted_wrt_less_distinct: "sorted_wrt (<) (xs :: 'a::linorder list) \<Longrightarrow> distinct xs"
  by (simp add: strict_sorted_iff)

lemma strict_sorted_equal:
  "sorted_wrt (<) xs \<Longrightarrow> sorted_wrt (<) ys \<Longrightarrow> set xs = set ys \<Longrightarrow> xs = (ys :: 'a::linorder list)"
  by (rule sorted_distinct_set_unique) (auto simp: strict_sorted_iff)

lemma sorted_map_eq:
  fixes f :: "'b \<Rightarrow> 'a::linorder"
  assumes "sorted_wrt (<) (map f xs)" "sorted_wrt (<) (map f ys)" "set xs = set ys"
  shows "xs = ys"
proof -
  have eq: "map f xs = map f ys"
    using assms by (intro strict_sorted_equal) auto
  have "inj_on f (set xs \<union> set ys)"
    using sorted_wrt_less_distinct [OF assms(1)] assms(3) by (simp add: distinct_map)
  with eq show ?thesis by (rule map_inj_on)
qed

text \<open>Counting the positions that satisfy a predicate when it changes at one of them.\<close>

lemma length_filter_gain:
  assumes "distinct xs" "i \<in> set xs" "\<not> P i" "Q i" "\<And>x. x \<in> set xs \<Longrightarrow> x \<noteq> i \<Longrightarrow> Q x = P x"
  shows "length (filter Q xs) = Suc (length (filter P xs))"
proof -
  have "set (filter Q xs) = insert i (set (filter P xs))" using assms by auto
  moreover have "length (filter R xs) = card (set (filter R xs))" for R
    using assms(1) by (metis distinct_card distinct_filter)
  ultimately show ?thesis using assms(3) by simp
qed

lemma length_filter_lose:
  assumes "distinct xs" "i \<in> set xs" "P i" "\<not> Q i" "\<And>x. x \<in> set xs \<Longrightarrow> x \<noteq> i \<Longrightarrow> Q x = P x"
  shows "Suc (length (filter Q xs)) = length (filter P xs)"
  using length_filter_gain [of xs i Q P] assms by simp

lemma length_filter_same:
  "(\<And>x. x \<in> set xs \<Longrightarrow> Q x = P x) \<Longrightarrow> length (filter Q xs) = length (filter P xs)"
  by (metis filter_cong)

end
