(* ===== verification/Py_Text.thy ===== *)
theory Py_Text
  imports Prelude Complex_Main
begin

text \<open>
  The string and value operations of the implementation language that the components use.

  A Python string is a list of code points. The development represents text by Isabelle strings,
  so it covers the code points below 256; \<open>str.isspace\<close>, \<open>str.strip\<close> and \<open>str.lower\<close> are modelled on
  that range as the language defines them (white space is the ASCII controls 9-13 and 28-31, the
  blank, NEL and the no-break blank; lower-casing moves \<open>A-Z\<close> and the Latin-1 capitals except the
  multiplication sign). Dynamically typed values (JSON documents, dictionaries handed between the
  layers) are the datatype \<open>pyval\<close>.
\<close>

section \<open>Characters and strings\<close>

definition py_isspace :: "char \<Rightarrow> bool" where
  "py_isspace c =
     (let n = (of_char c :: nat)
      in 9 \<le> n \<and> n \<le> 13 \<or> 28 \<le> n \<and> n \<le> 32 \<or> n = 133 \<or> n = 160)"

definition py_lstrip :: "string \<Rightarrow> string" where
  "py_lstrip s = dropWhile py_isspace s"

definition py_strip :: "string \<Rightarrow> string" where
  "py_strip s = rev (dropWhile py_isspace (rev (dropWhile py_isspace s)))"

definition py_lower_char :: "char \<Rightarrow> char" where
  "py_lower_char c =
     (let n = (of_char c :: nat)
      in if 65 \<le> n \<and> n \<le> 90 \<or> 192 \<le> n \<and> n \<le> 222 \<and> n \<noteq> 215 then char_of (n + 32) else c)"

definition py_lower :: "string \<Rightarrow> string" where
  "py_lower s = map py_lower_char s"

lemma dropWhile_idem: "dropWhile P (dropWhile P xs) = dropWhile P xs"
  by (induction xs) auto

lemma dropWhile_rev_idem:
  assumes "dropWhile P xs = xs"
  shows "dropWhile P (rev (dropWhile P (rev xs))) = rev (dropWhile P (rev xs))"
proof (cases xs)
  case Nil
  then show ?thesis by simp
next
  case (Cons y ys)
  with assms have y: "\<not> P y"
    by (metis hd_dropWhile list.distinct(1) list.sel(1))
  have "rev (dropWhile P (rev (y # ys))) = y # rev (dropWhile P (rev ys))"
    using y by (simp add: dropWhile_append)
  with Cons y show ?thesis by simp
qed

lemma py_strip_idem [simp]: "py_strip (py_strip s) = py_strip s"
  unfolding py_strip_def
  by (simp add: dropWhile_rev_idem [OF dropWhile_idem] dropWhile_idem)

lemma py_strip_Nil [simp]: "py_strip [] = []"
  by (simp add: py_strip_def)

lemma set_dropWhile_subset: "set (dropWhile P xs) \<subseteq> set xs"
  by (induction xs) auto

lemma set_py_strip: "set (py_strip s) \<subseteq> set s"
proof -
  have "set (py_strip s) \<subseteq> set (rev (dropWhile py_isspace s))"
    unfolding py_strip_def set_rev by (rule subset_trans [OF set_dropWhile_subset]) simp
  also have "\<dots> \<subseteq> set s" by (simp add: set_dropWhile_subset)
  finally show ?thesis .
qed

lemma length_py_strip: "length (py_strip s) \<le> length s"
proof -
  have "length (dropWhile P xs) \<le> length xs" for P and xs :: string
    by (rule length_dropWhile_le)
  then show ?thesis unfolding py_strip_def by (metis (no_types) length_rev order_trans)
qed

lemma dropWhile_all_iff: "(\<forall>c \<in> set (dropWhile P xs). P c) \<longleftrightarrow> (\<forall>c \<in> set xs. P c)"
  by (induction xs) auto

lemma py_strip_eq_Nil_iff: "py_strip s = [] \<longleftrightarrow> (\<forall>c \<in> set s. py_isspace c)"
  unfolding py_strip_def rev_is_Nil_conv dropWhile_eq_Nil_conv set_rev by (rule dropWhile_all_iff)

lemma py_lower_char_idem [simp]: "py_lower_char (py_lower_char c) = py_lower_char c"
  by (auto simp: py_lower_char_def Let_def)

lemma py_lower_idem [simp]: "py_lower (py_lower s) = py_lower s"
  by (simp add: py_lower_def)

lemma length_py_lower [simp]: "length (py_lower s) = length s"
  by (simp add: py_lower_def)

section \<open>Decimal numbers\<close>

fun dec_digits :: "nat \<Rightarrow> string" where
  "dec_digits n =
     (if n < 10 then [char_of (48 + n)] else dec_digits (n div 10) @ [char_of (48 + n mod 10)])"

declare dec_digits.simps [simp del]

text \<open>\<open>str(n)\<close> of an int.\<close>

definition py_str_int :: "int \<Rightarrow> string" where
  "py_str_int i = (if i < 0 then ''-'' @ dec_digits (nat (- i)) else dec_digits (nat i))"

text \<open>
  \<open>int(s)\<close> of a text: surrounding space, a sign, and digits with single underscores between them;
  None where Python raises ValueError. (The limit of the interpreter on very long digit strings is a
  setting of the process and is left out.)
\<close>

fun digits_value :: "nat \<Rightarrow> bool \<Rightarrow> string \<Rightarrow> nat option" where
  "digits_value acc after_digit [] = (if after_digit then Some acc else None)"
| "digits_value acc after_digit (c # cs) =
     (if 48 \<le> (of_char c :: nat) \<and> (of_char c :: nat) \<le> 57
      then digits_value (10 * acc + (of_char c - 48)) True cs
      else if c = CHR ''_'' \<and> after_digit then digits_value acc False cs else None)"

definition py_int_text :: "string \<Rightarrow> int option" where
  "py_int_text s =
     (case py_strip s of
        CHR ''-'' # cs \<Rightarrow> map_option (\<lambda>n. - int n) (digits_value 0 False cs)
      | CHR ''+'' # cs \<Rightarrow> map_option int (digits_value 0 False cs)
      | cs \<Rightarrow> map_option int (digits_value 0 False cs))"

text \<open>\<open>int(x)\<close> of a float: truncation toward zero. Floats are represented by rationals.\<close>

definition py_trunc :: "rat \<Rightarrow> int" where
  "py_trunc r = (if r < 0 then - \<lfloor>- r\<rfloor> else \<lfloor>r\<rfloor>)"

section \<open>Dynamically typed values\<close>

datatype pyval =
    PNone
  | PBool bool
  | PInt int
  | PStr string
  | PList "pyval list"
  | PDict "(string \<times> pyval) list"

text \<open>\<open>d.get(key)\<close>: the value at the key, or None.\<close>

definition dict_get :: "(string \<times> pyval) list \<Rightarrow> string \<Rightarrow> pyval" where
  "dict_get d k = (case map_of d k of None \<Rightarrow> PNone | Some v \<Rightarrow> v)"

text \<open>The truth value of a value, as \<open>or\<close> and \<open>if\<close> read it.\<close>

fun py_truthy :: "pyval \<Rightarrow> bool" where
  "py_truthy PNone = False"
| "py_truthy (PBool b) = b"
| "py_truthy (PInt i) = (i \<noteq> 0)"
| "py_truthy (PStr s) = (s \<noteq> [])"
| "py_truthy (PList xs) = (xs \<noteq> [])"
| "py_truthy (PDict d) = (d \<noteq> [])"

end
