(* ===== verification/Turn_Events.thy ===== *)
theory Turn_Events
  imports Complex_Main Py_Text
begin

text \<open>
  The turn event vocabulary of \<open>runtime/service/event_types.py\<close>: the event kinds with the strings
  they are written as, the payload classes, and the event itself. Floating-point fields hold the
  rational value of the float.
\<close>

section \<open>Event kinds\<close>

datatype turn_event_kind =
    ACTIVITY_STARTED | ACTIVITY_UPDATED | ACTIVITY_STOPPED
  | REASONING_DELTA | REASONING_COMPLETED
  | ANSWER_DELTA | ANSWER_COMPLETED
  | TOOL_BATCH_STARTED | TOOL_STARTED | TOOL_UPDATED | TOOL_FINISHED | TOOL_RESULT
  | TOOL_BATCH_FINISHED | SUBAGENT_STATUS_CHANGED
  | PLAN_UPDATED | PLAN_REMOVED | DIFF_UPDATED | USAGE_UPDATED | APPROVAL_REQUIRED
  | INFO | COLLABORATION_INPUT | TURN_CHANGES
  | TURN_COMPLETED | TURN_CANCELLED | TURN_WAITING_APPROVAL | TURN_FAILED

fun kind_value :: "turn_event_kind \<Rightarrow> string" where
  "kind_value ACTIVITY_STARTED = ''activity_started''"
| "kind_value ACTIVITY_UPDATED = ''activity_updated''"
| "kind_value ACTIVITY_STOPPED = ''activity_stopped''"
| "kind_value REASONING_DELTA = ''reasoning_delta''"
| "kind_value REASONING_COMPLETED = ''reasoning_completed''"
| "kind_value ANSWER_DELTA = ''answer_delta''"
| "kind_value ANSWER_COMPLETED = ''answer_completed''"
| "kind_value TOOL_BATCH_STARTED = ''tool_batch_started''"
| "kind_value TOOL_STARTED = ''tool_started''"
| "kind_value TOOL_UPDATED = ''tool_updated''"
| "kind_value TOOL_FINISHED = ''tool_finished''"
| "kind_value TOOL_RESULT = ''tool_result''"
| "kind_value TOOL_BATCH_FINISHED = ''tool_batch_finished''"
| "kind_value SUBAGENT_STATUS_CHANGED = ''subagent_status_changed''"
| "kind_value PLAN_UPDATED = ''plan_updated''"
| "kind_value PLAN_REMOVED = ''plan_removed''"
| "kind_value DIFF_UPDATED = ''diff_updated''"
| "kind_value USAGE_UPDATED = ''usage_updated''"
| "kind_value APPROVAL_REQUIRED = ''approval_required''"
| "kind_value INFO = ''info''"
| "kind_value COLLABORATION_INPUT = ''collaboration_input''"
| "kind_value TURN_CHANGES = ''turn_changes''"
| "kind_value TURN_COMPLETED = ''turn_completed''"
| "kind_value TURN_CANCELLED = ''turn_cancelled''"
| "kind_value TURN_WAITING_APPROVAL = ''turn_waiting_approval''"
| "kind_value TURN_FAILED = ''turn_failed''"

section \<open>Payload classes\<close>

record activity_payload =
  act_phase :: string
  act_detail :: string
  act_reset_timer :: bool

record text_payload =
  txt_text :: string
  txt_message_id :: "string option"

record collaboration_input_payload =
  ci_text :: string
  ci_message_id :: string

record approval_action_payload =
  aa_name :: string
  aa_args :: "(string \<times> pyval) list"
  aa_description :: string
  aa_allowed_decisions :: "string list"

record tool_call_payload =
  tc_call_id :: string
  tc_name :: string
  tc_args_preview :: string

record tool_item_payload =
  ti_item_id :: string
  ti_call_id :: "string option"
  ti_name :: string
  ti_category :: string
  ti_label :: string
  ti_path :: "string option"
  ti_status :: string
  ti_preview :: "string option"
  ti_error :: bool
  ti_sub :: bool
  ti_parent_id :: "string option"
  ti_workspace_changed :: bool
  ti_subagent_name :: "string option"
  ti_subagent_model :: "string option"
  ti_subagent_reasoning_effort :: "string option"
  ti_subagent_model_inherited :: bool
  ti_subagent_reasoning_inherited :: bool

record tool_batch_payload =
  tb_calls :: "tool_call_payload list"
  tb_parallel :: bool
  tb_group_id :: "string option"
  tb_items :: "tool_item_payload list"

record subagent_status_payload =
  ss_parent_id :: string
  ss_status :: "string option"

record tool_finished_payload =
  tf_item_id :: string
  tf_status :: string
  tf_preview :: "string option"
  tf_error :: bool

record tool_result_payload =
  tr_name :: string
  tr_status :: string
  tr_sub :: bool
  tr_call_id :: "string option"

record plan_entry_payload =
  pe_content :: string
  pe_priority :: string
  pe_status :: string

record plan_payload =
  pp_plan_id :: string
  pp_entries :: "plan_entry_payload list"

record diff_payload =
  df_call_id :: string
  df_path :: string
  df_new_text :: string
  df_old_text :: "string option"

record usage_payload =
  up_turn_input :: int
  up_turn_output :: int
  up_turn_cache :: int
  up_last_input :: int
  up_last_output :: int
  up_last_cache :: int
  up_output_tokens_per_second :: "rat option"
  up_ttft_s :: "rat option"
  up_rate_basis :: string
  up_rate_estimated :: bool
  up_context_size :: "int option"
  up_model_calls :: int

record turn_change =
  tch_path :: string
  tch_status :: string
  tch_insertions :: int
  tch_deletions :: int
  tch_binary :: bool

record turn_changes_payload =
  tcp_changes :: "turn_change list"
  tcp_total :: int

record turn_terminal_payload =
  tt_status :: string
  tt_final_text :: string
  tt_error :: "string option"
  tt_interrupted :: bool
  tt_tool_calls :: int
  tt_input_tokens :: int
  tt_output_tokens :: int
  tt_cache_tokens :: int
  tt_compact_events :: int
  tt_elapsed_s :: rat

text \<open>An event's payload is one of these objects, or a plain value.\<close>

datatype payload =
    Activity activity_payload
  | Text text_payload
  | CollaborationInput collaboration_input_payload
  | Approval "approval_action_payload list"
  | ToolBatch tool_batch_payload
  | ToolBatchFinished string
  | SubagentStatus subagent_status_payload
  | ToolItem tool_item_payload
  | ToolFinished tool_finished_payload
  | ToolResult tool_result_payload
  | Plan plan_payload
  | PlanRemoved string
  | Diff diff_payload
  | Usage usage_payload
  | TurnChanges turn_changes_payload
  | TurnTerminal turn_terminal_payload
  | Plain pyval

section \<open>Events\<close>

record turn_event =
  ev_version :: int
  ev_thread_id :: string
  ev_turn_id :: string
  ev_sequence :: int
  ev_kind :: turn_event_kind
  ev_payload :: payload

definition EVENT_VERSION :: int where
  "EVENT_VERSION = 1"

lemma kind_value_inject: "kind_value a = kind_value b \<Longrightarrow> a = b"
  by (cases a; cases b) simp_all

end
