(* ===== verification/Session_Turn.thy ===== *)
theory Session_Turn
  imports Turn_Events
begin

text \<open>
  One turn of the agent (\<open>runtime/agent_loop/model.py\<close>, \<open>request.py\<close>, \<open>turn.py\<close>): the cancellation
  token, the frozen context and request, the classification of the outcome of a run, and the guard
  that one turn id runs once.

  The stream runner, which drives the language model, is external: how it ends is an argument
  (\<open>run_end\<close>). So are the user content and the attachment metadata a request carries, the snapshots
  of the workspace (reduced to the changes found between them) and the agent objects, which are
  numbers.
\<close>

section \<open>Cancellation\<close>

record cancel_token =
  ct_set :: bool
  ct_reason :: "string option"

definition new_cancel_token :: cancel_token where
  "new_cancel_token = \<lparr>ct_set = False, ct_reason = None\<rparr>"

definition cancel_token_cancel :: "string \<Rightarrow> cancel_token \<Rightarrow> bool \<times> cancel_token" where
  "cancel_token_cancel reason t =
     (if ct_set t then (False, t)
      else (True, \<lparr>ct_set = True, ct_reason = Some (if reason = [] then ''user'' else reason)\<rparr>))"

section \<open>Requests\<close>

record turn_request =
  rq_payload :: pyval
  rq_config :: "(string \<times> pyval) list"
  rq_thread_id :: string
  rq_resume :: bool
  rq_input :: string
  rq_attachment_refs :: "pyval list"

text \<open>\<open>d.update(e)\<close>, and the value at a key when it is a mapping.\<close>

definition dict_update :: "(string \<times> pyval) list \<Rightarrow> (string \<times> pyval) list \<Rightarrow> (string \<times> pyval) list" where
  "dict_update e d = fold (\<lambda>(k, v). dict_set k v) e d"

fun as_mapping :: "pyval option \<Rightarrow> (string \<times> pyval) list" where
  "as_mapping (Some (PDict d)) = d"
| "as_mapping _ = []"

text \<open>
  The configuration both builders make: defaults, then the overrides except \<open>configurable\<close>, whose
  entries are merged; the thread id is written last. Overriding \<open>configurable\<close> itself is impossible
  because it is popped first.
\<close>

definition request_config ::
  "string \<Rightarrow> int \<Rightarrow> (string \<times> pyval) list \<Rightarrow> (string \<times> pyval) list" where
  "request_config thread_id max_concurrency overrides =
     (let config = [(''configurable'', PDict [(''thread_id'', PStr thread_id)]),
                    (''max_concurrency'', PInt max_concurrency)];
          override_configurable = as_mapping (map_of overrides ''configurable'');
          config1 = dict_update (dict_pop ''configurable'' overrides) config;
          configurable = dict_set ''thread_id'' (PStr thread_id)
            (dict_update override_configurable (as_mapping (map_of config1 ''configurable'')))
      in dict_set ''configurable'' (PDict configurable) config1)"

definition config_entry :: "string \<Rightarrow> (string \<times> pyval) list \<Rightarrow> pyval option" where
  "config_entry key config = map_of (as_mapping (map_of config ''configurable'')) key"

text \<open>\<open>metadata\<close> is what the attachments contribute to the message's \<open>additional_kwargs\<close>.\<close>

definition build_turn_request ::
  "string \<Rightarrow> pyval \<Rightarrow> (string \<times> pyval) list \<Rightarrow> pyval list \<Rightarrow> string \<Rightarrow> int \<Rightarrow>
     (string \<times> pyval) list \<Rightarrow> turn_request" where
  "build_turn_request txt content metadata refs thread_id max_concurrency overrides =
     (let config = request_config thread_id max_concurrency overrides;
          message = [(''role'', PStr ''user''), (''content'', content)];
          message1 = (if metadata = [] then message
                      else dict_set ''additional_kwargs'' (PDict metadata) message);
          message2 = (case config_entry ''synapse_collaboration'' config of
                        Some (PDict c) \<Rightarrow>
                          dict_set ''additional_kwargs''
                            (PDict (dict_set ''synapse_collaboration'' (PDict c)
                              (as_mapping (map_of message1 ''additional_kwargs'')))) message1
                      | _ \<Rightarrow> message1)
      in \<lparr>rq_payload = PDict [(''messages'', PList [PDict message2])], rq_config = config,
          rq_thread_id = thread_id, rq_resume = False, rq_input = txt, rq_attachment_refs = refs\<rparr>)"

definition build_resume_request ::
  "pyval \<Rightarrow> string \<Rightarrow> int \<Rightarrow> (string \<times> pyval) list \<Rightarrow> turn_request" where
  "build_resume_request payload thread_id max_concurrency overrides =
     \<lparr>rq_payload = payload, rq_config = request_config thread_id max_concurrency overrides,
      rq_thread_id = thread_id, rq_resume = True, rq_input = [], rq_attachment_refs = []\<rparr>"

section \<open>Contexts and results\<close>

record turn_context =
  tx_thread_id :: string
  tx_agent :: "nat option"
  tx_settings :: nat
  tx_request :: turn_request
  tx_turn_id :: string

definition context_valid :: "turn_context \<Rightarrow> bool" where
  "context_valid c \<longleftrightarrow>
     tx_thread_id c \<noteq> [] \<and> rq_thread_id (tx_request c) = tx_thread_id c \<and> tx_agent c \<noteq> None"

datatype turn_status =
    T_CREATED | T_RUNNING | T_CANCELLING | T_CANCELLED | T_WAITING_APPROVAL | T_COMPLETED | T_FAILED

record stream_result =
  sres_state :: "(string \<times> pyval) list"
  sres_final_text :: string
  sres_tool_calls :: int
  sres_elapsed_s :: rat
  sres_streamed_answer :: bool
  sres_reasoning_text :: string
  sres_input_tokens :: int
  sres_output_tokens :: int
  sres_cache_tokens :: int
  sres_total_tokens :: int
  sres_last_input_tokens :: int
  sres_last_output_tokens :: int
  sres_last_cache_tokens :: int
  sres_last_output_tokens_per_second :: "rat option"
  sres_last_ttft_s :: "rat option"
  sres_last_rate_basis :: string
  sres_model_calls :: int
  sres_cancelled :: bool
  sres_cancel_reason :: "string option"
  sres_interrupted :: bool
  sres_compact_events :: int

record turn_result =
  res_turn_id :: string
  res_thread_id :: string
  res_status :: turn_status
  res_state :: "(string \<times> pyval) list"
  res_final_text :: string
  res_reasoning_text :: string
  res_tool_calls :: int
  res_elapsed_s :: rat
  res_streamed_answer :: bool
  res_input_tokens :: int
  res_output_tokens :: int
  res_cache_tokens :: int
  res_total_tokens :: int
  res_last_input_tokens :: int
  res_last_output_tokens :: int
  res_last_cache_tokens :: int
  res_last_output_tokens_per_second :: "rat option"
  res_last_ttft_s :: "rat option"
  res_last_rate_basis :: string
  res_model_calls :: int
  res_compact_events :: int
  res_changes :: "turn_change list"
  res_changes_total :: int
  res_cancel_reason :: "string option"
  res_error_type :: "string option"
  res_error_message :: "string option"

text \<open>The defaults of the dataclass.\<close>

definition blank_result :: "string \<Rightarrow> string \<Rightarrow> turn_status \<Rightarrow> turn_result" where
  "blank_result turn_id thread_id status =
     \<lparr>res_turn_id = turn_id, res_thread_id = thread_id, res_status = status, res_state = [],
      res_final_text = [], res_reasoning_text = [], res_tool_calls = 0, res_elapsed_s = 0,
      res_streamed_answer = False, res_input_tokens = 0, res_output_tokens = 0, res_cache_tokens = 0,
      res_total_tokens = 0, res_last_input_tokens = 0, res_last_output_tokens = 0,
      res_last_cache_tokens = 0, res_last_output_tokens_per_second = None, res_last_ttft_s = None,
      res_last_rate_basis = ''end_to_end'', res_model_calls = 0, res_compact_events = 0,
      res_changes = [], res_changes_total = 0, res_cancel_reason = None, res_error_type = None,
      res_error_message = None\<rparr>"

text \<open>The runner raises an exception (its class name and message), or returns.\<close>

datatype run_end = RunRaised string string | RunReturned stream_result

definition failed_result ::
  "turn_context \<Rightarrow> cancel_token \<Rightarrow> turn_change list \<times> int \<Rightarrow> string \<Rightarrow> string \<Rightarrow> turn_result" where
  "failed_result c token changes etype msg =
     (blank_result (tx_turn_id c) (tx_thread_id c) T_FAILED)
       \<lparr>res_changes := fst changes, res_changes_total := snd changes,
        res_cancel_reason := (if ct_set token then ct_reason token else None),
        res_error_type := Some etype, res_error_message := Some msg\<rparr>"

definition run_status :: "stream_result \<Rightarrow> cancel_token \<Rightarrow> turn_status" where
  "run_status r token =
     (if sres_cancelled r \<or> ct_set token then T_CANCELLED
      else if sres_interrupted r then T_WAITING_APPROVAL else T_COMPLETED)"

text \<open>\<open>token.reason or result.cancel_reason\<close>.\<close>

definition reason_or :: "string option \<Rightarrow> string option \<Rightarrow> string option" where
  "reason_or a b = (case a of Some (c # cs) \<Rightarrow> Some (c # cs) | _ \<Rightarrow> b)"

definition run_sync_once ::
  "turn_context \<Rightarrow> cancel_token \<Rightarrow> turn_change list \<times> int \<Rightarrow> run_end \<Rightarrow> turn_result" where
  "run_sync_once c token changes out =
     (case out of
        RunRaised etype msg \<Rightarrow> failed_result c token changes etype msg
      | RunReturned r \<Rightarrow>
          (let status = run_status r token in
           \<lparr>res_turn_id = tx_turn_id c, res_thread_id = tx_thread_id c, res_status = status,
            res_state = sres_state r, res_final_text = sres_final_text r,
            res_reasoning_text = sres_reasoning_text r, res_tool_calls = sres_tool_calls r,
            res_elapsed_s = sres_elapsed_s r, res_streamed_answer = sres_streamed_answer r,
            res_input_tokens = sres_input_tokens r, res_output_tokens = sres_output_tokens r,
            res_cache_tokens = sres_cache_tokens r, res_total_tokens = sres_total_tokens r,
            res_last_input_tokens = sres_last_input_tokens r,
            res_last_output_tokens = sres_last_output_tokens r,
            res_last_cache_tokens = sres_last_cache_tokens r,
            res_last_output_tokens_per_second = sres_last_output_tokens_per_second r,
            res_last_ttft_s = sres_last_ttft_s r, res_last_rate_basis = sres_last_rate_basis r,
            res_model_calls = sres_model_calls r, res_compact_events = sres_compact_events r,
            res_changes = fst changes, res_changes_total = snd changes,
            res_cancel_reason =
              (if status = T_CANCELLED then reason_or (ct_reason token) (sres_cancel_reason r)
               else None),
            res_error_type = None, res_error_message = None\<rparr>))"

text \<open>
  The event a collaboration turn starts with; a resumed turn has already shown its input. A summary
  without the two entries (the coordinator writes both, as text) raises, outside the \<open>try\<close>.
\<close>

definition collaboration_input :: "turn_context \<Rightarrow> string + turn_event list" where
  "collaboration_input c =
     (case config_entry ''synapse_collaboration'' (rq_config (tx_request c)) of
        None \<Rightarrow> Inr []
      | Some summary \<Rightarrow>
          if \<not> py_truthy summary \<or> rq_resume (tx_request c) then Inr []
          else case summary of
                 PDict s \<Rightarrow>
                   (case (map_of s ''text'', map_of s ''message_id'') of
                      (Some (PStr txt), Some (PStr mid)) \<Rightarrow>
                        Inr [\<lparr>ev_version = EVENT_VERSION, ev_thread_id = tx_thread_id c,
                          ev_turn_id = tx_turn_id c, ev_sequence = 0, ev_kind = COLLABORATION_INPUT,
                          ev_payload = CollaborationInput \<lparr>ci_text = txt, ci_message_id = mid\<rparr>\<rparr>]
                    | _ \<Rightarrow> Inl ''KeyError'')
               | _ \<Rightarrow> Inl ''TypeError'')"

section \<open>The guard of the running turns\<close>

definition claim_turn :: "string \<Rightarrow> string set \<Rightarrow> (string + unit) \<times> string set" where
  "claim_turn t running =
     (if t \<in> running then (Inl (''turn already running: '' @ t), running) else (Inr (), insert t running))"

definition release_running :: "string \<Rightarrow> string set \<Rightarrow> string set" where
  "release_running t running = running - {t}"

section \<open>Properties\<close>

lemma dict_update_lookup: "map_of (dict_update e d) k =
    (case map_of (rev e) k of None \<Rightarrow> map_of d k | Some v \<Rightarrow> Some v)"
  unfolding dict_update_def
proof (induction e arbitrary: d)
  case Nil
  then show ?case by simp
next
  case (Cons kv e)
  obtain j v where "kv = (j, v)" by (cases kv)
  with Cons show ?case by (auto simp: map_add_def update_conv' split: option.splits)
qed

lemma config_thread: "config_entry ''thread_id'' (request_config thread_id n overrides) = Some (PStr thread_id)"
  by (simp add: config_entry_def request_config_def Let_def update_conv')

end
