(* ===== verification/Session_Events.thy ===== *)
theory Session_Events
  imports Turn_Events
begin

text \<open>
  The session event broker of \<open>runtime/sessions/events.py\<close>: sequence allocation, the bounded replay
  window with its eviction policy and gap detection, the recovery snapshot, subscriptions, and the
  serial drainer that runs subscriber callbacks outside the lock.

  Every critical section of the class is one operation here. The drainer (\<open>_dispatch\<close>) releases the
  lock around each callback, so it is a small machine of its own (\<open>bk_drainer\<close>) that other
  operations interleave with; a callback that re-enters the broker is such an interleaving. What a
  callback does when it returns is the parameter \<open>cb_outcome\<close> of the drainer's step.

  A subscriber record is the shared object \<open>_SubscriberRecord\<close>; it is allocated together with a
  subscription id, so the id is its address in \<open>bk_records\<close>. The last three fields of the broker
  are observations the properties speak about (the accepted events, the callbacks invoked, the
  exceptions raised to callers); no operation reads them.
\<close>

section \<open>Kinds and their retention class\<close>

fun is_lossless :: "turn_event_kind \<Rightarrow> bool" where
  "is_lossless TOOL_STARTED = True"
| "is_lossless TOOL_UPDATED = True"
| "is_lossless TOOL_FINISHED = True"
| "is_lossless TOOL_RESULT = True"
| "is_lossless TOOL_BATCH_FINISHED = True"
| "is_lossless TURN_CHANGES = True"
| "is_lossless USAGE_UPDATED = True"
| "is_lossless TURN_COMPLETED = True"
| "is_lossless TURN_CANCELLED = True"
| "is_lossless TURN_WAITING_APPROVAL = True"
| "is_lossless TURN_FAILED = True"
| "is_lossless _ = False"

fun is_preview :: "turn_event_kind \<Rightarrow> bool" where
  "is_preview ACTIVITY_STARTED = True"
| "is_preview ACTIVITY_UPDATED = True"
| "is_preview ACTIVITY_STOPPED = True"
| "is_preview ANSWER_DELTA = True"
| "is_preview REASONING_DELTA = True"
| "is_preview _ = False"

section \<open>State\<close>

record envelope =
  env_thread_id :: string
  env_sequence :: nat
  env_turn_id :: string
  env_event :: turn_event

record event_window =
  win_events :: "envelope list"
  win_oldest :: nat
  win_latest :: nat
  win_gap :: bool

record recovery_state_rec =
  rs_epoch :: string
  rs_latest_sequence :: nat
  rs_oldest_sequence :: nat
  rs_dropped_through :: nat
  rs_latest_turn_id :: "string option"
  rs_latest_turn_start :: "nat option"
  rs_latest_turn_retained_from :: "nat option"
  rs_latest_turn_intact :: bool

text \<open>Callables are external code: they are named by numbers.\<close>

record subscriber_record =
  sr_callback :: nat
  sr_on_close :: "nat option"
  sr_closed :: bool

record subscription =
  sb_id :: int
  sb_replay :: "envelope list"
  sb_record :: "nat option"

text \<open>
  How a callback ends: it returns, raises an \<open>Exception\<close>, raises another \<open>BaseException\<close> that is not
  a process exit, or raises \<open>KeyboardInterrupt\<close> or \<open>SystemExit\<close>. The number names the exception
  object.
\<close>

datatype cb_outcome = CbReturn | CbException | CbBase nat | CbExit nat

text \<open>
  Where the thread that owns the drainer is: not running; at the head of the loop; inside the loop
  over the subscribers of one envelope; inside \<open>_notify_closed\<close>; or on the way out with a process
  exit, after it has decided to leave and before it takes the lock to clear the flag.
\<close>

datatype drainer =
    Idle
  | Head
  | Deliver envelope "nat list"
  | Notify "nat list"
  | Escape nat

datatype cb_call = Callback nat envelope | OnClose nat

record broker =
  bk_thread_id :: string
  bk_max_events :: nat
  bk_hard_cap :: nat
  bk_events :: "envelope list"
  bk_sequence :: nat
  bk_epoch :: string
  bk_dropped_through :: nat
  bk_latest_turn_id :: "string option"
  bk_latest_turn_start :: "nat option"
  bk_records :: "nat \<Rightarrow> subscriber_record option"
  bk_subscribers :: "nat list"
  bk_next_subscription_id :: nat
  bk_closed :: bool
  bk_delivery :: "(envelope \<times> nat list) list"
  bk_dispatching :: bool
  bk_close_notified :: bool
  bk_pending_close :: "nat list"
  bk_drainer :: drainer
  bk_first_exception :: "nat option"
  bk_accepted :: "envelope list"
  bk_calls :: "cb_call list"
  bk_raised :: "nat list"

definition new_broker :: "string \<Rightarrow> int \<Rightarrow> int option \<Rightarrow> string \<Rightarrow> broker" where
  "new_broker thread_id max_events hard_cap epoch =
     (let m = nat (max 16 max_events) in
      \<lparr>bk_thread_id = thread_id,
       bk_max_events = m,
       bk_hard_cap = (case hard_cap of Some h \<Rightarrow> max m (nat h) | None \<Rightarrow> max (m * 4) 1024),
       bk_events = [], bk_sequence = 0, bk_epoch = epoch, bk_dropped_through = 0,
       bk_latest_turn_id = None, bk_latest_turn_start = None,
       bk_records = (\<lambda>_. None), bk_subscribers = [], bk_next_subscription_id = 0,
       bk_closed = False, bk_delivery = [], bk_dispatching = False,
       bk_close_notified = False, bk_pending_close = [],
       bk_drainer = Idle, bk_first_exception = None,
       bk_accepted = [], bk_calls = [], bk_raised = []\<rparr>)"

section \<open>Retention\<close>

definition evict_locked :: "nat \<Rightarrow> broker \<Rightarrow> broker" where
  "evict_locked i b =
     b\<lparr>bk_events := delete_nth i (bk_events b),
       bk_dropped_through := max (bk_dropped_through b) (env_sequence (bk_events b ! i))\<rparr>"

fun first_preview :: "envelope list \<Rightarrow> nat option" where
  "first_preview [] = None"
| "first_preview (e # es) =
     (if is_preview (ev_kind (env_event e)) then Some 0 else map_option Suc (first_preview es))"

definition make_room_locked :: "turn_event_kind \<Rightarrow> broker \<Rightarrow> broker" where
  "make_room_locked incoming b =
     (if length (bk_events b) < bk_max_events b then b
      else case first_preview (bk_events b) of
        Some i \<Rightarrow> evict_locked i b
      | None \<Rightarrow>
          if bk_hard_cap b \<le> length (bk_events b) \<or> \<not> is_lossless incoming
          then evict_locked 0 b else b)"

section \<open>Emission\<close>

text \<open>
  \<open>emit\<close>: the critical section, and the claim of the drainer when it was free. The caller that wins
  the claim goes on as the drainer, so the claim is visible as \<open>Head\<close>.
\<close>

definition claim_drainer :: "broker \<Rightarrow> broker" where
  "claim_drainer b =
     (if bk_dispatching b then b
      else b\<lparr>bk_dispatching := True, bk_drainer := Head, bk_first_exception := None\<rparr>)"

definition emit :: "turn_event \<Rightarrow> broker \<Rightarrow> broker" where
  "emit event b =
     (if bk_closed b then b
      else
        let b1 = b\<lparr>bk_sequence := Suc (bk_sequence b)\<rparr>;
            envelope = \<lparr>env_thread_id = bk_thread_id b, env_sequence = Suc (bk_sequence b),
                        env_turn_id = ev_turn_id event, env_event = event\<rparr>;
            b2 = make_room_locked (ev_kind event) b1;
            b3 = (if Some (env_turn_id envelope) \<noteq> bk_latest_turn_id b2
                  then b2\<lparr>bk_latest_turn_id := Some (env_turn_id envelope),
                          bk_latest_turn_start := Some (env_sequence envelope)\<rparr>
                  else b2);
            b4 = b3\<lparr>bk_events := bk_events b3 @ [envelope],
                    bk_accepted := bk_accepted b3 @ [envelope]\<rparr>;
            records = bk_subscribers b4
        in if records = [] then b4
           else claim_drainer (b4\<lparr>bk_delivery := bk_delivery b4 @ [(envelope, records)]\<rparr>))"

section \<open>Queries\<close>

definition latest_sequence :: "broker \<Rightarrow> nat" where
  "latest_sequence b = bk_sequence b"

fun first_sequence_of_turn :: "string \<Rightarrow> envelope list \<Rightarrow> nat option" where
  "first_sequence_of_turn t [] = None"
| "first_sequence_of_turn t (e # es) =
     (if env_turn_id e = t then Some (env_sequence e) else first_sequence_of_turn t es)"

definition first_retained_sequence_for :: "string \<Rightarrow> broker \<Rightarrow> nat option" where
  "first_retained_sequence_for turn_id b = first_sequence_of_turn turn_id (bk_events b)"

definition oldest_sequence :: "broker \<Rightarrow> nat" where
  "oldest_sequence b = (case bk_events b of [] \<Rightarrow> bk_sequence b | e # _ \<Rightarrow> env_sequence e)"

definition recovery_state :: "broker \<Rightarrow> recovery_state_rec" where
  "recovery_state b =
     (let retained_from =
            (case bk_latest_turn_id b of
               None \<Rightarrow> None
             | Some t \<Rightarrow> first_sequence_of_turn t (bk_events b));
          intact =
            (case (bk_latest_turn_start b, retained_from) of
               (Some start, Some _) \<Rightarrow> bk_dropped_through b < start
             | _ \<Rightarrow> False)
      in \<lparr>rs_epoch = bk_epoch b,
          rs_latest_sequence = bk_sequence b,
          rs_oldest_sequence = oldest_sequence b,
          rs_dropped_through = bk_dropped_through b,
          rs_latest_turn_id = bk_latest_turn_id b,
          rs_latest_turn_start = bk_latest_turn_start b,
          rs_latest_turn_retained_from = retained_from,
          rs_latest_turn_intact = intact\<rparr>)"

text \<open>A cursor as a caller may hand it over: an int, a bool, or a value of another type.\<close>

datatype cursor_arg = CursorInt int | CursorBool bool | CursorOther string

datatype cursor_error = InvalidEventCursorError cursor_arg nat

fun checked_cursor_locked :: "cursor_arg \<Rightarrow> broker \<Rightarrow> cursor_error + int" where
  "checked_cursor_locked (CursorInt n) b = Inr n"
| "checked_cursor_locked c b = Inl (InvalidEventCursorError c (bk_sequence b))"

definition events_after :: "int \<Rightarrow> broker \<Rightarrow> envelope list" where
  "events_after n b = filter (\<lambda>e. n < int (env_sequence e)) (bk_events b)"

definition window_locked :: "int \<Rightarrow> broker \<Rightarrow> event_window" where
  "window_locked n b =
     (let cursor = max 0 n in
      \<lparr>win_events = events_after cursor b,
       win_oldest = oldest_sequence b,
       win_latest = bk_sequence b,
       win_gap = (cursor < int (bk_dropped_through b))\<rparr>)"

definition read_after :: "cursor_arg \<Rightarrow> broker \<Rightarrow> cursor_error + event_window" where
  "read_after c b =
     (case checked_cursor_locked c b of
        Inl e \<Rightarrow> Inl e
      | Inr cursor \<Rightarrow>
          if cursor < 0 \<or> int (bk_sequence b) < cursor
          then Inl (InvalidEventCursorError (CursorInt cursor) (bk_sequence b))
          else Inr (window_locked cursor b))"

section \<open>Subscriptions\<close>

definition closed_subscription :: subscription where
  "closed_subscription = \<lparr>sb_id = -1, sb_replay = [], sb_record = None\<rparr>"

definition register :: "nat \<Rightarrow> nat option \<Rightarrow> broker \<Rightarrow> nat \<times> broker" where
  "register callback on_close b =
     (let i = Suc (bk_next_subscription_id b) in
      (i, b\<lparr>bk_next_subscription_id := i,
            bk_records := (bk_records b)
              (i \<mapsto> \<lparr>sr_callback = callback, sr_on_close = on_close, sr_closed = False\<rparr>),
            bk_subscribers := bk_subscribers b @ [i]\<rparr>))"

definition subscribe :: "nat \<Rightarrow> int \<Rightarrow> broker \<Rightarrow> subscription \<times> broker" where
  "subscribe callback after b =
     (if bk_closed b then (closed_subscription, b)
      else
        let replay = events_after after b;
            (i, b') = register callback None b
        in (\<lparr>sb_id = int i, sb_replay = replay, sb_record = Some i\<rparr>, b'))"

definition subscribe_from ::
  "nat \<Rightarrow> cursor_arg \<Rightarrow> nat option \<Rightarrow> broker \<Rightarrow>
     (cursor_error + event_window \<times> subscription) \<times> broker" where
  "subscribe_from callback c on_close b =
     (case checked_cursor_locked c b of
        Inl e \<Rightarrow> (Inl e, b)
      | Inr cursor \<Rightarrow>
          if cursor < 0 \<or> int (bk_sequence b) < cursor
          then (Inl (InvalidEventCursorError (CursorInt cursor) (bk_sequence b)), b)
          else if bk_closed b then (Inr (window_locked cursor b, closed_subscription), b)
          else
            let window = window_locked cursor b in
            if win_gap window then (Inr (window, closed_subscription), b)
            else
              let (i, b') = register callback on_close b
              in (Inr (window, \<lparr>sb_id = int i, sb_replay = win_events window,
                                sb_record = Some i\<rparr>), b'))"

datatype forward_error = SinkTypeError

definition forward_to ::
  "bool \<Rightarrow> nat \<Rightarrow> int \<Rightarrow> broker \<Rightarrow> (forward_error + subscription) \<times> broker" where
  "forward_to sink_has_emit callback after b =
     (if \<not> sink_has_emit then (Inl SinkTypeError, b)
      else if bk_closed b then (Inr closed_subscription, b)
      else
        let replay = events_after after b;
            (i, b1) = register callback None b;
            b2 = b1\<lparr>bk_delivery := bk_delivery b1 @ map (\<lambda>e. (e, [i])) replay\<rparr>;
            b3 = (if replay \<noteq> [] then claim_drainer b2 else b2)
        in (Inr \<lparr>sb_id = int i, sb_replay = replay, sb_record = Some i\<rparr>, b3))"

definition record_closed :: "broker \<Rightarrow> nat option \<Rightarrow> bool" where
  "record_closed b r =
     (case r of
        None \<Rightarrow> True
      | Some i \<Rightarrow> (case bk_records b i of None \<Rightarrow> True | Some s \<Rightarrow> sr_closed s))"

definition set_closed :: "nat \<Rightarrow> (nat \<Rightarrow> subscriber_record option) \<Rightarrow> nat \<Rightarrow> subscriber_record option"
  where "set_closed i h = h(i := map_option (\<lambda>s. s\<lparr>sr_closed := True\<rparr>) (h i))"

definition close_subscription :: "nat \<Rightarrow> broker \<Rightarrow> broker" where
  "close_subscription i b =
     (if record_closed b (Some i) then b
      else b\<lparr>bk_records := set_closed i (bk_records b),
             bk_subscribers := removeAll i (bk_subscribers b)\<rparr>)"

definition subscription_close :: "subscription \<Rightarrow> broker \<Rightarrow> broker" where
  "subscription_close s b =
     (if record_closed b (sb_record s) then b
      else case sb_record s of None \<Rightarrow> b | Some i \<Rightarrow> close_subscription i b)"

definition close :: "broker \<Rightarrow> broker" where
  "close b =
     (if bk_closed b then b
      else
        let records = bk_subscribers b
        in claim_drainer
             (b\<lparr>bk_closed := True, bk_subscribers := [],
                bk_records := fold set_closed records (bk_records b),
                bk_pending_close := records\<rparr>))"

section \<open>The serial drainer\<close>

text \<open>
  The locked section at the head of the loop: take the next delivery, or start the close
  notification, or clear the flag and leave (raising the remembered exception, if any).
\<close>

definition leave_dispatch :: "broker \<Rightarrow> broker" where
  "leave_dispatch b =
     b\<lparr>bk_drainer := Idle, bk_first_exception := None,
       bk_raised := bk_raised b @ (case bk_first_exception b of None \<Rightarrow> [] | Some e \<Rightarrow> [e])\<rparr>"

definition dispatch_head :: "broker \<Rightarrow> broker" where
  "dispatch_head b =
     (case bk_delivery b of
        (envelope, records) # rest \<Rightarrow>
          b\<lparr>bk_delivery := rest, bk_drainer := Deliver envelope records\<rparr>
      | [] \<Rightarrow>
          if bk_closed b \<and> \<not> bk_close_notified b
          then b\<lparr>bk_close_notified := True, bk_pending_close := [], bk_dispatching := False,
                 bk_drainer := Notify (bk_pending_close b)\<rparr>
          else leave_dispatch (b\<lparr>bk_dispatching := False\<rparr>))"

definition remember :: "nat \<Rightarrow> broker \<Rightarrow> broker" where
  "remember e b =
     b\<lparr>bk_first_exception := (case bk_first_exception b of None \<Rightarrow> Some e | Some x \<Rightarrow> Some x)\<rparr>"

text \<open>One callback of the loop over the records of an envelope.\<close>

definition deliver_call :: "cb_outcome \<Rightarrow> envelope \<Rightarrow> nat \<Rightarrow> nat list \<Rightarrow> broker \<Rightarrow> broker" where
  "deliver_call out envelope r rs b =
     (let b1 = b\<lparr>bk_calls := bk_calls b @ [Callback r envelope]\<rparr>;
          continue = b1\<lparr>bk_drainer := Deliver envelope rs\<rparr>
      in case out of
           CbReturn \<Rightarrow> continue
         | CbException \<Rightarrow> continue
         | CbBase e \<Rightarrow> remember e continue
         | CbExit e \<Rightarrow>
             if bk_closed b then remember e (b1\<lparr>bk_drainer := Head\<rparr>)
             else b1\<lparr>bk_drainer := Escape e\<rparr>)"

text \<open>One record of \<open>_notify_closed\<close>.\<close>

definition notify_call :: "cb_outcome \<Rightarrow> nat \<Rightarrow> nat list \<Rightarrow> broker \<Rightarrow> broker" where
  "notify_call out r rs b =
     (case Option.bind (bk_records b r) sr_on_close of
        None \<Rightarrow> b\<lparr>bk_drainer := Notify rs\<rparr>
      | Some _ \<Rightarrow>
          (let b1 = b\<lparr>bk_calls := bk_calls b @ [OnClose r]\<rparr>;
               continue = b1\<lparr>bk_drainer := Notify rs\<rparr>
           in case out of
                CbReturn \<Rightarrow> continue
              | CbException \<Rightarrow> continue
              | CbBase e \<Rightarrow> remember e continue
              | CbExit e \<Rightarrow> b1\<lparr>bk_drainer := Escape e\<rparr>))"

text \<open>The restoring section on the way out: the flag is cleared under the lock.\<close>

definition escape :: "nat \<Rightarrow> broker \<Rightarrow> broker" where
  "escape e b =
     b\<lparr>bk_dispatching := False, bk_drainer := Idle, bk_first_exception := None,
       bk_raised := bk_raised b @ [e]\<rparr>"

definition drain_step :: "cb_outcome \<Rightarrow> broker \<Rightarrow> broker" where
  "drain_step out b =
     (case bk_drainer b of
        Idle \<Rightarrow> b
      | Head \<Rightarrow> dispatch_head b
      | Deliver envelope [] \<Rightarrow> b\<lparr>bk_drainer := Head\<rparr>
      | Deliver envelope (r # rs) \<Rightarrow> deliver_call out envelope r rs b
      | Notify [] \<Rightarrow> leave_dispatch b
      | Notify (r # rs) \<Rightarrow> notify_call out r rs b
      | Escape e \<Rightarrow> escape e b)"

section \<open>The broker as a step system\<close>

text \<open>
  One rule per critical section. Any thread may run any of them at any time; only the thread that
  owns the drainer makes \<open>step_drain\<close> moves, and the callback it runs may end in any way.
\<close>

inductive broker_step :: "broker \<Rightarrow> broker \<Rightarrow> bool" where
  step_emit: "broker_step b (emit event b)"
| step_subscribe: "broker_step b (snd (subscribe callback after b))"
| step_subscribe_from: "broker_step b (snd (subscribe_from callback cursor on_close b))"
| step_forward: "broker_step b (snd (forward_to sink_has_emit callback after b))"
| step_close_subscription: "broker_step b (subscription_close s b)"
| step_close: "broker_step b (close b)"
| step_drain: "bk_drainer b \<noteq> Idle \<Longrightarrow> broker_step b (drain_step out b)"

inductive is_new_broker :: "broker \<Rightarrow> bool" where
  "is_new_broker (new_broker thread_id max_events hard_cap epoch)"

inductive_cases broker_stepE: "broker_step b b'"

abbreviation broker_reach :: "broker \<Rightarrow> bool" where
  "broker_reach \<equiv> reach is_new_broker broker_step"

end
