(* ===== verification/Steer_Queue.thy ===== *)
theory Steer_Queue
  imports Py_Text
begin

text \<open>
  Mid-run guidance (\<open>runtime/steer.py\<close>): the queue of notes a user sends to a turn that is running,
  its change notifications, and the message made of the notes before the next model call.

  Every section under the queue's lock is one operation. Listeners are numbers; a notification is
  the snapshot of the items with the listeners registered when the change was made. The loop of
  \<open>_dispatch_notifications\<close> runs outside the lock, so it is a drainer with a position of its own:
  the steps of \<open>steer_step\<close> interleave any number of drainers with the operations of other threads,
  which includes the calls a listener makes itself. A listener returns (or raises an \<open>Exception\<close>,
  which is swallowed), or lets a \<open>BaseException\<close> leave the loop.

  The fields \<open>ss_pushed\<close>, \<open>ss_drained\<close>, \<open>ss_removed\<close>, \<open>ss_history\<close>, \<open>ss_calls\<close> and \<open>ss_escaped\<close> of
  \<open>steer_system\<close> only record what happened.
\<close>

section \<open>The queue\<close>

record steer_queue =
  sq_items :: "string list"
  sq_listeners :: "nat list"
  sq_pending_notifications :: "(string list \<times> nat list) list"
  sq_notifying :: bool

definition new_steer_queue :: steer_queue where
  "new_steer_queue =
     \<lparr>sq_items = [], sq_listeners = [], sq_pending_notifications = [], sq_notifying = False\<rparr>"

definition add_listener :: "nat option \<Rightarrow> steer_queue \<Rightarrow> steer_queue" where
  "add_listener callback q =
     (case callback of
        None \<Rightarrow> q
      | Some cb \<Rightarrow> if cb \<in> set (sq_listeners q) then q else q\<lparr>sq_listeners := sq_listeners q @ [cb]\<rparr>)"

definition remove_listener :: "nat \<Rightarrow> steer_queue \<Rightarrow> steer_queue" where
  "remove_listener cb q = q\<lparr>sq_listeners := filter (\<lambda>l. l \<noteq> cb) (sq_listeners q)\<rparr>"

definition queue_notification :: "steer_queue \<Rightarrow> steer_queue" where
  "queue_notification q =
     q\<lparr>sq_pending_notifications := sq_pending_notifications q @ [(sq_items q, sq_listeners q)]\<rparr>"

text \<open>The boolean tells the caller that it has become the drainer.\<close>

definition enqueue_notification :: "steer_queue \<Rightarrow> bool \<times> steer_queue" where
  "enqueue_notification q =
     (let q1 = queue_notification q
      in if sq_notifying q1 then (False, q1) else (True, q1\<lparr>sq_notifying := True\<rparr>))"

definition push_silent :: "string \<Rightarrow> steer_queue \<Rightarrow> nat \<times> steer_queue" where
  "push_silent text q =
     (let body = py_strip text
      in if body = [] then (0, q)
         else let q1 = q\<lparr>sq_items := sq_items q @ [body]\<rparr>
              in (length (sq_items q1), queue_notification q1))"

definition dispatch_pending :: "steer_queue \<Rightarrow> bool \<times> steer_queue" where
  "dispatch_pending q =
     (if sq_pending_notifications q = [] \<or> sq_notifying q then (False, q)
      else (True, q\<lparr>sq_notifying := True\<rparr>))"

definition drain :: "steer_queue \<Rightarrow> (string list \<times> bool) \<times> steer_queue" where
  "drain q =
     (let items = sq_items q; q1 = q\<lparr>sq_items := []\<rparr>
      in if items = [] then ((items, False), q1)
         else let (d, q2) = enqueue_notification q1 in ((items, d), q2))"

definition peek_count :: "steer_queue \<Rightarrow> nat" where
  "peek_count q = length (sq_items q)"

definition peek_items :: "steer_queue \<Rightarrow> string list" where
  "peek_items q = sq_items q"

definition remove_at :: "int \<Rightarrow> steer_queue \<Rightarrow> (string option \<times> bool) \<times> steer_queue" where
  "remove_at index q =
     (if index < 0 \<or> int (length (sq_items q)) \<le> index then ((None, False), q)
      else let removed = sq_items q ! nat index;
               (d, q1) = enqueue_notification (q\<lparr>sq_items := delete_nth (nat index) (sq_items q)\<rparr>)
           in ((Some removed, d), q1))"

definition clear :: "steer_queue \<Rightarrow> (string list \<times> bool) \<times> steer_queue" where
  "clear q =
     (if sq_items q = [] then (([], False), q)
      else let (d, q1) = enqueue_notification (q\<lparr>sq_items := []\<rparr>) in ((sq_items q, d), q1))"

definition clear_silent :: "steer_queue \<Rightarrow> string list \<times> steer_queue" where
  "clear_silent q =
     (if sq_items q = [] then ([], q)
      else (sq_items q, queue_notification (q\<lparr>sq_items := []\<rparr>)))"

text \<open>One turn of the loop of \<open>_dispatch_notifications\<close> under the lock.\<close>

definition pop_notification :: "steer_queue \<Rightarrow> (string list \<times> nat list) option \<times> steer_queue" where
  "pop_notification q =
     (case sq_pending_notifications q of
        [] \<Rightarrow> (None, q\<lparr>sq_notifying := False\<rparr>)
      | n # ns \<Rightarrow> (Some n, q\<lparr>sq_pending_notifications := ns\<rparr>))"

section \<open>Drainers and other threads\<close>

datatype steer_drainer = Popping | Calling "string list" "nat list"

record steer_system =
  ss_queue :: steer_queue
  ss_drainers :: "steer_drainer list"
  ss_pushed :: "string list"
  ss_drained :: "string list"
  ss_removed :: "string list"
  ss_history :: "(string list \<times> nat list) list"
  ss_calls :: "(nat \<times> string list) list"
  ss_escaped :: bool

definition new_steer_system :: steer_system where
  "new_steer_system =
     \<lparr>ss_queue = new_steer_queue, ss_drainers = [], ss_pushed = [], ss_drained = [], ss_removed = [],
      ss_history = [], ss_calls = [], ss_escaped = False\<rparr>"

text \<open>A thread that was told to dispatch enters the loop.\<close>

definition enter :: "bool \<Rightarrow> steer_system \<Rightarrow> steer_system" where
  "enter claimed s = (if claimed then s\<lparr>ss_drainers := ss_drainers s @ [Popping]\<rparr> else s)"

text \<open>The record of what an operation queued.\<close>

definition record_change :: "bool \<Rightarrow> steer_queue \<Rightarrow> steer_system \<Rightarrow> steer_system" where
  "record_change changed q s =
     s\<lparr>ss_queue := q,
       ss_history := ss_history s @ (if changed then [(sq_items q, sq_listeners q)] else [])\<rparr>"

definition sys_push :: "string \<Rightarrow> steer_system \<Rightarrow> steer_system" where
  "sys_push text s =
     (let (n, q) = push_silent text (ss_queue s)
      in record_change (n \<noteq> 0) q
           (s\<lparr>ss_pushed := ss_pushed s @ (if n = 0 then [] else [py_strip text])\<rparr>))"

definition sys_dispatch :: "steer_system \<Rightarrow> steer_system" where
  "sys_dispatch s = (let (c, q) = dispatch_pending (ss_queue s) in enter c (s\<lparr>ss_queue := q\<rparr>))"

definition sys_drain :: "steer_system \<Rightarrow> steer_system" where
  "sys_drain s =
     (let ((items, c), q) = drain (ss_queue s)
      in enter c (record_change (items \<noteq> []) q (s\<lparr>ss_drained := ss_drained s @ items\<rparr>)))"

definition sys_remove_at :: "int \<Rightarrow> steer_system \<Rightarrow> steer_system" where
  "sys_remove_at index s =
     (let ((r, c), q) = remove_at index (ss_queue s)
      in enter c (record_change (r \<noteq> None) q
           (s\<lparr>ss_removed := ss_removed s @ (case r of None \<Rightarrow> [] | Some x \<Rightarrow> [x])\<rparr>)))"

definition sys_clear :: "steer_system \<Rightarrow> steer_system" where
  "sys_clear s =
     (let ((items, c), q) = clear (ss_queue s)
      in enter c (record_change (items \<noteq> []) q (s\<lparr>ss_removed := ss_removed s @ items\<rparr>)))"

definition sys_clear_silent :: "steer_system \<Rightarrow> steer_system" where
  "sys_clear_silent s =
     (let (items, q) = clear_silent (ss_queue s)
      in record_change (items \<noteq> []) q (s\<lparr>ss_removed := ss_removed s @ items\<rparr>))"

text \<open>The moves of drainer number \<open>i\<close>; \<open>escapes\<close> is what its listener does.\<close>

definition drop_drainer :: "nat \<Rightarrow> steer_system \<Rightarrow> steer_system" where
  "drop_drainer i s = s\<lparr>ss_drainers := delete_nth i (ss_drainers s)\<rparr>"

definition drainer_move :: "nat \<Rightarrow> bool \<Rightarrow> steer_system \<Rightarrow> steer_system" where
  "drainer_move i escapes s =
     (case ss_drainers s ! i of
        Popping \<Rightarrow>
          (case pop_notification (ss_queue s) of
             (None, q) \<Rightarrow> drop_drainer i (s\<lparr>ss_queue := q\<rparr>)
           | (Some (snap, ls), q) \<Rightarrow>
               s\<lparr>ss_queue := q, ss_drainers := (ss_drainers s)[i := Calling snap ls]\<rparr>)
      | Calling snap [] \<Rightarrow> s\<lparr>ss_drainers := (ss_drainers s)[i := Popping]\<rparr>
      | Calling snap (l # ls) \<Rightarrow>
          (let s1 = s\<lparr>ss_calls := ss_calls s @ [(l, snap)]\<rparr>
           in if escapes then drop_drainer i (s1\<lparr>ss_escaped := True\<rparr>)
              else s1\<lparr>ss_drainers := (ss_drainers s)[i := Calling snap ls]\<rparr>))"

inductive steer_step :: "steer_system \<Rightarrow> steer_system \<Rightarrow> bool" where
  steer_add: "steer_step s (s\<lparr>ss_queue := add_listener cb (ss_queue s)\<rparr>)"
| steer_remove_listener: "steer_step s (s\<lparr>ss_queue := remove_listener l (ss_queue s)\<rparr>)"
| steer_push: "steer_step s (sys_push text s)"
| steer_dispatch: "steer_step s (sys_dispatch s)"
| steer_drain: "steer_step s (sys_drain s)"
| steer_remove_at: "steer_step s (sys_remove_at index s)"
| steer_clear: "steer_step s (sys_clear s)"
| steer_clear_silent: "steer_step s (sys_clear_silent s)"
| steer_drainer: "i < length (ss_drainers s) \<Longrightarrow> steer_step s (drainer_move i escapes s)"

abbreviation is_new_steer :: "steer_system \<Rightarrow> bool" where
  "is_new_steer s \<equiv> s = new_steer_system"

lemmas queue_ops =
  push_silent_def dispatch_pending_def drain_def remove_at_def clear_def clear_silent_def
  enqueue_notification_def queue_notification_def add_listener_def remove_listener_def Let_def

lemmas system_ops =
  sys_push_def sys_dispatch_def sys_drain_def sys_remove_at_def sys_clear_def sys_clear_silent_def
  enter_def record_change_def queue_ops

section \<open>The specification: numbered notes\<close>

text \<open>
  Every accepted note has a number, its place in \<open>nb_accepted\<close>. A note waits, is delivered to the
  model together with all notes that wait, or is withdrawn by the user.
\<close>

record notebook =
  nb_accepted :: "string list"
  nb_waiting :: "nat list"
  nb_delivered :: "nat list"
  nb_withdrawn :: "nat list"

inductive notebook_step :: "notebook \<Rightarrow> notebook \<Rightarrow> bool" where
  nb_accept: "note \<noteq> [] \<Longrightarrow> py_strip note = note \<Longrightarrow>
    notebook_step b (b\<lparr>nb_accepted := nb_accepted b @ [note],
                      nb_waiting := nb_waiting b @ [length (nb_accepted b)]\<rparr>)"
| nb_deliver:
    "notebook_step b (b\<lparr>nb_waiting := [], nb_delivered := nb_delivered b @ nb_waiting b\<rparr>)"
| nb_withdraw: "i < length (nb_waiting b) \<Longrightarrow>
    notebook_step b (b\<lparr>nb_waiting := delete_nth i (nb_waiting b),
                      nb_withdrawn := nb_withdrawn b @ [nb_waiting b ! i]\<rparr>)"
| nb_withdraw_all:
    "notebook_step b (b\<lparr>nb_waiting := [], nb_withdrawn := nb_withdrawn b @ nb_waiting b\<rparr>)"

definition is_new_notebook :: "notebook \<Rightarrow> bool" where
  "is_new_notebook b \<longleftrightarrow>
     b = \<lparr>nb_accepted = [], nb_waiting = [], nb_delivered = [], nb_withdrawn = []\<rparr>"

definition notebook_inv :: "notebook \<Rightarrow> bool" where
  "notebook_inv b \<longleftrightarrow>
     sorted_wrt (<) (nb_delivered b @ nb_waiting b) \<and> distinct (nb_withdrawn b) \<and>
     set (nb_withdrawn b) \<inter> set (nb_delivered b @ nb_waiting b) = {} \<and>
     set (nb_withdrawn b) \<union> set (nb_delivered b @ nb_waiting b) = {..<length (nb_accepted b)} \<and>
     (\<forall>note \<in> set (nb_accepted b). note \<noteq> [] \<and> py_strip note = note)"

lemma notebook_withdraw:
  assumes "notebook_inv b" "i < length (nb_waiting b)"
  shows "notebook_inv (b\<lparr>nb_waiting := delete_nth i (nb_waiting b),
                        nb_withdrawn := nb_withdrawn b @ [nb_waiting b ! i]\<rparr>)"
proof -
  have sorted: "sorted_wrt (<) (nb_delivered b @ nb_waiting b)"
    using assms(1) by (simp add: notebook_inv_def)
  then have "distinct (nb_delivered b @ nb_waiting b)" by (rule sorted_wrt_less_distinct)
  then have set: "set (delete_nth i (nb_waiting b)) = set (nb_waiting b) - {nb_waiting b ! i}"
    and fresh: "nb_waiting b ! i \<notin> set (nb_delivered b)"
    using assms(2) by (auto simp: set_delete_nth)
  have "sorted_wrt (<) (nb_delivered b @ delete_nth i (nb_waiting b))"
    using sorted set by (auto simp: sorted_wrt_append sorted_wrt_delete_nth)
  with assms set fresh nth_mem [OF assms(2)] show ?thesis
    unfolding notebook_inv_def by auto
qed

interpretation notebook_sys: inv_system is_new_notebook notebook_step notebook_inv
proof unfold_locales
  fix s :: notebook
  assume "is_new_notebook s"
  then show "notebook_inv s" by (simp add: is_new_notebook_def notebook_inv_def)
next
  fix s t :: notebook
  assume inv: "notebook_inv s" and "notebook_step s t"
  from this(2) show "notebook_inv t"
  proof cases
    case (nb_accept n)
    have "{..<Suc (length (nb_accepted s))} = insert (length (nb_accepted s)) {..<length (nb_accepted s)}"
      by auto
    moreover have "x < length (nb_accepted s)" if "x \<in> set (nb_delivered s @ nb_waiting s)" for x
      using inv that by (auto simp: notebook_inv_def)
    moreover have "length (nb_accepted s) \<notin> set (nb_withdrawn s)"
      using inv by (auto simp: notebook_inv_def)
    ultimately show ?thesis using inv nb_accept
      by (auto simp: notebook_inv_def sorted_wrt_append)
  next
    case nb_deliver
    with inv show ?thesis by (simp add: notebook_inv_def)
  next
    case (nb_withdraw i)
    with inv show ?thesis by (simp add: notebook_withdraw)
  next
    case nb_withdraw_all
    with inv show ?thesis
      by (auto simp: notebook_inv_def sorted_wrt_append dest: sorted_wrt_less_distinct)
  qed
qed

section \<open>The queue implements the notebook\<close>

definition represents :: "steer_system \<Rightarrow> notebook \<Rightarrow> bool" where
  "represents s b \<longleftrightarrow>
     notebook_inv b \<and> ss_pushed s = nb_accepted b \<and>
     sq_items (ss_queue s) = map ((!) (nb_accepted b)) (nb_waiting b) \<and>
     ss_drained s = map ((!) (nb_accepted b)) (nb_delivered b) \<and>
     ss_removed s = map ((!) (nb_accepted b)) (nb_withdrawn b)"

lemma represents_same:
  "represents s b \<Longrightarrow> ss_pushed t = ss_pushed s \<Longrightarrow> sq_items (ss_queue t) = sq_items (ss_queue s) \<Longrightarrow>
   ss_drained t = ss_drained s \<Longrightarrow> ss_removed t = ss_removed s \<Longrightarrow> \<exists>b'. notebook_step\<^sup>*\<^sup>* b b' \<and> represents t b'"
  by (intro exI [of _ b]) (auto simp: represents_def)

lemma represents_step:
  "notebook_step b b' \<Longrightarrow> represents s b \<Longrightarrow> ss_pushed t = nb_accepted b' \<Longrightarrow>
   sq_items (ss_queue t) = map ((!) (nb_accepted b')) (nb_waiting b') \<Longrightarrow>
   ss_drained t = map ((!) (nb_accepted b')) (nb_delivered b') \<Longrightarrow>
   ss_removed t = map ((!) (nb_accepted b')) (nb_withdrawn b') \<Longrightarrow>
   \<exists>b'. notebook_step\<^sup>*\<^sup>* b b' \<and> represents t b'"
  by (intro exI [of _ b']) (auto simp: represents_def intro: notebook_sys.step_inv)

lemma represents_bounded:
  "represents s b \<Longrightarrow> i \<in> set (nb_waiting b) \<union> set (nb_delivered b) \<union> set (nb_withdrawn b) \<Longrightarrow>
   i < length (nb_accepted b)"
  by (auto simp: represents_def notebook_inv_def)

lemma represents_push:
  assumes "represents s b"
  shows "\<exists>b'. notebook_step\<^sup>*\<^sup>* b b' \<and> represents (sys_push text s) b'"
proof (cases "py_strip text = []")
  case True
  with assms show ?thesis by (intro represents_same) (simp_all add: system_ops)
next
  case False
  let ?b = "b\<lparr>nb_accepted := nb_accepted b @ [py_strip text],
              nb_waiting := nb_waiting b @ [length (nb_accepted b)]\<rparr>"
  have step: "notebook_step b ?b" using False by (intro nb_accept) simp_all
  have "map ((!) (nb_accepted b @ [py_strip text])) ns = map ((!) (nb_accepted b)) ns"
    if "set ns \<subseteq> set (nb_waiting b) \<union> set (nb_delivered b) \<union> set (nb_withdrawn b)" for ns
    using represents_bounded [OF assms] that by (auto simp: nth_append subset_iff)
  then have "map ((!) (nb_accepted b @ [py_strip text])) (nb_waiting b) = map ((!) (nb_accepted b)) (nb_waiting b)"
    "map ((!) (nb_accepted b @ [py_strip text])) (nb_delivered b) = map ((!) (nb_accepted b)) (nb_delivered b)"
    "map ((!) (nb_accepted b @ [py_strip text])) (nb_withdrawn b) = map ((!) (nb_accepted b)) (nb_withdrawn b)"
    by blast+
  then show ?thesis using False assms
    by (intro represents_step [OF step assms]) (simp_all add: represents_def system_ops)
qed

lemma represents_withdraw_all:
  assumes "represents s b" "sq_items (ss_queue t) = []" "ss_pushed t = ss_pushed s"
    "ss_drained t = ss_drained s" "ss_removed t = ss_removed s @ sq_items (ss_queue s)"
  shows "\<exists>b'. notebook_step\<^sup>*\<^sup>* b b' \<and> represents t b'"
  using assms by (intro represents_step [OF nb_withdraw_all assms(1)]) (auto simp: represents_def)

lemma represents_drain:
  assumes "represents s b"
  shows "\<exists>b'. notebook_step\<^sup>*\<^sup>* b b' \<and> represents (sys_drain s) b'"
  using assms
  by (intro represents_step [OF nb_deliver assms])
     (auto simp: represents_def system_ops split: if_splits)

lemma represents_remove_at:
  assumes "represents s b"
  shows "\<exists>b'. notebook_step\<^sup>*\<^sup>* b b' \<and> represents (sys_remove_at index s) b'"
proof (cases "index < 0 \<or> int (length (sq_items (ss_queue s))) \<le> index")
  case True
  with assms show ?thesis by (intro represents_same) (auto simp: system_ops)
next
  case False
  then have i: "nat index < length (nb_waiting b)" using assms by (auto simp: represents_def)
  with assms False show ?thesis
    by (intro represents_step [OF nb_withdraw [OF i] assms])
       (auto simp: represents_def system_ops map_delete_nth split: if_splits)
qed

lemma represents_drainer:
  assumes "represents s b"
  shows "\<exists>b'. notebook_step\<^sup>*\<^sup>* b b' \<and> represents (drainer_move i escapes s) b'"
  by (rule represents_same [OF assms])
     (auto simp: drainer_move_def pop_notification_def drop_drainer_def Let_def
       split: steer_drainer.splits list.splits)

interpretation steer_refines: forward_sim is_new_steer steer_step is_new_notebook notebook_step represents
proof unfold_locales
  fix s
  assume "is_new_steer s"
  then show "\<exists>b. is_new_notebook b \<and> represents s b"
    by (simp add: is_new_notebook_def represents_def notebook_inv_def new_steer_system_def
        new_steer_queue_def)
next
  fix s b t
  assume rep: "represents s b" and "steer_step s t"
  from this(2) show "\<exists>b'. notebook_step\<^sup>*\<^sup>* b b' \<and> represents t b'"
  proof cases
    case (steer_add cb)
    with rep show ?thesis
      by (intro represents_same) (auto simp: add_listener_def split: option.splits)
  next
    case (steer_remove_listener l)
    with rep show ?thesis by (intro represents_same) (auto simp: remove_listener_def)
  next
    case (steer_push n)
    with rep show ?thesis by (simp add: represents_push)
  next
    case steer_dispatch
    then show ?thesis by (intro represents_same [OF rep]) (auto simp: system_ops)
  next
    case steer_drain
    with rep show ?thesis by (simp add: represents_drain)
  next
    case (steer_remove_at index)
    with rep show ?thesis by (simp add: represents_remove_at)
  next
    case steer_clear
    then show ?thesis by (intro represents_withdraw_all [OF rep]) (simp_all add: system_ops)
  next
    case steer_clear_silent
    then show ?thesis by (intro represents_withdraw_all [OF rep]) (simp_all add: system_ops)
  next
    case (steer_drainer i escapes)
    with rep show ?thesis by (simp add: represents_drainer)
  qed
qed

section \<open>Notifications\<close>

text \<open>The calls a queue of notifications stands for, and what is left of the one being delivered.\<close>

definition calls_of :: "(string list \<times> nat list) list \<Rightarrow> (nat \<times> string list) list" where
  "calls_of ns = concat (map (\<lambda>(snap, ls). map (\<lambda>l. (l, snap)) ls) ns)"

fun left_of :: "steer_drainer \<Rightarrow> (nat \<times> string list) list" where
  "left_of Popping = []"
| "left_of (Calling snap ls) = map (\<lambda>l. (l, snap)) ls"

lemma calls_of_simps [simp]:
  "calls_of [] = []" "calls_of ((snap, ls) # ns) = map (\<lambda>l. (l, snap)) ls @ calls_of ns"
  "calls_of (ns @ ms) = calls_of ns @ calls_of ms"
  by (simp_all add: calls_of_def)

definition steer_inv :: "steer_system \<Rightarrow> bool" where
  "steer_inv s \<longleftrightarrow>
     (if ss_escaped s then ss_drainers s = [] \<and> sq_notifying (ss_queue s)
      else length (ss_drainers s) = (if sq_notifying (ss_queue s) then 1 else 0) \<and>
           calls_of (ss_history s) =
             ss_calls s @ concat (map left_of (ss_drainers s)) @
             calls_of (sq_pending_notifications (ss_queue s)))"

lemma steer_inv_drainer:
  assumes "steer_inv s" "i < length (ss_drainers s)"
  shows "steer_inv (drainer_move i escapes s)"
proof -
  have alive: "\<not> ss_escaped s" using assms by (auto simp: steer_inv_def)
  with assms have notifying: "sq_notifying (ss_queue s)" and "length (ss_drainers s) = Suc 0"
    by (simp_all add: steer_inv_def split: if_splits)
  then obtain d where d: "ss_drainers s = [d]" "i = 0"
    using assms(2) by (auto simp: length_Suc_conv)
  have hist: "calls_of (ss_history s) =
      ss_calls s @ left_of d @ calls_of (sq_pending_notifications (ss_queue s))"
    using assms(1) alive d by (simp add: steer_inv_def)
  show ?thesis
  proof (cases d)
    case Popping
    with alive notifying d hist show ?thesis
      by (cases "sq_pending_notifications (ss_queue s)")
         (auto simp: steer_inv_def drainer_move_def pop_notification_def drop_drainer_def)
  next
    case (Calling snap ls)
    with alive notifying d hist show ?thesis
      by (cases ls; cases escapes)
         (simp_all add: steer_inv_def drainer_move_def drop_drainer_def)
  qed
qed

text \<open>What an operation does to the notifications: it queues some, and may enter the loop.\<close>

definition notes_changes :: "(string list \<times> nat list) list \<Rightarrow> steer_system \<Rightarrow> steer_system \<Rightarrow> bool" where
  "notes_changes ns s t \<longleftrightarrow>
     ss_history t = ss_history s @ ns \<and> ss_calls t = ss_calls s \<and> ss_escaped t = ss_escaped s \<and>
     sq_pending_notifications (ss_queue t) = sq_pending_notifications (ss_queue s) @ ns \<and>
     (sq_notifying (ss_queue t) = sq_notifying (ss_queue s) \<and> ss_drainers t = ss_drainers s \<or>
      \<not> sq_notifying (ss_queue s) \<and> sq_notifying (ss_queue t) \<and>
      ss_drainers t = ss_drainers s @ [Popping])"

lemma steer_inv_queues: "steer_inv s \<Longrightarrow> notes_changes ns s t \<Longrightarrow> steer_inv t"
  by (cases "ss_escaped s"; cases "sq_notifying (ss_queue s)") (auto simp: notes_changes_def steer_inv_def)

lemma ops_queue:
  "\<exists>ns. notes_changes ns s (sys_push text s)" "\<exists>ns. notes_changes ns s (sys_dispatch s)"
  "\<exists>ns. notes_changes ns s (sys_drain s)" "\<exists>ns. notes_changes ns s (sys_remove_at index s)"
  "\<exists>ns. notes_changes ns s (sys_clear s)" "\<exists>ns. notes_changes ns s (sys_clear_silent s)"
  "\<exists>ns. notes_changes ns s (s\<lparr>ss_queue := add_listener cb (ss_queue s)\<rparr>)"
  "\<exists>ns. notes_changes ns s (s\<lparr>ss_queue := remove_listener l (ss_queue s)\<rparr>)"
  by (simp_all add: notes_changes_def system_ops split: option.split)

interpretation steer_sys: inv_system is_new_steer steer_step steer_inv
proof unfold_locales
  fix s
  assume "is_new_steer s"
  then show "steer_inv s" by (simp add: steer_inv_def new_steer_system_def new_steer_queue_def)
next
  fix s t
  assume inv: "steer_inv s" and "steer_step s t"
  from this(2) show "steer_inv t"
    by cases (use inv ops_queue in \<open>blast intro: steer_inv_queues steer_inv_drainer\<close>)+
qed

text \<open>The whole run of a drainer whose listeners return: the calls it makes.\<close>

function dispatch_notifications :: "steer_queue \<Rightarrow> (nat \<times> string list) list \<times> steer_queue" where
  "dispatch_notifications q =
     (case pop_notification q of
        (None, q') \<Rightarrow> ([], q')
      | (Some (snap, ls), q') \<Rightarrow>
          (let (calls, q'') = dispatch_notifications q' in (map (\<lambda>l. (l, snap)) ls @ calls, q'')))"
  by auto
termination
  by (relation "measure (\<lambda>q. length (sq_pending_notifications q))")
     (auto simp: pop_notification_def split: list.splits)

declare dispatch_notifications.simps [simp del]

lemma dispatch_notifications_run:
  "dispatch_notifications q =
     (calls_of (sq_pending_notifications q), q\<lparr>sq_pending_notifications := [], sq_notifying := False\<rparr>)"
proof (induction q rule: dispatch_notifications.induct)
  case (1 q)
  show ?case
  proof (cases "sq_pending_notifications q")
    case Nil
    then show ?thesis
      by (subst dispatch_notifications.simps) (simp add: pop_notification_def)
  next
    case (Cons n ns)
    obtain snap ls where n: "n = (snap, ls)" by (cases n)
    have "dispatch_notifications (q\<lparr>sq_pending_notifications := ns\<rparr>) =
        (calls_of ns, q\<lparr>sq_pending_notifications := [], sq_notifying := False\<rparr>)"
      using 1 [of "Some (snap, ls)" "q\<lparr>sq_pending_notifications := ns\<rparr>" "(snap, ls)" snap ls] Cons n
      by (simp add: pop_notification_def)
    with Cons n show ?thesis
      by (subst dispatch_notifications.simps) (simp add: pop_notification_def)
  qed
qed

text \<open>\<open>push\<close> as one call, when no other thread and no listener interferes.\<close>

definition push :: "string \<Rightarrow> steer_queue \<Rightarrow> nat \<times> (nat \<times> string list) list \<times> steer_queue" where
  "push text q =
     (let (pending, q1) = push_silent text q; (claimed, q2) = dispatch_pending q1
      in (pending, if claimed then dispatch_notifications q2 else ([], q2)))"

section \<open>The message made of the notes\<close>

definition STEER_PREFIX :: string where "STEER_PREFIX = ''[Mid-run user guidance]''"

definition STEER_FOLLOWUP_PREFIX :: string where "STEER_FOLLOWUP_PREFIX = ''[steer follow-up]''"

definition newline :: string where "newline = [CHR 0x0A]"

definition steer_header :: string where
  "steer_header =
     STEER_PREFIX @ newline @
     ''The user is steering the current task. Incorporate the guidance below '' @
     ''into your next actions. Prefer adjusting the plan over restarting '' @
     ''unrelated work.'' @ newline"

text \<open>\<open>enumerate(cleaned, 1)\<close> joined by newlines.\<close>

fun numbered_lines :: "nat \<Rightarrow> string list \<Rightarrow> string" where
  "numbered_lines i [] = []"
| "numbered_lines i [line] = dec_digits i @ ''. '' @ line"
| "numbered_lines i (line # lines) = dec_digits i @ ''. '' @ line @ newline @ numbered_lines (Suc i) lines"

definition format_steer_message :: "string list \<Rightarrow> string" where
  "format_steer_message items =
     (let cleaned = filter (\<lambda>x. x \<noteq> []) (map py_strip items) in
      case cleaned of
        [] \<Rightarrow> []
      | [x] \<Rightarrow> steer_header @ newline @ x
      | _ \<Rightarrow> steer_header @ newline @ ''Multiple notes (in order):'' @ newline @ numbered_lines 1 cleaned)"

fun py_contains :: "string \<Rightarrow> string \<Rightarrow> bool" where
  "py_contains sub [] = (sub = [])"
| "py_contains sub (c # cs) = (take (length sub) (c # cs) = sub \<or> py_contains sub cs)"

definition py_startswith :: "string \<Rightarrow> string \<Rightarrow> bool" where
  "py_startswith s pre = (take (length pre) s = pre)"

text \<open>
  A message as the framework passes it: a dictionary or an object, the flag \<open>coding_steer\<close> of its
  keyword arguments, and its content.
\<close>

datatype content_block = TextBlock string | DictBlock "string option" | OtherBlock

datatype message_content = ContentText string | ContentBlocks "content_block list" | NoContent

record chat_message =
  cm_coding_steer :: bool
  cm_content :: message_content

fun block_text :: "content_block \<Rightarrow> string list" where
  "block_text (TextBlock s) = [s]"
| "block_text (DictBlock (Some (c # cs))) = [c # cs]"
| "block_text _ = []"

fun join_lines :: "string list \<Rightarrow> string" where
  "join_lines [] = []"
| "join_lines [x] = x"
| "join_lines (x # xs) = x @ newline @ join_lines xs"

fun content_text :: "message_content \<Rightarrow> string" where
  "content_text (ContentText s) = s"
| "content_text (ContentBlocks bs) = join_lines (concat (map block_text bs))"
| "content_text NoContent = []"

definition steer_text :: "string \<Rightarrow> bool" where
  "steer_text text \<longleftrightarrow>
     (let body = py_strip text in
      body \<noteq> [] \<and>
      (py_startswith body STEER_PREFIX \<or> py_contains STEER_PREFIX (take 80 body) \<or>
       py_startswith body STEER_FOLLOWUP_PREFIX))"

definition is_steer_message :: "chat_message option \<Rightarrow> string option \<Rightarrow> bool" where
  "is_steer_message msg text =
     (case (text, msg) of
        (Some t, _) \<Rightarrow> steer_text t
      | (None, None) \<Rightarrow> steer_text []
      | (None, Some m) \<Rightarrow> cm_coding_steer m \<or> steer_text (content_text (cm_content m)))"

text \<open>The hook before each model call; the number is \<open>steer_count\<close>.\<close>

definition before_model :: "steer_queue \<Rightarrow> (chat_message \<times> nat) option \<times> bool \<times> steer_queue" where
  "before_model q =
     (let ((items, claimed), q1) = drain q; content = format_steer_message items
      in (if items = [] \<or> content = [] then None
          else Some (\<lparr>cm_coding_steer = True, cm_content = ContentText content\<rparr>, length items),
          claimed, q1))"

section \<open>Properties\<close>

lemma py_strip_keeps_prefix:
  assumes "p \<noteq> []" "\<not> py_isspace (hd p)" "\<not> py_isspace (last p)"
  shows "\<exists>r. py_strip (p @ s) = p @ r"
proof -
  have "dropWhile py_isspace (p @ s) = p @ s"
    using assms(1,2) by (cases p) auto
  moreover have "dropWhile py_isspace (rev p) = rev p"
    using assms(1,3) by (cases p rule: rev_cases) auto
  ultimately show ?thesis by (auto simp: py_strip_def dropWhile_append)
qed

lemma steer_text_prefixed: "steer_text (STEER_PREFIX @ s)"
proof -
  have "STEER_PREFIX \<noteq> []" "\<not> py_isspace (hd STEER_PREFIX)" "\<not> py_isspace (last STEER_PREFIX)"
    by (simp_all add: STEER_PREFIX_def py_isspace_def)
  from py_strip_keeps_prefix [OF this] obtain r where "py_strip (STEER_PREFIX @ s) = STEER_PREFIX @ r"
    by blast
  then show ?thesis by (simp add: steer_text_def py_startswith_def STEER_PREFIX_def)
qed

lemma py_contains_middle: "x \<noteq> [] \<Longrightarrow> py_contains x (a @ x @ b)"
proof (induction a)
  case Nil
  then show ?case by (cases x) auto
next
  case (Cons c a)
  then show ?case by simp
qed

lemma numbered_line: "x \<in> set xs \<Longrightarrow> \<exists>a b. numbered_lines i xs = a @ x @ b"
proof (induction i xs rule: numbered_lines.induct)
  case (2 i line)
  then have "numbered_lines i [line] = (dec_digits i @ ''. '') @ x @ []" by simp
  then show ?case by blast
next
  case (3 i line l ls)
  show ?case
  proof (cases "x = line")
    case True
    then have "numbered_lines i (line # l # ls) =
        (dec_digits i @ ''. '') @ x @ newline @ numbered_lines (Suc i) (l # ls)" by simp
    then show ?thesis by blast
  next
    case False
    with 3 obtain a b where "numbered_lines (Suc i) (l # ls) = a @ x @ b" by auto
    then have "numbered_lines i (line # l # ls) =
        (dec_digits i @ ''. '' @ line @ newline @ a) @ x @ b" by simp
    then show ?thesis by blast
  qed
qed simp

lemma format_steer_message_clean:
  assumes "list_all (\<lambda>x. x \<noteq> [] \<and> py_strip x = x) items" "items \<noteq> []"
  shows "\<exists>r. format_steer_message items = STEER_PREFIX @ r \<and>
    list_all (\<lambda>x. py_contains x (format_steer_message items)) items"
proof -
  have clean: "filter (\<lambda>x. x \<noteq> []) (map py_strip items) = items"
    using assms(1) by (induction items) auto
  obtain r where r: "format_steer_message items = STEER_PREFIX @ r"
    "\<And>x. x \<in> set items \<Longrightarrow> \<exists>a b. r = a @ x @ b"
  proof (cases "\<exists>x. items = [x]")
    case True
    then obtain x where x: "items = [x]" by blast
    show ?thesis
    proof (rule that)
      show "format_steer_message items =
          STEER_PREFIX @ drop (length STEER_PREFIX) steer_header @ newline @ x"
        using clean x by (simp add: format_steer_message_def steer_header_def)
      show "\<exists>a b. drop (length STEER_PREFIX) steer_header @ newline @ x = a @ y @ b"
        if "y \<in> set items" for y
        using that x by (intro exI [of _ "drop (length STEER_PREFIX) steer_header @ newline"] exI [of _ "[]"]) simp
    qed
  next
    case False
    with assms(2) obtain x y ys where xs: "items = x # y # ys" by (cases items rule: list.exhaust; cases "tl items") auto
    let ?m = "drop (length STEER_PREFIX) steer_header @ newline @
        ''Multiple notes (in order):'' @ newline"
    show ?thesis
    proof (rule that)
      show "format_steer_message items = STEER_PREFIX @ ?m @ numbered_lines 1 items"
        using clean xs by (simp add: format_steer_message_def steer_header_def)
      show "\<exists>a b. ?m @ numbered_lines 1 items = a @ z @ b" if "z \<in> set items" for z
        using numbered_line [OF that, of 1] by (metis append.assoc)
    qed
  qed
  have "py_contains x (format_steer_message items)" if x: "x \<in> set items" for x
  proof -
    have "x \<noteq> []" using assms(1) x by (auto simp: list_all_iff)
    moreover obtain a b where "r = a @ x @ b" using r(2) [OF x] by blast
    ultimately show ?thesis using py_contains_middle [of x "STEER_PREFIX @ a" b] r(1) by simp
  qed
  with r(1) show ?thesis by (auto simp: list_all_iff)
qed

lemma reachable_items_clean:
  assumes "reach is_new_steer steer_step s"
  shows "list_all (\<lambda>x. x \<noteq> [] \<and> py_strip x = x) (sq_items (ss_queue s))"
proof -
  from steer_refines.reach_refines [OF assms] obtain b where b: "represents s b" by blast
  have "nb_accepted b ! i \<in> set (nb_accepted b)" if "i \<in> set (nb_waiting b)" for i
    using represents_bounded [OF b] that by simp
  with b show ?thesis by (auto simp: list_all_iff represents_def notebook_inv_def)
qed

text \<open>
  C33: Guidance is delivered once, in order, and never made up. Number the notes in the order in
  which they were accepted. In every reachable state the notes handed to the model, followed by the
  notes that wait, are a strictly increasing sequence of numbers; the notes the user has withdrawn
  are other ones, each withdrawn once; and there is no accepted note besides these. In particular,
  while nothing is withdrawn the model has received a prefix of what was accepted, and the rest
  waits in order.
\<close>

theorem steer_refines_notebook:
  assumes "reach is_new_steer steer_step s"
  shows "\<exists>ds ws rs.
    ss_drained s = map ((!) (ss_pushed s)) ds \<and>
    sq_items (ss_queue s) = map ((!) (ss_pushed s)) ws \<and>
    ss_removed s = map ((!) (ss_pushed s)) rs \<and>
    sorted_wrt (<) (ds @ ws) \<and> distinct rs \<and> set rs \<inter> set (ds @ ws) = {} \<and>
    set rs \<union> set (ds @ ws) = {..<length (ss_pushed s)} \<and>
    (if ss_removed s = [] then ss_pushed s = ss_drained s @ sq_items (ss_queue s) else True)"
proof -
  from steer_refines.reach_refines [OF assms] obtain b where b: "represents s b" by blast
  have "ss_pushed s = ss_drained s @ sq_items (ss_queue s)" if "ss_removed s = []"
  proof -
    have "nb_delivered b @ nb_waiting b = [0..<length (nb_accepted b)]"
      using b that by (intro strict_sorted_equal) (auto simp: represents_def notebook_inv_def)
    then have "map ((!) (nb_accepted b)) (nb_delivered b @ nb_waiting b) = nb_accepted b"
      by (simp add: map_nth)
    with b show ?thesis by (simp add: represents_def)
  qed
  with b show ?thesis
    by (intro exI [of _ "nb_delivered b"] exI [of _ "nb_waiting b"] exI [of _ "nb_withdrawn b"])
       (simp add: represents_def notebook_inv_def)
qed

definition steered :: steer_system where
  "steered = sys_drain (sys_remove_at 0 (sys_push ''c'' (sys_push '' b '' (sys_push ''a'' new_steer_system))))"

lemma steered_reachable: "reach is_new_steer steer_step steered"
proof -
  have "reach is_new_steer steer_step new_steer_system" by (rule reach_init) simp
  note this [THEN reach_step, OF steer_push, THEN reach_step, OF steer_push,
      THEN reach_step, OF steer_push, THEN reach_step, OF steer_remove_at,
      THEN reach_step, OF steer_drain]
  then show ?thesis unfolding steered_def .
qed

lemma steered_logs: "ss_drained steered = [''b'', ''c'']" "ss_removed steered = [''a'']"
  by code_simp+

theorem steer_refines_notebook_witness:
  "\<exists>ds ws rs. ss_drained steered = map ((!) (ss_pushed steered)) ds \<and>
    ss_drained steered = [''b'', ''c''] \<and> sorted_wrt (<) (ds @ ws) \<and>
    ss_removed steered = map ((!) (ss_pushed steered)) rs \<and> ss_removed steered = [''a'']"
proof -
  from steer_refines_notebook [OF steered_reachable] obtain ds ws rs where
    "ss_drained steered = map ((!) (ss_pushed steered)) ds"
    "ss_removed steered = map ((!) (ss_pushed steered)) rs" "sorted_wrt (<) (ds @ ws)"
    by (elim exE conjE) rule
  then show ?thesis by (intro exI conjI steered_logs)
qed

text \<open>
  Listeners see every change once and in order. Unless a listener has let a \<open>BaseException\<close>
  out, at most one thread delivers notifications, and the calls made so far, the calls the current
  notification still needs and the calls of the queued notifications are, in this order, all the
  calls the changes so far ask for: one per change and per listener registered at that change, with
  the items as they were after it. When nobody delivers and nothing is queued they have all been made.
\<close>

theorem steer_notifications_exact:
  assumes "reach is_new_steer steer_step s" "\<not> ss_escaped s"
  shows "length (ss_drainers s) \<le> 1 \<and>
    calls_of (ss_history s) = ss_calls s @ concat (map left_of (ss_drainers s)) @
      calls_of (sq_pending_notifications (ss_queue s)) \<and>
    (if ss_drainers s = [] \<and> sq_pending_notifications (ss_queue s) = []
     then ss_calls s = calls_of (ss_history s) else True) \<and>
    snd (dispatch_notifications (ss_queue s)) =
      (ss_queue s)\<lparr>sq_pending_notifications := [], sq_notifying := False\<rparr> \<and>
    fst (dispatch_notifications (ss_queue s)) = calls_of (sq_pending_notifications (ss_queue s))"
  using steer_sys.reach_inv [OF assms(1)] assms(2)
  by (auto simp: steer_inv_def dispatch_notifications_run split: if_splits)

definition notified :: steer_system where
  "notified =
     sys_push ''b'' (sys_dispatch (sys_push ''a''
       (new_steer_system\<lparr>ss_queue := add_listener (Some 7) (ss_queue new_steer_system)\<rparr>)))"

lemma notified_reachable: "reach is_new_steer steer_step notified"
proof -
  have "reach is_new_steer steer_step new_steer_system" by (rule reach_init) simp
  note this [THEN reach_step, OF steer_add, THEN reach_step, OF steer_push,
      THEN reach_step, OF steer_dispatch, THEN reach_step, OF steer_push]
  then show ?thesis unfolding notified_def .
qed

definition watched :: steer_system where
  "watched = drainer_move 0 False (drainer_move 0 False notified)"

definition interrupted :: steer_system where
  "interrupted = drainer_move 0 True (drainer_move 0 False notified)"

lemma notified_runs:
  "reach is_new_steer steer_step (drainer_move 0 e (drainer_move 0 False notified))"
proof -
  have n: "0 < length (ss_drainers notified)" by code_simp
  have m: "0 < length (ss_drainers (drainer_move 0 False notified))" by code_simp
  show ?thesis
    by (rule notified_reachable [THEN reach_step, OF steer_drainer [OF n],
          THEN reach_step, OF steer_drainer [OF m]])
qed

lemma watched_reachable: "reach is_new_steer steer_step watched"
  unfolding watched_def by (rule notified_runs)

lemma interrupted_reachable: "reach is_new_steer steer_step interrupted"
  unfolding interrupted_def by (rule notified_runs)

lemma watched_calls: "\<not> ss_escaped watched" "ss_calls watched = [(7, [''a''])]"
  by code_simp+

theorem steer_notifications_exact_witness:
  "calls_of (ss_history watched) = ss_calls watched @ concat (map left_of (ss_drainers watched)) @
     calls_of (sq_pending_notifications (ss_queue watched)) \<and>
   ss_calls watched = [(7, [''a''])]"
  using steer_notifications_exact [OF watched_reachable watched_calls(1)] watched_calls(2) by blast

text \<open>
  A listener that lets a \<open>BaseException\<close> out ends the notifications for good. The flag
  \<open>_notifying\<close> stays set with no thread delivering, so every later change only queues its
  notification: whatever happens from then on, no listener is called again.
\<close>

theorem escaped_listener_ends_notifications:
  assumes "reach is_new_steer steer_step s" "ss_escaped s" "steer_step\<^sup>*\<^sup>* s t"
  shows "ss_calls t = ss_calls s \<and> ss_drainers t = [] \<and> sq_notifying (ss_queue t)"
  using assms(3)
proof (induction rule: rtranclp_induct)
  case base
  show ?case using steer_sys.reach_inv [OF assms(1)] assms(2) by (simp add: steer_inv_def)
next
  case (step t u)
  from step.hyps(2) step.IH show ?case
    by cases (auto simp: system_ops split: option.splits)
qed

theorem escaped_listener_ends_notifications_witness:
  "ss_calls (sys_dispatch (sys_push ''c'' interrupted)) = ss_calls interrupted \<and>
   sq_pending_notifications (ss_queue (sys_dispatch (sys_push ''c'' interrupted))) \<noteq> []"
proof -
  have "ss_escaped interrupted" by code_simp
  moreover have "steer_step\<^sup>*\<^sup>* interrupted (sys_dispatch (sys_push ''c'' interrupted))"
    by (rule rtranclp.rtrancl_into_rtrancl [OF r_into_rtranclp]) (rule steer_push, rule steer_dispatch)
  moreover have "sq_pending_notifications (ss_queue (sys_dispatch (sys_push ''c'' interrupted))) \<noteq> []"
    by code_simp
  ultimately show ?thesis
    using escaped_listener_ends_notifications [OF interrupted_reachable] by blast
qed

text \<open>
  The hook before a model call. In every reachable state it empties the queue; it adds a
  message exactly when notes wait; the message starts with the marker by which the transcript and
  the status bar recognise guidance, contains every waiting note, and carries their number.
\<close>

theorem before_model_delivers:
  assumes "reach is_new_steer steer_step s" "before_model (ss_queue s) = (added, claimed, q)"
  shows "sq_items q = [] \<and>
    (case added of
       None \<Rightarrow> sq_items (ss_queue s) = []
     | Some (m, n) \<Rightarrow>
         n = length (sq_items (ss_queue s)) \<and> 0 < n \<and> cm_coding_steer m \<and>
         steer_text (content_text (cm_content m)) \<and>
         list_all (\<lambda>x. py_contains x (content_text (cm_content m))) (sq_items (ss_queue s)))"
proof (cases "sq_items (ss_queue s) = []")
  case True
  with assms(2) show ?thesis by (auto simp: before_model_def queue_ops)
next
  case False
  from format_steer_message_clean [OF reachable_items_clean [OF assms(1)] False] obtain r where r:
    "format_steer_message (sq_items (ss_queue s)) = STEER_PREFIX @ r"
    "list_all (\<lambda>x. py_contains x (format_steer_message (sq_items (ss_queue s)))) (sq_items (ss_queue s))"
    by blast
  then have "format_steer_message (sq_items (ss_queue s)) \<noteq> []" by (simp add: STEER_PREFIX_def)
  moreover have "steer_text (format_steer_message (sq_items (ss_queue s)))"
    unfolding r(1) by (rule steer_text_prefixed)
  ultimately show ?thesis using assms(2) False r(2)
    by (auto simp: before_model_def queue_ops split: if_splits)
qed

theorem before_model_delivers_witness:
  "\<exists>m q. before_model (ss_queue notified) = (Some (m, 2), False, q) \<and> sq_items q = [] \<and>
     steer_text (content_text (cm_content m)) \<and> py_contains ''b'' (content_text (cm_content m))"
proof -
  have items: "sq_items (ss_queue notified) = [''a'', ''b'']" "sq_notifying (ss_queue notified)"
    by code_simp+
  obtain added claimed q where b: "before_model (ss_queue notified) = (added, claimed, q)"
    by (cases "before_model (ss_queue notified)") auto
  have c: "claimed = False" using b items
    by (simp add: before_model_def queue_ops)
  from before_model_delivers [OF notified_reachable b] items b c show ?thesis
    by (auto split: option.splits)
qed

end
