(* ===== verification/Goal_Store.thy ===== *)
theory Goal_Store
  imports Py_Text
begin

text \<open>
  The thread goal of \<open>goals/model.py\<close> and its durable table, \<open>goals/store.py\<close>: one row per thread,
  keyed by the thread id, written by guarded statements under the store's lock. A statement's clock
  reading and a fresh goal id are arguments. The steering prompt of \<open>goals/steering.py\<close> is named by
  its template and the goal it is filled with.
\<close>

section \<open>The goal\<close>

datatype thread_goal_status = ACTIVE | PAUSED | BLOCKED | USAGE_LIMITED | BUDGET_LIMITED | COMPLETE

instantiation thread_goal_status :: enum
begin

definition "enum_thread_goal_status =
  [ACTIVE, PAUSED, BLOCKED, USAGE_LIMITED, BUDGET_LIMITED, COMPLETE]"
definition "enum_all_thread_goal_status P \<longleftrightarrow>
  list_all P [ACTIVE, PAUSED, BLOCKED, USAGE_LIMITED, BUDGET_LIMITED, COMPLETE]"
definition "enum_ex_thread_goal_status P \<longleftrightarrow>
  list_ex P [ACTIVE, PAUSED, BLOCKED, USAGE_LIMITED, BUDGET_LIMITED, COMPLETE]"

instance
proof
  show "(UNIV :: thread_goal_status set) = set enum_class.enum"
    unfolding enum_thread_goal_status_def by (auto intro: thread_goal_status.exhaust)
  show "distinct (enum_class.enum :: thread_goal_status list)"
    by (simp add: enum_thread_goal_status_def)
  show "enum_class.enum_all P \<longleftrightarrow> Ball UNIV P" for P :: "thread_goal_status \<Rightarrow> bool"
    by (simp add: enum_all_thread_goal_status_def) (metis thread_goal_status.exhaust)
  show "enum_class.enum_ex P \<longleftrightarrow> Bex UNIV P" for P :: "thread_goal_status \<Rightarrow> bool"
    by (simp add: enum_ex_thread_goal_status_def) (metis thread_goal_status.exhaust)
qed

end

fun status_value :: "thread_goal_status \<Rightarrow> string" where
  "status_value ACTIVE = ''active''"
| "status_value PAUSED = ''paused''"
| "status_value BLOCKED = ''blocked''"
| "status_value USAGE_LIMITED = ''usage_limited''"
| "status_value BUDGET_LIMITED = ''budget_limited''"
| "status_value COMPLETE = ''complete''"

definition is_terminal :: "thread_goal_status \<Rightarrow> bool" where
  "is_terminal s \<longleftrightarrow> s \<in> {COMPLETE, BLOCKED, USAGE_LIMITED}"

definition is_replaceable :: "thread_goal_status \<Rightarrow> bool" where
  "is_replaceable s = is_terminal s"

fun label :: "thread_goal_status \<Rightarrow> string" where
  "label ACTIVE = ''active''"
| "label PAUSED = ''paused''"
| "label BLOCKED = ''stalled''"
| "label USAGE_LIMITED = ''usage limited''"
| "label BUDGET_LIMITED = ''limited by budget''"
| "label COMPLETE = ''complete''"

record thread_goal =
  goal_thread_id :: string
  goal_id :: string
  goal_objective :: string
  goal_status :: thread_goal_status
  goal_token_budget :: "int option"
  goal_tokens_used :: int
  goal_time_used_seconds :: int
  goal_created_at_ms :: int
  goal_updated_at_ms :: int

definition remaining_tokens :: "thread_goal \<Rightarrow> int option" where
  "remaining_tokens g =
     (case goal_token_budget g of None \<Rightarrow> None | Some b \<Rightarrow> Some (max 0 (b - goal_tokens_used g)))"

definition MAX_GOAL_OBJECTIVE_CHARS :: nat where "MAX_GOAL_OBJECTIVE_CHARS = 10000"

definition validate_goal_objective :: "string option \<Rightarrow> string option" where
  "validate_goal_objective objective =
     (let text = py_strip (case objective of None \<Rightarrow> [] | Some s \<Rightarrow> s) in
      if text = [] then Some ''goal objective must not be empty''
      else if MAX_GOAL_OBJECTIVE_CHARS < length text
      then Some (''goal objective too long: '' @ py_str_int (int (length text)) @ '' > '' @
             py_str_int (int MAX_GOAL_OBJECTIVE_CHARS) @ '' chars'')
      else None)"

definition validate_goal_budget :: "int option \<Rightarrow> string option" where
  "validate_goal_budget token_budget =
     (case token_budget of
        None \<Rightarrow> None
      | Some b \<Rightarrow> if b \<le> 0 then Some ''token_budget must be a positive integer'' else None)"

definition goal_token_delta :: "int \<Rightarrow> int \<Rightarrow> int \<Rightarrow> int" where
  "goal_token_delta input_tokens output_tokens cache_read_tokens =
     (let billable_input = max 0 (max 0 input_tokens - max 0 cache_read_tokens)
      in billable_input + max 0 output_tokens)"

datatype steering_prompt = ContinuationPrompt thread_goal | BudgetLimitPrompt thread_goal

definition continuation_for_status :: "thread_goal \<Rightarrow> steering_prompt option" where
  "continuation_for_status g =
     (if goal_status g = ACTIVE then Some (ContinuationPrompt g)
      else if goal_status g = BUDGET_LIMITED then Some (BudgetLimitPrompt g)
      else None)"

section \<open>The table\<close>

type_synonym goal_store = "string \<Rightarrow> thread_goal option"

definition store_get :: "string \<Rightarrow> goal_store \<Rightarrow> thread_goal option" where
  "store_get tid st = st tid"

text \<open>\<open>goal_id or new_goal_id()\<close>: the fresh id is used when none, or an empty one, is given.\<close>

definition store_insert ::
  "string \<Rightarrow> string \<Rightarrow> thread_goal_status \<Rightarrow> int option \<Rightarrow> string option \<Rightarrow> string \<Rightarrow> int \<Rightarrow>
     goal_store \<Rightarrow> thread_goal option \<times> goal_store" where
  "store_insert tid objective status token_budget gid fresh now_ms st =
     (let goal = \<lparr>goal_thread_id = tid,
                  goal_id = (case gid of Some (c # cs) \<Rightarrow> c # cs | _ \<Rightarrow> fresh),
                  goal_objective = objective, goal_status = status,
                  goal_token_budget = token_budget, goal_tokens_used = 0,
                  goal_time_used_seconds = 0, goal_created_at_ms = now_ms,
                  goal_updated_at_ms = now_ms\<rparr>
      in case st tid of
           Some cur \<Rightarrow>
             if \<not> is_replaceable (goal_status cur) then (None, st)
             else (Some goal, (st(tid := None))(tid \<mapsto> goal))
         | None \<Rightarrow> (Some goal, st(tid \<mapsto> goal)))"

text \<open>The \<open>token_budget\<close> argument of \<open>update\<close>: \<open>...\<close>, or a new value that may be None.\<close>

datatype budget_arg = KeepBudget | SetBudget "int option"

record goal_update =
  gu_objective :: "string option"
  gu_status :: "thread_goal_status option"
  gu_token_budget :: budget_arg
  gu_expected_goal_id :: "string option"
  gu_expected_status :: "thread_goal_status option"
  gu_now_ms :: int

definition no_update :: goal_update where
  "no_update = \<lparr>gu_objective = None, gu_status = None, gu_token_budget = KeepBudget,
     gu_expected_goal_id = None, gu_expected_status = None, gu_now_ms = 0\<rparr>"

definition update_fields_empty :: "goal_update \<Rightarrow> bool" where
  "update_fields_empty u \<longleftrightarrow>
     gu_objective u = None \<and> gu_status u = None \<and> gu_token_budget u = KeepBudget"

definition update_where :: "goal_update \<Rightarrow> thread_goal \<Rightarrow> bool" where
  "update_where u g \<longleftrightarrow>
     (case gu_expected_goal_id u of None \<Rightarrow> True | Some i \<Rightarrow> goal_id g = i) \<and>
     (case gu_expected_status u of None \<Rightarrow> True | Some s \<Rightarrow> goal_status g = s)"

definition update_set :: "goal_update \<Rightarrow> thread_goal \<Rightarrow> thread_goal" where
  "update_set u g =
     g\<lparr>goal_objective := (case gu_objective u of None \<Rightarrow> goal_objective g | Some x \<Rightarrow> x),
       goal_status := (case gu_status u of None \<Rightarrow> goal_status g | Some x \<Rightarrow> x),
       goal_token_budget :=
         (case gu_token_budget u of KeepBudget \<Rightarrow> goal_token_budget g | SetBudget x \<Rightarrow> x),
       goal_updated_at_ms := gu_now_ms u\<rparr>"

definition store_update :: "goal_update \<Rightarrow> string \<Rightarrow> goal_store \<Rightarrow> thread_goal option \<times> goal_store" where
  "store_update u tid st =
     (if update_fields_empty u then (store_get tid st, st)
      else case st tid of
             None \<Rightarrow> (None, st)
           | Some g \<Rightarrow>
               if update_where u g then (Some (update_set u g), st(tid \<mapsto> update_set u g))
               else (None, st))"

definition store_clear :: "string option \<Rightarrow> string \<Rightarrow> goal_store \<Rightarrow> thread_goal option \<times> goal_store" where
  "store_clear expected_goal_id tid st =
     (case st tid of
        None \<Rightarrow> (None, st)
      | Some g \<Rightarrow>
          if expected_goal_id \<noteq> None \<and> Some (goal_id g) \<noteq> expected_goal_id then (None, st)
          else (Some g, st(tid := None)))"

record usage_args =
  ua_time_delta_seconds :: int
  ua_token_delta :: int
  ua_allow_complete :: bool
  ua_allow_stopped :: bool
  ua_expected_goal_id :: "string option"
  ua_now_ms :: int

definition usage_statuses :: "usage_args \<Rightarrow> thread_goal_status list" where
  "usage_statuses u =
     [ACTIVE, BUDGET_LIMITED] @ (if ua_allow_complete u then [COMPLETE] else []) @
     (if ua_allow_stopped u then [PAUSED, BLOCKED, USAGE_LIMITED] else [])"

definition usage_where :: "usage_args \<Rightarrow> thread_goal \<Rightarrow> bool" where
  "usage_where u g \<longleftrightarrow>
     goal_status g \<in> set (usage_statuses u) \<and>
     (case ua_expected_goal_id u of None \<Rightarrow> True | Some i \<Rightarrow> goal_id g = i)"

text \<open>The \<open>SET\<close> clause; its right-hand sides read the row as it was.\<close>

definition usage_set :: "int \<Rightarrow> int \<Rightarrow> int \<Rightarrow> thread_goal \<Rightarrow> thread_goal" where
  "usage_set time_delta token_delta now_ms g =
     g\<lparr>goal_time_used_seconds := goal_time_used_seconds g + time_delta,
       goal_tokens_used := goal_tokens_used g + token_delta,
       goal_status :=
         (if goal_status g = ACTIVE \<and>
             (case goal_token_budget g of None \<Rightarrow> False | Some b \<Rightarrow> b \<le> goal_tokens_used g + token_delta)
          then BUDGET_LIMITED else goal_status g),
       goal_updated_at_ms := now_ms\<rparr>"

definition account_usage :: "usage_args \<Rightarrow> string \<Rightarrow> goal_store \<Rightarrow> thread_goal option \<times> goal_store" where
  "account_usage u tid st =
     (let time_delta = max 0 (ua_time_delta_seconds u);
          token_delta = max 0 (ua_token_delta u)
      in if time_delta = 0 \<and> token_delta = 0 then (store_get tid st, st)
         else case st tid of
                None \<Rightarrow> (None, st)
              | Some g \<Rightarrow>
                  if usage_where u g
                  then (Some (usage_set time_delta token_delta (ua_now_ms u) g),
                        st(tid \<mapsto> usage_set time_delta token_delta (ua_now_ms u) g))
                  else (None, st))"

section \<open>The contract of the guarded statements\<close>

definition update_guard :: "goal_update \<Rightarrow> thread_goal \<Rightarrow> bool" where
  "update_guard u g \<longleftrightarrow> update_fields_empty u \<or> update_where u g"

definition usage_guard :: "usage_args \<Rightarrow> thread_goal \<Rightarrow> bool" where
  "usage_guard u g \<longleftrightarrow> (ua_time_delta_seconds u \<le> 0 \<and> ua_token_delta u \<le> 0) \<or> usage_where u g"

interpretation goal_update_op: row_op "\<lambda>st tid. st tid" store_update update_guard
  by unfold_locales
     (auto simp: store_update_def update_guard_def store_get_def split: option.splits if_splits)

interpretation goal_usage_op: row_op "\<lambda>st tid. st tid" account_usage usage_guard
  by unfold_locales
     (auto simp: account_usage_def usage_guard_def store_get_def Let_def max_def
       split: option.splits if_splits)

end
