(* ===== verification/Session_Runtime.thy ===== *)
theory Session_Runtime
  imports Session_Turn Session_Events Steer_Queue Goal_Store
begin

text \<open>
  One session (\<open>runtime/sessions/runtime.py\<close>): which turn owns it, reservations, approvals,
  cancellation, mid-run guidance, settlement, and closing.

  \<open>session_runtime\<close> holds the attributes of the class. A turn handle is its turn id, because the id
  is a fresh uuid and the rest of the handle (the future and the cancel token) lives in the world:
  \<open>session\<close> extends the record with the futures (\<open>sw_futures\<close>: absent while the turn runs), the
  tokens, the steer queues of the agents, the settlement tasks with the point they have reached
  (\<open>settle_phase\<close>), the turn between \<open>start\<close> and \<open>_schedule_settlement\<close>, and the close in flight.
  The fields from \<open>sw_started\<close> on only record what happened.

  Each section under the session's lock is one operation. The coroutines run on one event loop, so a
  coroutine is cut at its awaits and between its locked sections, where methods of other threads may
  run: \<open>start\<close> and \<open>_schedule_settlement\<close> have no await between them, so no other coroutine runs
  there. The clock (\<open>_last_activity_at\<close>), the status observer and the history of completed
  settlements (\<open>_settlement_complete\<close>, which only late waiters read) are not part of the model. The
  outcomes of the external parts are arguments: fresh ids, how a turn ends, what the persistence hook
  and the goal service answer.
\<close>

section \<open>State\<close>

datatype session_status =
    COLD | IDLE | QUEUED | STARTING | RUNNING | CANCELLING | CANCELLED | WAITING_APPROVAL | FAILED
  | CLOSED

definition ACTIVE_SESSION_STATUSES :: "session_status list" where
  "ACTIVE_SESSION_STATUSES = [QUEUED, STARTING, RUNNING, CANCELLING, WAITING_APPROVAL]"

record session_usage =
  use_input_tokens :: int
  use_output_tokens :: int
  use_cache_tokens :: int

definition total_tokens :: "session_usage \<Rightarrow> int" where
  "total_tokens u = use_input_tokens u + use_output_tokens u"

definition no_usage :: session_usage where
  "no_usage = \<lparr>use_input_tokens = 0, use_output_tokens = 0, use_cache_tokens = 0\<rparr>"

text \<open>
  A counter of the durable row: absent or falsy is 0, a negative one is 0, one that \<open>int\<close> refuses is 0.
\<close>

fun usage_count :: "pyval option \<Rightarrow> int" where
  "usage_count (Some (PInt i)) = max 0 i"
| "usage_count (Some (PBool True)) = 1"
| "usage_count (Some (PStr s)) = (case py_int_text s of None \<Rightarrow> 0 | Some i \<Rightarrow> max 0 i)"
| "usage_count _ = 0"

definition usage_from :: "(string \<times> pyval) list option \<Rightarrow> session_usage" where
  "usage_from seed =
     (case seed of
        None \<Rightarrow> no_usage
      | Some row \<Rightarrow>
          \<lparr>use_input_tokens = usage_count (map_of row ''input_tokens''),
           use_output_tokens = usage_count (map_of row ''output_tokens''),
           use_cache_tokens = usage_count (map_of row ''cache_tokens'')\<rparr>)"

record execution_binding =
  eb_agent :: nat
  eb_settings :: nat

record user_turn =
  ut_request :: "turn_request option"
  ut_cancel_token :: "cancel_token option"
  ut_approval_resume :: bool

record turn_reservation =
  rv_thread_id :: string
  rv_token :: string
  rv_approval_turn_id :: "string option"
  rv_approval_generation :: "nat option"
  rv_binding :: "execution_binding option"

datatype session_error =
    RuntimeClosedError string
  | SessionBusyError string
  | NoActiveTurnError string
  | TurnMismatchError string string
  | SteeringUnavailableError
  | SessionValueError string
  | SessionRuntimeError string

record session_runtime =
  sn_thread_id :: string
  sn_binding :: execution_binding
  sn_broker :: broker
  sn_status :: session_status
  sn_active_handle :: "string option"
  sn_latest_handle :: "string option"
  sn_active_context :: "turn_context option"
  sn_turn_generation :: nat
  sn_reservation :: "turn_reservation option"
  sn_approval_claim :: "(string \<times> string \<times> nat) option"
  sn_consumed_claim :: "(string \<times> nat) option"
  sn_usage :: session_usage
  sn_last_error :: "string option"
  sn_goal :: "thread_goal option"
  sn_closed :: bool
  sn_settling :: "string set"

text \<open>A turn's future holds a result, or an exception the runner did not turn into one.\<close>

datatype turn_outcome = Finished turn_result | Broken string

text \<open>
  Where \<open>_settle\<close> is: waiting for the turn's future; after the persistence hook, with the values it
  has computed; after the locked section that cleared the turn; waiting for the goal follow-up; before the last
  locked section; and at the end, before the task's done callback.
\<close>

datatype settle_phase =
    Awaiting
  | Persisted turn_result session_usage session_status "string option" nat
  | Cleared turn_result session_status
  | Following turn_result session_status
  | Publishing session_status
  | Ended

text \<open>A close in flight: the handle it captured, and what it will return.\<close>

datatype close_state = NotClosing | ClosingTurn "string option" bool | CloseDone

record session = session_runtime +
  sw_futures :: "string \<Rightarrow> turn_outcome option"
  sw_tokens :: "string \<Rightarrow> cancel_token"
  sw_contexts :: "string \<Rightarrow> turn_context option"
  sw_queues :: "nat \<Rightarrow> steer_queue option"
  sw_tasks :: "(string \<times> settle_phase) list"
  sw_starting :: "string option"
  sw_close :: close_state
  sw_started :: "string list"
  sw_charged :: "(string \<times> turn_result) list"
  sw_addressed :: "nat \<Rightarrow> string list"
  sw_guided :: "(string \<times> string) list"
  sw_seed :: session_usage
  sw_claims :: "string list"
  sw_resumes :: "(string \<times> string) list"

definition handle_done :: "session \<Rightarrow> string \<Rightarrow> bool" where
  "handle_done s t \<longleftrightarrow> sw_futures s t \<noteq> None"

definition live_handle :: "session \<Rightarrow> string option" where
  "live_handle s =
     (case sn_active_handle s of
        None \<Rightarrow> None | Some t \<Rightarrow> if handle_done s t then None else Some t)"

definition new_session ::
  "string \<Rightarrow> execution_binding \<Rightarrow> broker \<Rightarrow> (string \<times> pyval) list option \<Rightarrow>
     (nat \<Rightarrow> steer_queue option) \<Rightarrow> session" where
  "new_session thread_id binding broker seed queues =
     \<lparr>sn_thread_id = thread_id, sn_binding = binding, sn_broker = broker, sn_status = IDLE,
      sn_active_handle = None, sn_latest_handle = None, sn_active_context = None,
      sn_turn_generation = 0, sn_reservation = None, sn_approval_claim = None,
      sn_consumed_claim = None, sn_usage = usage_from seed, sn_last_error = None, sn_goal = None,
      sn_closed = False, sn_settling = {},
      sw_futures = (\<lambda>_. None), sw_tokens = (\<lambda>_. new_cancel_token), sw_contexts = (\<lambda>_. None),
      sw_queues = queues, sw_tasks = [], sw_starting = None, sw_close = NotClosing,
      sw_started = [], sw_charged = [], sw_addressed = (\<lambda>_. []), sw_guided = [], sw_seed = usage_from seed, sw_claims = [], sw_resumes = []\<rparr>"

section \<open>Reservations\<close>

definition reserve_turn :: "string \<Rightarrow> session \<Rightarrow> turn_reservation option \<times> session" where
  "reserve_turn token s =
     (if sn_closed s \<or> sn_reservation s \<noteq> None \<or> sn_settling s \<noteq> {} \<or> live_handle s \<noteq> None
      then (None, s)
      else
        let r = \<lparr>rv_thread_id = sn_thread_id s, rv_token = token, rv_approval_turn_id = None,
                 rv_approval_generation = None, rv_binding = None\<rparr>
        in (Some r, s\<lparr>sn_reservation := Some r, sn_status := STARTING\<rparr>))"

definition active_context_binding :: "session \<Rightarrow> execution_binding" where
  "active_context_binding s =
     (case sn_active_context s of
        None \<Rightarrow> sn_binding s
      | Some c \<Rightarrow> \<lparr>eb_agent = the (tx_agent c), eb_settings = tx_settings c\<rparr>)"

definition approval_reservation :: "string \<times> nat \<Rightarrow> string \<Rightarrow> session \<Rightarrow> turn_reservation" where
  "approval_reservation claim t s =
     \<lparr>rv_thread_id = sn_thread_id s, rv_token = fst claim, rv_approval_turn_id = Some t,
      rv_approval_generation = Some (snd claim), rv_binding = Some (active_context_binding s)\<rparr>"

definition reserve_turn_or_raise ::
  "bool \<Rightarrow> (string \<times> nat) option \<Rightarrow> string \<Rightarrow> session \<Rightarrow>
     (session_error + turn_reservation) \<times> session" where
  "reserve_turn_or_raise approval_resume approval_claim token s =
     (if sn_closed s then (Inl (RuntimeClosedError ''session runtime is closed''), s)
      else if sn_reservation s \<noteq> None
      then (Inl (SessionBusyError ''session already has a reserved turn''), s)
      else if sn_settling s \<noteq> {}
      then (Inl (SessionBusyError ''session is still settling the previous turn''), s)
      else if live_handle s \<noteq> None
      then (Inl (SessionBusyError ''session already has an active turn''), s)
      else if approval_resume then
        (case (sn_active_handle s, approval_claim) of
           (Some t, Some claim) \<Rightarrow>
             if sn_status s = WAITING_APPROVAL \<and> Some claim = sn_consumed_claim s \<and>
                snd claim = sn_turn_generation s
             then let r = approval_reservation claim t s
                  in (Inr r, s\<lparr>sn_reservation := Some r, sn_status := STARTING\<rparr>)
             else (Inl (SessionBusyError ''approval resume is no longer authorized''), s)
         | _ \<Rightarrow> (Inl (SessionBusyError ''approval resume is no longer authorized''), s))
      else if sn_status s = WAITING_APPROVAL
      then (Inl (SessionBusyError ''session is waiting for approval''), s)
      else
        let r = \<lparr>rv_thread_id = sn_thread_id s, rv_token = token, rv_approval_turn_id = None,
                 rv_approval_generation = None, rv_binding = None\<rparr>
        in (Inr r, s\<lparr>sn_reservation := Some r, sn_status := STARTING\<rparr>))"

definition release_turn :: "turn_reservation \<Rightarrow> session \<Rightarrow> bool \<times> session" where
  "release_turn r s =
     (if sn_reservation s \<noteq> Some r then (False, s)
      else (True, s\<lparr>sn_reservation := None, sn_status := IDLE\<rparr>))"

definition claimed :: "session \<Rightarrow> bool" where
  "claimed s \<longleftrightarrow> sn_reservation s \<noteq> None \<or> sn_settling s \<noteq> {} \<or> live_handle s \<noteq> None"

definition mark_queued :: "session \<Rightarrow> (session_error + unit) \<times> session" where
  "mark_queued s =
     (if sn_closed s then (Inl (RuntimeClosedError ''session runtime is closed''), s)
      else if live_handle s \<noteq> None
      then (Inl (SessionBusyError ''session already has an active turn''), s)
      else (Inr (), s\<lparr>sn_status := QUEUED\<rparr>))"

definition clear_queued :: "session \<Rightarrow> session" where
  "clear_queued s = (if sn_status s \<in> {QUEUED, STARTING} then s\<lparr>sn_status := IDLE\<rparr> else s)"

definition mark_starting :: "session \<Rightarrow> (session_error + unit) \<times> session" where
  "mark_starting s =
     (if sn_status s \<noteq> QUEUED
      then (Inl (SessionRuntimeError ''session must be queued before starting''), s)
      else (Inr (), s\<lparr>sn_status := STARTING\<rparr>))"

section \<open>Approvals\<close>

text \<open>
  Both operations fence the waiting turn under the lock, ask the agent for its interrupt outside it
  (\<open>pending\<close>: the actions found, if any), and fence it again with the generation they had read.
\<close>

definition approval_fence :: "string \<Rightarrow> session \<Rightarrow> session_error + nat" where
  "approval_fence expected s =
     (case sn_active_handle s of
        None \<Rightarrow> Inl (NoActiveTurnError ''no approval is pending'')
      | Some t \<Rightarrow>
          if sn_status s \<noteq> WAITING_APPROVAL then Inl (NoActiveTurnError ''no approval is pending'')
          else if t \<noteq> expected
          then Inl (TurnMismatchError expected ''approval turn does not match expected turn'')
          else Inr (sn_turn_generation s))"

definition still_waiting :: "string \<Rightarrow> nat \<Rightarrow> session \<Rightarrow> bool" where
  "still_waiting expected generation s \<longleftrightarrow>
     sn_status s = WAITING_APPROVAL \<and> sn_active_handle s = Some expected \<and>
     sn_turn_generation s = generation"

definition pending_approval ::
  "string \<Rightarrow> nat \<Rightarrow> (string \<times> pyval) list option \<Rightarrow> session \<Rightarrow>
     session_error + string \<times> (string \<times> pyval) list" where
  "pending_approval expected generation pending s =
     (case pending of
        None \<Rightarrow> Inl (NoActiveTurnError ''approval is no longer pending'')
      | Some actions \<Rightarrow>
          if still_waiting expected generation s then Inr (expected, actions)
          else Inl (NoActiveTurnError ''approval is no longer pending''))"

definition build_approval_resume ::
  "string \<Rightarrow> nat \<Rightarrow> (string \<times> pyval) list option \<Rightarrow> pyval list \<Rightarrow> (pyval list \<Rightarrow> pyval) \<Rightarrow> int \<Rightarrow>
     string \<Rightarrow> session \<Rightarrow> (session_error + turn_request) \<times> session" where
  "build_approval_resume expected generation pending decisions command max_concurrency token s =
     (if pending = None \<or> length (the pending) \<noteq> length decisions \<or>
         \<not> still_waiting expected generation s
      then (Inl (NoActiveTurnError ''approval is no longer pending''), s)
      else
        (Inr (build_resume_request (command decisions) (sn_thread_id s) max_concurrency
                (case sn_active_context s of None \<Rightarrow> [] | Some c \<Rightarrow> rq_config (tx_request c))),
         s\<lparr>sn_approval_claim := Some (token, expected, generation),
           sw_claims := sw_claims s @ [token]\<rparr>))"

definition take_approval_claim :: "string \<Rightarrow> session \<Rightarrow> (session_error + string \<times> nat) \<times> session" where
  "take_approval_claim expected s =
     (case sn_approval_claim s of
        Some (token, t, generation) \<Rightarrow>
          if t = expected
          then (Inr (token, generation),
                s\<lparr>sn_approval_claim := None, sn_consumed_claim := Some (token, generation)\<rparr>)
          else (Inl (NoActiveTurnError ''approval is no longer pending''), s)
      | None \<Rightarrow> (Inl (NoActiveTurnError ''approval is no longer pending''), s))"

section \<open>Starting a turn\<close>

definition owns_reservation :: "turn_reservation option \<Rightarrow> session \<Rightarrow> bool" where
  "owns_reservation r s \<longleftrightarrow> sn_reservation s \<noteq> None \<and> r = sn_reservation s"

definition resume_authorized :: "turn_reservation option \<Rightarrow> session \<Rightarrow> bool" where
  "resume_authorized reservation s \<longleftrightarrow>
     owns_reservation reservation s \<and>
     (case (reservation, sn_consumed_claim s) of
        (Some r, Some c) \<Rightarrow>
          rv_approval_turn_id r \<noteq> None \<and> rv_approval_generation r = Some (sn_turn_generation s) \<and>
          rv_token r = fst c
      | _ \<Rightarrow> False)"

text \<open>The refusals of \<open>start\<close>, in the order of the code.\<close>

definition start_refusal ::
  "user_turn \<Rightarrow> turn_reservation option \<Rightarrow> string option \<Rightarrow> session \<Rightarrow> session_error option" where
  "start_refusal message reservation owner s =
     (if sn_closed s then Some (RuntimeClosedError ''session runtime is closed'')
      else if live_handle s \<noteq> None
      then Some (SessionBusyError ''session already has an active turn'')
      else if sn_status s = WAITING_APPROVAL \<and> \<not> ut_approval_resume message
      then Some (SessionBusyError ''session is waiting for approval'')
      else if sn_settling s \<noteq> {} \<and> \<not> (\<exists>t \<in> set_option owner. t \<in> sn_settling s)
      then Some (SessionBusyError ''session is still settling the previous turn'')
      else if \<exists>r \<in> set_option reservation. rv_thread_id r \<noteq> sn_thread_id s
      then Some (SessionValueError ''turn reservation thread_id does not match SessionRuntime'')
      else if sn_reservation s \<noteq> None \<and> \<not> owns_reservation reservation s
      then Some (SessionBusyError ''session already has a reserved turn'')
      else if sn_reservation s = None \<and> reservation \<noteq> None
      then Some (SessionBusyError ''turn reservation is no longer valid'')
      else if ut_approval_resume message \<and> \<not> resume_authorized reservation s
      then Some (SessionBusyError ''approval resume is not authorized'')
      else None)"

definition start_binding :: "user_turn \<Rightarrow> turn_reservation option \<Rightarrow> session \<Rightarrow> execution_binding option" where
  "start_binding message reservation s =
     (if ut_approval_resume message
      then (case reservation of None \<Rightarrow> Some (sn_binding s) | Some r \<Rightarrow> rv_binding r)
      else Some (sn_binding s))"

text \<open>The request, the context and the hand-over to the turn runtime, which may raise.\<close>

definition start_context ::
  "user_turn \<Rightarrow> turn_reservation option \<Rightarrow> string \<Rightarrow> string + turn_request \<Rightarrow> string option \<Rightarrow>
     session \<Rightarrow> session_error + turn_context" where
  "start_context message reservation turn_id build submit_raises s =
     (case start_binding message reservation s of
        None \<Rightarrow> Inl (SessionRuntimeError ''AttributeError'')
      | Some binding \<Rightarrow>
          (case (case ut_request message of Some q \<Rightarrow> Inr q | None \<Rightarrow> build) of
             Inl e \<Rightarrow> Inl (SessionRuntimeError e)
           | Inr request \<Rightarrow>
               if rq_thread_id request \<noteq> sn_thread_id s
               then Inl (SessionValueError ''UserTurn request thread_id does not match SessionRuntime'')
               else
                 let c = \<lparr>tx_thread_id = sn_thread_id s, tx_agent = Some (eb_agent binding),
                          tx_settings = eb_settings binding, tx_request = request,
                          tx_turn_id = turn_id\<rparr>
                 in if \<not> context_valid c then Inl (SessionValueError ''thread_id is required'')
                    else case submit_raises of
                           Some e \<Rightarrow> Inl (SessionRuntimeError e)
                         | None \<Rightarrow> Inr c))"

text \<open>What an exception on the way does: the reservation is given up.\<close>

definition start_failed :: "turn_reservation option \<Rightarrow> session \<Rightarrow> session" where
  "start_failed reservation s =
     (if reservation \<noteq> None \<and> sn_reservation s = reservation
      then s\<lparr>sn_reservation := None, sn_status := IDLE\<rparr> else s)"

definition start_success ::
  "user_turn \<Rightarrow> turn_reservation option \<Rightarrow> turn_context \<Rightarrow> session \<Rightarrow> session" where
  "start_success message reservation c s =
     (let t = tx_turn_id c;
          s1 = (if owns_reservation reservation s
                then s\<lparr>sn_reservation := None, sn_consumed_claim := None\<rparr> else s)
      in s1\<lparr>sn_active_context := Some c, sn_active_handle := Some t, sn_latest_handle := Some t,
            sn_turn_generation := Suc (sn_turn_generation s), sn_status := RUNNING,
            sn_last_error := None,
            sw_tokens := (sw_tokens s)(t := (case ut_cancel_token message of
                            Some k \<Rightarrow> k | None \<Rightarrow> new_cancel_token)),
            sw_contexts := (sw_contexts s)(t \<mapsto> c), sw_starting := Some t,
            sw_started := sw_started s @ [t],
            sw_resumes := sw_resumes s @
              (if ut_approval_resume message
               then (case reservation of Some r \<Rightarrow> [(rv_token r, the (rv_approval_turn_id r))] | None \<Rightarrow> [])
               else [])\<rparr>)"

definition start ::
  "user_turn \<Rightarrow> turn_reservation option \<Rightarrow> string option \<Rightarrow> string \<Rightarrow> string + turn_request \<Rightarrow>
     string option \<Rightarrow> session \<Rightarrow> (session_error + turn_context) \<times> session" where
  "start message reservation owner turn_id build submit_raises s =
     (case start_refusal message reservation owner s of
        Some e \<Rightarrow> (Inl e, start_failed reservation s)
      | None \<Rightarrow>
          (case start_context message reservation turn_id build submit_raises s of
             Inl e \<Rightarrow> (Inl e, start_failed reservation s)
           | Inr c \<Rightarrow> (Inr c, start_success message reservation c s)))"

definition schedule_settlement :: "session \<Rightarrow> session" where
  "schedule_settlement s =
     (case sw_starting s of
        None \<Rightarrow> s
      | Some t \<Rightarrow>
          s\<lparr>sn_settling := insert t (sn_settling s), sw_tasks := sw_tasks s @ [(t, Awaiting)],
            sw_starting := None\<rparr>)"

section \<open>Cancelling and steering\<close>

definition cancel_turn :: "string \<Rightarrow> string \<Rightarrow> session \<Rightarrow> (session_error + string \<times> bool) \<times> session" where
  "cancel_turn expected reason s =
     (if sn_closed s then (Inl (RuntimeClosedError ''session runtime is closed''), s)
      else
        let paused = (sn_status s = WAITING_APPROVAL) in
        case sn_active_handle s of
          None \<Rightarrow> (Inl (NoActiveTurnError ''session has no active turn to cancel''), s)
        | Some t \<Rightarrow>
            if handle_done s t \<and> \<not> paused
            then (Inl (NoActiveTurnError ''session has no active turn to cancel''), s)
            else if t \<noteq> expected then (Inl (TurnMismatchError expected t), s)
            else
              let (requested, token) = cancel_token_cancel reason (sw_tokens s t);
                  s1 = s\<lparr>sw_tokens := (sw_tokens s)(t := token)\<rparr>
              in (Inr (t, requested),
                  if \<not> requested then s1
                  else if paused
                  then s1\<lparr>sn_status := CANCELLED, sn_active_handle := None, sn_active_context := None,
                          sn_approval_claim := None, sn_consumed_claim := None,
                          sn_turn_generation := Suc (sn_turn_generation s)\<rparr>
                  else s1\<lparr>sn_status := CANCELLING\<rparr>))"

definition current_agent :: "session \<Rightarrow> nat" where
  "current_agent s =
     (case sn_active_context s of None \<Rightarrow> eb_agent (sn_binding s) | Some c \<Rightarrow> the (tx_agent c))"

definition set_queue :: "nat \<Rightarrow> steer_queue \<Rightarrow> string list \<Rightarrow> session \<Rightarrow> session" where
  "set_queue a q tags s =
     s\<lparr>sw_queues := (sw_queues s)(a \<mapsto> q), sw_addressed := (sw_addressed s)(a := tags)\<rparr>"

text \<open>The locked part; the listeners are called after it (\<open>dispatch_pending\<close>).\<close>

definition steer_turn ::
  "string \<Rightarrow> string \<Rightarrow> session \<Rightarrow> (session_error + string \<times> bool \<times> nat) \<times> session" where
  "steer_turn expected txt s =
     (let body = py_strip txt in
      if sn_closed s then (Inl (RuntimeClosedError ''session runtime is closed''), s)
      else case live_handle s of
        None \<Rightarrow> (Inl (NoActiveTurnError ''session has no active turn to steer''), s)
      | Some t \<Rightarrow>
          if t \<noteq> expected then (Inl (TurnMismatchError expected t), s)
          else if sn_status s = CANCELLING
          then (Inl (SessionBusyError ''session turn is no longer consuming guidance''), s)
          else case sw_queues s (current_agent s) of
            None \<Rightarrow> (Inl SteeringUnavailableError, s)
          | Some q \<Rightarrow>
              if body = [] then (Inr (t, False, peek_count q), s)
              else let (pending, q1) = push_silent body q
                   in (Inr (t, True, pending),
                       set_queue (current_agent s) q1 (sw_addressed s (current_agent s) @ [t]) s))"

definition clear_guidance :: "nat \<Rightarrow> session \<Rightarrow> session" where
  "clear_guidance a s =
     (case sw_queues s a of
        None \<Rightarrow> s
      | Some q \<Rightarrow> set_queue a (snd (clear_silent q)) [] s)"

definition rebind :: "execution_binding \<Rightarrow> session \<Rightarrow> (session_error + unit) \<times> session" where
  "rebind binding s =
     (if sn_closed s then (Inl (RuntimeClosedError ''session runtime is closed''), s)
      else (Inr (), s\<lparr>sn_binding := binding\<rparr>))"

text \<open>The legacy forms read the id of the live turn and answer with a boolean.\<close>

definition steer :: "string \<Rightarrow> session \<Rightarrow> bool \<times> session" where
  "steer txt s =
     (case live_handle s of
        None \<Rightarrow> (False, s)
      | Some t \<Rightarrow>
          (case steer_turn t txt s of
             (Inl _, s') \<Rightarrow> (False, s') | (Inr (_, accepted, _), s') \<Rightarrow> (accepted, s')))"

definition cancel :: "string \<Rightarrow> session \<Rightarrow> bool \<times> session" where
  "cancel reason s =
     (case live_handle s of
        None \<Rightarrow> (False, s)
      | Some t \<Rightarrow>
          (case cancel_turn t reason s of
             (Inl _, s') \<Rightarrow> (False, s') | (Inr (_, requested), s') \<Rightarrow> (requested, s')))"

section \<open>Views\<close>

definition active_turn_id :: "session \<Rightarrow> string option" where
  "active_turn_id s =
     (case sn_active_handle s of
        None \<Rightarrow> None
      | Some t \<Rightarrow> if \<not> handle_done s t \<or> t \<in> sn_settling s then Some t else None)"

record session_snapshot =
  sp_thread_id :: string
  sp_status :: session_status
  sp_active_turn_id :: "string option"
  sp_latest_sequence :: nat
  sp_usage :: session_usage
  sp_goal :: "thread_goal option"
  sp_last_error :: "string option"

definition snapshot :: "session \<Rightarrow> session_snapshot" where
  "snapshot s =
     \<lparr>sp_thread_id = sn_thread_id s, sp_status = sn_status s, sp_active_turn_id = active_turn_id s,
      sp_latest_sequence = latest_sequence (sn_broker s), sp_usage = sn_usage s,
      sp_goal = sn_goal s, sp_last_error = sn_last_error s\<rparr>"

text \<open>\<open>None\<close> for a turn that is not the current one, the phase \<open>settling\<close>, or the status.\<close>

datatype execution_status = Settling | StatusIs session_status

definition execution_status :: "string \<Rightarrow> session \<Rightarrow> execution_status option" where
  "execution_status turn_id s =
     (case (case sn_active_handle s of None \<Rightarrow> sn_latest_handle s | Some t \<Rightarrow> Some t) of
        None \<Rightarrow> None
      | Some t \<Rightarrow>
          if t \<noteq> turn_id then None
          else if handle_done s t \<and> t \<in> sn_settling s \<and> sn_status s \<noteq> WAITING_APPROVAL
          then Some Settling else Some (StatusIs (sn_status s)))"

definition live_recovery :: "session \<Rightarrow> recovery_state_rec \<times> string option" where
  "live_recovery s = (recovery_state (sn_broker s), active_turn_id s)"

section \<open>Settlement\<close>

definition add_usage :: "session_usage \<Rightarrow> turn_result \<Rightarrow> session_usage" where
  "add_usage u r =
     \<lparr>use_input_tokens = use_input_tokens u + res_input_tokens r,
      use_output_tokens = use_output_tokens u + res_output_tokens r,
      use_cache_tokens = use_cache_tokens u + res_cache_tokens r\<rparr>"

fun settled_status :: "turn_status \<Rightarrow> session_status" where
  "settled_status T_COMPLETED = IDLE"
| "settled_status T_CANCELLED = CANCELLED"
| "settled_status T_WAITING_APPROVAL = WAITING_APPROVAL"
| "settled_status T_FAILED = FAILED"
| "settled_status _ = FAILED"

definition task_phase :: "string \<Rightarrow> session \<Rightarrow> settle_phase option" where
  "task_phase t s = map_of (sw_tasks s) t"

definition set_phase :: "string \<Rightarrow> settle_phase \<Rightarrow> session \<Rightarrow> session" where
  "set_phase t ph s = s\<lparr>sw_tasks := dict_set t ph (sw_tasks s)\<rparr>"

text \<open>The task ends; its done callback gives up the settlement claim.\<close>

definition end_task :: "string \<Rightarrow> session \<Rightarrow> session" where
  "end_task t s =
     s\<lparr>sw_tasks := dict_pop t (sw_tasks s), sn_settling := sn_settling s - {t}\<rparr>"

definition changes_event :: "turn_context \<Rightarrow> turn_result \<Rightarrow> turn_event" where
  "changes_event c r =
     \<lparr>ev_version = EVENT_VERSION, ev_thread_id = tx_thread_id c, ev_turn_id = tx_turn_id c,
      ev_sequence = 0, ev_kind = TURN_CHANGES,
      ev_payload = TurnChanges \<lparr>tcp_changes = res_changes r, tcp_total = res_changes_total r\<rparr>\<rparr>"

definition emit_turn_changes :: "turn_context \<Rightarrow> turn_result \<Rightarrow> broker \<Rightarrow> broker" where
  "emit_turn_changes c r b = (if res_changes r = [] then b else emit (changes_event c r) b)"

text \<open>What the persistence hook does: there is none, it succeeds, or it raises (the recorded text).\<close>

datatype persist_end = NoHook | PersistOk | PersistRaised string

definition settle_persist :: "string \<Rightarrow> turn_result \<Rightarrow> persist_end \<Rightarrow> session \<Rightarrow> session" where
  "settle_persist t r out s =
     (let b = (case (out, sw_contexts s t) of
                 (PersistOk, Some c) \<Rightarrow> emit_turn_changes c r (sn_broker s)
               | _ \<Rightarrow> sn_broker s);
          err = (case out of PersistRaised e \<Rightarrow> Some (take 2000 e) | _ \<Rightarrow> None)
      in set_phase t
           (Persisted r (add_usage (sn_usage s) r) (settled_status (res_status r)) err (current_agent s))
           (s\<lparr>sn_broker := b\<rparr>))"

definition settle_clear ::
  "string \<Rightarrow> turn_result \<Rightarrow> session_usage \<Rightarrow> session_status \<Rightarrow> string option \<Rightarrow> nat \<Rightarrow>
     session \<Rightarrow> session" where
  "settle_clear t r usage status err a s =
     (let s1 = (if sn_active_handle s = Some t \<and> status \<noteq> WAITING_APPROVAL
                then s\<lparr>sn_active_handle := None, sn_active_context := None\<rparr> else s)
      in set_phase t (Cleared r status)
           ((clear_guidance a
              (s1\<lparr>sn_usage := usage, sn_last_error := reason_or err (res_error_message r)\<rparr>))
            \<lparr>sw_charged := sw_charged s @ [(t, r)]\<rparr>))"

text \<open>\<open>self._last_error or text\<close>.\<close>

definition note_error :: "string \<Rightarrow> session \<Rightarrow> session" where
  "note_error e s = s\<lparr>sn_last_error := reason_or (sn_last_error s) (Some (take 2000 e))\<rparr>"

datatype goal_end = NoGoalService | GoalRaised string | GoalEnded "thread_goal option"

definition settle_goal ::
  "string \<Rightarrow> turn_result \<Rightarrow> session_status \<Rightarrow> goal_end \<Rightarrow> bool \<Rightarrow> session \<Rightarrow> session" where
  "settle_goal t r status out has_followup s =
     (case out of
        NoGoalService \<Rightarrow> set_phase t (Publishing status) s
      | GoalRaised e \<Rightarrow> set_phase t (Publishing status) (note_error e s)
      | GoalEnded goal \<Rightarrow>
          let s1 = s\<lparr>sn_goal := goal\<rparr> in
          if sn_closed s \<or> res_status r = T_CANCELLED \<or> \<not> has_followup \<or>
             \<not> (\<exists>g \<in> set_option goal. goal_status g = ACTIVE)
          then set_phase t (Publishing status) s1
          else set_phase t (Following r status) s1)"

fun error_text :: "session_error \<Rightarrow> string" where
  "error_text (RuntimeClosedError m) = ''RuntimeClosedError: '' @ m"
| "error_text (SessionBusyError m) = ''SessionBusyError: '' @ m"
| "error_text (NoActiveTurnError m) = ''NoActiveTurnError: '' @ m"
| "error_text (TurnMismatchError e t) = ''TurnMismatchError: '' @ e @ t"
| "error_text SteeringUnavailableError = ''SteeringUnavailableError''"
| "error_text (SessionValueError m) = ''ValueError: '' @ m"
| "error_text (SessionRuntimeError m) = ''RuntimeError: '' @ m"

datatype followup_end = FollowupRaised string | NoFollowup | Followup user_turn

definition settle_follow ::
  "string \<Rightarrow> session_status \<Rightarrow> followup_end \<Rightarrow> string \<Rightarrow> string + turn_request \<Rightarrow> string option \<Rightarrow>
     session \<Rightarrow> session" where
  "settle_follow t status out turn_id build submit_raises s =
     (case out of
        FollowupRaised e \<Rightarrow> set_phase t (Publishing status) (note_error e s)
      | NoFollowup \<Rightarrow> set_phase t (Publishing status) s
      | Followup message \<Rightarrow>
          (case start message None (Some t) turn_id build submit_raises s of
             (Inl e, s') \<Rightarrow> set_phase t (Publishing status) (note_error (error_text e) s')
           | (Inr _, s') \<Rightarrow> set_phase t (Publishing status) s'))"

definition publish_terminal :: "string \<Rightarrow> session_status \<Rightarrow> session \<Rightarrow> bool" where
  "publish_terminal t status s \<longleftrightarrow>
     \<not> sn_closed s \<and> sn_latest_handle s = Some t \<and>
     (sn_active_handle s = None \<or> status = WAITING_APPROVAL \<and> sn_active_handle s = Some t) \<and>
     sn_reservation s = None"

definition settle_publish :: "string \<Rightarrow> session_status \<Rightarrow> session \<Rightarrow> session" where
  "settle_publish t status s =
     set_phase t Ended
       (if publish_terminal t status s
        then s\<lparr>sn_settling := sn_settling s - {t}, sn_status := status\<rparr> else s)"

section \<open>Closing\<close>

datatype close_answer = CloseJoins | AlreadyClosed | CloseClaimed

definition close_refusal :: "bool \<Rightarrow> session \<Rightarrow> session_error option" where
  "close_refusal strict s =
     (if sn_reservation s \<noteq> None \<and> strict
      then Some (SessionBusyError ''session already has a reserved turn'')
      else if strict \<and> sn_status s \<in> {QUEUED, STARTING, CANCELLING}
      then Some (SessionBusyError ''session is queued for a turn'')
      else if sn_settling s \<noteq> {} \<and> strict
      then Some (SessionBusyError ''session is still settling the previous turn'')
      else if live_handle s \<noteq> None
      then Some (SessionBusyError ''session already has an active turn'')
      else None)"

definition close_claim :: "bool \<Rightarrow> bool \<Rightarrow> session \<Rightarrow> (session_error + close_answer) \<times> session" where
  "close_claim cancel_active strict s =
     (if sn_closed s
      then (Inr (case sw_close s of ClosingTurn _ _ \<Rightarrow> CloseJoins | _ \<Rightarrow> AlreadyClosed), s)
      else case (if cancel_active then None else close_refusal strict s) of
        Some e \<Rightarrow> (Inl e, s)
      | None \<Rightarrow>
          let handle = sn_active_handle s;
              s1 = clear_guidance (current_agent s) (s\<lparr>sn_closed := True, sn_reservation := None\<rparr>);
              (requested, s2) =
                (case (if cancel_active then live_handle s else None) of
                   None \<Rightarrow> (False, s1)
                 | Some t \<Rightarrow>
                     let (req, token) = cancel_token_cancel ''shutdown'' (sw_tokens s t)
                     in (req, s1\<lparr>sw_tokens := (sw_tokens s)(t := token),
                                 sn_status := (if req then CANCELLING else sn_status s)\<rparr>))
          in (Inr CloseClaimed, s2\<lparr>sw_close := ClosingTurn handle requested\<rparr>))"

text \<open>
  After the captured turn's future is done and no settlement task is left: the last locked section,
  and the broker. The method returns the captured turn id and whether it was asked to cancel.
\<close>

definition can_finish_close :: "session \<Rightarrow> bool" where
  "can_finish_close s \<longleftrightarrow>
     (case sw_close s of
        ClosingTurn handle _ \<Rightarrow> (case handle of None \<Rightarrow> True | Some t \<Rightarrow> handle_done s t) \<and> sw_tasks s = []
      | _ \<Rightarrow> False)"

definition finish_close :: "session \<Rightarrow> (string option \<times> bool) \<times> session" where
  "finish_close s =
     ((case sw_close s of ClosingTurn handle requested \<Rightarrow> (handle, requested) | _ \<Rightarrow> (None, False)),
      s\<lparr>sn_status := CLOSED, sn_active_handle := None, sn_latest_handle := None,
        sn_active_context := None, sn_broker := close (sn_broker s), sw_close := CloseDone\<rparr>)"

text \<open>The coroutine is cancelled while it waits: the claim is given up, the session stays closed.\<close>

definition abort_close :: "session \<Rightarrow> session" where
  "abort_close s =
     (case sw_close s of ClosingTurn _ _ \<Rightarrow> s\<lparr>sw_close := NotClosing\<rparr> | _ \<Rightarrow> s)"

section \<open>The session as a step system\<close>

text \<open>
  Steps of other threads and of the turn itself may happen at any time: the turn ends, makes a model
  call (which drains the queue of its agent), its token is set from outside, notes are withdrawn,
  listeners of the queue are served.
\<close>

definition turn_ends :: "string \<Rightarrow> turn_outcome \<Rightarrow> session \<Rightarrow> session" where
  "turn_ends t out s = s\<lparr>sw_futures := (sw_futures s)(t \<mapsto> out)\<rparr>"

definition model_call :: "string \<Rightarrow> session \<Rightarrow> session" where
  "model_call t s =
     (case sw_contexts s t of
        None \<Rightarrow> s
      | Some c \<Rightarrow>
          (case sw_queues s (the (tx_agent c)) of
             None \<Rightarrow> s
           | Some q \<Rightarrow>
               set_queue (the (tx_agent c)) (snd (drain q)) []
                 (s\<lparr>sw_guided := sw_guided s @ map (\<lambda>u. (t, u)) (sw_addressed s (the (tx_agent c)))\<rparr>)))"

definition withdraw_note :: "nat \<Rightarrow> nat \<Rightarrow> session \<Rightarrow> session" where
  "withdraw_note a i s =
     (case sw_queues s a of
        None \<Rightarrow> s
      | Some q \<Rightarrow>
          if i < length (sq_items q)
          then set_queue a (snd (remove_at (int i) q)) (delete_nth i (sw_addressed s a)) s else s)"

inductive thread_step :: "session \<Rightarrow> session \<Rightarrow> bool" where
  th_reserve: "thread_step s (snd (reserve_turn token s))"
| th_reserve_or_raise: "thread_step s (snd (reserve_turn_or_raise resume claim token s))"
| th_release: "thread_step s (snd (release_turn r s))"
| th_mark_queued: "thread_step s (snd (mark_queued s))"
| th_clear_queued: "thread_step s (clear_queued s)"
| th_mark_starting: "thread_step s (snd (mark_starting s))"
| th_build_resume: "token \<notin> set (sw_claims s) \<Longrightarrow>
    thread_step s (snd (build_approval_resume expected generation pending decisions command n token s))"
| th_take_claim: "thread_step s (snd (take_approval_claim expected s))"
| th_cancel: "thread_step s (snd (cancel_turn expected reason s))"
| th_steer: "thread_step s (snd (steer_turn expected txt s))"
| th_rebind: "thread_step s (snd (rebind binding s))"
| th_turn_ends: "t \<in> set (sw_started s) \<Longrightarrow> \<not> handle_done s t \<Longrightarrow> thread_step s (turn_ends t out s)"
| th_model_call: "t \<in> set (sw_started s) \<Longrightarrow> \<not> handle_done s t \<Longrightarrow> thread_step s (model_call t s)"
| th_withdraw: "thread_step s (withdraw_note a i s)"
| th_listeners: "sw_queues s a = Some q \<Longrightarrow> sq_items q' = sq_items q \<Longrightarrow>
    thread_step s (set_queue a q' (sw_addressed s a) s)"
| th_token: "thread_step s (s\<lparr>sw_tokens := (sw_tokens s)(t := snd (cancel_token_cancel reason (sw_tokens s t)))\<rparr>)"
| th_broker: "broker_step (sn_broker s) b \<Longrightarrow> thread_step s (s\<lparr>sn_broker := b\<rparr>)"

text \<open>The coroutines of the event loop; a fresh turn id is one no turn has had, and a fresh
  token (\<open>th_build_resume\<close>) one no claim has had.\<close>

inductive loop_step :: "session \<Rightarrow> session \<Rightarrow> bool" where
  lp_start: "sw_starting s = None \<Longrightarrow> turn_id \<notin> set (sw_started s) \<Longrightarrow>
    loop_step s (snd (start message reservation None turn_id build submit_raises s))"
| lp_schedule: "loop_step s (schedule_settlement s)"
| lp_persist: "sw_starting s = None \<Longrightarrow> task_phase t s = Some Awaiting \<Longrightarrow>
    sw_futures s t = Some (Finished r) \<Longrightarrow> loop_step s (settle_persist t r out s)"
| lp_broken: "sw_starting s = None \<Longrightarrow> task_phase t s = Some Awaiting \<Longrightarrow>
    sw_futures s t = Some (Broken e) \<Longrightarrow> loop_step s (set_phase t Ended s)"
| lp_clear: "sw_starting s = None \<Longrightarrow> task_phase t s = Some (Persisted r usage status err a) \<Longrightarrow>
    loop_step s (settle_clear t r usage status err a s)"
| lp_goal: "sw_starting s = None \<Longrightarrow> task_phase t s = Some (Cleared r status) \<Longrightarrow>
    loop_step s (settle_goal t r status gout has_followup s)"
| lp_follow: "sw_starting s = None \<Longrightarrow> task_phase t s = Some (Following r status) \<Longrightarrow>
    turn_id \<notin> set (sw_started s) \<Longrightarrow>
    loop_step s (settle_follow t status fout turn_id build submit_raises s)"
| lp_publish: "sw_starting s = None \<Longrightarrow> task_phase t s = Some (Publishing status) \<Longrightarrow>
    loop_step s (settle_publish t status s)"
| lp_end: "sw_starting s = None \<Longrightarrow> task_phase t s = Some Ended \<Longrightarrow> loop_step s (end_task t s)"
| lp_close: "sw_starting s = None \<Longrightarrow> loop_step s (snd (close_claim cancel_active strict s))"
| lp_finish_close: "sw_starting s = None \<Longrightarrow> can_finish_close s \<Longrightarrow>
    loop_step s (snd (finish_close s))"
| lp_abort_close: "sw_starting s = None \<Longrightarrow> loop_step s (abort_close s)"

inductive session_step :: "session \<Rightarrow> session \<Rightarrow> bool" where
  by_thread: "thread_step s t \<Longrightarrow> session_step s t"
| by_loop: "loop_step s t \<Longrightarrow> session_step s t"

inductive is_new_session :: "session \<Rightarrow> bool" where
  "(\<And>a q. queues a = Some q \<Longrightarrow> sq_items q = []) \<Longrightarrow> is_new_broker broker \<Longrightarrow>
   is_new_session (new_session thread_id binding broker seed queues)"

abbreviation session_reach :: "session \<Rightarrow> bool" where
  "session_reach \<equiv> reach is_new_session session_step"

end
