(* ===== verification/Session_Invariants.thy ===== *)
theory Session_Invariants
  imports Session_Runtime
begin

text \<open>
  The invariants of a session. \<open>turns_inv\<close> says which turn owns the session: a turn that has started
  and is not yet cleared by its settlement (\<open>early\<close>) is the active one, at most one turn may still
  start a follow-up (\<open>owning\<close>), every turn that runs is early, and each settlement task carries the
  values its phase has computed.
\<close>

section \<open>Who owns the session\<close>

fun early_phase :: "settle_phase \<Rightarrow> bool" where
  "early_phase Awaiting = True"
| "early_phase (Persisted _ _ _ _ _) = True"
| "early_phase _ = False"

fun owning_phase :: "settle_phase \<Rightarrow> bool" where
  "owning_phase (Cleared _ _) = True"
| "owning_phase (Following _ _) = True"
| "owning_phase ph = early_phase ph"

definition early :: "session \<Rightarrow> string \<Rightarrow> bool" where
  "early s t \<longleftrightarrow> sw_starting s = Some t \<or> (\<exists>ph. task_phase t s = Some ph \<and> early_phase ph)"

definition owning :: "session \<Rightarrow> string \<Rightarrow> bool" where
  "owning s t \<longleftrightarrow> sw_starting s = Some t \<or> (\<exists>ph. task_phase t s = Some ph \<and> owning_phase ph)"

fun phase_ok :: "session \<Rightarrow> string \<Rightarrow> settle_phase \<Rightarrow> bool" where
  "phase_ok s t Awaiting = True"
| "phase_ok s t (Persisted r u st e a) \<longleftrightarrow>
     sw_futures s t = Some (Finished r) \<and> st = settled_status (res_status r) \<and>
     u = add_usage (sn_usage s) r \<and> (\<exists>c. sw_contexts s t = Some c \<and> a = the (tx_agent c))"
| "phase_ok s t (Cleared r st) \<longleftrightarrow>
     sw_futures s t = Some (Finished r) \<and> st = settled_status (res_status r)"
| "phase_ok s t (Following r st) \<longleftrightarrow>
     sw_futures s t = Some (Finished r) \<and> st = settled_status (res_status r)"
| "phase_ok s t (Publishing st) \<longleftrightarrow>
     (\<exists>r. sw_futures s t = Some (Finished r) \<and> st = settled_status (res_status r))"
| "phase_ok s t Ended \<longleftrightarrow> sw_futures s t \<noteq> None"

definition at_most_one :: "('a \<Rightarrow> bool) \<Rightarrow> bool" where
  "at_most_one P \<longleftrightarrow> (\<forall>x y. P x \<longrightarrow> P y \<longrightarrow> x = y)"

lemma at_most_oneD: "at_most_one P \<Longrightarrow> P x \<Longrightarrow> P y \<Longrightarrow> x = y"
  unfolding at_most_one_def by blast

lemma at_most_one_mono: "at_most_one P \<Longrightarrow> (\<And>x. Q x \<Longrightarrow> P x) \<Longrightarrow> at_most_one Q"
  unfolding at_most_one_def by blast

definition turns_inv :: "session \<Rightarrow> bool" where
  "turns_inv s \<longleftrightarrow>
     distinct (map fst (sw_tasks s)) \<and>
     (\<forall>t ph. task_phase t s = Some ph \<longrightarrow>
        t \<in> set (sw_started s) \<and> (ph \<noteq> Ended \<longrightarrow> t \<in> sn_settling s) \<and> phase_ok s t ph) \<and>
     (\<forall>t \<in> sn_settling s. task_phase t s \<noteq> None) \<and>
     at_most_one (owning s) \<and>
     (\<forall>t. sw_starting s = Some t \<longrightarrow> t \<in> set (sw_started s) \<and> task_phase t s = None) \<and>
     (\<forall>t. early s t \<longrightarrow> sn_active_handle s = Some t) \<and>
     (\<forall>t \<in> set (sw_started s). \<not> handle_done s t \<longrightarrow> early s t) \<and>
     (\<forall>t. handle_done s t \<longrightarrow> t \<in> set (sw_started s)) \<and>
     (\<forall>t. sn_active_handle s = Some t \<longrightarrow>
        t \<in> set (sw_started s) \<and> sw_contexts s t \<noteq> None \<and> sn_active_context s = sw_contexts s t) \<and>
     (sn_active_handle s = None \<longrightarrow> sn_active_context s = None) \<and>
     (sn_status s = WAITING_APPROVAL \<longrightarrow> (\<forall>t. \<not> early s t)) \<and>
     distinct (sw_started s)"

text \<open>Steps that touch neither the turns nor what their settlement has computed.\<close>

definition same_turns :: "session \<Rightarrow> session \<Rightarrow> bool" where
  "same_turns s s' \<longleftrightarrow>
     sw_tasks s' = sw_tasks s \<and> sw_started s' = sw_started s \<and> sn_settling s' = sn_settling s \<and>
     sw_starting s' = sw_starting s \<and> sw_futures s' = sw_futures s \<and>
     sw_contexts s' = sw_contexts s \<and> sn_usage s' = sn_usage s"

lemma same_turnsD:
  assumes "same_turns s s'"
  shows "sw_tasks s' = sw_tasks s" "sw_started s' = sw_started s" "sn_settling s' = sn_settling s"
    "sw_starting s' = sw_starting s" "sw_futures s' = sw_futures s"
    "sw_contexts s' = sw_contexts s" "sn_usage s' = sn_usage s"
  using assms by (simp_all add: same_turns_def)

lemma same_turns_views:
  assumes "same_turns s s'"
  shows "task_phase t s' = task_phase t s" "early s' = early s" "owning s' = owning s"
    "handle_done s' = handle_done s" "phase_ok s' t ph = phase_ok s t ph"
proof -
  note same = same_turnsD [OF assms]
  show ph: "task_phase t s' = task_phase t s" for t using same by (simp add: task_phase_def)
  show "early s' = early s" by (rule ext) (simp add: early_def ph same)
  show "owning s' = owning s" by (rule ext) (simp add: owning_def ph same)
  show "handle_done s' = handle_done s" by (rule ext) (simp add: handle_done_def same)
  show "phase_ok s' t ph = phase_ok s t ph" by (cases ph) (simp_all add: same)
qed

lemma turns_inv_frame:
  assumes "turns_inv s" "same_turns s s'" "sn_active_handle s' = sn_active_handle s"
    "sn_active_context s' = sn_active_context s"
    "sn_status s' = WAITING_APPROVAL \<Longrightarrow> sn_status s = WAITING_APPROVAL"
  shows "turns_inv s'"
  using assms(1,5)
  unfolding turns_inv_def same_turns_views [OF assms(2)] same_turnsD [OF assms(2)] assms(3,4)
  by blast

lemma turns_invD:
  assumes "turns_inv s"
  shows turns_keys: "distinct (map fst (sw_tasks s))"
    and turns_task: "task_phase t s = Some ph \<Longrightarrow> t \<in> set (sw_started s) \<and> phase_ok s t ph"
    and turns_settling: "task_phase t s = Some ph \<Longrightarrow> ph \<noteq> Ended \<Longrightarrow> t \<in> sn_settling s"
    and turns_settled: "t \<in> sn_settling s \<Longrightarrow> \<exists>ph. task_phase t s = Some ph"
    and turns_unique: "owning s t \<Longrightarrow> owning s u \<Longrightarrow> t = u"
    and turns_starting: "sw_starting s = Some t \<Longrightarrow> t \<in> set (sw_started s) \<and> task_phase t s = None"
    and turns_early: "early s t \<Longrightarrow> sn_active_handle s = Some t"
    and turns_running: "t \<in> set (sw_started s) \<Longrightarrow> \<not> handle_done s t \<Longrightarrow> early s t"
    and turns_done: "handle_done s t \<Longrightarrow> t \<in> set (sw_started s)"
    and turns_active: "sn_active_handle s = Some t \<Longrightarrow>
      t \<in> set (sw_started s) \<and> sw_contexts s t \<noteq> None \<and> sn_active_context s = sw_contexts s t"
    and turns_inactive: "sn_active_handle s = None \<Longrightarrow> sn_active_context s = None"
    and turns_waiting: "sn_status s = WAITING_APPROVAL \<Longrightarrow> \<not> early s t"
    and turns_distinct: "distinct (sw_started s)"
  using assms unfolding turns_inv_def by (blast dest: at_most_oneD)+

lemma turns_invI:
  assumes "distinct (map fst (sw_tasks s))"
    and "\<And>t ph. task_phase t s = Some ph \<Longrightarrow>
      t \<in> set (sw_started s) \<and> (ph \<noteq> Ended \<longrightarrow> t \<in> sn_settling s) \<and> phase_ok s t ph"
    and "\<And>t. t \<in> sn_settling s \<Longrightarrow> task_phase t s \<noteq> None"
    and "\<And>t u. owning s t \<Longrightarrow> owning s u \<Longrightarrow> t = u"
    and "\<And>t. sw_starting s = Some t \<Longrightarrow> t \<in> set (sw_started s) \<and> task_phase t s = None"
    and "\<And>t. early s t \<Longrightarrow> sn_active_handle s = Some t"
    and "\<And>t. t \<in> set (sw_started s) \<Longrightarrow> \<not> handle_done s t \<Longrightarrow> early s t"
    and "\<And>t. handle_done s t \<Longrightarrow> t \<in> set (sw_started s)"
    and "\<And>t. sn_active_handle s = Some t \<Longrightarrow>
      t \<in> set (sw_started s) \<and> sw_contexts s t \<noteq> None \<and> sn_active_context s = sw_contexts s t"
    and "sn_active_handle s = None \<Longrightarrow> sn_active_context s = None"
    and "\<And>t. sn_status s = WAITING_APPROVAL \<Longrightarrow> \<not> early s t"
    and "distinct (sw_started s)"
  shows "turns_inv s"
  unfolding turns_inv_def at_most_one_def using assms by blast

lemma early_owning: "early s t \<Longrightarrow> owning s t"
proof -
  have "owning_phase ph" if "early_phase ph" for ph using that by (cases ph) auto
  then show "early s t \<Longrightarrow> owning s t" by (auto simp: early_def owning_def)
qed

lemma task_phase_set [simp]:
  "task_phase u (set_phase t ph s) = (if u = t then Some ph else task_phase u s)"
  by (simp add: task_phase_def set_phase_def update_conv')

lemma set_phase_fields [simp]:
  "sw_started (set_phase t ph s) = sw_started s" "sn_settling (set_phase t ph s) = sn_settling s"
  "sw_starting (set_phase t ph s) = sw_starting s" "sw_futures (set_phase t ph s) = sw_futures s"
  "sw_contexts (set_phase t ph s) = sw_contexts s" "sn_usage (set_phase t ph s) = sn_usage s"
  "sn_active_handle (set_phase t ph s) = sn_active_handle s"
  "sn_active_context (set_phase t ph s) = sn_active_context s"
  "sn_status (set_phase t ph s) = sn_status s" "handle_done (set_phase t ph s) u = handle_done s u"
  "sn_closed (set_phase t ph s) = sn_closed s" "sw_close (set_phase t ph s) = sw_close s"
  "sn_latest_handle (set_phase t ph s) = sn_latest_handle s"
  "sn_reservation (set_phase t ph s) = sn_reservation s"
  "sn_approval_claim (set_phase t ph s) = sn_approval_claim s"
  "sn_consumed_claim (set_phase t ph s) = sn_consumed_claim s"
  "sw_seed (set_phase t ph s) = sw_seed s" "sw_claims (set_phase t ph s) = sw_claims s" "sw_resumes (set_phase t ph s) = sw_resumes s"
  "sw_charged (set_phase t ph s) = sw_charged s" "sw_addressed (set_phase t ph s) = sw_addressed s"
  "sw_guided (set_phase t ph s) = sw_guided s" "sw_queues (set_phase t ph s) = sw_queues s"
  "sn_turn_generation (set_phase t ph s) = sn_turn_generation s"
  "sw_tokens (set_phase t ph s) = sw_tokens s" "sn_broker (set_phase t ph s) = sn_broker s"
  by (simp_all add: set_phase_def handle_done_def)

lemma phase_ok_set [simp]: "phase_ok (set_phase t ph s) u q = phase_ok s u q"
  by (cases q) simp_all

lemma early_set: "early (set_phase t ph s) u \<longleftrightarrow>
    sw_starting s = Some u \<or> (if u = t then early_phase ph else \<exists>q. task_phase u s = Some q \<and> early_phase q)"
  by (simp add: early_def)

lemma owning_set: "owning (set_phase t ph s) u \<longleftrightarrow>
    sw_starting s = Some u \<or> (if u = t then owning_phase ph else \<exists>q. task_phase u s = Some q \<and> owning_phase q)"
  by (simp add: owning_def)

text \<open>A task moves on: it does not become early or owning again.\<close>

lemma turns_inv_phase:
  assumes inv: "turns_inv s" and old: "task_phase t s = Some old"
    and down: "early_phase new \<Longrightarrow> early_phase old" "owning_phase new \<Longrightarrow> owning_phase old"
    and fin: "early_phase old \<Longrightarrow> \<not> early_phase new \<Longrightarrow> handle_done s t"
    and ok: "phase_ok s t new" and ended: "old = Ended \<Longrightarrow> new = Ended"
  shows "turns_inv (set_phase t new s)"
proof (rule turns_invI)
  have sub: "owning s u" if "owning (set_phase t new s) u" for u
    using that down(2) old by (auto simp: owning_set owning_def split: if_splits)
  then show "u = v" if "owning (set_phase t new s) u" "owning (set_phase t new s) v" for u v
    using that turns_unique [OF inv] by blast
  have esub: "early s u" if "early (set_phase t new s) u" for u
    using that down(1) old by (auto simp: early_set early_def split: if_splits)
  then show "sn_active_handle (set_phase t new s) = Some u" if "early (set_phase t new s) u" for u
    using that turns_early [OF inv] by simp
  show "\<not> early (set_phase t new s) u" if "sn_status (set_phase t new s) = WAITING_APPROVAL" for u
    using that esub turns_waiting [OF inv] by auto
  show "early (set_phase t new s) u"
    if "u \<in> set (sw_started (set_phase t new s))" "\<not> handle_done (set_phase t new s) u" for u
    using turns_running [OF inv, of u] that fin old by (auto simp: early_set early_def)
  show "distinct (map fst (sw_tasks (set_phase t new s)))"
    using turns_keys [OF inv] by (simp add: set_phase_def distinct_update)
  show "u \<in> set (sw_started (set_phase t new s)) \<and> task_phase u (set_phase t new s) = None"
    if "sw_starting (set_phase t new s) = Some u" for u
    using that turns_starting [OF inv, of u] old by auto
  show "u \<in> set (sw_started (set_phase t new s)) \<and>
      (ph \<noteq> Ended \<longrightarrow> u \<in> sn_settling (set_phase t new s)) \<and> phase_ok (set_phase t new s) u ph"
    if "task_phase u (set_phase t new s) = Some ph" for u ph
    using that old ok ended turns_task [OF inv, of u] turns_settling [OF inv, of u]
    by (auto split: if_splits)
  show "task_phase u (set_phase t new s) \<noteq> None" if "u \<in> sn_settling (set_phase t new s)" for u
    using that turns_settled [OF inv, of u] by auto
  show "u \<in> set (sw_started (set_phase t new s)) \<and> sw_contexts (set_phase t new s) u \<noteq> None \<and>
      sn_active_context (set_phase t new s) = sw_contexts (set_phase t new s) u"
    if "sn_active_handle (set_phase t new s) = Some u" for u
    using that turns_active [OF inv, of u] by simp
qed (use turns_done [OF inv] turns_inactive [OF inv] turns_distinct [OF inv] in simp_all)

text \<open>No turn is early: the front of the session may be cleared, and the usage written.\<close>

lemma turns_inv_idle:
  assumes inv: "turns_inv s" and idle: "\<And>t. \<not> early s t"
    and same: "sw_tasks s' = sw_tasks s" "sw_started s' = sw_started s" "sn_settling s' = sn_settling s"
      "sw_starting s' = sw_starting s" "sw_futures s' = sw_futures s" "sw_contexts s' = sw_contexts s"
    and front: "sn_active_handle s' = sn_active_handle s \<and> sn_active_context s' = sn_active_context s \<or>
      sn_active_handle s' = None \<and> sn_active_context s' = None"
  shows "turns_inv s'"
proof -
  have ph: "task_phase t s' = task_phase t s" for t using same by (simp add: task_phase_def)
  have e: "early s' t = early s t" and w: "owning s' t = owning s t" for t
    using same by (simp_all add: early_def owning_def ph)
  have d: "handle_done s' t = handle_done s t" for t using same by (simp add: handle_done_def)
  have not_persisted: "\<not> early_phase q" if "task_phase t s = Some q" for t q
    using idle [of t] that by (auto simp: early_def)
  have ok: "phase_ok s' t q" if "task_phase t s = Some q" for t q
    using turns_task [OF inv that] not_persisted [OF that] same by (cases q) simp_all
  show ?thesis
  proof (rule turns_invI)
    show "t = u" if "owning s' t" "owning s' u" for t u
      using that turns_unique [OF inv] w by blast
    show "t \<in> set (sw_started s') \<and> (q \<noteq> Ended \<longrightarrow> t \<in> sn_settling s') \<and> phase_ok s' t q"
      if "task_phase t s' = Some q" for t q
      using that ok turns_task [OF inv] turns_settling [OF inv] same ph by metis
    show "sn_active_handle s' = Some t" if "early s' t" for t using that idle e by simp
    show "early s' t" if "t \<in> set (sw_started s')" "\<not> handle_done s' t" for t
      using that turns_running [OF inv] same e d by simp
    show "t \<in> set (sw_started s')" if "handle_done s' t" for t
      using that turns_done [OF inv] same d by simp
    show "t \<in> set (sw_started s') \<and> sw_contexts s' t \<noteq> None \<and> sn_active_context s' = sw_contexts s' t"
      if "sn_active_handle s' = Some t" for t
      using that turns_active [OF inv] same front by auto
    show "sn_active_context s' = None" if "sn_active_handle s' = None"
      using that turns_inactive [OF inv] front by auto
    show "t \<in> set (sw_started s') \<and> task_phase t s' = None" if "sw_starting s' = Some t" for t
      using that turns_starting [OF inv] same ph by simp
    show "task_phase t s' \<noteq> None" if "t \<in> sn_settling s'" for t
      using that turns_settled [OF inv] same ph by fastforce
  qed (use inv same e idle in \<open>simp_all add: turns_keys turns_distinct\<close>)
qed

text \<open>A finished task gives up its claim, and is removed.\<close>

lemma turns_inv_unsettle:
  assumes inv: "turns_inv s" and ended: "task_phase t s = Some Ended"
    and waiting: "\<And>u. st = WAITING_APPROVAL \<Longrightarrow> \<not> early s u"
  shows "turns_inv (s\<lparr>sn_settling := sn_settling s - {t}, sn_status := st\<rparr>)" (is "turns_inv ?s")
proof -
  have ph: "task_phase u ?s = task_phase u s" for u by (simp add: task_phase_def)
  have e: "early ?s u = early s u" and w: "owning ?s u = owning s u" for u
    by (simp_all add: early_def owning_def ph)
  have d: "handle_done ?s u = handle_done s u" for u by (simp add: handle_done_def)
  have ok: "phase_ok ?s u q = phase_ok s u q" for u q by (cases q) simp_all
  show ?thesis
  proof (rule turns_invI)
    show "u \<in> set (sw_started ?s) \<and> (q \<noteq> Ended \<longrightarrow> u \<in> sn_settling ?s) \<and> phase_ok ?s u q"
      if "task_phase u ?s = Some q" for u q
      using that turns_task [OF inv, of u q] turns_settling [OF inv, of u q] ended ok ph by auto
    show "u = v" if "owning ?s u" "owning ?s v" for u v
      using that turns_unique [OF inv] w by blast
    show "u \<in> set (sw_started ?s) \<and> task_phase u ?s = None" if "sw_starting ?s = Some u" for u
      using that turns_starting [OF inv] ph by simp
    show "\<not> early ?s u" if "sn_status ?s = WAITING_APPROVAL" for u using that waiting e by simp
    show "task_phase u ?s \<noteq> None" if "u \<in> sn_settling ?s" for u
      using that turns_settled [OF inv, of u] ph by auto
    show "early ?s u" if "u \<in> set (sw_started ?s)" "\<not> handle_done ?s u" for u
      using that turns_running [OF inv] e d by simp
    show "sn_active_handle ?s = Some u" if "early ?s u" for u
      using that turns_early [OF inv] e by simp
    show "u \<in> set (sw_started ?s)" if "handle_done ?s u" for u
      using that turns_done [OF inv] d by simp
  qed (use turns_active [OF inv] turns_inactive [OF inv] turns_keys [OF inv] turns_distinct [OF inv]
      in simp_all)
qed

lemma turns_inv_end_task:
  assumes inv: "turns_inv s" and ended: "task_phase t s = Some Ended"
  shows "turns_inv (end_task t s)" (is "turns_inv ?s")
proof -
  have ph: "task_phase u ?s = (if u = t then None else task_phase u s)" for u
    by (simp add: task_phase_def end_task_def delete_conv')
  have e: "early ?s u = early s u" and w: "owning ?s u = owning s u" for u
    using ended by (auto simp: early_def owning_def ph) (auto simp: end_task_def)
  have d: "handle_done ?s u = handle_done s u" for u by (simp add: handle_done_def end_task_def)
  have ok: "phase_ok ?s u q = phase_ok s u q" for u q by (cases q) (simp_all add: end_task_def)
  show ?thesis
  proof (rule turns_invI)
    show "u \<in> set (sw_started ?s) \<and> (q \<noteq> Ended \<longrightarrow> u \<in> sn_settling ?s) \<and> phase_ok ?s u q"
      if "task_phase u ?s = Some q" for u q
      using that turns_task [OF inv, of u q] turns_settling [OF inv, of u q] ok ph
      by (auto simp: end_task_def split: if_splits)
    show "u = v" if "owning ?s u" "owning ?s v" for u v
      using that turns_unique [OF inv] w by blast
    show "u \<in> set (sw_started ?s) \<and> task_phase u ?s = None" if "sw_starting ?s = Some u" for u
      using that turns_starting [OF inv] ph by (simp add: end_task_def)
    show "\<not> early ?s u" if "sn_status ?s = WAITING_APPROVAL" for u
      using that turns_waiting [OF inv] e by (simp add: end_task_def)
    show "task_phase u ?s \<noteq> None" if "u \<in> sn_settling ?s" for u
      using that turns_settled [OF inv, of u] ph by (auto simp: end_task_def)
    show "early ?s u" if "u \<in> set (sw_started ?s)" "\<not> handle_done ?s u" for u
      using that turns_running [OF inv] e d by (simp add: end_task_def)
    show "sn_active_handle ?s = Some u" if "early ?s u" for u
      using that turns_early [OF inv] e by (simp add: end_task_def)
    show "u \<in> set (sw_started ?s)" if "handle_done ?s u" for u
      using that turns_done [OF inv] d by (simp add: end_task_def)
    show "distinct (map fst (sw_tasks ?s))"
      using turns_keys [OF inv] by (simp add: end_task_def distinct_delete)
  qed (use turns_active [OF inv] turns_inactive [OF inv] turns_distinct [OF inv]
      in \<open>simp_all add: end_task_def\<close>)
qed

lemma turns_inv_schedule:
  assumes inv: "turns_inv s"
  shows "turns_inv (schedule_settlement s)"
proof (cases "sw_starting s")
  case None
  with inv show ?thesis by (simp add: schedule_settlement_def)
next
  case (Some t)
  let ?s = "schedule_settlement s"
  have def: "?s = s\<lparr>sn_settling := insert t (sn_settling s),
      sw_tasks := sw_tasks s @ [(t, Awaiting)], sw_starting := None\<rparr>"
    using Some by (simp add: schedule_settlement_def)
  have new: "t \<in> set (sw_started s)" "task_phase t s = None"
    using turns_starting [OF inv Some] by simp_all
  have ph: "task_phase u ?s = (if u = t then Some Awaiting else task_phase u s)" for u
    using new(2) by (auto simp: def task_phase_def map_add_def split: option.splits)
  have e: "early ?s u = early s u" and w: "owning ?s u = owning s u" for u
    using new Some by (auto simp: early_def owning_def ph) (auto simp: def)
  have d: "handle_done ?s u = handle_done s u" for u by (simp add: handle_done_def def)
  have ok: "phase_ok ?s u q = phase_ok s u q" for u q by (cases q) (simp_all add: def)
  show ?thesis
  proof (rule turns_invI)
    show "u \<in> set (sw_started ?s) \<and> (q \<noteq> Ended \<longrightarrow> u \<in> sn_settling ?s) \<and> phase_ok ?s u q"
      if "task_phase u ?s = Some q" for u q
      using that turns_task [OF inv, of u q] turns_settling [OF inv, of u q] ok ph new
      by (auto simp: def split: if_splits)
    show "u = v" if "owning ?s u" "owning ?s v" for u v
      using that turns_unique [OF inv] w by blast
    show "\<not> early ?s u" if "sn_status ?s = WAITING_APPROVAL" for u
      using that turns_waiting [OF inv] e by (simp add: def)
    show "task_phase u ?s \<noteq> None" if "u \<in> sn_settling ?s" for u
      using that turns_settled [OF inv, of u] ph by (auto simp: def)
    show "early ?s u" if "u \<in> set (sw_started ?s)" "\<not> handle_done ?s u" for u
      using that turns_running [OF inv] e d by (simp add: def)
    show "sn_active_handle ?s = Some u" if "early ?s u" for u
      using that turns_early [OF inv] e by (simp add: def)
    show "u \<in> set (sw_started ?s)" if "handle_done ?s u" for u
      using that turns_done [OF inv] d by (simp add: def)
    show "distinct (map fst (sw_tasks ?s))"
      using turns_keys [OF inv] new(2) by (auto simp: def task_phase_def map_of_eq_None_iff)
  qed (use turns_active [OF inv] turns_inactive [OF inv] turns_distinct [OF inv]
      in \<open>simp_all add: def\<close>)
qed

lemma turns_inv_ends:
  assumes inv: "turns_inv s" and t: "t \<in> set (sw_started s)" "\<not> handle_done s t"
  shows "turns_inv (turn_ends t out s)" (is "turns_inv ?s")
proof -
  have ph: "task_phase u ?s = task_phase u s" for u by (simp add: task_phase_def turn_ends_def)
  have e: "early ?s u = early s u" and w: "owning ?s u = owning s u" for u
    unfolding early_def owning_def ph by (simp_all add: turn_ends_def)
  have d: "handle_done ?s u = (handle_done s u \<or> u = t)" for u
    by (simp add: handle_done_def turn_ends_def)
  have ok: "phase_ok ?s u q" if "task_phase u s = Some q" for u q
    using turns_task [OF inv that] t(2)
    by (cases q) (auto simp: turn_ends_def handle_done_def)
  show ?thesis
  proof (rule turns_invI)
    show "u \<in> set (sw_started ?s) \<and> (q \<noteq> Ended \<longrightarrow> u \<in> sn_settling ?s) \<and> phase_ok ?s u q"
      if "task_phase u ?s = Some q" for u q
      using that turns_task [OF inv, of u q] turns_settling [OF inv, of u q] ok ph
      by (auto simp: turn_ends_def)
    show "u = v" if "owning ?s u" "owning ?s v" for u v
      using that turns_unique [OF inv] w by blast
    show "\<not> early ?s u" if "sn_status ?s = WAITING_APPROVAL" for u
      using that turns_waiting [OF inv] e by (simp add: turn_ends_def)
    show "task_phase u ?s \<noteq> None" if "u \<in> sn_settling ?s" for u
      using that turns_settled [OF inv, of u] ph by (auto simp: turn_ends_def)
    show "early ?s u" if "u \<in> set (sw_started ?s)" "\<not> handle_done ?s u" for u
      using that turns_running [OF inv] e d by (simp add: turn_ends_def)
    show "sn_active_handle ?s = Some u" if "early ?s u" for u
      using that turns_early [OF inv] e by (simp add: turn_ends_def)
    show "u \<in> set (sw_started ?s)" if "handle_done ?s u" for u
      using that turns_done [OF inv] d t(1) by (auto simp: turn_ends_def)
    show "u \<in> set (sw_started ?s) \<and> task_phase u ?s = None" if "sw_starting ?s = Some u" for u
      using that turns_starting [OF inv] ph by (simp add: turn_ends_def)
  qed (use turns_active [OF inv] turns_inactive [OF inv] turns_distinct [OF inv] turns_keys [OF inv]
      in \<open>simp_all add: turn_ends_def\<close>)
qed

text \<open>A turn starts while nothing owns the session.\<close>

lemma turns_inv_start:
  assumes inv: "turns_inv s" and free: "\<And>u. \<not> owning s u"
    and fresh: "tx_turn_id c \<notin> set (sw_started s)"
  shows "turns_inv (start_success message reservation c s)" (is "turns_inv ?s")
proof -
  let ?t = "tx_turn_id c"
  have fields: "sw_tasks ?s = sw_tasks s" "sn_settling ?s = sn_settling s"
    "sw_futures ?s = sw_futures s" "sw_started ?s = sw_started s @ [?t]" "sw_starting ?s = Some ?t"
    "sn_active_handle ?s = Some ?t" "sn_active_context ?s = Some c" "sn_status ?s = RUNNING"
    "sw_contexts ?s = (sw_contexts s)(?t \<mapsto> c)" "sn_usage ?s = sn_usage s"
    by (simp_all add: start_success_def Let_def)
  have ph: "task_phase u ?s = task_phase u s" for u by (simp add: task_phase_def fields)
  have nobody: "\<not> early s u" for u using free early_owning by blast
  have e: "early ?s u \<longleftrightarrow> u = ?t" and w: "owning ?s u \<longleftrightarrow> u = ?t" for u
    using nobody [of u] free [of u] by (auto simp: early_def owning_def ph fields)
  have d: "handle_done ?s u = handle_done s u" for u by (simp add: handle_done_def fields)
  have ok: "phase_ok ?s u q" if "task_phase u s = Some q" for u q
    using turns_task [OF inv that] fresh by (cases q) (auto simp: fields)
  have none: "task_phase ?t s = None" using turns_task [OF inv, of ?t] fresh by fastforce
  show ?thesis
  proof (rule turns_invI)
    show "u \<in> set (sw_started ?s) \<and> (q \<noteq> Ended \<longrightarrow> u \<in> sn_settling ?s) \<and> phase_ok ?s u q"
      if "task_phase u ?s = Some q" for u q
      using that turns_task [OF inv, of u q] turns_settling [OF inv, of u q] ok ph
      by (auto simp: fields)
    show "u = v" if "owning ?s u" "owning ?s v" for u v using that w by simp
    show "task_phase u ?s \<noteq> None" if "u \<in> sn_settling ?s" for u
      using that turns_settled [OF inv, of u] ph by (auto simp: fields)
    show "early ?s u" if "u \<in> set (sw_started ?s)" "\<not> handle_done ?s u" for u
      using that turns_running [OF inv, of u] nobody [of u] e d by (auto simp: fields)
    show "u \<in> set (sw_started ?s)" if "handle_done ?s u" for u
      using that turns_done [OF inv] d by (auto simp: fields)
    show "u \<in> set (sw_started ?s) \<and> task_phase u ?s = None" if "sw_starting ?s = Some u" for u
      using that none ph by (simp add: fields)
    show "distinct (sw_started ?s)" using turns_distinct [OF inv] fresh by (simp add: fields)
  qed (use turns_keys [OF inv] e in \<open>auto simp: fields\<close>)
qed

section \<open>Every step keeps the ownership invariant\<close>

lemma free_when_unclaimed:
  assumes inv: "turns_inv s" and "sw_starting s = None" "sn_settling s = {}"
  shows "\<not> owning s u"
proof
  assume "owning s u"
  then obtain ph where "task_phase u s = Some ph" "owning_phase ph"
    using assms(2) by (auto simp: owning_def)
  then show False using turns_settling [OF inv, of u ph] assms(3) by (cases ph) auto
qed

lemma start_cases:
  obtains (refused) e where "start message reservation owner t build raises s = (Inl e, start_failed reservation s)"
  | (started) c where "start message reservation owner t build raises s =
      (Inr c, start_success message reservation c s)"
      "start_refusal message reservation owner s = None"
      "start_context message reservation t build raises s = Inr c"
  by (cases "start_refusal message reservation owner s";
      cases "start_context message reservation t build raises s")
     (auto simp: start_def)

lemma start_context_id:
  "start_context message reservation t build raises s = Inr c \<Longrightarrow>
   tx_turn_id c = t \<and> tx_thread_id c = sn_thread_id s \<and> tx_agent c \<noteq> None"
  by (auto simp: start_context_def Let_def split: option.splits sum.splits if_splits)

lemma start_failed_frame: "same_turns s (start_failed r s)"
    "sn_active_handle (start_failed r s) = sn_active_handle s"
    "sn_active_context (start_failed r s) = sn_active_context s"
    "sn_status (start_failed r s) = WAITING_APPROVAL \<Longrightarrow> sn_status s = WAITING_APPROVAL"
  by (auto simp: start_failed_def same_turns_def split: if_splits)

lemma refusal_None:
  assumes "start_refusal message reservation owner s = None"
  shows "\<not> sn_closed s" "live_handle s = None"
    "sn_settling s = {} \<or> (\<exists>t. owner = Some t \<and> t \<in> sn_settling s)"
    "sn_status s = WAITING_APPROVAL \<Longrightarrow> ut_approval_resume message"
    "reservation = sn_reservation s"
    "ut_approval_resume message \<Longrightarrow> resume_authorized reservation s"
  using assms by (auto simp: start_refusal_def owns_reservation_def split: if_splits)

lemma turns_inv_lp_start:
  assumes inv: "turns_inv s" and "sw_starting s = None" "t \<notin> set (sw_started s)"
  shows "turns_inv (snd (start message reservation None t build raises s))"
proof (cases rule: start_cases [of message reservation None t build raises s])
  case (refused e)
  then show ?thesis using turns_inv_frame [OF inv start_failed_frame] by simp
next
  case (started c)
  have "sn_settling s = {}" using refusal_None(3) [OF started(2)] by simp
  then have "\<not> owning s u" for u using free_when_unclaimed inv assms(2) by blast
  then show ?thesis
    using turns_inv_start [OF inv] start_context_id [OF started(3)] assms(3) started(1) by simp
qed

lemma same_turns_refl [simp]: "same_turns s s"
  by (simp add: same_turns_def)

lemma clear_guidance_fields [simp]:
  "sw_tasks (clear_guidance a s) = sw_tasks s" "sw_started (clear_guidance a s) = sw_started s"
  "sn_settling (clear_guidance a s) = sn_settling s" "sw_starting (clear_guidance a s) = sw_starting s"
  "sw_futures (clear_guidance a s) = sw_futures s" "sw_contexts (clear_guidance a s) = sw_contexts s"
  "sn_usage (clear_guidance a s) = sn_usage s" "sn_status (clear_guidance a s) = sn_status s"
  "sn_active_handle (clear_guidance a s) = sn_active_handle s"
  "sn_active_context (clear_guidance a s) = sn_active_context s"
  "sn_closed (clear_guidance a s) = sn_closed s" "sw_close (clear_guidance a s) = sw_close s"
  "sn_reservation (clear_guidance a s) = sn_reservation s"
  "sn_latest_handle (clear_guidance a s) = sn_latest_handle s"
  "sn_approval_claim (clear_guidance a s) = sn_approval_claim s"
  "sn_consumed_claim (clear_guidance a s) = sn_consumed_claim s"
  "sw_seed (clear_guidance a s) = sw_seed s" "sw_claims (clear_guidance a s) = sw_claims s" "sw_resumes (clear_guidance a s) = sw_resumes s"
  "sw_charged (clear_guidance a s) = sw_charged s" "sw_guided (clear_guidance a s) = sw_guided s"
  "sn_turn_generation (clear_guidance a s) = sn_turn_generation s"
  "sw_tokens (clear_guidance a s) = sw_tokens s" "sn_broker (clear_guidance a s) = sn_broker s"
  by (simp_all add: clear_guidance_def set_queue_def split: option.splits)

lemma set_queue_fields [simp]:
  "sw_tasks (set_queue a q tags s) = sw_tasks s" "sw_started (set_queue a q tags s) = sw_started s"
  "sn_settling (set_queue a q tags s) = sn_settling s" "sw_starting (set_queue a q tags s) = sw_starting s"
  "sw_futures (set_queue a q tags s) = sw_futures s" "sw_contexts (set_queue a q tags s) = sw_contexts s"
  "sn_usage (set_queue a q tags s) = sn_usage s" "sn_status (set_queue a q tags s) = sn_status s"
  "sn_active_handle (set_queue a q tags s) = sn_active_handle s"
  "sn_active_context (set_queue a q tags s) = sn_active_context s"
  "sn_closed (set_queue a q tags s) = sn_closed s" "sw_close (set_queue a q tags s) = sw_close s"
  "sn_reservation (set_queue a q tags s) = sn_reservation s"
  "sn_latest_handle (set_queue a q tags s) = sn_latest_handle s"
  "sn_approval_claim (set_queue a q tags s) = sn_approval_claim s"
  "sn_consumed_claim (set_queue a q tags s) = sn_consumed_claim s"
  "sw_seed (set_queue a q tags s) = sw_seed s" "sw_claims (set_queue a q tags s) = sw_claims s" "sw_resumes (set_queue a q tags s) = sw_resumes s"
  "sw_charged (set_queue a q tags s) = sw_charged s" "sw_guided (set_queue a q tags s) = sw_guided s"
  "sn_turn_generation (set_queue a q tags s) = sn_turn_generation s"
  "sw_addressed (set_queue a q tags s) = (sw_addressed s)(a := tags)"
  "sw_queues (set_queue a q tags s) = (sw_queues s)(a \<mapsto> q)"
  by (simp_all add: set_queue_def)

text \<open>Steps that leave the ownership and the front of the session alone.\<close>

definition framed :: "session \<Rightarrow> session \<Rightarrow> bool" where
  "framed s s' \<longleftrightarrow>
     same_turns s s' \<and> sn_active_handle s' = sn_active_handle s \<and>
     sn_active_context s' = sn_active_context s \<and>
     (sn_status s' = WAITING_APPROVAL \<longrightarrow> sn_status s = WAITING_APPROVAL)"

lemma turns_inv_framed: "turns_inv s \<Longrightarrow> framed s s' \<Longrightarrow> turns_inv s'"
  unfolding framed_def by (blast intro: turns_inv_frame)

lemma framed_refl [simp]: "framed s s"
  by (simp add: framed_def)

lemma framed_reserve: "framed s (snd (reserve_turn token s))"
  by (simp add: framed_def same_turns_def reserve_turn_def Let_def)

lemma framed_reserve_or_raise: "framed s (snd (reserve_turn_or_raise resume claim token s))"
  by (simp add: framed_def same_turns_def reserve_turn_or_raise_def Let_def split: option.split)

lemma framed_release: "framed s (snd (release_turn r s))"
  by (simp add: framed_def same_turns_def release_turn_def)

lemma framed_marks:
  "framed s (snd (mark_queued s))" "framed s (clear_queued s)" "framed s (snd (mark_starting s))"
  by (simp_all add: framed_def same_turns_def mark_queued_def clear_queued_def mark_starting_def)

lemma framed_approval:
  "framed s (snd (build_approval_resume expected generation pending decisions command n token s))"
  "framed s (snd (take_approval_claim expected s))"
  by (simp_all add: framed_def same_turns_def build_approval_resume_def take_approval_claim_def
      split: option.split prod.split)

lemma framed_queue: "framed s (set_queue a q tags s)" "framed s (clear_guidance a s)"
  by (simp_all add: framed_def same_turns_def)

lemma framed_steer: "framed s (snd (steer_turn expected txt s))"
  by (simp add: steer_turn_def Let_def framed_queue split: option.split prod.split)

lemma framed_rebind: "framed s (snd (rebind binding s))"
  by (simp add: framed_def same_turns_def rebind_def)

lemma framed_guided: "framed s (s\<lparr>sw_guided := g\<rparr>)"
  by (simp add: framed_def same_turns_def)

lemma framed_trans: "framed s t \<Longrightarrow> framed t u \<Longrightarrow> framed s u"
  by (simp add: framed_def same_turns_def)

lemma framed_model_call: "framed s (model_call t s)"
  by (simp add: model_call_def framed_trans [OF framed_guided framed_queue(1)] split: option.split)

lemma framed_withdraw: "framed s (withdraw_note a i s)"
  by (simp add: withdraw_note_def framed_queue split: option.split)

lemma framed_world: "framed s (s\<lparr>sw_tokens := k\<rparr>)" "framed s (s\<lparr>sn_broker := b\<rparr>)"
  by (simp_all add: framed_def same_turns_def)

lemmas framed_ops =
  framed_reserve framed_reserve_or_raise framed_release framed_marks framed_approval framed_steer
  framed_rebind framed_model_call framed_withdraw framed_queue framed_world

text \<open>What a thread can do to the ownership: end a turn, cancel a waiting one, or nothing.\<close>

lemma thread_step_cases:
  assumes "thread_step s s'"
  obtains (ends) t out where "s' = turn_ends t out s" "t \<in> set (sw_started s)" "\<not> handle_done s t"
  | (cancels) expected reason where "s' = snd (cancel_turn expected reason s)"
  | (frame) "framed s s'"
  using assms
proof cases
  case th_turn_ends
  then show ?thesis using ends by blast
next
  case th_cancel
  then show ?thesis using cancels by blast
qed (rule frame; simp only: framed_ops)+

lemma turns_inv_cancel:
  assumes inv: "turns_inv s"
  shows "turns_inv (snd (cancel_turn expected reason s))"
proof (cases "sn_status s = WAITING_APPROVAL")
  case True
  then have "\<not> early s t" for t using turns_waiting [OF inv] by blast
  then show ?thesis
    by (intro turns_inv_idle [OF inv])
       (simp_all add: cancel_turn_def Let_def split: option.split prod.split)
next
  case False
  then have "framed s (snd (cancel_turn expected reason s))"
    by (simp add: framed_def cancel_turn_def same_turns_def Let_def split: option.split prod.split)
  then show ?thesis by (rule turns_inv_framed [OF inv])
qed

lemma turns_inv_thread: "turns_inv s \<Longrightarrow> thread_step s s' \<Longrightarrow> turns_inv s'"
  by (erule thread_step_cases)
     (simp_all add: turns_inv_ends turns_inv_cancel turns_inv_framed)

lemma phase_ok_world [simp]:
  "phase_ok (s\<lparr>sn_broker := b\<rparr>) t ph = phase_ok s t ph"
  "phase_ok (s\<lparr>sn_last_error := e\<rparr>) t ph = phase_ok s t ph"
  "phase_ok (s\<lparr>sn_goal := g\<rparr>) t ph = phase_ok s t ph"
  by (cases ph; simp)+

lemma framed_notes: "framed s (note_error e s)" "framed s (s\<lparr>sn_goal := g\<rparr>)"
  by (simp_all add: framed_def same_turns_def note_error_def)

lemma framed_note_goal: "framed s (note_error e (s\<lparr>sn_goal := g\<rparr>))"
  by (rule framed_trans [OF framed_notes(2) framed_notes(1)])

text \<open>A task moves on after a step that leaves the ownership alone.\<close>

lemma turns_inv_framed_phase:
  assumes inv: "turns_inv s" and s1: "framed s s1" and old: "task_phase t s = Some old"
    and down: "early_phase new \<Longrightarrow> early_phase old" "owning_phase new \<Longrightarrow> owning_phase old"
    and fin: "early_phase old \<Longrightarrow> \<not> early_phase new \<Longrightarrow> handle_done s t"
    and ok: "phase_ok s t new" and ended: "old = Ended \<Longrightarrow> new = Ended"
  shows "turns_inv (set_phase t new s1)"
proof -
  have same: "same_turns s s1" using s1 by (simp add: framed_def)
  show ?thesis
    by (rule turns_inv_phase [OF turns_inv_framed [OF inv s1], of t old])
       (use old down fin ok ended in \<open>simp_all add: same_turns_views [OF same]\<close>)
qed

lemma early_active_context:
  assumes inv: "turns_inv s" and "early s t"
  shows "\<exists>c. sw_contexts s t = Some c \<and> current_agent s = the (tx_agent c)"
  using turns_active [OF inv turns_early [OF assms]]
  by (auto simp: current_agent_def)

lemma turns_inv_persist:
  assumes inv: "turns_inv s" and ph: "task_phase t s = Some Awaiting"
    and fut: "sw_futures s t = Some (Finished r)"
  shows "turns_inv (settle_persist t r out s)"
proof -
  have "early s t" using ph by (auto simp: early_def)
  then obtain c where "sw_contexts s t = Some c" "current_agent s = the (tx_agent c)"
    using early_active_context [OF inv] by blast
  with fut show ?thesis
    unfolding settle_persist_def Let_def
    by (intro turns_inv_framed_phase [OF inv framed_world(2) ph]) simp_all
qed

lemma turns_inv_broken:
  assumes inv: "turns_inv s" and ph: "task_phase t s = Some Awaiting"
    and fut: "sw_futures s t = Some (Broken e)"
  shows "turns_inv (set_phase t Ended s)"
  using fut by (intro turns_inv_phase [OF inv ph]) (simp_all add: handle_done_def)

text \<open>While the settlement of one turn is past its clearing, no turn is early.\<close>

lemma not_early_when_owning:
  assumes inv: "turns_inv s" and ph: "task_phase t s = Some ph" "owning_phase ph" "\<not> early_phase ph"
  shows "\<not> early s u"
proof
  assume e: "early s u"
  have "owning s t" using ph by (auto simp: owning_def)
  then have "t = u" using turns_unique [OF inv] early_owning [OF e] by blast
  with e ph turns_starting [OF inv] show False by (auto simp: early_def)
qed

lemma turns_inv_clear:
  assumes inv: "turns_inv s" and ph: "task_phase t s = Some (Persisted r usage status err a)"
  shows "turns_inv (settle_clear t r usage status err a s)"
proof -
  let ?u = "set_phase t (Cleared r status) s"
  have ok: "phase_ok s t (Persisted r usage status err a)" using turns_task [OF inv ph] by blast
  then have u: "turns_inv ?u"
    by (intro turns_inv_phase [OF inv ph]) (auto simp: handle_done_def)
  have "\<not> early ?u v" for v
    by (rule not_early_when_owning [OF u, of t "Cleared r status"]) simp_all
  then show ?thesis
    by (rule turns_inv_idle [OF u]) (simp_all add: settle_clear_def Let_def set_phase_def)
qed

lemma turns_inv_goal:
  assumes inv: "turns_inv s" and ph: "task_phase t s = Some (Cleared r status)"
  shows "turns_inv (settle_goal t r status out has_followup s)"
proof -
  have ok: "sw_futures s t = Some (Finished r) \<and> status = settled_status (res_status r)"
    using turns_task [OF inv ph] by simp
  have step: "turns_inv (set_phase t new s1)"
    if "framed s s1" "new = Publishing status \<or> new = Following r status" for s1 new
    by (rule turns_inv_framed_phase [OF inv that(1) ph]) (use ok that(2) in auto)
  show ?thesis
    by (cases out) (simp_all add: settle_goal_def Let_def step framed_notes)
qed

lemma start_success_phase:
  "set_phase t ph (start_success m r c s) = start_success m r c (set_phase t ph s)"
  by (simp add: start_success_def set_phase_def Let_def owns_reservation_def)

lemma framed_start_failed: "framed s (start_failed m s)"
  by (simp add: framed_def same_turns_def start_failed_def)

lemma turns_inv_follow:
  assumes inv: "turns_inv s" and starting: "sw_starting s = None"
    and ph: "task_phase t s = Some (Following r status)" and fresh: "u \<notin> set (sw_started s)"
  shows "turns_inv (settle_follow t status out u build raises s)"
proof -
  have ok: "sw_futures s t = Some (Finished r) \<and> status = settled_status (res_status r)"
    using turns_task [OF inv ph] by simp
  have step: "turns_inv (set_phase t (Publishing status) s1)" if "framed s s1" for s1
    by (rule turns_inv_framed_phase [OF inv that ph]) (use ok in auto)
  show ?thesis
  proof (cases out)
    case (Followup m)
    show ?thesis
    proof (cases rule: start_cases [of m None "Some t" u build raises s])
      case (refused e)
      have "framed s (note_error (error_text e) (start_failed None s))"
        by (rule framed_trans [OF framed_start_failed framed_notes(1)])
      with Followup refused show ?thesis by (simp add: settle_follow_def step)
    next
      case (started c)
      let ?s = "set_phase t (Publishing status) s"
      have s: "turns_inv ?s" using ok by (intro turns_inv_phase [OF inv ph]) simp_all
      have "\<not> owning ?s v" for v
      proof
        assume v: "owning ?s v"
        then have "owning s v" "v \<noteq> t" using starting by (auto simp: owning_set owning_def split: if_splits)
        moreover have "owning s t" using ph by (auto simp: owning_def)
        ultimately show False using turns_unique [OF inv] by blast
      qed
      then have "turns_inv (start_success m None c ?s)"
        using fresh start_context_id [OF started(3)] by (intro turns_inv_start [OF s]) simp_all
      with Followup started(1) show ?thesis
        by (simp add: settle_follow_def start_success_phase)
    qed
  qed (simp_all add: settle_follow_def step framed_notes)
qed

lemma turns_inv_publish:
  assumes inv: "turns_inv s" and starting: "sw_starting s = None"
    and ph: "task_phase t s = Some (Publishing status)"
  shows "turns_inv (settle_publish t status s)"
proof -
  let ?u = "set_phase t Ended s"
  have u: "turns_inv ?u"
    using turns_task [OF inv ph] by (intro turns_inv_phase [OF inv ph]) auto
  show ?thesis
  proof (cases "publish_terminal t status s")
    case True
    have "\<not> early ?u v" for v
    proof
      assume e: "early ?u v"
      then have "sn_active_handle s = Some v" using turns_early [OF u] by simp
      with True have "v = t" by (auto simp: publish_terminal_def)
      with e starting show False by (simp add: early_set)
    qed
    then have "turns_inv (?u\<lparr>sn_settling := sn_settling ?u - {t}, sn_status := status\<rparr>)"
      by (intro turns_inv_unsettle [OF u]) simp_all
    moreover have "settle_publish t status s = ?u\<lparr>sn_settling := sn_settling ?u - {t}, sn_status := status\<rparr>"
      using True by (simp add: settle_publish_def set_phase_def)
    ultimately show ?thesis by simp
  qed (use u in \<open>simp add: settle_publish_def\<close>)
qed

lemma framed_close_claim: "framed s (snd (close_claim cancel_active strict s))"
  by (simp add: framed_def close_claim_def same_turns_def Let_def split: option.split prod.split)

lemma framed_abort: "framed s (abort_close s)"
  by (simp add: framed_def same_turns_def abort_close_def split: close_state.split)

lemma turns_inv_finish_close:
  assumes inv: "turns_inv s" and "sw_starting s = None" "can_finish_close s"
  shows "turns_inv (snd (finish_close s))"
proof -
  have "sw_tasks s = []" using assms(3) by (simp add: can_finish_close_def split: close_state.splits)
  then have "\<not> early s t" for t using assms(2) by (simp add: early_def task_phase_def)
  then show ?thesis by (intro turns_inv_idle [OF inv]) (simp_all add: finish_close_def)
qed

lemma turns_inv_loop: "loop_step s s' \<Longrightarrow> turns_inv s \<Longrightarrow> turns_inv s'"
  by (induction rule: loop_step.induct)
     (blast intro: turns_inv_lp_start turns_inv_schedule turns_inv_persist turns_inv_broken
        turns_inv_clear turns_inv_goal turns_inv_follow turns_inv_publish turns_inv_end_task
        turns_inv_framed [OF _ framed_close_claim] turns_inv_framed [OF _ framed_abort]
        turns_inv_finish_close)+

interpretation session_turns: inv_system is_new_session session_step turns_inv
proof unfold_locales
  fix s
  assume "is_new_session s"
  then show "turns_inv s"
    by cases (simp add: turns_inv_def new_session_def task_phase_def early_def owning_def
        handle_done_def at_most_one_def)
next
  fix s t
  assume "turns_inv s" "session_step s t"
  from this(2,1) show "turns_inv t" by cases (auto intro: turns_inv_thread turns_inv_loop)
qed

end
