(* ===== verification/Session_Front.thy ===== *)
theory Session_Front
  imports Session_Invariants
begin

text \<open>
  The published status of a session against its turns (\<open>live_inv\<close>): a running turn shows as running
  or cancelling, nobody reserves while a turn runs, and a close that has finished is final.
\<close>

section \<open>The front of the session\<close>

definition live_inv :: "session \<Rightarrow> bool" where
  "live_inv s \<longleftrightarrow>
     (\<forall>t. live_handle s = Some t \<longrightarrow> sn_status s \<in> {RUNNING, CANCELLING} \<and> sn_reservation s = None) \<and>
     (sn_closed s \<longrightarrow> sn_reservation s = None) \<and>
     (\<forall>h b. sw_close s = ClosingTurn h b \<longrightarrow>
        sn_closed s \<and> (\<forall>t. live_handle s = Some t \<longrightarrow> h = Some t)) \<and>
     (sw_close s = CloseDone \<longrightarrow> sn_closed s \<and> sn_status s = CLOSED \<and> sn_active_handle s = None \<and>
        sw_starting s = None \<and> sw_tasks s = []) \<and>
     (sn_status s = CLOSED \<longrightarrow> sw_close s = CloseDone)"

lemma live_handle_iff: "live_handle s = Some t \<longleftrightarrow> sn_active_handle s = Some t \<and> \<not> handle_done s t"
  by (auto simp: live_handle_def split: option.splits if_splits)

lemma live_handle_cong:
  "sn_active_handle s' = sn_active_handle s \<Longrightarrow> sw_futures s' = sw_futures s \<Longrightarrow>
   live_handle s' = live_handle s"
  by (simp add: live_handle_def handle_done_def split: option.split)

text \<open>The fields of the front that a step may leave alone.\<close>

definition same_front :: "session \<Rightarrow> session \<Rightarrow> bool" where
  "same_front s s' \<longleftrightarrow>
     sn_active_handle s' = sn_active_handle s \<and> sw_futures s' = sw_futures s \<and>
     sn_status s' = sn_status s \<and> sn_reservation s' = sn_reservation s \<and>
     sn_closed s' = sn_closed s \<and> sw_close s' = sw_close s \<and> sw_starting s' = sw_starting s \<and>
     sn_latest_handle s' = sn_latest_handle s"

lemma live_inv_same:
  "live_inv s \<Longrightarrow> same_front s s' \<Longrightarrow> (sw_tasks s = [] \<Longrightarrow> sw_tasks s' = []) \<Longrightarrow> live_inv s'"
  using live_handle_cong [of s' s] unfolding live_inv_def same_front_def by simp

text \<open>The status, the reservation or the close change while no turn is live.\<close>

lemma live_inv_reserved:
  assumes "live_inv s" "live_handle s = None" "sn_closed s = False"
    "sn_active_handle s' = sn_active_handle s" "sw_futures s' = sw_futures s"
    "sn_closed s' = False" "sw_close s' = sw_close s" "sn_status s' \<noteq> CLOSED"
  shows "live_inv s'"
  using assms live_handle_cong [of s' s] unfolding live_inv_def by auto

lemma status_not_closed: "live_inv s \<Longrightarrow> \<not> sn_closed s \<Longrightarrow> sn_status s \<noteq> CLOSED"
  by (auto simp: live_inv_def)

lemma reservation_not_live: "live_inv s \<Longrightarrow> sn_reservation s = Some r \<Longrightarrow>
    live_handle s = None \<and> \<not> sn_closed s"
  by (cases "live_handle s") (auto simp: live_inv_def)

lemma live_inv_reserve: "live_inv s \<Longrightarrow> live_inv (snd (reserve_turn token s))"
  by (auto simp: reserve_turn_def Let_def intro: live_inv_reserved [of s])

lemma live_inv_reserve_or_raise:
  "live_inv s \<Longrightarrow> live_inv (snd (reserve_turn_or_raise resume claim token s))"
  by (auto simp: reserve_turn_or_raise_def Let_def split: option.split intro: live_inv_reserved [of s])

lemma live_inv_release: "live_inv s \<Longrightarrow> live_inv (snd (release_turn r s))"
  using reservation_not_live [of s r]
  by (auto simp: release_turn_def intro: live_inv_reserved [of s])

lemma live_inv_start_failed: "live_inv s \<Longrightarrow> live_inv (start_failed r s)"
  using reservation_not_live [of s]
  by (auto simp: start_failed_def intro: live_inv_reserved [of s])

lemma live_inv_mark_queued: "live_inv s \<Longrightarrow> live_inv (snd (mark_queued s))"
  by (auto simp: mark_queued_def intro: live_inv_reserved [of s])

text \<open>A status that is not one of a running, cancelling or closed session can be replaced.\<close>

lemma live_inv_status:
  assumes "live_inv s" "sn_status s \<notin> {RUNNING, CANCELLING, CLOSED}" "st \<noteq> CLOSED"
  shows "live_inv (s\<lparr>sn_status := st\<rparr>)"
proof -
  have "live_handle (s\<lparr>sn_status := st\<rparr>) = live_handle s" by (rule live_handle_cong) simp_all
  with assms show ?thesis by (auto simp: live_inv_def)
qed

lemma live_inv_marks:
  "live_inv s \<Longrightarrow> live_inv (clear_queued s)" "live_inv s \<Longrightarrow> live_inv (snd (mark_starting s))"
  by (auto simp: clear_queued_def mark_starting_def intro: live_inv_status)

lemma live_inv_turn_ends: "live_inv s \<Longrightarrow> live_inv (turn_ends t out s)"
  by (auto simp: live_inv_def live_handle_iff handle_done_def turn_ends_def)

lemma live_inv_cancel:
  assumes inv: "live_inv s"
  shows "live_inv (snd (cancel_turn expected reason s))"
  using inv
  by (auto simp: cancel_turn_def live_inv_def live_handle_iff handle_done_def Let_def
      split: option.splits prod.splits)

lemma live_inv_start_success:
  assumes inv: "live_inv s" and r: "start_refusal message reservation owner s = None"
    and fresh: "sw_futures s (tx_turn_id c) = None"
  shows "live_inv (start_success message reservation c s)"
proof -
  have open_s: "\<not> sn_closed s" and own: "reservation = sn_reservation s"
    using refusal_None [OF r] by simp_all
  have "sn_reservation (start_success message reservation c s) = None"
    using own by (auto simp: start_success_def Let_def owns_reservation_def)
  with inv open_s show ?thesis
    by (auto simp: live_inv_def start_success_def Let_def)
qed

lemma done_fresh:
  assumes "turns_inv s" "t \<notin> set (sw_started s)"
  shows "sw_futures s t = None"
  using turns_done [OF assms(1), of t] assms(2) by (cases "sw_futures s t") (auto simp: handle_done_def)

lemma live_inv_start:
  assumes "turns_inv s" "live_inv s" "t \<notin> set (sw_started s)"
  shows "live_inv (snd (start message reservation owner t build raises s))"
proof (cases rule: start_cases [of message reservation owner t build raises s])
  case (refused e)
  then show ?thesis using assms(2) by (simp add: live_inv_start_failed)
next
  case (started c)
  then show ?thesis
    using live_inv_start_success [OF assms(2) started(2)] start_context_id [OF started(3)]
      done_fresh [OF assms(1,3)] by simp
qed

lemma live_inv_set_phase:
  "live_inv s \<Longrightarrow> sw_tasks s \<noteq> [] \<Longrightarrow> live_inv (set_phase t ph s)"
  by (rule live_inv_same [of s]) (simp_all add: same_front_def)

lemma task_phase_tasks: "task_phase t s = Some ph \<Longrightarrow> sw_tasks s \<noteq> []"
  by (auto simp: task_phase_def)

lemma live_inv_note: "live_inv s \<Longrightarrow> live_inv (note_error e s)" "live_inv s \<Longrightarrow> live_inv (s\<lparr>sn_goal := g\<rparr>)"
  "live_inv s \<Longrightarrow> live_inv (s\<lparr>sn_broker := b\<rparr>)"
  by (auto intro!: live_inv_same [of s] simp: same_front_def note_error_def)

lemma note_fields [simp]:
  "sw_tasks (note_error e s) = sw_tasks s" "sw_starting (note_error e s) = sw_starting s"
  by (simp_all add: note_error_def)

lemma live_inv_clear:
  assumes inv: "live_inv s" and ph: "task_phase t s = Some ph" and fin: "handle_done s t"
  shows "live_inv (settle_clear t r usage status err a s)"
proof -
  have tasks: "sw_tasks s \<noteq> []" using task_phase_tasks [OF ph] .
  let ?f = "\<lambda>s1. set_phase t (Cleared r status)
      ((clear_guidance a (s1\<lparr>sn_usage := usage, sn_last_error := reason_or err (res_error_message r)\<rparr>))
       \<lparr>sw_charged := sw_charged s @ [(t, r)]\<rparr>)"
  have same: "same_front s1 (?f s1)" for s1 by (simp add: same_front_def)
  have "live_inv (s\<lparr>sn_active_handle := None, sn_active_context := None\<rparr>)"
    if "sn_active_handle s = Some t"
    using inv fin that tasks by (auto simp: live_inv_def live_handle_iff handle_done_def)
  moreover have "live_inv (?f s1)" if "live_inv s1" "sw_tasks s1 \<noteq> []" for s1
    using live_inv_same [OF that(1) same] that(2) by simp
  ultimately show ?thesis
    using inv tasks by (simp add: settle_clear_def Let_def)
qed

lemma live_inv_publish:
  assumes turns: "turns_inv s" and inv: "live_inv s" and starting: "sw_starting s = None"
    and ph: "task_phase t s = Some (Publishing status)" and ok: "status \<noteq> CLOSED"
  shows "live_inv (settle_publish t status s)"
proof (cases "publish_terminal t status s")
  case True
  have "live_handle s = None"
  proof (rule ccontr)
    assume "live_handle s \<noteq> None"
    then obtain u where u: "sn_active_handle s = Some u" "\<not> handle_done s u"
      by (auto simp: live_handle_def split: option.splits if_splits)
    with True have "u = t" by (auto simp: publish_terminal_def)
    with u turns_task [OF turns ph] show False by (auto simp: handle_done_def)
  qed
  with True inv ok show ?thesis
    by (intro live_inv_reserved [OF inv]) (simp_all add: settle_publish_def publish_terminal_def)
next
  case False
  with live_inv_set_phase [OF inv task_phase_tasks [OF ph]] show ?thesis
    by (simp add: settle_publish_def)
qed

lemma live_inv_closing:
  assumes "live_inv s" "\<not> sn_closed s" "sn_active_handle s' = sn_active_handle s"
    "sw_futures s' = sw_futures s" "sn_closed s'" "sn_reservation s' = None"
    "sw_close s' = ClosingTurn (sn_active_handle s) b"
    "sn_status s' = sn_status s \<or> sn_status s' = CANCELLING"
  shows "live_inv s'"
proof -
  have live: "live_handle s' = live_handle s" by (rule live_handle_cong [OF assms(3,4)])
  have open_status: "sn_status s \<noteq> CLOSED" by (rule status_not_closed [OF assms(1,2)])
  show ?thesis
  proof (cases "live_handle s")
    case None
    with assms(5-8) live open_status show ?thesis unfolding live_inv_def by auto
  next
    case (Some t)
    then have "sn_status s \<in> {RUNNING, CANCELLING}" "sn_active_handle s = Some t"
      using assms(1) live_handle_iff unfolding live_inv_def by blast+
    with Some assms(5-8) live open_status show ?thesis unfolding live_inv_def by auto
  qed
qed

lemma live_inv_close_claim:
  assumes inv: "live_inv s"
  shows "live_inv (snd (close_claim cancel_active strict s))"
proof (cases "sn_closed s \<or> (if cancel_active then None else close_refusal strict s) \<noteq> None")
  case True
  with inv show ?thesis by (auto simp: close_claim_def)
next
  case False
  then have nc: "\<not> sn_closed s" and nr: "(if cancel_active then None else close_refusal strict s) = None"
    by simp_all
  let ?s1 = "clear_guidance (current_agent s) (s\<lparr>sn_closed := True, sn_reservation := None\<rparr>)"
  show ?thesis
  proof (cases "if cancel_active then live_handle s else None")
    case None
    then have "snd (close_claim cancel_active strict s) =
        ?s1\<lparr>sw_close := ClosingTurn (sn_active_handle s) False\<rparr>"
      unfolding close_claim_def Let_def nr None using nc by simp
    then show ?thesis by (rule ssubst) (rule live_inv_closing [OF inv nc, of _ False], simp_all)
  next
    case (Some t)
    obtain req token where k: "cancel_token_cancel ''shutdown'' (sw_tokens s t) = (req, token)"
      by (cases "cancel_token_cancel ''shutdown'' (sw_tokens s t)")
    have "snd (close_claim cancel_active strict s) =
        ?s1\<lparr>sw_tokens := (sw_tokens s)(t := token),
            sn_status := (if req then CANCELLING else sn_status s),
            sw_close := ClosingTurn (sn_active_handle s) req\<rparr>"
      unfolding close_claim_def Let_def nr Some using nc k by simp
    then show ?thesis by (rule ssubst) (rule live_inv_closing [OF inv nc, of _ req], simp_all)
  qed
qed

lemma live_inv_finish_close:
  assumes inv: "live_inv s" and "sw_starting s = None" "can_finish_close s"
  shows "live_inv (snd (finish_close s))"
  using assms by (auto simp: live_inv_def finish_close_def can_finish_close_def live_handle_def
      split: close_state.splits)

lemma settled_status_open: "settled_status st \<noteq> CLOSED"
  by (cases st) simp_all

lemma live_inv_loop:
  assumes "loop_step s s'" "turns_inv s" "live_inv s"
  shows "live_inv s'"
  using assms
proof (induction rule: loop_step.induct)
  case (lp_start s t message reservation build raises)
  then show ?case by (simp add: live_inv_start)
next
  case (lp_schedule s)
  then show ?case
    by (auto simp: schedule_settlement_def live_inv_def live_handle_iff handle_done_def split: option.split)
next
  case (lp_persist s t r out)
  then show ?case
    by (auto simp: settle_persist_def Let_def intro!: live_inv_set_phase live_inv_note dest: task_phase_tasks)
next
  case (lp_broken s t e)
  then show ?case by (auto intro!: live_inv_set_phase dest: task_phase_tasks)
next
  case (lp_clear s t r usage status err a)
  then show ?case
    using turns_task [OF lp_clear.prems(1) lp_clear.hyps(2)]
    by (auto intro!: live_inv_clear simp: handle_done_def)
next
  case (lp_goal s t r status gout has_followup)
  then show ?case
    by (auto simp: settle_goal_def Let_def intro!: live_inv_set_phase live_inv_note
        dest: task_phase_tasks split: goal_end.split)
next
  case (lp_follow s t r status u fout build raises)
  have tasks: "sw_tasks s \<noteq> []" using lp_follow.hyps(2) by (rule task_phase_tasks)
  have "sw_tasks (snd (start message None (Some t) u build raises s)) = sw_tasks s" for message
    by (auto simp: start_def start_failed_def start_success_def Let_def split: option.split sum.split)
  with lp_follow tasks live_inv_start [OF lp_follow.prems lp_follow.hyps(3)] show ?case
    by (auto simp: settle_follow_def intro!: live_inv_set_phase live_inv_note
        split: followup_end.split prod.split sum.split) (metis snd_conv)+
next
  case (lp_publish s t status)
  then show ?case
    using turns_task [OF lp_publish.prems(1) lp_publish.hyps(2)] settled_status_open
    by (auto intro!: live_inv_publish)
next
  case (lp_end s t)
  show ?case
    by (rule live_inv_same [OF lp_end.prems(2)]) (simp_all add: end_task_def same_front_def)
next
  case (lp_close s cancel_active strict)
  then show ?case by (simp add: live_inv_close_claim)
next
  case (lp_finish_close s)
  then show ?case by (simp add: live_inv_finish_close)
next
  case (lp_abort_close s)
  then show ?case
    by (auto simp: abort_close_def live_inv_def live_handle_iff handle_done_def split: close_state.split)
qed

lemma live_inv_thread:
  assumes "thread_step s s'" "live_inv s"
  shows "live_inv s'"
  using assms
proof (induction rule: thread_step.induct)
  case (th_build_resume token s expected generation pending decisions command n)
  show ?case
    by (rule live_inv_same [OF th_build_resume.prems]) (auto simp: same_front_def build_approval_resume_def)
next
  case (th_take_claim s expected)
  show ?case
    by (rule live_inv_same [OF th_take_claim.prems]) (auto simp: same_front_def take_approval_claim_def split: option.split)
next
  case (th_steer s expected body)
  show ?case
    by (rule live_inv_same [OF th_steer.prems])
       (simp_all add: same_front_def steer_turn_def Let_def split: option.split prod.split)
next
  case (th_rebind s binding)
  show ?case
    by (rule live_inv_same [OF th_rebind.prems]) (auto simp: same_front_def rebind_def)
next
  case (th_model_call t s)
  show ?case
    by (rule live_inv_same [OF th_model_call.prems]) (simp_all add: same_front_def model_call_def split: option.split)
next
  case (th_withdraw s a i)
  show ?case
    by (rule live_inv_same [OF th_withdraw.prems]) (simp_all add: same_front_def withdraw_note_def split: option.split)
next
  case (th_listeners s a q q')
  show ?case
    by (rule live_inv_same [OF th_listeners.prems]) (simp_all add: same_front_def)
next
  case (th_token s t reason)
  show ?case
    by (rule live_inv_same [OF th_token.prems]) (simp_all add: same_front_def)
qed (simp_all add: live_inv_reserve live_inv_reserve_or_raise live_inv_release live_inv_marks
    live_inv_mark_queued live_inv_cancel live_inv_turn_ends live_inv_note)

end
