(* ===== verification/Session_Approvals.thy ===== *)
theory Session_Approvals
  imports Session_Front
begin

text \<open>
  Approvals. A session waits for approval only for its latest turn, which has ended by asking for it
  and is settled; a claim made for the approval is used for one resume at most, and a turn is resumed
  at most once. The last property is about a resume that is given up.
\<close>

section \<open>Waiting\<close>

fun waits :: "settle_phase \<Rightarrow> bool" where
  "waits (Persisted _ _ st _ _) \<longleftrightarrow> st = WAITING_APPROVAL"
| "waits (Cleared _ st) \<longleftrightarrow> st = WAITING_APPROVAL"
| "waits (Following _ st) \<longleftrightarrow> st = WAITING_APPROVAL"
| "waits (Publishing st) \<longleftrightarrow> st = WAITING_APPROVAL"
| "waits _ \<longleftrightarrow> False"

definition asked :: "session \<Rightarrow> string \<Rightarrow> bool" where
  "asked s t \<longleftrightarrow> (\<exists>r. sw_futures s t = Some (Finished r) \<and> res_status r = T_WAITING_APPROVAL)"

definition settled :: "session \<Rightarrow> string \<Rightarrow> bool" where
  "settled s t \<longleftrightarrow> sw_starting s \<noteq> Some t \<and> (\<forall>ph. task_phase t s = Some ph \<longrightarrow> ph = Ended)"

definition wait_inv :: "session \<Rightarrow> bool" where
  "wait_inv s \<longleftrightarrow>
     (\<forall>t. sn_active_handle s = Some t \<longrightarrow> sn_latest_handle s = Some t) \<and>
     (sn_status s = WAITING_APPROVAL \<longrightarrow>
        (\<exists>t. sn_active_handle s = Some t \<and> asked s t \<and> settled s t)) \<and>
     (\<forall>t ph. task_phase t s = Some ph \<longrightarrow> waits ph \<longrightarrow> sn_latest_handle s = Some t \<longrightarrow>
        sn_active_handle s = Some t)"

lemma wait_invD:
  assumes "wait_inv s"
  shows wait_latest: "sn_active_handle s = Some t \<Longrightarrow> sn_latest_handle s = Some t"
    and wait_status: "sn_status s = WAITING_APPROVAL \<Longrightarrow>
      \<exists>t. sn_active_handle s = Some t \<and> asked s t \<and> settled s t"
    and wait_task: "task_phase t s = Some ph \<Longrightarrow> waits ph \<Longrightarrow> sn_latest_handle s = Some t \<Longrightarrow>
      sn_active_handle s = Some t"
  using assms unfolding wait_inv_def by blast+

lemma wait_invI:
  assumes "\<And>t. sn_active_handle s = Some t \<Longrightarrow> sn_latest_handle s = Some t"
    and "sn_status s = WAITING_APPROVAL \<Longrightarrow> \<exists>t. sn_active_handle s = Some t \<and> asked s t \<and> settled s t"
    and "\<And>t ph. task_phase t s = Some ph \<Longrightarrow> waits ph \<Longrightarrow> sn_latest_handle s = Some t \<Longrightarrow>
      sn_active_handle s = Some t"
  shows "wait_inv s"
  using assms unfolding wait_inv_def by blast

text \<open>Steps that keep the tasks and the handles, and do not begin to wait.\<close>

definition same_wait :: "session \<Rightarrow> session \<Rightarrow> bool" where
  "same_wait s s' \<longleftrightarrow>
     sn_active_handle s' = sn_active_handle s \<and> sn_latest_handle s' = sn_latest_handle s \<and>
     sw_futures s' = sw_futures s \<and> sw_tasks s' = sw_tasks s \<and> sw_starting s' = sw_starting s \<and>
     (sn_status s' = WAITING_APPROVAL \<longrightarrow> sn_status s = WAITING_APPROVAL)"

lemma wait_inv_same: "wait_inv s \<Longrightarrow> same_wait s s' \<Longrightarrow> wait_inv s'"
  unfolding wait_inv_def same_wait_def asked_def settled_def task_phase_def by metis

lemma same_wait_refl [simp]: "same_wait s s"
  by (simp add: same_wait_def)

lemma waits_status: "phase_ok s t ph \<Longrightarrow> waits ph \<Longrightarrow> asked s t"
proof -
  have "settled_status st = WAITING_APPROVAL \<Longrightarrow> st = T_WAITING_APPROVAL" for st by (cases st) simp_all
  then show "phase_ok s t ph \<Longrightarrow> waits ph \<Longrightarrow> asked s t" by (cases ph) (auto simp: asked_def)
qed

lemma wait_inv_obs:
  assumes inv: "wait_inv s"
    and same: "sn_active_handle s' = sn_active_handle s" "sn_latest_handle s' = sn_latest_handle s"
    and status: "sn_status s' = WAITING_APPROVAL \<Longrightarrow>
      \<exists>t. sn_active_handle s = Some t \<and> asked s' t \<and> settled s' t"
    and tasks: "\<And>t ph. task_phase t s' = Some ph \<Longrightarrow> waits ph \<Longrightarrow> task_phase t s = Some ph"
  shows "wait_inv s'"
proof (rule wait_invI)
  show "sn_latest_handle s' = Some t" if "sn_active_handle s' = Some t" for t
    using that wait_latest [OF inv] same by simp
  show "\<exists>t. sn_active_handle s' = Some t \<and> asked s' t \<and> settled s' t"
    if "sn_status s' = WAITING_APPROVAL"
    using status [OF that] same by simp
  show "sn_active_handle s' = Some t"
    if "task_phase t s' = Some ph" "waits ph" "sn_latest_handle s' = Some t" for t ph
    using that wait_task [OF inv tasks [OF that(1,2)] that(2)] same by simp
qed

text \<open>A task moves on after a step that keeps the rest.\<close>

lemma wait_inv_phase:
  assumes inv: "wait_inv s" and s1: "same_wait s s1" and old: "task_phase t s = Some old" "old \<noteq> Ended"
    and w: "waits new \<Longrightarrow> sn_latest_handle s = Some t \<Longrightarrow> sn_active_handle s = Some t"
  shows "wait_inv (set_phase t new s1)"
proof -
  have i: "wait_inv s1" by (rule wait_inv_same [OF inv s1])
  have t: "task_phase t s1 = Some old" using s1 old by (simp add: same_wait_def task_phase_def)
  have eq: "sn_latest_handle s1 = sn_latest_handle s" "sn_active_handle s1 = sn_active_handle s"
    using s1 by (simp_all add: same_wait_def)
  show ?thesis
  proof (rule wait_invI)
    show "sn_latest_handle (set_phase t new s1) = Some u" if "sn_active_handle (set_phase t new s1) = Some u" for u
      using that wait_latest [OF i] by simp
    show "\<exists>u. sn_active_handle (set_phase t new s1) = Some u \<and> asked (set_phase t new s1) u \<and>
        settled (set_phase t new s1) u" if st: "sn_status (set_phase t new s1) = WAITING_APPROVAL"
    proof -
      obtain u where u: "sn_active_handle s1 = Some u" "asked s1 u" "settled s1 u"
        using st wait_status [OF i] by auto
      then have "u \<noteq> t" using t old(2) by (auto simp: settled_def)
      with u show ?thesis by (intro exI [of _ u]) (simp add: asked_def settled_def)
    qed
    show "sn_active_handle (set_phase t new s1) = Some u"
      if "task_phase u (set_phase t new s1) = Some ph" "waits ph"
        "sn_latest_handle (set_phase t new s1) = Some u" for u ph
      using that w eq wait_task [OF i, of u ph] by (simp split: if_splits)
  qed
qed

lemma wait_inv_cancel:
  assumes inv: "wait_inv s"
  shows "wait_inv (snd (cancel_turn expected reason s))"
proof (cases "sn_status s = WAITING_APPROVAL")
  case False
  then have "same_wait s (snd (cancel_turn expected reason s))"
    by (simp add: same_wait_def cancel_turn_def Let_def split: option.split prod.split)
  then show ?thesis by (rule wait_inv_same [OF inv])
next
  case True
  then obtain t where t: "sn_active_handle s = Some t" "settled s t" "sn_latest_handle s = Some t"
    using inv by (auto simp: wait_inv_def)
  let ?s = "snd (cancel_turn expected reason s)"
  have "same_wait s ?s \<or>
      sn_active_handle ?s = None \<and> sn_latest_handle ?s = sn_latest_handle s \<and>
      sw_tasks ?s = sw_tasks s \<and> sn_status ?s \<noteq> WAITING_APPROVAL"
    using True t by (simp add: same_wait_def cancel_turn_def Let_def split: option.split prod.split)
  then show ?thesis
  proof
    assume "same_wait s ?s"
    then show ?thesis by (rule wait_inv_same [OF inv])
  next
    assume c: "sn_active_handle ?s = None \<and> sn_latest_handle ?s = sn_latest_handle s \<and>
      sw_tasks ?s = sw_tasks s \<and> sn_status ?s \<noteq> WAITING_APPROVAL"
    have "\<not> waits ph" if "task_phase t s = Some ph" for ph
      using t(2) that by (auto simp: settled_def)
    with c t show ?thesis by (auto simp: wait_inv_def task_phase_def)
  qed
qed

lemma wait_inv_start:
  assumes turns: "turns_inv s" and inv: "wait_inv s" and fresh: "t \<notin> set (sw_started s)"
  shows "wait_inv (snd (start message reservation owner t build raises s))"
proof (cases rule: start_cases [of message reservation owner t build raises s])
  case (refused e)
  have "same_wait s (start_failed reservation s)" by (simp add: same_wait_def start_failed_def)
  with refused show ?thesis using wait_inv_same [OF inv] by simp
next
  case (started c)
  let ?s = "start_success message reservation c s"
  have "task_phase t s = None" using turns_task [OF turns, of t] fresh by fastforce
  moreover have "sn_active_handle ?s = Some t" "sn_latest_handle ?s = Some t" "sn_status ?s = RUNNING"
    "task_phase u ?s = task_phase u s" for u
    using start_context_id [OF started(3)] by (simp_all add: start_success_def Let_def task_phase_def)
  ultimately show ?thesis using started(1) by (auto simp: wait_inv_def)
qed

lemma wait_inv_clear:
  assumes turns: "turns_inv s" and inv: "wait_inv s"
    and ph: "task_phase t s = Some (Persisted r usage status err a)"
  shows "wait_inv (settle_clear t r usage status err a s)"
proof -
  have e: "early s t" using ph by (auto simp: early_def)
  have active: "sn_active_handle s = Some t" using turns_early [OF turns e] .
  have nw: "sn_status s \<noteq> WAITING_APPROVAL" using turns_waiting [OF turns] e by blast
  have latest: "sn_latest_handle s = Some t" using inv active by (simp add: wait_inv_def)
  let ?s = "settle_clear t r usage status err a s"
  have "sn_status ?s \<noteq> WAITING_APPROVAL" "sn_latest_handle ?s = Some t"
    "sn_active_handle ?s = (if status = WAITING_APPROVAL then Some t else None)"
    "task_phase u ?s = (if u = t then Some (Cleared r status) else task_phase u s)" for u
    using nw latest active
    by (auto simp: settle_clear_def Let_def task_phase_def set_phase_def update_conv')
  then show ?thesis by (intro wait_invI) (auto split: if_splits)
qed

lemma wait_inv_loop:
  assumes "loop_step s s'" "turns_inv s" "wait_inv s"
  shows "wait_inv s'"
  using assms
proof (induction rule: loop_step.induct)
  case (lp_start s t message reservation build raises)
  then show ?case by (simp add: wait_inv_start)
next
  case (lp_schedule s)
  show ?case
  proof (cases "sw_starting s")
    case None
    with lp_schedule show ?thesis by (simp add: schedule_settlement_def)
  next
    case (Some t)
    have "sn_status s \<noteq> WAITING_APPROVAL"
      using turns_waiting [OF lp_schedule(1), of t] Some by (auto simp: early_def)
    let ?s = "schedule_settlement s"
    have f: "sn_active_handle ?s = sn_active_handle s" "sn_latest_handle ?s = sn_latest_handle s"
      "sn_status ?s = sn_status s" "task_phase u ?s = (if u = t then Some Awaiting else task_phase u s)" for u
      using turns_starting [OF lp_schedule(1) Some] Some
      by (auto simp: schedule_settlement_def task_phase_def map_add_def split: option.splits)
    show ?thesis
      by (rule wait_inv_obs [OF lp_schedule(2) f(1,2)])
         (use f(3,4) \<open>sn_status s \<noteq> WAITING_APPROVAL\<close> in \<open>auto split: if_splits\<close>)
  qed
next
  case (lp_persist s t r out)
  have "early s t" using lp_persist.hyps(2) by (auto simp: early_def)
  then have "sn_active_handle s = Some t" using turns_early [OF lp_persist.prems(1)] by blast
  then show ?case
    unfolding settle_persist_def Let_def
    by (intro wait_inv_phase [OF lp_persist.prems(2) _ lp_persist.hyps(2)]) (simp_all add: same_wait_def)
next
  case (lp_broken s t e)
  then show ?case
    by (intro wait_inv_phase [OF lp_broken.prems(2) _ lp_broken.hyps(2)]) simp_all
next
  case (lp_clear s t r usage status err a)
  then show ?case by (simp add: wait_inv_clear)
next
  case (lp_goal s t r status gout has_followup)
  have w: "sn_active_handle s = Some t" if "status = WAITING_APPROVAL" "sn_latest_handle s = Some t"
    using wait_task [OF lp_goal.prems(2) lp_goal.hyps(2)] that by simp
  have "wait_inv (set_phase t new s1)"
    if "same_wait s s1" "new = Publishing status \<or> new = Following r status" for new s1
    by (rule wait_inv_phase [OF lp_goal.prems(2) that(1) lp_goal.hyps(2)]) (use w that(2) in auto)
  then show ?case
    by (cases gout) (simp_all add: settle_goal_def Let_def same_wait_def note_error_def)
next
  case (lp_follow s t r status u fout build raises)
  have w: "sn_active_handle s = Some t" if "status = WAITING_APPROVAL" "sn_latest_handle s = Some t"
    using wait_task [OF lp_follow.prems(2) lp_follow.hyps(2)] that by simp
  have step: "wait_inv (set_phase t (Publishing status) s1)" if "same_wait s s1" for s1
    by (rule wait_inv_phase [OF lp_follow.prems(2) that lp_follow.hyps(2)]) (use w in auto)
  show ?case
  proof (cases fout)
    case (Followup m)
    show ?thesis
    proof (cases rule: start_cases [of m None "Some t" u build raises s])
      case (refused e)
      with Followup show ?thesis
        by (simp add: settle_follow_def step same_wait_def note_error_def start_failed_def)
    next
      case (started c)
      have "wait_inv (start_success m None c s)"
        using wait_inv_start [OF lp_follow.prems lp_follow.hyps(3), of m None "Some t" build raises] started(1)
        by simp
      moreover have "u \<noteq> t"
        using turns_task [OF lp_follow.prems(1) lp_follow.hyps(2)] lp_follow.hyps(3) by auto
      moreover have "task_phase t (start_success m None c s) = Some (Following r status)"
        "sn_latest_handle (start_success m None c s) = Some u"
        using lp_follow.hyps(2) start_context_id [OF started(3)]
        by (simp_all add: start_success_def Let_def task_phase_def)
      ultimately have "wait_inv (set_phase t (Publishing status) (start_success m None c s))"
        by (intro wait_inv_phase [OF _ same_wait_refl]) auto
      with Followup started(1) show ?thesis by (simp add: settle_follow_def)
    qed
  qed (simp_all add: settle_follow_def step same_wait_def note_error_def)
next
  case (lp_publish s t status)
  have ok: "phase_ok s t (Publishing status)"
    using turns_task [OF lp_publish.prems(1) lp_publish.hyps(2)] by blast
  have u: "wait_inv (set_phase t Ended s)"
    by (rule wait_inv_phase [OF lp_publish.prems(2) same_wait_refl lp_publish.hyps(2)]) simp_all
  show ?case
  proof (cases "publish_terminal t status s")
    case True
    have "\<exists>v. sn_active_handle s = Some v \<and> asked s v \<and> settled (set_phase t Ended s) v"
      if st: "status = WAITING_APPROVAL"
    proof -
      have "sn_active_handle s = Some t"
        using wait_task [OF lp_publish.prems(2) lp_publish.hyps(2)] True st
        by (simp add: publish_terminal_def)
      moreover have "asked s t" using waits_status [OF ok] st by simp
      ultimately show ?thesis using lp_publish.hyps(1) by (auto simp: settled_def)
    qed
    moreover have f: "sn_active_handle (settle_publish t status s) = sn_active_handle s"
      "sn_latest_handle (settle_publish t status s) = sn_latest_handle s"
      "sn_status (settle_publish t status s) = status"
      "task_phase v (settle_publish t status s) = task_phase v (set_phase t Ended s)"
      "asked (settle_publish t status s) v = asked s v"
      "settled (settle_publish t status s) v = settled (set_phase t Ended s) v" for v
      using True by (simp_all add: settle_publish_def asked_def settled_def)
        (simp_all add: task_phase_def set_phase_def)
    ultimately show ?thesis
      by (intro wait_inv_obs [OF u]) simp_all
  qed (use u in \<open>simp add: settle_publish_def\<close>)
next
  case (lp_end s t)
  have p: "task_phase u (end_task t s) = (if u = t then None else task_phase u s)" for u
    by (simp add: task_phase_def end_task_def delete_conv')
  have f: "sn_active_handle (end_task t s) = sn_active_handle s"
    "sn_latest_handle (end_task t s) = sn_latest_handle s" "sn_status (end_task t s) = sn_status s"
    "sw_futures (end_task t s) = sw_futures s" "sw_starting (end_task t s) = sw_starting s"
    by (simp_all add: end_task_def)
  have "settled (end_task t s) u" if "settled s u" for u using that by (simp add: settled_def p f)
  moreover have "asked (end_task t s) u = asked s u" for u by (simp add: asked_def f)
  ultimately show ?case
    using wait_status [OF lp_end.prems(2)]
    by (intro wait_inv_obs [OF lp_end.prems(2)]) (auto simp: f p split: if_splits)
next
  case (lp_close s cancel_active strict)
  have "same_wait s (snd (close_claim cancel_active strict s))"
    by (simp add: same_wait_def close_claim_def Let_def split: option.split prod.split)
  then show ?case by (rule wait_inv_same [OF lp_close.prems(2)])
next
  case (lp_finish_close s)
  then have "sw_tasks s = []" by (simp add: can_finish_close_def split: close_state.splits)
  then show ?case by (simp add: wait_inv_def finish_close_def task_phase_def)
next
  case (lp_abort_close s)
  have "same_wait s (abort_close s)" by (simp add: same_wait_def abort_close_def split: close_state.split)
  then show ?case by (rule wait_inv_same [OF lp_abort_close.prems(2)])
qed

lemma wait_inv_thread:
  assumes "thread_step s s'" "turns_inv s" "wait_inv s"
  shows "wait_inv s'"
  using assms
proof (induction rule: thread_step.induct)
  case (th_turn_ends t s out)
  have p: "task_phase u (turn_ends t out s) = task_phase u s" for u
    by (simp add: task_phase_def turn_ends_def)
  have f: "sn_active_handle (turn_ends t out s) = sn_active_handle s"
    "sn_latest_handle (turn_ends t out s) = sn_latest_handle s"
    "sn_status (turn_ends t out s) = sn_status s" "settled (turn_ends t out s) = settled s"
    by (simp_all add: turn_ends_def settled_def task_phase_def fun_eq_iff)
  have "asked (turn_ends t out s) u" if "asked s u" for u
    using that th_turn_ends.hyps(2) by (auto simp: asked_def turn_ends_def handle_done_def)
  then show ?case
    using wait_status [OF th_turn_ends.prems(2)]
    by (intro wait_inv_obs [OF th_turn_ends.prems(2)]) (auto simp: f p)
next
  case (th_cancel s expected reason)
  then show ?case by (simp add: wait_inv_cancel)
next
  case (th_steer s expected body)
  show ?case
    by (rule wait_inv_same [OF th_steer.prems(2)])
       (simp add: same_wait_def steer_turn_def Let_def split: option.split prod.split)
next
  case (th_model_call t s)
  show ?case
    by (rule wait_inv_same [OF th_model_call.prems(2)]) (simp add: same_wait_def model_call_def split: option.split)
next
  case (th_withdraw s a i)
  show ?case
    by (rule wait_inv_same [OF th_withdraw.prems(2)]) (simp add: same_wait_def withdraw_note_def split: option.split)
qed (erule wait_inv_same;
    simp add: same_wait_def reserve_turn_def reserve_turn_or_raise_def release_turn_def mark_queued_def
      clear_queued_def mark_starting_def build_approval_resume_def take_approval_claim_def rebind_def Let_def
      split: option.split prod.split)+

end
