(* ===== verification/Session_Resumes.thy ===== *)
theory Session_Resumes
  imports Session_Approvals
begin

text \<open>
  Claims and resumes: the token that authorizes a resume is used once, and a turn is resumed at most
  once. The properties of the session about turns and approvals are here.
\<close>

section \<open>Claims and resumes\<close>

definition approval_inv :: "session \<Rightarrow> bool" where
  "approval_inv s \<longleftrightarrow>
     (\<forall>k t g. sn_approval_claim s = Some (k, t, g) \<longrightarrow>
        k \<in> set (sw_claims s) - fst ` set (sw_resumes s) \<and> (\<forall>h. sn_consumed_claim s \<noteq> Some (k, h))) \<and>
     (\<forall>k g. sn_consumed_claim s = Some (k, g) \<longrightarrow> k \<in> set (sw_claims s) - fst ` set (sw_resumes s)) \<and>
     fst ` set (sw_resumes s) \<subseteq> set (sw_claims s) \<and>
     distinct (map fst (sw_resumes s)) \<and> distinct (map snd (sw_resumes s)) \<and>
     (\<forall>r t. sn_reservation s = Some r \<longrightarrow> rv_approval_turn_id r = Some t \<longrightarrow>
        sn_active_handle s = Some t \<and> asked s t \<and> settled s t) \<and>
     (sn_reservation s \<noteq> None \<longrightarrow> sn_status s \<noteq> WAITING_APPROVAL) \<and>
     (\<forall>k t. (k, t) \<in> set (sw_resumes s) \<longrightarrow>
        t \<in> set (sw_started s) \<and> asked s t \<and> sn_active_handle s \<noteq> Some t)"

lemma approval_invD:
  assumes "approval_inv s"
  shows claim_new: "sn_approval_claim s = Some (k, t, g) \<Longrightarrow>
      k \<in> set (sw_claims s) \<and> k \<notin> fst ` set (sw_resumes s) \<and> sn_consumed_claim s \<noteq> Some (k, h)"
    and consumed_new: "sn_consumed_claim s = Some (k, g) \<Longrightarrow>
      k \<in> set (sw_claims s) \<and> k \<notin> fst ` set (sw_resumes s)"
    and resumes_claimed: "fst ` set (sw_resumes s) \<subseteq> set (sw_claims s)"
    and resumes_distinct: "distinct (map fst (sw_resumes s))" "distinct (map snd (sw_resumes s))"
    and reserved_resume: "sn_reservation s = Some r \<Longrightarrow> rv_approval_turn_id r = Some t \<Longrightarrow>
      sn_active_handle s = Some t \<and> asked s t \<and> settled s t"
    and reserved_status: "sn_reservation s \<noteq> None \<Longrightarrow> sn_status s \<noteq> WAITING_APPROVAL"
    and resumed_turn: "(k, t) \<in> set (sw_resumes s) \<Longrightarrow>
      t \<in> set (sw_started s) \<and> asked s t \<and> sn_active_handle s \<noteq> Some t"
proof -
  note parts = assms [unfolded approval_inv_def]
  show "sn_approval_claim s = Some (k, t, g) \<Longrightarrow>
      k \<in> set (sw_claims s) \<and> k \<notin> fst ` set (sw_resumes s) \<and> sn_consumed_claim s \<noteq> Some (k, h)"
    using parts [THEN conjunct1] by simp
  show "sn_consumed_claim s = Some (k, g) \<Longrightarrow>
      k \<in> set (sw_claims s) \<and> k \<notin> fst ` set (sw_resumes s)"
    using parts [THEN conjunct2, THEN conjunct1] by simp
  note parts = parts [THEN conjunct2, THEN conjunct2]
  show "fst ` set (sw_resumes s) \<subseteq> set (sw_claims s)" using parts by (elim conjE)
  show "distinct (map fst (sw_resumes s))" "distinct (map snd (sw_resumes s))"
    using parts by simp_all
  note parts = parts [THEN conjunct2, THEN conjunct2, THEN conjunct2]
  show "sn_reservation s = Some r \<Longrightarrow> rv_approval_turn_id r = Some t \<Longrightarrow>
      sn_active_handle s = Some t \<and> asked s t \<and> settled s t"
    using parts [THEN conjunct1] by blast
  show "sn_reservation s \<noteq> None \<Longrightarrow> sn_status s \<noteq> WAITING_APPROVAL"
    using parts [THEN conjunct2, THEN conjunct1] by blast
  show "(k, t) \<in> set (sw_resumes s) \<Longrightarrow>
      t \<in> set (sw_started s) \<and> asked s t \<and> sn_active_handle s \<noteq> Some t"
    using parts [THEN conjunct2, THEN conjunct2] by blast
qed

lemma approval_invI:
  assumes "\<And>k t g. sn_approval_claim s = Some (k, t, g) \<Longrightarrow>
      k \<in> set (sw_claims s) \<and> k \<notin> fst ` set (sw_resumes s) \<and> (\<forall>h. sn_consumed_claim s \<noteq> Some (k, h))"
    and "\<And>k g. sn_consumed_claim s = Some (k, g) \<Longrightarrow>
      k \<in> set (sw_claims s) \<and> k \<notin> fst ` set (sw_resumes s)"
    and "fst ` set (sw_resumes s) \<subseteq> set (sw_claims s)"
    and "distinct (map fst (sw_resumes s))" "distinct (map snd (sw_resumes s))"
    and "\<And>r t. sn_reservation s = Some r \<Longrightarrow> rv_approval_turn_id r = Some t \<Longrightarrow>
      sn_active_handle s = Some t \<and> asked s t \<and> settled s t"
    and "sn_reservation s \<noteq> None \<Longrightarrow> sn_status s \<noteq> WAITING_APPROVAL"
    and "\<And>k t. (k, t) \<in> set (sw_resumes s) \<Longrightarrow>
      t \<in> set (sw_started s) \<and> asked s t \<and> sn_active_handle s \<noteq> Some t"
  shows "approval_inv s"
  unfolding approval_inv_def using assms(1,2) assms(3-5) assms(6) assms(7) assms(8)
  by (intro conjI allI impI) simp_all

text \<open>Steps that make no claim and resume nothing.\<close>

lemma approval_inv_obs:
  assumes inv: "approval_inv s"
    and same: "sn_approval_claim s' = sn_approval_claim s" "sn_consumed_claim s' = sn_consumed_claim s"
      "sw_claims s' = sw_claims s" "sw_resumes s' = sw_resumes s" "sw_started s' = sw_started s"
    and res: "\<And>r. sn_reservation s' = Some r \<Longrightarrow> sn_reservation s = Some r \<and>
      sn_active_handle s' = sn_active_handle s \<and> sn_status s' \<noteq> WAITING_APPROVAL"
    and active: "sn_active_handle s' = sn_active_handle s \<or> sn_active_handle s' = None"
    and asked: "\<And>t. asked s t \<Longrightarrow> asked s' t" and settled: "\<And>t. settled s t \<Longrightarrow> settled s' t"
  shows "approval_inv s'"
  unfolding approval_inv_def
proof (intro conjI allI impI)
  fix k t g assume "sn_approval_claim s' = Some (k, t, g)"
  then have c: "sn_approval_claim s = Some (k, t, g)" using same by simp
  show "k \<in> set (sw_claims s') - fst ` set (sw_resumes s')" using claim_new [OF inv c] same by simp
  show "sn_consumed_claim s' \<noteq> Some (k, h)" for h using claim_new [OF inv c, of h] same by simp
next
  fix k g assume "sn_consumed_claim s' = Some (k, g)"
  then show "k \<in> set (sw_claims s') - fst ` set (sw_resumes s')"
    using consumed_new [OF inv, of k g] same by simp
next
  show "fst ` set (sw_resumes s') \<subseteq> set (sw_claims s')" using resumes_claimed [OF inv] same by simp
  show "distinct (map fst (sw_resumes s'))" "distinct (map snd (sw_resumes s'))"
    using resumes_distinct [OF inv] same by simp_all
next
  fix r t assume r: "sn_reservation s' = Some r" "rv_approval_turn_id r = Some t"
  then have "sn_active_handle s = Some t \<and> asked s t \<and> settled s t"
    using reserved_resume [OF inv] res by blast
  then show "sn_active_handle s' = Some t" "asked s' t" "settled s' t"
    using res [OF r(1)] asked settled by simp_all
next
  assume "sn_reservation s' \<noteq> None"
  then show "sn_status s' \<noteq> WAITING_APPROVAL" using res by blast
next
  fix k t assume "(k, t) \<in> set (sw_resumes s')"
  then have k: "(k, t) \<in> set (sw_resumes s)" using same by simp
  show "t \<in> set (sw_started s')" "asked s' t" "sn_active_handle s' \<noteq> Some t"
    using resumed_turn [OF inv k] same active asked by auto
qed

lemma settled_mono:
  "sw_starting s' = sw_starting s \<Longrightarrow> sw_tasks s' = sw_tasks s \<Longrightarrow> settled s' t = settled s t"
  "sw_futures s' = sw_futures s \<Longrightarrow> asked s' t = asked s t"
  by (simp_all add: settled_def task_phase_def asked_def)

text \<open>Steps that leave claims, tasks and handles alone, and give up the reservation or keep it.\<close>

lemma approval_inv_calm:
  assumes "approval_inv s"
    and "sn_approval_claim s' = sn_approval_claim s" "sn_consumed_claim s' = sn_consumed_claim s"
      "sw_claims s' = sw_claims s" "sw_resumes s' = sw_resumes s" "sw_started s' = sw_started s"
      "sn_active_handle s' = sn_active_handle s" "sw_futures s' = sw_futures s"
      "sw_tasks s' = sw_tasks s" "sw_starting s' = sw_starting s"
      "sn_reservation s' = sn_reservation s \<or> sn_reservation s' = None"
      "sn_status s' = WAITING_APPROVAL \<longrightarrow> sn_status s = WAITING_APPROVAL"
  shows "approval_inv s'"
proof (rule approval_inv_obs [OF assms(1-6)])
  fix r assume "sn_reservation s' = Some r"
  then show "sn_reservation s = Some r \<and> sn_active_handle s' = sn_active_handle s \<and>
      sn_status s' \<noteq> WAITING_APPROVAL"
    using assms(7,11,12) reserved_status [OF assms(1)] by (cases "sn_reservation s") auto
qed (use assms settled_mono [of s' s] in simp_all)

lemma approval_inv_phase:
  assumes inv: "approval_inv s" and old: "task_phase t s = Some old" "old \<noteq> Ended"
  shows "approval_inv (set_phase t new s)"
proof (rule approval_inv_obs [OF inv])
  show "settled (set_phase t new s) u" if "settled s u" for u
    using that old by (auto simp: settled_def)
  show "asked (set_phase t new s) u" if "asked s u" for u
    using that by (simp add: asked_def)
qed (use reserved_status [OF inv] in auto)

lemma approval_inv_reserved:
  assumes inv: "approval_inv s"
    and same: "sn_approval_claim s' = sn_approval_claim s" "sn_consumed_claim s' = sn_consumed_claim s"
      "sw_claims s' = sw_claims s" "sw_resumes s' = sw_resumes s" "sw_started s' = sw_started s"
      "sn_active_handle s' = sn_active_handle s" "sw_futures s' = sw_futures s"
      "sw_tasks s' = sw_tasks s" "sw_starting s' = sw_starting s"
    and r: "sn_reservation s' = Some r" "sn_status s' \<noteq> WAITING_APPROVAL"
    and ok: "\<And>t. rv_approval_turn_id r = Some t \<Longrightarrow>
      sn_active_handle s = Some t \<and> asked s t \<and> settled s t"
  shows "approval_inv s'"
proof (rule approval_invI)
  show "sn_active_handle s' = Some t \<and> asked s' t \<and> settled s' t"
    if "sn_reservation s' = Some q" "rv_approval_turn_id q = Some t" for q t
    using that r ok [of t] same settled_mono [of s' s] by simp
qed (use claim_new [OF inv] consumed_new [OF inv] resumes_claimed [OF inv] resumes_distinct [OF inv]
    resumed_turn [OF inv] r(2) same settled_mono(2) [OF same(7)] in \<open>simp_all\<close>)

section \<open>Every step keeps the claims in order\<close>

lemma approval_inv_build:
  assumes inv: "approval_inv s" and fresh: "token \<notin> set (sw_claims s)"
  shows "approval_inv (snd (build_approval_resume expected generation pending decisions command n token s))"
proof -
  let ?s = "s\<lparr>sn_approval_claim := Some (token, expected, generation), sw_claims := sw_claims s @ [token]\<rparr>"
  have "approval_inv ?s"
  proof (rule approval_invI)
    show "k \<in> set (sw_claims ?s) \<and> k \<notin> fst ` set (sw_resumes ?s) \<and> (\<forall>h. sn_consumed_claim ?s \<noteq> Some (k, h))"
      if "sn_approval_claim ?s = Some (k, t, g)" for k t g
      using that fresh resumes_claimed [OF inv] consumed_new [OF inv, of k] by auto
    show "k \<in> set (sw_claims ?s) \<and> k \<notin> fst ` set (sw_resumes ?s)"
      if "sn_consumed_claim ?s = Some (k, g)" for k g
      using that consumed_new [OF inv, of k g] by simp
    show "fst ` set (sw_resumes ?s) \<subseteq> set (sw_claims ?s)" using resumes_claimed [OF inv] by auto
    show "sn_active_handle ?s = Some t \<and> asked ?s t \<and> settled ?s t"
      if "sn_reservation ?s = Some r" "rv_approval_turn_id r = Some t" for r t
      using that reserved_resume [OF inv] settled_mono [of ?s s] by simp
    show "t \<in> set (sw_started ?s) \<and> asked ?s t \<and> sn_active_handle ?s \<noteq> Some t"
      if "(k, t) \<in> set (sw_resumes ?s)" for k t
      using that resumed_turn [OF inv] settled_mono(2) [of ?s s] by simp
  qed (use resumes_distinct [OF inv] reserved_status [OF inv] in simp_all)
  with inv show ?thesis by (simp add: build_approval_resume_def)
qed

lemma approval_inv_take:
  assumes inv: "approval_inv s"
  shows "approval_inv (snd (take_approval_claim expected s))"
proof (cases "\<exists>k g. sn_approval_claim s = Some (k, expected, g)")
  case False
  with inv show ?thesis by (auto simp: take_approval_claim_def split: option.split)
next
  case True
  then obtain k g where k: "sn_approval_claim s = Some (k, expected, g)" by blast
  let ?s = "s\<lparr>sn_approval_claim := None, sn_consumed_claim := Some (k, g)\<rparr>"
  have "approval_inv ?s"
  proof (rule approval_invI)
    show "j \<in> set (sw_claims ?s) \<and> j \<notin> fst ` set (sw_resumes ?s)"
      if "sn_consumed_claim ?s = Some (j, h)" for j h
      using that claim_new [OF inv k] by simp
    show "sn_active_handle ?s = Some t \<and> asked ?s t \<and> settled ?s t"
      if "sn_reservation ?s = Some r" "rv_approval_turn_id r = Some t" for r t
      using that reserved_resume [OF inv] settled_mono [of ?s s] by simp
    show "t \<in> set (sw_started ?s) \<and> asked ?s t \<and> sn_active_handle ?s \<noteq> Some t"
      if "(k, t) \<in> set (sw_resumes ?s)" for k t
      using that resumed_turn [OF inv] settled_mono(2) [of ?s s] by simp
  qed (use resumes_claimed [OF inv] resumes_distinct [OF inv] reserved_status [OF inv] in simp_all)
  with k show ?thesis by (simp add: take_approval_claim_def)
qed

lemma approval_inv_reserve: "approval_inv s \<Longrightarrow> approval_inv (snd (reserve_turn token s))"
  by (auto simp: reserve_turn_def Let_def intro: approval_inv_reserved)

lemma reserve_or_raise_snd:
  "snd (reserve_turn_or_raise resume claim token s) =
     (case fst (reserve_turn_or_raise resume claim token s) of
        Inl e \<Rightarrow> s | Inr r \<Rightarrow> s\<lparr>sn_reservation := Some r, sn_status := STARTING\<rparr>)"
  by (simp add: reserve_turn_or_raise_def Let_def split: option.split)

lemma reserve_or_raise_resume:
  "fst (reserve_turn_or_raise resume claim token s) = Inr r \<Longrightarrow> rv_approval_turn_id r = Some t \<Longrightarrow>
   sn_status s = WAITING_APPROVAL \<and> sn_active_handle s = Some t"
  by (auto simp: reserve_turn_or_raise_def approval_reservation_def Let_def
      split: option.splits if_splits)

lemma approval_inv_reserve_or_raise:
  assumes inv: "approval_inv s" and wait: "wait_inv s"
  shows "approval_inv (snd (reserve_turn_or_raise resume claim token s))"
proof (cases "fst (reserve_turn_or_raise resume claim token s)")
  case (Inl e)
  with inv show ?thesis by (simp add: reserve_or_raise_snd)
next
  case r: (Inr r)
  have "sn_active_handle s = Some t \<and> asked s t \<and> settled s t" if "rv_approval_turn_id r = Some t" for t
    using reserve_or_raise_resume [OF r that] wait_status [OF wait] by auto
  then show ?thesis
    unfolding reserve_or_raise_snd r sum.case by (intro approval_inv_reserved [OF inv]) simp_all
qed

lemma approval_inv_cancel:
  assumes inv: "approval_inv s"
  shows "approval_inv (snd (cancel_turn expected reason s))"
proof (cases "sn_status s = WAITING_APPROVAL")
  case True
  let ?s = "snd (cancel_turn expected reason s)"
  have "sn_reservation s = None" using reserved_status [OF inv] True by blast
  then have f: "sn_reservation ?s = None" "sw_claims ?s = sw_claims s" "sw_resumes ?s = sw_resumes s"
    "sw_started ?s = sw_started s" "sw_futures ?s = sw_futures s"
    "sn_active_handle ?s = sn_active_handle s \<or> sn_active_handle ?s = None"
    "sn_approval_claim ?s = sn_approval_claim s \<and> sn_consumed_claim ?s = sn_consumed_claim s \<or>
     sn_approval_claim ?s = None \<and> sn_consumed_claim ?s = None"
    by (simp_all add: cancel_turn_def Let_def split: option.split prod.split)
  show ?thesis
  proof (rule approval_invI)
    show "k \<in> set (sw_claims ?s) \<and> k \<notin> fst ` set (sw_resumes ?s) \<and> (\<forall>h. sn_consumed_claim ?s \<noteq> Some (k, h))"
      if "sn_approval_claim ?s = Some (k, t, g)" for k t g
      using that f(2,3,7) claim_new [OF inv, of k t g] by auto
    show "k \<in> set (sw_claims ?s) \<and> k \<notin> fst ` set (sw_resumes ?s)"
      if "sn_consumed_claim ?s = Some (k, g)" for k g
      using that f(2,3,7) consumed_new [OF inv, of k g] by auto
    show "t \<in> set (sw_started ?s) \<and> asked ?s t \<and> sn_active_handle ?s \<noteq> Some t"
      if "(k, t) \<in> set (sw_resumes ?s)" for k t
      using that f(3-6) resumed_turn [OF inv] settled_mono(2) [OF f(5)] by auto
  qed (use f(1-3) resumes_claimed [OF inv] resumes_distinct [OF inv] in simp_all)
next
  case False
  then show ?thesis
    by (intro approval_inv_calm [OF inv])
       (simp_all add: cancel_turn_def Let_def split: option.split prod.split)
qed

lemma approval_inv_start:
  assumes turns: "turns_inv s" and inv: "approval_inv s" and fresh: "u \<notin> set (sw_started s)"
  shows "approval_inv (snd (start message reservation owner u build raises s))"
proof (cases rule: start_cases [of message reservation owner u build raises s])
  case (refused e)
  have "approval_inv (start_failed reservation s)"
    by (rule approval_inv_calm [OF inv]) (simp_all add: start_failed_def)
  with refused show ?thesis by simp
next
  case (started c)
  let ?s = "start_success message reservation c s"
  let ?new = "if ut_approval_resume message
      then (case reservation of Some r \<Rightarrow> [(rv_token r, the (rv_approval_turn_id r))] | None \<Rightarrow> [])
      else []"
  have id: "tx_turn_id c = u" using start_context_id [OF started(3)] by simp
  have own: "reservation = sn_reservation s" using refusal_None(5) [OF started(2)] .
  have f: "sn_approval_claim ?s = sn_approval_claim s" "sw_claims ?s = sw_claims s"
    "sn_reservation ?s = None" "sn_active_handle ?s = Some u" "sw_started ?s = sw_started s @ [u]"
    "sw_futures ?s = sw_futures s" "sw_resumes ?s = sw_resumes s @ ?new"
    "sn_consumed_claim ?s = (if sn_reservation s \<noteq> None then None else sn_consumed_claim s)"
    using own id by (auto simp: start_success_def Let_def owns_reservation_def split: option.split)
  have new: "?new = [] \<or> (\<exists>r t g. sn_reservation s = Some r \<and> rv_approval_turn_id r = Some t \<and>
      sn_consumed_claim s = Some (rv_token r, g) \<and> ?new = [(rv_token r, t)])"
    using refusal_None(6) [OF started(2)] own
    by (auto simp: resume_authorized_def split: option.splits)
  have unstarted: "t \<noteq> u" if "t \<in> set (sw_started s)" for t using that fresh by auto
  have "approval_inv ?s"
    using new
  proof
    assume n: "?new = []"
    show ?thesis
    proof (rule approval_invI)
      show "k \<in> set (sw_claims ?s) \<and> k \<notin> fst ` set (sw_resumes ?s) \<and> (\<forall>h. sn_consumed_claim ?s \<noteq> Some (k, h))"
        if "sn_approval_claim ?s = Some (k, t, g)" for k t g
        using that f n claim_new [OF inv, of k t g] by simp
      show "k \<in> set (sw_claims ?s) \<and> k \<notin> fst ` set (sw_resumes ?s)"
        if "sn_consumed_claim ?s = Some (k, g)" for k g
        using that f n consumed_new [OF inv, of k g] by (simp split: if_splits)
      show "t \<in> set (sw_started ?s) \<and> asked ?s t \<and> sn_active_handle ?s \<noteq> Some t"
        if "(k, t) \<in> set (sw_resumes ?s)" for k t
        using that f n resumed_turn [OF inv] settled_mono(2) [OF f(6)] unstarted by auto
      show "fst ` set (sw_resumes ?s) \<subseteq> set (sw_claims ?s)" using f n resumes_claimed [OF inv] by simp
      show "distinct (map fst (sw_resumes ?s))" "distinct (map snd (sw_resumes ?s))"
        using f n resumes_distinct [OF inv] by simp_all
    qed (use f(3) in simp_all)
  next
    assume "\<exists>r t g. sn_reservation s = Some r \<and> rv_approval_turn_id r = Some t \<and>
      sn_consumed_claim s = Some (rv_token r, g) \<and> ?new = [(rv_token r, t)]"
    then obtain r t g where r: "sn_reservation s = Some r" "rv_approval_turn_id r = Some t"
      "sn_consumed_claim s = Some (rv_token r, g)" and n: "?new = [(rv_token r, t)]" by blast
    have t: "sn_active_handle s = Some t" "asked s t" using reserved_resume [OF inv r(1,2)] by simp_all
    have k: "rv_token r \<in> set (sw_claims s)" "rv_token r \<notin> fst ` set (sw_resumes s)"
      using consumed_new [OF inv r(3)] by simp_all
    have twice: "t \<notin> snd ` set (sw_resumes s)" using resumed_turn [OF inv] t(1) by fastforce
    show ?thesis
    proof (rule approval_invI)
      show "k \<in> set (sw_claims ?s) \<and> k \<notin> fst ` set (sw_resumes ?s) \<and> (\<forall>h. sn_consumed_claim ?s \<noteq> Some (k, h))"
        if "sn_approval_claim ?s = Some (k, v, h)" for k v h
        using that f n r claim_new [OF inv, of k v h g] by auto
      show "fst ` set (sw_resumes ?s) \<subseteq> set (sw_claims ?s)"
        using f n k resumes_claimed [OF inv] by simp
      show "distinct (map fst (sw_resumes ?s))" "distinct (map snd (sw_resumes ?s))"
        using f n k twice resumes_distinct [OF inv] by simp_all
      show "v \<in> set (sw_started ?s) \<and> asked ?s v \<and> sn_active_handle ?s \<noteq> Some v"
        if "(k, v) \<in> set (sw_resumes ?s)" for k v
        using that f n t resumed_turn [OF inv] settled_mono(2) [OF f(6)] unstarted
          turns_active [OF turns t(1)] by auto
    qed (use f(3,8) r(1) in auto)
  qed
  with started(1) show ?thesis by simp
qed

lemma approval_inv_schedule:
  assumes turns: "turns_inv s" and inv: "approval_inv s"
  shows "approval_inv (schedule_settlement s)"
proof (cases "sw_starting s")
  case None
  with inv show ?thesis by (simp add: schedule_settlement_def)
next
  case (Some t)
  let ?s = "schedule_settlement s"
  have p: "task_phase u ?s = (if u = t then Some Awaiting else task_phase u s)" for u
    using turns_starting [OF turns Some] Some
    by (auto simp: schedule_settlement_def task_phase_def map_add_def split: option.splits)
  show ?thesis
  proof (rule approval_inv_obs [OF inv])
    show "settled ?s u" if "settled s u" for u
      using that Some p by (auto simp: settled_def schedule_settlement_def)
    show "sn_reservation s = Some r \<and> sn_active_handle ?s = sn_active_handle s \<and>
        sn_status ?s \<noteq> WAITING_APPROVAL" if "sn_reservation ?s = Some r" for r
      using that Some reserved_status [OF inv] by (simp add: schedule_settlement_def)
  qed (use Some in \<open>simp_all add: schedule_settlement_def asked_def\<close>)
qed

lemma approval_inv_clear:
  assumes turns: "turns_inv s" and inv: "approval_inv s"
    and ph: "task_phase t s = Some (Persisted r usage status err a)"
  shows "approval_inv (settle_clear t r usage status err a s)"
proof -
  have "early s t" using ph by (auto simp: early_def)
  then have active: "sn_active_handle s = Some t" and nw: "sn_status s \<noteq> WAITING_APPROVAL"
    using turns_early [OF turns] turns_waiting [OF turns] by blast+
  let ?s = "settle_clear t r usage status err a s"
  have f: "sn_approval_claim ?s = sn_approval_claim s" "sn_consumed_claim ?s = sn_consumed_claim s"
    "sw_claims ?s = sw_claims s" "sw_resumes ?s = sw_resumes s" "sw_started ?s = sw_started s"
    "sn_reservation ?s = sn_reservation s" "sn_status ?s = sn_status s" "sw_futures ?s = sw_futures s"
    "sn_active_handle ?s = sn_active_handle s \<or> sn_active_handle ?s = None"
    by (simp_all add: settle_clear_def Let_def)
  have unset: "rv_approval_turn_id r = None" if "sn_reservation s = Some r" for r
  proof (rule ccontr)
    assume "rv_approval_turn_id r \<noteq> None"
    then obtain u where "rv_approval_turn_id r = Some u" by blast
    then have "u = t" "settled s t" using reserved_resume [OF inv that] active by auto
    with ph show False by (auto simp: settled_def)
  qed
  show ?thesis
  proof (rule approval_invI)
    show "k \<in> set (sw_claims ?s) \<and> k \<notin> fst ` set (sw_resumes ?s) \<and> (\<forall>h. sn_consumed_claim ?s \<noteq> Some (k, h))"
      if "sn_approval_claim ?s = Some (k, v, g)" for k v g
      using that f claim_new [OF inv, of k v g] by simp
    show "k \<in> set (sw_claims ?s) \<and> k \<notin> fst ` set (sw_resumes ?s)"
      if "sn_consumed_claim ?s = Some (k, g)" for k g
      using that f consumed_new [OF inv, of k g] by simp
    show "sn_active_handle ?s = Some v \<and> asked ?s v \<and> settled ?s v"
      if "sn_reservation ?s = Some q" "rv_approval_turn_id q = Some v" for q v
      using that f unset by simp
    show "v \<in> set (sw_started ?s) \<and> asked ?s v \<and> sn_active_handle ?s \<noteq> Some v"
      if "(k, v) \<in> set (sw_resumes ?s)" for k v
      using that f resumed_turn [OF inv, of k v] settled_mono(2) [OF f(8)] by auto
  qed (use f nw resumes_claimed [OF inv] resumes_distinct [OF inv] in simp_all)
qed

lemma approval_inv_step_phase:
  assumes inv: "approval_inv s" and old: "task_phase t s = Some old" "old \<noteq> Ended"
    and calm: "sn_approval_claim s1 = sn_approval_claim s" "sn_consumed_claim s1 = sn_consumed_claim s"
      "sw_claims s1 = sw_claims s" "sw_resumes s1 = sw_resumes s" "sw_started s1 = sw_started s"
      "sn_active_handle s1 = sn_active_handle s" "sw_futures s1 = sw_futures s"
      "sw_tasks s1 = sw_tasks s" "sw_starting s1 = sw_starting s"
      "sn_reservation s1 = sn_reservation s \<or> sn_reservation s1 = None"
      "sn_status s1 = WAITING_APPROVAL \<longrightarrow> sn_status s = WAITING_APPROVAL"
  shows "approval_inv (set_phase t new s1)"
proof -
  have "task_phase t s1 = Some old" using old calm by (simp add: task_phase_def)
  then show ?thesis by (intro approval_inv_phase [OF approval_inv_calm [OF inv calm] _ old(2)])
qed

lemma approval_inv_loop:
  assumes "loop_step s s'" "turns_inv s" "live_inv s" "approval_inv s"
  shows "approval_inv s'"
  using assms
proof (induction rule: loop_step.induct)
  case (lp_start s t message reservation build raises)
  then show ?case by (simp add: approval_inv_start)
next
  case (lp_schedule s)
  then show ?case by (simp add: approval_inv_schedule)
next
  case (lp_persist s t r out)
  show ?case
    unfolding settle_persist_def Let_def
    by (rule approval_inv_step_phase [OF lp_persist.prems(3) lp_persist.hyps(2)]) simp_all
next
  case (lp_broken s t e)
  show ?case by (rule approval_inv_step_phase [OF lp_broken.prems(3) lp_broken.hyps(2)]) simp_all
next
  case (lp_clear s t r usage status err a)
  then show ?case by (simp add: approval_inv_clear)
next
  case (lp_goal s t r status gout has_followup)
  have "approval_inv (set_phase t new s)" "approval_inv (set_phase t new (s\<lparr>sn_goal := g\<rparr>))"
    "approval_inv (set_phase t new (note_error e s))" for new g e
    by (rule approval_inv_step_phase [OF lp_goal.prems(3) lp_goal.hyps(2)]; simp add: note_error_def)+
  then show ?case by (cases gout) (simp_all add: settle_goal_def Let_def)
next
  case (lp_follow s t r status u fout build raises)
  have step: "approval_inv (set_phase t new s)" "approval_inv (set_phase t new (note_error e s))"
    "approval_inv (set_phase t new (note_error e (start_failed None s)))" for new e
    by (rule approval_inv_step_phase [OF lp_follow.prems(3) lp_follow.hyps(2)];
        simp add: note_error_def start_failed_def)+
  show ?case
  proof (cases fout)
    case (Followup m)
    show ?thesis
    proof (cases rule: start_cases [of m None "Some t" u build raises s])
      case (refused e)
      with Followup step(3) show ?thesis by (simp add: settle_follow_def)
    next
      case (started c)
      have "approval_inv (start_success m None c s)"
        using approval_inv_start [OF lp_follow.prems(1,3) lp_follow.hyps(3), of m None "Some t" build raises]
          started(1) by simp
      moreover have "task_phase t (start_success m None c s) = Some (Following r status)"
        using lp_follow.hyps(2) by (simp add: start_success_def Let_def task_phase_def)
      ultimately show ?thesis
        using Followup started(1) by (simp add: settle_follow_def approval_inv_phase)
    qed
  qed (simp_all add: settle_follow_def step)
next
  case (lp_publish s t status)
  have u: "approval_inv (set_phase t Ended s)"
    by (rule approval_inv_step_phase [OF lp_publish.prems(3) lp_publish.hyps(2)]) simp_all
  show ?case
  proof (cases "publish_terminal t status s")
    case True
    then have r: "sn_reservation s = None" by (simp add: publish_terminal_def)
    let ?s = "settle_publish t status s"
    have eq: "?s = (set_phase t Ended s)\<lparr>sn_settling := sn_settling s - {t}, sn_status := status\<rparr>"
      using True by (simp add: settle_publish_def set_phase_def)
    show ?thesis
      unfolding eq
      by (rule approval_inv_obs [OF u])
         (use r settled_mono [of ?s "set_phase t Ended s"] eq in simp_all)
  qed (use u in \<open>simp add: settle_publish_def\<close>)
next
  case (lp_end s t)
  have p: "task_phase u (end_task t s) = (if u = t then None else task_phase u s)" for u
    by (simp add: task_phase_def end_task_def delete_conv')
  show ?case
  proof (rule approval_inv_obs [OF lp_end.prems(3)])
    show "settled (end_task t s) u" if "settled s u" for u
      using that unfolding settled_def p by (simp add: end_task_def)
    show "sn_reservation s = Some r \<and> sn_active_handle (end_task t s) = sn_active_handle s \<and>
        sn_status (end_task t s) \<noteq> WAITING_APPROVAL" if "sn_reservation (end_task t s) = Some r" for r
      using that reserved_status [OF lp_end.prems(3)] by (simp add: end_task_def)
  qed (simp_all add: end_task_def asked_def)
next
  case (lp_close s cancel_active strict)
  show ?case
    by (rule approval_inv_calm [OF lp_close.prems(3)])
       (simp_all add: close_claim_def Let_def split: option.split prod.split)
next
  case (lp_finish_close s)
  then have "sn_reservation s = None"
    by (auto simp: live_inv_def can_finish_close_def split: close_state.splits)
  then show ?case
    by (intro approval_inv_obs [OF lp_finish_close.prems(3)])
       (simp_all add: finish_close_def settled_def task_phase_def asked_def)
next
  case (lp_abort_close s)
  show ?case
    by (rule approval_inv_calm [OF lp_abort_close.prems(3)])
       (simp_all add: abort_close_def split: close_state.split)
qed

lemma approval_inv_thread:
  assumes "thread_step s s'" "wait_inv s" "approval_inv s"
  shows "approval_inv s'"
  using assms
proof (induction rule: thread_step.induct)
  case (th_turn_ends t s out)
  show ?case
  proof (rule approval_inv_obs [OF th_turn_ends.prems(2)])
    show "asked (turn_ends t out s) u" if "asked s u" for u
      using that th_turn_ends.hyps(2) by (auto simp: asked_def turn_ends_def handle_done_def)
    show "sn_reservation s = Some r \<and> sn_active_handle (turn_ends t out s) = sn_active_handle s \<and>
        sn_status (turn_ends t out s) \<noteq> WAITING_APPROVAL" if "sn_reservation (turn_ends t out s) = Some r" for r
      using that reserved_status [OF th_turn_ends.prems(2)] by (simp add: turn_ends_def)
  qed (simp_all add: turn_ends_def settled_def task_phase_def)
next
  case (th_steer s expected body)
  show ?case
    by (rule approval_inv_calm [OF th_steer.prems(2)])
       (simp_all add: steer_turn_def Let_def split: option.split prod.split)
next
  case (th_model_call t s)
  show ?case
    by (rule approval_inv_calm [OF th_model_call.prems(2)]) (simp_all add: model_call_def split: option.split)
next
  case (th_withdraw s a i)
  show ?case
    by (rule approval_inv_calm [OF th_withdraw.prems(2)]) (simp_all add: withdraw_note_def split: option.split)
next
  case (th_release s r)
  show ?case by (rule approval_inv_calm [OF th_release.prems(2)]) (simp_all add: release_turn_def)
next
  case (th_mark_queued s)
  show ?case by (rule approval_inv_calm [OF th_mark_queued.prems(2)]) (simp_all add: mark_queued_def)
next
  case (th_clear_queued s)
  show ?case by (rule approval_inv_calm [OF th_clear_queued.prems(2)]) (simp_all add: clear_queued_def)
next
  case (th_mark_starting s)
  show ?case by (rule approval_inv_calm [OF th_mark_starting.prems(2)]) (simp_all add: mark_starting_def)
next
  case (th_rebind s binding)
  show ?case by (rule approval_inv_calm [OF th_rebind.prems(2)]) (simp_all add: rebind_def)
next
  case (th_listeners s a q q')
  show ?case by (rule approval_inv_calm [OF th_listeners.prems(2)]) simp_all
next
  case (th_token s t reason)
  show ?case by (rule approval_inv_calm [OF th_token.prems(2)]) simp_all
next
  case (th_broker s b)
  show ?case by (rule approval_inv_calm [OF th_broker.prems(2)]) simp_all
qed (simp_all add: approval_inv_reserve approval_inv_reserve_or_raise approval_inv_build
    approval_inv_take approval_inv_cancel)

definition session_inv :: "session \<Rightarrow> bool" where
  "session_inv s \<longleftrightarrow> turns_inv s \<and> live_inv s \<and> wait_inv s \<and> approval_inv s"

interpretation session_sys: inv_system is_new_session session_step session_inv
proof unfold_locales
  fix s
  assume new: "is_new_session s"
  have "turns_inv s" by (rule session_turns.init_inv [OF new])
  moreover have "live_inv s \<and> wait_inv s \<and> approval_inv s"
    using new by cases (simp add: live_inv_def wait_inv_def approval_inv_def new_session_def
        live_handle_def task_phase_def)
  ultimately show "session_inv s" by (simp add: session_inv_def)
next
  fix s t
  assume inv: "session_inv s" and step: "session_step s t"
  then have "turns_inv t" unfolding session_inv_def by (blast intro: session_turns.step_inv)
  moreover have "live_inv t \<and> wait_inv t \<and> approval_inv t"
    using step inv unfolding session_inv_def
    by cases (blast intro: live_inv_thread live_inv_loop wait_inv_thread wait_inv_loop
        approval_inv_thread approval_inv_loop)+
  ultimately show "session_inv t" by (simp add: session_inv_def)
qed

end
