(* ===== verification/Session_Ledger.thy ===== *)
theory Session_Ledger
  imports Session_Resumes
begin

text \<open>
  What a session adds up and what it passes on: the usage of its turns, and the guidance sent to the
  turn that runs.
\<close>

section \<open>Usage\<close>

definition charged_usage :: "session_usage \<Rightarrow> (string \<times> turn_result) list \<Rightarrow> session_usage" where
  "charged_usage seed cs = foldl (\<lambda>u (t, r). add_usage u r) seed cs"

definition usage_inv :: "session \<Rightarrow> bool" where
  "usage_inv s \<longleftrightarrow>
     sn_usage s = charged_usage (sw_seed s) (sw_charged s) \<and>
     distinct (map fst (sw_charged s)) \<and>
     (\<forall>t r. (t, r) \<in> set (sw_charged s) \<longrightarrow> sw_futures s t = Some (Finished r) \<and> \<not> early s t) \<and>
     (\<forall>t r. sw_futures s t = Some (Finished r) \<longrightarrow> \<not> early s t \<longrightarrow> (t, r) \<in> set (sw_charged s))"

lemma usage_invD:
  assumes "usage_inv s"
  shows usage_sum: "sn_usage s = charged_usage (sw_seed s) (sw_charged s)"
    and charged_distinct: "distinct (map fst (sw_charged s))"
    and charged_done: "(t, r) \<in> set (sw_charged s) \<Longrightarrow> sw_futures s t = Some (Finished r) \<and> \<not> early s t"
    and done_charged: "sw_futures s t = Some (Finished r) \<Longrightarrow> \<not> early s t \<Longrightarrow> (t, r) \<in> set (sw_charged s)"
  using assms unfolding usage_inv_def by blast+

lemma usage_inv_same:
  assumes inv: "usage_inv s" and same: "sn_usage s' = sn_usage s" "sw_seed s' = sw_seed s"
    "sw_charged s' = sw_charged s" "sw_futures s' = sw_futures s" "\<And>t r. sw_futures s t = Some (Finished r) \<Longrightarrow> early s' t = early s t"
  shows "usage_inv s'"
  unfolding usage_inv_def same(1-4)
  using usage_sum [OF inv] charged_distinct [OF inv] charged_done [OF inv] done_charged [OF inv] same(5)
  by blast

lemma usage_inv_framed:
  assumes "usage_inv s" "same_turns s s'" "sw_seed s' = sw_seed s" "sw_charged s' = sw_charged s"
  shows "usage_inv s'"
  using assms same_turnsD [OF assms(2)] same_turns_views(2) [OF assms(2)]
  by (intro usage_inv_same [OF assms(1)]) simp_all

text \<open>A task moves on without leaving or entering the early phases, unless its turn is broken.\<close>

lemma usage_inv_phase:
  assumes inv: "usage_inv s" and old: "task_phase t s = Some old"
    and ok: "early_phase new = early_phase old \<or> (\<exists>e. sw_futures s t = Some (Broken e))"
  shows "usage_inv (set_phase t new s)"
  by (rule usage_inv_same [OF inv]) (use old ok in \<open>auto simp: early_set early_def\<close>)

lemma usage_inv_start:
  assumes turns: "turns_inv s" and inv: "usage_inv s" and fresh: "t \<notin> set (sw_started s)"
    and free: "sw_starting s = None"
  shows "usage_inv (snd (start message reservation owner t build raises s))"
proof (cases rule: start_cases [of message reservation owner t build raises s])
  case (refused e)
  have "usage_inv (start_failed reservation s)"
    by (rule usage_inv_framed [OF inv]) (simp_all add: start_failed_def same_turns_def)
  with refused show ?thesis by simp
next
  case (started c)
  let ?s = "start_success message reservation c s"
  have id: "tx_turn_id c = t" using start_context_id [OF started(3)] by simp
  have "usage_inv ?s"
  proof (rule usage_inv_same [OF inv])
    show "early ?s u = early s u" if "sw_futures s u = Some (Finished r)" for u r
    proof -
      have "u \<noteq> t" using that done_fresh [OF turns fresh] by auto
      then show ?thesis
        using free id by (simp add: early_def start_success_def Let_def task_phase_def)
    qed
  qed (simp_all add: start_success_def Let_def)
  with started(1) show ?thesis by simp
qed

lemma usage_inv_clear:
  assumes turns: "turns_inv s" and inv: "usage_inv s"
    and ph: "task_phase t s = Some (Persisted r usage status err a)"
  shows "usage_inv (settle_clear t r usage status err a s)"
proof -
  have e: "early s t" using ph by (auto simp: early_def)
  have fut: "sw_futures s t = Some (Finished r)" and usage: "usage = add_usage (sn_usage s) r"
    using turns_task [OF turns ph] by auto
  have only: "u = t" if "early s u" for u
    using turns_unique [OF turns early_owning [OF that] early_owning [OF e]] .
  let ?s = "settle_clear t r usage status err a s"
  have f: "sn_usage ?s = usage" "sw_charged ?s = sw_charged s @ [(t, r)]" "sw_futures ?s = sw_futures s"
    "sw_seed ?s = sw_seed s" "sw_starting ?s = sw_starting s"
    "task_phase u ?s = (if u = t then Some (Cleared r status) else task_phase u s)" for u
    by (simp_all add: settle_clear_def Let_def)
      (simp add: task_phase_def set_phase_def update_conv')
  have none: "\<not> early ?s u" for u
  proof
    assume "early ?s u"
    then have "u \<noteq> t" "early s u"
      using turns_starting [OF turns, of t] ph unfolding early_def f by (auto split: if_splits)
    with only show False by blast
  qed
  have new: "t \<notin> fst ` set (sw_charged s)" using charged_done [OF inv] e by force
  show ?thesis
    unfolding usage_inv_def
  proof (intro conjI allI impI)
    show "sn_usage ?s = charged_usage (sw_seed ?s) (sw_charged ?s)"
      unfolding f using usage_sum [OF inv] usage by (simp add: charged_usage_def)
    show "distinct (map fst (sw_charged ?s))" using charged_distinct [OF inv] new by (simp add: f)
    show "sw_futures ?s u = Some (Finished q)" "\<not> early ?s u" if "(u, q) \<in> set (sw_charged ?s)" for u q
      using that charged_done [OF inv, of u q] fut none by (auto simp: f)
    show "(u, q) \<in> set (sw_charged ?s)" if "sw_futures ?s u = Some (Finished q)" for u q
      unfolding f(2)
      using that [unfolded f(3)] done_charged [OF inv, of u q] only [of u] fut by (cases "u = t") auto
  qed
qed

lemma usage_inv_loop:
  assumes "loop_step s s'" "turns_inv s" "usage_inv s"
  shows "usage_inv s'"
  using assms
proof (induction rule: loop_step.induct)
  case (lp_start s t message reservation build raises)
  then show ?case by (simp add: usage_inv_start)
next
  case (lp_schedule s)
  show ?case
  proof (cases "sw_starting s")
    case (Some t)
    have "early (schedule_settlement s) u = early s u" for u
      using turns_starting [OF lp_schedule(1) Some] Some
      by (auto simp: early_def schedule_settlement_def task_phase_def map_add_def split: option.splits)
    with Some show ?thesis
      by (intro usage_inv_same [OF lp_schedule(2)]) (simp_all add: schedule_settlement_def)
  qed (use lp_schedule in \<open>simp add: schedule_settlement_def\<close>)
next
  case (lp_persist s t r out)
  let ?b = "case (out, sw_contexts s t) of (PersistOk, Some c) \<Rightarrow> emit_turn_changes c r (sn_broker s)
      | _ \<Rightarrow> sn_broker s"
  have "usage_inv (s\<lparr>sn_broker := ?b\<rparr>)"
    by (rule usage_inv_framed [OF lp_persist.prems(2)]) (simp_all add: same_turns_def)
  moreover have "task_phase t (s\<lparr>sn_broker := ?b\<rparr>) = Some Awaiting"
    using lp_persist.hyps(2) by (simp add: task_phase_def)
  ultimately show ?case
    unfolding settle_persist_def Let_def by (rule usage_inv_phase) simp
next
  case (lp_broken s t e)
  then show ?case by (intro usage_inv_phase [OF lp_broken.prems(2)]) auto
next
  case (lp_clear s t r usage status err a)
  then show ?case by (simp add: usage_inv_clear)
next
  case (lp_goal s t r status gout has_followup)
  have "usage_inv (set_phase t new s1)"
    if "same_turns s s1" "sw_seed s1 = sw_seed s" "sw_charged s1 = sw_charged s"
      "new = Publishing status \<or> new = Following r status" for new s1
  proof -
    have "task_phase t s1 = Some (Cleared r status)"
      using lp_goal.hyps(2) same_turns_views(1) [OF that(1)] by simp
    then show ?thesis
      using that(4) by (intro usage_inv_phase [OF usage_inv_framed [OF lp_goal.prems(2) that(1-3)]]) auto
  qed
  then show ?case
    by (cases gout) (simp_all add: settle_goal_def Let_def same_turns_def note_error_def)
next
  case (lp_follow s t r status u fout build raises)
  have move: "usage_inv (set_phase t (Publishing status) s1)"
    if "usage_inv s1" "task_phase t s1 = Some (Following r status)" for s1
    using that by (intro usage_inv_phase) auto
  have ph: "task_phase t (note_error e s) = Some (Following r status)" for e
    using lp_follow.hyps(2) by (simp add: task_phase_def)
  have note_inv: "usage_inv (note_error e s1)" if "usage_inv s1" for e s1
    by (rule usage_inv_framed [OF that]) (simp_all add: same_turns_def note_error_def)
  show ?case
  proof (cases fout)
    case (Followup m)
    let ?st = "start m None (Some t) u build raises s"
    have started: "usage_inv (snd ?st)"
      by (rule usage_inv_start [OF lp_follow.prems lp_follow.hyps(3,1)])
    have "task_phase t (snd ?st) = Some (Following r status)"
      using lp_follow.hyps(2)
      by (cases rule: start_cases [of m None "Some t" u build raises s])
         (simp_all add: task_phase_def start_failed_def start_success_def Let_def)
    then show ?thesis
      using started Followup
      by (cases ?st; cases "fst ?st") (auto simp: settle_follow_def task_phase_def intro!: move note_inv)
  qed (use lp_follow ph in \<open>auto simp: settle_follow_def intro!: move note_inv\<close>)
next
  case (lp_publish s t status)
  have u: "usage_inv (set_phase t Ended s)"
    by (rule usage_inv_phase [OF lp_publish.prems(2) lp_publish.hyps(2)]) simp
  show ?case
  proof (cases "publish_terminal t status s")
    case True
    have eq: "settle_publish t status s =
        (set_phase t Ended s)\<lparr>sn_settling := sn_settling s - {t}, sn_status := status\<rparr>"
      using True by (simp add: settle_publish_def set_phase_def)
    have "early (settle_publish t status s) v = early (set_phase t Ended s) v" for v
      unfolding eq by (simp add: early_def task_phase_def)
    then show ?thesis by (intro usage_inv_same [OF u]) (simp_all add: eq)
  qed (use u in \<open>simp add: settle_publish_def\<close>)
next
  case (lp_end s t)
  have "early (end_task t s) u = early s u" for u
    using lp_end.hyps(2) by (auto simp: early_def task_phase_def end_task_def delete_conv')
  then show ?case by (intro usage_inv_same [OF lp_end.prems(2)]) (simp_all add: end_task_def)
next
  case (lp_close s cancel_active strict)
  show ?case
    using framed_close_claim [of s cancel_active strict]
    by (intro usage_inv_framed [OF lp_close.prems(2)])
       (simp_all add: framed_def close_claim_def Let_def split: option.split prod.split)
next
  case (lp_finish_close s)
  show ?case
    by (rule usage_inv_framed [OF lp_finish_close.prems(2)]) (simp_all add: same_turns_def finish_close_def)
next
  case (lp_abort_close s)
  show ?case
    by (rule usage_inv_framed [OF lp_abort_close.prems(2)])
       (simp_all add: same_turns_def abort_close_def split: close_state.split)
qed

lemma usage_inv_thread:
  assumes "thread_step s s'" "turns_inv s" "usage_inv s"
  shows "usage_inv s'"
  using assms
proof (induction rule: thread_step.induct)
  case (th_turn_ends t s out)
  let ?s = "turn_ends t out s"
  have e: "early s t" using turns_running [OF th_turn_ends.prems(1) th_turn_ends.hyps] .
  have same: "early ?s u = early s u" for u
    by (simp add: early_def turn_ends_def task_phase_def)
  have new: "sw_futures ?s u = (if u = t then Some out else sw_futures s u)" for u
    by (simp add: turn_ends_def)
  have rest: "sn_usage ?s = sn_usage s" "sw_seed ?s = sw_seed s" "sw_charged ?s = sw_charged s"
    by (simp_all add: turn_ends_def)
  note inv = th_turn_ends.prems(2)
  show ?case
    unfolding usage_inv_def rest same new
  proof (intro conjI allI impI)
    show "(if u = t then Some out else sw_futures s u) = Some (Finished r)" "\<not> early s u"
      if "(u, r) \<in> set (sw_charged s)" for u r
      using charged_done [OF inv that] e by auto
    show "(u, r) \<in> set (sw_charged s)"
      if "(if u = t then Some out else sw_futures s u) = Some (Finished r)" "\<not> early s u" for u r
      using that done_charged [OF inv, of u r] e by (auto split: if_splits)
  qed (rule usage_sum [OF inv], rule charged_distinct [OF inv])
next
  case (th_cancel s expected reason)
  show ?case
    by (rule usage_inv_framed [OF th_cancel.prems(2)])
       (simp_all add: same_turns_def cancel_turn_def Let_def split: option.split prod.split)
next
  case (th_steer s expected body)
  show ?case
    by (rule usage_inv_framed [OF th_steer.prems(2)])
       (simp_all add: same_turns_def steer_turn_def Let_def split: option.split prod.split)
next
  case (th_reserve_or_raise s resume claim token)
  show ?case
    by (rule usage_inv_framed [OF th_reserve_or_raise.prems(2)])
       (simp_all add: same_turns_def reserve_or_raise_snd split: sum.split)
qed (erule usage_inv_framed;
    simp add: same_turns_def reserve_turn_def release_turn_def mark_queued_def
      clear_queued_def mark_starting_def build_approval_resume_def take_approval_claim_def rebind_def Let_def
      model_call_def withdraw_note_def split: option.split prod.split)+

section \<open>Guidance\<close>

text \<open>
  A note that waits was addressed to the turn that runs or is being settled, whose agent owns the
  queue; or its turn has broken, which ends the settlement before it clears the queue. Every queue
  has one address per note.
\<close>

definition broken :: "session \<Rightarrow> string \<Rightarrow> bool" where
  "broken s t \<longleftrightarrow> (\<exists>e. sw_futures s t = Some (Broken e))"

definition serves :: "session \<Rightarrow> string \<Rightarrow> nat \<Rightarrow> bool" where
  "serves s t a \<longleftrightarrow> early s t \<and> (\<exists>c. sw_contexts s t = Some c \<and> the (tx_agent c) = a)"

definition guidance_inv :: "session \<Rightarrow> bool" where
  "guidance_inv s \<longleftrightarrow>
     (\<forall>a t. t \<in> set (sw_addressed s a) \<longrightarrow> serves s t a \<or> broken s t) \<and>
     (\<forall>t u. (t, u) \<in> set (sw_guided s) \<longrightarrow> t = u \<or> broken s u) \<and>
     (\<forall>a. length (sw_addressed s a) = (case sw_queues s a of None \<Rightarrow> 0 | Some q \<Rightarrow> length (sq_items q)))"

lemma guidance_invD:
  assumes "guidance_inv s"
  shows addressed_serves: "t \<in> set (sw_addressed s a) \<Longrightarrow> serves s t a \<or> broken s t"
    and guided_own: "(t, u) \<in> set (sw_guided s) \<Longrightarrow> t = u \<or> broken s u"
    and addressed_length: "length (sw_addressed s a) =
      (case sw_queues s a of None \<Rightarrow> 0 | Some q \<Rightarrow> length (sq_items q))"
  using assms unfolding guidance_inv_def by blast+

text \<open>Steps that only drop addresses.\<close>

lemma guidance_inv_less:
  assumes inv: "guidance_inv s"
    and less: "\<And>a. set (sw_addressed s' a) \<subseteq> set (sw_addressed s a)"
      "\<And>a. length (sw_addressed s' a) = (case sw_queues s' a of None \<Rightarrow> 0 | Some q \<Rightarrow> length (sq_items q))"
    and guided: "sw_guided s' = sw_guided s"
    and serves: "\<And>t a. t \<in> set (sw_addressed s' a) \<Longrightarrow> serves s t a \<Longrightarrow> serves s' t a \<or> broken s' t"
    and broken: "\<And>t. broken s t \<Longrightarrow> broken s' t"
  shows "guidance_inv s'"
  unfolding guidance_inv_def guided
  using less serves broken addressed_serves [OF inv] guided_own [OF inv] by blast

lemma guidance_inv_same:
  assumes inv: "guidance_inv s" and "same_turns s s'"
    and "sw_addressed s' = sw_addressed s" "sw_queues s' = sw_queues s" "sw_guided s' = sw_guided s"
  shows "guidance_inv s'"
proof (rule guidance_inv_less [OF inv])
  show "serves s' t a \<or> broken s' t" if "serves s t a" for t a
    using that same_turns_views(2) [OF assms(2)] same_turnsD(6) [OF assms(2)] by (simp add: serves_def)
  show "broken s' t" if "broken s t" for t
    using that same_turnsD(5) [OF assms(2)] by (simp add: broken_def)
qed (use assms addressed_length [OF inv] in simp_all)

lemma guidance_inv_phase:
  assumes inv: "guidance_inv s" and old: "task_phase t s = Some old"
    and ok: "early_phase new = early_phase old \<or> broken s t"
  shows "guidance_inv (set_phase t new s)"
proof (rule guidance_inv_less [OF inv])
  show "serves (set_phase t new s) u a \<or> broken (set_phase t new s) u" if "serves s u a" for u a
    using that old ok by (auto simp: serves_def broken_def early_set early_def)
qed (use addressed_length [OF inv] in \<open>simp_all add: broken_def\<close>)

lemma length_clear_silent: "sq_items (snd (clear_silent q)) = []"
  by (simp add: clear_silent_def queue_notification_def)

lemma guidance_inv_clear_guidance:
  assumes inv: "guidance_inv s"
  shows "guidance_inv (clear_guidance a s)"
proof (rule guidance_inv_less [OF inv])
  show "serves (clear_guidance a s) t b \<or> broken (clear_guidance a s) t" if "serves s t b" for t b
    using that by (simp add: serves_def early_def task_phase_def)
  show "length (sw_addressed (clear_guidance a s) b) =
      (case sw_queues (clear_guidance a s) b of None \<Rightarrow> 0 | Some q \<Rightarrow> length (sq_items q))" for b
    using addressed_length [OF inv, of b]
    by (auto simp: clear_guidance_def length_clear_silent split: option.splits)
  show "set (sw_addressed (clear_guidance a s) b) \<subseteq> set (sw_addressed s b)" for b
    by (simp add: clear_guidance_def split: option.split)
qed (simp_all add: broken_def)

lemma serves_unique:
  assumes turns: "turns_inv s" and "serves s t a" "serves s u b"
  shows "t = u \<and> a = b"
proof -
  have "t = u"
    using assms(2,3) turns_unique [OF turns] early_owning unfolding serves_def by blast
  with assms(2,3) show ?thesis by (auto simp: serves_def)
qed

text \<open>Clearing the queue of the only turn that is served ends its service.\<close>

lemma guidance_inv_clear:
  assumes turns: "turns_inv s" and inv: "guidance_inv s"
    and ph: "task_phase t s = Some (Persisted r usage status err a)"
  shows "guidance_inv (settle_clear t r usage status err a s)"
proof -
  let ?s = "settle_clear t r usage status err a s"
  have "early s t" using ph by (auto simp: early_def)
  moreover have "\<exists>c. sw_contexts s t = Some c \<and> a = the (tx_agent c)"
    using turns_task [OF turns ph] by simp
  ultimately have t: "serves s t a" by (auto simp: serves_def)
  have f: "sw_addressed ?s = sw_addressed (clear_guidance a s)" "sw_queues ?s = sw_queues (clear_guidance a s)"
    "sw_guided ?s = sw_guided s" "sw_futures ?s = sw_futures s"
    by (auto simp: settle_clear_def Let_def clear_guidance_def split: option.split)
  have cleared: "sw_addressed (clear_guidance a s) a = []"
    using addressed_length [OF inv, of a] by (auto simp: clear_guidance_def split: option.splits)
  show ?thesis
  proof (rule guidance_inv_less [OF inv])
    show "set (sw_addressed ?s b) \<subseteq> set (sw_addressed s b)" for b
      unfolding f by (simp add: clear_guidance_def split: option.split)
    show "length (sw_addressed ?s b) = (case sw_queues ?s b of None \<Rightarrow> 0 | Some q \<Rightarrow> length (sq_items q))" for b
      unfolding f using addressed_length [OF guidance_inv_clear_guidance [OF inv]] .
    show "serves ?s u b \<or> broken ?s u" if "u \<in> set (sw_addressed ?s b)" "serves s u b" for u b
      using that(1) serves_unique [OF turns t that(2)] cleared unfolding f by simp
  qed (simp_all add: f broken_def)
qed

lemma guidance_inv_start:
  assumes turns: "turns_inv s" and inv: "guidance_inv s" and fresh: "t \<notin> set (sw_started s)"
    and free: "sw_starting s = None"
  shows "guidance_inv (snd (start message reservation owner t build raises s))"
proof (cases rule: start_cases [of message reservation owner t build raises s])
  case (refused e)
  have "guidance_inv (start_failed reservation s)"
    by (rule guidance_inv_same [OF inv]) (simp_all add: start_failed_def same_turns_def)
  with refused show ?thesis by simp
next
  case (started c)
  let ?s = "start_success message reservation c s"
  have id: "tx_turn_id c = t" using start_context_id [OF started(3)] by simp
  have f: "sw_addressed ?s = sw_addressed s" "sw_queues ?s = sw_queues s" "sw_guided ?s = sw_guided s"
    "sw_futures ?s = sw_futures s" "sw_contexts ?s = (sw_contexts s)(t \<mapsto> c)" "sw_starting ?s = Some t"
    "task_phase u ?s = task_phase u s" for u
    using id by (simp_all add: start_success_def Let_def task_phase_def)
  have "guidance_inv ?s"
  proof (rule guidance_inv_less [OF inv])
    show "serves ?s u a \<or> broken ?s u" if serves: "serves s u a" for u a
    proof -
      obtain ph where "task_phase u s = Some ph"
        using serves free by (auto simp: serves_def early_def)
      then have "u \<noteq> t" using turns_task [OF turns] fresh by blast
      then show ?thesis using serves free by (simp add: serves_def early_def f)
    qed
  qed (use addressed_length [OF inv] in \<open>simp_all add: f broken_def\<close>)
  with started(1) show ?thesis by simp
qed

lemma guidance_inv_steer:
  assumes turns: "turns_inv s" and inv: "guidance_inv s"
  shows "guidance_inv (snd (steer_turn expected body s))"
proof (cases "snd (steer_turn expected body s) = s")
  case True
  with inv show ?thesis by simp
next
  case False
  let ?a = "current_agent s"
  from False obtain t q where t: "live_handle s = Some t" and q: "sw_queues s ?a = Some q"
    and body: "py_strip body \<noteq> []"
    and new: "snd (steer_turn expected body s) =
      set_queue ?a (snd (push_silent body q)) (sw_addressed s ?a @ [t]) s"
    by (auto simp: steer_turn_def Let_def push_silent_def split: option.splits if_splits)
  have active: "sn_active_handle s = Some t" "\<not> handle_done s t"
    using t by (auto simp: live_handle_def split: option.splits if_splits)
  have "early s t" using turns_running [OF turns] turns_active [OF turns active(1)] active(2) by blast
  then have serves: "serves s t ?a"
    using early_active_context [OF turns \<open>early s t\<close>] by (auto simp: serves_def)
  let ?s = "set_queue ?a (snd (push_silent body q)) (sw_addressed s ?a @ [t]) s"
  have views: "serves ?s = serves s" "broken ?s = broken s"
    by (auto simp: serves_def broken_def early_def task_phase_def fun_eq_iff)
  show ?thesis
    unfolding new guidance_inv_def views
    using serves addressed_serves [OF inv] guided_own [OF inv] addressed_length [OF inv] q body
    by (auto simp: push_silent_def queue_notification_def Let_def)
qed

lemma guidance_inv_model_call:
  assumes turns: "turns_inv s" and inv: "guidance_inv s"
    and t: "t \<in> set (sw_started s)" "\<not> handle_done s t"
  shows "guidance_inv (model_call t s)"
proof -
  have e: "early s t" using turns_running [OF turns t] .
  then obtain c where c: "sw_contexts s t = Some c" using early_active_context [OF turns] by blast
  let ?a = "the (tx_agent c)"
  show ?thesis
  proof (cases "sw_queues s ?a")
    case None
    with inv c show ?thesis by (simp add: model_call_def)
  next
    case (Some q)
    let ?g = "sw_guided s @ map (\<lambda>u. (t, u)) (sw_addressed s ?a)"
    let ?s = "set_queue ?a (snd (drain q)) [] (s\<lparr>sw_guided := ?g\<rparr>)"
    have eq: "model_call t s = ?s" using c Some by (simp add: model_call_def)
    have views: "serves ?s = serves s" "broken ?s = broken s"
      by (auto simp: serves_def broken_def early_def task_phase_def fun_eq_iff)
    have own: "t = u \<or> broken s u" if "u \<in> set (sw_addressed s ?a)" for u
      using addressed_serves [OF inv that] turns_unique [OF turns] early_owning [OF e] early_owning
      by (auto simp: serves_def)
    have empty: "sq_items (snd (drain q)) = []"
      by (simp add: drain_def Let_def enqueue_notification_def queue_notification_def)
    show ?thesis
      unfolding eq guidance_inv_def views
      using own empty addressed_serves [OF inv] guided_own [OF inv] addressed_length [OF inv]
      by auto
  qed
qed

lemma guidance_inv_withdraw:
  assumes inv: "guidance_inv s"
  shows "guidance_inv (withdraw_note a i s)"
proof (cases "\<exists>q. sw_queues s a = Some q \<and> i < length (sq_items q)")
  case False
  with inv show ?thesis by (auto simp: withdraw_note_def split: option.split)
next
  case True
  then obtain q where q: "sw_queues s a = Some q" "i < length (sq_items q)" by blast
  let ?s = "set_queue a (snd (remove_at (int i) q)) (delete_nth i (sw_addressed s a)) s"
  have len: "length (sw_addressed s a) = length (sq_items q)"
    using addressed_length [OF inv, of a] q by simp
  have "guidance_inv ?s"
  proof (rule guidance_inv_less [OF inv])
    show "serves ?s t b \<or> broken ?s t" if "serves s t b" for t b
      using that by (simp add: serves_def early_def task_phase_def)
    show "set (sw_addressed ?s b) \<subseteq> set (sw_addressed s b)" for b
      using set_delete_nth_subset [of i "sw_addressed s a"] by simp
    show "length (sw_addressed ?s b) = (case sw_queues ?s b of None \<Rightarrow> 0 | Some p \<Rightarrow> length (sq_items p))" for b
      using q len addressed_length [OF inv, of b]
      by (simp add: remove_at_def enqueue_notification_def queue_notification_def Let_def)
  qed (simp_all add: broken_def)
  with q show ?thesis by (simp add: withdraw_note_def)
qed

lemma guidance_inv_views:
  assumes inv: "guidance_inv s" and e: "\<And>t. early s t \<Longrightarrow> early s' t"
    and "sw_contexts s' = sw_contexts s" "sw_futures s' = sw_futures s"
      "sw_addressed s' = sw_addressed s" "sw_queues s' = sw_queues s" "sw_guided s' = sw_guided s"
  shows "guidance_inv s'"
proof (rule guidance_inv_less [OF inv])
  show "serves s' t a \<or> broken s' t" if "serves s t a" for t a
    using that e assms(3) by (simp add: serves_def)
qed (use assms addressed_length [OF inv] in \<open>simp_all add: broken_def\<close>)

lemma guidance_inv_loop:
  assumes "loop_step s s'" "turns_inv s" "guidance_inv s"
  shows "guidance_inv s'"
  using assms
proof (induction rule: loop_step.induct)
  case (lp_start s t message reservation build raises)
  then show ?case by (simp add: guidance_inv_start)
next
  case (lp_schedule s)
  show ?case
  proof (cases "sw_starting s")
    case (Some t)
    have "early (schedule_settlement s) u" if "early s u" for u
      using that turns_starting [OF lp_schedule(1) Some] Some
      by (auto simp: early_def schedule_settlement_def task_phase_def map_add_def split: option.splits)
    with Some show ?thesis
      by (intro guidance_inv_views [OF lp_schedule(2)]) (simp_all add: schedule_settlement_def)
  qed (use lp_schedule in \<open>simp add: schedule_settlement_def\<close>)
next
  case (lp_persist s t r out)
  have "guidance_inv (s\<lparr>sn_broker := b\<rparr>)" for b
    by (rule guidance_inv_same [OF lp_persist.prems(2)]) (simp_all add: same_turns_def)
  moreover have "task_phase t (s\<lparr>sn_broker := b\<rparr>) = Some Awaiting" for b
    using lp_persist.hyps(2) by (simp add: task_phase_def)
  ultimately show ?case
    unfolding settle_persist_def Let_def by (rule guidance_inv_phase) simp
next
  case (lp_broken s t e)
  then show ?case by (intro guidance_inv_phase [OF lp_broken.prems(2)]) (auto simp: broken_def)
next
  case (lp_clear s t r usage status err a)
  then show ?case by (simp add: guidance_inv_clear)
next
  case (lp_goal s t r status gout has_followup)
  have "guidance_inv (set_phase t new s1)"
    if "same_turns s s1" "sw_addressed s1 = sw_addressed s" "sw_queues s1 = sw_queues s"
      "sw_guided s1 = sw_guided s" "new = Publishing status \<or> new = Following r status" for new s1
  proof -
    have "task_phase t s1 = Some (Cleared r status)"
      using lp_goal.hyps(2) same_turns_views(1) [OF that(1)] by simp
    then show ?thesis
      using that(5) by (intro guidance_inv_phase [OF guidance_inv_same [OF lp_goal.prems(2) that(1-4)]]) auto
  qed
  then show ?case
    by (cases gout) (simp_all add: settle_goal_def Let_def same_turns_def note_error_def)
next
  case (lp_follow s t r status u fout build raises)
  have move: "guidance_inv (set_phase t (Publishing status) s1)"
    if "guidance_inv s1" "task_phase t s1 = Some (Following r status)" for s1
    using that by (intro guidance_inv_phase) auto
  have ph: "task_phase t (note_error e s) = Some (Following r status)" for e
    using lp_follow.hyps(2) by (simp add: task_phase_def)
  have note_inv: "guidance_inv (note_error e s1)" if "guidance_inv s1" for e s1
    by (rule guidance_inv_same [OF that]) (simp_all add: same_turns_def note_error_def)
  show ?case
  proof (cases fout)
    case (Followup m)
    let ?st = "start m None (Some t) u build raises s"
    have started: "guidance_inv (snd ?st)"
      by (rule guidance_inv_start [OF lp_follow.prems lp_follow.hyps(3,1)])
    have "task_phase t (snd ?st) = Some (Following r status)"
      using lp_follow.hyps(2)
      by (cases rule: start_cases [of m None "Some t" u build raises s])
         (simp_all add: task_phase_def start_failed_def start_success_def Let_def)
    then show ?thesis
      using started Followup
      by (cases ?st; cases "fst ?st") (auto simp: settle_follow_def task_phase_def intro!: move note_inv)
  qed (use lp_follow ph in \<open>auto simp: settle_follow_def intro!: move note_inv\<close>)
next
  case (lp_publish s t status)
  have u: "guidance_inv (set_phase t Ended s)"
    by (rule guidance_inv_phase [OF lp_publish.prems(2) lp_publish.hyps(2)]) simp
  show ?case
  proof (cases "publish_terminal t status s")
    case True
    have eq: "settle_publish t status s =
        (set_phase t Ended s)\<lparr>sn_settling := sn_settling s - {t}, sn_status := status\<rparr>"
      using True by (simp add: settle_publish_def set_phase_def)
    have "early (settle_publish t status s) v = early (set_phase t Ended s) v" for v
      unfolding eq by (simp add: early_def task_phase_def)
    then show ?thesis by (intro guidance_inv_views [OF u]) (simp_all add: eq)
  qed (use u in \<open>simp add: settle_publish_def\<close>)
next
  case (lp_end s t)
  have "early (end_task t s) u = early s u" for u
    using lp_end.hyps(2) by (auto simp: early_def task_phase_def end_task_def delete_conv')
  then show ?case by (intro guidance_inv_views [OF lp_end.prems(2)]) (simp_all add: end_task_def)
next
  case (lp_close s cancel_active strict)
  let ?s = "snd (close_claim cancel_active strict s)"
  have "same_turns s ?s"
    using framed_close_claim [of s cancel_active strict] by (simp add: framed_def)
  have "guidance_inv (s\<lparr>sn_closed := True, sn_reservation := None\<rparr>)"
    by (rule guidance_inv_same [OF lp_close.prems(2)]) (simp_all add: same_turns_def)
  note c = guidance_inv_clear_guidance [OF this, of "current_agent s"]
  have "?s = s \<or>
      (sw_addressed ?s = sw_addressed (clear_guidance (current_agent s) (s\<lparr>sn_closed := True, sn_reservation := None\<rparr>)) \<and>
       sw_queues ?s = sw_queues (clear_guidance (current_agent s) (s\<lparr>sn_closed := True, sn_reservation := None\<rparr>)) \<and>
       sw_guided ?s = sw_guided s)"
    by (simp add: close_claim_def Let_def split: option.split prod.split)
  then show ?case
  proof
    assume "?s = s"
    with lp_close.prems(2) show ?thesis by simp
  next
    assume eq: "sw_addressed ?s = sw_addressed (clear_guidance (current_agent s) (s\<lparr>sn_closed := True, sn_reservation := None\<rparr>)) \<and>
       sw_queues ?s = sw_queues (clear_guidance (current_agent s) (s\<lparr>sn_closed := True, sn_reservation := None\<rparr>)) \<and>
       sw_guided ?s = sw_guided s"
    have "same_turns (clear_guidance (current_agent s) (s\<lparr>sn_closed := True, sn_reservation := None\<rparr>)) ?s"
      using \<open>same_turns s ?s\<close> by (simp add: same_turns_def)
    then show ?thesis using eq by (intro guidance_inv_same [OF c]) simp_all
  qed
next
  case (lp_finish_close s)
  show ?case
    by (rule guidance_inv_same [OF lp_finish_close.prems(2)]) (simp_all add: same_turns_def finish_close_def)
next
  case (lp_abort_close s)
  show ?case
    by (rule guidance_inv_same [OF lp_abort_close.prems(2)])
       (simp_all add: same_turns_def abort_close_def split: close_state.split)
qed

lemma guidance_inv_thread:
  assumes "thread_step s s'" "turns_inv s" "guidance_inv s"
  shows "guidance_inv s'"
  using assms
proof (induction rule: thread_step.induct)
  case (th_turn_ends t s out)
  show ?case
  proof (rule guidance_inv_less [OF th_turn_ends.prems(2)])
    show "serves (turn_ends t out s) u a \<or> broken (turn_ends t out s) u" if "serves s u a" for u a
      using that by (simp add: serves_def early_def task_phase_def turn_ends_def)
    show "broken (turn_ends t out s) u" if "broken s u" for u
      using that th_turn_ends.hyps(2) by (auto simp: broken_def turn_ends_def handle_done_def)
  qed (use addressed_length [OF th_turn_ends.prems(2)] in \<open>simp_all add: turn_ends_def\<close>)
next
  case (th_cancel s expected reason)
  show ?case
    by (rule guidance_inv_same [OF th_cancel.prems(2)])
       (simp_all add: same_turns_def cancel_turn_def Let_def split: option.split prod.split)
next
  case (th_steer s expected body)
  then show ?case by (simp add: guidance_inv_steer)
next
  case (th_model_call t s)
  then show ?case by (simp add: guidance_inv_model_call)
next
  case (th_withdraw s a i)
  then show ?case by (simp add: guidance_inv_withdraw)
next
  case (th_listeners s a q q')
  have len: "length (sw_addressed s b) = (case sw_queues s b of None \<Rightarrow> 0 | Some p \<Rightarrow> length (sq_items p))" for b
    by (rule addressed_length [OF th_listeners.prems(2)])
  show ?case
    by (rule guidance_inv_less [OF th_listeners.prems(2)])
       (use len [of a] len th_listeners.hyps in
        \<open>auto simp: serves_def broken_def early_def task_phase_def\<close>)
next
  case (th_reserve_or_raise s resume claim token)
  show ?case
    by (rule guidance_inv_same [OF th_reserve_or_raise.prems(2)])
       (simp_all add: same_turns_def reserve_or_raise_snd split: sum.split)
qed (erule guidance_inv_same;
    simp add: same_turns_def reserve_turn_def release_turn_def mark_queued_def
      clear_queued_def mark_starting_def build_approval_resume_def take_approval_claim_def rebind_def Let_def
      split: option.split prod.split)+

definition ledger_inv :: "session \<Rightarrow> bool" where
  "ledger_inv s \<longleftrightarrow> turns_inv s \<and> usage_inv s \<and> guidance_inv s"

interpretation session_ledger: inv_system is_new_session session_step ledger_inv
proof unfold_locales
  fix s
  assume new: "is_new_session s"
  have "turns_inv s" by (rule session_turns.init_inv [OF new])
  moreover have "usage_inv s \<and> guidance_inv s"
    using new by cases (auto simp: usage_inv_def guidance_inv_def new_session_def charged_usage_def
        split: option.split)
  ultimately show "ledger_inv s" by (simp add: ledger_inv_def)
next
  fix s t
  assume inv: "ledger_inv s" and step: "session_step s t"
  then have "turns_inv t" unfolding ledger_inv_def by (blast intro: session_turns.step_inv)
  moreover have "usage_inv t \<and> guidance_inv t"
    using step inv unfolding ledger_inv_def
    by cases (blast intro: usage_inv_thread usage_inv_loop guidance_inv_thread guidance_inv_loop)+
  ultimately show "ledger_inv t" by (simp add: ledger_inv_def)
qed

end
