(* ===== verification/Session_Contract.thy ===== *)
theory Session_Contract
  imports Session_Ledger
begin

text \<open>
  The properties of a session: one turn at a time, approvals that are resumed once, the approval that
  is lost when a resume is given up, a close that is final and can always complete, exact usage, and
  guidance that reaches the turn it was sent to.
\<close>

section \<open>What a step can begin\<close>

lemma start_fields:
  assumes "snd (start message reservation owner t build raises s) = s'"
  shows "sn_active_handle s' = sn_active_handle s \<and> sw_starting s' = sw_starting s \<and>
      sn_status s' \<in> {sn_status s, IDLE} \<and> sw_started s' = sw_started s \<or>
    sn_active_handle s' = Some t \<and> sw_starting s' = Some t \<and> sn_status s' = RUNNING \<and>
      sw_started s' = sw_started s @ [t] \<and> \<not> sn_closed s"
    and "sw_tasks s' = sw_tasks s" "sw_futures s' = sw_futures s"
    and "sn_reservation s' = sn_reservation s \<or> sn_reservation s' = None"
    and "sn_closed s' = sn_closed s" "sw_close s' = sw_close s"
proof -
  have "(sn_active_handle s' = sn_active_handle s \<and> sw_starting s' = sw_starting s \<and>
      sn_status s' \<in> {sn_status s, IDLE} \<and> sw_started s' = sw_started s \<or>
    sn_active_handle s' = Some t \<and> sw_starting s' = Some t \<and> sn_status s' = RUNNING \<and>
      sw_started s' = sw_started s @ [t] \<and> \<not> sn_closed s) \<and>
    sw_tasks s' = sw_tasks s \<and> sw_futures s' = sw_futures s \<and>
    (sn_reservation s' = sn_reservation s \<or> sn_reservation s' = None) \<and>
    sn_closed s' = sn_closed s \<and> sw_close s' = sw_close s"
  proof (cases rule: start_cases [of message reservation owner t build raises s])
    case (refused e)
    then have "s' = start_failed reservation s" using assms by simp
    then show ?thesis by (simp add: start_failed_def)
  next
    case (started c)
    then have "s' = start_success message reservation c s" using assms by simp
    then show ?thesis
      using start_context_id [OF started(3)] refusal_None(1) [OF started(2)]
      by (simp add: start_success_def Let_def)
  qed
  then show "sn_active_handle s' = sn_active_handle s \<and> sw_starting s' = sw_starting s \<and>
      sn_status s' \<in> {sn_status s, IDLE} \<and> sw_started s' = sw_started s \<or>
    sn_active_handle s' = Some t \<and> sw_starting s' = Some t \<and> sn_status s' = RUNNING \<and>
      sw_started s' = sw_started s @ [t] \<and> \<not> sn_closed s"
    "sw_tasks s' = sw_tasks s" "sw_futures s' = sw_futures s"
    "sn_reservation s' = sn_reservation s \<or> sn_reservation s' = None"
    "sn_closed s' = sn_closed s" "sw_close s' = sw_close s"
    by - (elim conjE, assumption)+
qed

lemma settle_follow_cases:
  "\<exists>s1 e. settle_follow t status out u build raises s = set_phase t (Publishing status) s1 \<and>
     (s1 = s \<or> s1 = note_error e s \<or>
      (\<exists>m. s1 = snd (start m None (Some t) u build raises s) \<or>
           s1 = note_error e (snd (start m None (Some t) u build raises s))))"
proof (cases out)
  case (Followup m)
  let ?st = "start m None (Some t) u build raises s"
  show ?thesis
  proof (cases "fst ?st")
    case (Inl e)
    with Followup have "settle_follow t status out u build raises s =
        set_phase t (Publishing status) (note_error (error_text e) (snd ?st))"
      by (cases ?st) (simp add: settle_follow_def)
    then show ?thesis by blast
  next
    case (Inr c)
    with Followup have "settle_follow t status out u build raises s =
        set_phase t (Publishing status) (snd ?st)"
      by (cases ?st) (simp add: settle_follow_def)
    then show ?thesis by blast
  qed
qed (auto simp: settle_follow_def)

lemma settle_goal_cases:
  "\<exists>s1 new e g. settle_goal t r status out h s = set_phase t new s1 \<and>
     (s1 = s \<or> s1 = note_error e s \<or> s1 = s\<lparr>sn_goal := g\<rparr>) \<and>
     (new = Publishing status \<or> new = Following r status)"
  by (cases out) (auto simp: settle_goal_def Let_def)

lemma note_error_fields [simp]:
  "sn_active_handle (note_error e s) = sn_active_handle s" "sn_status (note_error e s) = sn_status s"
  "sn_reservation (note_error e s) = sn_reservation s" "sw_started (note_error e s) = sw_started s"
  "sn_closed (note_error e s) = sn_closed s" "sw_close (note_error e s) = sw_close s"
  "sw_futures (note_error e s) = sw_futures s"
  by (simp_all add: note_error_def)

text \<open>What can change in a step, field by field.\<close>

definition moves :: "session \<Rightarrow> session \<Rightarrow> bool" where
  "moves s s' \<longleftrightarrow>
     (\<forall>t. sn_active_handle s' = Some t \<longrightarrow> sn_active_handle s = Some t \<or> t \<notin> set (sw_started s)) \<and>
     (sn_status s' = WAITING_APPROVAL \<longrightarrow> sn_status s = WAITING_APPROVAL \<or>
        (\<exists>t. task_phase t s = Some (Publishing WAITING_APPROVAL) \<and>
           publish_terminal t WAITING_APPROVAL s)) \<and>
     (\<forall>t. t \<in> set (sw_started s) \<longrightarrow> settled s t \<longrightarrow> settled s' t) \<and>
     (\<forall>r t. sn_reservation s' = Some r \<longrightarrow> rv_approval_turn_id r = Some t \<longrightarrow>
        sn_reservation s = Some r \<or> sn_status s = WAITING_APPROVAL \<and> sn_active_handle s = Some t) \<and>
     (\<exists>ts. sw_started s' = sw_started s @ ts \<and> (sn_closed s \<longrightarrow> ts = [])) \<and>
     (sn_closed s \<longrightarrow> sn_closed s')"

lemma movesD:
  assumes "moves s s'"
  shows moves_active: "sn_active_handle s' = Some t \<Longrightarrow>
      sn_active_handle s = Some t \<or> t \<notin> set (sw_started s)"
    and moves_status: "sn_status s' = WAITING_APPROVAL \<Longrightarrow> sn_status s = WAITING_APPROVAL \<or>
      (\<exists>t. task_phase t s = Some (Publishing WAITING_APPROVAL) \<and> publish_terminal t WAITING_APPROVAL s)"
    and moves_settled: "t \<in> set (sw_started s) \<Longrightarrow> settled s t \<Longrightarrow> settled s' t"
    and moves_reserved: "sn_reservation s' = Some r \<Longrightarrow> rv_approval_turn_id r = Some t \<Longrightarrow>
      sn_reservation s = Some r \<or> sn_status s = WAITING_APPROVAL \<and> sn_active_handle s = Some t"
    and moves_started: "\<exists>ts. sw_started s' = sw_started s @ ts \<and> (sn_closed s \<longrightarrow> ts = [])"
    and moves_closed: "sn_closed s \<Longrightarrow> sn_closed s'"
  using assms unfolding moves_def by blast+

lemma movesI:
  assumes "\<And>t. sn_active_handle s' = Some t \<Longrightarrow> sn_active_handle s = Some t \<or> t \<notin> set (sw_started s)"
    "sn_status s' = WAITING_APPROVAL \<Longrightarrow> sn_status s = WAITING_APPROVAL \<or>
      (\<exists>t. task_phase t s = Some (Publishing WAITING_APPROVAL) \<and> publish_terminal t WAITING_APPROVAL s)"
    "\<And>t. t \<in> set (sw_started s) \<Longrightarrow> settled s t \<Longrightarrow> settled s' t"
    "\<And>r t. sn_reservation s' = Some r \<Longrightarrow> rv_approval_turn_id r = Some t \<Longrightarrow>
      sn_reservation s = Some r \<or> sn_status s = WAITING_APPROVAL \<and> sn_active_handle s = Some t"
    "\<exists>ts. sw_started s' = sw_started s @ ts \<and> (sn_closed s \<longrightarrow> ts = [])"
    "sn_closed s \<Longrightarrow> sn_closed s'"
  shows "moves s s'"
  unfolding moves_def using assms by blast

lemma settled_set_phase: "u \<noteq> t \<Longrightarrow> settled (set_phase t ph s) u = settled s u"
  by (simp add: settled_def)

lemma phase_frame_fields [simp]:
  "sn_active_handle (set_phase t ph s) = sn_active_handle s"
  "sn_status (set_phase t ph s) = sn_status s" "sn_reservation (set_phase t ph s) = sn_reservation s"
  "sw_started (set_phase t ph s) = sw_started s" "sn_closed (set_phase t ph s) = sn_closed s"
  by (simp_all add: set_phase_def)

lemma moves_calm:
  assumes "sn_active_handle s' = sn_active_handle s \<or> sn_active_handle s' = None"
    "sn_status s' = WAITING_APPROVAL \<longrightarrow> sn_status s = WAITING_APPROVAL"
    "sw_starting s' = sw_starting s" "sw_tasks s' = sw_tasks s"
    "sn_reservation s' = sn_reservation s \<or> sn_reservation s' = None"
    "sw_started s' = sw_started s" "sn_closed s \<longrightarrow> sn_closed s'"
  shows "moves s s'"
  using assms unfolding moves_def settled_def task_phase_def by auto

lemma moves_thread: "thread_step s s' \<Longrightarrow> moves s s'"
proof (induction rule: thread_step.induct)
  case (th_reserve s token)
  show ?case by (auto simp: moves_def reserve_turn_def settled_def task_phase_def Let_def)
next
  case (th_reserve_or_raise s resume claim token)
  show ?case
  proof (cases "fst (reserve_turn_or_raise resume claim token s)")
    case (Inl e)
    then show ?thesis by (simp add: reserve_or_raise_snd moves_calm)
  next
    case r: (Inr r)
    show ?thesis
      unfolding moves_def reserve_or_raise_snd r sum.case
      using reserve_or_raise_resume [OF r] by (auto simp: settled_def task_phase_def)
  qed
next
  case (th_cancel s expected reason)
  show ?case
    by (rule moves_calm) (simp_all add: cancel_turn_def Let_def split: option.split prod.split)
next
  case (th_steer s expected body)
  show ?case
    by (rule moves_calm) (simp_all add: steer_turn_def Let_def split: option.split prod.split)
next
  case (th_model_call t s)
  show ?case by (rule moves_calm) (simp_all add: model_call_def split: option.split)
next
  case (th_withdraw s a i)
  show ?case by (rule moves_calm) (simp_all add: withdraw_note_def split: option.split)
next
  case (th_take_claim s expected)
  show ?case by (rule moves_calm) (simp_all add: take_approval_claim_def split: option.split prod.split)
qed (rule moves_calm;
    simp add: release_turn_def mark_queued_def clear_queued_def mark_starting_def
      build_approval_resume_def rebind_def turn_ends_def)+

lemma moves_phase:
  assumes m: "moves s s1" and old: "task_phase t s = Some old" "old \<noteq> Ended"
  shows "moves s (set_phase t new s1)"
proof (rule movesI)
  fix u assume u: "u \<in> set (sw_started s)" "settled s u"
  have "u \<noteq> t" using old u(2) by (auto simp: settled_def)
  then show "settled (set_phase t new s1) u"
    using moves_settled [OF m u] by (simp add: settled_set_phase)
qed (use movesD [OF m] in simp_all)

lemma moves_start:
  assumes turns: "turns_inv s" and fresh: "t \<notin> set (sw_started s)"
  shows "moves s (snd (start message reservation owner t build raises s))" (is "moves s ?s")
proof (rule movesI)
  note f = start_fields [of message reservation owner t build raises s ?s, OF refl]
  show "sn_active_handle ?s = Some u \<Longrightarrow> sn_active_handle s = Some u \<or> u \<notin> set (sw_started s)" for u
    using f(1) fresh by fastforce
  show "sn_status ?s = WAITING_APPROVAL \<Longrightarrow> sn_status s = WAITING_APPROVAL \<or>
      (\<exists>t. task_phase t s = Some (Publishing WAITING_APPROVAL) \<and> publish_terminal t WAITING_APPROVAL s)"
    using f(1) by auto
  show "settled ?s u" if "u \<in> set (sw_started s)" "settled s u" for u
  proof -
    have "u \<noteq> t" using that(1) fresh by blast
    then show ?thesis using f(1) that(2) unfolding settled_def task_phase_def f(2) by auto
  qed
  show "sn_reservation ?s = Some r \<Longrightarrow> rv_approval_turn_id r = Some u \<Longrightarrow>
      sn_reservation s = Some r \<or> sn_status s = WAITING_APPROVAL \<and> sn_active_handle s = Some u" for r u
    using f(4) by auto
  show "\<exists>ts. sw_started ?s = sw_started s @ ts \<and> (sn_closed s \<longrightarrow> ts = [])" using f(1) by auto
  show "sn_closed s \<Longrightarrow> sn_closed ?s" using f(5) by simp
qed

lemma moves_note:
  assumes m: "moves s s1"
  shows "moves s (note_error e s1)"
proof (rule movesI)
  show "settled (note_error e s1) u" if "u \<in> set (sw_started s)" "settled s u" for u
    using moves_settled [OF m that] by (simp add: settled_def task_phase_def note_error_def)
qed (use movesD [OF m] in simp_all)

lemma moves_refl [simp]: "moves s s"
  by (rule moves_calm) simp_all

lemma moves_loop:
  assumes "loop_step s s'" "turns_inv s"
  shows "moves s s'"
  using assms
proof (induction rule: loop_step.induct)
  case (lp_start s t message reservation build raises)
  then show ?case by (simp add: moves_start)
next
  case (lp_schedule s)
  show ?case
  proof (cases "sw_starting s")
    case (Some t)
    have "settled (schedule_settlement s) u" if "settled s u" for u
      using that turns_starting [OF lp_schedule Some] Some
      by (auto simp: settled_def schedule_settlement_def task_phase_def map_add_def split: option.splits)
    with Some show ?thesis by (auto simp: moves_def schedule_settlement_def)
  qed (simp add: schedule_settlement_def)
next
  case (lp_persist s t r out)
  have "moves s (s\<lparr>sn_broker := b\<rparr>)" for b by (rule moves_calm) simp_all
  then show ?case
    unfolding settle_persist_def Let_def by (rule moves_phase [OF _ lp_persist.hyps(2)]) simp
next
  case (lp_broken s t e)
  show ?case by (rule moves_phase [OF moves_refl lp_broken.hyps(2)]) simp
next
  case (lp_clear s t r usage status err a)
  have "moves s (clear_guidance a (s1\<lparr>sn_usage := usage, sn_last_error := e\<rparr>)\<lparr>sw_charged := cs\<rparr>)"
    if "s1 = s \<or> s1 = s\<lparr>sn_active_handle := None, sn_active_context := None\<rparr>" for s1 e cs
    using that by (intro moves_calm) auto
  then show ?case
    unfolding settle_clear_def Let_def by (intro moves_phase [OF _ lp_clear.hyps(2)]) simp_all
next
  case (lp_goal s t r status gout has_followup)
  obtain s1 new e g where eq: "settle_goal t r status gout has_followup s = set_phase t new s1"
    "s1 = s \<or> s1 = note_error e s \<or> s1 = s\<lparr>sn_goal := g\<rparr>"
    using settle_goal_cases by blast
  have "moves s s1" using eq(2) by (auto intro: moves_note moves_calm)
  then show ?case unfolding eq(1) by (rule moves_phase [OF _ lp_goal.hyps(2)]) simp
next
  case (lp_follow s t r status u fout build raises)
  obtain s1 e where eq: "settle_follow t status fout u build raises s = set_phase t (Publishing status) s1"
    "s1 = s \<or> s1 = note_error e s \<or>
      (\<exists>m. s1 = snd (start m None (Some t) u build raises s) \<or>
           s1 = note_error e (snd (start m None (Some t) u build raises s)))"
    using settle_follow_cases by blast
  have "moves s s1"
    using eq(2) moves_start [OF lp_follow.prems lp_follow.hyps(3)] by (auto intro: moves_note)
  then show ?case unfolding eq(1) by (rule moves_phase [OF _ lp_follow.hyps(2)]) simp
next
  case (lp_publish s t status)
  show ?case
  proof (cases "publish_terminal t status s")
    case True
    have "moves s (s\<lparr>sn_settling := sn_settling s - {t}, sn_status := status\<rparr>)"
      using True lp_publish.hyps(2) unfolding moves_def by (auto simp: settled_def task_phase_def)
    with True show ?thesis
      unfolding settle_publish_def by (simp add: moves_phase [OF _ lp_publish.hyps(2)])
  next
    case False
    then show ?thesis
      by (simp add: settle_publish_def moves_phase [OF moves_refl lp_publish.hyps(2)])
  qed
next
  case (lp_end s t)
  have "settled (end_task t s) u" if "settled s u" for u
    using that by (auto simp: settled_def task_phase_def end_task_def delete_conv')
  then show ?case by (auto simp: moves_def end_task_def)
next
  case (lp_close s cancel_active strict)
  show ?case
    by (rule moves_calm) (simp_all add: close_claim_def Let_def split: option.split prod.split)
next
  case (lp_finish_close s)
  show ?case by (rule moves_calm) (simp_all add: finish_close_def)
next
  case (lp_abort_close s)
  show ?case by (rule moves_calm) (simp_all add: abort_close_def split: close_state.split)
qed

lemma session_moves: "session_reach s \<Longrightarrow> session_step s s' \<Longrightarrow> moves s s'"
  by (erule session_step.cases) (auto intro: moves_thread moves_loop session_turns.reach_inv)

section \<open>Turns\<close>

text \<open>
  C1: One turn at a time. In every reachable state of a session, while a turn that has started has
  not ended: every other turn has ended, the turn is the one a snapshot names, the status is running
  or cancelling, and whatever is tried (a reservation, a start with any message, reservation and
  settling owner) is refused.
\<close>

theorem one_turn_at_a_time:
  assumes "session_reach s" "t \<in> set (sw_started s)" "\<not> handle_done s t"
  shows "(\<forall>u \<in> set (sw_started s). u \<noteq> t \<longrightarrow> handle_done s u) \<and>
    sp_active_turn_id (snapshot s) = Some t \<and> sn_status s \<in> {RUNNING, CANCELLING} \<and>
    isl (fst (start message reservation owner u build raises s)) \<and>
    isl (fst (reserve_turn_or_raise resume claim token s)) \<and> fst (reserve_turn token s) = None"
proof -
  have inv: "turns_inv s" "live_inv s"
    using session_sys.reach_inv [OF assms(1)] by (simp_all add: session_inv_def)
  have active: "sn_active_handle s = Some t"
    using turns_early [OF inv(1) turns_running [OF inv(1) assms(2,3)]] .
  then have live: "live_handle s = Some t" using assms(3) by (simp add: live_handle_def)
  have "handle_done s u" if "u \<in> set (sw_started s)" "u \<noteq> t" for u
  proof (rule ccontr)
    assume "\<not> handle_done s u"
    then have "sn_active_handle s = Some u"
      using turns_early [OF inv(1) turns_running [OF inv(1) that(1)]] by blast
    with active that(2) show False by simp
  qed
  moreover have "sn_status s \<in> {RUNNING, CANCELLING}"
    using inv(2) live unfolding live_inv_def by blast
  moreover have "start_refusal message reservation owner s \<noteq> None"
    using refusal_None(2) [of message reservation owner s] live by fastforce
  then have "isl (fst (start message reservation owner u build raises s))"
    by (auto simp: start_def split: option.splits)
  moreover have "isl (fst (reserve_turn_or_raise resume claim token s))"
    using live by (simp add: reserve_turn_or_raise_def)
  moreover have "fst (reserve_turn token s) = None" using live by (simp add: reserve_turn_def)
  ultimately show ?thesis using active assms(3) by (simp add: snapshot_def active_turn_id_def)
qed

section \<open>Approvals\<close>

text \<open>
  C18: An approval resumes one turn, once. When a start with \<open>approval_resume\<close> succeeds in a reachable
  state, it holds the reservation made for the approval; the turn it resumes is the active one, has
  ended by asking for approval, and has never been resumed; the token of the claim has never been used;
  and no other turn has started since the claim was made. Over a whole history, tokens and resumed
  turns are distinct.
\<close>

theorem approval_resumes_once:
  assumes "session_reach s" "ut_approval_resume message"
    "start message reservation owner u build raises s = (Inr c, s')"
  shows "\<exists>r t. sn_reservation s = Some r \<and> rv_approval_turn_id r = Some t \<and>
    sn_active_handle s = Some t \<and> asked s t \<and> t \<notin> snd ` set (sw_resumes s) \<and>
    rv_token r \<notin> fst ` set (sw_resumes s) \<and> rv_token r \<in> set (sw_claims s) \<and>
    rv_approval_generation r = Some (sn_turn_generation s) \<and>
    sw_resumes s' = sw_resumes s @ [(rv_token r, t)] \<and>
    distinct (map fst (sw_resumes s)) \<and> distinct (map snd (sw_resumes s))"
proof -
  have inv: "approval_inv s"
    using session_sys.reach_inv [OF assms(1)] by (simp add: session_inv_def)
  have ok: "start_refusal message reservation owner s = None" "s' = start_success message reservation c s"
    using assms(3) by (auto simp: start_def split: option.splits sum.splits)
  note auth = refusal_None(6) [OF ok(1) assms(2)] and own = refusal_None(5) [OF ok(1)]
  then obtain r t g where r: "sn_reservation s = Some r" "rv_approval_turn_id r = Some t"
    "rv_approval_generation r = Some (sn_turn_generation s)" "sn_consumed_claim s = Some (rv_token r, g)"
    by (auto simp: resume_authorized_def owns_reservation_def split: option.splits)
  have "t \<notin> snd ` set (sw_resumes s)"
    using resumed_turn [OF inv] reserved_resume [OF inv r(1,2)] by fastforce
  moreover have "sw_resumes s' = sw_resumes s @ [(rv_token r, t)]"
    using own r(1,2) assms(2) ok(2) by (simp add: start_success_def Let_def owns_reservation_def)
  ultimately show ?thesis
    using r reserved_resume [OF inv r(1,2)] consumed_new [OF inv r(4)] resumes_distinct [OF inv] by blast
qed

text \<open>
  An approval nobody can answer any more: the turn asked for it and has settled, the session does not
  wait for it, and no reservation resumes it. No step leaves this condition.
\<close>

definition unanswerable :: "session \<Rightarrow> string \<Rightarrow> bool" where
  "unanswerable s t \<longleftrightarrow> t \<in> set (sw_started s) \<and> settled s t \<and>
     (sn_status s = WAITING_APPROVAL \<longrightarrow> sn_active_handle s \<noteq> Some t) \<and>
     (\<forall>r. sn_reservation s = Some r \<longrightarrow> rv_approval_turn_id r \<noteq> Some t)"

lemma publishes_own_turn:
  assumes "wait_inv s" "task_phase t s = Some (Publishing WAITING_APPROVAL)"
    "publish_terminal t WAITING_APPROVAL s"
  shows "sn_active_handle s = Some t"
proof -
  have "sn_latest_handle s = Some t" using assms(3) by (simp add: publish_terminal_def)
  with assms(1,2) show ?thesis unfolding wait_inv_def by (metis waits.simps)
qed

lemma unanswerable_step:
  assumes reach: "session_reach s" and step: "session_step s s'" and lost: "unanswerable s t"
  shows "unanswerable s' t"
proof -
  have inv: "wait_inv s" using session_sys.reach_inv [OF reach] by (simp add: session_inv_def)
  have m: "moves s s'" by (rule session_moves [OF reach step])
  note l = lost [unfolded unanswerable_def]
  have started: "t \<in> set (sw_started s')" using moves_started [OF m] l by auto
  have "sn_status s' = WAITING_APPROVAL \<longrightarrow> sn_active_handle s' \<noteq> Some t"
  proof (intro impI notI)
    assume s': "sn_status s' = WAITING_APPROVAL" "sn_active_handle s' = Some t"
    have active: "sn_active_handle s = Some t" using moves_active [OF m s'(2)] l by blast
    from moves_status [OF m s'(1)] show False
    proof
      assume "sn_status s = WAITING_APPROVAL"
      with l active show False by blast
    next
      assume "\<exists>u. task_phase u s = Some (Publishing WAITING_APPROVAL) \<and>
        publish_terminal u WAITING_APPROVAL s"
      then obtain u where u: "task_phase u s = Some (Publishing WAITING_APPROVAL)"
        "publish_terminal u WAITING_APPROVAL s" by blast
      with publishes_own_turn [OF inv] active have "u = t" by simp
      with u(1) l show False by (auto simp: settled_def)
    qed
  qed
  moreover have "\<forall>r. sn_reservation s' = Some r \<longrightarrow> rv_approval_turn_id r \<noteq> Some t"
    using moves_reserved [OF m] l by blast
  ultimately show ?thesis
    using started moves_settled [OF m] l unfolding unanswerable_def by blast
qed

lemma unanswerable_run:
  "session_step\<^sup>*\<^sup>* s s' \<Longrightarrow> session_reach s \<Longrightarrow> unanswerable s t \<Longrightarrow> unanswerable s' t"
  by (induction rule: rtranclp_induct) (auto intro: unanswerable_step reach_rtranclp)

text \<open>
  C23: Giving up a resume loses its approval. \<open>release_turn\<close> on the reservation of an approval resume
  (what a submit does that fails or is cancelled while it waits for a permit) leaves the session idle.
  From then on, whatever happens, the approval of that turn is not pending and can be neither looked
  up, nor answered, nor reserved again, although the agent still waits for the decision.
\<close>

theorem released_resume_loses_approval:
  assumes "session_reach s" "sn_reservation s = Some r" "rv_approval_turn_id r = Some t"
    "session_step\<^sup>*\<^sup>* (snd (release_turn r s)) s'"
  shows "asked s t \<and> t \<notin> snd ` set (sw_resumes s) \<and> sn_status (snd (release_turn r s)) = IDLE \<and>
    isl (approval_fence t s') \<and> isl (pending_approval t generation pending s') \<and>
    isl (fst (build_approval_resume t generation pending decisions command n token s')) \<and>
    \<not> (\<exists>r'. fst (reserve_turn_or_raise True claim token s') = Inr r' \<and> rv_approval_turn_id r' = Some t)"
proof -
  let ?s = "snd (release_turn r s)"
  have inv: "approval_inv s" using session_sys.reach_inv [OF assms(1)] by (simp add: session_inv_def)
  note res = reserved_resume [OF inv assms(2,3)]
  have rel: "sn_reservation ?s = None" "sn_status ?s = IDLE" "sw_started ?s = sw_started s"
    "settled ?s t = settled s t"
    using assms(2) by (simp_all add: release_turn_def settled_def task_phase_def)
  have "turns_inv s" using session_sys.reach_inv [OF assms(1)] by (simp add: session_inv_def)
  then have "t \<in> set (sw_started s)" using turns_active res by blast
  then have "unanswerable ?s t" using res by (simp add: unanswerable_def rel)
  moreover have "session_reach ?s"
    by (rule reach_step [OF assms(1) by_thread]) (rule th_release)
  ultimately have un: "unanswerable s' t" using assms(4) unanswerable_run by blast
  then have nw: "\<not> (sn_status s' = WAITING_APPROVAL \<and> sn_active_handle s' = Some t)"
    by (simp add: unanswerable_def)
  have "isl (approval_fence t s')"
    using nw by (auto simp: approval_fence_def split: option.splits)
  moreover have "\<not> still_waiting t generation s'" using nw by (auto simp: still_waiting_def)
  then have "isl (pending_approval t generation pending s')"
    "isl (fst (build_approval_resume t generation pending decisions command n token s'))"
    by (simp_all add: pending_approval_def build_approval_resume_def split: option.split)
  moreover have "\<not> (\<exists>r'. fst (reserve_turn_or_raise True claim token s') = Inr r' \<and>
      rv_approval_turn_id r' = Some t)"
    using nw by (auto simp: reserve_turn_or_raise_def approval_reservation_def Let_def
        split: if_splits option.splits)
  moreover have "t \<notin> snd ` set (sw_resumes s)"
    using resumed_turn [OF inv] res by fastforce
  ultimately show ?thesis using res rel(2) by blast
qed

section \<open>Closing\<close>

lemma close_kept_step:
  assumes "session_step s s'" "sn_closed s" "sw_close s = NotClosing \<or> sw_close s = CloseDone"
  shows "sw_close s' = sw_close s"
  using assms
proof (cases rule: session_step.cases)
  case by_thread
  then show ?thesis using assms(3)
    by (cases rule: thread_step.cases)
       (simp_all add: reserve_turn_def reserve_or_raise_snd release_turn_def mark_queued_def
         clear_queued_def mark_starting_def build_approval_resume_def take_approval_claim_def
         cancel_turn_def steer_turn_def rebind_def turn_ends_def model_call_def withdraw_note_def
         set_queue_def Let_def split: option.split prod.split sum.split)
next
  case by_loop
  then show ?thesis
  proof (cases rule: loop_step.cases)
    case (lp_start t message reservation build raises)
    then show ?thesis using assms(3) start_fields(6) [OF refl] by metis
  next
    case (lp_follow t r status u fout build raises)
    obtain s1 e where "s' = set_phase t (Publishing status) s1"
      "s1 = s \<or> s1 = note_error e s \<or>
        (\<exists>m. s1 = snd (start m None (Some t) u build raises s) \<or>
             s1 = note_error e (snd (start m None (Some t) u build raises s)))"
      using settle_follow_cases lp_follow(1) by blast
    then show ?thesis
      using assms(3) start_fields(6) [OF refl] by (auto simp: set_phase_def)
  next
    case (lp_goal t r status gout has_followup)
    obtain s1 new e g where "s' = set_phase t new s1"
      "s1 = s \<or> s1 = note_error e s \<or> s1 = s\<lparr>sn_goal := g\<rparr>"
      using settle_goal_cases lp_goal(1) by blast
    then show ?thesis using assms(3) by (auto simp: set_phase_def)
  next
    case lp_finish_close
    then show ?thesis using assms(3) by (auto simp: can_finish_close_def)
  next
    case lp_abort_close
    then show ?thesis using assms(3) by (auto simp: abort_close_def)
  qed (use assms(2,3) in \<open>simp_all add: schedule_settlement_def settle_persist_def settle_clear_def
      settle_publish_def set_phase_def end_task_def close_claim_def abort_close_def Let_def
      split: option.split\<close>)
qed

lemma closed_run:
  assumes "session_step\<^sup>*\<^sup>* s s'" "session_reach s" "sn_closed s"
  shows "sn_closed s' \<and> sw_started s' = sw_started s \<and>
    (sw_close s = NotClosing \<or> sw_close s = CloseDone \<longrightarrow> sw_close s' = sw_close s)"
  using assms
proof (induction rule: rtranclp_induct)
  case (step u v)
  then have u: "session_reach u" "sn_closed u" "sw_started u = sw_started s"
    by (auto intro: reach_rtranclp)
  have m: "moves u v" by (rule session_moves [OF u(1) step.hyps(2)])
  have "sw_started v = sw_started u" using moves_started [OF m] u(2) by auto
  moreover have "sw_close s = NotClosing \<or> sw_close s = CloseDone \<longrightarrow> sw_close v = sw_close s"
    using step.IH [OF step.prems] close_kept_step [OF step.hyps(2) u(2)] by auto
  ultimately show ?case using moves_closed [OF m u(2)] u(3) by simp
qed simp



text \<open>How much settlement is left: the phases a task has still to go through.\<close>

fun phase_rank :: "settle_phase \<Rightarrow> nat" where
  "phase_rank Awaiting = 6"
| "phase_rank (Persisted _ _ _ _ _) = 5"
| "phase_rank (Cleared _ _) = 4"
| "phase_rank (Following _ _) = 3"
| "phase_rank (Publishing _) = 2"
| "phase_rank Ended = 1"

definition settle_rank :: "session \<Rightarrow> nat" where
  "settle_rank s = sum_list (map (phase_rank \<circ> snd) (sw_tasks s)) +
     (if sw_starting s = None then 0 else 7)"

lemma rank_update:
  "distinct (map fst d) \<Longrightarrow> map_of d t = Some old \<Longrightarrow>
   sum_list (map (f \<circ> snd) (dict_set t new d)) + f old =
   sum_list (map (f \<circ> snd) d) + (f new :: nat)"
proof (induction d)
  case (Cons kv d)
  obtain k v where kv: "kv = (k, v)" by (cases kv)
  show ?case
  proof (cases "k = t")
    case True
    with Cons.prems kv show ?thesis by simp
  next
    case False
    with Cons kv show ?thesis by simp
  qed
qed simp

lemma rank_delete:
  "distinct (map fst d) \<Longrightarrow> map_of d t = Some old \<Longrightarrow>
   sum_list (map (f \<circ> snd) (dict_pop t d)) + (f old :: nat) = sum_list (map (f \<circ> snd) d)"
proof (induction d)
  case (Cons kv d)
  obtain k v where kv: "kv = (k, v)" by (cases kv)
  show ?case
  proof (cases "k = t")
    case True
    have "dict_pop t d = d"
      using Cons.prems(1) True kv by (auto intro: delete_id simp: image_iff)
    with Cons.prems True kv show ?thesis by simp
  next
    case False
    with Cons kv show ?thesis by simp
  qed
qed simp

lemma settle_rank_phase:
  assumes "turns_inv s" "task_phase t s = Some old" "phase_rank new < phase_rank old"
    "sw_tasks s1 = sw_tasks s" "sw_starting s1 = sw_starting s"
  shows "settle_rank (set_phase t new s1) < settle_rank s"
  using rank_update [OF turns_keys [OF assms(1)], of t old phase_rank new] assms
  by (simp add: settle_rank_def set_phase_def task_phase_def)

lemma settle_rank_end:
  assumes "turns_inv s" "task_phase t s = Some Ended"
  shows "settle_rank (end_task t s) < settle_rank s"
  using rank_delete [OF turns_keys [OF assms(1)], of t Ended phase_rank] assms
  by (simp add: settle_rank_def end_task_def task_phase_def)

lemma settle_rank_schedule: "sw_starting s \<noteq> None \<Longrightarrow> settle_rank (schedule_settlement s) < settle_rank s"
  by (auto simp: settle_rank_def schedule_settlement_def split: option.split)

definition same_ends :: "session \<Rightarrow> session \<Rightarrow> bool" where
  "same_ends s s' \<longleftrightarrow> sw_started s' = sw_started s \<and> sw_futures s' = sw_futures s \<and> sw_close s' = sw_close s"

lemma settle_advances:
  assumes inv: "turns_inv s" and ended: "\<forall>t \<in> set (sw_started s). handle_done s t"
    and left: "sw_starting s \<noteq> None \<or> sw_tasks s \<noteq> []"
  shows "\<exists>s'. loop_step s s' \<and> settle_rank s' < settle_rank s \<and> same_ends s s'"
proof (cases "sw_starting s")
  case (Some t)
  then show ?thesis
    by (intro exI [of _ "schedule_settlement s"] conjI lp_schedule settle_rank_schedule)
       (simp_all add: same_ends_def schedule_settlement_def)
next
  case None
  with left obtain t ph rest where "sw_tasks s = (t, ph) # rest"
    by (cases "sw_tasks s") auto
  then have ph: "task_phase t s = Some ph" by (simp add: task_phase_def)
  note ok = turns_task [OF inv ph] and rank = settle_rank_phase [OF inv ph]
  show ?thesis
  proof (cases ph)
    case Awaiting
    with ok ended obtain out where out: "sw_futures s t = Some out" by (auto simp: handle_done_def)
    show ?thesis
    proof (cases out)
      case (Finished r)
      show ?thesis
      proof (intro exI conjI)
        show "loop_step s (settle_persist t r NoHook s)"
          by (rule lp_persist) (use None ph Awaiting out Finished in simp_all)
        show "settle_rank (settle_persist t r NoHook s) < settle_rank s"
          unfolding settle_persist_def Let_def by (rule rank) (simp_all add: Awaiting)
      qed (simp add: same_ends_def settle_persist_def set_phase_def)
    next
      case (Broken e)
      show ?thesis
      proof (intro exI conjI)
        show "loop_step s (set_phase t Ended s)"
          by (rule lp_broken) (use None ph Awaiting out Broken in simp_all)
        show "settle_rank (set_phase t Ended s) < settle_rank s" by (rule rank) (simp_all add: Awaiting)
      qed (simp add: same_ends_def set_phase_def)
    qed
  next
    case (Persisted r u st e a)
    show ?thesis
    proof (intro exI conjI)
      show "loop_step s (settle_clear t r u st e a s)" by (rule lp_clear) (use None ph Persisted in simp_all)
      show "settle_rank (settle_clear t r u st e a s) < settle_rank s"
        unfolding settle_clear_def Let_def by (rule rank) (simp_all add: Persisted)
    qed (simp add: same_ends_def settle_clear_def set_phase_def)
  next
    case (Cleared r st)
    show ?thesis
    proof (intro exI conjI)
      show "loop_step s (settle_goal t r st NoGoalService False s)"
        by (rule lp_goal) (use None ph Cleared in simp_all)
      show "settle_rank (settle_goal t r st NoGoalService False s) < settle_rank s"
        by (simp add: settle_goal_def rank Cleared)
    qed (simp add: same_ends_def settle_goal_def set_phase_def)
  next
    case (Following r st)
    obtain u where u: "u \<notin> set (sw_started s)"
      using ex_new_if_finite [OF infinite_UNIV_listI, of "set (sw_started s)"] by auto
    show ?thesis
    proof (intro exI conjI)
      show "loop_step s (settle_follow t st NoFollowup u (Inl []) None s)"
        by (rule lp_follow) (use None ph Following u in simp_all)
      show "settle_rank (settle_follow t st NoFollowup u (Inl []) None s) < settle_rank s"
        by (simp add: settle_follow_def rank Following)
    qed (simp add: same_ends_def settle_follow_def set_phase_def)
  next
    case (Publishing st)
    show ?thesis
    proof (intro exI conjI)
      show "loop_step s (settle_publish t st s)" by (rule lp_publish) (use None ph Publishing in simp_all)
      show "settle_rank (settle_publish t st s) < settle_rank s"
        unfolding settle_publish_def by (rule rank) (simp_all add: Publishing)
    qed (simp add: same_ends_def settle_publish_def set_phase_def)
  next
    case Ended
    show ?thesis
    proof (intro exI conjI)
      show "loop_step s (end_task t s)" by (rule lp_end) (use None ph Ended in simp_all)
      show "settle_rank (end_task t s) < settle_rank s" using settle_rank_end [OF inv] ph Ended by simp
    qed (simp add: same_ends_def end_task_def)
  qed
qed


section \<open>Usage and guidance\<close>

lemma charged_usage_sums:
  "use_input_tokens (charged_usage u cs) = use_input_tokens u + (\<Sum>(_, r) \<leftarrow> cs. res_input_tokens r)"
  "use_output_tokens (charged_usage u cs) = use_output_tokens u + (\<Sum>(_, r) \<leftarrow> cs. res_output_tokens r)"
  "use_cache_tokens (charged_usage u cs) = use_cache_tokens u + (\<Sum>(_, r) \<leftarrow> cs. res_cache_tokens r)"
  unfolding charged_usage_def by (induction cs arbitrary: u) (auto simp: add_usage_def)

text \<open>
  C19: Usage is exact. In every reachable state the usage of the session is the durable usage it was
  opened with plus the sum of the tokens of the turns charged so far, each charged once; the turns
  charged are those whose future holds a result and whose settlement has passed the locked section that
  clears them, and when nothing is settling they are all the turns that have finished with a result.
\<close>

theorem usage_exact:
  assumes "session_reach s"
  shows "use_input_tokens (sn_usage s) =
      use_input_tokens (sw_seed s) + (\<Sum>(_, r) \<leftarrow> sw_charged s. res_input_tokens r) \<and>
    use_output_tokens (sn_usage s) =
      use_output_tokens (sw_seed s) + (\<Sum>(_, r) \<leftarrow> sw_charged s. res_output_tokens r) \<and>
    use_cache_tokens (sn_usage s) =
      use_cache_tokens (sw_seed s) + (\<Sum>(_, r) \<leftarrow> sw_charged s. res_cache_tokens r) \<and>
    distinct (map fst (sw_charged s)) \<and>
    set (sw_charged s) = {(t, r). sw_futures s t = Some (Finished r) \<and> \<not> early s t} \<and>
    (sw_starting s = None \<and> sn_settling s = {} \<longrightarrow>
       set (sw_charged s) = {(t, r). sw_futures s t = Some (Finished r)})"
proof -
  have inv: "turns_inv s" "usage_inv s"
    using session_ledger.reach_inv [OF assms] by (simp_all add: ledger_inv_def)
  have all: "set (sw_charged s) = {(t, r). sw_futures s t = Some (Finished r) \<and> \<not> early s t}"
  proof -
    have "(t, r) \<in> set (sw_charged s) \<longleftrightarrow> sw_futures s t = Some (Finished r) \<and> \<not> early s t" for t r
      using charged_done [OF inv(2), of t r] done_charged [OF inv(2), of t r] by blast
    from this [of "fst x" "snd x" for x] show ?thesis by (intro set_eqI) (simp add: split_def)
  qed
  have quiet: "\<not> early s t" if idle: "sw_starting s = None \<and> sn_settling s = {}" for t
  proof
    assume "early s t"
    then obtain ph where ph: "task_phase t s = Some ph" "early_phase ph"
      using idle by (auto simp: early_def)
    then have "ph \<noteq> Ended" by auto
    then show False using turns_settling [OF inv(1) ph(1)] idle by simp
  qed
  have "sw_starting s = None \<and> sn_settling s = {} \<longrightarrow>
      set (sw_charged s) = {(t, r). sw_futures s t = Some (Finished r)}"
    unfolding all using quiet by blast
  with all show ?thesis
    unfolding usage_sum [OF inv(2)] charged_usage_sums using charged_distinct [OF inv(2)] by blast
qed


section \<open>A sample session\<close>

text \<open>
  The thread \<open>t\<close> with agent 1: its first turn is steered, makes a model call, and asks for approval;
  the approval is answered and reserved, and the resume starts.
\<close>

definition sample_new :: session where
  "sample_new = new_session ''t'' \<lparr>eb_agent = 1, eb_settings = 0\<rparr> (new_broker ''t'' 100 None ''e'') None
     (\<lambda>a. if a = 1 then Some new_steer_queue else None)"

definition sample_request :: turn_request where
  "sample_request = build_resume_request (PStr ''go'') ''t'' 10 []"

definition sample_message :: "bool \<Rightarrow> user_turn" where
  "sample_message resume =
     \<lparr>ut_request = Some sample_request, ut_cancel_token = None, ut_approval_resume = resume\<rparr>"

definition sample_result :: "turn_status \<Rightarrow> turn_result" where
  "sample_result st = (blank_result ''1'' ''t'' st)
     \<lparr>res_input_tokens := 7, res_output_tokens := 2, res_cache_tokens := 1, res_total_tokens := 9\<rparr>"

definition sample_started :: session where
  "sample_started = schedule_settlement
     (snd (start (sample_message False) None None ''1'' (Inl []) None sample_new))"

definition sample_steered :: session where
  "sample_steered = model_call ''1'' (snd (steer_turn ''1'' ''look'' sample_started))"

definition sample_asked :: session where
  "sample_asked = turn_ends ''1'' (Finished (sample_result T_WAITING_APPROVAL)) sample_steered"

definition sample_usage :: session_usage where
  "sample_usage = \<lparr>use_input_tokens = 7, use_output_tokens = 2, use_cache_tokens = 1\<rparr>"

definition sample_charged :: session where
  "sample_charged = settle_clear ''1'' (sample_result T_WAITING_APPROVAL) sample_usage WAITING_APPROVAL None 1
     (settle_persist ''1'' (sample_result T_WAITING_APPROVAL) NoHook sample_asked)"

definition sample_waiting :: session where
  "sample_waiting = end_task ''1'' (settle_publish ''1'' WAITING_APPROVAL
     (settle_goal ''1'' (sample_result T_WAITING_APPROVAL) WAITING_APPROVAL NoGoalService False sample_charged))"

definition sample_reserved :: session where
  "sample_reserved = snd (reserve_turn_or_raise True (Some (''k'', 1)) ''x''
     (snd (take_approval_claim ''1''
       (snd (build_approval_resume ''1'' 1 (Some []) [] PList 10 ''k'' sample_waiting)))))"

lemma reach_loop: "session_reach s \<Longrightarrow> loop_step s s' \<Longrightarrow> session_reach s'"
  by (blast intro: reach_step by_loop)

lemma reach_thread: "session_reach s \<Longrightarrow> thread_step s s' \<Longrightarrow> session_reach s'"
  by (blast intro: reach_step by_thread)

lemma sample_new_reachable: "session_reach sample_new"
  unfolding sample_new_def
  by (intro reach_init is_new_session.intros is_new_broker.intros) (auto simp: new_steer_queue_def split: if_splits)

lemma sample_started_reachable: "session_reach sample_started"
proof -
  have "session_reach (snd (start (sample_message False) None None ''1'' (Inl []) None sample_new))"
    by (rule reach_loop [OF sample_new_reachable], rule lp_start) code_simp+
  then show ?thesis unfolding sample_started_def by (rule reach_loop) (rule lp_schedule)
qed

lemma sample_steered_reachable: "session_reach sample_steered"
proof -
  have "session_reach (snd (steer_turn ''1'' ''look'' sample_started))"
    by (rule reach_thread [OF sample_started_reachable]) (rule th_steer)
  moreover have "''1'' \<in> set (sw_started (snd (steer_turn ''1'' ''look'' sample_started)))"
    "\<not> handle_done (snd (steer_turn ''1'' ''look'' sample_started)) ''1''"
    by code_simp+
  ultimately show ?thesis
    unfolding sample_steered_def by (blast intro: reach_thread th_model_call)
qed

lemma sample_asked_reachable: "session_reach sample_asked"
proof -
  have "''1'' \<in> set (sw_started sample_steered)" "\<not> handle_done sample_steered ''1''"
    by code_simp+
  then show ?thesis
    unfolding sample_asked_def by (blast intro: reach_thread th_turn_ends sample_steered_reachable)
qed

lemma sample_charged_reachable: "session_reach sample_charged"
proof -
  let ?p = "settle_persist ''1'' (sample_result T_WAITING_APPROVAL) NoHook sample_asked"
  have "sw_starting sample_asked = None" "task_phase ''1'' sample_asked = Some Awaiting"
    "sw_futures sample_asked ''1'' = Some (Finished (sample_result T_WAITING_APPROVAL))"
    by code_simp+
  then have p: "session_reach ?p"
    by (intro reach_loop [OF sample_asked_reachable] lp_persist)
  have "sw_starting ?p = None" by code_simp
  moreover have "task_phase ''1'' ?p =
      Some (Persisted (sample_result T_WAITING_APPROVAL) sample_usage WAITING_APPROVAL None 1)"
    by code_simp
  ultimately show ?thesis
    unfolding sample_charged_def by (intro reach_loop [OF p] lp_clear)
qed

lemma sample_waiting_reachable: "session_reach sample_waiting"
proof -
  let ?g = "settle_goal ''1'' (sample_result T_WAITING_APPROVAL) WAITING_APPROVAL NoGoalService False sample_charged"
  let ?p = "settle_publish ''1'' WAITING_APPROVAL ?g"
  have "sw_starting sample_charged = None"
    "task_phase ''1'' sample_charged = Some (Cleared (sample_result T_WAITING_APPROVAL) WAITING_APPROVAL)"
    by code_simp+
  then have g: "session_reach ?g" by (intro reach_loop [OF sample_charged_reachable] lp_goal)
  have "sw_starting ?g = None" "task_phase ''1'' ?g = Some (Publishing WAITING_APPROVAL)" by code_simp+
  then have p: "session_reach ?p" by (intro reach_loop [OF g] lp_publish)
  have "sw_starting ?p = None" "task_phase ''1'' ?p = Some Ended" by code_simp+
  then show ?thesis unfolding sample_waiting_def by (intro reach_loop [OF p] lp_end)
qed

lemma sample_reserved_reachable: "session_reach sample_reserved"
proof -
  have "''k'' \<notin> set (sw_claims sample_waiting)" by code_simp
  then have "session_reach (snd (build_approval_resume ''1'' 1 (Some []) [] PList 10 ''k'' sample_waiting))"
    by (intro reach_thread [OF sample_waiting_reachable] th_build_resume)
  then show ?thesis unfolding sample_reserved_def
    by (rule reach_thread [OF reach_thread]) (rule th_take_claim, rule th_reserve_or_raise)
qed

definition sample_closing :: session where
  "sample_closing = snd (close_claim True False sample_asked)"

definition sample_closed :: session where
  "sample_closed = snd (finish_close (snd (close_claim False False sample_waiting)))"

lemma sample_closing_reachable: "session_reach sample_closing"
proof -
  have "sw_starting sample_asked = None" by code_simp
  then show ?thesis
    unfolding sample_closing_def by (intro reach_loop [OF sample_asked_reachable] lp_close)
qed

lemma sample_closed_reachable: "session_reach sample_closed"
proof -
  let ?c = "snd (close_claim False False sample_waiting)"
  have "sw_starting sample_waiting = None" by code_simp
  then have c: "session_reach ?c" by (intro reach_loop [OF sample_waiting_reachable] lp_close)
  have "sw_starting ?c = None" "can_finish_close ?c" by code_simp+
  then show ?thesis unfolding sample_closed_def by (intro reach_loop [OF c] lp_finish_close)
qed

theorem one_turn_at_a_time_witness:
  "sp_active_turn_id (snapshot sample_steered) = Some ''1'' \<and>
   isl (fst (start (sample_message False) None None ''2'' (Inl []) None sample_steered))"
proof -
  have "''1'' \<in> set (sw_started sample_steered)" "\<not> handle_done sample_steered ''1''" by code_simp+
  then show ?thesis using one_turn_at_a_time [OF sample_steered_reachable] by blast
qed

theorem approval_resumes_once_witness:
  "\<exists>r t. sn_reservation sample_reserved = Some r \<and> rv_approval_turn_id r = Some t \<and>
     asked sample_reserved t \<and> t \<notin> snd ` set (sw_resumes sample_reserved)"
proof -
  let ?st = "start (sample_message True) (sn_reservation sample_reserved) None ''2'' (Inl []) None sample_reserved"
  have resume: "ut_approval_resume (sample_message True)" "\<not> isl (fst ?st)" by code_simp+
  then obtain c where "fst ?st = Inr c" by (cases "fst ?st") auto
  then have "?st = (Inr c, snd ?st)" by (metis prod.collapse)
  from approval_resumes_once [OF sample_reserved_reachable resume(1) this] show ?thesis by blast
qed

theorem released_resume_loses_approval_witness:
  "\<exists>r. sn_reservation sample_reserved = Some r \<and> asked sample_reserved ''1'' \<and>
     isl (approval_fence ''1'' (snd (release_turn r sample_reserved)))"
proof -
  have some: "sn_reservation sample_reserved \<noteq> None"
    and turn: "map_option rv_approval_turn_id (sn_reservation sample_reserved) = Some (Some ''1'')"
    by code_simp+
  then obtain r where r: "sn_reservation sample_reserved = Some r" "rv_approval_turn_id r = Some ''1''"
    by auto
  from released_resume_loses_approval [OF sample_reserved_reachable r rtranclp.rtrancl_refl] r(1)
  show ?thesis by blast
qed




theorem usage_exact_witness:
  "use_input_tokens (sn_usage sample_charged) = 0 + 7 \<and> sn_usage sample_charged = sample_usage"
proof -
  have "use_input_tokens (sw_seed sample_charged) = 0" "(\<Sum>(_, r) \<leftarrow> sw_charged sample_charged. res_input_tokens r) = 7"
    "sn_usage sample_charged = sample_usage" by code_simp+
  then show ?thesis using usage_exact [OF sample_charged_reachable] by simp
qed


end
