(* ===== verification/Session_Manager.thy ===== *)
theory Session_Manager
  imports Session_Contract
begin

text \<open>
  The manager of a project's sessions (\<open>runtime/sessions/manager.py\<close>): opening, submitting under the
  permits of the process, closing, deleting, evicting idle sessions, and shutting down.

  \<open>manager\<close> holds the dictionaries of the class. A session runtime, an asyncio lock, a submit and its
  release task are objects with an identity, written as numbers: \<open>mg_objects\<close> is the heap of runtimes
  (each a \<open>session\<close> of Session_Runtime), \<open>mg_locked\<close> the submit locks that are held. The semaphore is a
  counter with the queue of the submits that wait for it: a permit goes to the first of them, as in
  asyncio.

  The coroutines of the manager run on one event loop. Each is cut at its awaits, so a definition is a
  piece that runs without another coroutine in between: \<open>submit\<close> is \<open>open_enter\<close>, \<open>open_finish\<close>,
  \<open>submit_enter\<close> (up to the await of the permit) and \<open>submit_resume\<close>; its release task is
  \<open>release_turn_permit\<close>. The lifecycle coordinator is held across an await only by a strict close, a
  delete, a fork and a binding guard (\<open>mg_held\<close>); every other piece takes and releases it within itself
  and can run only when nobody holds it. Steps of the sessions themselves may come between any two
  pieces. What agents, factories, the purge and the metadata do is a parameter or left out: they do
  not touch this state. \<open>mg_turns\<close>, \<open>mg_ids\<close>, \<open>mg_lock_ids\<close>, \<open>mg_leaked\<close> only record what happened.
\<close>

section \<open>State\<close>

datatype acquire_state = Acquiring | Acquired | AcquireCancelled

record queued_owner =
  qo_id :: nat
  qo_thread :: string
  qo_session :: nat
  qo_reservation :: turn_reservation
  qo_lock :: nat
  qo_message :: user_turn
  qo_released :: bool
  qo_acquire :: acquire_state

record release_task =
  rt_id :: nat
  rt_thread :: string
  rt_session :: nat
  rt_turn :: string
  rt_lock :: nat

text \<open>Who holds a lifecycle coordinator across an await.\<close>

datatype coordinator = StrictClose nat close_answer | DeleteClose nat close_answer | DeletePurge | Guarded

text \<open>Where \<open>_finish_close\<close> is: before the queued submit is cleaned up; in the close of the session,
  with its answer; waiting for the release task.\<close>

datatype finish_phase = AwaitOwner nat "nat option" | AwaitSession nat close_answer | AwaitRelease nat "nat option"

record manager =
  mg_project_id :: "string option"
  mg_max :: nat
  mg_sessions :: "(string \<times> nat) list"
  mg_objects :: "nat \<Rightarrow> session"
  mg_submit_locks :: "(string \<times> nat) list"
  mg_locked :: "nat set"
  mg_held :: "(string \<times> coordinator) list"
  mg_free :: nat
  mg_submits :: "queued_owner list"
  mg_queued_owners :: "(string \<times> nat) list"
  mg_releases :: "release_task list"
  mg_release_by_thread :: "(string \<times> nat) list"
  mg_closing :: "(string \<times> finish_phase) list"
  mg_deleting :: "string set"
  mg_closed :: bool
  mg_created :: "nat list"
  mg_lock_ids :: "nat list"
  mg_ids :: "nat list"
  mg_turns :: "(nat \<times> string) list"
  mg_leaked :: nat

datatype manager_error = OfSession session_error | KeyError string | ProjectError

definition new_manager :: "string option \<Rightarrow> int \<Rightarrow> manager" where
  "new_manager project_id max_concurrent_sessions =
     \<lparr>mg_project_id = project_id, mg_max = nat (max 1 max_concurrent_sessions), mg_sessions = [],
      mg_objects = (\<lambda>_. new_session [] \<lparr>eb_agent = 0, eb_settings = 0\<rparr> (new_broker [] 1 None []) None (\<lambda>_. None)),
      mg_submit_locks = [], mg_locked = {}, mg_held = [],
      mg_free = nat (max 1 max_concurrent_sessions), mg_submits = [], mg_queued_owners = [],
      mg_releases = [], mg_release_by_thread = [], mg_closing = [], mg_deleting = {},
      mg_closed = False, mg_created = [], mg_lock_ids = [], mg_ids = [], mg_turns = [], mg_leaked = 0\<rparr>"

definition with_session :: "nat \<Rightarrow> session \<Rightarrow> manager \<Rightarrow> manager" where
  "with_session i s m = m\<lparr>mg_objects := (mg_objects m)(i := s)\<rparr>"

definition coordinator_free :: "string \<Rightarrow> manager \<Rightarrow> bool" where
  "coordinator_free thread_id m \<longleftrightarrow> map_of (mg_held m) thread_id = None"

definition manager_closed :: manager_error where
  "manager_closed = OfSession (RuntimeClosedError ''RuntimeManager is closed'')"

definition check_ref :: "string \<Rightarrow> manager \<Rightarrow> (manager_error + unit) \<times> manager" where
  "check_ref project_id m =
     (let m1 = (if mg_project_id m = None then m\<lparr>mg_project_id := Some project_id\<rparr> else m)
      in if mg_project_id m1 \<noteq> Some project_id then (Inl ProjectError, m1) else (Inr (), m1))"

section \<open>Opening a session\<close>

text \<open>
  \<open>setdefault\<close> of the submit lock: the fresh lock is used only if there is none. It is the locked
  section before the loop of \<open>open_session_ref\<close> and \<open>delete_session_ref\<close>, after the closed check, and
  of \<open>close_session_ref\<close>, without it.
\<close>

definition ensure_submit_lock :: "string \<Rightarrow> nat \<Rightarrow> manager \<Rightarrow> manager" where
  "ensure_submit_lock thread_id fresh_lock m =
     (if map_of (mg_submit_locks m) thread_id = None
      then m\<lparr>mg_submit_locks := dict_set thread_id fresh_lock (mg_submit_locks m),
             mg_lock_ids := fresh_lock # mg_lock_ids m\<rparr>
      else m)"

definition open_enter :: "string \<Rightarrow> nat \<Rightarrow> manager \<Rightarrow> (manager_error + unit) \<times> manager" where
  "open_enter thread_id fresh_lock m =
     (if mg_closed m then (Inl manager_closed, m)
      else (Inr (), ensure_submit_lock thread_id fresh_lock m))"

text \<open>
  One round of the loop, with the coordinator. \<open>session\<close> is what the factories build, at the new
  address \<open>i\<close>.
\<close>

datatype open_answer = OpenRefused manager_error | OpenJoinsClose | OpenExisting nat | OpenCreated nat

definition open_finish :: "string \<Rightarrow> nat \<Rightarrow> session \<Rightarrow> manager \<Rightarrow> open_answer \<times> manager" where
  "open_finish thread_id i s m =
     (if mg_closed m then (OpenRefused manager_closed, m)
      else if map_of (mg_closing m) thread_id \<noteq> None then (OpenJoinsClose, m)
      else case map_of (mg_sessions m) thread_id of
        Some j \<Rightarrow> (OpenExisting j, m)
      | None \<Rightarrow>
          (OpenCreated i,
           with_session i s
             (m\<lparr>mg_sessions := dict_set thread_id i (mg_sessions m), mg_created := i # mg_created m\<rparr>)))"

text \<open>\<open>claimed\<close> of the session that is replaced decides whether an assembled runtime may take its place.\<close>

definition register_session :: "nat \<Rightarrow> manager \<Rightarrow> (manager_error + nat) \<times> manager" where
  "register_session i m =
     (let thread_id = sn_thread_id (mg_objects m i) in
      if mg_closed m then (Inl manager_closed, m)
      else if thread_id \<in> mg_deleting m
      then (Inl (OfSession (RuntimeClosedError ''session is being deleted'')), m)
      else case map_of (mg_sessions m) thread_id of
        Some j \<Rightarrow>
          if j = i then (Inr j, m)
          else if claimed (mg_objects m j)
          then (Inl (OfSession (SessionRuntimeError ''cannot replace an active session'')), m)
          else (Inr i, m\<lparr>mg_sessions := dict_set thread_id i (mg_sessions m)\<rparr>)
      | None \<Rightarrow> (Inr i, m\<lparr>mg_sessions := dict_set thread_id i (mg_sessions m)\<rparr>))"

text \<open>
  \<open>rebind_session_ref\<close>, under the coordinator; \<open>persist_fails\<close> says that storing the model binding
  raises, which restores the previous binding.
\<close>

definition rebind_session_ref ::
  "string \<Rightarrow> nat \<Rightarrow> session \<Rightarrow> execution_binding \<Rightarrow> bool \<Rightarrow> manager \<Rightarrow> (manager_error + nat) \<times> manager" where
  "rebind_session_ref thread_id i built binding persist_fails m =
     (if mg_closed m then (Inl manager_closed, m)
      else if map_of (mg_closing m) thread_id \<noteq> None
      then (Inl (OfSession (RuntimeClosedError ''session is closing'')), m)
      else
        let (j, m1) = (case map_of (mg_sessions m) thread_id of
               Some j \<Rightarrow> (j, m)
             | None \<Rightarrow> (i, with_session i built
                 (m\<lparr>mg_sessions := dict_set thread_id i (mg_sessions m), mg_created := i # mg_created m\<rparr>)));
            previous = sn_binding (mg_objects m1 j)
        in case rebind binding (mg_objects m1 j) of
             (Inl e, s) \<Rightarrow> (Inl (OfSession e), with_session j s m1)
           | (Inr _, s) \<Rightarrow>
               if persist_fails
               then (Inl (OfSession (SessionRuntimeError ''persist'')),
                     with_session j (snd (rebind previous s)) m1)
               else (Inr j, with_session j s m1))"

section \<open>Submitting a turn\<close>

datatype submit_answer = SubmitRefused manager_error | SubmitJoinsRelease nat | SubmitQueued nat

text \<open>
  From the coordinator to the await of the permit. The submit lock is taken without waiting, because
  it has just been found free. \<open>token\<close> and \<open>i\<close> are fresh: the reservation's token and the identity of
  the submit.
\<close>

definition submit_enter ::
  "string \<Rightarrow> nat \<Rightarrow> user_turn \<Rightarrow> (string \<times> nat) option \<Rightarrow> string \<Rightarrow> nat \<Rightarrow> manager \<Rightarrow>
     submit_answer \<times> manager" where
  "submit_enter thread_id j message approval_claim token i m =
     (let s = mg_objects m j in
      if mg_closed m \<or> map_of (mg_closing m) thread_id \<noteq> None
      then (SubmitRefused (OfSession (RuntimeClosedError ''session is closing'')), m)
      else if map_of (mg_sessions m) thread_id \<noteq> Some j
      then (SubmitRefused (OfSession (RuntimeClosedError ''session generation is closed'')), m)
      else case map_of (mg_submit_locks m) thread_id of
        None \<Rightarrow> (SubmitRefused (KeyError thread_id), m)
      | Some l \<Rightarrow>
          if l \<in> mg_locked m then
            (case (if sn_status s \<notin> {QUEUED, STARTING, RUNNING, CANCELLING} \<and>
                      (sn_status s \<noteq> WAITING_APPROVAL \<or> ut_approval_resume message)
                   then map_of (mg_release_by_thread m) thread_id else None) of
               Some r \<Rightarrow> (SubmitJoinsRelease r, m)
             | None \<Rightarrow> (SubmitRefused (OfSession (SessionBusyError ''session already has an active turn'')), m))
          else case reserve_turn_or_raise (ut_approval_resume message) approval_claim token s of
            (Inl e, s1) \<Rightarrow> (SubmitRefused (OfSession e), with_session j s1 m)
          | (Inr r, s1) \<Rightarrow>
              (case mark_queued s1 of
                 (Inl e, s2) \<Rightarrow>
                   (SubmitRefused (OfSession e), with_session j (clear_queued (snd (release_turn r s2))) m)
               | (Inr _, s2) \<Rightarrow>
                   (SubmitQueued i,
                    with_session j s2
                      (m\<lparr>mg_locked := insert l (mg_locked m), mg_ids := i # mg_ids m,
                         mg_submits := mg_submits m @
                           [\<lparr>qo_id = i, qo_thread = thread_id, qo_session = j, qo_reservation = r,
                             qo_lock = l, qo_message = message, qo_released = False,
                             qo_acquire = Acquiring\<rparr>],
                         mg_queued_owners := dict_set thread_id i (mg_queued_owners m)\<rparr>))))"

text \<open>The semaphore hands a permit to the first submit that waits.\<close>

definition first_waiting :: "manager \<Rightarrow> queued_owner option" where
  "first_waiting m = find (\<lambda>q. qo_acquire q = Acquiring) (mg_submits m)"

definition set_acquire :: "nat \<Rightarrow> acquire_state \<Rightarrow> bool \<Rightarrow> manager \<Rightarrow> manager" where
  "set_acquire i st released m =
     m\<lparr>mg_submits := map (\<lambda>q. if qo_id q = i
         then q\<lparr>qo_acquire := st, qo_released := qo_released q \<or> released\<rparr> else q) (mg_submits m)\<rparr>"

definition grant_permit :: "manager \<Rightarrow> manager" where
  "grant_permit m =
     (case first_waiting m of
        None \<Rightarrow> m
      | Some q \<Rightarrow>
          if mg_free m = 0 then m
          else set_acquire (qo_id q) Acquired False (m\<lparr>mg_free := mg_free m - 1\<rparr>))"

definition the_submit :: "nat \<Rightarrow> manager \<Rightarrow> queued_owner option" where
  "the_submit i m = find (\<lambda>q. qo_id q = i) (mg_submits m)"

text \<open>The submit leaves: \<open>finally\<close> takes its owner out of the dictionary if it is still there.\<close>

definition drop_submit :: "queued_owner \<Rightarrow> manager \<Rightarrow> manager" where
  "drop_submit q m =
     m\<lparr>mg_submits := filter (\<lambda>p. qo_id p \<noteq> qo_id q) (mg_submits m),
       mg_queued_owners :=
         (if map_of (mg_queued_owners m) (qo_thread q) = Some (qo_id q)
          then dict_pop (qo_thread q) (mg_queued_owners m) else mg_queued_owners m)\<rparr>"

text \<open>The error path: \<open>permit\<close> says whether the variable \<open>acquired\<close> was set.\<close>

definition fail_submit :: "queued_owner \<Rightarrow> bool \<Rightarrow> manager \<Rightarrow> manager" where
  "fail_submit q permit m =
     drop_submit q
       (with_session (qo_session q)
          (clear_queued (snd (release_turn (qo_reservation q) (mg_objects m (qo_session q)))))
          (m\<lparr>mg_free := mg_free m + (if permit then 1 else 0), mg_locked := mg_locked m - {qo_lock q}\<rparr>))"

definition closed_while_queued :: manager_error where
  "closed_while_queued = OfSession (RuntimeClosedError ''session was closed while the turn was queued'')"

text \<open>The submit runs again after the await: it has its permit, or its acquire was cancelled.\<close>

definition submit_resume ::
  "queued_owner \<Rightarrow> string \<Rightarrow> string + turn_request \<Rightarrow> string option \<Rightarrow> manager \<Rightarrow>
     (manager_error + string) \<times> manager" where
  "submit_resume q turn_id build submit_raises m =
     (if mg_closed m \<or> map_of (mg_closing m) (qo_thread q) \<noteq> None
      then (Inl closed_while_queued, fail_submit q True m)
      else case mark_starting (mg_objects m (qo_session q)) of
        (Inl e, s1) \<Rightarrow> (Inl (OfSession e), fail_submit q True (with_session (qo_session q) s1 m))
      | (Inr _, s1) \<Rightarrow>
          (case start (qo_message q) (Some (qo_reservation q)) None turn_id build submit_raises s1 of
             (Inl e, s2) \<Rightarrow> (Inl (OfSession e), fail_submit q True (with_session (qo_session q) s2 m))
           | (Inr c, s2) \<Rightarrow>
               (Inr turn_id,
                drop_submit q
                  (with_session (qo_session q) (schedule_settlement s2)
                     (m\<lparr>mg_releases := mg_releases m @
                          [\<lparr>rt_id = qo_id q, rt_thread = qo_thread q, rt_session = qo_session q,
                            rt_turn = turn_id, rt_lock = qo_lock q\<rparr>],
                        mg_release_by_thread :=
                          dict_set (qo_thread q) (qo_id q) (mg_release_by_thread m),
                        mg_turns := (qo_session q, turn_id) # mg_turns m\<rparr>)))))"

definition submit_released :: "queued_owner \<Rightarrow> manager \<Rightarrow> (manager_error + string) \<times> manager" where
  "submit_released q m = (Inl closed_while_queued, fail_submit q False m)"

text \<open>
  The task that runs the submit is cancelled from outside while it awaits the permit. If the acquire
  is not done, it is cancelled too. If it is done, the await still raises, because the task has not
  run since: \<open>acquired\<close> is not set.
\<close>

definition submit_cancelled :: "queued_owner \<Rightarrow> manager \<Rightarrow> manager" where
  "submit_cancelled q m =
     fail_submit q False
       (if qo_acquire q = Acquired then m\<lparr>mg_leaked := Suc (mg_leaked m)\<rparr> else m)"

text \<open>\<open>release_when_done\<close>: the turn and its settlement are over, or the turn's future holds an exception.\<close>

definition wait_over :: "session \<Rightarrow> string \<Rightarrow> bool" where
  "wait_over s t \<longleftrightarrow>
     (case sw_futures s t of
        None \<Rightarrow> False
      | Some (Broken _) \<Rightarrow> True
      | Some (Finished _) \<Rightarrow> task_phase t s = None \<and> sw_starting s \<noteq> Some t)"

definition release_turn_permit :: "release_task \<Rightarrow> manager \<Rightarrow> manager" where
  "release_turn_permit r m =
     m\<lparr>mg_free := Suc (mg_free m), mg_locked := mg_locked m - {rt_lock r},
       mg_releases := filter (\<lambda>p. rt_id p \<noteq> rt_id r) (mg_releases m),
       mg_release_by_thread :=
         (if map_of (mg_release_by_thread m) (rt_thread r) = Some (rt_id r)
          then dict_pop (rt_thread r) (mg_release_by_thread m) else mg_release_by_thread m)\<rparr>"

section \<open>Closing sessions\<close>

definition pop_session :: "string \<Rightarrow> manager \<Rightarrow> manager" where
  "pop_session thread_id m =
     m\<lparr>mg_sessions := dict_pop thread_id (mg_sessions m),
       mg_submit_locks := dict_pop thread_id (mg_submit_locks m)\<rparr>"

definition pop_if_same :: "string \<Rightarrow> nat \<Rightarrow> manager \<Rightarrow> manager" where
  "pop_if_same thread_id j m =
     (if map_of (mg_sessions m) thread_id = Some j then pop_session thread_id m else m)"

definition close_over :: "close_answer \<Rightarrow> session \<Rightarrow> bool" where
  "close_over answer s \<longleftrightarrow> answer = AlreadyClosed \<or> sw_close s = CloseDone"

datatype close_ref_answer = CloseRefused manager_error | CloseNone | CloseJoinsClosing | CloseStarted

text \<open>
  \<open>close_session_ref\<close> with the coordinator, up to its first await, with and without \<open>cancel_active\<close>.
\<close>

definition close_session_ref :: "string \<Rightarrow> bool \<Rightarrow> manager \<Rightarrow> close_ref_answer \<times> manager" where
  "close_session_ref thread_id cancel_active m =
     (if map_of (mg_closing m) thread_id \<noteq> None then (CloseJoinsClosing, m)
      else case map_of (mg_sessions m) thread_id of
        None \<Rightarrow> (CloseNone, m)
      | Some j \<Rightarrow>
          if \<not> cancel_active then
            (case close_claim False True (mg_objects m j) of
               (Inl e, s) \<Rightarrow> (CloseRefused (OfSession e), with_session j s m)
             | (Inr a, s) \<Rightarrow>
                 (CloseStarted,
                  with_session j s (m\<lparr>mg_held := dict_set thread_id (StrictClose j a) (mg_held m)\<rparr>)))
          else
            let waiting = (case map_of (mg_queued_owners m) thread_id of
                  None \<Rightarrow> None
                | Some i \<Rightarrow> (case the_submit i m of
                     Some q \<Rightarrow> if qo_acquire q = Acquiring then Some i else None | None \<Rightarrow> None));
                m1 = (case waiting of None \<Rightarrow> m | Some i \<Rightarrow> set_acquire i AcquireCancelled True m)
            in (CloseStarted,
                m1\<lparr>mg_closing := dict_set thread_id
                     (AwaitOwner j (map_of (mg_queued_owners m) thread_id)) (mg_closing m)\<rparr>))"

text \<open>The end of a strict close: the session is taken out, and the coordinator is released.\<close>

definition strict_close_end :: "string \<Rightarrow> nat \<Rightarrow> close_answer \<Rightarrow> manager \<Rightarrow> manager" where
  "strict_close_end thread_id j answer m =
     (let m1 = m\<lparr>mg_held := dict_pop thread_id (mg_held m)\<rparr>
      in if close_over answer (mg_objects m j) then pop_if_same thread_id j m1 else m1)"

text \<open>The pieces of \<open>_finish_close\<close>.\<close>

definition finish_owner :: "string \<Rightarrow> nat \<Rightarrow> manager \<Rightarrow> manager" where
  "finish_owner thread_id j m =
     (case close_claim True False (mg_objects m j) of
        (Inl e, s) \<Rightarrow> with_session j s (m\<lparr>mg_closing := dict_pop thread_id (mg_closing m)\<rparr>)
      | (Inr a, s) \<Rightarrow>
          with_session j s (m\<lparr>mg_closing := dict_set thread_id (AwaitSession j a) (mg_closing m)\<rparr>))"

definition finish_session :: "string \<Rightarrow> nat \<Rightarrow> close_answer \<Rightarrow> manager \<Rightarrow> manager" where
  "finish_session thread_id j answer m =
     m\<lparr>mg_closing :=
         (if close_over answer (mg_objects m j)
          then dict_set thread_id (AwaitRelease j (map_of (mg_release_by_thread m) thread_id)) (mg_closing m)
          else dict_pop thread_id (mg_closing m))\<rparr>"

definition finish_release :: "string \<Rightarrow> nat \<Rightarrow> manager \<Rightarrow> manager" where
  "finish_release thread_id j m =
     (let m1 = pop_if_same thread_id j m
      in m1\<lparr>mg_closing := dict_pop thread_id (mg_closing m1)\<rparr>)"

text \<open>\<open>delete_session_ref\<close>: to its first await, to the purge, and to its end.\<close>

datatype delete_answer = DeleteRefused manager_error | DeleteJoinsClose | DeleteClosing | DeletePurging

definition delete_session_ref :: "string \<Rightarrow> manager \<Rightarrow> delete_answer \<times> manager" where
  "delete_session_ref thread_id m =
     (if mg_closed m then (DeleteRefused manager_closed, m)
      else if map_of (mg_closing m) thread_id \<noteq> None then (DeleteJoinsClose, m)
      else case map_of (mg_sessions m) thread_id of
        None \<Rightarrow>
          (DeletePurging, m\<lparr>mg_deleting := insert thread_id (mg_deleting m),
                            mg_held := dict_set thread_id DeletePurge (mg_held m)\<rparr>)
      | Some j \<Rightarrow>
          if claimed (mg_objects m j)
          then (DeleteRefused (OfSession (SessionBusyError ''cannot delete a session with an active turn'')), m)
          else
            (case close_claim False True (mg_objects m j) of
               (Inl e, s) \<Rightarrow> (DeleteRefused (OfSession e), with_session j s m)
             | (Inr a, s) \<Rightarrow>
                 (DeleteClosing,
                  with_session j s
                    (m\<lparr>mg_deleting := insert thread_id (mg_deleting m),
                       mg_held := dict_set thread_id (DeleteClose j a) (mg_held m)\<rparr>))))"

definition delete_closed :: "string \<Rightarrow> nat \<Rightarrow> close_answer \<Rightarrow> manager \<Rightarrow> manager" where
  "delete_closed thread_id j answer m =
     (if close_over answer (mg_objects m j)
      then (pop_if_same thread_id j m)\<lparr>mg_held := dict_set thread_id DeletePurge (mg_held m)\<rparr>
      else m\<lparr>mg_held := dict_pop thread_id (mg_held m), mg_deleting := mg_deleting m - {thread_id}\<rparr>)"

definition delete_end :: "string \<Rightarrow> manager \<Rightarrow> manager" where
  "delete_end thread_id m =
     m\<lparr>mg_held := dict_pop thread_id (mg_held m), mg_deleting := mg_deleting m - {thread_id}\<rparr>"

section \<open>Evicting idle sessions\<close>

definition is_idle :: "session \<Rightarrow> bool" where
  "is_idle s \<longleftrightarrow> sp_status (snapshot s) \<in> {IDLE, FAILED, CANCELLED}"

definition idle_sessions :: "manager \<Rightarrow> (string \<times> nat) list" where
  "idle_sessions m = filter (\<lambda>(_, j). is_idle (mg_objects m j)) (mg_sessions m)"

definition collectable_sessions :: "manager \<Rightarrow> string list" where
  "collectable_sessions m = map fst (idle_sessions m)"

text \<open>Python's slice \<open>idle[n:]\<close> with a negative start counts from the end.\<close>

definition slice_from :: "int \<Rightarrow> 'a list \<Rightarrow> 'a list" where
  "slice_from n xs =
     (if 0 \<le> n then drop (nat n) xs else drop (nat (max 0 (int (length xs) + n))) xs)"

definition collect_list :: "int \<Rightarrow> manager \<Rightarrow> (string \<times> nat) list" where
  "collect_list max_idle m =
     (let idle = idle_sessions m
      in if int (length idle) \<le> max_idle then [] else slice_from max_idle idle)"

text \<open>One session of the list: it is closed, not strictly; a busy one is passed over. After the close it
  is taken out, whatever is registered by then.\<close>

definition collect_close :: "nat \<Rightarrow> manager \<Rightarrow> (manager_error + close_answer) \<times> manager" where
  "collect_close j m =
     (case close_claim False False (mg_objects m j) of
        (Inl e, s) \<Rightarrow> (Inl (OfSession e), with_session j s m)
      | (Inr a, s) \<Rightarrow> (Inr a, with_session j s m))"

definition has_running_sessions :: "manager \<Rightarrow> bool" where
  "has_running_sessions m \<longleftrightarrow>
     (\<exists>(_, j) \<in> set (mg_sessions m).
        sp_status (snapshot (mg_objects m j)) \<in> {QUEUED, STARTING, RUNNING, CANCELLING})"

section \<open>Shutting down\<close>

definition shutdown_begin :: "manager \<Rightarrow> manager" where
  "shutdown_begin m =
     (if mg_closed m then m
      else m\<lparr>mg_closed := True,
             mg_submits := map (\<lambda>q.
               if qo_acquire q = Acquiring \<and> map_of (mg_queued_owners m) (qo_thread q) = Some (qo_id q)
               then q\<lparr>qo_acquire := AcquireCancelled, qo_released := True\<rparr> else q) (mg_submits m)\<rparr>)"

text \<open>After the queued submits have left, every session is closed; at the end the dictionaries are emptied.\<close>

definition shutdown_close :: "nat \<Rightarrow> manager \<Rightarrow> manager" where
  "shutdown_close j m = with_session j (snd (close_claim True False (mg_objects m j))) m"

definition shutdown_end :: "manager \<Rightarrow> manager" where
  "shutdown_end m = m\<lparr>mg_sessions := [], mg_submit_locks := [], mg_queued_owners := []\<rparr>"

section \<open>Calls that are passed on to a session\<close>

definition via_session ::
  "string \<Rightarrow> string \<Rightarrow> (session \<Rightarrow> (session_error + 'a) \<times> session) \<Rightarrow> manager \<Rightarrow> (manager_error + 'a) \<times> manager" where
  "via_session thread_id missing call m =
     (case map_of (mg_sessions m) thread_id of
        None \<Rightarrow> (Inl (OfSession (NoActiveTurnError missing)), m)
      | Some j \<Rightarrow>
          (case call (mg_objects m j) of
             (Inl e, s) \<Rightarrow> (Inl (OfSession e), with_session j s m)
           | (Inr x, s) \<Rightarrow> (Inr x, with_session j s m)))"

definition cancel_turn_ref :: "string \<Rightarrow> string \<Rightarrow> string \<Rightarrow> manager \<Rightarrow> (manager_error + string \<times> bool) \<times> manager" where
  "cancel_turn_ref thread_id expected reason =
     via_session thread_id ''no active turn to cancel (session not found)'' (cancel_turn expected reason)"

definition steer_turn_ref ::
  "string \<Rightarrow> string \<Rightarrow> string \<Rightarrow> manager \<Rightarrow> (manager_error + string \<times> bool \<times> nat) \<times> manager" where
  "steer_turn_ref thread_id expected txt =
     via_session thread_id ''no active turn to steer (session not found)'' (steer_turn expected txt)"

text \<open>
  \<open>resume_ref\<close> before its submit: the request of the resume, and the claim the submit will present.
\<close>

definition claimed_resume ::
  "string \<Rightarrow> nat \<Rightarrow> (string \<times> pyval) list option \<Rightarrow> pyval list \<Rightarrow> (pyval list \<Rightarrow> pyval) \<Rightarrow> int \<Rightarrow>
     string \<Rightarrow> session \<Rightarrow> (session_error + turn_request \<times> string \<times> nat) \<times> session" where
  "claimed_resume expected generation pending decisions command max_concurrency token s =
     (case build_approval_resume expected generation pending decisions command max_concurrency token s of
        (Inl e, s1) \<Rightarrow> (Inl e, s1)
      | (Inr request, s1) \<Rightarrow>
          (case take_approval_claim expected s1 of
             (Inl e, s2) \<Rightarrow> (Inl e, s2)
           | (Inr claim, s2) \<Rightarrow> (Inr (request, claim), s2)))"

definition resume_ref ::
  "string \<Rightarrow> string \<Rightarrow> nat \<Rightarrow> (string \<times> pyval) list option \<Rightarrow> pyval list \<Rightarrow> (pyval list \<Rightarrow> pyval) \<Rightarrow> int \<Rightarrow>
     string \<Rightarrow> manager \<Rightarrow> (manager_error + turn_request \<times> string \<times> nat) \<times> manager" where
  "resume_ref thread_id expected generation pending decisions command max_concurrency token =
     via_session thread_id ''no approval is pending''
       (claimed_resume expected generation pending decisions command max_concurrency token)"

text \<open>
  A binding guard and a fork hold the coordinator while a worker runs; what the worker does is outside
  the manager.
\<close>

definition guard_enter :: "string \<Rightarrow> manager \<Rightarrow> (manager_error + nat option) \<times> manager" where
  "guard_enter thread_id m =
     (if mg_closed m \<or> map_of (mg_closing m) thread_id \<noteq> None
      then (Inl (OfSession (RuntimeClosedError ''session is closing'')), m)
      else (Inr (map_of (mg_sessions m) thread_id),
            m\<lparr>mg_held := dict_set thread_id Guarded (mg_held m)\<rparr>))"

definition fork_enter :: "string \<Rightarrow> manager \<Rightarrow> (manager_error + nat) \<times> manager" where
  "fork_enter thread_id m =
     (if mg_closed m then (Inl manager_closed, m)
      else case map_of (mg_sessions m) thread_id of
        None \<Rightarrow> (Inl (OfSession (RuntimeClosedError ''cannot fork a session that is not open'')), m)
      | Some j \<Rightarrow> (Inr j, m\<lparr>mg_held := dict_set thread_id Guarded (mg_held m)\<rparr>))"

definition guard_exit :: "string \<Rightarrow> manager \<Rightarrow> manager" where
  "guard_exit thread_id m = m\<lparr>mg_held := dict_pop thread_id (mg_held m)\<rparr>"

section \<open>The manager as a step system\<close>

text \<open>
  The pieces may run in any order, each when what its coroutine awaits has happened. Pieces that run
  code of a session on the event loop do so when that session is not between \<open>start\<close> and
  \<open>_schedule_settlement\<close>, which have no await between them. Fresh identities are arguments.
\<close>

definition not_closing :: "session \<Rightarrow> bool" where
  "not_closing s \<longleftrightarrow> (case sw_close s of ClosingTurn _ _ \<Rightarrow> False | _ \<Rightarrow> True)"

inductive manager_step :: "manager \<Rightarrow> manager \<Rightarrow> bool" where
  mg_session: "j \<in> set (mg_created m) \<Longrightarrow> session_step (mg_objects m j) s \<Longrightarrow>
    manager_step m (with_session j s m)"
| mg_check_ref: "manager_step m (snd (check_ref project_id m))"
| mg_open_enter: "l \<notin> set (mg_lock_ids m) \<Longrightarrow> manager_step m (snd (open_enter thread_id l m))"
| mg_close_enter: "l \<notin> set (mg_lock_ids m) \<Longrightarrow> manager_step m (ensure_submit_lock thread_id l m)"
| mg_open_finish: "coordinator_free thread_id m \<Longrightarrow> i \<notin> set (mg_created m) \<Longrightarrow> is_new_session s \<Longrightarrow>
    manager_step m (snd (open_finish thread_id i s m))"
| mg_assemble: "i \<notin> set (mg_created m) \<Longrightarrow> is_new_session s \<Longrightarrow>
    manager_step m (with_session i s (m\<lparr>mg_created := i # mg_created m\<rparr>))"
| mg_register: "i \<in> set (mg_created m) \<Longrightarrow> manager_step m (snd (register_session i m))"
| mg_rebind: "coordinator_free thread_id m \<Longrightarrow> i \<notin> set (mg_created m) \<Longrightarrow> is_new_session s \<Longrightarrow>
    manager_step m (snd (rebind_session_ref thread_id i s binding persist_fails m))"
| mg_submit_enter: "coordinator_free thread_id m \<Longrightarrow> i \<notin> set (mg_ids m) \<Longrightarrow>
    manager_step m (snd (submit_enter thread_id j message claim token i m))"
| mg_grant: "manager_step m (grant_permit m)"
| mg_resume: "q \<in> set (mg_submits m) \<Longrightarrow> qo_acquire q = Acquired \<Longrightarrow>
    sw_starting (mg_objects m (qo_session q)) = None \<Longrightarrow>
    turn_id \<notin> set (sw_started (mg_objects m (qo_session q))) \<Longrightarrow>
    manager_step m (snd (submit_resume q turn_id build submit_raises m))"
| mg_released: "q \<in> set (mg_submits m) \<Longrightarrow> qo_acquire q = AcquireCancelled \<Longrightarrow>
    manager_step m (snd (submit_released q m))"
| mg_cancelled: "q \<in> set (mg_submits m) \<Longrightarrow> manager_step m (submit_cancelled q m)"
| mg_release: "r \<in> set (mg_releases m) \<Longrightarrow> wait_over (mg_objects m (rt_session r)) (rt_turn r) \<Longrightarrow>
    manager_step m (release_turn_permit r m)"
| mg_close: "coordinator_free thread_id m \<Longrightarrow>
    (\<And>j. map_of (mg_sessions m) thread_id = Some j \<Longrightarrow> sw_starting (mg_objects m j) = None) \<Longrightarrow>
    manager_step m (snd (close_session_ref thread_id cancel_active m))"
| mg_strict_end: "map_of (mg_held m) thread_id = Some (StrictClose j answer) \<Longrightarrow>
    answer = AlreadyClosed \<or> not_closing (mg_objects m j) \<Longrightarrow>
    manager_step m (strict_close_end thread_id j answer m)"
| mg_finish_owner: "map_of (mg_closing m) thread_id = Some (AwaitOwner j owner) \<Longrightarrow>
    (\<And>i. owner = Some i \<Longrightarrow> the_submit i m = None) \<Longrightarrow> sw_starting (mg_objects m j) = None \<Longrightarrow>
    manager_step m (finish_owner thread_id j m)"
| mg_finish_session: "map_of (mg_closing m) thread_id = Some (AwaitSession j answer) \<Longrightarrow>
    answer = AlreadyClosed \<or> not_closing (mg_objects m j) \<Longrightarrow>
    manager_step m (finish_session thread_id j answer m)"
| mg_finish_release: "map_of (mg_closing m) thread_id = Some (AwaitRelease j release) \<Longrightarrow>
    (\<And>r. r \<in> set (mg_releases m) \<Longrightarrow> release \<noteq> Some (rt_id r)) \<Longrightarrow>
    manager_step m (finish_release thread_id j m)"
| mg_delete: "coordinator_free thread_id m \<Longrightarrow>
    (\<And>j. map_of (mg_sessions m) thread_id = Some j \<Longrightarrow> sw_starting (mg_objects m j) = None) \<Longrightarrow>
    manager_step m (snd (delete_session_ref thread_id m))"
| mg_delete_closed: "map_of (mg_held m) thread_id = Some (DeleteClose j answer) \<Longrightarrow>
    answer = AlreadyClosed \<or> not_closing (mg_objects m j) \<Longrightarrow>
    manager_step m (delete_closed thread_id j answer m)"
| mg_delete_end: "map_of (mg_held m) thread_id = Some DeletePurge \<Longrightarrow>
    manager_step m (delete_end thread_id m)"
| mg_guard: "coordinator_free thread_id m \<Longrightarrow> manager_step m (snd (guard_enter thread_id m))"
| mg_fork: "coordinator_free thread_id m \<Longrightarrow> manager_step m (snd (fork_enter thread_id m))"
| mg_unguard: "map_of (mg_held m) thread_id = Some Guarded \<Longrightarrow> manager_step m (guard_exit thread_id m)"
| mg_collect_close: "j \<in> snd ` set (mg_sessions m) \<Longrightarrow> sw_starting (mg_objects m j) = None \<Longrightarrow>
    manager_step m (snd (collect_close j m))"
| mg_collect_pop: "manager_step m (pop_session thread_id m)"
| mg_shutdown: "manager_step m (shutdown_begin m)"
| mg_shutdown_close: "mg_closed m \<Longrightarrow> j \<in> set (mg_created m) \<Longrightarrow> sw_starting (mg_objects m j) = None \<Longrightarrow>
    manager_step m (shutdown_close j m)"
| mg_shutdown_end: "mg_closed m \<Longrightarrow> mg_releases m = [] \<Longrightarrow> manager_step m (shutdown_end m)"

inductive is_new_manager :: "manager \<Rightarrow> bool" where
  "is_new_manager (new_manager project_id max_concurrent_sessions)"

abbreviation manager_reach :: "manager \<Rightarrow> bool" where
  "manager_reach \<equiv> reach is_new_manager manager_step"

end
