(* ===== verification/Manager_Permits.thy ===== *)
theory Manager_Permits
  imports Session_Manager
begin

text \<open>
  What the manager guarantees about its permits and its submit locks, and the composition with the
  sessions: every runtime the manager holds is in a state of Session_Runtime that can be reached.
\<close>

section \<open>The sessions of a manager\<close>

text \<open>A future that is set stays set.\<close>

lemma futures_start: "sw_futures (snd (start message reservation owner t build raises s)) = sw_futures s"
  using start_fields(3) [OF refl] by blast

lemma done_thread: "thread_step s s' \<Longrightarrow> handle_done s t \<Longrightarrow> handle_done s' t"
  by (erule thread_step.cases)
     (auto simp: handle_done_def reserve_turn_def reserve_or_raise_snd release_turn_def mark_queued_def
       clear_queued_def mark_starting_def build_approval_resume_def take_approval_claim_def
       cancel_turn_def steer_turn_def rebind_def turn_ends_def model_call_def withdraw_note_def
       set_queue_def Let_def split: option.splits prod.splits sum.splits if_splits)

lemma done_loop:
  assumes "loop_step s s'" "handle_done s t"
  shows "handle_done s' t"
proof -
  have "sw_futures s' = sw_futures s"
    using assms(1)
  proof (cases rule: loop_step.cases)
    case (lp_start u message reservation build raises)
    then show ?thesis by (simp add: futures_start)
  next
    case (lp_follow v r status u fout build raises)
    obtain s1 e where "s' = set_phase v (Publishing status) s1"
      "s1 = s \<or> s1 = note_error e s \<or>
        (\<exists>m. s1 = snd (start m None (Some v) u build raises s) \<or>
             s1 = note_error e (snd (start m None (Some v) u build raises s)))"
      using settle_follow_cases lp_follow(1) by blast
    then show ?thesis by (auto simp: set_phase_def futures_start)
  next
    case (lp_goal v r status gout has_followup)
    obtain s1 new e g where "s' = set_phase v new s1"
      "s1 = s \<or> s1 = note_error e s \<or> s1 = s\<lparr>sn_goal := g\<rparr>"
      using settle_goal_cases lp_goal(1) by blast
    then show ?thesis by (auto simp: set_phase_def)
  next
    case lp_close
    then show ?thesis by (simp add: close_claim_def Let_def split: option.split prod.split)
  qed (simp_all add: schedule_settlement_def settle_persist_def settle_clear_def settle_publish_def
      set_phase_def end_task_def finish_close_def abort_close_def Let_def
      split: option.split close_state.split)
  with assms(2) show ?thesis by (simp add: handle_done_def)
qed

lemma done_run: "session_step\<^sup>*\<^sup>* s s' \<Longrightarrow> handle_done s t \<Longrightarrow> handle_done s' t"
  by (induction rule: rtranclp_induct) (auto elim!: session_step.cases intro: done_thread done_loop)

lemma run_thread: "thread_step s s' \<Longrightarrow> session_step\<^sup>*\<^sup>* s s'"
  by (blast intro: by_thread)

lemma run_loop: "loop_step s s' \<Longrightarrow> session_step\<^sup>*\<^sup>* s s'"
  by (blast intro: by_loop)

lemmas session_runs =
  run_thread [OF th_reserve_or_raise] run_thread [OF th_release] run_thread [OF th_mark_queued]
  run_thread [OF th_clear_queued] run_thread [OF th_mark_starting] run_thread [OF th_rebind]
  run_loop [OF lp_schedule] run_loop [OF lp_close] run_loop [OF lp_start]

lemma run_give_up: "session_step\<^sup>*\<^sup>* s s1 \<Longrightarrow> session_step\<^sup>*\<^sup>* s (clear_queued (snd (release_turn r s1)))"
  by (meson rtranclp_trans session_runs(2,4))

text \<open>The numbers a manager holds are those of runtimes it has built.\<close>

fun closing_session :: "finish_phase \<Rightarrow> nat" where
  "closing_session (AwaitOwner j _) = j"
| "closing_session (AwaitSession j _) = j"
| "closing_session (AwaitRelease j _) = j"

definition known :: "manager \<Rightarrow> bool" where
  "known m \<longleftrightarrow>
     snd ` set (mg_sessions m) \<subseteq> set (mg_created m) \<and>
     (closing_session \<circ> snd) ` set (mg_closing m) \<subseteq> set (mg_created m) \<and>
     qo_session ` set (mg_submits m) \<subseteq> set (mg_created m) \<and>
     rt_session ` set (mg_releases m) \<subseteq> set (mg_created m)"

definition advances :: "manager \<Rightarrow> manager \<Rightarrow> bool" where
  "advances m m' \<longleftrightarrow> set (mg_created m) \<subseteq> set (mg_created m') \<and>
     (\<forall>j \<in> set (mg_created m). session_step\<^sup>*\<^sup>* (mg_objects m j) (mg_objects m' j)) \<and>
     (\<forall>j \<in> set (mg_created m') - set (mg_created m). is_new_session (mg_objects m' j))"

lemma advances_same:
  "mg_created m' = mg_created m \<Longrightarrow> mg_objects m' = mg_objects m \<Longrightarrow> advances m m'"
  by (simp add: advances_def)

lemma advances_with:
  assumes "session_step\<^sup>*\<^sup>* (mg_objects m j) s" "mg_created m' = mg_created m"
    "mg_objects m' = (mg_objects m)(j := s)"
  shows "advances m m'"
  using assms by (simp add: advances_def)

lemma advances_new:
  assumes "is_new_session s" "i \<notin> set (mg_created m)" "mg_created m' = i # mg_created m"
    "mg_objects m' = (mg_objects m)(i := s)"
  shows "advances m m'"
  using assms by (auto simp: advances_def)

section \<open>Permits and locks\<close>

definition granted :: "manager \<Rightarrow> queued_owner list" where
  "granted m = filter (\<lambda>q. qo_acquire q = Acquired) (mg_submits m)"

definition holders :: "manager \<Rightarrow> nat list" where
  "holders m = map qo_lock (mg_submits m) @ map rt_lock (mg_releases m)"

definition tasks :: "manager \<Rightarrow> nat list" where
  "tasks m = map qo_id (mg_submits m) @ map rt_id (mg_releases m)"

definition permits_inv :: "manager \<Rightarrow> bool" where
  "permits_inv m \<longleftrightarrow>
     mg_free m + length (granted m) + length (mg_releases m) + mg_leaked m = mg_max m \<and>
     distinct (holders m) \<and> set (holders m) = mg_locked m \<and>
     distinct (tasks m) \<and> set (tasks m) \<subseteq> set (mg_ids m)"

definition turns_held :: "manager \<Rightarrow> bool" where
  "turns_held m \<longleftrightarrow> (\<forall>(j, t) \<in> set (mg_turns m). j \<in> set (mg_created m) \<and>
     (handle_done (mg_objects m j) t \<or> (j, t) \<in> (\<lambda>r. (rt_session r, rt_turn r)) ` set (mg_releases m)))"

definition objects_reach :: "manager \<Rightarrow> bool" where
  "objects_reach m \<longleftrightarrow> (\<forall>j \<in> set (mg_created m). session_reach (mg_objects m j))"

definition manager_inv :: "manager \<Rightarrow> bool" where
  "manager_inv m \<longleftrightarrow> known m \<and> permits_inv m \<and> turns_held m \<and> objects_reach m"

lemma advances_reach: "objects_reach m \<Longrightarrow> advances m m' \<Longrightarrow> objects_reach m'"
  unfolding objects_reach_def advances_def by (blast intro: reach_init reach_rtranclp)

lemma advances_turns:
  assumes "turns_held m" "advances m m'" "mg_turns m' = mg_turns m"
    "\<And>r. r \<in> set (mg_releases m) \<Longrightarrow> r \<notin> set (mg_releases m') \<Longrightarrow>
       rt_session r \<in> set (mg_created m) \<Longrightarrow> handle_done (mg_objects m (rt_session r)) (rt_turn r)"
  shows "turns_held m'"
  unfolding turns_held_def
proof clarify
  fix j t assume "(j, t) \<in> set (mg_turns m')"
  then have jt: "j \<in> set (mg_created m)" "handle_done (mg_objects m j) t \<or>
      (j, t) \<in> (\<lambda>r. (rt_session r, rt_turn r)) ` set (mg_releases m)"
    using assms(1,3) by (auto simp: turns_held_def)
  have run: "session_step\<^sup>*\<^sup>* (mg_objects m j) (mg_objects m' j)" "j \<in> set (mg_created m')"
    using assms(2) jt(1) by (auto simp: advances_def)
  from jt(2) have "handle_done (mg_objects m j) t \<or>
      (j, t) \<in> (\<lambda>r. (rt_session r, rt_turn r)) ` set (mg_releases m')"
    using assms(4) jt(1) by force
  then show "j \<in> set (mg_created m') \<and> (handle_done (mg_objects m' j) t \<or>
      (j, t) \<in> (\<lambda>r. (rt_session r, rt_turn r)) ` set (mg_releases m'))"
    using run done_run by blast
qed

text \<open>Pieces that move no permit and no lock.\<close>

definition same_books :: "manager \<Rightarrow> manager \<Rightarrow> bool" where
  "same_books m m' \<longleftrightarrow> mg_free m' = mg_free m \<and> mg_submits m' = mg_submits m \<and>
     mg_releases m' = mg_releases m \<and> mg_locked m' = mg_locked m \<and> mg_leaked m' = mg_leaked m \<and>
     mg_max m' = mg_max m \<and> mg_ids m' = mg_ids m \<and> mg_turns m' = mg_turns m"

lemma same_booksD:
  assumes "same_books m m'"
  shows "mg_free m' = mg_free m" "mg_submits m' = mg_submits m" "mg_releases m' = mg_releases m"
    "mg_locked m' = mg_locked m" "mg_leaked m' = mg_leaked m" "mg_max m' = mg_max m"
    "mg_ids m' = mg_ids m" "mg_turns m' = mg_turns m"
  using assms by (simp_all add: same_books_def)

lemma manager_inv_quiet:
  assumes "manager_inv m" "advances m m'" "same_books m m'" "known m'"
  shows "manager_inv m'"
proof -
  note same = same_booksD [OF assms(3)]
  have "permits_inv m" "turns_held m" "objects_reach m" using assms(1) by (simp_all add: manager_inv_def)
  moreover have "permits_inv m' = permits_inv m"
    unfolding permits_inv_def granted_def holders_def tasks_def same ..
  moreover have "turns_held m'"
    by (rule advances_turns [OF \<open>turns_held m\<close> assms(2) same(8)]) (simp add: same(3))
  ultimately show ?thesis
    using assms(2,4) advances_reach by (simp add: manager_inv_def)
qed

lemma filter_key:
  assumes "distinct (map f xs)" "x \<in> set xs"
  shows "\<exists>as bs. xs = as @ x # bs \<and> filter (\<lambda>y. f y \<noteq> f x) xs = as @ bs \<and>
    (\<forall>g. map (\<lambda>y. if f y = f x then g y else y) xs = as @ g x # bs)"
proof -
  obtain as bs where xs: "xs = as @ x # bs" using split_list [OF assms(2)] by blast
  have other: "f y \<noteq> f x" if "y \<in> set as \<or> y \<in> set bs" for y
  proof
    assume "f y = f x"
    then have "f x \<in> f ` set as \<or> f x \<in> f ` set bs" using that by (metis imageI)
    with assms(1) show False unfolding xs by simp
  qed
  then have "filter (\<lambda>y. f y \<noteq> f x) as = as" "filter (\<lambda>y. f y \<noteq> f x) bs = bs"
    by (simp_all add: filter_True)
  moreover have "map (\<lambda>y. if f y = f x then g y else y) as = as"
    "map (\<lambda>y. if f y = f x then g y else y) bs = bs" for g
    using other by (simp_all add: map_idI)
  ultimately show ?thesis by (intro exI [of _ as] exI [of _ bs]) (simp add: xs)
qed

lemma permits_invD:
  assumes "permits_inv m"
  shows permits_sum: "mg_free m + length (granted m) + length (mg_releases m) + mg_leaked m = mg_max m"
    and permits_locks: "distinct (holders m)" "set (holders m) = mg_locked m"
    and permits_ids: "distinct (tasks m)" "set (tasks m) \<subseteq> set (mg_ids m)"
  using assms by (simp_all add: permits_inv_def)

lemma permits_invI:
  assumes "mg_free m + length (granted m) + length (mg_releases m) + mg_leaked m = mg_max m"
    "distinct (holders m)" "set (holders m) = mg_locked m" "distinct (tasks m)"
    "set (tasks m) \<subseteq> set (mg_ids m)"
  shows "permits_inv m"
  using assms by (simp add: permits_inv_def)

lemma permits_drop:
  assumes inv: "permits_inv m" and q: "q \<in> set (mg_submits m)"
    and m': "mg_submits m' = filter (\<lambda>p. qo_id p \<noteq> qo_id q) (mg_submits m)"
      "mg_locked m' = mg_locked m - {qo_lock q}" "mg_releases m' = mg_releases m"
      "mg_max m' = mg_max m" "mg_ids m' = mg_ids m"
    and sum: "mg_free m' + mg_leaked m' =
      mg_free m + mg_leaked m + (if qo_acquire q = Acquired then 1 else 0)"
  shows "permits_inv m'"
proof -
  have "distinct (map qo_id (mg_submits m))" using permits_ids(1) [OF inv] by (simp add: tasks_def)
  then obtain as bs where ab: "mg_submits m = as @ q # bs"
    "filter (\<lambda>p. qo_id p \<noteq> qo_id q) (mg_submits m) = as @ bs"
    using filter_key [OF _ q, of qo_id] by blast
  have h: "holders m = map qo_lock as @ qo_lock q # map qo_lock bs @ map rt_lock (mg_releases m)"
    "holders m' = map qo_lock as @ map qo_lock bs @ map rt_lock (mg_releases m)"
    by (simp_all add: holders_def m' ab(2)) (simp add: ab(1))
  have k: "tasks m = map qo_id as @ qo_id q # map qo_id bs @ map rt_id (mg_releases m)"
    "tasks m' = map qo_id as @ map qo_id bs @ map rt_id (mg_releases m)"
    by (simp_all add: tasks_def m' ab(2)) (simp add: ab(1))
  have len: "length (granted m) = length (granted m') + (if qo_acquire q = Acquired then 1 else 0)"
    by (simp add: granted_def m' ab(2)) (simp add: ab(1))
  show ?thesis
  proof (rule permits_invI)
    show "mg_free m' + length (granted m') + length (mg_releases m') + mg_leaked m' = mg_max m'"
      using permits_sum [OF inv] sum len by (simp add: m')
    show "distinct (holders m')" using permits_locks(1) [OF inv] unfolding h by simp
    show "set (holders m') = mg_locked m'"
      using permits_locks [OF inv] unfolding h m'(2) by auto
    show "distinct (tasks m')" using permits_ids(1) [OF inv] unfolding k by simp
    show "set (tasks m') \<subseteq> set (mg_ids m')" using permits_ids(2) [OF inv] unfolding k m'(5) by simp
  qed
qed

lemma permits_release:
  assumes inv: "permits_inv m" and r: "r \<in> set (mg_releases m)"
  shows "permits_inv (release_turn_permit r m)" (is "permits_inv ?m")
proof -
  have "distinct (map rt_id (mg_releases m))" using permits_ids(1) [OF inv] by (simp add: tasks_def)
  then obtain as bs where ab: "mg_releases m = as @ r # bs"
    "filter (\<lambda>p. rt_id p \<noteq> rt_id r) (mg_releases m) = as @ bs"
    using filter_key [OF _ r, of rt_id] by blast
  have m': "mg_releases ?m = as @ bs" "mg_submits ?m = mg_submits m" "mg_free ?m = Suc (mg_free m)"
    "mg_locked ?m = mg_locked m - {rt_lock r}" "mg_leaked ?m = mg_leaked m" "mg_max ?m = mg_max m"
    "mg_ids ?m = mg_ids m"
    by (simp_all add: release_turn_permit_def ab(2))
  have h: "holders m = map qo_lock (mg_submits m) @ map rt_lock as @ rt_lock r # map rt_lock bs"
    "holders ?m = map qo_lock (mg_submits m) @ map rt_lock as @ map rt_lock bs"
    by (simp_all add: holders_def m') (simp add: ab(1))
  have k: "tasks m = map qo_id (mg_submits m) @ map rt_id as @ rt_id r # map rt_id bs"
    "tasks ?m = map qo_id (mg_submits m) @ map rt_id as @ map rt_id bs"
    by (simp_all add: tasks_def m') (simp add: ab(1))
  show ?thesis
  proof (rule permits_invI)
    have "granted ?m = granted m" by (simp add: granted_def m')
    then show "mg_free ?m + length (granted ?m) + length (mg_releases ?m) + mg_leaked ?m = mg_max ?m"
      using permits_sum [OF inv] unfolding m' by (simp add: ab(1))
    show "distinct (holders ?m)" using permits_locks(1) [OF inv] unfolding h by simp
    show "set (holders ?m) = mg_locked ?m" using permits_locks [OF inv] unfolding h m'(4) by auto
    show "distinct (tasks ?m)" using permits_ids(1) [OF inv] unfolding k by simp
    show "set (tasks ?m) \<subseteq> set (mg_ids ?m)" using permits_ids(2) [OF inv] unfolding k m'(7) by simp
  qed
qed

lemma permits_grant:
  assumes inv: "permits_inv m"
  shows "permits_inv (grant_permit m)"
proof (cases "first_waiting m = None \<or> mg_free m = 0")
  case True
  with inv show ?thesis by (auto simp: grant_permit_def split: option.split)
next
  case False
  then obtain q where q: "first_waiting m = Some q" and free: "0 < mg_free m" by auto
  then have mem: "q \<in> set (mg_submits m)" "qo_acquire q = Acquiring"
    by (auto simp: first_waiting_def find_Some_iff)
  have d: "distinct (map qo_id (mg_submits m))" using permits_ids(1) [OF inv] by (simp add: tasks_def)
  obtain as bs where ab: "mg_submits m = as @ q # bs"
    "\<forall>g. map (\<lambda>p. if qo_id p = qo_id q then g p else p) (mg_submits m) = as @ g q # bs"
    using filter_key [OF d mem(1)] by (elim exE conjE) (rule that)
  let ?q = "q\<lparr>qo_acquire := Acquired, qo_released := qo_released q \<or> False\<rparr>"
  have m': "grant_permit m = m\<lparr>mg_free := mg_free m - 1, mg_submits := as @ ?q # bs\<rparr>"
    using q free ab(2) by (simp add: grant_permit_def set_acquire_def)
  have "granted (grant_permit m) = filter (\<lambda>q. qo_acquire q = Acquired) as @ ?q #
      filter (\<lambda>q. qo_acquire q = Acquired) bs"
    "granted m = filter (\<lambda>q. qo_acquire q = Acquired) as @ filter (\<lambda>q. qo_acquire q = Acquired) bs"
    by (simp_all add: granted_def m' ab(1) mem(2))
  moreover have "holders (grant_permit m) = holders m" "tasks (grant_permit m) = tasks m"
    by (simp_all add: holders_def tasks_def m' ab(1))
  ultimately show ?thesis
    using permits_invD [OF inv] free by (intro permits_invI) (simp_all add: m')
qed

lemma permits_views:
  assumes "permits_inv m" "mg_submits m' = map f (mg_submits m)"
    "\<And>q. qo_id (f q) = qo_id q \<and> qo_lock (f q) = qo_lock q"
    "\<And>q. q \<in> set (mg_submits m) \<Longrightarrow> qo_acquire (f q) = Acquired \<longleftrightarrow> qo_acquire q = Acquired"
    "mg_locked m' = mg_locked m" "mg_releases m' = mg_releases m" "mg_max m' = mg_max m"
    "mg_ids m' = mg_ids m" "mg_free m' = mg_free m" "mg_leaked m' = mg_leaked m"
  shows "permits_inv m'"
proof -
  have "length (granted m') = length (granted m)"
    using assms(4) by (simp add: granted_def assms(2) filter_map comp_def cong: filter_cong)
  moreover have "holders m' = holders m" "tasks m' = tasks m"
    using assms(3) by (simp_all add: holders_def tasks_def assms(2,6))
  ultimately show ?thesis using assms(1,5-10) by (simp add: permits_inv_def)
qed

section \<open>Every piece keeps the invariant\<close>

lemma dict_set_values: "snd ` set (dict_set k v d) \<subseteq> insert v (snd ` set d)"
  by (induction d) auto

lemma dict_set_image: "g ` snd ` set (dict_set k v d) \<subseteq> insert (g v) (g ` snd ` set d)"
  using image_mono [OF dict_set_values [of k v d], of g] by simp

lemma dict_pop_values: "snd ` set (dict_pop k d) \<subseteq> snd ` set d"
  by (auto simp: AList.delete_eq)

lemma map_of_value: "map_of d k = Some v \<Longrightarrow> v \<in> snd ` set d"
  by (force dest: map_of_SomeD)

lemma knownD:
  assumes "known m"
  shows known_sessions: "snd ` set (mg_sessions m) \<subseteq> set (mg_created m)"
    and known_closing: "closing_session ` snd ` set (mg_closing m) \<subseteq> set (mg_created m)"
    and known_submits: "qo_session ` set (mg_submits m) \<subseteq> set (mg_created m)"
    and known_releases: "rt_session ` set (mg_releases m) \<subseteq> set (mg_created m)"
  using assms by (simp_all add: known_def image_comp)

lemma known_session: "known m \<Longrightarrow> map_of (mg_sessions m) k = Some j \<Longrightarrow> j \<in> set (mg_created m)"
  using known_sessions map_of_value by fastforce

lemma known_close: "known m \<Longrightarrow> map_of (mg_closing m) k = Some ph \<Longrightarrow> closing_session ph \<in> set (mg_created m)"
  using known_closing map_of_value by fastforce

lemma subset_within: "A \<subseteq> B \<union> D \<Longrightarrow> B \<subseteq> C \<Longrightarrow> C \<subseteq> D \<Longrightarrow> A \<subseteq> D"
  by blast

lemma subset_insert_within: "A \<subseteq> insert v B \<Longrightarrow> v \<in> C \<Longrightarrow> A \<subseteq> B \<union> C"
  by blast

lemma knownI:
  assumes "known m" "set (mg_created m) \<subseteq> set (mg_created m')"
    "snd ` set (mg_sessions m') \<subseteq> snd ` set (mg_sessions m) \<union> set (mg_created m')"
    "closing_session ` snd ` set (mg_closing m') \<subseteq> closing_session ` snd ` set (mg_closing m) \<union> set (mg_created m')"
    "qo_session ` set (mg_submits m') \<subseteq> qo_session ` set (mg_submits m) \<union> set (mg_created m')"
    "rt_session ` set (mg_releases m') \<subseteq> rt_session ` set (mg_releases m) \<union> set (mg_created m')"
  shows "known m'"
  unfolding known_def image_comp [symmetric]
  by (intro conjI;
      rule subset_within [OF assms(3) known_sessions [OF assms(1)] assms(2)]
        subset_within [OF assms(4) known_closing [OF assms(1)] assms(2)]
        subset_within [OF assms(5) known_submits [OF assms(1)] assms(2)]
        subset_within [OF assms(6) known_releases [OF assms(1)] assms(2)])

lemma manager_invD:
  assumes "manager_inv m"
  shows inv_known: "known m" and inv_permits: "permits_inv m" and inv_turns: "turns_held m"
    and inv_objects: "objects_reach m"
  using assms by (simp_all add: manager_inv_def)

text \<open>Pieces that act on one runtime, or on none, and on the dictionaries of sessions.\<close>

lemma quiet_with:
  assumes "manager_inv m" "session_step\<^sup>*\<^sup>* (mg_objects m j) s" "same_books m m'"
    "mg_created m' = mg_created m" "mg_objects m' = (mg_objects m)(j := s)"
    "snd ` set (mg_sessions m') \<subseteq> snd ` set (mg_sessions m) \<union> set (mg_created m)"
    "closing_session ` snd ` set (mg_closing m') \<subseteq>
       closing_session ` snd ` set (mg_closing m) \<union> set (mg_created m)"
  shows "manager_inv m'"
  using assms(1) advances_with [OF assms(2,4,5)] assms(3)
proof (rule manager_inv_quiet)
  show "known m'"
    by (rule knownI [OF inv_known [OF assms(1)]])
       (simp_all add: assms(4) same_booksD [OF assms(3)] assms(6,7))
qed

lemma quiet_same:
  assumes "manager_inv m" "same_books m m'" "mg_created m' = mg_created m" "mg_objects m' = mg_objects m"
    "snd ` set (mg_sessions m') \<subseteq> snd ` set (mg_sessions m) \<union> set (mg_created m)"
    "closing_session ` snd ` set (mg_closing m') \<subseteq>
       closing_session ` snd ` set (mg_closing m) \<union> set (mg_created m)"
  shows "manager_inv m'"
  by (rule quiet_with [OF assms(1) rtranclp.rtrancl_refl assms(2,3) _ assms(5,6), where j = 0]) (simp add: assms(4))

lemma quiet_new:
  assumes "manager_inv m" "is_new_session s" "i \<notin> set (mg_created m)" "same_books m m'"
    "mg_created m' = i # mg_created m" "mg_objects m' = (mg_objects m)(i := s)"
    "snd ` set (mg_sessions m') \<subseteq> insert i (snd ` set (mg_sessions m))" "mg_closing m' = mg_closing m"
  shows "manager_inv m'"
  using assms(1) advances_new [OF assms(2,3,5,6)] assms(4)
proof (rule manager_inv_quiet)
  show "known m'"
    using assms(7) by (intro knownI [OF inv_known [OF assms(1)]])
       (auto simp: assms(5,8) same_booksD [OF assms(4)])
qed

lemmas book_defs = same_books_def with_session_def

lemma inv_session:
  assumes "manager_inv m" "session_step\<^sup>*\<^sup>* (mg_objects m j) s"
  shows "manager_inv (with_session j s m)"
  by (rule quiet_with [OF assms]) (simp_all add: book_defs)

lemma inv_ensure_lock:
  assumes "manager_inv m"
  shows "manager_inv (ensure_submit_lock thread_id l m)" "manager_inv (snd (open_enter thread_id l m))"
proof -
  have "manager_inv (m\<lparr>mg_submit_locks := x, mg_lock_ids := y\<rparr>)" for x y
    by (intro quiet_same [OF assms]) (simp_all add: same_books_def)
  with assms show "manager_inv (ensure_submit_lock thread_id l m)" "manager_inv (snd (open_enter thread_id l m))"
    by (simp_all add: open_enter_def ensure_submit_lock_def)
qed

lemma inv_open_finish:
  assumes "manager_inv m" "i \<notin> set (mg_created m)" "is_new_session s"
  shows "manager_inv (snd (open_finish thread_id i s m))"
proof (cases "snd (open_finish thread_id i s m) = m")
  case False
  then have "snd (open_finish thread_id i s m) = with_session i s
      (m\<lparr>mg_sessions := dict_set thread_id i (mg_sessions m), mg_created := i # mg_created m\<rparr>)"
    by (auto simp: open_finish_def split: if_splits option.splits)
  then show ?thesis
    using dict_set_values by (intro quiet_new [OF assms(1,3,2)]) (simp_all add: book_defs)
qed (use assms(1) in simp)

lemma inv_register:
  assumes "manager_inv m" "i \<in> set (mg_created m)"
  shows "manager_inv (snd (register_session i m))"
proof (cases "snd (register_session i m) = m")
  case False
  then have "snd (register_session i m) =
      m\<lparr>mg_sessions := dict_set (sn_thread_id (mg_objects m i)) i (mg_sessions m)\<rparr>"
    by (auto simp: register_session_def Let_def split: if_splits option.splits)
  then show ?thesis
    using subset_insert_within [OF dict_set_values assms(2)]
    by (intro quiet_same [OF assms(1)]) (simp_all add: same_books_def)
qed (use assms(1) in simp)

lemma inv_rebind:
  assumes "manager_inv m" "i \<notin> set (mg_created m)" "is_new_session s"
  shows "manager_inv (snd (rebind_session_ref thread_id i s binding persist_fails m))"
proof (cases "mg_closed m \<or> map_of (mg_closing m) thread_id \<noteq> None")
  case True
  with assms(1) show ?thesis by (auto simp: rebind_session_ref_def)
next
  case False
  obtain j m1 where jm: "(case map_of (mg_sessions m) thread_id of
      Some j \<Rightarrow> (j, m)
    | None \<Rightarrow> (i, with_session i s
        (m\<lparr>mg_sessions := dict_set thread_id i (mg_sessions m), mg_created := i # mg_created m\<rparr>))) = (j, m1)"
    by fastforce
  have m1: "manager_inv m1"
  proof (cases "map_of (mg_sessions m) thread_id")
    case None
    with jm have "m1 = with_session i s
        (m\<lparr>mg_sessions := dict_set thread_id i (mg_sessions m), mg_created := i # mg_created m\<rparr>)" by auto
    then show ?thesis
      using dict_set_values by (intro quiet_new [OF assms(1,3,2)]) (simp_all add: book_defs)
  qed (use assms(1) jm in simp)
  let ?r = "rebind binding (mg_objects m1 j)"
  have run: "session_step\<^sup>*\<^sup>* (mg_objects m1 j) (snd ?r)"
    "session_step\<^sup>*\<^sup>* (mg_objects m1 j) (snd (rebind b (snd ?r)))" for b
    by (meson session_runs(6) rtranclp_trans)+
  have "snd (rebind_session_ref thread_id i s binding persist_fails m) \<in>
      {with_session j (snd ?r) m1, with_session j (snd (rebind (sn_binding (mg_objects m1 j)) (snd ?r))) m1}"
    using False jm by (auto simp: rebind_session_ref_def Let_def split: prod.splits sum.splits)
  then show ?thesis using inv_session [OF m1 run(1)] inv_session [OF m1 run(2)] by auto
qed

text \<open>The pieces of a submit.\<close>

lemma inv_drop:
  assumes inv: "manager_inv m" and q: "q \<in> set (mg_submits m)"
    and run: "session_step\<^sup>*\<^sup>* (mg_objects m (qo_session q)) s"
    and sum: "free + leaked = mg_free m + mg_leaked m + (if qo_acquire q = Acquired then 1 else 0)"
  shows "manager_inv (drop_submit q (with_session (qo_session q) s
    (m\<lparr>mg_free := free, mg_locked := mg_locked m - {qo_lock q}, mg_leaked := leaked\<rparr>)))"
    (is "manager_inv ?m")
proof -
  have f: "mg_submits ?m = filter (\<lambda>p. qo_id p \<noteq> qo_id q) (mg_submits m)"
    "mg_locked ?m = mg_locked m - {qo_lock q}" "mg_releases ?m = mg_releases m" "mg_max ?m = mg_max m"
    "mg_ids ?m = mg_ids m" "mg_free ?m = free" "mg_leaked ?m = leaked" "mg_created ?m = mg_created m"
    "mg_objects ?m = (mg_objects m)(qo_session q := s)" "mg_turns ?m = mg_turns m"
    "mg_sessions ?m = mg_sessions m" "mg_closing ?m = mg_closing m"
    by (simp_all add: drop_submit_def with_session_def)
  have adv: "advances m ?m" by (rule advances_with [OF run f(8,9)])
  have "permits_inv ?m"
    by (rule permits_drop [OF inv_permits [OF inv] q f(1-5)]) (simp add: f(6,7) sum)
  moreover have "turns_held ?m"
    by (rule advances_turns [OF inv_turns [OF inv] adv f(10)]) (simp add: f(3))
  moreover have "known ?m"
    by (rule knownI [OF inv_known [OF inv]]) (auto simp: f)
  ultimately show ?thesis
    using advances_reach [OF inv_objects [OF inv] adv] by (simp add: manager_inv_def)
qed

lemma inv_fail:
  assumes inv: "manager_inv m" and q: "q \<in> set (mg_submits m)" "permit \<longleftrightarrow> qo_acquire q = Acquired"
  shows "manager_inv (fail_submit q permit m)"
proof -
  have "fail_submit q permit m = drop_submit q (with_session (qo_session q)
      (clear_queued (snd (release_turn (qo_reservation q) (mg_objects m (qo_session q)))))
      (m\<lparr>mg_free := mg_free m + (if permit then 1 else 0), mg_locked := mg_locked m - {qo_lock q},
         mg_leaked := mg_leaked m\<rparr>))"
    by (simp add: fail_submit_def)
  then show ?thesis
    by (simp only:) (rule inv_drop [OF inv q(1) run_give_up [OF rtranclp.rtrancl_refl]], simp add: q(2))
qed

lemma inv_cancelled:
  assumes inv: "manager_inv m" and q: "q \<in> set (mg_submits m)"
  shows "manager_inv (submit_cancelled q m)"
proof (cases "qo_acquire q = Acquired")
  case True
  then have "submit_cancelled q m = drop_submit q (with_session (qo_session q)
      (clear_queued (snd (release_turn (qo_reservation q) (mg_objects m (qo_session q)))))
      (m\<lparr>mg_free := mg_free m, mg_locked := mg_locked m - {qo_lock q}, mg_leaked := Suc (mg_leaked m)\<rparr>))"
    by (simp add: submit_cancelled_def fail_submit_def drop_submit_def with_session_def)
  then show ?thesis
    by (simp only:) (rule inv_drop [OF inv q run_give_up [OF rtranclp.rtrancl_refl]], simp add: True)
next
  case False
  then show ?thesis using inv_fail [OF inv q, of False] by (simp add: submit_cancelled_def)
qed

lemma inv_started:
  assumes inv: "manager_inv m" and q: "q \<in> set (mg_submits m)" "qo_acquire q = Acquired"
    and run: "session_step\<^sup>*\<^sup>* (mg_objects m (qo_session q)) s"
  shows "manager_inv (drop_submit q (with_session (qo_session q) s
    (m\<lparr>mg_releases := mg_releases m @
         [\<lparr>rt_id = qo_id q, rt_thread = qo_thread q, rt_session = qo_session q, rt_turn = t,
           rt_lock = qo_lock q\<rparr>],
       mg_release_by_thread := dict_set (qo_thread q) (qo_id q) (mg_release_by_thread m),
       mg_turns := (qo_session q, t) # mg_turns m\<rparr>)))" (is "manager_inv ?m")
proof -
  let ?r = "\<lparr>rt_id = qo_id q, rt_thread = qo_thread q, rt_session = qo_session q, rt_turn = t,
    rt_lock = qo_lock q\<rparr>"
  have d: "distinct (map qo_id (mg_submits m))"
    using permits_ids(1) [OF inv_permits [OF inv]] by (simp add: tasks_def)
  obtain as bs where ab: "mg_submits m = as @ q # bs"
    "filter (\<lambda>p. qo_id p \<noteq> qo_id q) (mg_submits m) = as @ bs"
    using filter_key [OF d q(1)] by blast
  have f: "mg_submits ?m = as @ bs" "mg_locked ?m = mg_locked m" "mg_releases ?m = mg_releases m @ [?r]"
    "mg_max ?m = mg_max m" "mg_ids ?m = mg_ids m" "mg_free ?m = mg_free m" "mg_leaked ?m = mg_leaked m"
    "mg_created ?m = mg_created m" "mg_objects ?m = (mg_objects m)(qo_session q := s)"
    "mg_turns ?m = (qo_session q, t) # mg_turns m"
    "mg_sessions ?m = mg_sessions m" "mg_closing ?m = mg_closing m"
    by (simp_all add: drop_submit_def with_session_def ab(2))
  have j: "qo_session q \<in> set (mg_created m)"
    using known_submits [OF inv_known [OF inv]] q(1) by blast
  have adv: "advances m ?m" by (rule advances_with [OF run f(8,9)])
  have h: "holders m = map qo_lock as @ qo_lock q # map qo_lock bs @ map rt_lock (mg_releases m)"
    "holders ?m = map qo_lock as @ map qo_lock bs @ map rt_lock (mg_releases m) @ [qo_lock q]"
    by (simp_all add: holders_def f) (simp add: ab(1))
  have k: "tasks m = map qo_id as @ qo_id q # map qo_id bs @ map rt_id (mg_releases m)"
    "tasks ?m = map qo_id as @ map qo_id bs @ map rt_id (mg_releases m) @ [qo_id q]"
    by (simp_all add: tasks_def f) (simp add: ab(1))
  have "length (granted m) = Suc (length (granted ?m))"
    by (simp add: granted_def f(1)) (simp add: ab(1) q(2))
  then have "permits_inv ?m"
    using permits_invD [OF inv_permits [OF inv]]
    by (intro permits_invI; unfold h k) (simp_all add: f)
  moreover have "turns_held ?m"
  proof -
    have "turns_held (?m\<lparr>mg_turns := mg_turns m\<rparr>)"
      by (rule advances_turns [OF inv_turns [OF inv]])
         (use adv in \<open>simp_all add: f advances_def\<close>)
    then show ?thesis using j by (auto simp: turns_held_def f)
  qed
  moreover have "known ?m"
    by (rule knownI [OF inv_known [OF inv]]) (use j in \<open>auto simp: f ab(1)\<close>)
  ultimately show ?thesis
    using advances_reach [OF inv_objects [OF inv] adv] by (simp add: manager_inv_def)
qed

lemma inv_resume:
  assumes inv: "manager_inv m" and q: "q \<in> set (mg_submits m)" "qo_acquire q = Acquired"
    and idle: "sw_starting (mg_objects m (qo_session q)) = None"
    and fresh: "t \<notin> set (sw_started (mg_objects m (qo_session q)))"
  shows "manager_inv (snd (submit_resume q t build raises m))"
proof (cases "mg_closed m \<or> map_of (mg_closing m) (qo_thread q) \<noteq> None")
  case True
  then show ?thesis using inv_fail [OF inv q(1), of True] q(2) by (auto simp: submit_resume_def)
next
  case False
  let ?s = "mg_objects m (qo_session q)"
  obtain e s1 where ms: "mark_starting ?s = (e, s1)" by (cases "mark_starting ?s")
  have run1: "session_step\<^sup>*\<^sup>* ?s s1" using session_runs(5) [of ?s] ms by simp
  have s1: "sw_starting s1 = None" "sw_started s1 = sw_started ?s"
    using ms idle by (auto simp: mark_starting_def split: if_splits)
  obtain a s2 where st: "start (qo_message q) (Some (qo_reservation q)) None t build raises s1 = (a, s2)"
    by (cases "start (qo_message q) (Some (qo_reservation q)) None t build raises s1")
  have run2: "session_step\<^sup>*\<^sup>* ?s s2"
    using run1 session_runs(9) [of s1 t "qo_message q" "Some (qo_reservation q)" build raises] s1 fresh st
    by (simp add: rtranclp_trans)
  have failed: "manager_inv (fail_submit q True (with_session (qo_session q) s m))"
    if "session_step\<^sup>*\<^sup>* ?s s" for s
    using inv_session [OF inv that] q by (intro inv_fail) (simp_all add: with_session_def)
  show ?thesis
  proof (cases e)
    case (Inl x)
    then show ?thesis using False ms failed [OF run1] by (simp add: submit_resume_def)
  next
    case e: (Inr x)
    show ?thesis
    proof (cases a)
      case (Inl y)
      then show ?thesis using False ms st e failed [OF run2] by (simp add: submit_resume_def)
    next
      case (Inr c)
      have "session_step\<^sup>*\<^sup>* ?s (schedule_settlement s2)"
        using run2 session_runs(7) [of s2] by (rule rtranclp_trans)
      then show ?thesis
        using False ms st e Inr inv_started [OF inv q] by (simp add: submit_resume_def)
    qed
  qed
qed

lemma inv_release:
  assumes inv: "manager_inv m" and r: "r \<in> set (mg_releases m)"
    and over: "wait_over (mg_objects m (rt_session r)) (rt_turn r)"
  shows "manager_inv (release_turn_permit r m)" (is "manager_inv ?m")
proof -
  have ended: "handle_done (mg_objects m (rt_session r)) (rt_turn r)"
    using over by (cases "sw_futures (mg_objects m (rt_session r)) (rt_turn r)")
      (auto simp: wait_over_def handle_done_def)
  have d: "distinct (map rt_id (mg_releases m))"
    using permits_ids(1) [OF inv_permits [OF inv]] by (simp add: tasks_def)
  have rel: "mg_releases ?m = filter (\<lambda>p. rt_id p \<noteq> rt_id r) (mg_releases m)"
    by (simp add: release_turn_permit_def)
  have only: "p = r" if "p \<in> set (mg_releases m)" "p \<notin> set (mg_releases ?m)" for p
    using that r d by (auto simp: rel distinct_map inj_on_def)
  have adv: "advances m ?m" by (rule advances_same) (simp_all add: release_turn_permit_def)
  have "turns_held ?m"
    by (rule advances_turns [OF inv_turns [OF inv] adv])
       (use only ended in \<open>auto simp: release_turn_permit_def\<close>)
  moreover have "known ?m"
    by (rule knownI [OF inv_known [OF inv]]) (auto simp: release_turn_permit_def)
  ultimately show ?thesis
    using permits_release [OF inv_permits [OF inv] r] advances_reach [OF inv_objects [OF inv] adv]
    by (simp add: manager_inv_def)
qed

lemma inv_submit_enter:
  assumes inv: "manager_inv m" and fresh: "i \<notin> set (mg_ids m)"
  shows "manager_inv (snd (submit_enter thread_id j message claim token i m))"
proof -
  let ?s = "mg_objects m j"
  obtain a s1 where res: "reserve_turn_or_raise (ut_approval_resume message) claim token ?s = (a, s1)"
    by (cases "reserve_turn_or_raise (ut_approval_resume message) claim token ?s")
  have run1: "session_step\<^sup>*\<^sup>* ?s s1"
    using session_runs(1) [of ?s "ut_approval_resume message" claim token] res by simp
  obtain b s2 where mq: "mark_queued s1 = (b, s2)" by (cases "mark_queued s1")
  have run2: "session_step\<^sup>*\<^sup>* ?s s2"
    using rtranclp_trans [OF run1 session_runs(3)] mq by (metis snd_conv)
  show ?thesis
  proof (cases "map_of (mg_sessions m) thread_id = Some j \<and>
      (\<exists>l. map_of (mg_submit_locks m) thread_id = Some l \<and> l \<notin> mg_locked m) \<and>
      \<not> mg_closed m \<and> map_of (mg_closing m) thread_id = None")
    case False
    then have "snd (submit_enter thread_id j message claim token i m) = m"
      by (auto simp: submit_enter_def Let_def split: option.split)
    then show ?thesis using inv by simp
  next
    case True
    then obtain l where l: "map_of (mg_submit_locks m) thread_id = Some l" "l \<notin> mg_locked m" by blast
    have j: "j \<in> set (mg_created m)" using True known_session [OF inv_known [OF inv]] by blast
    show ?thesis
    proof (cases a)
      case (Inl e)
      then show ?thesis using inv_session [OF inv run1] True l by (simp add: submit_enter_def Let_def res)
    next
      case a: (Inr r)
      show ?thesis
      proof (cases b)
        case (Inl e)
        then show ?thesis
          using inv_session [OF inv run_give_up [OF run2, of r]] True l a
          by (simp add: submit_enter_def Let_def res mq)
      next
        case (Inr u)
        let ?q = "\<lparr>qo_id = i, qo_thread = thread_id, qo_session = j, qo_reservation = r, qo_lock = l,
          qo_message = message, qo_released = False, qo_acquire = Acquiring\<rparr>"
        let ?m = "with_session j s2
          (m\<lparr>mg_locked := insert l (mg_locked m), mg_ids := i # mg_ids m,
             mg_submits := mg_submits m @ [?q], mg_queued_owners := dict_set thread_id i (mg_queued_owners m)\<rparr>)"
        have m': "snd (submit_enter thread_id j message claim token i m) = ?m"
          using True l a Inr by (simp add: submit_enter_def Let_def res mq)
        have adv: "advances m ?m" by (rule advances_with [OF run2]) (simp_all add: with_session_def)
        note p = permits_invD [OF inv_permits [OF inv]]
        have "permits_inv ?m"
        proof (rule permits_invI)
          have "granted ?m = granted m" by (simp add: granted_def with_session_def)
          then show "mg_free ?m + length (granted ?m) + length (mg_releases ?m) + mg_leaked ?m = mg_max ?m"
            using p(1) by (simp add: with_session_def)
          have h: "set (holders ?m) = insert l (set (holders m))" "distinct (holders ?m) \<longleftrightarrow>
              distinct (holders m) \<and> l \<notin> set (holders m)"
            by (auto simp: holders_def with_session_def)
          then show "distinct (holders ?m)" using p(2,3) l(2) by simp
          show "set (holders ?m) = mg_locked ?m" using h(1) p(3) by (simp add: with_session_def)
          have k: "set (tasks ?m) = insert i (set (tasks m))" "distinct (tasks ?m) \<longleftrightarrow>
              distinct (tasks m) \<and> i \<notin> set (tasks m)"
            by (auto simp: tasks_def with_session_def)
          then show "distinct (tasks ?m)" using p(4,5) fresh by blast
          show "set (tasks ?m) \<subseteq> set (mg_ids ?m)" using k(1) p(5) by (auto simp: with_session_def)
        qed
        moreover have "turns_held ?m"
          by (rule advances_turns [OF inv_turns [OF inv] adv]) (simp_all add: with_session_def)
        moreover have "known ?m"
          by (rule knownI [OF inv_known [OF inv]]) (use j in \<open>auto simp: with_session_def\<close>)
        ultimately show ?thesis
          using advances_reach [OF inv_objects [OF inv] adv] m' by (simp add: manager_inv_def)
      qed
    qed
  qed
qed

lemma inv_grant:
  assumes inv: "manager_inv m"
  shows "manager_inv (grant_permit m)"
proof -
  have f: "mg_created (grant_permit m) = mg_created m" "mg_objects (grant_permit m) = mg_objects m"
    "mg_turns (grant_permit m) = mg_turns m" "mg_releases (grant_permit m) = mg_releases m"
    "mg_sessions (grant_permit m) = mg_sessions m" "mg_closing (grant_permit m) = mg_closing m"
    by (simp_all add: grant_permit_def set_acquire_def split: option.split)
  have "map qo_session (mg_submits (grant_permit m)) = map qo_session (mg_submits m)"
    by (simp add: grant_permit_def set_acquire_def split: option.split)
  then have sub: "qo_session ` set (mg_submits (grant_permit m)) = qo_session ` set (mg_submits m)"
    by (metis list.set_map)
  have adv: "advances m (grant_permit m)" by (rule advances_same) (simp_all add: f)
  have "turns_held (grant_permit m)"
    by (rule advances_turns [OF inv_turns [OF inv] adv]) (simp_all add: f)
  moreover have "known (grant_permit m)"
    by (rule knownI [OF inv_known [OF inv]]) (simp_all add: f sub)
  ultimately show ?thesis
    using permits_grant [OF inv_permits [OF inv]] advances_reach [OF inv_objects [OF inv] adv]
    by (simp add: manager_inv_def)
qed

text \<open>Cancelling the acquires of queued submits, at a close and at the shutdown.\<close>

lemma inv_views:
  assumes inv: "manager_inv m" and "mg_submits m' = map f (mg_submits m)"
    and f: "\<And>q. qo_id (f q) = qo_id q \<and> qo_lock (f q) = qo_lock q \<and> qo_session (f q) = qo_session q \<and>
       (q \<in> set (mg_submits m) \<longrightarrow> (qo_acquire (f q) = Acquired \<longleftrightarrow> qo_acquire q = Acquired))"
    and same: "mg_locked m' = mg_locked m" "mg_releases m' = mg_releases m" "mg_max m' = mg_max m"
    "mg_ids m' = mg_ids m" "mg_free m' = mg_free m" "mg_leaked m' = mg_leaked m"
    "mg_created m' = mg_created m" "mg_objects m' = mg_objects m" "mg_turns m' = mg_turns m"
    "mg_sessions m' = mg_sessions m"
    and closing: "closing_session ` snd ` set (mg_closing m') \<subseteq>
       closing_session ` snd ` set (mg_closing m) \<union> set (mg_created m)"
  shows "manager_inv m'"
proof -
  have adv: "advances m m'" by (rule advances_same) (simp_all add: same)
  have "permits_inv m'"
    by (rule permits_views [OF inv_permits [OF inv] assms(2)]) (use f same in auto)
  moreover have "turns_held m'"
    by (rule advances_turns [OF inv_turns [OF inv] adv]) (simp_all add: same)
  moreover have "qo_session ` set (mg_submits m') = qo_session ` set (mg_submits m)"
    using f by (simp add: assms(2) image_image)
  then have "known m'"
    by (intro knownI [OF inv_known [OF inv]]) (simp_all add: same closing)
  ultimately show ?thesis
    using advances_reach [OF inv_objects [OF inv] adv] by (simp add: manager_inv_def)
qed

lemma inv_cancel_acquire:
  assumes inv: "manager_inv m" and q: "the_submit i m = Some q" "qo_acquire q = Acquiring"
  shows "manager_inv (set_acquire i AcquireCancelled True m)"
proof (rule inv_views [OF inv])
  let ?f = "\<lambda>q. if qo_id q = i
      then q\<lparr>qo_acquire := AcquireCancelled, qo_released := qo_released q \<or> True\<rparr> else q"
  show "mg_submits (set_acquire i AcquireCancelled True m) = map ?f (mg_submits m)"
    by (simp add: set_acquire_def)
  have q': "q \<in> set (mg_submits m)" "qo_id q = i" using q(1) by (auto simp: the_submit_def find_Some_iff)
  have "distinct (map qo_id (mg_submits m))"
    using permits_ids(1) [OF inv_permits [OF inv]] by (simp add: tasks_def)
  then have "p = q" if "p \<in> set (mg_submits m)" "qo_id p = i" for p
    using that q' by (auto simp: distinct_map inj_on_def)
  then show "qo_id (?f p) = qo_id p \<and> qo_lock (?f p) = qo_lock p \<and> qo_session (?f p) = qo_session p \<and>
      (p \<in> set (mg_submits m) \<longrightarrow> (qo_acquire (?f p) = Acquired \<longleftrightarrow> qo_acquire p = Acquired))" for p
    using q(2) by (cases "qo_id p = i") auto
qed (simp_all add: set_acquire_def)

lemma inv_shutdown: "manager_inv m \<Longrightarrow> manager_inv (shutdown_begin m)"
proof (cases "mg_closed m")
  case False
  assume inv: "manager_inv m"
  let ?f = "\<lambda>q. if qo_acquire q = Acquiring \<and> map_of (mg_queued_owners m) (qo_thread q) = Some (qo_id q)
    then q\<lparr>qo_acquire := AcquireCancelled, qo_released := True\<rparr> else q"
  show ?thesis
    by (rule inv_views [OF inv, of _ ?f]) (use False in \<open>simp_all add: shutdown_begin_def\<close>)
qed (simp add: shutdown_begin_def)

text \<open>Closing pieces: one runtime is closed, and the dictionaries lose or gain an entry.\<close>

lemma pop_if_same_fields [simp]:
  "same_books m (pop_if_same k j m)" "mg_created (pop_if_same k j m) = mg_created m"
  "mg_objects (pop_if_same k j m) = mg_objects m" "mg_closing (pop_if_same k j m) = mg_closing m"
  "mg_held (pop_if_same k j m) = mg_held m" "mg_deleting (pop_if_same k j m) = mg_deleting m"
  by (simp_all add: pop_if_same_def pop_session_def same_books_def)

lemma with_session_commute:
  "with_session j s (m\<lparr>mg_closing := c\<rparr>) = (with_session j s m)\<lparr>mg_closing := c\<rparr>"
  "with_session j s (m\<lparr>mg_deleting := d, mg_held := h\<rparr>) = (with_session j s m)\<lparr>mg_deleting := d, mg_held := h\<rparr>"
  "mg_created (with_session j s m) = mg_created m" "mg_closing (with_session j s m) = mg_closing m"
  by (simp_all add: with_session_def)

lemma same_books_trans: "same_books m m1 \<Longrightarrow> same_books m1 m2 \<Longrightarrow> same_books m m2"
  by (simp add: same_books_def)

lemma run_close_claim: "sw_starting s = None \<Longrightarrow> close_claim c strict s = (a, s') \<Longrightarrow> session_step\<^sup>*\<^sup>* s s'"
  using session_runs(8) [of s c strict] by simp

lemma inv_close_ref:
  assumes inv: "manager_inv m"
    and idle: "\<And>j. map_of (mg_sessions m) thread_id = Some j \<Longrightarrow> sw_starting (mg_objects m j) = None"
  shows "manager_inv (snd (close_session_ref thread_id cancel_active m))"
proof (cases "map_of (mg_closing m) thread_id = None \<and> map_of (mg_sessions m) thread_id \<noteq> None")
  case False
  then have "snd (close_session_ref thread_id cancel_active m) = m"
    by (auto simp: close_session_ref_def split: option.split)
  with inv show ?thesis by simp
next
  case True
  then obtain j where j: "map_of (mg_sessions m) thread_id = Some j" by auto
  show ?thesis
  proof (cases cancel_active)
    case False
    obtain a s where c: "close_claim False True (mg_objects m j) = (a, s)"
      by (cases "close_claim False True (mg_objects m j)")
    note run = run_close_claim [OF idle [OF j] c]
    have "manager_inv (with_session j s m)" by (rule inv_session [OF inv run])
    moreover have "manager_inv (with_session j s (m\<lparr>mg_held := h\<rparr>))" for h
      by (rule quiet_with [OF inv run]) (simp_all add: book_defs)
    ultimately show ?thesis
      using True j False c by (simp add: close_session_ref_def split: sum.split)
  next
    case cancel: True
    define waiting where "waiting = (case map_of (mg_queued_owners m) thread_id of
        None \<Rightarrow> None
      | Some i \<Rightarrow> (case the_submit i m of
           Some q \<Rightarrow> if qo_acquire q = Acquiring then Some i else None | None \<Rightarrow> None))"
    define m1 where "m1 = (case waiting of None \<Rightarrow> m | Some i \<Rightarrow> set_acquire i AcquireCancelled True m)"
    have m1: "manager_inv m1"
    proof (cases waiting)
      case (Some i)
      then obtain q where "the_submit i m = Some q" "qo_acquire q = Acquiring"
        by (auto simp: waiting_def split: option.splits if_splits)
      then show ?thesis using inv_cancel_acquire [OF inv] Some by (simp add: m1_def)
    qed (use inv in \<open>simp add: m1_def\<close>)
    have c: "mg_created m1 = mg_created m" by (simp add: m1_def set_acquire_def split: option.split)
    have jc: "j \<in> set (mg_created m1)"
      using known_session [OF inv_known [OF inv] j] c by simp
    have "manager_inv (m1\<lparr>mg_closing := dict_set thread_id (AwaitOwner j x) (mg_closing m)\<rparr>)" for x
    proof (rule quiet_same [OF m1])
      have "mg_closing m1 = mg_closing m" by (simp add: m1_def set_acquire_def split: option.split)
      then show "closing_session ` snd ` set (mg_closing (m1\<lparr>mg_closing := dict_set thread_id (AwaitOwner j x) (mg_closing m)\<rparr>))
        \<subseteq> closing_session ` snd ` set (mg_closing m1) \<union> set (mg_created m1)"
        using subset_insert_within [OF dict_set_image [of closing_session thread_id "AwaitOwner j x" "mg_closing m"]] jc
        by simp
    qed (simp_all add: same_books_def)
    moreover have "snd (close_session_ref thread_id cancel_active m) =
        m1\<lparr>mg_closing := dict_set thread_id (AwaitOwner j (map_of (mg_queued_owners m) thread_id)) (mg_closing m)\<rparr>"
      using True j cancel by (simp add: close_session_ref_def Let_def waiting_def m1_def)
    ultimately show ?thesis by simp
  qed
qed

lemma inv_pop:
  assumes inv: "manager_inv m"
  shows "manager_inv (pop_session k m)"
proof (rule quiet_same [OF inv])
  show "snd ` set (mg_sessions (pop_session k m)) \<subseteq> snd ` set (mg_sessions m) \<union> set (mg_created m)"
    using dict_pop_values [of k "mg_sessions m"] by (simp add: pop_session_def le_supI1)
qed (simp_all add: pop_session_def same_books_def)

lemma inv_pop_if_same: "manager_inv m \<Longrightarrow> manager_inv (pop_if_same k j m)"
  by (simp add: pop_if_same_def inv_pop)

lemma inv_held:
  assumes inv: "manager_inv m"
  shows "manager_inv (m\<lparr>mg_held := h\<rparr>)" "manager_inv (m\<lparr>mg_deleting := d\<rparr>)"
    "manager_inv (m\<lparr>mg_held := h, mg_deleting := d\<rparr>)" "manager_inv (m\<lparr>mg_deleting := d, mg_held := h\<rparr>)"
  by (rule quiet_same [OF inv]; simp add: same_books_def)+

lemma inv_closing_pop:
  assumes inv: "manager_inv m"
  shows "manager_inv (m\<lparr>mg_closing := dict_pop k (mg_closing m)\<rparr>)"
proof (rule quiet_same [OF inv])
  show "closing_session ` snd ` set (mg_closing (m\<lparr>mg_closing := dict_pop k (mg_closing m)\<rparr>)) \<subseteq>
      closing_session ` snd ` set (mg_closing m) \<union> set (mg_created m)"
    using image_mono [OF dict_pop_values [of k "mg_closing m"], of closing_session]
    by (simp add: le_supI1)
qed (simp_all add: same_books_def)

lemma inv_closing_set:
  assumes inv: "manager_inv m" and "closing_session ph \<in> set (mg_created m)"
  shows "manager_inv (m\<lparr>mg_closing := dict_set k ph (mg_closing m)\<rparr>)"
proof (rule quiet_same [OF inv])
  show "closing_session ` snd ` set (mg_closing (m\<lparr>mg_closing := dict_set k ph (mg_closing m)\<rparr>)) \<subseteq>
      closing_session ` snd ` set (mg_closing m) \<union> set (mg_created m)"
    using subset_insert_within [OF dict_set_image [of closing_session k ph "mg_closing m"] assms(2)] by simp
qed (simp_all add: same_books_def)

lemma inv_finish_owner:
  assumes inv: "manager_inv m" and ph: "map_of (mg_closing m) k = Some (AwaitOwner j x)"
    and idle: "sw_starting (mg_objects m j) = None"
  shows "manager_inv (finish_owner k j m)"
proof -
  obtain a s where c: "close_claim True False (mg_objects m j) = (a, s)"
    by (cases "close_claim True False (mg_objects m j)")
  have w: "manager_inv (with_session j s m)"
    by (rule inv_session [OF inv run_close_claim [OF idle c]])
  have j: "j \<in> set (mg_created m)" using known_close [OF inv_known [OF inv] ph] by simp
  have "manager_inv (with_session j s (m\<lparr>mg_closing := dict_pop k (mg_closing m)\<rparr>))"
    using inv_closing_pop [OF w, of k] by (simp add: with_session_commute)
  moreover have "manager_inv (with_session j s (m\<lparr>mg_closing := dict_set k (AwaitSession j b) (mg_closing m)\<rparr>))" for b
    using inv_closing_set [OF w, of "AwaitSession j b" k] j by (simp add: with_session_commute)
  ultimately show ?thesis by (simp add: finish_owner_def c split: sum.split)
qed

lemma inv_finish_session:
  assumes inv: "manager_inv m" and ph: "map_of (mg_closing m) k = Some (AwaitSession j a)"
  shows "manager_inv (finish_session k j a m)"
  using inv_closing_pop [OF inv, of k] inv_closing_set [OF inv, of "AwaitRelease j r" k for r]
    known_close [OF inv_known [OF inv] ph]
  by (simp add: finish_session_def)

lemma inv_finish_release: "manager_inv m \<Longrightarrow> manager_inv (finish_release k j m)"
  unfolding finish_release_def Let_def by (intro inv_closing_pop inv_pop_if_same)

lemma inv_delete:
  assumes inv: "manager_inv m"
    and idle: "\<And>j. map_of (mg_sessions m) thread_id = Some j \<Longrightarrow> sw_starting (mg_objects m j) = None"
  shows "manager_inv (snd (delete_session_ref thread_id m))"
proof (cases "map_of (mg_sessions m) thread_id")
  case None
  then show ?thesis using inv inv_held(4) [OF inv] by (simp add: delete_session_ref_def)
next
  case (Some j)
  obtain a s where c: "close_claim False True (mg_objects m j) = (a, s)"
    by (cases "close_claim False True (mg_objects m j)")
  have w: "manager_inv (with_session j s m)"
    by (rule inv_session [OF inv run_close_claim [OF idle [OF Some] c]])
  have "manager_inv (with_session j s (m\<lparr>mg_deleting := d, mg_held := h\<rparr>))" for d h
    using inv_held(4) [OF w] by (simp add: with_session_commute)
  with inv w show ?thesis by (simp add: delete_session_ref_def Some c split: sum.split)
qed

lemma inv_ends:
  assumes "manager_inv m"
  shows "manager_inv (strict_close_end k j a m)" "manager_inv (delete_closed k j a m)"
    "manager_inv (delete_end k m)" "manager_inv (shutdown_end m)" "manager_inv (snd (check_ref p m))"
    "manager_inv (snd (guard_enter k m))" "manager_inv (snd (fork_enter k m))" "manager_inv (guard_exit k m)"
proof -
  show "manager_inv (snd (guard_enter k m))" "manager_inv (snd (fork_enter k m))" "manager_inv (guard_exit k m)"
    using assms inv_held(1) [OF assms]
    by (simp_all add: guard_enter_def fork_enter_def guard_exit_def split: option.split)
  show "manager_inv (strict_close_end k j a m)"
    using inv_pop_if_same [OF inv_held(1) [OF assms]] inv_held(1) [OF assms]
    by (simp add: strict_close_end_def Let_def)
  show "manager_inv (delete_closed k j a m)"
    using inv_held(1) [OF inv_pop_if_same [OF assms]] inv_held(3) [OF assms]
    by (simp add: delete_closed_def)
  show "manager_inv (delete_end k m)" using inv_held(3) [OF assms] by (simp add: delete_end_def)
  show "manager_inv (shutdown_end m)"
    by (rule quiet_same [OF assms]) (simp_all add: shutdown_end_def same_books_def)
  have "manager_inv (m\<lparr>mg_project_id := x\<rparr>)" for x
    by (rule quiet_same [OF assms]) (simp_all add: same_books_def)
  then show "manager_inv (snd (check_ref p m))" using assms by (simp add: check_ref_def Let_def)
qed

lemma manager_step_inv:
  assumes inv: "manager_inv m" and step: "manager_step m m'"
  shows "manager_inv m'"
  using step
proof (cases rule: manager_step.cases)
  case (mg_assemble i s)
  then show ?thesis by (intro quiet_new [OF inv]) (simp_all add: book_defs subset_insertI)
next
  case (mg_collect_close j)
  have "session_step\<^sup>*\<^sup>* (mg_objects m j) (snd (close_claim False False (mg_objects m j)))"
    using mg_collect_close(3) by (rule session_runs(8))
  then show ?thesis
    using inv_session [OF inv] mg_collect_close(1)
    by (cases "close_claim False False (mg_objects m j)") (simp add: collect_close_def split: sum.split)
next
  case (mg_shutdown_close j)
  then show ?thesis using inv_session [OF inv session_runs(8)] by (simp add: shutdown_close_def)
qed (use inv in \<open>auto intro: inv_session inv_ensure_lock inv_open_finish inv_register inv_rebind inv_submit_enter
    inv_grant inv_resume inv_cancelled inv_release inv_close_ref inv_finish_owner inv_finish_session
    inv_finish_release inv_delete inv_held inv_pop inv_shutdown inv_ends inv_fail
    simp: submit_released_def\<close>)

interpretation session_manager: inv_system is_new_manager manager_step manager_inv
proof unfold_locales
  fix m assume "is_new_manager m"
  then show "manager_inv m"
    by cases (simp add: manager_inv_def known_def permits_inv_def turns_held_def objects_reach_def
        new_manager_def granted_def holders_def tasks_def)
qed (rule manager_step_inv)

end
