(* ===== verification/Manager_Contract.thy ===== *)
theory Manager_Contract
  imports Manager_Permits
begin

text \<open>
  The properties of the manager: its sessions are sessions, permits bound the turns it runs, and the
  places where the code loses a permit, raises KeyError, or evicts the wrong session.
\<close>

section \<open>Composition with the sessions\<close>

text \<open>Seen from a runtime, a piece of the manager is a run of its own steps.\<close>

definition runs :: "manager \<Rightarrow> manager \<Rightarrow> bool" where
  "runs m m' \<longleftrightarrow> set (mg_created m) \<subseteq> set (mg_created m') \<and>
     (\<forall>j \<in> set (mg_created m). session_step\<^sup>*\<^sup>* (mg_objects m j) (mg_objects m' j))"

lemma runsD: "runs m m' \<Longrightarrow> j \<in> set (mg_created m) \<Longrightarrow>
    session_step\<^sup>*\<^sup>* (mg_objects m j) (mg_objects m' j) \<and> j \<in> set (mg_created m')"
  by (auto simp: runs_def)

lemma runs_trans: "runs m m1 \<Longrightarrow> runs m1 m2 \<Longrightarrow> runs m m2"
  unfolding runs_def by (meson rtranclp_trans subset_trans subsetD)

lemma runs_with: "session_step\<^sup>*\<^sup>* (mg_objects m j) s \<Longrightarrow> mg_objects m' = (mg_objects m)(j := s) \<Longrightarrow>
    mg_created m' = mg_created m \<Longrightarrow> runs m m'"
  by (simp add: runs_def)

lemma runs_same: "mg_objects m' = mg_objects m \<Longrightarrow> mg_created m' = mg_created m \<Longrightarrow> runs m m'"
  by (simp add: runs_def)

lemma runs_new: "i \<notin> set (mg_created m) \<Longrightarrow> mg_objects m' = (mg_objects m)(i := s) \<Longrightarrow>
    mg_created m' = i # mg_created m \<Longrightarrow> runs m m'"
  by (auto simp: runs_def)

lemma runs_refl [simp]: "runs m m"
  by (simp add: runs_def)

lemma object_frames [simp]:
  "mg_objects (drop_submit q m) = mg_objects m" "mg_created (drop_submit q m) = mg_created m"
  "mg_objects (set_acquire i st b m) = mg_objects m" "mg_created (set_acquire i st b m) = mg_created m"
  "mg_objects (with_session j s m) = (mg_objects m)(j := s)" "mg_created (with_session j s m) = mg_created m"
  "mg_objects (pop_session k m) = mg_objects m" "mg_created (pop_session k m) = mg_created m"
  by (simp_all add: drop_submit_def set_acquire_def with_session_def pop_session_def)

lemma runs_fail: "session_step\<^sup>*\<^sup>* (mg_objects m (qo_session q)) s \<Longrightarrow>
    runs m (fail_submit q permit (with_session (qo_session q) s m))"
  by (rule runs_with [where j = "qo_session q"
        and s = "clear_queued (snd (release_turn (qo_reservation q) s))"])
     (simp_all add: fail_submit_def run_give_up)

lemma runs_fail_now: "runs m (fail_submit q permit m)"
  by (rule runs_with [where j = "qo_session q"
        and s = "clear_queued (snd (release_turn (qo_reservation q) (mg_objects m (qo_session q))))"])
     (simp_all add: fail_submit_def run_give_up)

lemma runs_cancelled: "runs m (submit_cancelled q m)"
proof -
  have "runs m (if qo_acquire q = Acquired then m\<lparr>mg_leaked := Suc (mg_leaked m)\<rparr> else m)"
    by (simp add: runs_same)
  then show ?thesis unfolding submit_cancelled_def by (rule runs_trans) (rule runs_fail_now)
qed

lemma runs_submit_enter: "runs m (snd (submit_enter thread_id j message claim token i m))"
proof -
  let ?s = "mg_objects m j"
  obtain a s1 where res: "reserve_turn_or_raise (ut_approval_resume message) claim token ?s = (a, s1)"
    by (cases "reserve_turn_or_raise (ut_approval_resume message) claim token ?s")
  have run1: "session_step\<^sup>*\<^sup>* ?s s1"
    using session_runs(1) [of ?s "ut_approval_resume message" claim token] res by simp
  obtain b s2 where mq: "mark_queued s1 = (b, s2)" by (cases "mark_queued s1")
  have run2: "session_step\<^sup>*\<^sup>* ?s s2"
    using rtranclp_trans [OF run1 session_runs(3)] mq by (metis snd_conv)
  show ?thesis
  proof (cases "map_of (mg_sessions m) thread_id = Some j \<and>
      (\<exists>l. map_of (mg_submit_locks m) thread_id = Some l \<and> l \<notin> mg_locked m) \<and>
      \<not> mg_closed m \<and> map_of (mg_closing m) thread_id = None")
    case False
    then have "snd (submit_enter thread_id j message claim token i m) = m"
      by (auto simp: submit_enter_def Let_def split: option.split)
    then show ?thesis by simp
  next
    case True
    then obtain l where l: "map_of (mg_submit_locks m) thread_id = Some l" "l \<notin> mg_locked m" by blast
    show ?thesis
    proof (cases a)
      case (Inl e)
      then show ?thesis using True l by (intro runs_with [OF run1]) (simp_all add: submit_enter_def Let_def res)
    next
      case a: (Inr r)
      show ?thesis
      proof (cases b)
        case (Inl e)
        then show ?thesis using True l a
          by (intro runs_with [OF run_give_up [OF run2, of r]]) (simp_all add: submit_enter_def Let_def res mq)
      next
        case (Inr u)
        then show ?thesis using True l a
          by (intro runs_with [OF run2]) (simp_all add: submit_enter_def Let_def res mq)
      qed
    qed
  qed
qed

lemma runs_resume:
  assumes idle: "sw_starting (mg_objects m (qo_session q)) = None"
    and fresh: "t \<notin> set (sw_started (mg_objects m (qo_session q)))"
  shows "runs m (snd (submit_resume q t build raises m))"
proof (cases "mg_closed m \<or> map_of (mg_closing m) (qo_thread q) \<noteq> None")
  case True
  then show ?thesis by (auto simp: submit_resume_def runs_fail_now)
next
  case False
  let ?s = "mg_objects m (qo_session q)"
  obtain e s1 where ms: "mark_starting ?s = (e, s1)" by (cases "mark_starting ?s")
  have run1: "session_step\<^sup>*\<^sup>* ?s s1" using session_runs(5) [of ?s] ms by simp
  have s1: "sw_starting s1 = None" "sw_started s1 = sw_started ?s"
    using ms idle by (auto simp: mark_starting_def split: if_splits)
  obtain a s2 where st: "start (qo_message q) (Some (qo_reservation q)) None t build raises s1 = (a, s2)"
    by (cases "start (qo_message q) (Some (qo_reservation q)) None t build raises s1")
  have run2: "session_step\<^sup>*\<^sup>* ?s s2"
    using run1 session_runs(9) [of s1 t "qo_message q" "Some (qo_reservation q)" build raises] s1 fresh st
    by (simp add: rtranclp_trans)
  have run3: "session_step\<^sup>*\<^sup>* ?s (schedule_settlement s2)"
    using run2 session_runs(7) [of s2] by (rule rtranclp_trans)
  show ?thesis
    using False runs_fail [OF run1] runs_fail [OF run2]
    by (cases e; cases a) (simp_all add: submit_resume_def ms st runs_with [OF run3])
qed

lemma runs_close_claim:
  "sw_starting (mg_objects m j) = None \<Longrightarrow> close_claim c strict (mg_objects m j) = (a, s) \<Longrightarrow>
   mg_objects m' = (mg_objects m)(j := s) \<Longrightarrow> mg_created m' = mg_created m \<Longrightarrow> runs m m'"
  by (rule runs_with [OF run_close_claim])

lemma runs_close_ref:
  assumes "\<And>j. map_of (mg_sessions m) k = Some j \<Longrightarrow> sw_starting (mg_objects m j) = None"
  shows "runs m (snd (close_session_ref k cancel_active m))" "runs m (snd (delete_session_ref k m))"
proof -
  have *: "runs m (snd (close_session_ref k cancel_active m)) \<and> runs m (snd (delete_session_ref k m))"
  proof (cases "map_of (mg_sessions m) k")
    case None
    then show ?thesis by (simp add: close_session_ref_def delete_session_ref_def runs_same)
  next
    case (Some j)
    obtain a s where c: "close_claim False True (mg_objects m j) = (a, s)"
      by (cases "close_claim False True (mg_objects m j)")
    note run = runs_close_claim [OF assms [OF Some] c]
    show ?thesis
      by (simp add: close_session_ref_def delete_session_ref_def Some c Let_def run runs_same
          split: sum.split option.split)
  qed
  then show "runs m (snd (close_session_ref k cancel_active m))" "runs m (snd (delete_session_ref k m))"
    by simp_all
qed

lemma runs_finish_owner: "sw_starting (mg_objects m j) = None \<Longrightarrow> runs m (finish_owner k j m)"
  by (cases "close_claim True False (mg_objects m j)")
     (auto simp: finish_owner_def intro: runs_close_claim split: sum.split)

lemma runs_rebind:
  assumes "i \<notin> set (mg_created m)"
  shows "runs m (snd (rebind_session_ref k i s binding persist_fails m))"
proof (cases "mg_closed m \<or> map_of (mg_closing m) k \<noteq> None")
  case True
  then show ?thesis by (auto simp: rebind_session_ref_def)
next
  case False
  obtain j m1 where jm: "(case map_of (mg_sessions m) k of
      Some j \<Rightarrow> (j, m)
    | None \<Rightarrow> (i, with_session i s
        (m\<lparr>mg_sessions := dict_set k i (mg_sessions m), mg_created := i # mg_created m\<rparr>))) = (j, m1)"
    by fastforce
  have m1: "runs m m1" using jm assms by (auto simp: runs_new split: option.splits)
  let ?r = "rebind binding (mg_objects m1 j)"
  have run: "session_step\<^sup>*\<^sup>* (mg_objects m1 j) (snd ?r)"
    "session_step\<^sup>*\<^sup>* (mg_objects m1 j) (snd (rebind b (snd ?r)))" for b
    by (meson session_runs(6) rtranclp_trans)+
  have "snd (rebind_session_ref k i s binding persist_fails m) \<in>
      {with_session j (snd ?r) m1, with_session j (snd (rebind (sn_binding (mg_objects m1 j)) (snd ?r))) m1}"
    using False jm by (auto simp: rebind_session_ref_def Let_def split: prod.splits sum.splits)
  then show ?thesis
    using runs_trans [OF m1 runs_with [OF run(1)]] runs_trans [OF m1 runs_with [OF run(2)]] by auto
qed

lemma manager_step_runs: "manager_step m m' \<Longrightarrow> runs m m'"
proof (induction rule: manager_step.induct)
  case (mg_session j m s)
  show ?case by (rule runs_with [where j = j, OF r_into_rtranclp]) (use mg_session in simp_all)
next
  case (mg_open_finish k m i s)
  then show ?case
    by (auto simp: open_finish_def split: option.split intro!: runs_new)
next
  case (mg_assemble i m s)
  then show ?case by (auto intro!: runs_new)
next
  case (mg_released q m)
  show ?case by (simp add: submit_released_def runs_fail_now)
next
  case (mg_collect_close j m)
  then show ?case
    by (cases "close_claim False False (mg_objects m j)")
       (auto simp: collect_close_def split: sum.split intro: runs_close_claim)
next
  case (mg_shutdown_close m j)
  then show ?case
    by (cases "close_claim True False (mg_objects m j)")
       (auto simp: shutdown_close_def intro: runs_close_claim)
next
  case (mg_grant m)
  show ?case by (rule runs_same) (simp_all add: grant_permit_def split: option.split)
qed (simp_all add: runs_submit_enter runs_resume runs_cancelled runs_close_ref runs_finish_owner runs_rebind
    runs_same check_ref_def open_enter_def ensure_submit_lock_def register_session_def release_turn_permit_def strict_close_end_def
    finish_session_def finish_release_def delete_closed_def delete_end_def shutdown_begin_def
    shutdown_end_def guard_enter_def fork_enter_def guard_exit_def Let_def split: option.split)

text \<open>A call that is passed on to a session is a run of the manager.\<close>

lemma via_session_run:
  assumes "manager_reach m" "\<And>s. session_step\<^sup>*\<^sup>* s (snd (call s))"
  shows "manager_step\<^sup>*\<^sup>* m (snd (via_session k missing call m))"
proof (cases "map_of (mg_sessions m) k")
  case (Some j)
  have j: "j \<in> set (mg_created m)"
    using known_session [OF inv_known [OF session_manager.reach_inv [OF assms(1)]] Some] .
  have "manager_step\<^sup>*\<^sup>* m (with_session j s m)" if "session_step\<^sup>*\<^sup>* (mg_objects m j) s" for s
    using that
  proof (induction rule: rtranclp_induct)
    case base
    show ?case by (simp add: with_session_def)
  next
    case (step s s')
    have "manager_step (with_session j s m) (with_session j s' (with_session j s m))"
      using step.hyps(2) j by (intro mg_session) (simp_all add: with_session_def)
    then show ?case using step.IH by (simp add: with_session_def)
  qed
  moreover have "snd (via_session k missing call m) = with_session j (snd (call (mg_objects m j))) m"
    by (simp add: via_session_def Some split: prod.split sum.split)
  ultimately show ?thesis using assms(2) by simp
qed (simp add: via_session_def)

lemma session_calls_run:
  assumes "manager_reach m"
  shows "manager_step\<^sup>*\<^sup>* m (snd (cancel_turn_ref k expected reason m))"
    and "manager_step\<^sup>*\<^sup>* m (snd (steer_turn_ref k expected txt m))"
  unfolding cancel_turn_ref_def steer_turn_ref_def
  by (intro via_session_run [OF assms] run_thread th_cancel th_steer)+


section \<open>What a piece does to the books\<close>

text \<open>
  The number of permits never changes, one that is lost stays lost, and a turn starts only for a submit
  that was granted one.
\<close>

definition later :: "manager \<Rightarrow> manager \<Rightarrow> bool" where
  "later m m' \<longleftrightarrow> mg_max m' = mg_max m \<and> mg_leaked m \<le> mg_leaked m' \<and>
     (granted m = [] \<longrightarrow> mg_turns m' = mg_turns m)"

definition same_turns :: "manager \<Rightarrow> manager \<Rightarrow> bool" where
  "same_turns m m' \<longleftrightarrow> mg_max m' = mg_max m \<and> mg_leaked m' = mg_leaked m \<and> mg_turns m' = mg_turns m"

lemma same_turns_later: "same_turns m m' \<Longrightarrow> later m m'"
  by (simp add: same_turns_def later_def)

lemma same_turns_frames [simp]:
  "same_turns m (with_session j s m1) = same_turns m m1"
  "same_turns m (m1\<lparr>mg_held := h\<rparr>) = same_turns m m1"
  "same_turns m (m1\<lparr>mg_deleting := d\<rparr>) = same_turns m m1"
  "same_turns m (m1\<lparr>mg_closing := c\<rparr>) = same_turns m m1"
  "same_turns m (m1\<lparr>mg_sessions := x\<rparr>) = same_turns m m1"
  "same_turns m (m1\<lparr>mg_created := y\<rparr>) = same_turns m m1"
  "same_turns m (drop_submit q m1) = same_turns m m1"
  "same_turns m (set_acquire i st b m1) = same_turns m m1"
  "same_turns m (fail_submit q b m1) = same_turns m m1"
  "same_turns m (pop_session k m1) = same_turns m m1"
  "same_turns m (pop_if_same k j m1) = same_turns m m1"
  "same_turns m m"
  by (simp_all add: same_turns_def with_session_def drop_submit_def set_acquire_def fail_submit_def
      pop_session_def pop_if_same_def)

lemma same_turns_open [simp]:
  "same_turns m (snd (check_ref p m))" "same_turns m (snd (open_enter k l m))"
  "same_turns m (ensure_submit_lock k l m)" "same_turns m (snd (open_finish k i s m))"
  "same_turns m (snd (register_session i m))" "same_turns m (snd (guard_enter k m))"
  "same_turns m (snd (fork_enter k m))" "same_turns m (guard_exit k m)"
  by (simp_all add: check_ref_def open_enter_def ensure_submit_lock_def open_finish_def
      register_session_def guard_enter_def fork_enter_def guard_exit_def Let_def same_turns_def with_session_def split: option.split)

lemma same_turns_rebind [simp]: "same_turns m (snd (rebind_session_ref k i s binding fails m))"
  unfolding rebind_session_ref_def Let_def
  by (auto simp: same_turns_def with_session_def split: prod.split sum.split option.split)

lemma same_turns_submit [simp]: "same_turns m (snd (submit_enter k j message claim token i m))"
proof -
  have "same_turns m (snd (case reserve_turn_or_raise r claim token s of
        (Inl e, s1) \<Rightarrow> (SubmitRefused (OfSession e), with_session j s1 m)
      | (Inr r, s1) \<Rightarrow>
          (case mark_queued s1 of
             (Inl e, s2) \<Rightarrow>
               (SubmitRefused (OfSession e), with_session j (clear_queued (snd (release_turn r s2))) m)
           | (Inr _, s2) \<Rightarrow> (SubmitQueued i, with_session j s2
               (m\<lparr>mg_locked := a, mg_ids := b, mg_submits := c r, mg_queued_owners := d\<rparr>)))))" for r s a b c d
    by (simp add: same_turns_def with_session_def split: prod.split sum.split)
  then show ?thesis by (simp add: submit_enter_def Let_def split: option.split)
qed

lemma same_turns_close [simp]:
  "same_turns m (snd (close_session_ref k c m))" "same_turns m (strict_close_end k j a m)"
  "same_turns m (finish_owner k j m)" "same_turns m (finish_session k j a m)"
  "same_turns m (finish_release k j m)" "same_turns m (snd (delete_session_ref k m))"
  "same_turns m (delete_closed k j a m)" "same_turns m (delete_end k m)"
  "same_turns m (snd (collect_close j m))" "same_turns m (shutdown_begin m)"
  "same_turns m (shutdown_close j m)" "same_turns m (shutdown_end m)"
  "same_turns m (grant_permit m)" "same_turns m (release_turn_permit r m)"
  by (simp_all add: close_session_ref_def strict_close_end_def finish_owner_def finish_session_def
      finish_release_def delete_session_ref_def delete_closed_def delete_end_def collect_close_def
      shutdown_begin_def shutdown_close_def shutdown_end_def grant_permit_def release_turn_permit_def
      Let_def split: prod.split sum.split option.split)
     (simp_all add: same_turns_def set_acquire_def)

lemma resume_later:
  assumes "q \<in> set (mg_submits m)" "qo_acquire q = Acquired"
  shows "later m (snd (submit_resume q t build raises m))"
proof -
  have "granted m \<noteq> []" using assms by (auto simp: granted_def filter_empty_conv)
  moreover have "mg_max (snd (submit_resume q t build raises m)) = mg_max m"
    "mg_leaked (snd (submit_resume q t build raises m)) = mg_leaked m"
    by (simp_all add: submit_resume_def fail_submit_def drop_submit_def with_session_def
        split: prod.split sum.split)
  ultimately show ?thesis by (simp add: later_def)
qed

lemma cancelled_later: "later m (submit_cancelled q m)"
  by (simp add: later_def submit_cancelled_def fail_submit_def drop_submit_def with_session_def)

lemma manager_step_later: "manager_step m m' \<Longrightarrow> later m m'"
  by (induction rule: manager_step.induct)
     (simp_all add: same_turns_later resume_later cancelled_later submit_released_def)

lemma manager_run_max: "manager_step\<^sup>*\<^sup>* m m' \<Longrightarrow> mg_max m' = mg_max m \<and> mg_leaked m \<le> mg_leaked m'"
  by (induction rule: rtranclp_induct) (auto simp: later_def dest: manager_step_later)

section \<open>Permits and turns\<close>

definition live_turns :: "manager \<Rightarrow> (nat \<times> string) set" where
  "live_turns m = {(j, t) \<in> set (mg_turns m). \<not> handle_done (mg_objects m j) t}"

lemma live_turns_released:
  assumes "turns_held m"
  shows "live_turns m \<subseteq> (\<lambda>r. (rt_session r, rt_turn r)) ` set (mg_releases m)"
  using assms by (fastforce simp: turns_held_def live_turns_def)

lemma live_turns_bound:
  assumes "manager_inv m"
  shows "finite (live_turns m) \<and> card (live_turns m) \<le> length (mg_releases m)"
proof -
  note sub = live_turns_released [OF inv_turns [OF assms]]
  have "card (live_turns m) \<le> card (set (mg_releases m))"
    using card_mono [OF _ sub] card_image_le [of "set (mg_releases m)" "\<lambda>r. (rt_session r, rt_turn r)"]
    by fastforce
  then show ?thesis using finite_subset [OF sub] card_length [of "mg_releases m"] by simp
qed

text \<open>
  C3: Permits bound the turns. In every state of a manager that was built with
  \<open>max_concurrent_sessions = n\<close>, a permit is free, or with a submit that was granted it, or with the
  release task of a turn that has started, or lost: none is counted twice or made up. So no more turns
  that submits have started are unfinished than there are permits that are not free, at most
  \<open>max 1 n\<close>. The submit locks that are held are exactly those of the queued submits and the release
  tasks, each of which holds a lock of its own.
\<close>

theorem permits_bound_turns:
  assumes "manager_step\<^sup>*\<^sup>* (new_manager p n) m"
  shows "mg_free m + length (granted m) + length (mg_releases m) + mg_leaked m = nat (max 1 n) \<and>
    finite (live_turns m) \<and> card (live_turns m) + mg_free m + mg_leaked m \<le> nat (max 1 n) \<and>
    distinct (holders m) \<and> set (holders m) = mg_locked m"
proof -
  have "manager_inv m"
    by (rule session_manager.reach_inv, rule reach_rtranclp [OF reach_init assms]) (rule is_new_manager.intros)
  moreover have "mg_max m = nat (max 1 n)"
    using manager_run_max [OF assms] by (simp add: new_manager_def)
  ultimately show ?thesis
    using permits_invD [OF inv_permits] live_turns_bound [of m] by fastforce
qed

lemma submit_cancelled_books:
  "qo_acquire q = Acquired \<Longrightarrow> mg_leaked (submit_cancelled q m) = Suc (mg_leaked m)"
  "mg_turns (submit_cancelled q m) = mg_turns m"
  by (simp_all add: submit_cancelled_def fail_submit_def drop_submit_def with_session_def)

lemma exhausted:
  assumes "manager_step\<^sup>*\<^sup>* m m'" "manager_inv m" "mg_leaked m = mg_max m"
  shows "manager_inv m' \<and> mg_turns m' = mg_turns m"
  using assms(1)
proof (induction rule: rtranclp_induct)
  case (step m1 m2)
  have "mg_leaked m1 = mg_max m1" "manager_inv m1"
    using manager_run_max [OF step.hyps(1)] assms(3) step.IH permits_sum [OF inv_permits, of m1] by auto
  then have "granted m1 = []" using permits_sum [OF inv_permits, of m1] by simp
  then show ?case
    using manager_step_later [OF step.hyps(2)] manager_step_inv [OF _ step.hyps(2)] step.IH
    by (simp add: later_def)
qed (simp add: assms(2))

text \<open>
  C4: A submit that is cancelled from outside after it was granted its permit, but before it has run
  again, loses the permit: \<open>acquired\<close> is not set, so nothing releases the semaphore. Whatever happens
  then, one turn fewer can be unfinished at a time; and when it was the last permit, no submit of this
  manager ever starts a turn again.
\<close>

theorem cancelled_submit_leaks_permit:
  assumes "manager_reach m" "q \<in> set (mg_submits m)" "qo_acquire q = Acquired"
    "manager_step\<^sup>*\<^sup>* (submit_cancelled q m) m'"
  shows "card (live_turns m') + mg_free m' + mg_leaked m < mg_max m \<and>
    (Suc (mg_leaked m) = mg_max m \<longrightarrow> mg_turns m' = mg_turns m)"
proof -
  have inv: "manager_inv (submit_cancelled q m)"
    using manager_step_inv [OF session_manager.reach_inv [OF assms(1)] mg_cancelled [OF assms(2)]] .
  have inv': "manager_inv m'"
    using session_manager.reach_inv [OF reach_rtranclp [OF reach_step [OF assms(1)
      mg_cancelled [OF assms(2)]] assms(4)]] .
  have max: "mg_max (submit_cancelled q m) = mg_max m"
    using cancelled_later by (simp add: later_def)
  note books = manager_run_max [OF assms(4)] submit_cancelled_books(1) [OF assms(3), of m]
  have "card (live_turns m') + mg_free m' + mg_leaked m < mg_max m"
    using live_turns_bound [OF inv'] permits_sum [OF inv_permits [OF inv']] books max by simp
  moreover have "mg_turns m' = mg_turns m" if "Suc (mg_leaked m) = mg_max m"
    using exhausted [OF assms(4) inv] that books max by (simp add: submit_cancelled_books(2))
  ultimately show ?thesis by blast
qed

section \<open>A submit that waits for a close\<close>

text \<open>
  C5: A submit that arrives while a cancelling close waits for the release task sets its submit lock
  (if there is none), waits for the close, opens a new session, and then fails with KeyError: the close
  has taken the lock out, and the loop of \<open>open_session_ref\<close> does not put it back. Each piece is a step
  of the manager.
\<close>

theorem submit_during_close_key_error:
  assumes "map_of (mg_closing m) k = Some (AwaitRelease j release)" "map_of (mg_sessions m) k = Some j"
    "\<not> mg_closed m" "coordinator_free k m" "\<forall>r \<in> set (mg_releases m). release \<noteq> Some (rt_id r)"
    "l \<notin> set (mg_lock_ids m)" "i \<notin> set (mg_created m)" "is_new_session s" "n \<notin> set (mg_ids m)"
  defines "m1 \<equiv> snd (open_enter k l m)"
  defines "m2 \<equiv> finish_release k j m1"
  defines "m3 \<equiv> snd (open_finish k i s m2)"
  shows "fst (open_enter k l m) = Inr () \<and> fst (open_finish k i s m1) = OpenJoinsClose \<and>
    fst (open_finish k i s m2) = OpenCreated i \<and>
    submit_enter k i message claim token n m3 = (SubmitRefused (KeyError k), m3) \<and>
    manager_step\<^sup>*\<^sup>* m m3"
proof -
  have m1: "mg_sessions m1 = mg_sessions m" "mg_closing m1 = mg_closing m" "mg_closed m1 = mg_closed m"
    "mg_held m1 = mg_held m" "mg_releases m1 = mg_releases m" "mg_created m1 = mg_created m"
    by (simp_all add: m1_def open_enter_def ensure_submit_lock_def)
  have m2: "map_of (mg_sessions m2) k = None" "map_of (mg_closing m2) k = None" "\<not> mg_closed m2"
    "map_of (mg_submit_locks m2) k = None" "mg_held m2 = mg_held m" "mg_created m2 = mg_created m"
    using assms(2,3) by (simp_all add: m2_def finish_release_def pop_if_same_def pop_session_def m1
        AList.delete_conv')
  have m3: "m3 = with_session i s
      (m2\<lparr>mg_sessions := dict_set k i (mg_sessions m2), mg_created := i # mg_created m2\<rparr>)"
    "fst (open_finish k i s m2) = OpenCreated i"
    using m2 by (simp_all add: m3_def open_finish_def)
  have "manager_step m m1" unfolding m1_def using assms(6) by (rule mg_open_enter)
  moreover have "manager_step m1 m2"
    unfolding m2_def using assms(1,5) by (intro mg_finish_release [of _ _ _ release]) (auto simp: m1)
  moreover have "manager_step m2 m3"
    unfolding m3_def by (rule mg_open_finish) (use assms(4,7,8) m2 in \<open>simp_all add: coordinator_free_def\<close>)
  ultimately have "manager_step\<^sup>*\<^sup>* m m3" by (meson r_into_rtranclp rtranclp_trans)
  moreover have "fst (open_enter k l m) = Inr ()" "fst (open_finish k i s m1) = OpenJoinsClose"
    using assms(1,3) by (simp_all add: open_enter_def open_finish_def m1)
  moreover have "submit_enter k i message claim token n m3 = (SubmitRefused (KeyError k), m3)"
    using m2 by (simp add: submit_enter_def m3 with_session_def AList.update_conv')
  ultimately show ?thesis using m3(2) by blast
qed

section \<open>Evicting idle sessions\<close>

lemma idle_after_open:
  assumes "map_of (mg_sessions m) k = None" "i \<notin> snd ` set (mg_sessions m)"
    "mg_objects m' = (mg_objects m)(i := s)" "mg_sessions m' = dict_set k i (mg_sessions m)"
  shows "idle_sessions m' = idle_sessions m @ (if is_idle s then [(k, i)] else [])"
proof -
  have "k \<notin> fst ` set (mg_sessions m)" using assms(1) by (simp add: map_of_eq_None_iff)
  moreover have "filter (\<lambda>(_, j). is_idle (mg_objects m' j)) (mg_sessions m) = idle_sessions m"
    unfolding idle_sessions_def
  proof (rule filter_cong [OF refl])
    fix x assume "x \<in> set (mg_sessions m)"
    then have "snd x \<noteq> i" using assms(2) by blast
    then show "(case x of (_, j) \<Rightarrow> is_idle (mg_objects m' j)) = (case x of (_, j) \<Rightarrow> is_idle (mg_objects m j))"
      by (simp add: assms(3) case_prod_unfold)
  qed
  ultimately show ?thesis by (simp add: idle_sessions_def assms(3,4) dict_set_new)
qed

text \<open>
  \<open>collect_idle\<close> keeps the first \<open>max_idle\<close> idle sessions in the order of the dictionary, which is
  the order in which they were opened, and evicts the rest: no session that runs, is queued or waits
  for an approval is in the list; and a session that has just been opened is always evicted when there
  is any excess, as the last of the list. The documentation says that the most recently used ones are
  kept.
\<close>

theorem collect_evicts_newest:
  assumes "manager_reach m" "open_finish k i s m = (OpenCreated i, m')" "i \<notin> set (mg_created m)"
    "is_idle s" "0 \<le> n" "n \<le> int (length (idle_sessions m))"
  shows "idle_sessions m' = idle_sessions m @ [(k, i)] \<and>
    collect_list n m' = drop (nat n) (idle_sessions m) @ [(k, i)] \<and>
    (\<forall>(_, j) \<in> set (collect_list n m'). sn_status (mg_objects m' j) \<in> {IDLE, FAILED, CANCELLED})"
proof -
  have inv: "manager_inv m" by (rule session_manager.reach_inv [OF assms(1)])
  have k: "map_of (mg_sessions m) k = None" and m': "m' = with_session i s
      (m\<lparr>mg_sessions := dict_set k i (mg_sessions m), mg_created := i # mg_created m\<rparr>)"
    using assms(2) by (auto simp: open_finish_def split: if_splits option.splits)
  have "i \<notin> snd ` set (mg_sessions m)" using known_sessions [OF inv_known [OF inv]] assms(3) by blast
  then have idle: "idle_sessions m' = idle_sessions m @ [(k, i)]"
    using idle_after_open [OF k, of i m' s] assms(4) by (simp add: m' with_session_def)
  moreover have list: "collect_list n m' = drop (nat n) (idle_sessions m) @ [(k, i)]"
    using assms(5,6) by (simp add: collect_list_def Let_def slice_from_def idle nat_le_iff)
  moreover have "set (collect_list n m') \<subseteq> set (idle_sessions m')"
    unfolding list idle using set_drop_subset by fastforce
  then have "\<forall>(_, j) \<in> set (collect_list n m'). sn_status (mg_objects m' j) \<in> {IDLE, FAILED, CANCELLED}"
    by (fastforce simp: idle_sessions_def is_idle_def snapshot_def)
  ultimately show ?thesis by blast
qed

section \<open>A queued submit whose session is evicted\<close>

lemma resume_refused:
  assumes "sn_closed (mg_objects m (qo_session q))"
  shows "\<exists>e. fst (submit_resume q t build raises m) = Inl e"
    and "mg_turns (snd (submit_resume q t build raises m)) = mg_turns m"
proof -
  let ?s = "mg_objects m (qo_session q)"
  obtain e s1 where ms: "mark_starting ?s = (e, s1)" by (cases "mark_starting ?s")
  then have "sn_closed s1" using assms by (auto simp: mark_starting_def split: if_splits)
  obtain a s2 where st: "start (qo_message q) (Some (qo_reservation q)) None t build raises s1 = (a, s2)"
    by (cases "start (qo_message q) (Some (qo_reservation q)) None t build raises s1")
  then have "\<exists>x. a = Inl x"
    using \<open>sn_closed s1\<close> by (auto simp: start_def start_refusal_def split: option.splits sum.splits)
  then show "\<exists>e. fst (submit_resume q t build raises m) = Inl e"
    "mg_turns (snd (submit_resume q t build raises m)) = mg_turns m"
    by (auto simp: submit_resume_def ms st fail_submit_def drop_submit_def with_session_def split: sum.split)
qed

lemma resume_turns:
  "mg_turns (snd (submit_resume q t build raises m)) \<in> {mg_turns m, (qo_session q, t) # mg_turns m}"
  by (simp add: submit_resume_def fail_submit_def drop_submit_def with_session_def split: prod.split sum.split)

definition turns_of :: "nat \<Rightarrow> manager \<Rightarrow> string list" where
  "turns_of j m = map snd (filter (\<lambda>x. fst x = j) (mg_turns m))"

lemma same_turns_of: "same_turns m m' \<Longrightarrow> turns_of j m' = turns_of j m"
  by (simp add: same_turns_def turns_of_def)

lemma resume_turns_of:
  "sn_closed (mg_objects m j) \<Longrightarrow> turns_of j (snd (submit_resume q t build raises m)) = turns_of j m"
  using resume_refused(2) [of m q t build raises] resume_turns [of q t build raises m]
  by (cases "qo_session q = j") (auto simp: turns_of_def)

lemma cancelled_turns_of: "turns_of j (submit_cancelled q m) = turns_of j m"
  by (simp add: turns_of_def submit_cancelled_books(2))

lemma closed_step_turns:
  "manager_step m m' \<Longrightarrow> sn_closed (mg_objects m j) \<Longrightarrow> turns_of j m' = turns_of j m"
  by (induction rule: manager_step.induct)
     (simp_all add: same_turns_of resume_turns_of cancelled_turns_of submit_released_def)

lemma closed_run_turns:
  assumes "manager_step\<^sup>*\<^sup>* m m'" "manager_reach m" "j \<in> set (mg_created m)" "sn_closed (mg_objects m j)"
  shows "turns_of j m' = turns_of j m \<and> sn_closed (mg_objects m' j)"
proof -
  have reach: "session_reach (mg_objects m j)"
    using inv_objects [OF session_manager.reach_inv [OF assms(2)]] assms(3) by (simp add: objects_reach_def)
  have runs: "runs m u" if "manager_step\<^sup>*\<^sup>* m u" for u
    using that by (induction rule: rtranclp_induct) (auto intro: runs_trans manager_step_runs)
  have closed: "sn_closed (mg_objects u j)" if "manager_step\<^sup>*\<^sup>* m u" for u
    using closed_run [OF _ reach assms(4)] runsD [OF runs [OF that] assms(3)] by blast
  have "turns_of j m' = turns_of j m"
    using assms(1)
    by (induction rule: rtranclp_induct) (simp_all add: closed_step_turns closed)
  with closed [OF assms(1)] show ?thesis by simp
qed

lemma collect_close_queued:
  assumes "sn_status (mg_objects m j) = QUEUED" "live_handle (mg_objects m j) = None"
    "\<not> sn_closed (mg_objects m j)"
  shows "fst (collect_close j m) = Inr CloseClaimed" "sn_closed (mg_objects (snd (collect_close j m)) j)"
  using assms by (simp_all add: collect_close_def close_claim_def close_refusal_def clear_guidance_def
      with_session_def Let_def split: option.split)

text \<open>
  An eviction takes the session of a queued submit away, although the documentation says that
  queued sessions are never collected: the close of \<open>collect_idle\<close> is not the strict one, so it refuses a
  session with a running turn only. A session that was idle when the list was made and is queued for a
  permit by the time its turn comes is closed, and whatever happens then, the submit fails and the
  session never starts a turn.
\<close>

theorem collect_revokes_queued:
  assumes "manager_reach m" "map_of (mg_sessions m) k = Some j" "sw_starting (mg_objects m j) = None"
    "sn_status (mg_objects m j) = QUEUED" "live_handle (mg_objects m j) = None"
    "\<not> sn_closed (mg_objects m j)" "manager_step\<^sup>*\<^sup>* (snd (collect_close j m)) m'" "qo_session q = j"
  shows "fst (collect_close j m) = Inr CloseClaimed \<and>
    (\<exists>e. fst (submit_resume q t build raises m') = Inl e) \<and> turns_of j m' = turns_of j m"
proof -
  let ?m = "snd (collect_close j m)"
  have "j \<in> snd ` set (mg_sessions m)" using map_of_value [OF assms(2)] .
  then have step: "manager_step m ?m" using assms(3) by (rule mg_collect_close)
  have j: "j \<in> set (mg_created ?m)"
    using known_session [OF inv_known [OF session_manager.reach_inv [OF assms(1)]] assms(2)]
      runsD [OF manager_step_runs [OF step]] by blast
  note closed = collect_close_queued [OF assms(4,5,6)]
  have "turns_of j m' = turns_of j ?m \<and> sn_closed (mg_objects m' j)"
    by (rule closed_run_turns [OF assms(7) reach_step [OF assms(1) step] j closed(2)])
  moreover have "turns_of j ?m = turns_of j m" by (simp add: same_turns_of)
  ultimately show ?thesis using closed(1) resume_refused(1) [of m' q] assms(8) by simp
qed

section \<open>A sample manager\<close>

text \<open>One permit; the thread \<open>t\<close> is opened, a turn is submitted, waits for the permit, gets it, and starts.\<close>

definition sample_opened :: manager where
  "sample_opened = snd (open_finish ''t'' 0 sample_new (snd (open_enter ''t'' 0 (new_manager (Some ''p'') 1))))"

definition sample_queued :: manager where
  "sample_queued = snd (submit_enter ''t'' 0 (sample_message False) None ''x'' 1 sample_opened)"

definition sample_granted :: manager where
  "sample_granted = grant_permit sample_queued"

definition sample_submit :: queued_owner where
  "sample_submit = hd (mg_submits sample_granted)"

definition sample_running :: manager where
  "sample_running = snd (submit_resume sample_submit ''1'' (Inl []) None sample_granted)"

text \<open>The opened session is closed with \<open>cancel_active\<close>, up to the wait for the release task.\<close>

definition sample_owner_done :: manager where
  "sample_owner_done = finish_owner ''t'' 0 (snd (close_session_ref ''t'' True sample_opened))"

definition sample_session_done :: manager where
  "sample_session_done = with_session 0 (snd (finish_close (mg_objects sample_owner_done 0))) sample_owner_done"

definition sample_awaits_release :: manager where
  "sample_awaits_release = finish_session ''t'' 0 CloseClaimed sample_session_done"

lemma sample_new_is_new: "is_new_session sample_new"
  unfolding sample_new_def
  by (intro is_new_session.intros is_new_broker.intros) (auto simp: new_steer_queue_def split: if_splits)

lemma sample_opened_reachable: "manager_reach sample_opened"
proof -
  have "manager_reach (new_manager (Some ''p'') 1)" by (intro reach_init is_new_manager.intros)
  then have "manager_reach (snd (open_enter ''t'' 0 (new_manager (Some ''p'') 1)))"
    by (rule reach_step, intro mg_open_enter) code_simp
  then show ?thesis
    unfolding sample_opened_def by (rule reach_step, intro mg_open_finish sample_new_is_new) code_simp+
qed

lemma sample_queued_step: "manager_step sample_opened sample_queued"
  unfolding sample_queued_def by (rule mg_submit_enter) code_simp+

lemma sample_granted_step: "manager_step sample_queued sample_granted"
  unfolding sample_granted_def by (rule mg_grant)

lemma sample_submit_waits: "sample_submit \<in> set (mg_submits sample_granted) \<and> qo_acquire sample_submit = Acquired"
  by code_simp

lemma sample_running_step: "manager_step sample_granted sample_running"
  unfolding sample_running_def by (rule mg_resume) (use sample_submit_waits in simp, use sample_submit_waits in simp, code_simp+)

lemma sample_queued_reachable: "manager_reach sample_queued"
  by (rule reach_step [OF sample_opened_reachable sample_queued_step])

lemma sample_granted_reachable: "manager_reach sample_granted"
  by (rule reach_step [OF sample_queued_reachable sample_granted_step])

lemma sample_running_run: "manager_step\<^sup>*\<^sup>* sample_queued sample_running"
  using sample_granted_step sample_running_step by (meson r_into_rtranclp rtranclp_trans)


theorem cancelled_submit_leaks_permit_witness:
  "mg_turns (snd (submit_enter ''t'' 0 (sample_message False) None ''y'' 2
     (submit_cancelled sample_submit sample_granted))) = []"
proof -
  let ?m = "snd (submit_enter ''t'' 0 (sample_message False) None ''y'' 2
     (submit_cancelled sample_submit sample_granted))"
  have "manager_step (submit_cancelled sample_submit sample_granted) ?m"
    by (rule mg_submit_enter) code_simp+
  then have "mg_turns ?m = mg_turns sample_granted \<or> Suc (mg_leaked sample_granted) \<noteq> mg_max sample_granted"
    using cancelled_submit_leaks_permit [OF sample_granted_reachable, of sample_submit ?m] sample_submit_waits
    by blast
  moreover have "Suc (mg_leaked sample_granted) = mg_max sample_granted" "mg_turns sample_granted = []"
    by code_simp+
  ultimately show ?thesis by simp
qed

theorem permits_bound_turns_witness:
  "mg_free sample_running + length (granted sample_running) + length (mg_releases sample_running) +
     mg_leaked sample_running = 1 \<and> (0, ''1'') \<in> live_turns sample_running \<and>
   card (live_turns sample_running) \<le> 1"
proof -
  let ?m0 = "snd (open_enter ''t'' 0 (new_manager (Some ''p'') 1))"
  have "manager_step (new_manager (Some ''p'') 1) ?m0" by (rule mg_open_enter) code_simp
  moreover have "manager_step ?m0 sample_opened"
    unfolding sample_opened_def by (intro mg_open_finish sample_new_is_new) code_simp+
  ultimately have run: "manager_step\<^sup>*\<^sup>* (new_manager (Some ''p'') 1) sample_running"
    using sample_queued_step sample_running_run by (meson r_into_rtranclp rtranclp_trans)
  have "(0, ''1'') \<in> live_turns sample_running"
    unfolding live_turns_def by (simp only: mem_Collect_eq prod.case) code_simp
  then show ?thesis using permits_bound_turns [OF run] by simp
qed

lemma sample_awaits_release_reachable: "manager_reach sample_awaits_release"
proof -
  let ?c = "snd (close_session_ref ''t'' True sample_opened)"
  have "sw_starting (mg_objects sample_opened j) = None" if "map_of (mg_sessions sample_opened) ''t'' = Some j" for j
  proof -
    have "map_of (mg_sessions sample_opened) ''t'' = Some 0" "sw_starting (mg_objects sample_opened 0) = None"
      by code_simp+
    with that show ?thesis by simp
  qed
  moreover have "coordinator_free ''t'' sample_opened" by code_simp
  ultimately have c: "manager_reach ?c" by (intro reach_step [OF sample_opened_reachable] mg_close)
  have "map_of (mg_closing ?c) ''t'' = Some (AwaitOwner 0 None)" "sw_starting (mg_objects ?c 0) = None"
    by code_simp+
  then have o: "manager_reach sample_owner_done"
    unfolding sample_owner_done_def by (intro reach_step [OF c] mg_finish_owner [of _ _ _ None]) simp_all
  have "sw_starting (mg_objects sample_owner_done 0) = None" "can_finish_close (mg_objects sample_owner_done 0)"
    "0 \<in> set (mg_created sample_owner_done)"
    by code_simp+
  then have s: "manager_reach sample_session_done"
    unfolding sample_session_done_def by (intro reach_step [OF o] mg_session by_loop lp_finish_close)
  have "map_of (mg_closing sample_session_done) ''t'' = Some (AwaitSession 0 CloseClaimed)"
    "not_closing (mg_objects sample_session_done 0)"
    by code_simp+
  then show ?thesis
    unfolding sample_awaits_release_def by (intro reach_step [OF s] mg_finish_session) simp_all
qed

theorem submit_during_close_key_error_witness:
  "fst (submit_enter ''t'' 7 (sample_message False) None ''y'' 2 (snd (open_finish ''t'' 7 sample_new
     (finish_release ''t'' 0 (snd (open_enter ''t'' 7 sample_awaits_release)))))) = SubmitRefused (KeyError ''t'')"
proof -
  have "map_of (mg_closing sample_awaits_release) ''t'' = Some (AwaitRelease 0 None)"
    "map_of (mg_sessions sample_awaits_release) ''t'' = Some 0" "\<not> mg_closed sample_awaits_release"
    "coordinator_free ''t'' sample_awaits_release"
    "\<forall>r \<in> set (mg_releases sample_awaits_release). None \<noteq> Some (rt_id r)"
    "7 \<notin> set (mg_lock_ids sample_awaits_release)" "7 \<notin> set (mg_created sample_awaits_release)"
    "2 \<notin> set (mg_ids sample_awaits_release)"
    by code_simp+
  from submit_during_close_key_error [OF this(1-7) sample_new_is_new this(8),
      of "sample_message False" None "''y''"]
  show ?thesis by simp
qed

theorem collect_evicts_newest_witness:
  "collect_list 1 (snd (open_finish ''u'' 7 sample_new sample_opened)) = [(''u'', 7)]"
proof -
  have "fst (open_finish ''u'' 7 sample_new sample_opened) = OpenCreated 7" by code_simp
  then have "open_finish ''u'' 7 sample_new sample_opened =
      (OpenCreated 7, snd (open_finish ''u'' 7 sample_new sample_opened))"
    by (metis prod.collapse)
  moreover have "7 \<notin> set (mg_created sample_opened)" "is_idle sample_new"
    "(1::int) \<le> int (length (idle_sessions sample_opened))" "drop 1 (idle_sessions sample_opened) = []"
    by code_simp+
  ultimately show ?thesis
    using collect_evicts_newest [OF sample_opened_reachable, of "''u''" 7 sample_new _ 1] by simp
qed

theorem collect_revokes_queued_witness:
  "fst (collect_close 0 sample_queued) = Inr CloseClaimed \<and>
   (\<exists>e. fst (submit_resume sample_submit ''1'' (Inl []) None
      (grant_permit (snd (collect_close 0 sample_queued)))) = Inl e)"
proof -
  have "map_of (mg_sessions sample_queued) ''t'' = Some 0" "sw_starting (mg_objects sample_queued 0) = None"
    "sn_status (mg_objects sample_queued 0) = QUEUED" "live_handle (mg_objects sample_queued 0) = None"
    "\<not> sn_closed (mg_objects sample_queued 0)" "qo_session sample_submit = 0"
    by code_simp+
  moreover have "manager_step\<^sup>*\<^sup>* (snd (collect_close 0 sample_queued))
      (grant_permit (snd (collect_close 0 sample_queued)))"
    by (intro r_into_rtranclp mg_grant)
  ultimately show ?thesis using collect_revokes_queued [OF sample_queued_reachable] by blast
qed

end
