(* ===== verification/Collab_Model.thy ===== *)
theory Collab_Model
  imports Py_Text
begin

text \<open>
  Session references (\<open>runtime/sessions/ref.py\<close>) and the pure part of the collaboration domain
  (\<open>runtime/collaboration/model.py\<close>): the records, the three transition tables and the bounded-text
  validation. The check \<open>type(value) is str\<close> and its like are the types of the arguments here. Code
  points are below 256, so a character takes one byte in UTF-8 below 128 and two from there on.
\<close>

section \<open>Session references\<close>

record session_ref =
  project_id :: string
  thread_id :: string

definition global_id :: "session_ref \<Rightarrow> string" where
  "global_id r = project_id r @ '':'' @ thread_id r"

datatype session_resolution_error = EmptyReference | NotGlobal string | InvalidReference string

definition before_colon :: "string \<Rightarrow> string" where
  "before_colon s = takeWhile (\<lambda>c. c \<noteq> CHR '':'') s"

definition after_colon :: "string \<Rightarrow> string" where
  "after_colon s = drop 1 (dropWhile (\<lambda>c. c \<noteq> CHR '':'') s)"

definition parse_global_id :: "string \<Rightarrow> session_resolution_error + session_ref" where
  "parse_global_id value =
     (let text = py_strip value in
      if text = [] then Inl EmptyReference
      else if CHR '':'' \<notin> set text then Inl (NotGlobal value)
      else
        let project = py_strip (before_colon text);
            thread = py_strip (after_colon text)
        in if project = [] \<or> thread = [] then Inl (InvalidReference value)
           else Inr \<lparr>project_id = project, thread_id = thread\<rparr>)"

section \<open>Errors and limits\<close>

datatype collab_error =
    CollaborationError string
  | ConflictError string
  | NotFoundError string
  | CapacityError string
  | NotPermittedError string
  | TargetUnavailableError string
  | SqliteIntegrityError string
  | LookupFailure string

definition MAX_ID_BYTES :: nat where "MAX_ID_BYTES = 256"
definition MAX_BODY_BYTES :: nat where "MAX_BODY_BYTES = 32 * 1024"
definition MAX_PAGE_SIZE :: int where "MAX_PAGE_SIZE = 100"
definition MAX_MESSAGES :: nat where "MAX_MESSAGES = 64"
definition MAX_REASON_BYTES :: nat where "MAX_REASON_BYTES = 64"

definition utf8_size :: "string \<Rightarrow> nat" where
  "utf8_size s = sum_list (map (\<lambda>c. if (of_char c :: nat) < 128 then 1 else 2) s)"

definition bounded_text :: "nat \<Rightarrow> string \<Rightarrow> collab_error + string" where
  "bounded_text maximum value =
     (if py_strip value = [] \<or> CHR 0x00 \<in> set value
      then Inl (CollaborationError ''text must be nonempty and contain no NUL'')
      else if maximum < length value then Inl (CollaborationError ''text exceeds byte limit'')
      else if maximum < utf8_size value then Inl (CollaborationError ''text exceeds byte limit'')
      else Inr value)"

definition optional_text :: "nat \<Rightarrow> string \<Rightarrow> collab_error + string" where
  "optional_text maximum value = (if value = [] then Inr [] else bounded_text maximum value)"

definition validate_ref :: "session_ref \<Rightarrow> collab_error + session_ref" where
  "validate_ref ref =
     (case bounded_text MAX_ID_BYTES (project_id ref) of
        Inl e \<Rightarrow> Inl e
      | Inr _ \<Rightarrow>
          (case bounded_text MAX_ID_BYTES (thread_id ref) of Inl e \<Rightarrow> Inl e | Inr _ \<Rightarrow> Inr ref))"

definition page_size :: "int \<Rightarrow> collab_error + int" where
  "page_size limit =
     (if 1 \<le> limit \<and> limit \<le> MAX_PAGE_SIZE then Inr limit
      else Inl (CollaborationError ''invalid page size''))"

section \<open>States and transitions\<close>

datatype request_state = RQ_PENDING | WORKING | WAITING_INPUT | REPLIED | RQ_CANCELLED | FAILED | RQ_REVIEW
datatype message_kind = REQUEST | CLARIFICATION | SUPPLEMENT | REPLY | PROGRESS
datatype delivery_state = PENDING | CLAIMED | RUNNING | SETTLED | CANCELLED | REVIEW
datatype scope_state = SC_ACTIVE | RECEIVE_ONLY | REVOKED

instantiation delivery_state :: enum
begin

definition "enum_delivery_state = [PENDING, CLAIMED, RUNNING, SETTLED, CANCELLED, REVIEW]"
definition "enum_all_delivery_state P \<longleftrightarrow>
  list_all P [PENDING, CLAIMED, RUNNING, SETTLED, CANCELLED, REVIEW]"
definition "enum_ex_delivery_state P \<longleftrightarrow>
  list_ex P [PENDING, CLAIMED, RUNNING, SETTLED, CANCELLED, REVIEW]"

instance
proof
  show "(UNIV :: delivery_state set) = set enum_class.enum"
    unfolding enum_delivery_state_def by (auto intro: delivery_state.exhaust)
  show "distinct (enum_class.enum :: delivery_state list)" by (simp add: enum_delivery_state_def)
  show "enum_class.enum_all P \<longleftrightarrow> Ball UNIV P" for P :: "delivery_state \<Rightarrow> bool"
    by (simp add: enum_all_delivery_state_def) (metis delivery_state.exhaust)
  show "enum_class.enum_ex P \<longleftrightarrow> Bex UNIV P" for P :: "delivery_state \<Rightarrow> bool"
    by (simp add: enum_ex_delivery_state_def) (metis delivery_state.exhaust)
qed

end

fun request_edges :: "request_state \<Rightarrow> request_state list" where
  "request_edges RQ_PENDING = [WORKING, RQ_CANCELLED, RQ_REVIEW]"
| "request_edges WORKING = [WAITING_INPUT, REPLIED, FAILED, RQ_REVIEW, RQ_CANCELLED]"
| "request_edges WAITING_INPUT = [RQ_PENDING, REPLIED, FAILED, RQ_REVIEW, RQ_CANCELLED]"
| "request_edges RQ_REVIEW = [FAILED]"
| "request_edges REPLIED = []"
| "request_edges RQ_CANCELLED = []"
| "request_edges FAILED = []"

fun delivery_edges :: "delivery_state \<Rightarrow> delivery_state list" where
  "delivery_edges PENDING = [CLAIMED, CANCELLED]"
| "delivery_edges CLAIMED = [RUNNING, CANCELLED, REVIEW]"
| "delivery_edges RUNNING = [SETTLED, REVIEW]"
| "delivery_edges REVIEW = [SETTLED]"
| "delivery_edges SETTLED = []"
| "delivery_edges CANCELLED = []"

fun scope_edges :: "scope_state \<Rightarrow> scope_state list" where
  "scope_edges SC_ACTIVE = [RECEIVE_ONLY, REVOKED]"
| "scope_edges RECEIVE_ONLY = [REVOKED]"
| "scope_edges REVOKED = []"

text \<open>\<open>check_transition\<close> takes two values of any of the three domains.\<close>

datatype collab_state = OfRequest request_state | OfDelivery delivery_state | OfScope scope_state

fun check_transition :: "collab_state \<Rightarrow> collab_state \<Rightarrow> collab_error + unit" where
  "check_transition (OfRequest a) (OfRequest b) =
     (if b \<in> set (request_edges a) then Inr ()
      else Inl (ConflictError ''state transition is not allowed''))"
| "check_transition (OfDelivery a) (OfDelivery b) =
     (if b \<in> set (delivery_edges a) then Inr ()
      else Inl (ConflictError ''state transition is not allowed''))"
| "check_transition (OfScope a) (OfScope b) =
     (if b \<in> set (scope_edges a) then Inr ()
      else Inl (ConflictError ''state transition is not allowed''))"
| "check_transition _ _ = Inl (ConflictError ''state domains differ'')"

section \<open>Records\<close>

record continuation_scope =
  scope_id :: string
  scope_source :: session_ref
  scope_work_id :: string
  scope_state :: scope_state
  scope_version :: nat

record collab_request =
  req_id :: string
  req_scope_id :: string
  req_source :: session_ref
  req_target :: session_ref
  req_operation_key :: string
  req_body :: string
  req_anchor_turn_id :: string
  req_state :: request_state
  req_version :: nat
  req_created_at_ms :: int
  req_updated_at_ms :: int
  req_continuation :: scope_state
  req_control_version :: nat

record collab_message =
  msg_id :: string
  msg_request_id :: string
  msg_sequence :: nat
  msg_sender :: session_ref
  msg_kind :: message_kind
  msg_body :: string
  msg_operation_key :: string
  msg_anchor_turn_id :: string
  msg_created_at_ms :: int

record delivery =
  del_id :: string
  del_message_id :: string
  del_request_id :: string
  del_recipient :: session_ref
  del_scope_id :: string
  del_state :: delivery_state
  del_version :: nat
  del_turn_id :: "string option"
  del_reason :: "string option"
  del_sequence :: nat

section \<open>Facts about the tables\<close>

text \<open>A settled or cancelled delivery never changes state again, and ownership is never given back
  to the queue.\<close>

lemma delivery_edges_facts:
  "(\<forall>b. b \<notin> set (delivery_edges SETTLED) \<and> b \<notin> set (delivery_edges CANCELLED)) \<and>
   (\<forall>a. PENDING \<notin> set (delivery_edges a)) \<and>
   (\<forall>a. a \<in> set (delivery_edges a) \<longrightarrow> False)"
  by code_simp

lemma scope_edges_rank: "b \<in> set (scope_edges a) \<Longrightarrow> a \<noteq> REVOKED \<and> b \<noteq> SC_ACTIVE"
  by (cases a) auto

lemma before_after_colon: "CHR '':'' \<notin> set p \<Longrightarrow>
  before_colon (p @ '':'' @ t) = p \<and> after_colon (p @ '':'' @ t) = t"
  by (induction p) (auto simp: before_colon_def after_colon_def)

end
