(* ===== verification/Project_Routing.thy ===== *)
theory Project_Routing
  imports Collab_Model "HOL-Library.List_Lexorder" "HOL-Library.Char_ord"
begin

text \<open>
  The routing of projects to their managers (\<open>runtime/service/routing.py\<close>): the adapters to the
  catalog of projects, and \<open>RuntimeManagerRouter\<close>, which builds one manager per project and closes
  them all.

  The router is used by threads. \<open>router\<close> holds its dictionaries; a \<open>_BuildState\<close> is an object, so it is
  a number and \<open>ro_builds\<close> is their heap, and a manager is a number. Every definition is one locked
  section. A thread that asks for a project runs \<open>router_enter\<close>; it then has its answer, or leads a build
  (\<open>reject_manager\<close> and \<open>build_failed\<close>, or \<open>build_succeeded\<close>, when the provider and the factory have
  answered), or follows one (\<open>follower_answer\<close>, once the build is done). What the provider and the
  factory do is an argument. The shutdown is a task of the event loop with the phases of
  \<open>shutdown_phase\<close>. \<open>ro_build_ids\<close>, \<open>ro_made\<close>, \<open>ro_closes\<close> and \<open>ro_interrupted\<close> only record what happened.
\<close>

section \<open>Bounded text and the catalog\<close>

definition bounded_value :: "nat \<Rightarrow> pyval \<Rightarrow> bool" where
  "bounded_value max_bytes value =
     (case value of
        PStr s \<Rightarrow> s \<noteq> [] \<and> CHR 0x00 \<notin> set s \<and> utf8_size s \<le> max_bytes
      | _ \<Rightarrow> False)"

definition MAX_PROJECT_ID_BYTES :: nat where "MAX_PROJECT_ID_BYTES = 256"
definition MAX_WORKSPACE_BYTES :: nat where "MAX_WORKSPACE_BYTES = 4096"

record catalog_row =
  cr_project_id :: pyval
  cr_workspace_path :: pyval
  cr_name :: pyval
  cr_git_branch :: pyval

record runtime_project =
  rp_project_id :: pyval
  rp_workspace :: pyval

definition nonempty_str :: "pyval \<Rightarrow> string option" where
  "nonempty_str v = (case v of PStr s \<Rightarrow> if s = [] then None else Some s | _ \<Rightarrow> None)"

text \<open>\<open>CatalogProjectProvider.__call__\<close> on the row that the lookup finds.\<close>

definition catalog_project :: "catalog_row option \<Rightarrow> string \<Rightarrow> runtime_project option" where
  "catalog_project row project =
     (case row of
        None \<Rightarrow> None
      | Some r \<Rightarrow>
          (case nonempty_str (cr_workspace_path r) of
             Some w \<Rightarrow>
               if cr_project_id r = PStr project \<and> CHR 0x00 \<notin> set w
               then Some \<lparr>rp_project_id = cr_project_id r, rp_workspace = PStr w\<rparr> else None
           | None \<Rightarrow> None))"

record project_list_item =
  pi_project_id :: string
  pi_workspace_name :: "string option"
  pi_git_branch :: "string option"
  pi_workspace_path :: string

record project_list_page =
  pp_projects :: "project_list_item list"
  pp_next_offset :: "nat option"
  pp_total :: nat

text \<open>One row of the scan: skipped, or an item.\<close>

definition list_item :: "catalog_row \<Rightarrow> project_list_item option" where
  "list_item row =
     (case (nonempty_str (cr_project_id row), nonempty_str (cr_workspace_path row)) of
        (Some p, Some w) \<Rightarrow>
          Some \<lparr>pi_project_id = p, pi_workspace_name = nonempty_str (cr_name row),
                pi_git_branch = nonempty_str (cr_git_branch row), pi_workspace_path = w\<rparr>
      | _ \<Rightarrow> None)"

definition allowed_item :: "string list \<Rightarrow> project_list_item \<Rightarrow> bool" where
  "allowed_item allowed item \<longleftrightarrow> allowed = [] \<or> pi_project_id item \<in> set allowed"

definition visible_items :: "string list \<Rightarrow> catalog_row list \<Rightarrow> project_list_item list" where
  "visible_items allowed rows = filter (allowed_item allowed) (List.map_filter list_item rows)"

text \<open>\<open>CatalogProjectListProvider.__call__\<close> on the rows of its bounded scan.\<close>

definition list_page :: "string list \<Rightarrow> nat \<Rightarrow> nat \<Rightarrow> catalog_row list \<Rightarrow> project_list_page" where
  "list_page allowed offset limit rows =
     (let items = visible_items allowed rows;
          page = take limit (drop offset items);
          consumed = offset + length page
      in \<lparr>pp_projects = page,
          pp_next_offset = (if consumed < length items then Some consumed else None),
          pp_total = length items\<rparr>)"

datatype register_error = RegisterValueError string

text \<open>
  \<open>CatalogProjectRegistrar.__call__\<close>: \<open>resolved\<close> is the path as the file system resolves it, if it does,
  and whether it is a directory; \<open>register\<close> writes the catalog.
\<close>

definition register_workspace ::
  "(string \<times> bool) option \<Rightarrow> (string \<Rightarrow> catalog_row) \<Rightarrow> register_error + project_list_item" where
  "register_workspace resolved register =
     (case resolved of
        None \<Rightarrow> Inl (RegisterValueError ''workspace path is not accessible'')
      | Some (workspace, is_dir) \<Rightarrow>
          if \<not> is_dir then Inl (RegisterValueError ''workspace path is not a directory'')
          else (case list_item (register workspace) of
                  None \<Rightarrow> Inl (RegisterValueError ''catalog returned an invalid project row'')
                | Some item \<Rightarrow> Inr item))"

text \<open>The pages a client reads when it follows \<open>next_offset\<close>.\<close>

fun read_pages :: "nat \<Rightarrow> string list \<Rightarrow> nat \<Rightarrow> nat \<Rightarrow> catalog_row list \<Rightarrow> project_list_item list" where
  "read_pages 0 allowed offset limit rows = []"
| "read_pages (Suc fuel) allowed offset limit rows =
     (let page = list_page allowed offset limit rows
      in pp_projects page @
         (case pp_next_offset page of None \<Rightarrow> [] | Some next \<Rightarrow> read_pages fuel allowed next limit rows))"

section \<open>The router\<close>

datatype descriptor_value = NoDescriptor | OtherDescriptor | Descriptor runtime_project

datatype factory_answer = FactoryRaises string | NotAManager | AManager nat "string option"

datatype build_outcome = BuildNothing | BuildManager nat | BuildRejects nat string | BuildRaises string

definition valid_descriptor :: "runtime_project \<Rightarrow> string \<Rightarrow> bool" where
  "valid_descriptor d project \<longleftrightarrow>
     rp_project_id d = PStr project \<and> bounded_value MAX_PROJECT_ID_BYTES (rp_project_id d) \<and>
     bounded_value MAX_WORKSPACE_BYTES (rp_workspace d)"

text \<open>What a leader finds out in \<open>_build_one\<close> before it takes the lock.\<close>

definition build_one :: "string + descriptor_value \<Rightarrow> (runtime_project \<Rightarrow> factory_answer) \<Rightarrow> string \<Rightarrow> build_outcome" where
  "build_one provided factory project =
     (case provided of
        Inl e \<Rightarrow> BuildRaises e
      | Inr (Descriptor d) \<Rightarrow>
          if \<not> valid_descriptor d project then BuildNothing
          else (case factory d of
                  FactoryRaises e \<Rightarrow> BuildRaises e
                | NotAManager \<Rightarrow> BuildRaises ''runtime manager factory returned an invalid object''
                | AManager m p \<Rightarrow>
                    if p \<noteq> Some project
                    then BuildRejects m ''runtime manager factory returned a mismatched project''
                    else BuildManager m)
      | Inr _ \<Rightarrow> BuildNothing)"

record build_state =
  bs_project :: string
  bs_done :: bool
  bs_manager :: "nat option"
  bs_error :: "string option"

text \<open>The shutdown waits for the builds it has seen, closes the managers, and is over, with an error or not.\<close>

datatype shutdown_phase =
    WaitBuilds "nat list"
  | CloseManagers "nat list" "(nat \<times> string option) list" "string option"
  | ShutdownDone "string option"

record router =
  ro_published :: "(string \<times> nat) list"
  ro_rejected :: "nat list"
  ro_inflight :: "(string \<times> nat) list"
  ro_builds :: "nat \<Rightarrow> build_state"
  ro_closing :: bool
  ro_closed :: bool
  ro_shutdown :: "shutdown_phase option"
  ro_build_ids :: "nat list"
  ro_made :: "nat list"
  ro_closes :: "nat list"
  ro_interrupted :: bool

definition blank_build :: build_state where
  "blank_build = \<lparr>bs_project = [], bs_done = False, bs_manager = None, bs_error = None\<rparr>"

definition new_router :: router where
  "new_router =
     \<lparr>ro_published = [], ro_rejected = [], ro_inflight = [], ro_builds = (\<lambda>_. blank_build),
      ro_closing = False, ro_closed = False, ro_shutdown = None, ro_build_ids = [], ro_made = [],
      ro_closes = [], ro_interrupted = False\<rparr>"

datatype call_answer =
    CallRaises string
  | CallReturns "nat option"
  | CallLeads nat
  | CallFollows nat

definition router_closed_error :: string where
  "router_closed_error = ''runtime manager router is closed''"

text \<open>\<open>__call__\<close>; the fresh \<open>b\<close> is used by a leader. The check before it changes nothing.\<close>

definition raise_if_closed :: "router \<Rightarrow> call_answer option" where
  "raise_if_closed r = (if ro_closing r \<or> ro_closed r then Some (CallRaises router_closed_error) else None)"

definition router_enter :: "pyval \<Rightarrow> nat \<Rightarrow> router \<Rightarrow> call_answer \<times> router" where
  "router_enter project b r =
     (if \<not> bounded_value MAX_PROJECT_ID_BYTES project then (CallReturns None, r)
      else case raise_if_closed r of
        Some a \<Rightarrow> (a, r)
      | None \<Rightarrow>
          let p = (case project of PStr s \<Rightarrow> s | _ \<Rightarrow> [])
          in (case map_of (ro_published r) p of
                Some m \<Rightarrow> (CallReturns (Some m), r)
              | None \<Rightarrow>
                  (case map_of (ro_inflight r) p of
                     Some c \<Rightarrow> (CallFollows c, r)
                   | None \<Rightarrow>
                       (CallLeads b,
                        r\<lparr>ro_inflight := dict_set p b (ro_inflight r),
                          ro_builds := (ro_builds r)(b := blank_build\<lparr>bs_project := p\<rparr>),
                          ro_build_ids := b # ro_build_ids r\<rparr>))))"

definition reject_manager :: "nat \<Rightarrow> router \<Rightarrow> router" where
  "reject_manager m r =
     r\<lparr>ro_rejected := (if m \<in> set (ro_rejected r) then ro_rejected r else ro_rejected r @ [m]),
       ro_made := m # ro_made r\<rparr>"

definition forget_build :: "nat \<Rightarrow> router \<Rightarrow> router" where
  "forget_build b r =
     (let p = bs_project (ro_builds r b)
      in if map_of (ro_inflight r) p = Some b
         then r\<lparr>ro_inflight := dict_pop p (ro_inflight r)\<rparr> else r)"

definition build_failed :: "nat \<Rightarrow> string \<Rightarrow> router \<Rightarrow> string \<times> router" where
  "build_failed b e r =
     (e, (forget_build b r)\<lparr>ro_builds := (ro_builds r)(b := (ro_builds r b)\<lparr>bs_error := Some e, bs_done := True\<rparr>)\<rparr>)"

definition build_succeeded :: "nat \<Rightarrow> nat option \<Rightarrow> router \<Rightarrow> (string + nat option) \<times> router" where
  "build_succeeded b result r =
     (let p = bs_project (ro_builds r b);
          r1 = (case result of
                  None \<Rightarrow> r
                | Some m \<Rightarrow> r\<lparr>ro_published := dict_set p m (ro_published r), ro_made := m # ro_made r\<rparr>);
          r2 = (forget_build b r1)\<lparr>ro_builds :=
                  (ro_builds r)(b := (ro_builds r b)\<lparr>bs_manager := result, bs_done := True\<rparr>)\<rparr>
      in (if ro_closing r then Inl router_closed_error else Inr result, r2))"

definition follower_answer :: "nat \<Rightarrow> router \<Rightarrow> string + nat option" where
  "follower_answer b r =
     (case bs_error (ro_builds r b) of
        Some e \<Rightarrow> Inl e
      | None \<Rightarrow> if ro_closing r then Inl router_closed_error else Inr (bs_manager (ro_builds r b)))"

definition router_project_ids :: "router \<Rightarrow> string list" where
  "router_project_ids r = sort (map fst (ro_published r))"

definition manager_count :: "router \<Rightarrow> nat" where
  "manager_count r = length (ro_published r)"

definition published_manager :: "string \<Rightarrow> router \<Rightarrow> nat option" where
  "published_manager project r = map_of (ro_published r) project"

section \<open>Shutting down\<close>

definition router_shutdown :: "router \<Rightarrow> router" where
  "router_shutdown r =
     (case ro_shutdown r of
        Some _ \<Rightarrow> r
      | None \<Rightarrow> r\<lparr>ro_shutdown := Some (WaitBuilds (map snd (ro_inflight r))), ro_closing := True\<rparr>)"

text \<open>
  The managers by identity. The wait for the builds ends when they are done, or is interrupted with an
  error.
\<close>

definition owned_managers :: "router \<Rightarrow> nat list" where
  "owned_managers r =
     (let published = remdups (map snd (ro_published r))
      in published @ filter (\<lambda>m. m \<notin> set published) (ro_rejected r))"

definition finish_builds :: "string option \<Rightarrow> router \<Rightarrow> router" where
  "finish_builds interrupted r =
     r\<lparr>ro_shutdown := Some (CloseManagers (owned_managers r) [] interrupted),
       ro_interrupted := (ro_interrupted r \<or> interrupted \<noteq> None)\<rparr>"

definition close_one :: "nat \<Rightarrow> string option \<Rightarrow> router \<Rightarrow> router" where
  "close_one m result r =
     (case ro_shutdown r of
        Some (CloseManagers ms results e) \<Rightarrow>
          r\<lparr>ro_shutdown := Some (CloseManagers ms ((m, result) # results) e), ro_closes := m # ro_closes r\<rparr>
      | _ \<Rightarrow> r)"

fun first_error :: "nat list \<Rightarrow> (nat \<times> string option) list \<Rightarrow> string option" where
  "first_error [] results = None"
| "first_error (m # ms) results =
     (case map_of results m of Some (Some e) \<Rightarrow> Some e | _ \<Rightarrow> first_error ms results)"

definition finish_shutdown :: "router \<Rightarrow> router" where
  "finish_shutdown r =
     (case ro_shutdown r of
        Some (CloseManagers ms results e) \<Rightarrow>
          r\<lparr>ro_shutdown := Some (ShutdownDone (case e of None \<Rightarrow> first_error ms results | Some x \<Rightarrow> Some x)),
            ro_closed := True, ro_published := [], ro_rejected := [], ro_inflight := []\<rparr>
      | _ \<Rightarrow> r)"

text \<open>\<open>shutdown\<close> returns when the shared state is done, and raises its error.\<close>

definition shutdown_answer :: "router \<Rightarrow> (string option) option" where
  "shutdown_answer r = (case ro_shutdown r of Some (ShutdownDone e) \<Rightarrow> Some e | _ \<Rightarrow> None)"

section \<open>The router as a step system\<close>

text \<open>
  A build ends once, by its leader. The leader of a build whose manager is rejected fails it next; that
  the two sections belong together does not matter to what is shown.
\<close>

inductive router_step :: "router \<Rightarrow> router \<Rightarrow> bool" where
  ro_enter: "b \<notin> set (ro_build_ids r) \<Longrightarrow> router_step r (snd (router_enter project b r))"
| ro_reject: "b \<in> set (ro_build_ids r) \<Longrightarrow> \<not> bs_done (ro_builds r b) \<Longrightarrow>
    build_one provided factory (bs_project (ro_builds r b)) = BuildRejects m e \<Longrightarrow>
    router_step r (reject_manager m r)"
| ro_fail: "b \<in> set (ro_build_ids r) \<Longrightarrow> \<not> bs_done (ro_builds r b) \<Longrightarrow>
    router_step r (snd (build_failed b e r))"
| ro_succeed: "b \<in> set (ro_build_ids r) \<Longrightarrow> \<not> bs_done (ro_builds r b) \<Longrightarrow>
    build_one provided factory (bs_project (ro_builds r b)) =
      (case result of None \<Rightarrow> BuildNothing | Some m \<Rightarrow> BuildManager m) \<Longrightarrow>
    router_step r (snd (build_succeeded b result r))"
| ro_begin: "router_step r (router_shutdown r)"
| ro_builds_done: "ro_shutdown r = Some (WaitBuilds bs) \<Longrightarrow> \<forall>b \<in> set bs. bs_done (ro_builds r b) \<Longrightarrow>
    router_step r (finish_builds None r)"
| ro_interrupt: "ro_shutdown r = Some (WaitBuilds bs) \<Longrightarrow> router_step r (finish_builds (Some e) r)"
| ro_close: "ro_shutdown r = Some (CloseManagers ms results e) \<Longrightarrow> m \<in> set ms \<Longrightarrow>
    m \<notin> fst ` set results \<Longrightarrow> router_step r (close_one m result r)"
| ro_finish: "ro_shutdown r = Some (CloseManagers ms results e) \<Longrightarrow> set ms \<subseteq> fst ` set results \<Longrightarrow>
    router_step r (finish_shutdown r)"

inductive is_new_router :: "router \<Rightarrow> bool" where
  "is_new_router new_router"

abbreviation router_reach :: "router \<Rightarrow> bool" where
  "router_reach \<equiv> reach is_new_router router_step"

end
