(* ===== verification/Routing_Contract.thy ===== *)
theory Routing_Contract
  imports Project_Routing
begin

text \<open>
  The invariant of the router: one build at a time for a project, a published manager stays, and the
  shutdown accounts for every manager; and the properties that rest on it.
\<close>

section \<open>Invariant\<close>

definition open_builds :: "router \<Rightarrow> nat set" where
  "open_builds r = {b \<in> set (ro_build_ids r). \<not> bs_done (ro_builds r b)}"

definition builds_ok :: "router \<Rightarrow> bool" where
  "builds_ok r \<longleftrightarrow>
     (\<forall>p b. map_of (ro_inflight r) p = Some b \<longrightarrow> b \<in> open_builds r \<and> bs_project (ro_builds r b) = p) \<and>
     (\<not> ro_closed r \<longrightarrow> (\<forall>b \<in> open_builds r. map_of (ro_inflight r) (bs_project (ro_builds r b)) = Some b \<and>
        map_of (ro_published r) (bs_project (ro_builds r b)) = None))"

definition results_ok :: "router \<Rightarrow> bool" where
  "results_ok r \<longleftrightarrow>
     (\<forall>b \<in> set (ro_build_ids r). \<forall>m. bs_manager (ro_builds r b) = Some m \<longrightarrow>
        bs_done (ro_builds r b) \<and>
        (\<not> ro_closed r \<longrightarrow> map_of (ro_published r) (bs_project (ro_builds r b)) = Some m))"

definition owned_ok :: "router \<Rightarrow> bool" where
  "owned_ok r \<longleftrightarrow> (\<not> ro_closed r \<longrightarrow> set (ro_made r) = snd ` set (ro_published r) \<union> set (ro_rejected r)) \<and>
     distinct (ro_rejected r)"

definition phase_ok :: "router \<Rightarrow> bool" where
  "phase_ok r \<longleftrightarrow>
     (ro_closing r \<longleftrightarrow> ro_shutdown r \<noteq> None) \<and> (ro_closed r \<longrightarrow> ro_closing r) \<and>
     (case ro_shutdown r of
        None \<Rightarrow> ro_closes r = [] \<and> \<not> ro_closed r
      | Some (WaitBuilds bs) \<Rightarrow> ro_closes r = [] \<and> \<not> ro_closed r \<and> open_builds r \<subseteq> set bs
      | Some (CloseManagers ms results e) \<Rightarrow>
          \<not> ro_closed r \<and> distinct (ro_closes r) \<and> set (ro_closes r) = fst ` set results \<and>
          fst ` set results \<subseteq> set ms \<and>
          (\<not> ro_interrupted r \<longrightarrow> open_builds r = {} \<and> set ms = set (ro_made r))
      | Some (ShutdownDone e) \<Rightarrow>
          ro_closed r \<and> distinct (ro_closes r) \<and>
          (\<not> ro_interrupted r \<longrightarrow> open_builds r = {} \<and> set (ro_closes r) = set (ro_made r)))"

definition router_inv :: "router \<Rightarrow> bool" where
  "router_inv r \<longleftrightarrow> builds_ok r \<and> results_ok r \<and> owned_ok r \<and> phase_ok r"

lemma router_invI:
  "builds_ok r \<Longrightarrow> results_ok r \<Longrightarrow> owned_ok r \<Longrightarrow> phase_ok r \<Longrightarrow> router_inv r"
  by (simp add: router_inv_def)

lemma router_invD:
  assumes "router_inv r"
  shows "builds_ok r" "results_ok r" "owned_ok r" "phase_ok r"
  using assms by (simp_all add: router_inv_def)

lemma inflight_open:
  "builds_ok r \<Longrightarrow> map_of (ro_inflight r) p = Some b \<Longrightarrow> b \<in> open_builds r \<and> bs_project (ro_builds r b) = p"
  by (simp add: builds_ok_def)

lemma open_inflight:
  "builds_ok r \<Longrightarrow> \<not> ro_closed r \<Longrightarrow> b \<in> open_builds r \<Longrightarrow>
     map_of (ro_inflight r) (bs_project (ro_builds r b)) = Some b \<and>
     map_of (ro_published r) (bs_project (ro_builds r b)) = None"
  by (simp add: builds_ok_def)

lemma result_published:
  "results_ok r \<Longrightarrow> b \<in> set (ro_build_ids r) \<Longrightarrow> bs_manager (ro_builds r b) = Some m \<Longrightarrow> \<not> ro_closed r \<Longrightarrow>
     map_of (ro_published r) (bs_project (ro_builds r b)) = Some m"
  unfolding results_ok_def by blast

section \<open>Every section keeps it\<close>

text \<open>Sections that change neither builds nor published managers.\<close>

lemma builds_frame:
  assumes "ro_builds r' = ro_builds r" "ro_build_ids r' = ro_build_ids r" "ro_inflight r' = ro_inflight r"
    "ro_published r' = ro_published r" "ro_closed r' = ro_closed r"
  shows "open_builds r' = open_builds r" "builds_ok r' = builds_ok r" "results_ok r' = results_ok r"
proof -
  show o: "open_builds r' = open_builds r" unfolding open_builds_def assms ..
  show "builds_ok r' = builds_ok r" unfolding builds_ok_def o assms ..
  show "results_ok r' = results_ok r" unfolding results_ok_def assms ..
qed

lemma inv_enter:
  assumes inv: "router_inv r" and fresh: "b \<notin> set (ro_build_ids r)"
  shows "router_inv (snd (router_enter project b r))"
proof (cases "\<exists>p. project = PStr p \<and> bounded_value MAX_PROJECT_ID_BYTES project \<and> raise_if_closed r = None \<and>
    map_of (ro_published r) p = None \<and> map_of (ro_inflight r) p = None")
  case False
  then have "snd (router_enter project b r) = r"
    by (cases project) (auto simp: router_enter_def Let_def bounded_value_def split: option.split)
  with inv show ?thesis by simp
next
  case True
  let ?r = "snd (router_enter project b r)"
  obtain p where p: "project = PStr p" "bounded_value MAX_PROJECT_ID_BYTES project" "raise_if_closed r = None"
    and new: "map_of (ro_published r) p = None" "map_of (ro_inflight r) p = None"
    using True by blast
  then have opn: "\<not> ro_closing r" "\<not> ro_closed r" by (simp_all add: raise_if_closed_def split: if_splits)
  have r': "?r = r\<lparr>ro_inflight := dict_set p b (ro_inflight r),
      ro_builds := (ro_builds r)(b := blank_build\<lparr>bs_project := p\<rparr>), ro_build_ids := b # ro_build_ids r\<rparr>"
    using p new by (simp add: router_enter_def)
  define r1 where "r1 = ?r"
  have f: "ro_inflight r1 = dict_set p b (ro_inflight r)" "ro_published r1 = ro_published r"
    "ro_builds r1 = (ro_builds r)(b := blank_build\<lparr>bs_project := p\<rparr>)"
    "ro_build_ids r1 = b # ro_build_ids r" "ro_closed r1 = ro_closed r" "ro_closing r1 = ro_closing r"
    "ro_shutdown r1 = ro_shutdown r" "ro_rejected r1 = ro_rejected r" "ro_made r1 = ro_made r"
    "ro_closes r1 = ro_closes r" "ro_interrupted r1 = ro_interrupted r"
    unfolding r1_def r' by simp_all
  have blank: "bs_project (ro_builds r1 b) = p" "\<not> bs_done (ro_builds r1 b)"
    "bs_manager (ro_builds r1 b) = None"
    by (simp_all add: f(3) blank_build_def)
  have other: "ro_builds r1 c = ro_builds r c" if "c \<noteq> b" for c using that by (simp add: f(3))
  have o: "open_builds r1 = insert b (open_builds r)"
  proof -
    have "c \<in> open_builds r1 \<longleftrightarrow> c = b \<or> c \<in> open_builds r" for c
      by (cases "c = b") (use blank(2) other [of c] in \<open>simp_all add: open_builds_def f(4)\<close>)
    then show ?thesis by blast
  qed
  have b: "b \<notin> open_builds r" using fresh by (simp add: open_builds_def)
  note ok = router_invD [OF inv]
  have single: "bs_project (ro_builds r c) \<noteq> p" if "c \<in> open_builds r" for c
    using open_inflight [OF ok(1) opn(2) that] new(2) by auto
  have inflight: "map_of (ro_inflight r1) q = (if q = p then Some b else map_of (ro_inflight r) q)" for q
    by (simp add: f(1) AList.update_conv')
  have "builds_ok r1"
    unfolding builds_ok_def o
  proof (intro conjI allI impI ballI)
    fix q c assume "map_of (ro_inflight r1) q = Some c"
    then have q: "q = p \<and> c = b \<or> q \<noteq> p \<and> map_of (ro_inflight r) q = Some c"
      unfolding inflight by (auto split: if_splits)
    then have "c = b \<and> q = p \<or> c \<in> open_builds r \<and> bs_project (ro_builds r c) = q"
      using inflight_open [OF ok(1), of q c] by blast
    then show "c \<in> insert b (open_builds r)" "bs_project (ro_builds r1 c) = q"
      using b other [of c] blank(1) by (cases "c = b"; simp)+
  next
    fix c assume c: "c \<in> insert b (open_builds r)"
    have "map_of (ro_inflight r1) (bs_project (ro_builds r1 c)) = Some c \<and>
        map_of (ro_published r1) (bs_project (ro_builds r1 c)) = None"
    proof (cases "c = b")
      case True
      then show ?thesis by (simp add: inflight blank(1) f(2) new(1))
    next
      case False
      with c have c': "c \<in> open_builds r" by blast
      then show ?thesis
        using open_inflight [OF ok(1) opn(2) c'] single [OF c'] by (simp add: inflight other [OF False] f(2))
    qed
    then show "map_of (ro_inflight r1) (bs_project (ro_builds r1 c)) = Some c"
      "map_of (ro_published r1) (bs_project (ro_builds r1 c)) = None" by simp_all
  qed
  moreover have "results_ok r1"
    unfolding results_ok_def
  proof (intro ballI allI impI)
    fix c m assume c: "c \<in> set (ro_build_ids r1)" "bs_manager (ro_builds r1 c) = Some m"
    then have "c \<noteq> b" using blank(3) by auto
    with c ok(2) show "bs_done (ro_builds r1 c) \<and>
        (\<not> ro_closed r1 \<longrightarrow> map_of (ro_published r1) (bs_project (ro_builds r1 c)) = Some m)"
      unfolding results_ok_def by (simp add: other f(2,4,5))
  qed
  moreover have "owned_ok r1" using ok(3) unfolding owned_ok_def f .
  moreover have "ro_shutdown r = None" using ok(4) opn(1) by (simp add: phase_ok_def)
  then have "phase_ok r1" using ok(4) by (simp add: phase_ok_def f)
  ultimately have "router_inv r1" by (intro router_invI)
  then show ?thesis unfolding r1_def .
qed

lemma inv_reject:
  assumes inv: "router_inv r" and "b \<in> open_builds r"
  shows "router_inv (reject_manager m r)"
proof -
  let ?r = "reject_manager m r"
  note ok = router_invD [OF inv]
  have "builds_ok ?r" "results_ok ?r" "open_builds ?r = open_builds r"
    using builds_frame [of ?r r] ok by (simp_all add: reject_manager_def)
  moreover have "owned_ok ?r" using ok(3) by (auto simp: owned_ok_def reject_manager_def)
  moreover have "phase_ok ?r"
    using ok(4) assms(2) calculation(3)
    by (auto simp: phase_ok_def reject_manager_def split: option.splits shutdown_phase.splits)
  ultimately show ?thesis by (intro router_invI)
qed

lemma forget_build_fields [simp]:
  "ro_published (forget_build b r) = ro_published r" "ro_builds (forget_build b r) = ro_builds r"
  "ro_build_ids (forget_build b r) = ro_build_ids r" "ro_closed (forget_build b r) = ro_closed r"
  "ro_closing (forget_build b r) = ro_closing r" "ro_shutdown (forget_build b r) = ro_shutdown r"
  "ro_rejected (forget_build b r) = ro_rejected r" "ro_made (forget_build b r) = ro_made r"
  "ro_closes (forget_build b r) = ro_closes r" "ro_interrupted (forget_build b r) = ro_interrupted r"
  by (simp_all add: forget_build_def Let_def)

lemma forget_build_inflight:
  "map_of (ro_inflight (forget_build b r)) q =
     (if q = bs_project (ro_builds r b) \<and> map_of (ro_inflight r) q = Some b then None
      else map_of (ro_inflight r) q)"
  by (auto simp: forget_build_def Let_def AList.delete_conv')

text \<open>The end of a build, with a result or not; the published managers grow by its result.\<close>

lemma inv_build_end:
  assumes inv: "router_inv r" and b: "b \<in> open_builds r"
    and r': "r' = (forget_build b r1)\<lparr>ro_builds := (ro_builds r)(b := s)\<rparr>"
    and s: "bs_done s" "bs_project s = bs_project (ro_builds r b)" "bs_manager s = result"
    and r1: "r1 = (case result of None \<Rightarrow> r
       | Some m \<Rightarrow> r\<lparr>ro_published := dict_set (bs_project (ro_builds r b)) m (ro_published r),
                    ro_made := m # ro_made r\<rparr>)"
  shows "router_inv r'"
proof -
  note ok = router_invD [OF inv]
  let ?p = "bs_project (ro_builds r b)"
  have f: "ro_builds r1 = ro_builds r" "ro_build_ids r1 = ro_build_ids r" "ro_inflight r1 = ro_inflight r"
    "ro_closed r1 = ro_closed r" "ro_closing r1 = ro_closing r" "ro_shutdown r1 = ro_shutdown r"
    "ro_rejected r1 = ro_rejected r" "ro_closes r1 = ro_closes r" "ro_interrupted r1 = ro_interrupted r"
    by (simp_all add: r1 split: option.split)
  have f': "ro_builds r' = (ro_builds r)(b := s)" "ro_build_ids r' = ro_build_ids r"
    "ro_closed r' = ro_closed r" "ro_closing r' = ro_closing r" "ro_shutdown r' = ro_shutdown r"
    "ro_rejected r' = ro_rejected r" "ro_closes r' = ro_closes r" "ro_interrupted r' = ro_interrupted r"
    "ro_published r' = ro_published r1" "ro_made r' = ro_made r1"
    by (simp_all add: r' f)
  have pub: "map_of (ro_published r') q = (if q = ?p \<and> result \<noteq> None then result else map_of (ro_published r) q)" for q
    by (simp add: f' r1 AList.update_conv' split: option.split)
  have o: "open_builds r' = open_builds r - {b}"
    using s(1) by (auto simp: open_builds_def f')
  have single: "c = b" if "\<not> ro_closed r" "c \<in> open_builds r" "bs_project (ro_builds r c) = ?p" for c
    using ok(1) b that unfolding builds_ok_def by (metis option.inject)
  have fresh: "map_of (ro_published r) ?p = None" if "\<not> ro_closed r"
    using ok(1) b that unfolding builds_ok_def by blast
  have inflight: "map_of (ro_inflight r') q =
      (if q = ?p \<and> map_of (ro_inflight r) q = Some b then None else map_of (ro_inflight r) q)" for q
  proof -
    have "ro_inflight r' = ro_inflight (forget_build b r1)" by (simp add: r')
    then show ?thesis by (simp only: forget_build_inflight f)
  qed
  have "builds_ok r'"
    unfolding builds_ok_def o
  proof (intro conjI allI impI ballI)
    fix q c assume "map_of (ro_inflight r') q = Some c"
    then have q: "map_of (ro_inflight r) q = Some c" "\<not> (q = ?p \<and> c = b)"
      unfolding inflight by (auto split: if_splits)
    with ok(1) have "c \<in> open_builds r" "bs_project (ro_builds r c) = q"
      unfolding builds_ok_def by blast+
    with q(2) show "c \<in> open_builds r - {b}" "bs_project (ro_builds r' c) = q" by (auto simp: f'(1))
  next
    fix c assume "\<not> ro_closed r'" and c: "c \<in> open_builds r - {b}"
    then have n: "\<not> ro_closed r" by (simp add: f')
    then have p: "bs_project (ro_builds r c) \<noteq> ?p" using single c by blast
    have "map_of (ro_inflight r) (bs_project (ro_builds r c)) = Some c \<and>
        map_of (ro_published r) (bs_project (ro_builds r c)) = None"
      using ok(1) n c unfolding builds_ok_def by blast
    then show "map_of (ro_inflight r') (bs_project (ro_builds r' c)) = Some c"
      "map_of (ro_published r') (bs_project (ro_builds r' c)) = None"
      using c p by (simp_all add: inflight f'(1) pub)
  qed
  moreover have "results_ok r'"
    unfolding results_ok_def
  proof (intro ballI allI impI)
    fix c m assume c: "c \<in> set (ro_build_ids r')" "bs_manager (ro_builds r' c) = Some m"
    show "bs_done (ro_builds r' c) \<and>
        (\<not> ro_closed r' \<longrightarrow> map_of (ro_published r') (bs_project (ro_builds r' c)) = Some m)"
    proof (cases "c = b")
      case True
      with c s show ?thesis by (simp add: f'(1) pub)
    next
      case False
      with c ok(2) have "bs_done (ro_builds r c)"
        "\<not> ro_closed r \<longrightarrow> map_of (ro_published r) (bs_project (ro_builds r c)) = Some m"
        unfolding results_ok_def f'(1,2) by simp_all
      then show ?thesis using False fresh by (auto simp: f'(1,3) pub)
    qed
  qed
  moreover have "owned_ok r'"
  proof (cases result)
    case None
    then show ?thesis using ok(3) by (simp add: owned_ok_def f' r1)
  next
    case (Some m)
    have "dict_set ?p m (ro_published r) = ro_published r @ [(?p, m)]" if "\<not> ro_closed r"
      using fresh [OF that] by (simp add: dict_set_new map_of_eq_None_iff)
    then show ?thesis using ok(3) Some by (auto simp: owned_ok_def f' r1)
  qed
  moreover have "phase_ok r'"
  proof -
    have "ro_made r' = ro_made r \<or> open_builds r \<noteq> {}" using b by blast
    then show ?thesis
      using ok(4) b o by (cases "ro_shutdown r") (auto simp: phase_ok_def f' split: shutdown_phase.splits)
  qed
  ultimately show ?thesis by (rule router_invI)
qed

lemma inv_frame:
  assumes inv: "router_inv r"
    and f: "ro_builds r' = ro_builds r" "ro_build_ids r' = ro_build_ids r" "ro_inflight r' = ro_inflight r"
      "ro_published r' = ro_published r" "ro_closed r' = ro_closed r" "ro_rejected r' = ro_rejected r"
      "ro_made r' = ro_made r"
    and "phase_ok r'"
  shows "router_inv r'"
  using router_invD [OF inv] builds_frame [OF f(1-5)] assms(9)
  by (intro router_invI) (simp_all add: owned_ok_def f)

lemma inv_begin:
  assumes inv: "router_inv r"
  shows "router_inv (router_shutdown r)"
proof (cases "ro_shutdown r")
  case None
  let ?r = "router_shutdown r"
  note ok = router_invD [OF inv]
  have r': "?r = r\<lparr>ro_shutdown := Some (WaitBuilds (map snd (ro_inflight r))), ro_closing := True\<rparr>"
    by (simp add: router_shutdown_def None)
  have n: "\<not> ro_closed r" "ro_closes r = []" using ok(4) None by (simp_all add: phase_ok_def)
  have "open_builds r \<subseteq> set (map snd (ro_inflight r))"
  proof
    fix b assume "b \<in> open_builds r"
    then have "map_of (ro_inflight r) (bs_project (ro_builds r b)) = Some b"
      using ok(1) n(1) unfolding builds_ok_def by blast
    then show "b \<in> set (map snd (ro_inflight r))" using map_of_SomeD by force
  qed
  moreover have "open_builds ?r = open_builds r" by (simp add: open_builds_def r')
  ultimately have "phase_ok ?r" using n by (simp add: phase_ok_def r')
  then show ?thesis by (rule inv_frame [OF inv, rotated 7]) (simp_all add: r')
qed (simp add: router_shutdown_def inv)

lemma inv_finish_builds:
  assumes inv: "router_inv r" and ph: "ro_shutdown r = Some (WaitBuilds bs)"
    and "interrupted = None \<longrightarrow> (\<forall>b \<in> set bs. bs_done (ro_builds r b))"
  shows "router_inv (finish_builds interrupted r)"
proof -
  let ?r = "finish_builds interrupted r"
  note ok = router_invD [OF inv]
  have p: "\<not> ro_closed r" "open_builds r \<subseteq> set bs" "ro_closes r = []" "ro_closing r"
    using ok(4) ph by (simp_all add: phase_ok_def)
  have "open_builds r = {}" if "interrupted = None"
    using p(2) assms(3) that by (auto simp: open_builds_def)
  moreover have "set (owned_managers r) = set (ro_made r)"
    using ok(3) p(1) by (auto simp: owned_ok_def owned_managers_def Let_def)
  moreover have o: "open_builds ?r = open_builds r" by (simp add: open_builds_def finish_builds_def)
  ultimately have "phase_ok ?r" unfolding phase_ok_def o using p by (simp add: finish_builds_def)
  then show ?thesis by (rule inv_frame [OF inv, rotated 7]) (simp_all add: finish_builds_def)
qed

lemma inv_close_one:
  assumes inv: "router_inv r" and ph: "ro_shutdown r = Some (CloseManagers ms results e)"
    and m: "m \<in> set ms" "m \<notin> fst ` set results"
  shows "router_inv (close_one m result r)"
proof -
  let ?r = "close_one m result r"
  have o: "open_builds ?r = open_builds r" by (simp add: open_builds_def close_one_def ph)
  have "phase_ok ?r"
    using router_invD(4) [OF inv] ph m unfolding phase_ok_def o by (simp add: close_one_def)
  then show ?thesis by (rule inv_frame [OF inv, rotated 7]) (simp_all add: close_one_def ph)
qed

lemma inv_finish_shutdown:
  assumes inv: "router_inv r" and ph: "ro_shutdown r = Some (CloseManagers ms results e)"
    and all: "set ms \<subseteq> fst ` set results"
  shows "router_inv (finish_shutdown r)"
proof -
  let ?r = "finish_shutdown r"
  note ok = router_invD [OF inv]
  have r': "?r = r\<lparr>ro_shutdown := Some (ShutdownDone (case e of None \<Rightarrow> first_error ms results | Some x \<Rightarrow> Some x)),
      ro_closed := True, ro_published := [], ro_rejected := [], ro_inflight := []\<rparr>"
    by (simp add: finish_shutdown_def ph)
  have o: "open_builds ?r = open_builds r" by (simp add: open_builds_def r')
  show ?thesis
  proof (rule router_invI)
    show "builds_ok ?r" by (simp add: builds_ok_def r')
    show "results_ok ?r" using ok(2) by (simp add: results_ok_def r')
    show "owned_ok ?r" by (simp add: owned_ok_def r')
    have "ro_closing r" "distinct (ro_closes r)" "set (ro_closes r) = fst ` set results"
      "fst ` set results \<subseteq> set ms" "\<not> ro_interrupted r \<longrightarrow> open_builds r = {} \<and> set ms = set (ro_made r)"
      using ok(4) ph by (simp_all add: phase_ok_def)
    then show "phase_ok ?r" using all unfolding phase_ok_def o by (simp add: r' subset_antisym)
  qed
qed

lemma router_step_inv:
  assumes inv: "router_inv r" and step: "router_step r r'"
  shows "router_inv r'"
  using step
proof cases
  case (ro_enter b project)
  then show ?thesis using inv_enter [OF inv] by simp
next
  case (ro_reject b provided factory m e)
  then show ?thesis using inv_reject [OF inv, of b] by (simp add: open_builds_def)
next
  case (ro_fail b e)
  then have b: "b \<in> open_builds r" by (simp add: open_builds_def)
  have "bs_manager (ro_builds r b) = None"
    using router_invD(2) [OF inv] ro_fail(2,3) by (cases "bs_manager (ro_builds r b)") (auto simp: results_ok_def)
  then show ?thesis
    by (intro inv_build_end [OF inv b _ _ _ _ refl, where result = None
          and s = "(ro_builds r b)\<lparr>bs_error := Some e, bs_done := True\<rparr>"])
       (simp_all add: ro_fail(1) build_failed_def)
next
  case (ro_succeed b provided factory result)
  then have b: "b \<in> open_builds r" by (simp add: open_builds_def)
  show ?thesis
    by (intro inv_build_end [OF inv b _ _ _ _ refl, where result = result
          and s = "(ro_builds r b)\<lparr>bs_manager := result, bs_done := True\<rparr>"])
       (simp_all add: ro_succeed(1) build_succeeded_def Let_def)
qed (simp_all add: inv inv_begin inv_finish_builds inv_close_one inv_finish_shutdown)

interpretation manager_router: inv_system is_new_router router_step router_inv
proof unfold_locales
  fix r assume "is_new_router r"
  then show "router_inv r"
    by cases (simp add: router_inv_def builds_ok_def results_ok_def owned_ok_def phase_ok_def open_builds_def
        new_router_def)
qed (rule router_step_inv)

section \<open>One build at a time\<close>

lemma published_step:
  assumes "router_step r r'" "router_inv r" "\<not> ro_closed r'" "map_of (ro_published r) p = Some m"
  shows "map_of (ro_published r') p = Some m"
  using assms(1)
proof cases
  case (ro_enter b project)
  have "ro_published (snd (router_enter project b r)) = ro_published r"
    by (simp add: router_enter_def raise_if_closed_def Let_def split: option.split pyval.split)
  then show ?thesis using ro_enter assms(4) by simp
next
  case (ro_succeed b provided factory result)
  then have "\<not> ro_closed r" using assms(3) by (simp add: build_succeeded_def Let_def split: option.splits)
  then have "bs_project (ro_builds r b) \<noteq> p"
    using open_inflight [OF router_invD(1) [OF assms(2)], of b] ro_succeed(2,3) assms(4)
    by (auto simp: open_builds_def)
  then show ?thesis
    using assms(4) by (simp add: ro_succeed(1) build_succeeded_def Let_def AList.update_conv' split: option.split)
next
  case (ro_finish ms results e)
  then show ?thesis using assms(3) by (simp add: finish_shutdown_def)
qed (use assms(4) in \<open>simp_all add: reject_manager_def build_failed_def router_shutdown_def finish_builds_def
    close_one_def split: option.split shutdown_phase.split\<close>)

lemma closed_step: "router_step r r' \<Longrightarrow> ro_closed r \<Longrightarrow> ro_closed r'"
  by (erule router_step.cases)
     (simp_all add: router_enter_def raise_if_closed_def Let_def reject_manager_def build_failed_def
      build_succeeded_def router_shutdown_def finish_builds_def close_one_def finish_shutdown_def
      split: option.split pyval.split shutdown_phase.split)

lemma published_run:
  assumes "router_step\<^sup>*\<^sup>* r r'" "router_inv r" "map_of (ro_published r) p = Some m"
  shows "router_inv r' \<and> (\<not> ro_closed r' \<longrightarrow> map_of (ro_published r') p = Some m)"
  using assms(1)
proof (induction rule: rtranclp_induct)
  case (step s u)
  have inv: "router_inv s" using step.IH by simp
  have "map_of (ro_published u) p = Some m" if "\<not> ro_closed u"
  proof -
    have "\<not> ro_closed s" using closed_step [OF step.hyps(2)] that by blast
    then show ?thesis using published_step [OF step.hyps(2) inv that] step.IH by simp
  qed
  with router_step_inv [OF inv step.hyps(2)] show ?case by simp
qed (simp add: assms(2,3))

text \<open>
  C8: One manager for a project. Until the router is closed, at most one build of a project is open;
  a thread that followed a build is answered with the manager that is published for the project; and a
  published manager is never replaced, whatever the provider and the factory answer later.
\<close>

theorem single_flight:
  assumes "router_reach r" "\<not> ro_closed r"
  shows "(\<forall>b \<in> open_builds r. \<forall>c \<in> open_builds r.
      bs_project (ro_builds r b) = bs_project (ro_builds r c) \<longrightarrow> b = c) \<and>
    (\<forall>b \<in> set (ro_build_ids r). \<forall>m. follower_answer b r = Inr (Some m) \<longrightarrow>
      published_manager (bs_project (ro_builds r b)) r = Some m) \<and>
    (\<forall>p m r'. published_manager p r = Some m \<longrightarrow> router_step\<^sup>*\<^sup>* r r' \<longrightarrow> \<not> ro_closed r' \<longrightarrow>
      published_manager p r' = Some m)"
proof -
  have inv: "router_inv r" by (rule manager_router.reach_inv [OF assms(1)])
  show ?thesis
  proof (intro conjI ballI allI impI)
    fix b c assume "b \<in> open_builds r" "c \<in> open_builds r"
      and eq: "bs_project (ro_builds r b) = bs_project (ro_builds r c)"
    then have "map_of (ro_inflight r) (bs_project (ro_builds r c)) = Some b"
      "map_of (ro_inflight r) (bs_project (ro_builds r c)) = Some c"
      using open_inflight [OF router_invD(1) [OF inv] assms(2)] by metis+
    then show "b = c" by simp
  next
    fix b m assume b: "b \<in> set (ro_build_ids r)" "follower_answer b r = Inr (Some m)"
    then have "bs_manager (ro_builds r b) = Some m"
      by (simp add: follower_answer_def split: option.splits if_splits)
    then show "published_manager (bs_project (ro_builds r b)) r = Some m"
      unfolding published_manager_def
      by (rule result_published [OF router_invD(2) [OF inv] b(1) _ assms(2)])
  next
    fix p m r' assume p: "published_manager p r = Some m" and run: "router_step\<^sup>*\<^sup>* r r'" and n: "\<not> ro_closed r'"
    from p have "map_of (ro_published r) p = Some m" unfolding published_manager_def .
    from published_run [OF run inv this] n
    show "published_manager p r' = Some m" unfolding published_manager_def by blast
  qed
qed

section \<open>The shutdown\<close>

definition settled :: "router \<Rightarrow> bool" where
  "settled r \<longleftrightarrow> (\<exists>e. ro_shutdown r = Some (ShutdownDone e)) \<and> ro_closing r \<and> open_builds r = {}"

lemma settled_step:
  assumes "router_step r r'" "settled r"
  shows "r' = r"
proof -
  obtain e where s: "ro_shutdown r = Some (ShutdownDone e)" "ro_closing r" "open_builds r = {}"
    using assms(2) by (auto simp: settled_def)
  have n: "\<not> (b \<in> set (ro_build_ids r) \<and> \<not> bs_done (ro_builds r b))" for b
    using s(3) by (auto simp: open_builds_def)
  show ?thesis
    using assms(1)
  proof cases
    case (ro_enter b project)
    then show ?thesis using s(2) by (simp add: router_enter_def raise_if_closed_def)
  next
    case ro_begin
    then show ?thesis using s(1) by (simp add: router_shutdown_def)
  qed (use s(1) n in simp_all)
qed

lemma closed_router_run: "router_step\<^sup>*\<^sup>* r r' \<Longrightarrow> settled r \<Longrightarrow> r' = r"
  by (induction rule: rtranclp_induct) (auto dest: settled_step)


section \<open>Pages of the project list\<close>

lemma list_page_fields:
  "pp_projects (list_page allowed offset limit rows) = take limit (drop offset (visible_items allowed rows))"
  "pp_next_offset (list_page allowed offset limit rows) =
     (let n = offset + min limit (length (visible_items allowed rows) - offset)
      in if n < length (visible_items allowed rows) then Some n else None)"
proof -
  have "length (take limit (drop offset xs)) = min limit (length xs - offset)" for xs :: "project_list_item list"
    by (simp add: min.commute)
  then show "pp_next_offset (list_page allowed offset limit rows) =
      (let n = offset + min limit (length (visible_items allowed rows) - offset)
       in if n < length (visible_items allowed rows) then Some n else None)"
    unfolding list_page_def Let_def by (simp only: project_list_page.simps)
  show "pp_projects (list_page allowed offset limit rows) = take limit (drop offset (visible_items allowed rows))"
    by (simp add: list_page_def Let_def)
qed

lemma read_pages_drop:
  "1 \<le> limit \<Longrightarrow> length (visible_items allowed rows) - offset < fuel \<Longrightarrow>
   read_pages fuel allowed offset limit rows = drop offset (visible_items allowed rows)"
proof (induction fuel arbitrary: offset)
  case (Suc fuel)
  let ?xs = "visible_items allowed rows"
  show ?case
  proof (cases "offset + limit < length ?xs")
    case True
    then have "min limit (length ?xs - offset) = limit" by simp
    then have next_page: "pp_next_offset (list_page allowed offset limit rows) = Some (offset + limit)"
      using True by (simp add: list_page_fields Let_def)
    have "length ?xs - (offset + limit) < fuel" using Suc.prems True by linarith
    then have "read_pages fuel allowed (offset + limit) limit rows = drop (offset + limit) ?xs"
      by (rule Suc.IH [OF Suc.prems(1)])
    moreover have "take limit (drop offset ?xs) @ drop (offset + limit) ?xs = drop offset ?xs"
      by (metis add.commute append_take_drop_id drop_drop)
    ultimately show ?thesis by (simp add: Let_def next_page list_page_fields(1))
  next
    case False
    then have "length ?xs \<le> offset + min limit (length ?xs - offset)" by linarith
    then have "pp_next_offset (list_page allowed offset limit rows) = None"
      by (simp add: list_page_fields Let_def)
    then show ?thesis using False by (simp add: Let_def list_page_fields(1))
  qed
qed simp


section \<open>A sample router\<close>

text \<open>The project \<open>p\<close>: one thread leads the build, another follows it; then the router shuts down.\<close>

definition sample_project :: runtime_project where
  "sample_project = \<lparr>rp_project_id = PStr ''p'', rp_workspace = PStr ''/w''\<rparr>"

definition sample_building :: router where
  "sample_building = snd (router_enter (PStr ''p'') 0 new_router)"

definition sample_published :: router where
  "sample_published = snd (build_succeeded 0 (Some 7) sample_building)"

definition sample_shut :: router where
  "sample_shut = finish_shutdown (close_one 7 None (finish_builds None (router_shutdown sample_published)))"

lemma sample_building_reachable: "router_reach sample_building"
proof -
  have "router_reach new_router" by (intro reach_init is_new_router.intros)
  then show ?thesis unfolding sample_building_def by (rule reach_step, intro ro_enter) code_simp
qed

lemma sample_published_reachable: "router_reach sample_published"
proof -
  have "build_one (Inr (Descriptor sample_project)) (\<lambda>_. AManager 7 (Some ''p'')) (bs_project (ro_builds sample_building 0)) =
      (case Some 7 of None \<Rightarrow> BuildNothing | Some m \<Rightarrow> BuildManager m)"
    "0 \<in> set (ro_build_ids sample_building)" "\<not> bs_done (ro_builds sample_building 0)"
    by code_simp+
  then show ?thesis
    unfolding sample_published_def by (intro reach_step [OF sample_building_reachable] ro_succeed)
qed

lemma sample_shut_reachable: "router_reach sample_shut"
proof -
  let ?s = "router_shutdown sample_published"
  have s: "router_reach ?s" by (intro reach_step [OF sample_published_reachable] ro_begin)
  have "ro_shutdown ?s = Some (WaitBuilds [])" by code_simp
  then have f: "router_reach (finish_builds None ?s)" by (intro reach_step [OF s] ro_builds_done [of _ "[]"]) simp_all
  have "ro_shutdown (finish_builds None ?s) = Some (CloseManagers [7] [] None)" by code_simp
  then have c: "router_reach (close_one 7 None (finish_builds None ?s))"
    by (intro reach_step [OF f] ro_close [of _ "[7]" "[]" None]) simp_all
  have "ro_shutdown (close_one 7 None (finish_builds None ?s)) = Some (CloseManagers [7] [(7, None)] None)"
    by code_simp
  then show ?thesis unfolding sample_shut_def by (intro reach_step [OF c] ro_finish [of _ "[7]" "[(7, None)]" None]) simp_all
qed

theorem single_flight_witness:
  "published_manager ''p'' sample_published = Some 7 \<and> follower_answer 0 sample_published = Inr (Some 7) \<and>
   fst (router_enter (PStr ''p'') 1 sample_building) = CallFollows 0"
proof -
  have "\<not> ro_closed sample_published" "0 \<in> set (ro_build_ids sample_published)"
    "follower_answer 0 sample_published = Inr (Some 7)" "bs_project (ro_builds sample_published 0) = ''p''"
    "fst (router_enter (PStr ''p'') 1 sample_building) = CallFollows 0"
    by code_simp+
  then show ?thesis using single_flight [OF sample_published_reachable] by metis
qed



end
