(* ===== verification/Service_Access.thy ===== *)
theory Service_Access
  imports Collab_Model "HOL-Library.List_Lexorder" "HOL-Library.Char_ord"
begin

text \<open>
  The access control of the runtime service (\<open>runtime/service/access.py\<close>): principals, grants, the
  three authorizers, and the wrapper \<open>AccessControlledAgentRuntimeService\<close> with its ports.

  A port either raises or calls a method of the delegate with a request, which is the \<open>delegation\<close>
  here: what the delegate answers is outside. Requests come from a decoder and are checked by their
  runtime type, so a \<open>dto\<close> carries the name of its class and its fields as dynamically typed values;
  \<open>dto_payload\<close> stands for the fields the wrapper does not look at. The names of the classes that the
  messages append are left out of them.
\<close>

section \<open>Capabilities\<close>

definition SESSION_OPEN :: string where "SESSION_OPEN = ''session.open''"
definition TURN_SUBMIT :: string where "TURN_SUBMIT = ''turn.submit''"
definition TURN_CANCEL :: string where "TURN_CANCEL = ''turn.cancel''"
definition TURN_STEER :: string where "TURN_STEER = ''turn.steer''"
definition TURN_APPROVAL_READ :: string where "TURN_APPROVAL_READ = ''turn.approval.read''"
definition TURN_APPROVAL_RESUME :: string where "TURN_APPROVAL_RESUME = ''turn.approval.resume''"
definition SESSION_CLOSE :: string where "SESSION_CLOSE = ''session.close''"
definition SESSION_READ :: string where "SESSION_READ = ''session.read''"
definition SESSION_REBIND :: string where "SESSION_REBIND = ''session.rebind''"
definition SESSION_THINKING :: string where "SESSION_THINKING = ''session.thinking''"
definition SESSION_GOAL :: string where "SESSION_GOAL = ''session.goal''"
definition COLLABORATION_READ :: string where "COLLABORATION_READ = ''collaboration.read''"
definition COLLABORATION_CONTROL :: string where "COLLABORATION_CONTROL = ''collaboration.control''"
definition PROJECT_THINKING :: string where "PROJECT_THINKING = ''project.thinking''"
definition PROJECT_TASKS :: string where "PROJECT_TASKS = ''project.tasks''"
definition PROJECT_LIST :: string where "PROJECT_LIST = ''project.list''"
definition PROJECT_REGISTER :: string where "PROJECT_REGISTER = ''project.register''"
definition FS_LIST :: string where "FS_LIST = ''fs.list''"
definition SKILLS_LIST :: string where "SKILLS_LIST = ''skills.list''"
definition SESSION_MCP_RELOAD :: string where "SESSION_MCP_RELOAD = ''session.mcp.reload''"
definition SESSION_LIST :: string where "SESSION_LIST = ''session.list''"
definition SESSION_CREATE :: string where "SESSION_CREATE = ''session.create''"
definition SESSION_RENAME :: string where "SESSION_RENAME = ''session.rename''"
definition SESSION_DELETE :: string where "SESSION_DELETE = ''session.delete''"
definition SESSION_FORK :: string where "SESSION_FORK = ''session.fork''"
definition SESSION_SEARCH :: string where "SESSION_SEARCH = ''session.search''"
definition EVENTS_READ :: string where "EVENTS_READ = ''events.read''"
definition EVENTS_WATCH :: string where "EVENTS_WATCH = ''events.watch''"
definition ARTIFACTS_STAT :: string where "ARTIFACTS_STAT = ''artifacts.stat''"
definition ARTIFACTS_LIST :: string where "ARTIFACTS_LIST = ''artifacts.list''"
definition ARTIFACTS_READ :: string where "ARTIFACTS_READ = ''artifacts.read''"
definition GIT_STATUS :: string where "GIT_STATUS = ''git.status''"
definition GIT_DIFF :: string where "GIT_DIFF = ''git.diff''"
definition WORKSPACE_REVERT :: string where "WORKSPACE_REVERT = ''workspace.revert''"
definition ATTACHMENTS_READ :: string where "ATTACHMENTS_READ = ''attachments.read''"
definition ATTACHMENTS_WRITE :: string where "ATTACHMENTS_WRITE = ''attachments.write''"
definition CODEX_USAGE_READ :: string where "CODEX_USAGE_READ = ''codex.usage.read''"
definition CODEX_RESET_CONSUME :: string where "CODEX_RESET_CONSUME = ''codex.reset.consume''"
definition APPS_LIST :: string where "APPS_LIST = ''apps.list''"
definition WORKSPACE_OPEN_EXTERNAL :: string where "WORKSPACE_OPEN_EXTERNAL = ''workspace.open_external''"
definition SCREENSHOT_READ :: string where "SCREENSHOT_READ = ''screenshot.read''"
definition SCREENSHOT_CONTROL :: string where "SCREENSHOT_CONTROL = ''screenshot.control''"
definition STT_CONTROL :: string where "STT_CONTROL = ''stt.control''"
definition MODELS_READ :: string where "MODELS_READ = ''models.read''"
definition MODELS_WRITE :: string where "MODELS_WRITE = ''models.write''"
definition MCP_READ :: string where "MCP_READ = ''mcp.read''"
definition MCP_WRITE :: string where "MCP_WRITE = ''mcp.write''"

definition ALL_RUNTIME_CAPABILITIES :: "string list" where
  "ALL_RUNTIME_CAPABILITIES =
     [
      SESSION_OPEN, TURN_SUBMIT, TURN_CANCEL, TURN_STEER, TURN_APPROVAL_READ, TURN_APPROVAL_RESUME,
      SESSION_CLOSE, SESSION_READ, SESSION_REBIND, SESSION_THINKING, SESSION_GOAL,
      COLLABORATION_READ, COLLABORATION_CONTROL, PROJECT_THINKING, PROJECT_TASKS, PROJECT_LIST,
      PROJECT_REGISTER, FS_LIST, SKILLS_LIST, SESSION_CREATE, SESSION_DELETE, SESSION_FORK,
      SESSION_LIST, SESSION_MCP_RELOAD, SESSION_RENAME, SESSION_SEARCH, EVENTS_READ, EVENTS_WATCH,
      GIT_STATUS, GIT_DIFF, WORKSPACE_REVERT, ARTIFACTS_STAT, ARTIFACTS_LIST, ARTIFACTS_READ,
      ATTACHMENTS_READ, ATTACHMENTS_WRITE, CODEX_USAGE_READ, CODEX_RESET_CONSUME, APPS_LIST,
      WORKSPACE_OPEN_EXTERNAL, SCREENSHOT_READ, SCREENSHOT_CONTROL, STT_CONTROL, MODELS_READ,
      MODELS_WRITE, MCP_READ, MCP_WRITE]"
section \<open>References, principals and grants\<close>

datatype access_error =
    InvalidRequestError string
  | InvalidAccessContextError
  | PermissionDeniedError
  | AccessValueError string
  | AccessTypeError string

datatype ref_value = NotASessionRef | SessionRefValue pyval pyval

definition validate_access_text :: "pyval \<Rightarrow> access_error + string" where
  "validate_access_text value =
     (case value of
        PStr s \<Rightarrow>
          if s = [] then Inl (AccessValueError ''must not be empty'')
          else if CHR 0x00 \<in> set s then Inl (AccessValueError ''must not contain NUL'')
          else if 256 < utf8_size s then Inl (AccessValueError ''exceeds the length limit'')
          else Inr s
      | _ \<Rightarrow> Inl (AccessValueError ''must be a string''))"

definition valid_text :: "pyval \<Rightarrow> bool" where
  "valid_text value \<longleftrightarrow> isl (validate_access_text value) = False"

fun is_valid_ref :: "ref_value \<Rightarrow> bool" where
  "is_valid_ref NotASessionRef = False"
| "is_valid_ref (SessionRefValue project thread) = (valid_text project \<and> valid_text thread)"

record principal =
  pr_subject :: pyval

definition is_valid_principal :: "principal \<Rightarrow> bool" where
  "is_valid_principal p = valid_text (pr_subject p)"

definition make_principal :: "pyval \<Rightarrow> access_error + principal" where
  "make_principal subject =
     (case validate_access_text subject of Inl e \<Rightarrow> Inl e | Inr _ \<Rightarrow> Inr \<lparr>pr_subject = subject\<rparr>)"

record acl_grant =
  ag_subject :: string
  ag_project_id :: string
  ag_capabilities :: "string list"
  ag_thread_ids :: "string list option"

text \<open>The first invalid text of a sequence, or the texts.\<close>

fun validate_texts :: "pyval list \<Rightarrow> access_error + string list" where
  "validate_texts [] = Inr []"
| "validate_texts (v # vs) =
     (case validate_access_text v of
        Inl e \<Rightarrow> Inl e
      | Inr s \<Rightarrow> (case validate_texts vs of Inl e \<Rightarrow> Inl e | Inr ss \<Rightarrow> Inr (s # ss)))"

text \<open>
  \<open>AclGrant\<close>: an argument that cannot be iterated is \<open>None\<close>. The set of the capabilities is a list
  without an order.
\<close>

definition make_acl_grant ::
  "pyval \<Rightarrow> pyval \<Rightarrow> pyval list option \<Rightarrow> pyval list option option \<Rightarrow> access_error + acl_grant" where
  "make_acl_grant subject project capabilities threads =
     (case validate_texts [subject, project] of
        Inr [s, p] \<Rightarrow>
          (case capabilities of
             None \<Rightarrow> Inl (AccessValueError ''capabilities must be an iterable of strings'')
           | Some cs \<Rightarrow>
               (case validate_texts cs of
                  Inl e \<Rightarrow> Inl e
                | Inr caps \<Rightarrow>
                    if \<exists>c \<in> set caps. c \<notin> set ALL_RUNTIME_CAPABILITIES
                    then Inl (AccessValueError ''unknown capability'')
                    else if caps = [] then Inl (AccessValueError ''capabilities must not be empty'')
                    else
                      let grant = (\<lambda>ts. \<lparr>ag_subject = s, ag_project_id = p, ag_capabilities = caps,
                                         ag_thread_ids = ts\<rparr>)
                      in (case threads of
                            None \<Rightarrow> Inr (grant None)
                          | Some None \<Rightarrow>
                              Inl (AccessValueError ''thread_ids must be an iterable of strings or null'')
                          | Some (Some ts) \<Rightarrow>
                              if ts = [] then Inl (AccessValueError ''thread_ids must not be empty'')
                              else (case validate_texts ts of
                                      Inl e \<Rightarrow> Inl e
                                    | Inr ids \<Rightarrow> Inr (grant (Some ids))))))
      | Inl e \<Rightarrow> Inl e
      | Inr _ \<Rightarrow> Inl (AccessValueError ''subject''))"

section \<open>Authorizers\<close>

datatype authorizer = Acl "acl_grant list" | Daemon | ProjectScope authorizer string

fun is_valid_authorizer :: "authorizer \<Rightarrow> bool" where
  "is_valid_authorizer (Acl _) = True"
| "is_valid_authorizer Daemon = True"
| "is_valid_authorizer (ProjectScope inner _) = (case inner of ProjectScope _ _ \<Rightarrow> False | _ \<Rightarrow> True)"

definition make_project_scope :: "authorizer \<Rightarrow> pyval \<Rightarrow> access_error + authorizer" where
  "make_project_scope inner project =
     (case inner of
        ProjectScope _ _ \<Rightarrow> Inl (AccessTypeError ''inner must be an AclAuthorizer or DaemonAuthorizer'')
      | _ \<Rightarrow>
          (case validate_access_text project of
             Inl _ \<Rightarrow> Inl (AccessValueError ''project scope is invalid'')
           | Inr scope \<Rightarrow> Inr (ProjectScope inner scope)))"

definition the_text :: "pyval \<Rightarrow> string" where
  "the_text v = (case v of PStr s \<Rightarrow> s | _ \<Rightarrow> [])"

fun ref_project :: "ref_value \<Rightarrow> string" where
  "ref_project (SessionRefValue p _) = the_text p"
| "ref_project NotASessionRef = []"

fun ref_thread :: "ref_value \<Rightarrow> string" where
  "ref_thread (SessionRefValue _ t) = the_text t"
| "ref_thread NotASessionRef = []"

text \<open>One grant, asked for a capability on a project, or on a session of it.\<close>

definition grant_for_project :: "principal \<Rightarrow> string \<Rightarrow> string \<Rightarrow> acl_grant \<Rightarrow> bool" where
  "grant_for_project p capability project g \<longleftrightarrow>
     PStr (ag_subject g) = pr_subject p \<and> ag_project_id g = project \<and> capability \<in> set (ag_capabilities g) \<and>
     ag_thread_ids g = None"

definition grant_for_session :: "principal \<Rightarrow> string \<Rightarrow> string \<Rightarrow> string \<Rightarrow> acl_grant \<Rightarrow> bool" where
  "grant_for_session p capability project thread g \<longleftrightarrow>
     PStr (ag_subject g) = pr_subject p \<and> ag_project_id g = project \<and> capability \<in> set (ag_capabilities g) \<and>
     (case ag_thread_ids g of None \<Rightarrow> True | Some ts \<Rightarrow> thread \<in> set ts)"

text \<open>\<open>None\<close> is the return of \<open>authorize\<close>; an error is raised.\<close>

definition acl_authorize :: "acl_grant list \<Rightarrow> principal \<Rightarrow> string \<Rightarrow> ref_value \<Rightarrow> access_error option" where
  "acl_authorize grants p capability session =
     (if \<not> is_valid_principal p \<or> \<not> is_valid_ref session then Some InvalidAccessContextError
      else if capability \<notin> set ALL_RUNTIME_CAPABILITIES
      then Some (AccessValueError ''unknown capability'')
      else if list_ex (grant_for_session p capability (ref_project session) (ref_thread session)) grants
      then None else Some PermissionDeniedError)"

definition daemon_authorize :: "principal \<Rightarrow> string \<Rightarrow> ref_value \<Rightarrow> access_error option" where
  "daemon_authorize p capability session =
     (if \<not> is_valid_principal p \<or> \<not> is_valid_ref session then Some InvalidAccessContextError
      else if pr_subject p \<noteq> PStr ''runtime-daemon'' then Some PermissionDeniedError
      else if capability \<notin> set ALL_RUNTIME_CAPABILITIES
      then Some (AccessValueError ''unknown capability'')
      else None)"

fun authorize :: "authorizer \<Rightarrow> principal \<Rightarrow> string \<Rightarrow> ref_value \<Rightarrow> access_error option" where
  "authorize (Acl grants) p capability session = acl_authorize grants p capability session"
| "authorize Daemon p capability session = daemon_authorize p capability session"
| "authorize (ProjectScope inner scope) p capability session =
     (if \<not> is_valid_principal p \<or> \<not> is_valid_ref session then Some InvalidAccessContextError
      else if ref_project session \<noteq> scope then Some PermissionDeniedError
      else authorize inner p capability session)"

definition acl_authorize_project ::
  "acl_grant list \<Rightarrow> principal \<Rightarrow> string \<Rightarrow> pyval \<Rightarrow> access_error option" where
  "acl_authorize_project grants p capability project =
     (if \<not> is_valid_principal p \<or> \<not> valid_text project then Some InvalidAccessContextError
      else if capability \<notin> set ALL_RUNTIME_CAPABILITIES
      then Some (AccessValueError ''unknown capability'')
      else if list_ex (grant_for_project p capability (the_text project)) grants
      then None else Some PermissionDeniedError)"

definition daemon_authorize_project :: "principal \<Rightarrow> string \<Rightarrow> pyval \<Rightarrow> access_error option" where
  "daemon_authorize_project p capability project =
     (if \<not> is_valid_principal p \<or> \<not> valid_text project then Some InvalidAccessContextError
      else if pr_subject p \<noteq> PStr ''runtime-daemon'' then Some PermissionDeniedError
      else if capability \<notin> set ALL_RUNTIME_CAPABILITIES
      then Some (AccessValueError ''unknown capability'')
      else None)"

fun authorize_project :: "authorizer \<Rightarrow> principal \<Rightarrow> string \<Rightarrow> pyval \<Rightarrow> access_error option" where
  "authorize_project (Acl grants) p capability project = acl_authorize_project grants p capability project"
| "authorize_project Daemon p capability project = daemon_authorize_project p capability project"
| "authorize_project (ProjectScope inner scope) p capability project =
     (if \<not> is_valid_principal p \<or> \<not> valid_text project then Some InvalidAccessContextError
      else if the_text project \<noteq> scope then Some PermissionDeniedError
      else authorize_project inner p capability project)"

text \<open>The projects a principal holds a capability on; \<open>None\<close> is everything.\<close>

definition acl_visible :: "acl_grant list \<Rightarrow> principal \<Rightarrow> string \<Rightarrow> access_error + string list option" where
  "acl_visible grants p capability =
     (if \<not> is_valid_principal p then Inl InvalidAccessContextError
      else if capability \<notin> set ALL_RUNTIME_CAPABILITIES
      then Inl (AccessValueError ''unknown capability'')
      else Inr (Some (remdups (map ag_project_id (filter (\<lambda>g. PStr (ag_subject g) = pr_subject p \<and>
             ag_thread_ids g = None \<and> capability \<in> set (ag_capabilities g)) grants)))))"

definition daemon_visible :: "principal \<Rightarrow> string \<Rightarrow> access_error + string list option" where
  "daemon_visible p capability =
     (if \<not> is_valid_principal p then Inl InvalidAccessContextError
      else if capability \<notin> set ALL_RUNTIME_CAPABILITIES
      then Inl (AccessValueError ''unknown capability'')
      else if pr_subject p \<noteq> PStr ''runtime-daemon'' then Inl PermissionDeniedError
      else Inr None)"

fun visible_project_ids :: "authorizer \<Rightarrow> principal \<Rightarrow> string \<Rightarrow> access_error + string list option" where
  "visible_project_ids (Acl grants) p capability = acl_visible grants p capability"
| "visible_project_ids Daemon p capability = daemon_visible p capability"
| "visible_project_ids (ProjectScope inner scope) p capability =
     (if \<not> is_valid_principal p then Inl InvalidAccessContextError
      else if capability \<notin> set ALL_RUNTIME_CAPABILITIES
      then Inl (AccessValueError ''unknown capability'')
      else case visible_project_ids inner p capability of
             Inl e \<Rightarrow> Inl e
           | Inr None \<Rightarrow> Inr (Some [scope])
           | Inr (Some ids) \<Rightarrow> Inr (Some (filter (\<lambda>i. i = scope) ids)))"

section \<open>Requests and the wrapper\<close>

datatype target_ref = NoTargetRef | ArtifactRefValue pyval ref_value | AttachmentRefValue ref_value

record dto =
  dto_type :: string
  dto_session :: ref_value
  dto_ref :: target_ref
  dto_source :: ref_value
  dto_project_id :: pyval
  dto_limit :: int
  dto_offset :: int
  dto_visible :: "string list"
  dto_payload :: pyval

record access_service =
  sv_methods :: "string list"
  sv_principal :: principal
  sv_authorizer :: authorizer

record delegation =
  dl_method :: string
  dl_request :: dto

definition ARTIFACT_REF_DTOS :: "string list" where
  "ARTIFACT_REF_DTOS = [''StatArtifactQuery'', ''ReadArtifactQuery'']"

definition ATTACHMENT_REF_DTOS :: "string list" where
  "ATTACHMENT_REF_DTOS =
     [''AppendAttachmentChunkCommand'', ''FinishAttachmentCommand'', ''AbortAttachmentCommand'',
      ''StatAttachmentQuery'', ''ReadAttachmentQuery'']"

definition REQUIRED_DELEGATE_METHODS :: "string list" where
  "REQUIRED_DELEGATE_METHODS =
     [''submit_turn'', ''open_session'', ''cancel_turn'', ''steer_turn'', ''resume_turn'',
      ''pending_approval'', ''close_session'', ''get_session'', ''stat_artifact'', ''list_artifacts'',
      ''read_artifact'', ''read_events'', ''watch_events'']"

definition make_access_service ::
  "string list \<Rightarrow> principal \<Rightarrow> authorizer \<Rightarrow> access_error + access_service" where
  "make_access_service methods p a =
     (if \<not> is_valid_principal p then Inl (AccessTypeError ''principal must be a Principal'')
      else if \<not> is_valid_authorizer a then Inl (AccessTypeError ''authorizer'')
      else if \<not> set REQUIRED_DELEGATE_METHODS \<subseteq> set methods
      then Inl (AccessTypeError ''delegate does not implement the runtime service'')
      else Inr \<lparr>sv_methods = methods, sv_principal = p, sv_authorizer = a\<rparr>)"

definition session_from_dto :: "dto \<Rightarrow> string \<Rightarrow> string \<Rightarrow> access_error + ref_value" where
  "session_from_dto d expected field =
     (if dto_type d \<noteq> expected then Inl (InvalidRequestError (field @ '' must be a request DTO''))
      else
        let checked = (\<lambda>session. if is_valid_ref session then Inr session
              else Inl (InvalidRequestError (field @ '' must contain a valid SessionRef'')))
        in if expected \<in> set ARTIFACT_REF_DTOS then
             (case dto_ref d of
                ArtifactRefValue (PStr path) session \<Rightarrow>
                  if path = [] then Inl (InvalidRequestError (field @ '' must contain a valid ArtifactRef''))
                  else checked session
              | _ \<Rightarrow> Inl (InvalidRequestError (field @ '' must contain a valid ArtifactRef'')))
           else if expected \<in> set ATTACHMENT_REF_DTOS then
             (case dto_ref d of
                AttachmentRefValue session \<Rightarrow> checked session
              | _ \<Rightarrow> Inl (InvalidRequestError (field @ '' must contain a valid AttachmentRef'')))
           else checked (dto_session d))"

text \<open>The end of a port: a method every delegate has, or one that may be missing.\<close>

definition required_call :: "string \<Rightarrow> dto \<Rightarrow> access_error + delegation" where
  "required_call method d = Inr \<lparr>dl_method = method, dl_request = d\<rparr>"

definition optional_call :: "access_service \<Rightarrow> string \<Rightarrow> string \<Rightarrow> dto \<Rightarrow> access_error + delegation" where
  "optional_call svc method unavailable d =
     (if method \<in> set (sv_methods svc) then Inr \<lparr>dl_method = method, dl_request = d\<rparr>
      else Inl (InvalidRequestError unavailable))"

text \<open>The common course of the ports: on a session, on a project, and on the catalog of projects.\<close>

definition session_call ::
  "access_service \<Rightarrow> string \<Rightarrow> string \<Rightarrow> string \<Rightarrow> (dto \<Rightarrow> access_error + delegation) \<Rightarrow> dto \<Rightarrow>
     access_error + delegation" where
  "session_call svc expected field capability call d =
     (case session_from_dto d expected field of
        Inl e \<Rightarrow> Inl e
      | Inr session \<Rightarrow>
          (case authorize (sv_authorizer svc) (sv_principal svc) capability session of
             Some e \<Rightarrow> Inl e
           | None \<Rightarrow> call d))"

text \<open>\<open>checks_blank\<close>: the ports of the project tasks leave the text of the project id to the authorizer.\<close>

definition project_call ::
  "access_service \<Rightarrow> string \<Rightarrow> string \<Rightarrow> bool \<Rightarrow> string \<Rightarrow> (dto \<Rightarrow> access_error + delegation) \<Rightarrow> dto \<Rightarrow>
     access_error + delegation" where
  "project_call svc expected message checks_blank capability call d =
     (if dto_type d \<noteq> expected then Inl (InvalidRequestError message)
      else if checks_blank \<and> py_strip (the_text (dto_project_id d)) = []
      then Inl (InvalidRequestError ''project_id must be a non-empty string'')
      else case authorize_project (sv_authorizer svc) (sv_principal svc) capability (dto_project_id d) of
             Some e \<Rightarrow> Inl e
           | None \<Rightarrow> call d)"

definition catalog_call ::
  "access_service \<Rightarrow> string \<Rightarrow> string \<Rightarrow> string \<Rightarrow> (dto \<Rightarrow> access_error + delegation) \<Rightarrow> dto \<Rightarrow>
     access_error + delegation" where
  "catalog_call svc expected message capability call d =
     (if dto_type d \<noteq> expected then Inl (InvalidRequestError message)
      else case visible_project_ids (sv_authorizer svc) (sv_principal svc) capability of
             Inl e \<Rightarrow> Inl e
           | Inr visible \<Rightarrow> if visible = Some [] then Inl PermissionDeniedError else call d)"

section \<open>Ports on a session\<close>

definition submit_turn :: "access_service \<Rightarrow> dto \<Rightarrow> access_error + delegation" where
  "submit_turn svc command =
     session_call svc ''SubmitTurnCommand'' ''submit command'' TURN_SUBMIT
       (required_call ''submit_turn'') command"

definition resume_turn :: "access_service \<Rightarrow> dto \<Rightarrow> access_error + delegation" where
  "resume_turn svc command =
     session_call svc ''ResumeTurnCommand'' ''resume command'' TURN_APPROVAL_RESUME
       (required_call ''resume_turn'') command"

definition open_session :: "access_service \<Rightarrow> dto \<Rightarrow> access_error + delegation" where
  "open_session svc command =
     session_call svc ''OpenSessionCommand'' ''open command'' SESSION_OPEN
       (required_call ''open_session'') command"

definition rebind_session :: "access_service \<Rightarrow> dto \<Rightarrow> access_error + delegation" where
  "rebind_session svc command =
     session_call svc ''RebindSessionCommand'' ''rebind command'' SESSION_REBIND
       (optional_call svc ''rebind_session'' ''session rebind is unavailable'') command"

definition set_thinking_level :: "access_service \<Rightarrow> dto \<Rightarrow> access_error + delegation" where
  "set_thinking_level svc command =
     session_call svc ''SetThinkingLevelCommand'' ''thinking level command'' SESSION_THINKING
       (optional_call svc ''set_thinking_level'' ''session thinking level is unavailable'') command"

definition reload_mcp :: "access_service \<Rightarrow> dto \<Rightarrow> access_error + delegation" where
  "reload_mcp svc command =
     session_call svc ''ReloadMcpCommand'' ''MCP reload command'' SESSION_MCP_RELOAD
       (optional_call svc ''reload_mcp'' ''MCP reload is unavailable'') command"

definition cancel_turn_port :: "access_service \<Rightarrow> dto \<Rightarrow> access_error + delegation" where
  "cancel_turn_port svc command =
     session_call svc ''CancelTurnCommand'' ''cancel command'' TURN_CANCEL
       (required_call ''cancel_turn'') command"

definition steer_turn_port :: "access_service \<Rightarrow> dto \<Rightarrow> access_error + delegation" where
  "steer_turn_port svc command =
     session_call svc ''SteerTurnCommand'' ''steer command'' TURN_STEER
       (required_call ''steer_turn'') command"

definition close_session :: "access_service \<Rightarrow> dto \<Rightarrow> access_error + delegation" where
  "close_session svc command =
     session_call svc ''CloseSessionCommand'' ''close command'' SESSION_CLOSE
       (required_call ''close_session'') command"

definition get_session :: "access_service \<Rightarrow> dto \<Rightarrow> access_error + delegation" where
  "get_session svc query =
     session_call svc ''GetSessionQuery'' ''session query'' SESSION_READ
       (required_call ''get_session'') query"

definition get_session_goal :: "access_service \<Rightarrow> dto \<Rightarrow> access_error + delegation" where
  "get_session_goal svc query =
     session_call svc ''GetSessionGoalQuery'' ''goal query'' SESSION_READ
       (optional_call svc ''get_session_goal'' ''session goal is unavailable'') query"

definition set_session_goal :: "access_service \<Rightarrow> dto \<Rightarrow> access_error + delegation" where
  "set_session_goal svc command =
     session_call svc ''SetSessionGoalCommand'' ''set goal command'' SESSION_GOAL
       (optional_call svc ''set_session_goal'' ''session goal management is unavailable'') command"

definition edit_session_goal :: "access_service \<Rightarrow> dto \<Rightarrow> access_error + delegation" where
  "edit_session_goal svc command =
     session_call svc ''EditSessionGoalCommand'' ''edit goal command'' SESSION_GOAL
       (optional_call svc ''edit_session_goal'' ''session goal management is unavailable'') command"

definition clear_session_goal :: "access_service \<Rightarrow> dto \<Rightarrow> access_error + delegation" where
  "clear_session_goal svc command =
     session_call svc ''ClearSessionGoalCommand'' ''clear goal command'' SESSION_GOAL
       (optional_call svc ''clear_session_goal'' ''session goal management is unavailable'') command"

definition pause_session_goal :: "access_service \<Rightarrow> dto \<Rightarrow> access_error + delegation" where
  "pause_session_goal svc command =
     session_call svc ''PauseSessionGoalCommand'' ''pause goal command'' SESSION_GOAL
       (optional_call svc ''pause_session_goal'' ''session goal management is unavailable'') command"

definition resume_session_goal :: "access_service \<Rightarrow> dto \<Rightarrow> access_error + delegation" where
  "resume_session_goal svc command =
     session_call svc ''ResumeSessionGoalCommand'' ''resume goal command'' SESSION_GOAL
       (optional_call svc ''resume_session_goal'' ''session goal management is unavailable'') command"

definition get_runtime_config :: "access_service \<Rightarrow> dto \<Rightarrow> access_error + delegation" where
  "get_runtime_config svc query =
     session_call svc ''GetRuntimeConfigQuery'' ''config query'' SESSION_READ
       (optional_call svc ''get_runtime_config'' ''runtime config is unavailable'') query"

definition list_collaborations :: "access_service \<Rightarrow> dto \<Rightarrow> access_error + delegation" where
  "list_collaborations svc query =
     session_call svc ''ListCollaborationsQuery'' ''collaboration query'' COLLABORATION_READ
       (optional_call svc ''list_collaborations'' ''session collaboration is unavailable'') query"

definition stop_collaboration :: "access_service \<Rightarrow> dto \<Rightarrow> access_error + delegation" where
  "stop_collaboration svc command =
     session_call svc ''StopCollaborationCommand'' ''stop collaboration command'' COLLABORATION_CONTROL
       (optional_call svc ''stop_collaboration'' ''session collaboration is unavailable'') command"

definition get_codex_usage :: "access_service \<Rightarrow> dto \<Rightarrow> access_error + delegation" where
  "get_codex_usage svc query =
     session_call svc ''GetCodexUsageQuery'' ''codex usage query'' CODEX_USAGE_READ
       (optional_call svc ''get_codex_usage'' ''codex usage is unavailable'') query"

definition get_codex_reset_credits :: "access_service \<Rightarrow> dto \<Rightarrow> access_error + delegation" where
  "get_codex_reset_credits svc query =
     session_call svc ''GetCodexResetCreditsQuery'' ''codex reset credits query'' CODEX_USAGE_READ
       (optional_call svc ''get_codex_reset_credits'' ''codex reset credits are unavailable'') query"

definition consume_codex_reset :: "access_service \<Rightarrow> dto \<Rightarrow> access_error + delegation" where
  "consume_codex_reset svc command =
     session_call svc ''ConsumeCodexResetCommand'' ''codex consume command'' CODEX_RESET_CONSUME
       (optional_call svc ''consume_codex_reset'' ''codex reset consumption is unavailable'') command"

definition pending_approval_port :: "access_service \<Rightarrow> dto \<Rightarrow> access_error + delegation" where
  "pending_approval_port svc query =
     session_call svc ''PendingApprovalQuery'' ''approval query'' TURN_APPROVAL_READ
       (required_call ''pending_approval'') query"

definition stat_artifact :: "access_service \<Rightarrow> dto \<Rightarrow> access_error + delegation" where
  "stat_artifact svc query =
     session_call svc ''StatArtifactQuery'' ''stat query'' ARTIFACTS_STAT
       (required_call ''stat_artifact'') query"

definition list_artifacts :: "access_service \<Rightarrow> dto \<Rightarrow> access_error + delegation" where
  "list_artifacts svc query =
     session_call svc ''ListArtifactsQuery'' ''list query'' ARTIFACTS_LIST
       (required_call ''list_artifacts'') query"

definition read_artifact :: "access_service \<Rightarrow> dto \<Rightarrow> access_error + delegation" where
  "read_artifact svc query =
     session_call svc ''ReadArtifactQuery'' ''read query'' ARTIFACTS_READ
       (required_call ''read_artifact'') query"

definition git_status :: "access_service \<Rightarrow> dto \<Rightarrow> access_error + delegation" where
  "git_status svc query =
     session_call svc ''GitStatusQuery'' ''git status query'' GIT_STATUS
       (optional_call svc ''git_status'' ''git status is unavailable'') query"

definition git_diff :: "access_service \<Rightarrow> dto \<Rightarrow> access_error + delegation" where
  "git_diff svc query =
     session_call svc ''GitDiffQuery'' ''git diff query'' GIT_DIFF
       (optional_call svc ''git_diff'' ''git diff is unavailable'') query"

definition revert_turn_change :: "access_service \<Rightarrow> dto \<Rightarrow> access_error + delegation" where
  "revert_turn_change svc command =
     session_call svc ''RevertTurnChangeCommand'' ''revert command'' WORKSPACE_REVERT
       (optional_call svc ''revert_turn_change'' ''reverting a turn s change is unavailable'') command"

definition open_external :: "access_service \<Rightarrow> dto \<Rightarrow> access_error + delegation" where
  "open_external svc command =
     session_call svc ''OpenExternalCommand'' ''open external command'' WORKSPACE_OPEN_EXTERNAL
       (optional_call svc ''open_external'' ''opening a file with an external program is unavailable'') command"

definition get_screenshot_status :: "access_service \<Rightarrow> dto \<Rightarrow> access_error + delegation" where
  "get_screenshot_status svc query =
     session_call svc ''ScreenshotStatusQuery'' ''screenshot status query'' SCREENSHOT_READ
       (optional_call svc ''get_screenshot_status'' ''window capture is unavailable'') query"

definition open_screenshot_settings :: "access_service \<Rightarrow> dto \<Rightarrow> access_error + delegation" where
  "open_screenshot_settings svc command =
     session_call svc ''OpenScreenshotSettingsCommand'' ''open screenshot settings command'' SCREENSHOT_CONTROL
       (optional_call svc ''open_screenshot_settings'' ''window capture is unavailable'') command"

definition start_screenshot_capture :: "access_service \<Rightarrow> dto \<Rightarrow> access_error + delegation" where
  "start_screenshot_capture svc command =
     session_call svc ''ScreenshotCaptureCommand'' ''screenshot capture command'' SCREENSHOT_CONTROL
       (optional_call svc ''start_screenshot_capture'' ''window capture is unavailable'') command"

definition cancel_screenshot_capture :: "access_service \<Rightarrow> dto \<Rightarrow> access_error + delegation" where
  "cancel_screenshot_capture svc command =
     session_call svc ''ScreenshotCancelCommand'' ''screenshot cancel command'' SCREENSHOT_CONTROL
       (optional_call svc ''cancel_screenshot_capture'' ''window capture is unavailable'') command"

definition get_stt_status :: "access_service \<Rightarrow> dto \<Rightarrow> access_error + delegation" where
  "get_stt_status svc query =
     session_call svc ''SttStatusQuery'' ''stt status query'' STT_CONTROL
       (optional_call svc ''get_stt_status'' ''local speech input is unavailable'') query"

definition set_stt_api_key :: "access_service \<Rightarrow> dto \<Rightarrow> access_error + delegation" where
  "set_stt_api_key svc command =
     session_call svc ''SttSetApiKeyCommand'' ''stt set api key command'' STT_CONTROL
       (optional_call svc ''set_stt_api_key'' ''local speech input is unavailable'') command"

definition set_stt_engine :: "access_service \<Rightarrow> dto \<Rightarrow> access_error + delegation" where
  "set_stt_engine svc command =
     session_call svc ''SttSetEngineCommand'' ''stt set engine command'' STT_CONTROL
       (optional_call svc ''set_stt_engine'' ''local speech input is unavailable'') command"

definition warm_up_stt_models :: "access_service \<Rightarrow> dto \<Rightarrow> access_error + delegation" where
  "warm_up_stt_models svc command =
     session_call svc ''SttWarmUpCommand'' ''stt warm up command'' STT_CONTROL
       (optional_call svc ''warm_up_stt_models'' ''local speech input is unavailable'') command"

definition begin_stt_dictation :: "access_service \<Rightarrow> dto \<Rightarrow> access_error + delegation" where
  "begin_stt_dictation svc command =
     session_call svc ''SttBeginCommand'' ''stt begin command'' STT_CONTROL
       (optional_call svc ''begin_stt_dictation'' ''local speech input is unavailable'') command"

definition append_stt_audio :: "access_service \<Rightarrow> dto \<Rightarrow> access_error + delegation" where
  "append_stt_audio svc command =
     session_call svc ''SttAppendCommand'' ''stt append command'' STT_CONTROL
       (optional_call svc ''append_stt_audio'' ''local speech input is unavailable'') command"

definition finish_stt_dictation :: "access_service \<Rightarrow> dto \<Rightarrow> access_error + delegation" where
  "finish_stt_dictation svc command =
     session_call svc ''SttFinishCommand'' ''stt finish command'' STT_CONTROL
       (optional_call svc ''finish_stt_dictation'' ''local speech input is unavailable'') command"

definition cancel_stt_dictation :: "access_service \<Rightarrow> dto \<Rightarrow> access_error + delegation" where
  "cancel_stt_dictation svc command =
     session_call svc ''SttCancelCommand'' ''stt cancel command'' STT_CONTROL
       (optional_call svc ''cancel_stt_dictation'' ''local speech input is unavailable'') command"

definition begin_attachment_port :: "access_service \<Rightarrow> dto \<Rightarrow> access_error + delegation" where
  "begin_attachment_port svc command =
     session_call svc ''BeginAttachmentCommand'' ''begin command'' ATTACHMENTS_WRITE
       (optional_call svc ''begin_attachment'' ''attachment upload is unavailable'') command"

definition append_attachment_chunk_port :: "access_service \<Rightarrow> dto \<Rightarrow> access_error + delegation" where
  "append_attachment_chunk_port svc command =
     session_call svc ''AppendAttachmentChunkCommand'' ''append command'' ATTACHMENTS_WRITE
       (optional_call svc ''append_attachment_chunk'' ''attachment upload is unavailable'') command"

definition finish_attachment_port :: "access_service \<Rightarrow> dto \<Rightarrow> access_error + delegation" where
  "finish_attachment_port svc command =
     session_call svc ''FinishAttachmentCommand'' ''finish command'' ATTACHMENTS_WRITE
       (optional_call svc ''finish_attachment'' ''attachment upload is unavailable'') command"

definition abort_attachment_port :: "access_service \<Rightarrow> dto \<Rightarrow> access_error + delegation" where
  "abort_attachment_port svc command =
     session_call svc ''AbortAttachmentCommand'' ''abort command'' ATTACHMENTS_WRITE
       (optional_call svc ''abort_attachment'' ''attachment upload is unavailable'') command"

definition stat_attachment_port :: "access_service \<Rightarrow> dto \<Rightarrow> access_error + delegation" where
  "stat_attachment_port svc query =
     session_call svc ''StatAttachmentQuery'' ''stat query'' ATTACHMENTS_READ
       (optional_call svc ''stat_attachment'' ''attachment read is unavailable'') query"

definition read_attachment_port :: "access_service \<Rightarrow> dto \<Rightarrow> access_error + delegation" where
  "read_attachment_port svc query =
     session_call svc ''ReadAttachmentQuery'' ''read query'' ATTACHMENTS_READ
       (optional_call svc ''read_attachment'' ''attachment read is unavailable'') query"

definition read_events :: "access_service \<Rightarrow> dto \<Rightarrow> access_error + delegation" where
  "read_events svc query =
     session_call svc ''ReadEventsQuery'' ''events query'' EVENTS_READ
       (required_call ''read_events'') query"

definition rename_session :: "access_service \<Rightarrow> dto \<Rightarrow> access_error + delegation" where
  "rename_session svc command =
     session_call svc ''RenameSessionCommand'' ''rename command'' SESSION_RENAME
       (optional_call svc ''rename_session'' ''session rename is unavailable'') command"

definition delete_session :: "access_service \<Rightarrow> dto \<Rightarrow> access_error + delegation" where
  "delete_session svc command =
     session_call svc ''DeleteSessionCommand'' ''delete command'' SESSION_DELETE
       (optional_call svc ''delete_session'' ''session delete is unavailable'') command"

definition read_session_history :: "access_service \<Rightarrow> dto \<Rightarrow> access_error + delegation" where
  "read_session_history svc query =
     session_call svc ''ReadSessionHistoryQuery'' ''history query'' SESSION_READ
       (optional_call svc ''read_session_history'' ''session history is unavailable'') query"

definition reconcile_session :: "access_service \<Rightarrow> dto \<Rightarrow> access_error + delegation" where
  "reconcile_session svc query =
     session_call svc ''ReconcileSessionQuery'' ''reconcile query'' SESSION_READ
       (optional_call svc ''reconcile_session'' ''session recovery is unavailable'') query"

definition list_models :: "access_service \<Rightarrow> dto \<Rightarrow> access_error + delegation" where
  "list_models svc query =
     session_call svc ''ListModelsQuery'' ''list models query'' MODELS_READ
       (optional_call svc ''list_models'' ''model management is unavailable'') query"

definition save_model :: "access_service \<Rightarrow> dto \<Rightarrow> access_error + delegation" where
  "save_model svc command =
     session_call svc ''SaveModelCommand'' ''save model command'' MODELS_WRITE
       (optional_call svc ''save_model'' ''model management is unavailable'') command"

definition delete_model :: "access_service \<Rightarrow> dto \<Rightarrow> access_error + delegation" where
  "delete_model svc command =
     session_call svc ''DeleteModelCommand'' ''delete model command'' MODELS_WRITE
       (optional_call svc ''delete_model'' ''model management is unavailable'') command"

definition set_default_model :: "access_service \<Rightarrow> dto \<Rightarrow> access_error + delegation" where
  "set_default_model svc command =
     session_call svc ''SetDefaultModelCommand'' ''set default model command'' MODELS_WRITE
       (optional_call svc ''set_default_model'' ''model management is unavailable'') command"

definition test_model :: "access_service \<Rightarrow> dto \<Rightarrow> access_error + delegation" where
  "test_model svc command =
     session_call svc ''TestModelCommand'' ''test model command'' MODELS_READ
       (optional_call svc ''test_model'' ''model management is unavailable'') command"

definition list_mcp_servers :: "access_service \<Rightarrow> dto \<Rightarrow> access_error + delegation" where
  "list_mcp_servers svc query =
     session_call svc ''ListMcpServersQuery'' ''list MCP servers query'' MCP_READ
       (optional_call svc ''list_mcp_servers'' ''MCP management is unavailable'') query"

definition save_mcp_server :: "access_service \<Rightarrow> dto \<Rightarrow> access_error + delegation" where
  "save_mcp_server svc command =
     session_call svc ''SaveMcpServerCommand'' ''save MCP server command'' MCP_WRITE
       (optional_call svc ''save_mcp_server'' ''MCP management is unavailable'') command"

definition delete_mcp_server :: "access_service \<Rightarrow> dto \<Rightarrow> access_error + delegation" where
  "delete_mcp_server svc command =
     session_call svc ''DeleteMcpServerCommand'' ''delete MCP server command'' MCP_WRITE
       (optional_call svc ''delete_mcp_server'' ''MCP management is unavailable'') command"

text \<open>A fork names its session as the source.\<close>

definition fork_session :: "access_service \<Rightarrow> dto \<Rightarrow> access_error + delegation" where
  "fork_session svc command =
     (if dto_type command \<noteq> ''ForkSessionCommand''
      then Inl (InvalidRequestError ''fork command must be a ForkSessionCommand'')
      else case dto_source command of
        NotASessionRef \<Rightarrow> Inl (InvalidRequestError ''fork command must contain a valid source SessionRef'')
      | SessionRefValue project thread \<Rightarrow>
          if \<not> py_truthy project \<or> \<not> py_truthy thread
          then Inl (InvalidRequestError ''fork command must contain a valid source SessionRef'')
          else (case authorize (sv_authorizer svc) (sv_principal svc) SESSION_FORK (dto_source command) of
                  Some e \<Rightarrow> Inl e
                | None \<Rightarrow> optional_call svc ''fork_session'' ''session fork is unavailable'' command))"

text \<open>
  A watch takes its arguments one by one: the session, three integers and the filter, of which only
  the type is checked.
\<close>

definition is_py_int :: "pyval \<Rightarrow> bool" where
  "is_py_int v = (case v of PInt _ \<Rightarrow> True | _ \<Rightarrow> False)"

definition watch_events ::
  "access_service \<Rightarrow> ref_value \<Rightarrow> pyval \<Rightarrow> pyval \<Rightarrow> bool \<Rightarrow> pyval \<Rightarrow> dto \<Rightarrow> access_error + delegation" where
  "watch_events svc session after queue_size filter_ok max_event_bytes args =
     (if \<not> is_valid_ref session then Inl (InvalidRequestError ''watch session must be a valid SessionRef'')
      else if \<not> is_py_int after then Inl (InvalidRequestError ''watch after must be an integer'')
      else if \<not> is_py_int queue_size then Inl (InvalidRequestError ''watch queue_size must be an integer'')
      else if \<not> filter_ok then Inl (InvalidRequestError ''watch event_filter must be an EventFilter'')
      else if \<not> is_py_int max_event_bytes
      then Inl (InvalidRequestError ''watch max_event_bytes must be an integer'')
      else case authorize (sv_authorizer svc) (sv_principal svc) EVENTS_WATCH session of
             Some e \<Rightarrow> Inl e
           | None \<Rightarrow> required_call ''watch_events'' (args\<lparr>dto_session := session\<rparr>))"

section \<open>Ports on a project\<close>

definition set_project_thinking_level :: "access_service \<Rightarrow> dto \<Rightarrow> access_error + delegation" where
  "set_project_thinking_level svc command =
     project_call svc ''SetProjectThinkingLevelCommand'' ''project thinking command must be a SetProjectThinkingLevelCommand'' True PROJECT_THINKING
       (optional_call svc ''set_project_thinking_level'' ''project thinking level is unavailable'') command"

definition list_sessions :: "access_service \<Rightarrow> dto \<Rightarrow> access_error + delegation" where
  "list_sessions svc query =
     project_call svc ''ListSessionsQuery'' ''list sessions query must be a ListSessionsQuery'' True SESSION_LIST
       (optional_call svc ''list_sessions'' ''session list is unavailable'') query"

definition create_session :: "access_service \<Rightarrow> dto \<Rightarrow> access_error + delegation" where
  "create_session svc command =
     project_call svc ''CreateSessionCommand'' ''create command must be a CreateSessionCommand'' True SESSION_CREATE
       (optional_call svc ''create_session'' ''session create is unavailable'') command"

definition search_sessions :: "access_service \<Rightarrow> dto \<Rightarrow> access_error + delegation" where
  "search_sessions svc query =
     project_call svc ''SearchSessionsQuery'' ''search query must be a SearchSessionsQuery'' True SESSION_SEARCH
       (optional_call svc ''search_sessions'' ''session search is unavailable'') query"

definition list_project_tasks_port :: "access_service \<Rightarrow> dto \<Rightarrow> access_error + delegation" where
  "list_project_tasks_port svc query =
     project_call svc ''ListProjectTasksQuery'' ''query must be a ListProjectTasksQuery'' False PROJECT_TASKS
       (optional_call svc ''list_project_tasks'' ''project tasks is unavailable'') query"

definition get_project_task_port :: "access_service \<Rightarrow> dto \<Rightarrow> access_error + delegation" where
  "get_project_task_port svc query =
     project_call svc ''GetProjectTaskQuery'' ''query must be a GetProjectTaskQuery'' False PROJECT_TASKS
       (optional_call svc ''get_project_task'' ''project tasks is unavailable'') query"

definition create_project_task_port :: "access_service \<Rightarrow> dto \<Rightarrow> access_error + delegation" where
  "create_project_task_port svc command =
     project_call svc ''CreateProjectTaskCommand'' ''command must be a CreateProjectTaskCommand'' False PROJECT_TASKS
       (optional_call svc ''create_project_task'' ''project tasks is unavailable'') command"

definition update_project_task_port :: "access_service \<Rightarrow> dto \<Rightarrow> access_error + delegation" where
  "update_project_task_port svc command =
     project_call svc ''UpdateProjectTaskCommand'' ''command must be a UpdateProjectTaskCommand'' False PROJECT_TASKS
       (optional_call svc ''update_project_task'' ''project tasks is unavailable'') command"

definition delete_project_task_port :: "access_service \<Rightarrow> dto \<Rightarrow> access_error + delegation" where
  "delete_project_task_port svc command =
     project_call svc ''DeleteProjectTaskCommand'' ''command must be a DeleteProjectTaskCommand'' False PROJECT_TASKS
       (optional_call svc ''delete_project_task'' ''project tasks is unavailable'') command"

section \<open>Ports on the catalog\<close>

definition list_external_apps :: "access_service \<Rightarrow> dto \<Rightarrow> access_error + delegation" where
  "list_external_apps svc query =
     catalog_call svc ''ListExternalAppsQuery'' ''list external apps query must be a ListExternalAppsQuery'' APPS_LIST
       (optional_call svc ''list_external_apps'' ''external application listing is unavailable'') query"

definition register_project :: "access_service \<Rightarrow> dto \<Rightarrow> access_error + delegation" where
  "register_project svc command =
     catalog_call svc ''RegisterProjectCommand'' ''register project command must be a RegisterProjectCommand'' PROJECT_REGISTER
       (optional_call svc ''register_project'' ''project registration is unavailable'') command"

definition list_directories :: "access_service \<Rightarrow> dto \<Rightarrow> access_error + delegation" where
  "list_directories svc query =
     catalog_call svc ''ListDirectoriesQuery'' ''list directories query must be a ListDirectoriesQuery'' FS_LIST
       (optional_call svc ''list_directories'' ''directory browsing is unavailable'') query"

definition list_skills :: "access_service \<Rightarrow> dto \<Rightarrow> access_error + delegation" where
  "list_skills svc query =
     catalog_call svc ''ListSkillsQuery'' ''list skills query must be a ListSkillsQuery'' SKILLS_LIST
       (optional_call svc ''list_skills'' ''skills listing is unavailable'') query"

text \<open>
  The query of the project list, with its validation; \<open>list_projects\<close> puts the visible projects of the
  principal into it.
\<close>

definition valid_project_ids :: "string list \<Rightarrow> bool" where
  "valid_project_ids ids \<longleftrightarrow> length ids \<le> 500 \<and> (\<forall>i \<in> set ids. i \<noteq> [] \<and> CHR 0x00 \<notin> set i)"

definition make_list_projects_query :: "int \<Rightarrow> int \<Rightarrow> string list \<Rightarrow> access_error + dto" where
  "make_list_projects_query limit offset visible =
     (if \<not> (1 \<le> limit \<and> limit \<le> 100) then Inl (AccessValueError ''limit'')
      else if \<not> (0 \<le> offset \<and> offset \<le> 100000) then Inl (AccessValueError ''offset'')
      else if \<not> valid_project_ids visible then Inl (AccessValueError ''visible_project_ids'')
      else Inr \<lparr>dto_type = ''ListProjectsQuery'', dto_session = NotASessionRef, dto_ref = NoTargetRef,
                dto_source = NotASessionRef, dto_project_id = PNone, dto_limit = limit, dto_offset = offset,
                dto_visible = sort (remdups visible), dto_payload = PNone\<rparr>)"

definition effective_ids :: "string list option \<Rightarrow> string list \<Rightarrow> string list" where
  "effective_ids visible requested =
     (case visible of
        None \<Rightarrow> requested
      | Some ids \<Rightarrow> if requested = [] then ids else filter (\<lambda>i. i \<in> set requested) ids)"

definition list_projects :: "access_service \<Rightarrow> dto \<Rightarrow> access_error + delegation" where
  "list_projects svc query =
     (if dto_type query \<noteq> ''ListProjectsQuery''
      then Inl (InvalidRequestError ''list projects query must be a ListProjectsQuery'')
      else case visible_project_ids (sv_authorizer svc) (sv_principal svc) PROJECT_LIST of
        Inl e \<Rightarrow> Inl e
      | Inr visible \<Rightarrow>
          if visible = Some [] then Inl PermissionDeniedError
          else
            let effective = effective_ids visible (dto_visible query)
            in (case (if set effective = set (dto_visible query) then Inr query
                      else make_list_projects_query (dto_limit query) (dto_offset query) effective) of
                  Inl e \<Rightarrow> Inl e
                | Inr q \<Rightarrow> optional_call svc ''list_projects'' ''project list is unavailable'' q))"

section \<open>All ports\<close>

definition session_operations :: "(string \<times> (access_service \<Rightarrow> dto \<Rightarrow> access_error + delegation)) list" where
  "session_operations =
     [
      (TURN_SUBMIT, submit_turn), (TURN_APPROVAL_RESUME, resume_turn),
      (SESSION_OPEN, open_session), (SESSION_REBIND, rebind_session),
      (SESSION_THINKING, set_thinking_level), (SESSION_MCP_RELOAD, reload_mcp),
      (TURN_CANCEL, cancel_turn_port), (TURN_STEER, steer_turn_port),
      (SESSION_CLOSE, close_session), (SESSION_READ, get_session),
      (SESSION_READ, get_session_goal), (SESSION_GOAL, set_session_goal),
      (SESSION_GOAL, edit_session_goal), (SESSION_GOAL, clear_session_goal),
      (SESSION_GOAL, pause_session_goal), (SESSION_GOAL, resume_session_goal),
      (SESSION_READ, get_runtime_config), (COLLABORATION_READ, list_collaborations),
      (COLLABORATION_CONTROL, stop_collaboration), (CODEX_USAGE_READ, get_codex_usage),
      (CODEX_USAGE_READ, get_codex_reset_credits), (CODEX_RESET_CONSUME, consume_codex_reset),
      (TURN_APPROVAL_READ, pending_approval_port), (ARTIFACTS_STAT, stat_artifact),
      (ARTIFACTS_LIST, list_artifacts), (ARTIFACTS_READ, read_artifact), (GIT_STATUS, git_status),
      (GIT_DIFF, git_diff), (WORKSPACE_REVERT, revert_turn_change),
      (WORKSPACE_OPEN_EXTERNAL, open_external), (SCREENSHOT_READ, get_screenshot_status),
      (SCREENSHOT_CONTROL, open_screenshot_settings),
      (SCREENSHOT_CONTROL, start_screenshot_capture),
      (SCREENSHOT_CONTROL, cancel_screenshot_capture), (STT_CONTROL, get_stt_status),
      (STT_CONTROL, set_stt_api_key), (STT_CONTROL, set_stt_engine),
      (STT_CONTROL, warm_up_stt_models), (STT_CONTROL, begin_stt_dictation),
      (STT_CONTROL, append_stt_audio), (STT_CONTROL, finish_stt_dictation),
      (STT_CONTROL, cancel_stt_dictation), (ATTACHMENTS_WRITE, begin_attachment_port),
      (ATTACHMENTS_WRITE, append_attachment_chunk_port), (ATTACHMENTS_WRITE, finish_attachment_port),
      (ATTACHMENTS_WRITE, abort_attachment_port), (ATTACHMENTS_READ, stat_attachment_port),
      (ATTACHMENTS_READ, read_attachment_port), (EVENTS_READ, read_events),
      (SESSION_RENAME, rename_session), (SESSION_DELETE, delete_session),
      (SESSION_READ, read_session_history), (SESSION_READ, reconcile_session),
      (MODELS_READ, list_models), (MODELS_WRITE, save_model), (MODELS_WRITE, delete_model),
      (MODELS_WRITE, set_default_model), (MODELS_READ, test_model), (MCP_READ, list_mcp_servers),
      (MCP_WRITE, save_mcp_server), (MCP_WRITE, delete_mcp_server),
      (SESSION_FORK, fork_session)]"

definition project_operations :: "(string \<times> (access_service \<Rightarrow> dto \<Rightarrow> access_error + delegation)) list" where
  "project_operations =
     [
      (PROJECT_THINKING, set_project_thinking_level), (SESSION_LIST, list_sessions),
      (SESSION_CREATE, create_session), (SESSION_SEARCH, search_sessions),
      (PROJECT_TASKS, list_project_tasks_port), (PROJECT_TASKS, get_project_task_port),
      (PROJECT_TASKS, create_project_task_port), (PROJECT_TASKS, update_project_task_port),
      (PROJECT_TASKS, delete_project_task_port)]"

definition catalog_operations :: "(string \<times> (access_service \<Rightarrow> dto \<Rightarrow> access_error + delegation)) list" where
  "catalog_operations =
     [
      (APPS_LIST, list_external_apps), (PROJECT_REGISTER, register_project),
      (FS_LIST, list_directories), (SKILLS_LIST, list_skills)]"

end
