(* ===== verification/Access_Contract.thy ===== *)
theory Access_Contract
  imports Service_Access Project_Routing
begin

text \<open>
  What the access control guarantees: an abstract policy that the three authorizers decide exactly, the
  guard of every port, the narrowing by a connection scope, and the project list, which the wrapper and
  the catalog adapter of Project_Routing answer together.
\<close>

section \<open>The policy\<close>

text \<open>
  Who may use a capability on a project, or, with \<open>Some thread\<close>, on a session of it. A grant for some
  threads says nothing about the project.
\<close>

fun may :: "authorizer \<Rightarrow> string \<Rightarrow> string \<Rightarrow> string \<Rightarrow> string option \<Rightarrow> bool" where
  "may (Acl grants) who capability project thread =
     (\<exists>g \<in> set grants. ag_subject g = who \<and> ag_project_id g = project \<and>
        capability \<in> set (ag_capabilities g) \<and>
        (case ag_thread_ids g of None \<Rightarrow> True | Some ts \<Rightarrow> \<exists>t \<in> set ts. thread = Some t))"
| "may Daemon who capability project thread = (who = ''runtime-daemon'')"
| "may (ProjectScope inner scope) who capability project thread =
     (project = scope \<and> may inner who capability project thread)"

definition subject_of :: "principal \<Rightarrow> string" where
  "subject_of p = the_text (pr_subject p)"

lemma valid_text_str: "valid_text v \<Longrightarrow> v = PStr (the_text v)"
  by (cases v) (simp_all add: valid_text_def validate_access_text_def the_text_def)

lemma valid_principal_subject: "is_valid_principal p \<Longrightarrow> (PStr s = pr_subject p) = (s = subject_of p)"
  using valid_text_str [of "pr_subject p"] unfolding is_valid_principal_def subject_of_def
  by (cases "pr_subject p") (simp_all add: the_text_def)

lemma session_grant_exact:
  assumes "is_valid_principal p"
  shows "list_ex (grant_for_session p cap project thread) gs = may (Acl gs) (subject_of p) cap project (Some thread)"
proof -
  have "grant_for_session p cap project thread g \<longleftrightarrow> ag_subject g = subject_of p \<and> ag_project_id g = project \<and>
      cap \<in> set (ag_capabilities g) \<and>
      (case ag_thread_ids g of None \<Rightarrow> True | Some ts \<Rightarrow> \<exists>t \<in> set ts. Some thread = Some t)" for g
    unfolding grant_for_session_def valid_principal_subject [OF assms] by (auto split: option.split)
  then show ?thesis unfolding list_ex_iff may.simps by (intro bex_cong refl)
qed

lemma project_grant_exact:
  assumes "is_valid_principal p"
  shows "list_ex (grant_for_project p cap project) gs = may (Acl gs) (subject_of p) cap project None"
proof -
  have "grant_for_project p cap project g \<longleftrightarrow> ag_subject g = subject_of p \<and> ag_project_id g = project \<and>
      cap \<in> set (ag_capabilities g) \<and>
      (case ag_thread_ids g of None \<Rightarrow> True | Some ts \<Rightarrow> \<exists>t \<in> set ts. None = Some t)" for g
    unfolding grant_for_project_def valid_principal_subject [OF assms] by (auto split: option.split)
  then show ?thesis unfolding list_ex_iff may.simps by (intro bex_cong refl)
qed

lemma daemon_subject: "is_valid_principal p \<Longrightarrow> (pr_subject p = PStr s) = (subject_of p = s)"
  using valid_principal_subject [of p s] by auto

lemma authorize_exact:
  "authorize a p cap ref = None \<longleftrightarrow> is_valid_principal p \<and> is_valid_ref ref \<and>
     cap \<in> set ALL_RUNTIME_CAPABILITIES \<and> may a (subject_of p) cap (ref_project ref) (Some (ref_thread ref))"
proof (induction a)
  case (Acl gs)
  show ?case
    by (cases "is_valid_principal p") (simp_all only: authorize.simps acl_authorize_def session_grant_exact, auto)
next
  case Daemon
  show ?case by (cases "is_valid_principal p") (simp_all add: daemon_authorize_def daemon_subject)
next
  case (ProjectScope a scope)
  then show ?case by auto
qed

lemma authorize_project_exact:
  "authorize_project a p cap project = None \<longleftrightarrow> is_valid_principal p \<and> valid_text project \<and>
     cap \<in> set ALL_RUNTIME_CAPABILITIES \<and> may a (subject_of p) cap (the_text project) None"
proof (induction a)
  case (Acl gs)
  show ?case
    by (cases "is_valid_principal p") (simp_all only: authorize_project.simps acl_authorize_project_def project_grant_exact, auto)
next
  case Daemon
  show ?case by (cases "is_valid_principal p") (simp_all add: daemon_authorize_project_def daemon_subject)
next
  case (ProjectScope a scope)
  then show ?case by auto
qed

text \<open>
  C7: The authorizers decide the policy, exactly: \<open>authorize\<close> returns if and only if the principal, the
  reference and the capability are well formed and the policy allows the access; \<open>authorize_project\<close>
  likewise for a project. So a grant for single threads never authorizes anything on the project.
\<close>

theorem authorizers_decide_the_policy:
  "(authorize a p cap ref = None \<longleftrightarrow> is_valid_principal p \<and> is_valid_ref ref \<and>
     cap \<in> set ALL_RUNTIME_CAPABILITIES \<and>
     may a (subject_of p) cap (ref_project ref) (Some (ref_thread ref))) \<and>
   (authorize_project a p cap project = None \<longleftrightarrow> is_valid_principal p \<and> valid_text project \<and>
     cap \<in> set ALL_RUNTIME_CAPABILITIES \<and> may a (subject_of p) cap (the_text project) None)"
  using authorize_exact authorize_project_exact by blast

text \<open>The visible projects are those the policy allows the capability on.\<close>

lemma visible_exact:
  "visible_project_ids a p cap = Inr visible \<Longrightarrow>
     (visible = None \<or> (\<exists>ids. visible = Some ids \<and> project \<in> set ids)) \<longleftrightarrow> may a (subject_of p) cap project None"
proof (induction a arbitrary: visible)
  case (Acl gs)
  then have p: "is_valid_principal p" by (auto simp: acl_visible_def split: if_splits)
  have v: "visible = Some (remdups (map ag_project_id (filter (\<lambda>g. PStr (ag_subject g) = pr_subject p \<and>
      ag_thread_ids g = None \<and> cap \<in> set (ag_capabilities g)) gs)))"
    using Acl by (simp add: acl_visible_def split: if_splits)
  show ?case
    unfolding v valid_principal_subject [OF p] by (auto split: option.splits)
next
  case Daemon
  then show ?case by (auto simp: daemon_visible_def daemon_subject split: if_splits)
next
  case (ProjectScope a scope)
  then obtain inner where inner: "visible_project_ids a p cap = Inr inner"
    and v: "visible = (case inner of None \<Rightarrow> Some [scope] | Some ids \<Rightarrow> Some (filter (\<lambda>i. i = scope) ids))"
    by (auto split: if_splits sum.splits option.splits)
  show ?case
    using ProjectScope.IH [OF inner] unfolding v by (cases inner) auto
qed

text \<open>
  C37: A connection scope only narrows. Whatever authorizer it is put over, what passes the scoped
  authorizer is about the project of the scope and passes the authorizer inside, for sessions, for
  projects and for the list of visible projects.
\<close>

theorem scope_only_narrows:
  assumes "make_project_scope inner scope = Inr scoped"
  shows "(authorize scoped p cap ref = None \<longleftrightarrow>
      PStr (ref_project ref) = scope \<and> authorize inner p cap ref = None) \<and>
    (authorize_project scoped p cap project = None \<longleftrightarrow>
      PStr (the_text project) = scope \<and> authorize_project inner p cap project = None) \<and>
    (\<forall>visible. visible_project_ids scoped p cap = Inr visible \<longrightarrow>
       (\<exists>ids. visible = Some ids \<and> (\<forall>i \<in> set ids. PStr i = scope \<and> may inner (subject_of p) cap i None)))"
proof -
  obtain s where s: "scope = PStr s" "scoped = ProjectScope inner s"
    using assms valid_text_str [of scope]
    by (cases scope) (auto simp: make_project_scope_def validate_access_text_def split: authorizer.splits if_splits)
  have "\<exists>ids. visible = Some ids \<and> (\<forall>i \<in> set ids. PStr i = scope \<and> may inner (subject_of p) cap i None)"
    if v: "visible_project_ids scoped p cap = Inr visible" for visible
  proof -
    obtain ids where "visible = Some ids"
      using v unfolding s(2) by (auto split: if_splits sum.splits option.splits)
    then show ?thesis using visible_exact [OF v] unfolding s by auto
  qed
  then show ?thesis unfolding s by (auto simp: authorize_exact authorize_project_exact)
qed

section \<open>Every port is guarded\<close>

text \<open>What a port on a session is about.\<close>

definition dto_target :: "dto \<Rightarrow> ref_value" where
  "dto_target d =
     (if dto_type d \<in> set ARTIFACT_REF_DTOS
      then (case dto_ref d of ArtifactRefValue _ r \<Rightarrow> r | _ \<Rightarrow> NotASessionRef)
      else if dto_type d \<in> set ATTACHMENT_REF_DTOS
      then (case dto_ref d of AttachmentRefValue r \<Rightarrow> r | _ \<Rightarrow> NotASessionRef)
      else if dto_type d = ''ForkSessionCommand'' then dto_source d
      else dto_session d)"

definition same_policy :: "access_service \<Rightarrow> access_service \<Rightarrow> bool" where
  "same_policy svc svc' \<longleftrightarrow> sv_principal svc' = sv_principal svc \<and> sv_authorizer svc' = sv_authorizer svc"

type_synonym port = "access_service \<Rightarrow> dto \<Rightarrow> access_error + delegation"

text \<open>
  The contract of a port, for a test \<open>ok\<close> of the policy: it calls the delegate only with the request it
  was given, and only if the test allows it; and a denial does not depend on the delegate.
\<close>

definition port_ok :: "(access_service \<Rightarrow> dto \<Rightarrow> bool) \<Rightarrow> port \<Rightarrow> bool" where
  "port_ok ok port \<longleftrightarrow>
     (\<forall>svc d x. port svc d = Inr x \<longrightarrow> dl_request x = d \<and> ok svc d) \<and>
     (\<forall>svc svc' d. same_policy svc svc' \<longrightarrow>
        (port svc d = Inl PermissionDeniedError \<longleftrightarrow> port svc' d = Inl PermissionDeniedError))"

definition session_policy :: "string \<Rightarrow> access_service \<Rightarrow> dto \<Rightarrow> bool" where
  "session_policy cap svc d \<longleftrightarrow> is_valid_ref (dto_target d) \<and>
     may (sv_authorizer svc) (subject_of (sv_principal svc)) cap
       (ref_project (dto_target d)) (Some (ref_thread (dto_target d)))"

definition project_policy :: "string \<Rightarrow> access_service \<Rightarrow> dto \<Rightarrow> bool" where
  "project_policy cap svc d \<longleftrightarrow> valid_text (dto_project_id d) \<and>
     may (sv_authorizer svc) (subject_of (sv_principal svc)) cap (the_text (dto_project_id d)) None"

definition catalog_policy :: "string \<Rightarrow> access_service \<Rightarrow> dto \<Rightarrow> bool" where
  "catalog_policy cap svc d \<longleftrightarrow>
     (\<exists>project. may (sv_authorizer svc) (subject_of (sv_principal svc)) cap project None)"

text \<open>The end of a port: it passes the request on, and never denies.\<close>

definition passes :: "(access_service \<Rightarrow> dto \<Rightarrow> access_error + delegation) \<Rightarrow> bool" where
  "passes call \<longleftrightarrow> (\<forall>svc d. (\<forall>x. call svc d = Inr x \<longrightarrow> dl_request x = d) \<and>
     call svc d \<noteq> Inl PermissionDeniedError)"

lemma passes_required: "passes (\<lambda>svc. required_call m)"
  by (simp add: passes_def required_call_def)

lemma passes_optional: "passes (\<lambda>svc. optional_call svc m u)"
  by (simp add: passes_def optional_call_def)

lemma session_from_dto_target:
  "session_from_dto d expected field = Inr s \<Longrightarrow> expected \<noteq> ''ForkSessionCommand'' \<Longrightarrow>
     s = dto_target d \<and> is_valid_ref s"
  unfolding session_from_dto_def dto_target_def Let_def
  by (auto split: if_splits target_ref.splits pyval.splits)

lemma session_from_dto_error: "session_from_dto d expected field \<noteq> Inl PermissionDeniedError"
  unfolding session_from_dto_def Let_def
  by (simp split: target_ref.split pyval.split)

lemma session_port:
  assumes "passes call" "expected \<noteq> ''ForkSessionCommand''"
  shows "port_ok (session_policy cap) (\<lambda>svc. session_call svc expected field cap (call svc))"
  unfolding port_ok_def
proof (intro conjI allI impI)
  fix svc d x assume *: "session_call svc expected field cap (call svc) d = Inr x"
  then obtain s where s: "session_from_dto d expected field = Inr s"
    by (auto simp: session_call_def split: sum.splits)
  with * have a: "authorize (sv_authorizer svc) (sv_principal svc) cap s = None" "call svc d = Inr x"
    by (auto simp: session_call_def split: option.splits)
  show "dl_request x = d" using a(2) assms(1) by (simp add: passes_def)
  show "session_policy cap svc d"
    using session_from_dto_target [OF s assms(2)] a(1) by (simp add: session_policy_def authorize_exact)
next
  fix svc svc' d assume "same_policy svc svc'"
  then show "(session_call svc expected field cap (call svc) d = Inl PermissionDeniedError) =
      (session_call svc' expected field cap (call svc') d = Inl PermissionDeniedError)"
    using assms(1) by (simp add: session_call_def same_policy_def passes_def split: sum.split option.split)
qed

lemma project_port:
  assumes "passes call"
  shows "port_ok (project_policy cap) (\<lambda>svc. project_call svc expected message blank cap (call svc))"
  unfolding port_ok_def
proof (intro conjI allI impI)
  fix svc d x assume *: "project_call svc expected message blank cap (call svc) d = Inr x"
  then have a: "authorize_project (sv_authorizer svc) (sv_principal svc) cap (dto_project_id d) = None"
    "call svc d = Inr x"
    by (auto simp: project_call_def split: if_splits option.splits)
  show "dl_request x = d" using a(2) assms by (simp add: passes_def)
  show "project_policy cap svc d" using a(1) by (simp add: project_policy_def authorize_project_exact)
next
  fix svc svc' d assume "same_policy svc svc'"
  then show "(project_call svc expected message blank cap (call svc) d = Inl PermissionDeniedError) =
      (project_call svc' expected message blank cap (call svc') d = Inl PermissionDeniedError)"
    using assms by (simp add: project_call_def same_policy_def passes_def split: option.split)
qed

lemma catalog_port:
  assumes "passes call"
  shows "port_ok (catalog_policy cap) (\<lambda>svc. catalog_call svc expected message cap (call svc))"
  unfolding port_ok_def
proof (intro conjI allI impI)
  fix svc d x assume *: "catalog_call svc expected message cap (call svc) d = Inr x"
  then obtain v where v: "visible_project_ids (sv_authorizer svc) (sv_principal svc) cap = Inr v"
    and call: "v \<noteq> Some []" "call svc d = Inr x"
    by (auto simp: catalog_call_def split: if_splits sum.splits)
  show "dl_request x = d" using call(2) assms by (simp add: passes_def)
  show "catalog_policy cap svc d"
  proof (cases v)
    case None
    then show ?thesis using visible_exact [OF v] by (simp add: catalog_policy_def)
  next
    case (Some ids)
    then obtain i where "i \<in> set ids" using call(1) by (cases ids) auto
    then show ?thesis using visible_exact [OF v, of i] Some by (auto simp: catalog_policy_def)
  qed
next
  fix svc svc' d assume "same_policy svc svc'"
  then show "(catalog_call svc expected message cap (call svc) d = Inl PermissionDeniedError) =
      (catalog_call svc' expected message cap (call svc') d = Inl PermissionDeniedError)"
    using assms by (simp add: catalog_call_def same_policy_def passes_def split: sum.split)
qed

lemma fork_port: "port_ok (session_policy SESSION_FORK) fork_session"
  unfolding port_ok_def
proof (intro conjI allI impI)
  fix svc d x assume *: "fork_session svc d = Inr x"
  then have d: "dto_type d = ''ForkSessionCommand''" by (simp add: fork_session_def split: if_splits)
  obtain project thread where src: "dto_source d = SessionRefValue project thread"
    using * d by (cases "dto_source d") (simp_all add: fork_session_def)
  have a: "authorize (sv_authorizer svc) (sv_principal svc) SESSION_FORK (dto_source d) = None"
    "optional_call svc ''fork_session'' ''session fork is unavailable'' d = Inr x"
    using * d src by (simp_all add: fork_session_def split: if_splits option.splits)
  show "dl_request x = d" using a(2) passes_optional by (simp add: passes_def)
  have "dto_target d = dto_source d" by (simp add: dto_target_def d ARTIFACT_REF_DTOS_def ATTACHMENT_REF_DTOS_def)
  then show "session_policy SESSION_FORK svc d" using a(1) by (simp add: session_policy_def authorize_exact)
next
  fix svc svc' d assume "same_policy svc svc'"
  then show "(fork_session svc d = Inl PermissionDeniedError) = (fork_session svc' d = Inl PermissionDeniedError)"
    by (simp add: fork_session_def same_policy_def optional_call_def split: ref_value.split option.split)
qed

lemmas session_port_defs =
  submit_turn_def resume_turn_def open_session_def rebind_session_def set_thinking_level_def
  reload_mcp_def cancel_turn_port_def steer_turn_port_def close_session_def get_session_def
  get_session_goal_def set_session_goal_def edit_session_goal_def clear_session_goal_def
  pause_session_goal_def resume_session_goal_def get_runtime_config_def list_collaborations_def
  stop_collaboration_def get_codex_usage_def get_codex_reset_credits_def consume_codex_reset_def
  pending_approval_port_def stat_artifact_def list_artifacts_def read_artifact_def git_status_def
  git_diff_def revert_turn_change_def open_external_def get_screenshot_status_def
  open_screenshot_settings_def start_screenshot_capture_def cancel_screenshot_capture_def
  get_stt_status_def set_stt_api_key_def set_stt_engine_def warm_up_stt_models_def
  begin_stt_dictation_def append_stt_audio_def finish_stt_dictation_def cancel_stt_dictation_def
  begin_attachment_port_def append_attachment_chunk_port_def finish_attachment_port_def abort_attachment_port_def
  stat_attachment_port_def read_attachment_port_def read_events_def rename_session_def delete_session_def
  read_session_history_def reconcile_session_def list_models_def save_model_def delete_model_def
  set_default_model_def test_model_def list_mcp_servers_def save_mcp_server_def
  delete_mcp_server_def

lemmas project_port_defs =
  set_project_thinking_level_def list_sessions_def create_session_def search_sessions_def
  list_project_tasks_port_def get_project_task_port_def create_project_task_port_def
  update_project_task_port_def delete_project_task_port_def

lemmas catalog_port_defs =
  list_external_apps_def register_project_def list_directories_def list_skills_def

lemma session_ports: "list_all (\<lambda>(cap, port). port_ok (session_policy cap) port) session_operations"
  unfolding session_operations_def
  by (simp only: list.pred_inject prod.case, intro conjI TrueI fork_port;
      simp only: session_port_defs [abs_def]; rule session_port, rule passes_required passes_optional, simp)

lemma project_ports: "list_all (\<lambda>(cap, port). port_ok (project_policy cap) port) project_operations"
  unfolding project_operations_def
  by (simp only: list.pred_inject prod.case, intro conjI TrueI;
      simp only: project_port_defs [abs_def]; rule project_port, rule passes_required passes_optional)

lemma catalog_ports: "list_all (\<lambda>(cap, port). port_ok (catalog_policy cap) port) catalog_operations"
  unfolding catalog_operations_def
  by (simp only: list.pred_inject prod.case, intro conjI TrueI;
      simp only: catalog_port_defs [abs_def]; rule catalog_port, rule passes_required passes_optional)


text \<open>
  The policy is asked before the delegate. Whether a port denies a request does not depend on what
  the delegate can do: a service with the same principal and authorizer over an older delegate denies
  exactly the same requests.
\<close>

theorem denial_before_delegate:
  assumes "(cap, port) \<in> set (session_operations @ project_operations @ catalog_operations)"
    "sv_principal svc' = sv_principal svc" "sv_authorizer svc' = sv_authorizer svc"
  shows "port svc d = Inl PermissionDeniedError \<longleftrightarrow> port svc' d = Inl PermissionDeniedError"
proof -
  have "\<exists>ok. port_ok ok port"
    using assms(1) session_ports project_ports catalog_ports by (fastforce simp: list_all_iff)
  then show ?thesis using assms(2,3) unfolding port_ok_def same_policy_def by blast
qed

section \<open>The project list\<close>

text \<open>\<open>LocalAgentRuntimeService.list_projects\<close>; \<open>rows\<close> is what its provider scans, if there is one.\<close>

definition local_list_projects :: "catalog_row list option \<Rightarrow> dto \<Rightarrow> access_error + project_list_page" where
  "local_list_projects rows query =
     (if dto_type query \<noteq> ''ListProjectsQuery''
      then Inl (InvalidRequestError ''list projects query must be a ListProjectsQuery'')
      else case rows of
        None \<Rightarrow> Inl (InvalidRequestError ''project list is unavailable'')
      | Some rs \<Rightarrow> Inr (list_page (dto_visible query) (nat (dto_offset query)) (nat (dto_limit query)) rs))"

lemma list_projects_request:
  assumes "list_projects svc query = Inr x"
  obtains visible where "visible_project_ids (sv_authorizer svc) (sv_principal svc) PROJECT_LIST = Inr visible"
    "visible \<noteq> Some []" "set (dto_visible (dl_request x)) = set (effective_ids visible (dto_visible query))"
proof -
  obtain visible where v: "visible_project_ids (sv_authorizer svc) (sv_principal svc) PROJECT_LIST = Inr visible"
    using assms by (cases "visible_project_ids (sv_authorizer svc) (sv_principal svc) PROJECT_LIST")
      (simp_all add: list_projects_def split: if_splits)
  have n: "visible \<noteq> Some []" using assms v by (auto simp: list_projects_def split: if_splits)
  let ?e = "effective_ids visible (dto_visible query)"
  let ?q = "if set ?e = set (dto_visible query) then Inr query
    else make_list_projects_query (dto_limit query) (dto_offset query) ?e"
  obtain q where q: "?q = Inr q" "optional_call svc ''list_projects'' ''project list is unavailable'' q = Inr x"
    using assms v n by (cases ?q) (simp_all add: list_projects_def Let_def split: if_splits)
  have "dl_request x = q" using q(2) by (auto simp: optional_call_def split: if_splits)
  moreover have "set (dto_visible q) = set ?e"
  proof (cases "set ?e = set (dto_visible query)")
    case True
    then show ?thesis using q(1) by simp
  next
    case False
    then have "make_list_projects_query (dto_limit query) (dto_offset query) ?e = Inr q" using q(1) by simp
    then show ?thesis by (auto simp: make_list_projects_query_def split: if_splits)
  qed
  ultimately show thesis using that [OF v n] by simp
qed

lemma page_items:
  "item \<in> set (pp_projects (list_page allowed offset limit rows)) \<Longrightarrow> allowed \<noteq> [] \<Longrightarrow>
     pi_project_id item \<in> set allowed"
  unfolding list_page_def Let_def visible_items_def allowed_item_def
  by (auto dest!: in_set_takeD in_set_dropD)

text \<open>
  A client of the wire sees its projects. The decoder leaves the visible set of a query empty; then
  every project of the page that the wrapper and the service answer with, whatever the catalog holds, is
  one the policy allows the principal to list.
\<close>

theorem listed_projects_are_visible:
  assumes "list_projects svc query = Inr x" "dto_visible query = []"
    "local_list_projects (Some rows) (dl_request x) = Inr page" "item \<in> set (pp_projects page)"
  shows "may (sv_authorizer svc) (subject_of (sv_principal svc)) PROJECT_LIST (pi_project_id item) None"
proof -
  obtain visible where v: "visible_project_ids (sv_authorizer svc) (sv_principal svc) PROJECT_LIST = Inr visible"
    "visible \<noteq> Some []" "set (dto_visible (dl_request x)) = set (effective_ids visible [])"
    using list_projects_request [OF assms(1)] assms(2) by metis
  have page: "page = list_page (dto_visible (dl_request x)) (nat (dto_offset (dl_request x)))
      (nat (dto_limit (dl_request x))) rows"
    using assms(3) by (simp add: local_list_projects_def split: if_splits)
  show ?thesis
  proof (cases visible)
    case None
    then show ?thesis using visible_exact [OF v(1)] by blast
  next
    case (Some ids)
    then have "set (dto_visible (dl_request x)) = set ids" using v(3) by (simp add: effective_ids_def)
    moreover have "ids \<noteq> []" using Some v(2) by simp
    ultimately have "pi_project_id item \<in> set ids"
      using page_items assms(4) unfolding page by (metis set_empty)
    then show ?thesis using visible_exact [OF v(1)] Some by blast
  qed
qed

text \<open>
  A query made inside the process may ask for some of the projects. When it asks only for projects
  the principal may not see, the intersection is empty, and the empty set means no restriction to the
  catalog: the page shows every project.
\<close>

theorem disjoint_request_lists_everything:
  assumes "visible_project_ids (sv_authorizer svc) (sv_principal svc) PROJECT_LIST = Inr (Some ids)"
    "ids \<noteq> []" "dto_visible query \<noteq> []" "set ids \<inter> set (dto_visible query) = {}"
    "dto_type query = ''ListProjectsQuery''" "1 \<le> dto_limit query" "dto_limit query \<le> 100"
    "0 \<le> dto_offset query" "dto_offset query \<le> 100000" "''list_projects'' \<in> set (sv_methods svc)"
  shows "\<exists>x. list_projects svc query = Inr x \<and> dto_visible (dl_request x) = [] \<and>
    local_list_projects (Some rows) (dl_request x) =
      Inr (list_page [] (nat (dto_offset query)) (nat (dto_limit query)) rows)"
proof -
  have e: "effective_ids (Some ids) (dto_visible query) = []"
    using assms(3,4) by (auto simp: effective_ids_def filter_empty_conv)
  have m: "make_list_projects_query (dto_limit query) (dto_offset query) [] =
      Inr \<lparr>dto_type = ''ListProjectsQuery'', dto_session = NotASessionRef, dto_ref = NoTargetRef,
        dto_source = NotASessionRef, dto_project_id = PNone, dto_limit = dto_limit query,
        dto_offset = dto_offset query, dto_visible = [], dto_payload = PNone\<rparr>"
    using assms(6-9) by (simp add: make_list_projects_query_def valid_project_ids_def)
  show ?thesis
    using assms(1,2,3,5,10) e m
    by (simp add: list_projects_def Let_def optional_call_def local_list_projects_def)
qed

section \<open>A sample service\<close>

text \<open>Alice may submit turns to one thread of the project \<open>p\<close>, and list projects on all of it.\<close>

definition sample_policy :: authorizer where
  "sample_policy = Acl
     [\<lparr>ag_subject = ''alice'', ag_project_id = ''p'', ag_capabilities = [TURN_SUBMIT], ag_thread_ids = Some [''t'']\<rparr>,
      \<lparr>ag_subject = ''alice'', ag_project_id = ''p'', ag_capabilities = [PROJECT_LIST], ag_thread_ids = None\<rparr>]"

definition sample_service :: access_service where
  "sample_service = \<lparr>sv_methods = ''list_projects'' # REQUIRED_DELEGATE_METHODS,
     sv_principal = \<lparr>pr_subject = PStr ''alice''\<rparr>, sv_authorizer = sample_policy\<rparr>"

definition sample_submit_dto :: dto where
  "sample_submit_dto =
     \<lparr>dto_type = ''SubmitTurnCommand'', dto_session = SessionRefValue (PStr ''p'') (PStr ''t''),
      dto_ref = NoTargetRef, dto_source = NotASessionRef, dto_project_id = PNone, dto_limit = 0,
      dto_offset = 0, dto_visible = [], dto_payload = PStr ''hello''\<rparr>"

definition sample_list_dto :: "string list \<Rightarrow> dto" where
  "sample_list_dto visible = sample_submit_dto\<lparr>dto_type := ''ListProjectsQuery'', dto_limit := 10, dto_visible := visible\<rparr>"

definition sample_rows :: "catalog_row list" where
  "sample_rows =
     [\<lparr>cr_project_id = PStr ''o'', cr_workspace_path = PStr ''/o'', cr_name = PNone, cr_git_branch = PNone\<rparr>,
      \<lparr>cr_project_id = PStr ''p'', cr_workspace_path = PStr ''/p'', cr_name = PNone, cr_git_branch = PNone\<rparr>]"


theorem denial_before_delegate_witness:
  "cancel_turn_port sample_service (sample_submit_dto\<lparr>dto_type := ''CancelTurnCommand''\<rparr>) = Inl PermissionDeniedError \<and>
   cancel_turn_port (sample_service\<lparr>sv_methods := []\<rparr>) (sample_submit_dto\<lparr>dto_type := ''CancelTurnCommand''\<rparr>) =
     Inl PermissionDeniedError"
proof -
  have "(TURN_CANCEL, cancel_turn_port) \<in> set (session_operations @ project_operations @ catalog_operations)"
    by (simp add: session_operations_def)
  moreover have "cancel_turn_port sample_service (sample_submit_dto\<lparr>dto_type := ''CancelTurnCommand''\<rparr>) =
      Inl PermissionDeniedError"
    by code_simp
  ultimately show ?thesis
    using denial_before_delegate [of TURN_CANCEL cancel_turn_port "sample_service\<lparr>sv_methods := []\<rparr>" sample_service
        "sample_submit_dto\<lparr>dto_type := ''CancelTurnCommand''\<rparr>"] by simp
qed

theorem scope_only_narrows_witness:
  "authorize (ProjectScope Daemon ''p'') \<lparr>pr_subject = PStr ''runtime-daemon''\<rparr> TURN_SUBMIT
     (SessionRefValue (PStr ''o'') (PStr ''t'')) \<noteq> None \<and>
   authorize Daemon \<lparr>pr_subject = PStr ''runtime-daemon''\<rparr> TURN_SUBMIT
     (SessionRefValue (PStr ''o'') (PStr ''t'')) = None"
proof -
  have m: "make_project_scope Daemon (PStr ''p'') = Inr (ProjectScope Daemon ''p'')" by code_simp
  have "PStr (ref_project (SessionRefValue (PStr ''o'') (PStr ''t''))) \<noteq> PStr ''p''" by code_simp
  moreover have "authorize Daemon \<lparr>pr_subject = PStr ''runtime-daemon''\<rparr> TURN_SUBMIT
     (SessionRefValue (PStr ''o'') (PStr ''t'')) = None" by code_simp
  ultimately show ?thesis using scope_only_narrows [OF m] by metis
qed

theorem listed_projects_are_visible_witness:
  "\<exists>page item. (\<exists>x. list_projects sample_service (sample_list_dto []) = Inr x \<and>
     local_list_projects (Some sample_rows) (dl_request x) = Inr page) \<and> pp_projects page = [item] \<and>
   may sample_policy ''alice'' PROJECT_LIST (pi_project_id item) None"
proof -
  let ?q = "sample_list_dto [''p'']\<lparr>dto_session := NotASessionRef, dto_payload := PNone\<rparr>"
  let ?item = "\<lparr>pi_project_id = ''p'', pi_workspace_name = None, pi_git_branch = None, pi_workspace_path = ''/p''\<rparr>"
  let ?page = "\<lparr>pp_projects = [?item], pp_next_offset = None, pp_total = 1\<rparr>"
  have l: "list_projects sample_service (sample_list_dto []) = Inr \<lparr>dl_method = ''list_projects'', dl_request = ?q\<rparr>"
    by code_simp
  have pg: "local_list_projects (Some sample_rows) ?q = Inr ?page" by code_simp
  have e: "dto_visible (sample_list_dto []) = []" "sv_authorizer sample_service = sample_policy"
    "subject_of (sv_principal sample_service) = ''alice''"
    by code_simp+
  have "may sample_policy ''alice'' PROJECT_LIST (pi_project_id ?item) None"
    using listed_projects_are_visible [OF l e(1), of sample_rows ?page ?item] pg e(2,3) by simp
  with l pg show ?thesis by (intro exI [of _ ?page] exI [of _ ?item]) auto
qed

theorem disjoint_request_lists_everything_witness:
  "\<exists>x page. list_projects sample_service (sample_list_dto [''o'']) = Inr x \<and>
     local_list_projects (Some sample_rows) (dl_request x) = Inr page \<and>
     map pi_project_id (pp_projects page) = [''o'', ''p''] \<and>
     \<not> may sample_policy ''alice'' PROJECT_LIST ''o'' None"
proof -
  have "visible_project_ids (sv_authorizer sample_service) (sv_principal sample_service) PROJECT_LIST = Inr (Some [''p''])"
    "[''p''] \<noteq> []" "dto_visible (sample_list_dto [''o'']) \<noteq> []"
    "set [''p''] \<inter> set (dto_visible (sample_list_dto [''o''])) = {}"
    "dto_type (sample_list_dto [''o'']) = ''ListProjectsQuery''"
    "1 \<le> dto_limit (sample_list_dto [''o''])" "dto_limit (sample_list_dto [''o'']) \<le> 100"
    "0 \<le> dto_offset (sample_list_dto [''o''])" "dto_offset (sample_list_dto [''o'']) \<le> 100000"
    "''list_projects'' \<in> set (sv_methods sample_service)"
    by code_simp+
  from disjoint_request_lists_everything [OF this, of sample_rows]
  obtain x where "list_projects sample_service (sample_list_dto [''o'']) = Inr x"
    "local_list_projects (Some sample_rows) (dl_request x) =
       Inr (list_page [] (nat (dto_offset (sample_list_dto [''o'']))) (nat (dto_limit (sample_list_dto [''o'']))) sample_rows)"
    by blast
  moreover have "map pi_project_id (pp_projects (list_page [] (nat (dto_offset (sample_list_dto [''o''])))
      (nat (dto_limit (sample_list_dto [''o'']))) sample_rows)) = [''o'', ''p'']"
    "\<not> may sample_policy ''alice'' PROJECT_LIST ''o'' None"
    by code_simp+
  ultimately show ?thesis by (intro exI conjI)
qed

end
