(* ===== verification/Attachment_Model.thy ===== *)
theory Attachment_Model
  imports Collab_Model "HOL-Library.Word"
begin

text \<open>
  The contract of image attachments (\<open>runtime/service/attachments.py\<close>): limits, errors, requests, their
  validation, and the text of a chunk. A byte is an \<open>8 word\<close>. A field of a request that the validation
  checks the type of is a \<open>pyval\<close>; the type names in the messages are left out. Text has code points
  below 256, with \<open>isprintable\<close> as on that range.
\<close>

type_synonym byte = "8 word"
type_synonym bytes = "byte list"

section \<open>Limits and errors\<close>

definition MAX_ATTACHMENT_BYTES :: nat where "MAX_ATTACHMENT_BYTES = 4000000"
definition MAX_ATTACHMENTS_PER_SUBMIT :: nat where "MAX_ATTACHMENTS_PER_SUBMIT = 8"
definition MAX_SESSION_ATTACHMENT_BYTES :: nat where "MAX_SESSION_ATTACHMENT_BYTES = 512000000"
definition MAX_PROJECT_ATTACHMENT_BYTES :: nat where "MAX_PROJECT_ATTACHMENT_BYTES = 512000000"
definition MAX_CHUNK_BYTES :: nat where "MAX_CHUNK_BYTES = 256 * 1024"
definition MAX_CHUNK_BASE64_CHARS :: nat where
  "MAX_CHUNK_BASE64_CHARS = 4 * ((MAX_CHUNK_BYTES + 2) div 3)"
definition MIN_READ_BYTES :: int where "MIN_READ_BYTES = 1"
definition MAX_READ_BYTES :: int where "MAX_READ_BYTES = int MAX_CHUNK_BYTES"
definition MAX_DISPLAY_NAME_CHARS :: nat where "MAX_DISPLAY_NAME_CHARS = 120"
definition MAX_DISPLAY_NAME_BYTES :: nat where "MAX_DISPLAY_NAME_BYTES = 240"
definition INCOMPLETE_TTL_SECONDS :: nat where "INCOMPLETE_TTL_SECONDS = 3600"
definition MAX_QUOTA_SCAN_ENTRIES :: nat where "MAX_QUOTA_SCAN_ENTRIES = 32768"
definition DEFAULT_SWEEP_ENTRIES :: nat where "DEFAULT_SWEEP_ENTRIES = 256"
definition ATTACHMENT_ID_CHARS :: nat where "ATTACHMENT_ID_CHARS = 32"
definition MAX_SESSION_FIELD_BYTES :: nat where "MAX_SESSION_FIELD_BYTES = 256"

definition IMAGE_MIME_ALLOWED :: "string list" where
  "IMAGE_MIME_ALLOWED =
     [''image/png'', ''image/jpeg'', ''image/jpg'', ''image/webp'', ''image/gif'', ''image/bmp'']"

definition VERIFICATION_MAGIC :: string where "VERIFICATION_MAGIC = ''magic''"
definition VERIFICATION_STRUCTURE :: string where "VERIFICATION_STRUCTURE = ''structure''"
definition VERIFICATION_DECODE :: string where "VERIFICATION_DECODE = ''decode''"
definition VERIFICATION_LEVELS :: "string list" where
  "VERIFICATION_LEVELS = [VERIFICATION_MAGIC, VERIFICATION_STRUCTURE, VERIFICATION_DECODE]"

datatype attachment_error =
    AttachmentInvalidRequest string
  | AttachmentNotFoundError
  | AttachmentConflictError string
  | AttachmentTooLargeError
  | AttachmentQuotaError string
  | AttachmentUnsafeError string
  | AttachmentForbiddenError string
  | AttachmentUnavailableError string

section \<open>Requests and results\<close>

record attachment_ref =
  ar_session :: session_ref
  ar_attachment_id :: pyval

record begin_attachment_command =
  ba_session :: session_ref
  ba_size :: pyval
  ba_mime :: pyval
  ba_display_name :: pyval

record begin_attachment_result =
  br_ref :: attachment_ref
  br_chunk_bytes :: nat
  br_chunk_base64_chars :: nat
  br_expires_at :: rat
  br_next_offset :: nat

record append_chunk_command =
  ac_ref :: attachment_ref
  ac_expected_offset :: pyval
  ac_data_base64 :: pyval

record append_chunk_result =
  ap_received_bytes :: nat
  ap_next_offset :: nat

record finish_attachment_command =
  fa_ref :: attachment_ref
  fa_expected_size :: pyval
  fa_expected_mime :: pyval

record finish_attachment_result =
  fr_size :: nat
  fr_mime :: string
  fr_revision :: string

record attachment_metadata =
  md_size :: nat
  md_mime :: string
  md_revision :: "string option"
  md_display_name :: string
  md_created_at :: string
  md_finalized :: bool

record read_attachment_query =
  ra_ref :: attachment_ref
  ra_offset :: pyval
  ra_limit :: pyval

record attachment_chunk =
  ck_offset :: nat
  ck_data_base64 :: string
  ck_byte_length :: nat
  ck_next_offset :: nat
  ck_eof :: bool
  ck_metadata :: attachment_metadata

section \<open>Validation\<close>

definition session_field_error :: "string \<Rightarrow> string \<Rightarrow> attachment_error option" where
  "session_field_error field value =
     (if value = [] then Some (AttachmentInvalidRequest (''attachment session '' @ field @ '' must be a non-empty string''))
      else if CHR 0x00 \<in> set value then Some (AttachmentInvalidRequest (''attachment session '' @ field @ '' contains NUL''))
      else if MAX_SESSION_FIELD_BYTES < utf8_size value
      then Some (AttachmentInvalidRequest (''attachment session '' @ field @ '' exceeds the length limit''))
      else None)"

definition validate_session_ref :: "session_ref \<Rightarrow> attachment_error option" where
  "validate_session_ref session =
     (case session_field_error ''project_id'' (project_id session) of
        Some e \<Rightarrow> Some e
      | None \<Rightarrow> session_field_error ''thread_id'' (thread_id session))"

definition is_hex_text :: "nat \<Rightarrow> string \<Rightarrow> bool" where
  "is_hex_text n value \<longleftrightarrow> length value = n \<and> (\<forall>c \<in> set value. c \<in> set ''0123456789abcdef'')"

definition validate_attachment_id :: "pyval \<Rightarrow> attachment_error + string" where
  "validate_attachment_id value =
     (case value of
        PStr s \<Rightarrow>
          if is_hex_text ATTACHMENT_ID_CHARS s then Inr s
          else Inl (AttachmentInvalidRequest ''attachment id is not a server-generated hex id'')
      | _ \<Rightarrow> Inl (AttachmentInvalidRequest ''attachment id must be a string''))"

definition validate_attachment_ref :: "attachment_ref \<Rightarrow> attachment_error + string" where
  "validate_attachment_ref ref =
     (case validate_session_ref (ar_session ref) of
        Some e \<Rightarrow> Inl e
      | None \<Rightarrow> validate_attachment_id (ar_attachment_id ref))"

definition normalize_mime :: "pyval \<Rightarrow> attachment_error + string" where
  "normalize_mime mime =
     (case mime of
        PStr s \<Rightarrow>
          (let value = py_lower (py_strip s);
               value = (if value = ''image/jpg'' then ''image/jpeg'' else value)
           in if py_lower (py_strip s) = [] then Inl (AttachmentInvalidRequest ''attachment MIME type is empty'')
              else if value \<notin> set IMAGE_MIME_ALLOWED
              then Inl (AttachmentInvalidRequest ''attachment MIME type is not an allowed image type'')
              else Inr value)
      | _ \<Rightarrow> Inl (AttachmentInvalidRequest ''attachment MIME type must be a string''))"

definition py_isprintable :: "char \<Rightarrow> bool" where
  "py_isprintable c =
     (let n = (of_char c :: nat) in 32 \<le> n \<and> n \<le> 126 \<or> 161 \<le> n \<and> n \<noteq> 173)"

text \<open>
  \<open>text.encode("utf-8")[:n].decode("utf-8", errors="ignore")\<close>: the characters whose encoding fits; a
  sequence that is cut is ignored.
\<close>

fun utf8_take :: "nat \<Rightarrow> string \<Rightarrow> string" where
  "utf8_take n [] = []"
| "utf8_take n (c # cs) =
     (if utf8_size [c] \<le> n then c # utf8_take (n - utf8_size [c]) cs else [])"

definition sanitize_display_name :: "pyval \<Rightarrow> attachment_error + string" where
  "sanitize_display_name name =
     (case name of
        PNone \<Rightarrow> Inr []
      | PStr s \<Rightarrow>
          (let txt = py_strip s
           in if txt = [] then Inr []
              else if CHR 0x00 \<in> set txt
              then Inl (AttachmentInvalidRequest ''attachment display name contains NUL'')
              else
                (let slashes = map (\<lambda>c. if c = CHR 0x5C then CHR ''/'' else c) txt;
                     base = rev (takeWhile (\<lambda>c. c \<noteq> CHR ''/'') (rev slashes));
                     shown = py_strip (filter py_isprintable base)
                 in Inr (utf8_take MAX_DISPLAY_NAME_BYTES (take MAX_DISPLAY_NAME_CHARS shown))))
      | _ \<Rightarrow> Inl (AttachmentInvalidRequest ''attachment display name must be a string''))"

definition validate_size :: "pyval \<Rightarrow> string \<Rightarrow> attachment_error + nat" where
  "validate_size value label =
     (case value of
        PInt i \<Rightarrow>
          if i \<le> 0 then Inl (AttachmentInvalidRequest (label @ '' must be greater than zero''))
          else if int MAX_ATTACHMENT_BYTES < i
          then Inl (AttachmentInvalidRequest (label @ '' must not exceed '' @ py_str_int (int MAX_ATTACHMENT_BYTES) @ '' bytes''))
          else Inr (nat i)
      | _ \<Rightarrow> Inl (AttachmentInvalidRequest (label @ '' must be an integer'')))"

definition validate_begin_command :: "begin_attachment_command \<Rightarrow> attachment_error + nat \<times> string \<times> string" where
  "validate_begin_command command =
     (case validate_session_ref (ba_session command) of
        Some e \<Rightarrow> Inl e
      | None \<Rightarrow>
          (case validate_size (ba_size command) ''attachment size'' of
             Inl e \<Rightarrow> Inl e
           | Inr bytes \<Rightarrow>
               (case normalize_mime (ba_mime command) of
                  Inl e \<Rightarrow> Inl e
                | Inr mime \<Rightarrow>
                    (case sanitize_display_name (ba_display_name command) of
                       Inl e \<Rightarrow> Inl e
                     | Inr name \<Rightarrow> Inr (bytes, mime, name)))))"

text \<open>Each of the others gives back the fields it has checked, so that a caller cannot use an unchecked one.\<close>

definition validate_append_command :: "append_chunk_command \<Rightarrow> attachment_error + string \<times> nat \<times> string" where
  "validate_append_command command =
     (case validate_attachment_ref (ac_ref command) of
        Inl e \<Rightarrow> Inl e
      | Inr i \<Rightarrow>
          (case ac_expected_offset command of
             PInt offset \<Rightarrow>
               if offset < 0
               then Inl (AttachmentInvalidRequest ''attachment expected offset must be an integer >= 0'')
               else if int MAX_ATTACHMENT_BYTES < offset
               then Inl (AttachmentInvalidRequest ''attachment expected offset exceeds the size limit'')
               else (case ac_data_base64 command of
                       PStr s \<Rightarrow> Inr (i, nat offset, s)
                     | _ \<Rightarrow> Inl (AttachmentInvalidRequest ''attachment chunk must be a base64 string''))
           | _ \<Rightarrow> Inl (AttachmentInvalidRequest ''attachment expected offset must be an integer >= 0'')))"

definition validate_finish_command :: "finish_attachment_command \<Rightarrow> attachment_error + string \<times> nat \<times> string" where
  "validate_finish_command command =
     (case validate_attachment_ref (fa_ref command) of
        Inl e \<Rightarrow> Inl e
      | Inr i \<Rightarrow>
          (case validate_size (fa_expected_size command) ''attachment expected size'' of
             Inl e \<Rightarrow> Inl e
           | Inr bytes \<Rightarrow>
               (case normalize_mime (fa_expected_mime command) of
                  Inl e \<Rightarrow> Inl e
                | Inr mime \<Rightarrow> Inr (i, bytes, mime))))"

definition validate_read_query :: "read_attachment_query \<Rightarrow> attachment_error + string \<times> nat \<times> nat" where
  "validate_read_query query =
     (case validate_attachment_ref (ra_ref query) of
        Inl e \<Rightarrow> Inl e
      | Inr i \<Rightarrow>
          (case ra_offset query of
             PInt offset \<Rightarrow>
               if offset < 0
               then Inl (AttachmentInvalidRequest ''attachment read offset must be an integer >= 0'')
               else (case ra_limit query of
                       PInt limit \<Rightarrow>
                         if \<not> (MIN_READ_BYTES \<le> limit \<and> limit \<le> MAX_READ_BYTES)
                         then Inl (AttachmentInvalidRequest (''attachment read limit must be between '' @
                                 py_str_int MIN_READ_BYTES @ '' and '' @ py_str_int MAX_READ_BYTES))
                         else Inr (i, nat offset, nat limit)
                     | _ \<Rightarrow> Inl (AttachmentInvalidRequest ''attachment read limit must be an integer''))
           | _ \<Rightarrow> Inl (AttachmentInvalidRequest ''attachment read offset must be an integer >= 0'')))"

section \<open>Base64\<close>

text \<open>
  \<open>base64.b64encode\<close>, and \<open>base64.b64decode(value, validate=True)\<close>, which takes groups of four
  characters of the alphabet, with padding only in the last.
\<close>

definition b64_alphabet :: string where
  "b64_alphabet = ''ABCDEFGHIJKLMNOPQRSTUVWXYZabcdefghijklmnopqrstuvwxyz0123456789+/''"

definition b64_char :: "nat \<Rightarrow> char" where
  "b64_char n = b64_alphabet ! n"

definition b64_value :: "char \<Rightarrow> nat option" where
  "b64_value c =
     (if c \<in> set b64_alphabet then Some (length (takeWhile (\<lambda>x. x \<noteq> c) b64_alphabet)) else None)"

text \<open>The four digits of three bytes, and the three bytes of four digits.\<close>

definition b64_digit0 :: "byte \<Rightarrow> nat" where "b64_digit0 a = unat a div 4"
definition b64_digit1 :: "byte \<Rightarrow> byte \<Rightarrow> nat" where "b64_digit1 a b = unat a mod 4 * 16 + unat b div 16"
definition b64_digit2 :: "byte \<Rightarrow> byte \<Rightarrow> nat" where "b64_digit2 b c = unat b mod 16 * 4 + unat c div 64"
definition b64_digit3 :: "byte \<Rightarrow> nat" where "b64_digit3 c = unat c mod 64"

definition b64_byte0 :: "nat \<Rightarrow> nat \<Rightarrow> byte" where "b64_byte0 p q = word_of_nat (p * 4 + q div 16)"
definition b64_byte1 :: "nat \<Rightarrow> nat \<Rightarrow> byte" where "b64_byte1 q r = word_of_nat (q mod 16 * 16 + r div 4)"
definition b64_byte2 :: "nat \<Rightarrow> nat \<Rightarrow> byte" where "b64_byte2 r t = word_of_nat (r mod 4 * 64 + t)"

fun b64_encode :: "bytes \<Rightarrow> string" where
  "b64_encode [] = []"
| "b64_encode [a] = [b64_char (b64_digit0 a), b64_char (b64_digit1 a 0), CHR ''='', CHR ''='']"
| "b64_encode [a, b] =
     [b64_char (b64_digit0 a), b64_char (b64_digit1 a b), b64_char (b64_digit2 b 0), CHR ''='']"
| "b64_encode (a # b # c # rest) =
     [b64_char (b64_digit0 a), b64_char (b64_digit1 a b), b64_char (b64_digit2 b c), b64_char (b64_digit3 c)]
       @ b64_encode rest"

fun b64_decode :: "string \<Rightarrow> bytes option" where
  "b64_decode [] = Some []"
| "b64_decode (w # x # y # z # rest) =
     (if y = CHR ''='' \<and> z = CHR ''='' then
        (case (b64_value w, b64_value x) of
           (Some p, Some q) \<Rightarrow> if rest = [] then Some [b64_byte0 p q] else None
         | _ \<Rightarrow> None)
      else if z = CHR ''='' then
        (case (b64_value w, b64_value x, b64_value y) of
           (Some p, Some q, Some r) \<Rightarrow> if rest = [] then Some [b64_byte0 p q, b64_byte1 q r] else None
         | _ \<Rightarrow> None)
      else
        (case (b64_value w, b64_value x, b64_value y, b64_value z) of
           (Some p, Some q, Some r, Some t) \<Rightarrow>
             map_option (\<lambda>bs. [b64_byte0 p q, b64_byte1 q r, b64_byte2 r t] @ bs) (b64_decode rest)
         | _ \<Rightarrow> None))"
| "b64_decode _ = None"

definition decode_chunk_base64 :: "string \<Rightarrow> attachment_error + bytes" where
  "decode_chunk_base64 value =
     (if value = [] then Inl (AttachmentInvalidRequest ''attachment chunk is empty'')
      else if MAX_CHUNK_BASE64_CHARS < length value
      then Inl (AttachmentInvalidRequest (''attachment chunk must not exceed '' @
             py_str_int (int MAX_CHUNK_BASE64_CHARS) @ '' base64 characters''))
      else (case b64_decode value of
              None \<Rightarrow> Inl (AttachmentInvalidRequest ''attachment chunk is not valid base64'')
            | Some data \<Rightarrow>
                if data = [] then Inl (AttachmentInvalidRequest ''attachment chunk is empty'')
                else if MAX_CHUNK_BYTES < length data
                then Inl (AttachmentInvalidRequest (''attachment chunk must not exceed '' @
                       py_str_int (int MAX_CHUNK_BYTES) @ '' bytes''))
                else Inr data))"

lemma length_takeWhile_nth:
  "distinct xs \<Longrightarrow> i < length xs \<Longrightarrow> length (takeWhile (\<lambda>x. x \<noteq> xs ! i) xs) = i"
proof (induction xs arbitrary: i)
  case (Cons x xs)
  then show ?case by (cases i) auto
qed simp

lemma alphabet_facts: "distinct b64_alphabet" "length b64_alphabet = 64" "CHR ''='' \<notin> set b64_alphabet"
  by (simp_all add: b64_alphabet_def)

lemma b64_chars: "n < 64 \<Longrightarrow> b64_value (b64_char n) = Some n" "n < 64 \<Longrightarrow> b64_char n \<noteq> CHR ''=''"
proof -
  assume "n < 64"
  then have n: "n < length b64_alphabet" by (simp only: alphabet_facts)
  show "b64_value (b64_char n) = Some n"
    unfolding b64_value_def b64_char_def length_takeWhile_nth [OF alphabet_facts(1) n] if_P [OF nth_mem [OF n]]
    by (rule refl)
  show "b64_char n \<noteq> CHR ''=''"
    using nth_mem [OF n] alphabet_facts(3) unfolding b64_char_def by metis
qed

lemma byte_bound: "unat (a :: byte) < 256"
  using unsigned_less [of a] by simp

lemma b64_digits:
  "b64_digit0 a < 64" "b64_digit1 a b < 64" "b64_digit2 a b < 64" "b64_digit3 a < 64"
  using byte_bound [of a] byte_bound [of b]
  by (simp_all add: b64_digit0_def b64_digit1_def b64_digit2_def b64_digit3_def)

lemma join_digits:
  "(y :: nat) < n \<Longrightarrow> (x * n + y) div n = x" "(y :: nat) < n \<Longrightarrow> (x * n + y) mod n = y"
  by simp_all

lemma digits_join:
  fixes a b c :: nat
  assumes "a < 256" "b < 256" "c < 256"
  shows "a div 4 * 4 + (a mod 4 * 16 + b div 16) div 16 = a"
    "(a mod 4 * 16 + b div 16) mod 16 * 16 + (b mod 16 * 4 + c div 64) div 4 = b"
    "(b mod 16 * 4 + c div 64) mod 4 * 64 + c mod 64 = c"
proof -
  have lt: "b div 16 < 16" "c div 64 < 4" using assms by (simp_all add: less_mult_imp_div_less)
  show "a div 4 * 4 + (a mod 4 * 16 + b div 16) div 16 = a"
    "(a mod 4 * 16 + b div 16) mod 16 * 16 + (b mod 16 * 4 + c div 64) div 4 = b"
    "(b mod 16 * 4 + c div 64) mod 4 * 64 + c mod 64 = c"
    unfolding join_digits [OF lt(1)] join_digits [OF lt(2)] by simp_all
qed

lemma b64_bytes:
  "b64_byte0 (b64_digit0 a) (b64_digit1 a b) = a"
  "b64_byte1 (b64_digit1 a b) (b64_digit2 b c) = b"
  "b64_byte2 (b64_digit2 b c) (b64_digit3 c) = c"
  unfolding b64_byte0_def b64_byte1_def b64_byte2_def b64_digit0_def b64_digit1_def b64_digit2_def b64_digit3_def
    digits_join [OF byte_bound byte_bound byte_bound]
  by simp_all

lemma b64_roundtrip: "b64_decode (b64_encode data) = Some data"
  by (induction data rule: b64_encode.induct) (simp_all add: b64_chars b64_digits b64_bytes)

lemma length_b64_encode: "length (b64_encode data) = 4 * ((length data + 2) div 3)"
proof (induction data rule: b64_encode.induct)
  case (4 a b c rest)
  have "(length rest + 5) div 3 = Suc ((length rest + 2) div 3)" by presburger
  with 4 show ?case by (simp add: ac_simps)
qed simp_all

text \<open>A chunk of at most \<open>MAX_CHUNK_BYTES\<close> bytes can always be sent.\<close>

lemma chunk_roundtrip:
  assumes "data \<noteq> []" "length data \<le> MAX_CHUNK_BYTES"
  shows "decode_chunk_base64 (b64_encode data) = Inr data"
proof -
  have "length (b64_encode data) \<le> MAX_CHUNK_BASE64_CHARS"
    using assms(2) by (simp add: length_b64_encode MAX_CHUNK_BASE64_CHARS_def div_le_mono)
  moreover have "b64_encode data \<noteq> []"
    using assms(1) length_b64_encode [of data] by (cases data) auto
  ultimately show ?thesis using assms by (simp add: decode_chunk_base64_def b64_roundtrip)
qed

section \<open>Facts on the validators\<close>

lemma normalize_mime_allowed: "normalize_mime v = Inr mime \<Longrightarrow> mime \<in> set IMAGE_MIME_ALLOWED"
  by (auto simp: normalize_mime_def Let_def split: pyval.splits if_splits)

lemma normalize_mime_again: "normalize_mime v = Inr mime \<Longrightarrow> normalize_mime (PStr mime) = Inr mime"
proof -
  have "\<forall>mime \<in> set IMAGE_MIME_ALLOWED. mime = ''image/jpg'' \<or> normalize_mime (PStr mime) = Inr mime"
    by (simp add: IMAGE_MIME_ALLOWED_def normalize_mime_def py_strip_def py_lower_def py_isspace_def py_lower_char_def)
  moreover assume "normalize_mime v = Inr mime"
  moreover from this have "mime \<noteq> ''image/jpg''"
    by (auto simp: normalize_mime_def Let_def split: pyval.splits if_splits)
  ultimately show ?thesis using normalize_mime_allowed by blast
qed

lemma validate_size_bounds: "validate_size v label = Inr n \<Longrightarrow> 0 < n \<and> n \<le> MAX_ATTACHMENT_BYTES"
  by (auto simp: validate_size_def split: pyval.splits if_splits)

lemma display_name_is_bounded:
  assumes "sanitize_display_name v = Inr name"
  shows "length name \<le> MAX_DISPLAY_NAME_CHARS \<and> CHR ''/'' \<notin> set name \<and> CHR 0x5C \<notin> set name \<and>
    (\<forall>c \<in> set name. py_isprintable c)"
proof -
  have take: "set (utf8_take n s) \<subseteq> set s \<and> length (utf8_take n s) \<le> length s" for n s
    by (induction s arbitrary: n) (auto intro: le_SucI)
  show ?thesis
  proof (cases "name = []")
    case False
    with assms obtain s where "v = PStr s"
      by (auto simp: sanitize_display_name_def split: pyval.splits)
    define slashes where "slashes = map (\<lambda>c. if c = CHR 0x5C then CHR ''/'' else c) (py_strip s)"
    define part where "part = rev (takeWhile (\<lambda>c. c \<noteq> CHR ''/'') (rev slashes))"
    from assms False \<open>v = PStr s\<close> have name: "name = utf8_take MAX_DISPLAY_NAME_BYTES
        (take MAX_DISPLAY_NAME_CHARS (py_strip (filter py_isprintable part)))"
      by (auto simp: sanitize_display_name_def Let_def part_def slashes_def split: if_splits)
    have "set part \<subseteq> set slashes - {CHR ''/''}"
      by (auto simp: part_def dest: set_takeWhileD)
    moreover have "CHR 0x5C \<notin> set slashes" by (auto simp: slashes_def)
    ultimately have "set name \<subseteq> {c. py_isprintable c} - {CHR ''/'', CHR 0x5C}"
      using take [of MAX_DISPLAY_NAME_BYTES "take MAX_DISPLAY_NAME_CHARS (py_strip (filter py_isprintable part))"]
        set_py_strip [of "filter py_isprintable part"]
      by (auto simp: name dest!: in_set_takeD)
    moreover have "length name \<le> MAX_DISPLAY_NAME_CHARS"
      using take [of MAX_DISPLAY_NAME_BYTES "take MAX_DISPLAY_NAME_CHARS (py_strip (filter py_isprintable part))"]
      by (simp add: name)
    ultimately show ?thesis by auto
  qed simp
qed

end
