(* ===== verification/Image_Check.thy ===== *)
theory Image_Check
  imports Attachment_Model "HOL-Library.Signed_Division"
begin

unbundle bit_operations_syntax

text \<open>
  The bounded check of an uploaded image (\<open>runtime/service/attachment_image.py\<close>): the signature, the
  dimensions that the header of each container holds, their caps, and the optional decoder. The decoder
  is a third-party library, so its answer is an argument: it is absent, it refuses the bytes, or it
  accepts them and reports a size. A slice of bytes that reaches past the end is shorter, as in the code;
  every header is read only after a check of the length, except the JPEG scan, which is bounded by its
  window.
\<close>

section \<open>Reading bytes\<close>

definition slice :: "nat \<Rightarrow> nat \<Rightarrow> bytes \<Rightarrow> bytes" where
  "slice i j data = take (j - i) (drop i data)"

definition text_bytes :: "string \<Rightarrow> bytes" where
  "text_bytes s = map (\<lambda>c. word_of_nat (of_char c)) s"

definition from_big :: "bytes \<Rightarrow> nat" where
  "from_big bs = fold (\<lambda>b acc. acc * 256 + unat b) bs 0"

definition from_little :: "bytes \<Rightarrow> nat" where
  "from_little bs = from_big (rev bs)"

text \<open>\<open>int.from_bytes(bs, "little", signed=True)\<close> of four bytes.\<close>

definition from_little_signed :: "bytes \<Rightarrow> int" where
  "from_little_signed bs = sint (word_of_nat (from_little bs) :: 32 word)"

definition MAX_HEADER_SCAN_BYTES :: nat where "MAX_HEADER_SCAN_BYTES = 64 * 1024"
definition MAX_IMAGE_DIMENSION :: nat where "MAX_IMAGE_DIMENSION = 16384"
definition MAX_IMAGE_PIXELS :: nat where "MAX_IMAGE_PIXELS = 40000000"

definition PNG_SIGNATURE :: bytes where
  "PNG_SIGNATURE = [0x89] @ text_bytes ''PNG'' @ [0x0D, 0x0A, 0x1A, 0x0A]"

definition is_gif :: "bytes \<Rightarrow> bool" where
  "is_gif data \<longleftrightarrow> slice 0 6 data \<in> {text_bytes ''GIF87a'', text_bytes ''GIF89a''}"

definition is_webp :: "bytes \<Rightarrow> bool" where
  "is_webp data \<longleftrightarrow> slice 0 4 data = text_bytes ''RIFF'' \<and> slice 8 12 data = text_bytes ''WEBP''"

definition sniff_image_mime :: "bytes \<Rightarrow> string option" where
  "sniff_image_mime data =
     (if 8 \<le> length data \<and> slice 0 8 data = PNG_SIGNATURE then Some ''image/png''
      else if slice 0 3 data = [0xFF, 0xD8, 0xFF] then Some ''image/jpeg''
      else if is_gif data then Some ''image/gif''
      else if 12 \<le> length data \<and> is_webp data then Some ''image/webp''
      else if slice 0 2 data = text_bytes ''BM'' then Some ''image/bmp''
      else None)"

section \<open>Dimensions\<close>

definition png_dimensions :: "bytes \<Rightarrow> (nat \<times> nat) option" where
  "png_dimensions data =
     (if length data < 24 \<or> slice 0 8 data \<noteq> PNG_SIGNATURE then None
      else if from_big (slice 8 12 data) \<noteq> 13 \<or> slice 12 16 data \<noteq> text_bytes ''IHDR'' then None
      else Some (from_big (slice 16 20 data), from_big (slice 20 24 data)))"

definition gif_dimensions :: "bytes \<Rightarrow> (nat \<times> nat) option" where
  "gif_dimensions data =
     (if length data < 10 \<or> \<not> is_gif data then None
      else Some (from_little (slice 6 8 data), from_little (slice 8 10 data)))"

definition bmp_dimensions :: "bytes \<Rightarrow> (nat \<times> nat) option" where
  "bmp_dimensions data =
     (if length data < 26 \<or> slice 0 2 data \<noteq> text_bytes ''BM'' then None
      else
        let dib_size = from_little (slice 14 18 data)
        in if dib_size = 12 then Some (from_little (slice 18 20 data), from_little (slice 20 22 data))
           else if dib_size < 40 then None
           else Some (nat \<bar>from_little_signed (slice 18 22 data)\<bar>, nat \<bar>from_little_signed (slice 22 26 data)\<bar>))"

definition webp_dimensions :: "bytes \<Rightarrow> (nat \<times> nat) option" where
  "webp_dimensions data =
     (if length data < 16 \<or> \<not> is_webp data then None
      else
        let fourcc = slice 12 16 data
        in if fourcc = text_bytes ''VP8X'' then
             (if length data < 30 then None
              else Some (from_little (slice 24 27 data) + 1, from_little (slice 27 30 data) + 1))
           else if fourcc = text_bytes ''VP8 '' then
             (if length data < 30 \<or> slice 23 26 data \<noteq> [0x9D, 0x01, 0x2A] then None
              else Some (from_little (slice 26 28 data) AND 0x3FFF, from_little (slice 28 30 data) AND 0x3FFF))
           else if fourcc = text_bytes ''VP8L'' then
             (if length data < 25 \<or> data ! 20 \<noteq> 0x2F then None
              else let bits = from_little (slice 21 25 data)
                   in Some ((bits AND 0x3FFF) + 1, (drop_bit 14 bits AND 0x3FFF) + 1))
           else None)"

text \<open>The scan over the segments of a JPEG file, inside a window of \<open>limit\<close> bytes.\<close>

function jpeg_scan :: "bytes \<Rightarrow> nat \<Rightarrow> nat \<Rightarrow> (nat \<times> nat) option" where
  "jpeg_scan data limit index =
     (if \<not> index + 1 < limit then None
      else if data ! index \<noteq> 0xFF then None
      else
        let marker = unat (data ! (index + 1))
        in if marker = 0x01 \<or> 0xD0 \<le> marker \<and> marker \<le> 0xD8 then jpeg_scan data limit (index + 2)
           else if marker = 0xDA then None
           else if limit < index + 4 then None
           else
             let segment = from_big (slice (index + 2) (index + 4) data)
             in if segment < 2 then None
                else if 0xC0 \<le> marker \<and> marker \<le> 0xCF \<and> marker \<notin> {0xC4, 0xC8, 0xCC} then
                  (if limit < index + 9 then None
                   else Some (from_big (slice (index + 7) (index + 9) data),
                              from_big (slice (index + 5) (index + 7) data)))
                else jpeg_scan data limit (index + 2 + segment))"
  by pat_completeness auto
termination by (relation "measure (\<lambda>(_, limit, index). limit - index)") auto

declare jpeg_scan.simps [simp del]

definition jpeg_dimensions :: "bytes \<Rightarrow> (nat \<times> nat) option" where
  "jpeg_dimensions data =
     (if slice 0 3 data \<noteq> [0xFF, 0xD8, 0xFF] then None
      else jpeg_scan data (min (length data) MAX_HEADER_SCAN_BYTES) 2)"

definition structure_dimensions :: "bytes \<Rightarrow> string \<Rightarrow> (nat \<times> nat) option" where
  "structure_dimensions data mime =
     (if mime = ''image/png'' then png_dimensions data
      else if mime = ''image/jpeg'' then jpeg_dimensions data
      else if mime = ''image/gif'' then gif_dimensions data
      else if mime = ''image/webp'' then webp_dimensions data
      else if mime = ''image/bmp'' then bmp_dimensions data
      else None)"

definition check_dimensions :: "int \<Rightarrow> int \<Rightarrow> attachment_error option" where
  "check_dimensions width height =
     (if width \<le> 0 \<or> height \<le> 0
      then Some (AttachmentUnsafeError ''attachment image dimensions are not usable'')
      else if int MAX_IMAGE_DIMENSION < width \<or> int MAX_IMAGE_DIMENSION < height
      then Some (AttachmentUnsafeError ''attachment image dimensions exceed the limit'')
      else if int MAX_IMAGE_PIXELS < width * height
      then Some (AttachmentUnsafeError ''attachment image pixel count exceeds the limit'')
      else None)"

section \<open>The check\<close>

datatype decoder_answer = DecoderAbsent | DecoderRefuses | DecoderAccepts int int

definition pillow_verify :: "decoder_answer \<Rightarrow> attachment_error + bool" where
  "pillow_verify answer =
     (case answer of
        DecoderAbsent \<Rightarrow> Inr False
      | DecoderRefuses \<Rightarrow> Inl (AttachmentUnsafeError ''attachment image data failed the integrity check'')
      | DecoderAccepts width height \<Rightarrow>
          (case check_dimensions width height of Some e \<Rightarrow> Inl e | None \<Rightarrow> Inr True))"

record image_verification =
  iv_mime :: string
  iv_level :: string

definition validate_image_payload ::
  "(bytes \<Rightarrow> decoder_answer) \<Rightarrow> bytes \<Rightarrow> string \<Rightarrow> attachment_error + image_verification" where
  "validate_image_payload decoder data expected_mime =
     (case normalize_mime (PStr expected_mime) of
        Inl e \<Rightarrow> Inl e
      | Inr normalized \<Rightarrow>
          if data = [] then Inl (AttachmentUnsafeError ''attachment image data is empty'')
          else (case sniff_image_mime data of
                  None \<Rightarrow> Inl (AttachmentUnsafeError ''attachment image data is not a recognized image type'')
                | Some detected \<Rightarrow>
                    if detected \<noteq> normalized
                    then Inl (AttachmentUnsafeError ''attachment image data does not match the declared type'')
                    else
                      let dims = structure_dimensions data detected
                      in (case (case dims of None \<Rightarrow> None | Some (w, h) \<Rightarrow> check_dimensions (int w) (int h)) of
                            Some e \<Rightarrow> Inl e
                          | None \<Rightarrow>
                              (case pillow_verify (decoder data) of
                                 Inl e \<Rightarrow> Inl e
                               | Inr True \<Rightarrow> Inr \<lparr>iv_mime = normalized, iv_level = VERIFICATION_DECODE\<rparr>
                               | Inr False \<Rightarrow>
                                   (case dims of
                                      None \<Rightarrow> Inl (AttachmentUnavailableError
                                        ''attachment image structure cannot be verified without the optional decoder'')
                                    | Some _ \<Rightarrow> Inr \<lparr>iv_mime = normalized, iv_level = VERIFICATION_STRUCTURE\<rparr>)))))"

section \<open>What an accepted image is\<close>

definition in_caps :: "int \<Rightarrow> int \<Rightarrow> bool" where
  "in_caps w h \<longleftrightarrow> 0 < w \<and> w \<le> int MAX_IMAGE_DIMENSION \<and> 0 < h \<and> h \<le> int MAX_IMAGE_DIMENSION \<and>
     w * h \<le> int MAX_IMAGE_PIXELS"

lemma check_dimensions_iff: "check_dimensions w h = None \<longleftrightarrow> in_caps w h"
  by (auto simp: check_dimensions_def in_caps_def)

lemma validate_image_iff:
  "validate_image_payload decoder data expected = Inr v \<longleftrightarrow>
     (normalize_mime (PStr expected) = Inr (iv_mime v) \<and> data \<noteq> [] \<and> sniff_image_mime data = Some (iv_mime v) \<and>
      (\<forall>w h. structure_dimensions data (iv_mime v) = Some (w, h) \<longrightarrow> in_caps (int w) (int h)) \<and>
      ((\<exists>w h. decoder data = DecoderAccepts w h \<and> in_caps w h) \<and> iv_level v = VERIFICATION_DECODE \<or>
       decoder data = DecoderAbsent \<and> structure_dimensions data (iv_mime v) \<noteq> None \<and>
       iv_level v = VERIFICATION_STRUCTURE))"
  by (cases v)
    (auto simp: validate_image_payload_def pillow_verify_def Let_def check_dimensions_iff [symmetric]
      split: sum.splits option.splits prod.splits decoder_answer.splits bool.splits if_splits)

end
