(* ===== verification/Attachment_Store.thy ===== *)
theory Attachment_Store
  imports Image_Check "HOL-Library.List_Lexorder" "HOL-Library.Char_ord"
begin

text \<open>
  The store of image attachments (\<open>runtime/service/attachment_store.py\<close>) of one workspace. A directory
  of an attachment has its metadata, the bytes received so far and, after the rename of a finish, the
  payload. Metadata is the JSON value that its file holds, so it is read through the validation; a file
  has the time of its last change. \<open>as_dirs\<close> is the tree below the root, keyed by the digests of project
  and session and by the attachment id; a missing session directory and a missing attachment get the
  same answer, so a session is there when one of its attachments is. \<open>as_issued\<close> only records the ids
  that were given out.

  Every operation returns its result and the list of what the directory tree is after each of its
  writes, so that a process that dies in the middle of an operation, or whose disk fails, leaves one of
  these states. The removal of a tree may have deleted any of its files when it stops. The locks make
  the operations on one session exclude each other; a lock that cannot be had in time is an error
  without effect and left out, except in the sweep of a project, which skips the sessions in use. Paths
  that are symbolic links or no directories, which the operations never make, are left out, and so are
  the temporary files of an interrupted atomic write, which nothing reads.

  \<open>att_env\<close> is what the code takes from libraries: the digest, the image decoder and the parser of time
  stamps. The clock, the text of the time and the random ids of a call are its arguments.
\<close>

section \<open>Metadata\<close>

record att_meta =
  am_attachment_id :: string
  am_project_id :: string
  am_thread_id :: string
  am_size :: nat
  am_mime :: string
  am_display_name :: string
  am_created_at :: string
  am_updated_at :: string
  am_finalized :: bool
  am_revision :: "string option"
  am_verification :: "string option"

definition META_VERSION :: int where "META_VERSION = 1"

definition opt_str :: "string option \<Rightarrow> pyval" where
  "opt_str v = (case v of None \<Rightarrow> PNone | Some s \<Rightarrow> PStr s)"

definition meta_payload :: "att_meta \<Rightarrow> pyval" where
  "meta_payload m = PDict
     [(''v'', PInt META_VERSION), (''id'', PStr (am_attachment_id m)),
      (''project_id'', PStr (am_project_id m)), (''thread_id'', PStr (am_thread_id m)),
      (''size'', PInt (int (am_size m))), (''mime'', PStr (am_mime m)),
      (''display_name'', PStr (am_display_name m)), (''created_at'', PStr (am_created_at m)),
      (''updated_at'', PStr (am_updated_at m)), (''finalized'', PBool (am_finalized m)),
      (''revision'', opt_str (am_revision m)), (''verification'', opt_str (am_verification m))]"

definition bad_meta :: "attachment_error + 'a" where
  "bad_meta = Inl (AttachmentUnavailableError ''attachment metadata is unusable'')"

definition is_attachment_id :: "string \<Rightarrow> bool" where
  "is_attachment_id value = is_hex_text ATTACHMENT_ID_CHARS value"

definition is_revision :: "string \<Rightarrow> bool" where
  "is_revision value = is_hex_text 64 value"

definition valid_revision :: "bool \<Rightarrow> pyval \<Rightarrow> string option option" where
  "valid_revision finalized revision =
     (case revision of
        PNone \<Rightarrow> if finalized then None else Some None
      | PStr r \<Rightarrow> if is_revision r then Some (Some r) else None
      | _ \<Rightarrow> None)"

definition valid_verification :: "bool \<Rightarrow> pyval \<Rightarrow> string option option" where
  "valid_verification finalized raw =
     (case raw of
        PNone \<Rightarrow> Some (if finalized then Some VERIFICATION_MAGIC else None)
      | PStr l \<Rightarrow> if l \<in> set VERIFICATION_LEVELS then Some (Some l) else None
      | _ \<Rightarrow> None)"

definition validate_meta :: "pyval \<Rightarrow> attachment_error + att_meta" where
  "validate_meta value =
     (case value of
        PDict d \<Rightarrow>
          (if dict_get d ''v'' \<noteq> PInt META_VERSION then bad_meta
           else case (dict_get d ''id'', dict_get d ''project_id'', dict_get d ''thread_id'', dict_get d ''size'',
                      dict_get d ''mime'', dict_get d ''display_name'', dict_get d ''created_at'',
                      dict_get d ''updated_at'', dict_get d ''finalized'') of
             (PStr i, PStr p, PStr t, PInt n, PStr mime, PStr name, PStr created, PStr updated, PBool finalized) \<Rightarrow>
               (if \<not> is_attachment_id i \<or> p = [] \<or> t = [] \<or> \<not> (0 < n \<and> n \<le> int MAX_ATTACHMENT_BYTES) \<or>
                   mime \<notin> set IMAGE_MIME_ALLOWED \<or> created = [] \<or> updated = [] then bad_meta
                else case (valid_revision finalized (dict_get d ''revision''),
                           valid_verification finalized (dict_get d ''verification'')) of
                  (Some revision, Some verification) \<Rightarrow>
                    Inr \<lparr>am_attachment_id = i, am_project_id = p, am_thread_id = t, am_size = nat n, am_mime = mime,
                         am_display_name = name, am_created_at = created, am_updated_at = updated,
                         am_finalized = finalized, am_revision = revision, am_verification = verification\<rparr>
                | _ \<Rightarrow> bad_meta)
           | _ \<Rightarrow> bad_meta)
      | _ \<Rightarrow> bad_meta)"

section \<open>The tree\<close>

record att_dir =
  ad_meta :: "(pyval \<times> rat) option"
  ad_part :: "(bytes \<times> rat) option"
  ad_data :: "bytes option"

type_synonym session_key = "string \<times> string"

record att_store =
  as_dirs :: "((session_key \<times> string) \<times> att_dir) list"
  as_issued :: "string list"

record att_env =
  en_digest :: "bytes \<Rightarrow> string"
  en_decoder :: "bytes \<Rightarrow> decoder_answer"
  en_parse_iso :: "string \<Rightarrow> rat option"

definition empty_store :: att_store where
  "empty_store = \<lparr>as_dirs = [], as_issued = []\<rparr>"

definition empty_dir :: att_dir where
  "empty_dir = \<lparr>ad_meta = None, ad_part = None, ad_data = None\<rparr>"

definition KEY_CHARS :: nat where "KEY_CHARS = 32"

definition utf8_bytes :: "string \<Rightarrow> bytes" where
  "utf8_bytes s = concat (map (\<lambda>c. let n = (of_char c :: nat) in
     if n < 128 then [word_of_nat n] else [word_of_nat (192 + n div 64), word_of_nat (128 + n mod 64)]) s)"

definition project_key :: "att_env \<Rightarrow> string \<Rightarrow> string" where
  "project_key env project = take KEY_CHARS (en_digest env (utf8_bytes project))"

definition session_dir :: "att_env \<Rightarrow> session_ref \<Rightarrow> session_key" where
  "session_dir env session =
     (project_key env (project_id session), take KEY_CHARS (en_digest env (utf8_bytes (thread_id session))))"

definition dir_at :: "att_store \<Rightarrow> session_key \<times> string \<Rightarrow> att_dir option" where
  "dir_at s k = map_of (as_dirs s) k"

definition put_dir :: "session_key \<times> string \<Rightarrow> att_dir \<Rightarrow> att_store \<Rightarrow> att_store" where
  "put_dir k d s = s\<lparr>as_dirs := dict_set k d (as_dirs s)\<rparr>"

definition drop_dir :: "session_key \<times> string \<Rightarrow> att_store \<Rightarrow> att_store" where
  "drop_dir k s = s\<lparr>as_dirs := dict_pop k (as_dirs s)\<rparr>"

definition read_meta :: "att_dir \<Rightarrow> attachment_error + att_meta" where
  "read_meta d = (case ad_meta d of None \<Rightarrow> Inl AttachmentNotFoundError | Some (v, _) \<Rightarrow> validate_meta v)"

definition write_meta :: "rat \<Rightarrow> att_meta \<Rightarrow> att_dir \<Rightarrow> att_dir" where
  "write_meta now m d = d\<lparr>ad_meta := Some (meta_payload m, now)\<rparr>"

definition check_owner :: "att_meta \<Rightarrow> session_ref \<Rightarrow> attachment_error option" where
  "check_owner m session =
     (if am_project_id m \<noteq> project_id session \<or> am_thread_id m \<noteq> thread_id session
      then Some (AttachmentForbiddenError ''attachment belongs to another session'') else None)"

text \<open>Operations on one directory: a result and what the directory is after each write.\<close>

type_synonym 'a dir_op = "att_dir \<Rightarrow> (attachment_error + 'a) \<times> att_dir list"

definition has_regular_data_file :: "att_dir \<Rightarrow> bool" where
  "has_regular_data_file d \<longleftrightarrow> ad_data d \<noteq> None"

definition finalized_meta :: "att_env \<Rightarrow> string \<Rightarrow> bytes \<Rightarrow> image_verification \<Rightarrow> att_meta \<Rightarrow> att_meta" where
  "finalized_meta env stamp data v m =
     m\<lparr>am_mime := iv_mime v, am_finalized := True, am_revision := Some (en_digest env data),
       am_verification := Some (iv_level v), am_updated_at := stamp\<rparr>"

definition recover_finalized :: "att_env \<Rightarrow> rat \<Rightarrow> string \<Rightarrow> att_meta \<Rightarrow> att_meta dir_op" where
  "recover_finalized env now stamp m d =
     (case ad_data d of
        None \<Rightarrow> (Inr m, [])
      | Some stored \<Rightarrow>
          if am_finalized m then (Inr m, [])
          else
            let data = take (am_size m + 1) stored
            in if length data \<noteq> am_size m then (Inl (AttachmentConflictError ''attachment content changed''), [])
               else (case validate_image_payload (en_decoder env) data (am_mime m) of
                       Inl e \<Rightarrow> (Inl e, [])
                     | Inr v \<Rightarrow>
                         let recovered = finalized_meta env stamp data v m
                         in (Inr recovered, [write_meta now recovered d])))"

text \<open>The metadata of the attachment that a request names, in its directory.\<close>

definition open_upload :: "session_ref \<Rightarrow> string \<Rightarrow> att_dir \<Rightarrow> attachment_error + att_meta" where
  "open_upload session i d =
     (case read_meta d of
        Inl e \<Rightarrow> Inl e
      | Inr m \<Rightarrow>
          (case check_owner m session of
             Some e \<Rightarrow> Inl e
           | None \<Rightarrow> if am_attachment_id m \<noteq> i then bad_meta else Inr m))"

definition load_upload :: "att_env \<Rightarrow> rat \<Rightarrow> string \<Rightarrow> session_ref \<Rightarrow> string \<Rightarrow> att_meta dir_op" where
  "load_upload env now stamp session i d =
     (case open_upload session i d of
        Inl e \<Rightarrow> (Inl e, [])
      | Inr m \<Rightarrow> if am_finalized m then (Inr m, []) else recover_finalized env now stamp m d)"

text \<open>The bytes of a partial file, which is made by the first append.\<close>

definition part_bytes :: "att_dir \<Rightarrow> bytes" where
  "part_bytes d = (case ad_part d of None \<Rightarrow> [] | Some (b, _) \<Rightarrow> b)"

definition append_dir ::
  "att_env \<Rightarrow> rat \<Rightarrow> string \<Rightarrow> session_ref \<Rightarrow> string \<Rightarrow> nat \<Rightarrow> bytes \<Rightarrow> append_chunk_result dir_op" where
  "append_dir env now stamp session i offset chunk d =
     (case open_upload session i d of
        Inl e \<Rightarrow> (Inl e, [])
      | Inr m \<Rightarrow>
          (case recover_finalized env now stamp m d of
             (Inl e, ws) \<Rightarrow> (Inl e, ws)
           | (Inr m, ws) \<Rightarrow>
               if am_finalized m
               then (Inl (AttachmentConflictError ''attachment upload is already finalized''), ws)
               else
                 let opened = (if ad_part d = None then d\<lparr>ad_part := Some ([], now)\<rparr> else d);
                     ws = ws @ [opened];
                     current = part_bytes d
                 in if length current \<noteq> offset
                    then (Inl (AttachmentConflictError
                           ''attachment chunk offset does not match the received length''), ws)
                    else if am_size m < length current + length chunk then (Inl AttachmentTooLargeError, ws)
                    else (Inr \<lparr>ap_received_bytes = length current + length chunk,
                              ap_next_offset = length current + length chunk\<rparr>,
                          ws @ map (\<lambda>n. opened\<lparr>ad_part := Some (current @ take n chunk, now)\<rparr>)
                                 [0..<length chunk + 1])))"

definition finish_dir ::
  "att_env \<Rightarrow> rat \<Rightarrow> string \<Rightarrow> session_ref \<Rightarrow> string \<Rightarrow> nat \<Rightarrow> string \<Rightarrow> finish_attachment_result dir_op" where
  "finish_dir env now stamp session i expected_size expected_mime d =
     (case open_upload session i d of
        Inl e \<Rightarrow> (Inl e, [])
      | Inr m \<Rightarrow>
          (case recover_finalized env now stamp m d of
             (Inl e, ws) \<Rightarrow> (Inl e, ws)
           | (Inr m, ws) \<Rightarrow>
               if am_finalized m
               then (Inl (AttachmentConflictError ''attachment upload is already finalized''), ws)
               else if expected_size \<noteq> am_size m
               then (Inl (AttachmentConflictError ''attachment size does not match the declared size''), ws)
               else if expected_mime \<noteq> am_mime m
               then (Inl (AttachmentConflictError ''attachment MIME type does not match the declared type''), ws)
               else if ad_part d = None \<or> length (take (am_size m + 1) (part_bytes d)) \<noteq> am_size m
               then (Inl (AttachmentConflictError ''attachment upload is incomplete''), ws)
               else
                 let data = take (am_size m + 1) (part_bytes d)
                 in (case validate_image_payload (en_decoder env) data (am_mime m) of
                       Inl e \<Rightarrow> (Inl e, ws)
                     | Inr v \<Rightarrow>
                         let renamed = d\<lparr>ad_part := None, ad_data := Some (part_bytes d)\<rparr>
                         in (Inr \<lparr>fr_size = am_size m, fr_mime = iv_mime v, fr_revision = en_digest env data\<rparr>,
                             ws @ [renamed, write_meta now (finalized_meta env stamp data v m) renamed]))))"

definition metadata_of :: "att_meta \<Rightarrow> attachment_metadata" where
  "metadata_of m =
     \<lparr>md_size = am_size m, md_mime = am_mime m, md_revision = am_revision m, md_display_name = am_display_name m,
      md_created_at = am_created_at m, md_finalized = am_finalized m\<rparr>"

text \<open>The payload of a finalized attachment, whose length is checked on every read.\<close>

definition open_data :: "att_meta \<Rightarrow> att_dir \<Rightarrow> attachment_error + bytes" where
  "open_data m d =
     (case ad_data d of
        None \<Rightarrow> Inl AttachmentNotFoundError
      | Some data \<Rightarrow>
          if length data \<noteq> am_size m then Inl (AttachmentConflictError ''attachment content changed'') else Inr data)"

definition stat_dir ::
  "att_env \<Rightarrow> rat \<Rightarrow> string \<Rightarrow> session_ref \<Rightarrow> string \<Rightarrow> attachment_metadata dir_op" where
  "stat_dir env now stamp session i d =
     (case load_upload env now stamp session i d of
        (Inl e, ws) \<Rightarrow> (Inl e, ws)
      | (Inr m, ws) \<Rightarrow>
          (case (if am_finalized m then open_data m d else Inr []) of
             Inl e \<Rightarrow> (Inl e, ws)
           | Inr _ \<Rightarrow> (Inr (metadata_of m), ws)))"

definition read_dir ::
  "att_env \<Rightarrow> rat \<Rightarrow> string \<Rightarrow> session_ref \<Rightarrow> string \<Rightarrow> nat \<Rightarrow> nat \<Rightarrow> attachment_chunk dir_op" where
  "read_dir env now stamp session i offset limit d =
     (case load_upload env now stamp session i d of
        (Inl e, ws) \<Rightarrow> (Inl e, ws)
      | (Inr m, ws) \<Rightarrow>
          if \<not> am_finalized m then (Inl (AttachmentConflictError ''attachment is not finalized''), ws)
          else (case open_data m d of
                  Inl e \<Rightarrow> (Inl e, ws)
                | Inr stored \<Rightarrow>
                    if length stored < offset
                    then (Inl (AttachmentInvalidRequest
                           ''attachment offset is beyond the end of the attachment''), ws)
                    else
                      let data = take limit (take (limit + 1) (drop offset stored))
                      in (Inr \<lparr>ck_offset = offset, ck_data_base64 = b64_encode data, ck_byte_length = length data,
                              ck_next_offset = offset + length data, ck_eof = (am_size m \<le> offset + length data),
                              ck_metadata = metadata_of m\<rparr>, ws)))"

definition resolve_dir :: "att_env \<Rightarrow> rat \<Rightarrow> string \<Rightarrow> session_ref \<Rightarrow> string \<Rightarrow> (att_meta \<times> bytes) dir_op" where
  "resolve_dir env now stamp session i d =
     (case load_upload env now stamp session i d of
        (Inl e, ws) \<Rightarrow> (Inl e, ws)
      | (Inr m, ws) \<Rightarrow>
          if \<not> am_finalized m then (Inl (AttachmentConflictError ''attachment is not finalized''), ws)
          else (case open_data m d of
                  Inl e \<Rightarrow> (Inl e, ws)
                | Inr stored \<Rightarrow> (Inr (m, take (am_size m + 1) stored), ws)))"

text \<open>\<open>abort_attachment\<close>: whether the tree is to be removed.\<close>

definition abort_dir :: "att_env \<Rightarrow> rat \<Rightarrow> string \<Rightarrow> session_ref \<Rightarrow> bool dir_op" where
  "abort_dir env now stamp session d =
     (case read_meta d of
        Inl _ \<Rightarrow> (Inr (\<not> has_regular_data_file d), [])
      | Inr m \<Rightarrow>
          (case check_owner m session of
             Some e \<Rightarrow> (Inl e, [])
           | None \<Rightarrow>
               if am_finalized m then (Inr False, [])
               else (case recover_finalized env now stamp m d of
                       (Inl e, ws) \<Rightarrow> (Inl e, ws)
                     | (Inr m, ws) \<Rightarrow> (Inr (\<not> am_finalized m), ws))))"

section \<open>Operations on the store\<close>

text \<open>An operation on the store: its result and what the store is after each write.\<close>

type_synonym 'a att_op = "att_store \<Rightarrow> (attachment_error + 'a) \<times> att_store list"

definition last_state :: "att_store \<Rightarrow> att_store list \<Rightarrow> att_store" where
  "last_state s ws = last (s # ws)"

definition at_dir :: "session_key \<times> string \<Rightarrow> 'a dir_op \<Rightarrow> 'a att_op" where
  "at_dir k f s =
     (case dir_at s k of
        None \<Rightarrow> (Inl AttachmentNotFoundError, [])
      | Some d \<Rightarrow> (case f d of (r, ds) \<Rightarrow> (r, map (\<lambda>d'. put_dir k d' s) ds)))"

text \<open>The removal of a tree: it may stop with any of the files deleted.\<close>

definition partly_removed :: "att_dir \<Rightarrow> att_dir list" where
  "partly_removed d =
     [\<lparr>ad_meta = m, ad_part = p, ad_data = x\<rparr>. m \<leftarrow> [ad_meta d, None], p \<leftarrow> [ad_part d, None], x \<leftarrow> [ad_data d, None]]"

definition remove_tree :: "session_key \<times> string \<Rightarrow> att_dir \<Rightarrow> att_store \<Rightarrow> att_store list" where
  "remove_tree k d s = map (\<lambda>d'. put_dir k d' s) (partly_removed d) @ [drop_dir k s]"

definition session_dirs :: "session_key \<Rightarrow> att_store \<Rightarrow> (string \<times> att_dir) list" where
  "session_dirs k s =
     map (\<lambda>((_, i), d). (i, d)) (filter (\<lambda>((k', i), _). k' = k \<and> is_attachment_id i) (as_dirs s))"

definition project_dirs :: "string \<Rightarrow> att_store \<Rightarrow> (string \<times> att_dir) list" where
  "project_dirs p s =
     map (\<lambda>((_, i), d). (i, d)) (filter (\<lambda>((k', i), _). fst k' = p \<and> is_attachment_id i) (as_dirs s))"

text \<open>What a directory is charged in the quota: its declared size, or the worst case.\<close>

definition usage_charge :: "att_dir \<Rightarrow> nat" where
  "usage_charge d = (case read_meta d of Inl _ \<Rightarrow> MAX_ATTACHMENT_BYTES | Inr m \<Rightarrow> am_size m)"

fun scan_usage :: "nat \<Rightarrow> (string \<times> att_dir) list \<Rightarrow> nat \<Rightarrow> nat \<Rightarrow> attachment_error + nat \<times> nat" where
  "scan_usage max_entries [] count acc = Inr (count, acc)"
| "scan_usage max_entries ((i, d) # ds) count acc =
     (if max_entries < count + 1 then Inl (AttachmentQuotaError ''attachment quota scan exceeded its limit'')
      else scan_usage max_entries ds (count + 1) (acc + usage_charge d))"

text \<open>
  The project is scanned session by session, and what is left of the budget of entries goes to the next:
  that is one scan over all its directories.
\<close>

definition enforce_quota :: "session_key \<Rightarrow> nat \<Rightarrow> att_store \<Rightarrow> attachment_error option" where
  "enforce_quota k bytes s =
     (case scan_usage MAX_QUOTA_SCAN_ENTRIES (session_dirs k s) 0 0 of
        Inl e \<Rightarrow> Some e
      | Inr (_, session_bytes) \<Rightarrow>
          if MAX_SESSION_ATTACHMENT_BYTES < session_bytes + bytes
          then Some (AttachmentQuotaError (''a session may hold at most '' @
                 py_str_int (int MAX_SESSION_ATTACHMENT_BYTES) @ '' attachment bytes''))
          else (case scan_usage MAX_QUOTA_SCAN_ENTRIES (project_dirs (fst k) s) 0 0 of
                  Inl e \<Rightarrow> Some e
                | Inr (_, project_bytes) \<Rightarrow>
                    if MAX_PROJECT_ATTACHMENT_BYTES < project_bytes + bytes
                    then Some (AttachmentQuotaError (''a project may hold at most '' @
                           py_str_int (int MAX_PROJECT_ATTACHMENT_BYTES) @ '' attachment bytes'')) else None))"

definition last_activity :: "att_env \<Rightarrow> att_dir \<Rightarrow> att_meta \<Rightarrow> rat" where
  "last_activity env d m =
     (let newest = (case ad_meta d of None \<Rightarrow> 0 | Some (_, t) \<Rightarrow> max 0 t);
          newest = (case ad_part d of None \<Rightarrow> newest | Some (_, t) \<Rightarrow> max newest t)
      in if 0 < newest then newest
         else case en_parse_iso env (am_created_at m) of None \<Rightarrow> 0 | Some t \<Rightarrow> t)"

definition sweepable :: "att_env \<Rightarrow> rat \<Rightarrow> att_dir \<Rightarrow> bool" where
  "sweepable env deadline d \<longleftrightarrow>
     (case read_meta d of
        Inl _ \<Rightarrow> False
      | Inr m \<Rightarrow> \<not> am_finalized m \<and> \<not> has_regular_data_file d \<and> last_activity env d m \<le> deadline)"

text \<open>The sweep of a session over its directories: how many were removed and scanned, and the writes.\<close>

fun sweep_dirs ::
  "att_env \<Rightarrow> rat \<Rightarrow> nat \<Rightarrow> session_key \<Rightarrow> (string \<times> att_dir) list \<Rightarrow> nat \<Rightarrow> nat \<Rightarrow> att_store \<Rightarrow>
     (nat \<times> nat) \<times> att_store list" where
  "sweep_dirs env deadline max_entries k [] removed scanned s = ((removed, scanned), [])"
| "sweep_dirs env deadline max_entries k ((i, d) # ds) removed scanned s =
     (if max_entries \<le> scanned then ((removed, scanned), [])
      else if \<not> sweepable env deadline d then sweep_dirs env deadline max_entries k ds removed (scanned + 1) s
      else
        let ws = remove_tree (k, i) d s;
            (r, ws') = sweep_dirs env deadline max_entries k ds (removed + 1) (scanned + 1) (last_state s ws)
        in (r, ws @ ws'))"

definition sweep_session ::
  "att_env \<Rightarrow> rat \<Rightarrow> nat \<Rightarrow> nat \<Rightarrow> session_key \<Rightarrow> att_store \<Rightarrow> (nat \<times> nat) \<times> att_store list" where
  "sweep_session env deadline max_entries scanned k s =
     sweep_dirs env deadline max_entries k (session_dirs k s) 0 scanned s"

text \<open>The sweep over sessions; \<open>busy\<close> are those whose lock a peer holds.\<close>

fun sweep_sessions ::
  "att_env \<Rightarrow> rat \<Rightarrow> nat \<Rightarrow> session_key list \<Rightarrow> session_key list \<Rightarrow> nat \<Rightarrow> nat \<Rightarrow> att_store \<Rightarrow>
     nat \<times> att_store list" where
  "sweep_sessions env deadline max_entries busy [] removed scanned s = (removed, [])"
| "sweep_sessions env deadline max_entries busy (k # ks) removed scanned s =
     (if max_entries \<le> scanned then (removed, [])
      else if k \<in> set busy then sweep_sessions env deadline max_entries busy ks removed scanned s
      else
        let ((n, scanned'), ws) = sweep_session env deadline max_entries scanned k s;
            (r, ws') = sweep_sessions env deadline max_entries busy ks (removed + n) scanned' (last_state s ws)
        in (r, ws @ ws'))"

datatype sweep_scope = SweepSession session_ref | SweepProject string | SweepAll

definition scope_sessions :: "att_env \<Rightarrow> sweep_scope \<Rightarrow> att_store \<Rightarrow> session_key list" where
  "scope_sessions env scope s =
     (let ks = remdups (map (fst \<circ> fst) (as_dirs s))
      in case scope of
           SweepSession session \<Rightarrow> [session_dir env session]
         | SweepProject p \<Rightarrow> sort_key snd (filter (\<lambda>k. fst k = project_key env p) ks)
         | SweepAll \<Rightarrow> sort_key fst (sort_key snd ks))"

definition sweep_incomplete ::
  "att_env \<Rightarrow> rat \<Rightarrow> sweep_scope \<Rightarrow> session_key list \<Rightarrow> int \<Rightarrow> nat att_op" where
  "sweep_incomplete env now scope busy max_entries s =
     (if max_entries < 1
      then (Inl (AttachmentInvalidRequest ''attachment sweep limit must be a positive integer''), [])
      else case (case scope of
                   SweepSession session \<Rightarrow>
                     (case validate_session_ref session of
                        Some e \<Rightarrow> Some e
                      | None \<Rightarrow> if session_dir env session \<in> set busy
                                then Some (AttachmentConflictError ''attachment store is busy'') else None)
                 | _ \<Rightarrow> None) of
        Some e \<Rightarrow> (Inl e, [])
      | None \<Rightarrow>
          (case sweep_sessions env (now - of_nat INCOMPLETE_TTL_SECONDS) (nat max_entries) busy
                  (scope_sessions env scope s) 0 0 s of
             (r, ws) \<Rightarrow> (Inr r, ws)))"

definition new_attachment_id :: "session_key \<Rightarrow> string list \<Rightarrow> att_store \<Rightarrow> string option" where
  "new_attachment_id k candidates s = List.find (\<lambda>i. dir_at s (k, i) = None) (take 8 candidates)"

definition new_meta :: "string \<Rightarrow> session_ref \<Rightarrow> nat \<Rightarrow> string \<Rightarrow> string \<Rightarrow> string \<Rightarrow> att_meta" where
  "new_meta i session bytes mime name stamp =
     \<lparr>am_attachment_id = i, am_project_id = project_id session, am_thread_id = thread_id session,
      am_size = bytes, am_mime = mime, am_display_name = name, am_created_at = stamp, am_updated_at = stamp,
      am_finalized = False, am_revision = None, am_verification = None\<rparr>"

definition begin_attachment ::
  "att_env \<Rightarrow> rat \<Rightarrow> string \<Rightarrow> string list \<Rightarrow> begin_attachment_command \<Rightarrow> begin_attachment_result att_op" where
  "begin_attachment env now stamp candidates command s =
     (case validate_begin_command command of
        Inl e \<Rightarrow> (Inl e, [])
      | Inr (bytes, mime, name) \<Rightarrow>
          let k = session_dir env (ba_session command);
              (_, ws) = sweep_session env (now - of_nat INCOMPLETE_TTL_SECONDS) DEFAULT_SWEEP_ENTRIES 0 k s;
              s1 = last_state s ws
          in (case enforce_quota k bytes s1 of
                Some e \<Rightarrow> (Inl e, ws)
              | None \<Rightarrow>
                  (case new_attachment_id k candidates s1 of
                     None \<Rightarrow> (Inl (AttachmentUnavailableError ''attachment id could not be allocated''), ws)
                   | Some i \<Rightarrow>
                       let s2 = (put_dir (k, i) empty_dir s1)\<lparr>as_issued := i # as_issued s1\<rparr>;
                           d = write_meta now (new_meta i (ba_session command) bytes mime name stamp) empty_dir;
                           ref = \<lparr>ar_session = ba_session command, ar_attachment_id = PStr i\<rparr>
                       in (Inr \<lparr>br_ref = ref, br_chunk_bytes = MAX_CHUNK_BYTES,
                               br_chunk_base64_chars = MAX_CHUNK_BASE64_CHARS,
                               br_expires_at = now + of_nat INCOMPLETE_TTL_SECONDS, br_next_offset = 0\<rparr>,
                           ws @ [s2, put_dir (k, i) d s2]))))"

definition append_attachment_chunk ::
  "att_env \<Rightarrow> rat \<Rightarrow> string \<Rightarrow> append_chunk_command \<Rightarrow> append_chunk_result att_op" where
  "append_attachment_chunk env now stamp command s =
     (case validate_append_command command of
        Inl e \<Rightarrow> (Inl e, [])
      | Inr (i, offset, txt) \<Rightarrow>
          (case decode_chunk_base64 txt of
             Inl e \<Rightarrow> (Inl e, [])
           | Inr chunk \<Rightarrow>
               let session = ar_session (ac_ref command)
               in at_dir (session_dir env session, i) (append_dir env now stamp session i offset chunk) s))"

definition finish_attachment ::
  "att_env \<Rightarrow> rat \<Rightarrow> string \<Rightarrow> finish_attachment_command \<Rightarrow> finish_attachment_result att_op" where
  "finish_attachment env now stamp command s =
     (case validate_finish_command command of
        Inl e \<Rightarrow> (Inl e, [])
      | Inr (i, expected_size, expected_mime) \<Rightarrow>
          let session = ar_session (fa_ref command)
          in at_dir (session_dir env session, i) (finish_dir env now stamp session i expected_size expected_mime) s)"

definition abort_attachment :: "att_env \<Rightarrow> rat \<Rightarrow> string \<Rightarrow> attachment_ref \<Rightarrow> bool att_op" where
  "abort_attachment env now stamp ref s =
     (case validate_attachment_ref ref of
        Inl e \<Rightarrow> (Inl e, [])
      | Inr i \<Rightarrow>
          let k = (session_dir env (ar_session ref), i)
          in (case dir_at s k of
                None \<Rightarrow> (Inr False, [])
              | Some d \<Rightarrow>
                  (case abort_dir env now stamp (ar_session ref) d of
                     (Inr True, ws) \<Rightarrow> (Inr True, map (\<lambda>d'. put_dir k d' s) ws @ remove_tree k d s)
                   | (r, ws) \<Rightarrow> (r, map (\<lambda>d'. put_dir k d' s) ws))))"

definition stat_attachment :: "att_env \<Rightarrow> rat \<Rightarrow> string \<Rightarrow> attachment_ref \<Rightarrow> attachment_metadata att_op" where
  "stat_attachment env now stamp ref s =
     (case validate_attachment_ref ref of
        Inl e \<Rightarrow> (Inl e, [])
      | Inr i \<Rightarrow>
          at_dir (session_dir env (ar_session ref), i) (stat_dir env now stamp (ar_session ref) i) s)"

definition read_attachment :: "att_env \<Rightarrow> rat \<Rightarrow> string \<Rightarrow> read_attachment_query \<Rightarrow> attachment_chunk att_op" where
  "read_attachment env now stamp query s =
     (case validate_read_query query of
        Inl e \<Rightarrow> (Inl e, [])
      | Inr (i, offset, limit) \<Rightarrow>
          let session = ar_session (ra_ref query)
          in at_dir (session_dir env session, i) (read_dir env now stamp session i offset limit) s)"

record resolved_attachment =
  at_id :: nat
  at_name :: string
  at_mime :: string
  at_data :: bytes

fun resolve_refs ::
  "att_env \<Rightarrow> rat \<Rightarrow> string \<Rightarrow> nat \<Rightarrow> attachment_ref list \<Rightarrow> resolved_attachment list att_op" where
  "resolve_refs env now stamp n [] s = (Inr [], [])"
| "resolve_refs env now stamp n (ref # refs) s =
     (case validate_attachment_ref ref of
        Inl e \<Rightarrow> (Inl e, [])
      | Inr i \<Rightarrow>
          (case at_dir (session_dir env (ar_session ref), i) (resolve_dir env now stamp (ar_session ref) i) s of
             (Inl e, ws) \<Rightarrow> (Inl e, ws)
           | (Inr (m, data), ws) \<Rightarrow>
               let a = \<lparr>at_id = n,
                        at_name = (if am_display_name m = [] then ''attachment-'' @ dec_digits n else am_display_name m),
                        at_mime = am_mime m, at_data = data\<rparr>;
                   (r, ws') = resolve_refs env now stamp (n + 1) refs (last_state s ws)
               in (case r of Inl e \<Rightarrow> Inl e | Inr as \<Rightarrow> Inr (a # as), ws @ ws')))"

definition resolve_attachments ::
  "att_env \<Rightarrow> rat \<Rightarrow> string \<Rightarrow> attachment_ref list \<Rightarrow> resolved_attachment list att_op" where
  "resolve_attachments env now stamp refs s =
     (if MAX_ATTACHMENTS_PER_SUBMIT < length refs
      then (Inl (AttachmentQuotaError ''a turn may carry at most 8 attachments''), [])
      else resolve_refs env now stamp 1 refs s)"

section \<open>Runs of the store\<close>

text \<open>
  A call with its clock. The text of the time is never empty, and the random ids are hexadecimal and were
  not given out before. A call may stop after any of its writes.
\<close>

datatype att_call =
    CallBegin "string list" begin_attachment_command
  | CallAppend append_chunk_command
  | CallFinish finish_attachment_command
  | CallAbort attachment_ref
  | CallStat attachment_ref
  | CallRead read_attachment_query
  | CallResolve "attachment_ref list"
  | CallSweep sweep_scope "session_key list" int

fun call_writes :: "att_env \<Rightarrow> rat \<Rightarrow> string \<Rightarrow> att_call \<Rightarrow> att_store \<Rightarrow> att_store list" where
  "call_writes env now stamp (CallBegin ids c) s = snd (begin_attachment env now stamp ids c s)"
| "call_writes env now stamp (CallAppend c) s = snd (append_attachment_chunk env now stamp c s)"
| "call_writes env now stamp (CallFinish c) s = snd (finish_attachment env now stamp c s)"
| "call_writes env now stamp (CallAbort ref) s = snd (abort_attachment env now stamp ref s)"
| "call_writes env now stamp (CallStat ref) s = snd (stat_attachment env now stamp ref s)"
| "call_writes env now stamp (CallRead q) s = snd (read_attachment env now stamp q s)"
| "call_writes env now stamp (CallResolve refs) s = snd (resolve_attachments env now stamp refs s)"
| "call_writes env now stamp (CallSweep scope busy n) s = snd (sweep_incomplete env now scope busy n s)"

fun fresh_call :: "att_call \<Rightarrow> att_store \<Rightarrow> bool" where
  "fresh_call (CallBegin ids _) s \<longleftrightarrow> (\<forall>i \<in> set ids. is_attachment_id i \<and> i \<notin> set (as_issued s))"
| "fresh_call _ s \<longleftrightarrow> True"

inductive att_calls :: "att_env \<Rightarrow> att_call list \<Rightarrow> att_store \<Rightarrow> att_store \<Rightarrow> bool" for env where
  no_calls: "att_calls env [] s s"
| one_call: "att_calls env cs s s1 \<Longrightarrow> stamp \<noteq> [] \<Longrightarrow> fresh_call c s1 \<Longrightarrow>
    s' \<in> set (s1 # call_writes env now stamp c s1) \<Longrightarrow> att_calls env (cs @ [c]) s s'"

end
