(* ===== verification/Attachment_Changes.thy ===== *)
theory Attachment_Changes
  imports Attachment_Store "HOL-Library.Sublist"
begin

text \<open>
  The writes of every operation of the attachment store, broken down into single changes of single
  directories: \<open>dir_change\<close> inside a directory, \<open>store_change\<close> on the tree. A change of the tree may leave
  a removal unfinished only when operations may stop (\<open>stops\<close>). Every call is a sequence of such changes,
  wherever it stops, so what holds over runs is shown change by change.
\<close>

section \<open>Metadata round trip\<close>

definition wf_meta :: "att_meta \<Rightarrow> bool" where
  "wf_meta m \<longleftrightarrow> is_attachment_id (am_attachment_id m) \<and> am_project_id m \<noteq> [] \<and> am_thread_id m \<noteq> [] \<and>
     0 < am_size m \<and> am_size m \<le> MAX_ATTACHMENT_BYTES \<and> am_mime m \<in> set IMAGE_MIME_ALLOWED \<and>
     am_created_at m \<noteq> [] \<and> am_updated_at m \<noteq> [] \<and>
     (case am_revision m of None \<Rightarrow> \<not> am_finalized m | Some r \<Rightarrow> is_revision r) \<and>
     (case am_verification m of None \<Rightarrow> \<not> am_finalized m | Some l \<Rightarrow> l \<in> set VERIFICATION_LEVELS)"

lemma dict_get_Cons: "dict_get ((a, v) # d) k = (if a = k then v else dict_get d k)"
  by (simp add: dict_get_def)

lemma validate_meta_payload:
  assumes "wf_meta m"
  shows "validate_meta (meta_payload m) = Inr m"
proof -
  have r: "valid_revision (am_finalized m) (opt_str (am_revision m)) = Some (am_revision m)"
    using assms by (cases "am_revision m") (simp_all add: wf_meta_def valid_revision_def opt_str_def)
  have v: "valid_verification (am_finalized m) (opt_str (am_verification m)) = Some (am_verification m)"
    using assms by (cases "am_verification m") (simp_all add: wf_meta_def valid_verification_def opt_str_def)
  show ?thesis
    using assms unfolding meta_payload_def validate_meta_def
    by (simp add: dict_get_Cons r v wf_meta_def)
qed

lemma validate_meta_wf: "validate_meta v = Inr m \<Longrightarrow> wf_meta m"
proof -
  assume a: "validate_meta v = Inr m"
  have r: "valid_revision f x = Some y \<Longrightarrow> (case y of None \<Rightarrow> \<not> f | Some r \<Rightarrow> is_revision r)" for f x y
    by (auto simp: valid_revision_def split: pyval.splits if_splits)
  have l: "valid_verification f x = Some y \<Longrightarrow>
      (case y of None \<Rightarrow> \<not> f | Some l \<Rightarrow> l \<in> set VERIFICATION_LEVELS)" for f x y
    by (auto simp: valid_verification_def VERIFICATION_LEVELS_def split: pyval.splits if_splits)
  from a show ?thesis
    unfolding validate_meta_def wf_meta_def
    by (auto simp: bad_meta_def dest: r l split: pyval.splits option.splits if_splits)
qed

lemma read_meta_wf: "read_meta d = Inr m \<Longrightarrow> wf_meta m"
  by (auto simp: read_meta_def dest: validate_meta_wf split: option.splits)

lemma read_write_meta [simp]: "wf_meta m \<Longrightarrow> read_meta (write_meta now m d) = Inr m"
  by (simp add: read_meta_def write_meta_def validate_meta_payload)

section \<open>Single changes of a directory\<close>

definition digest_ok :: "att_env \<Rightarrow> bool" where
  "digest_ok env \<longleftrightarrow> (\<forall>data. is_revision (en_digest env data))"

inductive dir_change :: "att_env \<Rightarrow> att_dir \<Rightarrow> att_dir \<Rightarrow> bool" for env where
  dc_finalize: "read_meta d = Inr m \<Longrightarrow> \<not> am_finalized m \<Longrightarrow> ad_data d = Some data \<Longrightarrow>
    length data = am_size m \<Longrightarrow> validate_image_payload (en_decoder env) data (am_mime m) = Inr v \<Longrightarrow> stamp \<noteq> [] \<Longrightarrow>
    dir_change env d (write_meta now (finalized_meta env stamp data v m) d)"
| dc_open: "read_meta d = Inr m \<Longrightarrow> \<not> am_finalized m \<Longrightarrow> ad_data d = None \<Longrightarrow> ad_part d = None \<Longrightarrow>
    dir_change env d (d\<lparr>ad_part := Some ([], now)\<rparr>)"
| dc_extend: "read_meta d = Inr m \<Longrightarrow> \<not> am_finalized m \<Longrightarrow> ad_data d = None \<Longrightarrow> ad_part d = Some (b, t) \<Longrightarrow>
    length b + length x \<le> am_size m \<Longrightarrow> dir_change env d (d\<lparr>ad_part := Some (b @ x, now)\<rparr>)"
| dc_rename: "read_meta d = Inr m \<Longrightarrow> \<not> am_finalized m \<Longrightarrow> ad_data d = None \<Longrightarrow> ad_part d = Some (b, t) \<Longrightarrow>
    length b = am_size m \<Longrightarrow> dir_change env d (d\<lparr>ad_part := None, ad_data := Some b\<rparr>)"

lemma take_all_of: "length (take (n + 1) xs) = n \<Longrightarrow> take (n + 1) xs = xs"
  by simp

lemma image_check_facts:
  assumes "validate_image_payload decoder data mime = Inr v"
  shows "iv_mime v \<in> set IMAGE_MIME_ALLOWED" "iv_level v \<in> set VERIFICATION_LEVELS"
  using assms unfolding validate_image_iff
  by (auto simp: VERIFICATION_LEVELS_def dest: normalize_mime_allowed)

lemma wf_finalized_meta:
  assumes "digest_ok env" "wf_meta m" "stamp \<noteq> []" "validate_image_payload decoder data mime = Inr v"
  shows "wf_meta (finalized_meta env stamp data v m)"
  using assms image_check_facts [OF assms(4)]
  by (simp add: wf_meta_def finalized_meta_def digest_ok_def)

lemma open_upload_meta:
  "open_upload session i d = Inr m \<Longrightarrow> read_meta d = Inr m \<and> am_attachment_id m = i \<and>
     am_project_id m = project_id session \<and> am_thread_id m = thread_id session"
  by (auto simp: open_upload_def check_owner_def bad_meta_def split: sum.splits option.splits if_splits)

lemma recover_cases:
  assumes "recover_finalized env now stamp m d = (r, ws)" "read_meta d = Inr m" "stamp \<noteq> []"
  obtains (same) "ws = []" "r = Inr m" "am_finalized m \<or> ad_data d = None"
  | (failed) e where "ws = []" "r = Inl e"
  | (recovered) data v where "ad_data d = Some data" "\<not> am_finalized m" "length data = am_size m"
      "validate_image_payload (en_decoder env) data (am_mime m) = Inr v"
      "r = Inr (finalized_meta env stamp data v m)" "ws = [write_meta now (finalized_meta env stamp data v m) d]"
      "dir_change env d (write_meta now (finalized_meta env stamp data v m) d)"
proof (cases "am_finalized m \<or> ad_data d = None")
  case True
  with assms(1) show ?thesis by (intro same) (auto simp: recover_finalized_def split: option.splits)
next
  case False
  then obtain stored where d: "ad_data d = Some stored" "\<not> am_finalized m" by auto
  show ?thesis
  proof (cases "length (take (am_size m + 1) stored) = am_size m")
    case True
    have t: "take (am_size m + 1) stored = stored" by (rule take_all_of [OF True])
    have len: "length stored = am_size m" using True t by simp
    show ?thesis
    proof (cases "validate_image_payload (en_decoder env) stored (am_mime m)")
      case (Inl e)
      with assms(1) show ?thesis
        unfolding recover_finalized_def Let_def d t by (intro failed [of e]) (simp_all add: len d)
    next
      case (Inr v)
      with assms(1) show ?thesis
        unfolding recover_finalized_def Let_def d t
        by (intro recovered [of stored v] dc_finalize [OF assms(2) d(2,1) len Inr assms(3)])
          (simp_all add: len d)
    qed
  next
    case False
    with assms(1) show ?thesis
      unfolding recover_finalized_def Let_def d
      by (intro failed [of "AttachmentConflictError ''attachment content changed''"]) (simp_all add: d)
  qed
qed

lemma finalized_meta_finalized [simp]: "am_finalized (finalized_meta env stamp data v m)"
  by (simp add: finalized_meta_def)

definition changes_ok :: "att_env \<Rightarrow> 'a dir_op \<Rightarrow> bool" where
  "changes_ok env f \<longleftrightarrow> (\<forall>d. \<forall>d' \<in> set (snd (f d)). (dir_change env)\<^sup>*\<^sup>* d d')"

lemma recover_writes:
  assumes "recover_finalized env now stamp m d = (r, ws)" "read_meta d = Inr m" "stamp \<noteq> []" "d' \<in> set ws"
  shows "(dir_change env)\<^sup>*\<^sup>* d d'"
  using assms(4) by (cases rule: recover_cases [OF assms(1-3)]) auto

lemma load_writes:
  assumes "load_upload env now stamp session i d = (r, ws)" "stamp \<noteq> []" "d' \<in> set ws"
  shows "(dir_change env)\<^sup>*\<^sup>* d d'"
proof (cases "open_upload session i d")
  case (Inr m)
  with assms show ?thesis
    using recover_writes [of env now stamp m d r ws d'] open_upload_meta [OF Inr]
    by (simp add: load_upload_def split: if_splits)
qed (use assms in \<open>simp add: load_upload_def\<close>)

lemma stat_changes: "stamp \<noteq> [] \<Longrightarrow> changes_ok env (stat_dir env now stamp session i)"
  unfolding changes_ok_def stat_dir_def
  by (auto split: prod.splits sum.splits if_splits intro: load_writes)

lemma read_changes: "stamp \<noteq> [] \<Longrightarrow> changes_ok env (read_dir env now stamp session i offset limit)"
  unfolding changes_ok_def read_dir_def Let_def
  by (auto split: prod.splits sum.splits if_splits intro: load_writes)

lemma resolve_changes: "stamp \<noteq> [] \<Longrightarrow> changes_ok env (resolve_dir env now stamp session i)"
  unfolding changes_ok_def resolve_dir_def
  by (auto split: prod.splits sum.splits if_splits intro: load_writes)

lemma abort_changes: "stamp \<noteq> [] \<Longrightarrow> changes_ok env (abort_dir env now stamp session)"
  unfolding changes_ok_def abort_dir_def
  by (auto split: prod.splits sum.splits option.splits if_splits intro: recover_writes)

lemma opened_part:
  assumes "read_meta d = Inr m" "\<not> am_finalized m" "ad_data d = None"
    "opened = (if ad_part d = None then d\<lparr>ad_part := Some ([], now)\<rparr> else d)"
  shows "(dir_change env)\<^sup>*\<^sup>* d opened"
    "length (part_bytes d) + length x \<le> am_size m \<Longrightarrow>
      (dir_change env)\<^sup>*\<^sup>* d (opened\<lparr>ad_part := Some (part_bytes d @ x, now')\<rparr>)"
proof -
  have o: "(dir_change env)\<^sup>*\<^sup>* d opened"
    using assms dc_open [OF assms(1-3), of env now] by auto
  then show "(dir_change env)\<^sup>*\<^sup>* d opened" .
  obtain t where p: "ad_part opened = Some (part_bytes d, t)"
    using assms(4) by (cases "ad_part d") (auto simp: part_bytes_def)
  have "read_meta opened = Inr m" "ad_data opened = None"
    using assms by (auto simp: read_meta_def)
  from dc_extend [OF this(1) assms(2) this(2) p]
  show "length (part_bytes d) + length x \<le> am_size m \<Longrightarrow>
      (dir_change env)\<^sup>*\<^sup>* d (opened\<lparr>ad_part := Some (part_bytes d @ x, now')\<rparr>)"
    by (blast intro: rtranclp.rtrancl_into_rtrancl [OF o])
qed

lemma append_changes: "stamp \<noteq> [] \<Longrightarrow> changes_ok env (append_dir env now stamp session i offset chunk)"
  unfolding changes_ok_def
proof (intro allI ballI)
  fix d d'
  assume st: "stamp \<noteq> []" and d': "d' \<in> set (snd (append_dir env now stamp session i offset chunk d))"
  then obtain m where m: "open_upload session i d = Inr m"
    by (auto simp: append_dir_def split: sum.splits)
  note meta = open_upload_meta [OF m, THEN conjunct1]
  obtain r ws where r: "recover_finalized env now stamp m d = (r, ws)" by fastforce
  show "(dir_change env)\<^sup>*\<^sup>* d d'"
  proof (cases rule: recover_cases [OF r meta st, case_names same failed recovered])
    case same
    show ?thesis
    proof (cases "am_finalized m")
      case False
      with same have none: "ad_data d = None" by simp
      define opened where "opened = (if ad_part d = None then d\<lparr>ad_part := Some ([], now)\<rparr> else d)"
      note o = opened_part [OF meta False none opened_def]
      consider "d' = opened"
        | n where "d' = opened\<lparr>ad_part := Some (part_bytes d @ take n chunk, now)\<rparr>"
          "length (part_bytes d) + length chunk \<le> am_size m"
        using d' m r same False
        by (auto simp: append_dir_def Let_def opened_def simp del: upt_Suc split: if_splits)
      then show ?thesis
      proof cases
        case (2 n)
        have "length (part_bytes d) + length (take n chunk) \<le> am_size m" using 2(2) by simp
        from o(2) [OF this] show ?thesis unfolding 2(1) .
      qed (use o(1) in simp)
    qed (use d' m r same in \<open>simp add: append_dir_def\<close>)
  next
    case (failed e)
    with d' m r show ?thesis by (simp add: append_dir_def)
  next
    case (recovered data v)
    with d' m r show ?thesis by (simp add: append_dir_def)
  qed
qed

text \<open>A finish that goes through: what it found and what it writes.\<close>

lemma finish_cases:
  assumes "finish_dir env now stamp session i n mime d = (res, ws)" "stamp \<noteq> []"
  obtains (failed) e where "res = Inl e" "\<forall>d' \<in> set ws. (dir_change env)\<^sup>*\<^sup>* d d'"
  | (stored) m v b t where "open_upload session i d = Inr m" "\<not> am_finalized m" "ad_data d = None"
      "ad_part d = Some (b, t)" "length b = am_size m" "n = am_size m"
      "validate_image_payload (en_decoder env) b (am_mime m) = Inr v"
      "res = Inr \<lparr>fr_size = am_size m, fr_mime = iv_mime v, fr_revision = en_digest env b\<rparr>"
      "ws = [d\<lparr>ad_part := None, ad_data := Some b\<rparr>,
         write_meta now (finalized_meta env stamp b v m) (d\<lparr>ad_part := None, ad_data := Some b\<rparr>)]"
proof (cases "open_upload session i d")
  case (Inl e)
  show ?thesis using assms(1) Inl by (intro failed [of e]) (simp_all add: finish_dir_def)
next
  case (Inr m)
  note meta = open_upload_meta [OF Inr, THEN conjunct1]
  obtain r ws1 where r: "recover_finalized env now stamp m d = (r, ws1)" by fastforce
  show ?thesis
  proof (cases rule: recover_cases [OF r meta assms(2), case_names same failed recovered])
    case (failed e)
    with assms(1) Inr r show ?thesis by (intro that(1) [of e]) (simp_all add: finish_dir_def)
  next
    case (recovered data v)
    with assms(1) Inr r show ?thesis by (intro that(1)) (auto simp: finish_dir_def)
  next
    case same
    show ?thesis
    proof (cases "am_finalized m \<or> n \<noteq> am_size m \<or> mime \<noteq> am_mime m \<or> ad_part d = None \<or>
        length (take (am_size m + 1) (part_bytes d)) \<noteq> am_size m")
      case True
      with assms(1) Inr r same show ?thesis by (auto simp: finish_dir_def intro: that(1) split: if_splits)
    next
      case False
      then obtain b t where p: "ad_part d = Some (b, t)" by auto
      have tk: "take (am_size m + 1) b = b" "length b = am_size m"
        using False p take_all_of [of "am_size m" b] by (auto simp: part_bytes_def)
      show ?thesis
      proof (cases "validate_image_payload (en_decoder env) b (am_mime m)")
        case (Inl e)
        with assms(1) \<open>open_upload session i d = Inr m\<close> r same False p tk show ?thesis
          by (intro that(1) [of e]) (simp_all add: finish_dir_def part_bytes_def)
      next
        case (Inr v)
        with assms(1) \<open>open_upload session i d = Inr m\<close> r same False p tk show ?thesis
          by (intro that(2) [of m b t v]) (simp_all add: finish_dir_def part_bytes_def Let_def)
      qed
    qed
  qed
qed

lemma finish_chain:
  assumes "read_meta d = Inr m" "\<not> am_finalized m" "ad_data d = None" "ad_part d = Some (b, t)"
    "length b = am_size m" "validate_image_payload (en_decoder env) b (am_mime m) = Inr v" "stamp \<noteq> []"
    "renamed = d\<lparr>ad_part := None, ad_data := Some b\<rparr>"
  shows "dir_change env d renamed"
    "dir_change env renamed (write_meta now (finalized_meta env stamp b v m) renamed)"
proof -
  show "dir_change env d renamed" unfolding assms(8) by (rule dc_rename [OF assms(1-5)])
  have "read_meta renamed = Inr m" "ad_data renamed = Some b" using assms by (simp_all add: read_meta_def)
  from dc_finalize [OF this(1) assms(2) this(2) assms(5-7)]
  show "dir_change env renamed (write_meta now (finalized_meta env stamp b v m) renamed)" .
qed

lemma finish_changes: "stamp \<noteq> [] \<Longrightarrow> changes_ok env (finish_dir env now stamp session i n mime)"
  unfolding changes_ok_def
proof (intro allI ballI)
  fix d d'
  assume st: "stamp \<noteq> []" and d': "d' \<in> set (snd (finish_dir env now stamp session i n mime d))"
  obtain res ws where f: "finish_dir env now stamp session i n mime d = (res, ws)" by fastforce
  show "(dir_change env)\<^sup>*\<^sup>* d d'"
  proof (cases rule: finish_cases [OF f st, case_names failed stored])
    case (failed e)
    with d' f show ?thesis by simp
  next
    case (stored m v b t)
    note chain = finish_chain [OF open_upload_meta [OF stored(1), THEN conjunct1] stored(2-5,7) st refl]
    from d' f stored(9) chain show ?thesis by (auto intro: converse_rtranclp_into_rtranclp)
  qed
qed

section \<open>Single changes of the store\<close>

definition removable :: "att_dir \<Rightarrow> bool" where
  "removable d \<longleftrightarrow> ad_data d = None \<and> (\<forall>m. read_meta d = Inr m \<longrightarrow> \<not> am_finalized m)"

text \<open>What an operation leaves behind: its last state, or, if it may stop, any state after a write.\<close>

definition outcome :: "bool \<Rightarrow> att_store \<Rightarrow> att_store list \<Rightarrow> att_store \<Rightarrow> bool" where
  "outcome stops s ws s' \<longleftrightarrow> s' = last_state s ws \<or> stops \<and> s' \<in> set ws"

text \<open>
  The keys that a call may abort. A sweep only removes a directory whose metadata it can read; an abort
  removes the one it names.
\<close>

definition ref_key :: "att_env \<Rightarrow> attachment_ref \<Rightarrow> session_key \<times> string" where
  "ref_key env ref =
     (session_dir env (ar_session ref), case ar_attachment_id ref of PStr i \<Rightarrow> i | _ \<Rightarrow> [])"

fun abort_keys :: "att_env \<Rightarrow> att_call \<Rightarrow> (session_key \<times> string) set" where
  "abort_keys env (CallAbort ref) = {ref_key env ref}"
| "abort_keys env _ = {}"

definition abort_keys_of :: "att_env \<Rightarrow> att_call list \<Rightarrow> (session_key \<times> string) set" where
  "abort_keys_of env cs = (\<Union>c \<in> set cs. abort_keys env c)"

inductive store_change :: "att_env \<Rightarrow> bool \<Rightarrow> (session_key \<times> string) set \<Rightarrow> att_store \<Rightarrow> att_store \<Rightarrow> bool"
  for env stops ab where
  sc_dir: "dir_at s k = Some d \<Longrightarrow> dir_change env d d' \<Longrightarrow> store_change env stops ab s (put_dir k d' s)"
| sc_remove: "dir_at s k = Some d \<Longrightarrow> removable d \<Longrightarrow> k \<in> ab \<or> (\<exists>m. read_meta d = Inr m) \<Longrightarrow>
    outcome stops s (remove_tree k d s) s' \<Longrightarrow> store_change env stops ab s s'"
| sc_begin: "i \<notin> set (as_issued s) \<Longrightarrow> is_attachment_id i \<Longrightarrow> dir_at s (k, i) = None \<Longrightarrow>
    enforce_quota k bytes s = None \<Longrightarrow> wf_meta m \<Longrightarrow> am_size m = bytes \<Longrightarrow> \<not> am_finalized m \<Longrightarrow>
    d \<in> {empty_dir, write_meta now m empty_dir} \<Longrightarrow>
    store_change env stops ab s (put_dir (k, i) d (s\<lparr>as_issued := i # as_issued s\<rparr>))"

definition keys_ok :: "att_store \<Rightarrow> bool" where
  "keys_ok s \<longleftrightarrow> distinct (map fst (as_dirs s))"

lemma dir_at_put: "dir_at (put_dir k d s) k' = (if k' = k then Some d else dir_at s k')"
  by (simp add: dir_at_def put_dir_def update_conv')

lemma dir_at_drop: "dir_at (drop_dir k s) k' = (if k' = k then None else dir_at s k')"
  by (simp add: dir_at_def drop_dir_def delete_conv')

lemma put_put [simp]: "put_dir k d (put_dir k d' s) = put_dir k d s"
  by (simp add: put_dir_def update_last)

lemma update_same: "map_of al k = Some v \<Longrightarrow> AList.update k v al = al"
  by (induction al) (auto split: if_splits)

lemma put_same: "dir_at s k = Some d \<Longrightarrow> put_dir k d s = s"
  by (simp add: dir_at_def put_dir_def update_same)

lemma keys_put: "keys_ok s \<Longrightarrow> keys_ok (put_dir k d s)"
  by (simp add: keys_ok_def put_dir_def distinct_update)

lemma keys_drop: "keys_ok s \<Longrightarrow> keys_ok (drop_dir k s)"
  by (simp add: keys_ok_def drop_dir_def distinct_delete)

lemma issued_put [simp]: "as_issued (put_dir k d s) = as_issued s" "as_issued (drop_dir k s) = as_issued s"
  by (simp_all add: put_dir_def drop_dir_def)

lemma put_issued: "put_dir k d (s\<lparr>as_issued := x\<rparr>) = (put_dir k d s)\<lparr>as_issued := x\<rparr>"
  by (simp add: put_dir_def)

lemma dir_at_issued [simp]: "dir_at (s\<lparr>as_issued := x\<rparr>) k = dir_at s k"
  by (simp add: dir_at_def)

lemma last_state_in: "last_state s ws \<in> set (s # ws)"
  unfolding last_state_def by (rule last_in_set) simp

lemma last_state_append [simp]: "last_state s (ws @ ws') = last_state (last_state s ws) ws'"
  by (simp add: last_state_def)

lemma last_state_Nil [simp]: "last_state s [] = s"
  by (simp add: last_state_def)

lemma outcome_in: "outcome stops s ws s' \<Longrightarrow> s' \<in> set (s # ws)"
  using last_state_in [of s ws] by (auto simp: outcome_def)

lemma outcome_Nil [simp]: "outcome stops s [] s' \<longleftrightarrow> s' = s"
  by (simp add: outcome_def)

lemma outcome_append:
  "outcome stops s (ws @ ws') s' \<Longrightarrow> outcome stops s ws s' \<or> outcome stops (last_state s ws) ws' s'"
  by (auto simp: outcome_def)

lemma last_remove_tree [simp]: "last_state s (remove_tree k d s) = drop_dir k s"
  by (simp add: last_state_def remove_tree_def)

lemma in_remove_tree:
  "outcome stops s (remove_tree k d s) s' \<longleftrightarrow>
     s' = drop_dir k s \<or> stops \<and> (\<exists>d' \<in> set (partly_removed d). s' = put_dir k d' s)"
  by (auto simp: outcome_def) (auto simp: remove_tree_def)

lemma change_keys: "store_change env stops ab s s' \<Longrightarrow> keys_ok s \<Longrightarrow> keys_ok s'"
  by (induction rule: store_change.induct) (auto simp: in_remove_tree keys_put keys_drop put_issued keys_ok_def put_dir_def distinct_update drop_dir_def distinct_delete)

lemma changes_keys: "(store_change env stops ab)\<^sup>*\<^sup>* s s' \<Longrightarrow> keys_ok s \<Longrightarrow> keys_ok s'"
  by (induction rule: rtranclp_induct) (auto intro: change_keys)

lemma dir_changes_lift:
  assumes "(dir_change env)\<^sup>*\<^sup>* d d'" "dir_at s k = Some d"
  shows "(store_change env stops ab)\<^sup>*\<^sup>* s (put_dir k d' s)"
  using assms(1)
proof (induction rule: rtranclp_induct)
  case base
  then show ?case by (simp add: put_same [OF assms(2)])
next
  case (step d1 d2)
  have "store_change env stops ab (put_dir k d1 s) (put_dir k d2 (put_dir k d1 s))"
    by (rule sc_dir [OF _ step.hyps(2)]) (simp add: dir_at_put)
  with step.IH show ?case by simp
qed

lemma at_dir_changes:
  assumes "changes_ok env f" "s' \<in> set (s # snd (at_dir k f s))"
  shows "(store_change env stops ab)\<^sup>*\<^sup>* s s'"
proof (cases "dir_at s k")
  case (Some d)
  obtain r ds where f: "f d = (r, ds)" by fastforce
  consider "s' = s" | d' where "d' \<in> set ds" "s' = put_dir k d' s"
    using Some assms(2) f by (auto simp: at_dir_def)
  then show ?thesis
  proof cases
    case (2 d')
    have "(dir_change env)\<^sup>*\<^sup>* d d'" using assms(1) f 2(1) by (auto simp: changes_ok_def dest!: spec [of _ d])
    then show ?thesis unfolding 2(2) using Some by (rule dir_changes_lift)
  qed simp
qed (use assms in \<open>simp add: at_dir_def\<close>)

lemma sweep_dirs_changes:
  assumes "\<forall>(i, d) \<in> set ds. dir_at s (k, i) = Some d" "distinct (map fst ds)"
    "outcome stops s (snd (sweep_dirs env deadline n k ds removed scanned s)) s'"
  shows "(store_change env stops ab)\<^sup>*\<^sup>* s s'"
  using assms
proof (induction ds arbitrary: removed scanned s)
  case (Cons x ds)
  obtain i d where x: "x = (i, d)" by fastforce
  have at: "dir_at s (k, i) = Some d" using Cons.prems(1) x by auto
  consider "n \<le> scanned" | "\<not> n \<le> scanned" "\<not> sweepable env deadline d"
    | "\<not> n \<le> scanned" "sweepable env deadline d" by blast
  then show ?case
  proof cases
    case 2
    then have "outcome stops s (snd (sweep_dirs env deadline n k ds removed (scanned + 1) s)) s'"
      using Cons.prems(3) x by simp
    from Cons.IH [OF _ _ this] Cons.prems(1,2) show ?thesis by simp
  next
    case 3
    then have "removable d" by (auto simp: sweepable_def removable_def has_regular_data_file_def split: sum.splits)
    moreover from 3 have "(k, i) \<in> ab \<or> (\<exists>m. read_meta d = Inr m)" by (auto simp: sweepable_def split: sum.splits)
    ultimately have rem: "outcome stops s (remove_tree (k, i) d s) t \<Longrightarrow> store_change env stops ab s t" for t
      by (rule sc_remove [OF at])
    have "outcome stops s (remove_tree (k, i) d s @
        snd (sweep_dirs env deadline n k ds (removed + 1) (scanned + 1) (drop_dir (k, i) s))) s'"
      using Cons.prems(3) x 3 by (simp add: Let_def split_def)
    from outcome_append [OF this] consider "outcome stops s (remove_tree (k, i) d s) s'"
      | "outcome stops (drop_dir (k, i) s)
          (snd (sweep_dirs env deadline n k ds (removed + 1) (scanned + 1) (drop_dir (k, i) s))) s'"
      by auto
    then show ?thesis
    proof cases
      case 1
      then show ?thesis using rem by blast
    next
      case 2
      have "\<forall>(j, e) \<in> set ds. dir_at (drop_dir (k, i) s) (k, j) = Some e"
        using Cons.prems(1,2) x by (force simp: dir_at_drop)
      from Cons.IH [OF this _ 2] Cons.prems(2) have "(store_change env stops ab)\<^sup>*\<^sup>* (drop_dir (k, i) s) s'" by simp
      moreover have "store_change env stops ab s (drop_dir (k, i) s)" by (rule rem) (simp add: in_remove_tree)
      ultimately show ?thesis by (rule converse_rtranclp_into_rtranclp [rotated])
    qed
  qed (use Cons.prems(3) x in simp)
qed simp

lemma session_dirs_at:
  assumes "keys_ok s"
  shows "\<forall>(i, d) \<in> set (session_dirs k s). dir_at s (k, i) = Some d" "distinct (map fst (session_dirs k s))"
proof -
  show "\<forall>(i, d) \<in> set (session_dirs k s). dir_at s (k, i) = Some d"
    using assms by (auto simp: session_dirs_def keys_ok_def dir_at_def)
  have eq: "map fst (session_dirs k s) = map snd (filter (\<lambda>x. fst x = k \<and> is_attachment_id (snd x)) (map fst (as_dirs s)))"
    by (simp add: session_dirs_def filter_map comp_def split_def)
  have "inj_on snd (set (filter (\<lambda>x. fst x = k \<and> is_attachment_id (snd x)) (map fst (as_dirs s))))"
    by (auto intro!: inj_onI)
  then show "distinct (map fst (session_dirs k s))"
    unfolding eq using assms by (simp add: distinct_map keys_ok_def)
qed

lemma sweep_session_changes:
  "keys_ok s \<Longrightarrow> outcome stops s (snd (sweep_session env deadline n scanned k s)) s' \<Longrightarrow>
     (store_change env stops ab)\<^sup>*\<^sup>* s s'"
  unfolding sweep_session_def by (rule sweep_dirs_changes [OF session_dirs_at])

lemma sweep_sessions_changes:
  assumes "keys_ok s" "outcome stops s (snd (sweep_sessions env deadline n busy ks removed scanned s)) s'"
  shows "(store_change env stops ab)\<^sup>*\<^sup>* s s'"
  using assms
proof (induction ks arbitrary: removed scanned s)
  case (Cons k ks)
  consider "n \<le> scanned" | "\<not> n \<le> scanned" "k \<in> set busy" | "\<not> n \<le> scanned" "k \<notin> set busy" by blast
  then show ?case
  proof cases
    case 3
    obtain x scanned' ws where sw: "sweep_session env deadline n scanned k s = ((x, scanned'), ws)"
      by (metis prod.exhaust)
    have ws: "outcome stops s ws t \<Longrightarrow> (store_change env stops ab)\<^sup>*\<^sup>* s t" for t
      using sweep_session_changes [OF Cons.prems(1), of stops env deadline n scanned k t] sw by simp
    have final: "(store_change env stops ab)\<^sup>*\<^sup>* s (last_state s ws)" by (rule ws) (simp add: outcome_def)
    have "outcome stops s (ws @ snd (sweep_sessions env deadline n busy ks (removed + x) scanned' (last_state s ws))) s'"
      using Cons.prems(2) 3 sw by (simp add: Let_def split_def)
    from outcome_append [OF this] show ?thesis
    proof
      assume "outcome stops (last_state s ws)
        (snd (sweep_sessions env deadline n busy ks (removed + x) scanned' (last_state s ws))) s'"
      from Cons.IH [OF changes_keys [OF final Cons.prems(1)] this] final show ?thesis by (meson rtranclp_trans)
    qed (rule ws)
  qed (use Cons in auto)
qed simp

text \<open>Every call is a sequence of single changes, wherever it stops.\<close>

lemma resolve_changes_store:
  "stamp \<noteq> [] \<Longrightarrow> s' \<in> set (snd (resolve_refs env now stamp n refs s)) \<Longrightarrow> (store_change env stops ab)\<^sup>*\<^sup>* s s'"
proof (induction refs arbitrary: n s)
  case (Cons ref refs)
  show ?case
  proof (cases "validate_attachment_ref ref")
    case (Inr i)
    define f where "f = resolve_dir env now stamp (ar_session ref) i"
    obtain r ws where at: "at_dir (session_dir env (ar_session ref), i) f s = (r, ws)" by fastforce
    have ws: "\<forall>t \<in> set ws. (store_change env stops ab)\<^sup>*\<^sup>* s t"
    proof
      fix t assume "t \<in> set ws"
      with at have "t \<in> set (s # snd (at_dir (session_dir env (ar_session ref), i) f s))" by simp
      then show "(store_change env stops ab)\<^sup>*\<^sup>* s t"
        unfolding f_def by (rule at_dir_changes [OF resolve_changes [OF Cons.prems(1)]])
    qed
    have final: "(store_change env stops ab)\<^sup>*\<^sup>* s (last_state s ws)" using last_state_in [of s ws] ws by auto
    show ?thesis
    proof (cases r)
      case (Inl e)
      with Cons.prems(2) Inr at ws show ?thesis by (auto simp: f_def)
    next
      case (Inr x)
      obtain m data where x: "x = (m, data)" by fastforce
      have "s' \<in> set ws \<or> s' \<in> set (snd (resolve_refs env now stamp (n + 1) refs (last_state s ws)))"
        using Cons.prems(2) \<open>validate_attachment_ref ref = Inr i\<close> at Inr x by (auto simp: f_def Let_def split: prod.splits)
      then show ?thesis
      proof
        assume "s' \<in> set (snd (resolve_refs env now stamp (n + 1) refs (last_state s ws)))"
        with Cons have "(store_change env stops ab)\<^sup>*\<^sup>* (last_state s ws) s'" by blast
        with final show ?thesis by (rule rtranclp_trans)
      qed (use ws in blast)
    qed
  qed (use Cons.prems in simp)
qed simp

lemma abort_cases:
  assumes "abort_dir env now stamp session d = (Inr True, ws)" "stamp \<noteq> []"
  shows "removable d \<and> ws = []"
proof (cases "read_meta d")
  case (Inl e)
  with assms show ?thesis by (auto simp: abort_dir_def removable_def has_regular_data_file_def)
next
  case (Inr m)
  with assms(1) have nf: "\<not> am_finalized m" by (auto simp: abort_dir_def split: option.splits)
  obtain r ws1 where r: "recover_finalized env now stamp m d = (r, ws1)" by fastforce
  show ?thesis
    by (cases rule: recover_cases [OF r Inr assms(2), case_names same failed recovered])
      (use assms(1) Inr nf r in \<open>auto simp: abort_dir_def removable_def split: option.splits\<close>)
qed

lemma validate_ref_key: "validate_attachment_ref ref = Inr i \<Longrightarrow> ref_key env ref = (session_dir env (ar_session ref), i)"
  by (auto simp: ref_key_def validate_attachment_ref_def validate_attachment_id_def
      split: option.splits pyval.splits if_splits)

lemma abort_changes_store:
  assumes "stamp \<noteq> []" "outcome stops s (snd (abort_attachment env now stamp ref s)) s'" "ref_key env ref \<in> ab"
  shows "(store_change env stops ab)\<^sup>*\<^sup>* s s'"
proof (cases "s' = s")
  case False
  then have w: "s' \<in> set (snd (abort_attachment env now stamp ref s))" using outcome_in [OF assms(2)] by simp
  then obtain i d where i: "validate_attachment_ref ref = Inr i"
      and d: "dir_at s (session_dir env (ar_session ref), i) = Some d"
    by (auto simp: abort_attachment_def Let_def split: sum.splits option.splits)
  define k where "k = (session_dir env (ar_session ref), i)"
  obtain r ws where a: "abort_dir env now stamp (ar_session ref) d = (r, ws)" by fastforce
  have lift: "\<forall>d' \<in> set ws. (store_change env stops ab)\<^sup>*\<^sup>* s (put_dir k d' s)"
  proof
    fix d' assume "d' \<in> set ws"
    then have "(dir_change env)\<^sup>*\<^sup>* d d'"
      using abort_changes [OF assms(1), of env now "ar_session ref"] a
      by (fastforce simp: changes_ok_def dest!: spec [of _ d])
    then show "(store_change env stops ab)\<^sup>*\<^sup>* s (put_dir k d' s)" by (rule dir_changes_lift) (simp add: k_def d)
  qed
  show ?thesis
  proof (cases "r = Inr True")
    case True
    from abort_cases [OF a [unfolded True] assms(1)] have "removable d" "ws = []" by auto
    with assms(2) i d a True have "outcome stops s (remove_tree k d s) s'"
      by (simp add: abort_attachment_def Let_def k_def)
    moreover have "k \<in> ab" using assms(3) i by (simp add: validate_ref_key k_def)
    ultimately have "store_change env stops ab s s'"
      using sc_remove [OF d \<open>removable d\<close>] by (simp add: k_def)
    then show ?thesis by (rule r_into_rtranclp)
  next
    case False
    with w i d a have "s' \<in> (\<lambda>d'. put_dir k d' s) ` set ws"
      by (auto simp: abort_attachment_def Let_def k_def split: sum.splits bool.splits)
    with lift show ?thesis by blast
  qed
qed simp

lemma change_issued: "store_change env stops ab s s' \<Longrightarrow> set (as_issued s) \<subseteq> set (as_issued s')"
  by (induction rule: store_change.induct) (auto simp: in_remove_tree)

lemma sweep_issued: "as_issued (last_state s (snd (sweep_dirs env deadline n k ds r c s))) = as_issued s"
proof (induction ds arbitrary: r c s)
  case (Cons x ds)
  then show ?case by (cases x) (simp add: Let_def split_def)
qed simp

lemma wf_new_meta:
  assumes "validate_begin_command c = Inr (bytes, mime, name)" "is_attachment_id i" "stamp \<noteq> []"
  shows "wf_meta (new_meta i (ba_session c) bytes mime name stamp)"
  using assms validate_size_bounds [of "ba_size c" "''attachment size''" bytes] normalize_mime_allowed [of "ba_mime c" mime]
  by (auto simp: validate_begin_command_def wf_meta_def new_meta_def validate_session_ref_def session_field_error_def
      split: sum.splits option.splits if_splits)

lemma begin_changes_store:
  assumes "keys_ok s" "stamp \<noteq> []" "fresh_call (CallBegin ids c) s"
    "outcome stops s (snd (begin_attachment env now stamp ids c s)) s'"
  shows "(store_change env stops ab)\<^sup>*\<^sup>* s s'"
proof (cases "s' = s")
  case changed: False
  then have w: "s' \<in> set (snd (begin_attachment env now stamp ids c s))" using outcome_in [OF assms(4)] by simp
  then obtain bytes mime name where v: "validate_begin_command c = Inr (bytes, mime, name)"
    by (auto simp: begin_attachment_def split: sum.splits)
  define k where "k = session_dir env (ba_session c)"
  obtain rn ws where sw: "sweep_session env (now - of_nat INCOMPLETE_TTL_SECONDS) DEFAULT_SWEEP_ENTRIES 0 k s = (rn, ws)"
    by fastforce
  define s1 where "s1 = last_state s ws"
  have ws: "outcome stops s ws t \<Longrightarrow> (store_change env stops ab)\<^sup>*\<^sup>* s t" for t
    using sweep_session_changes [OF assms(1)] sw by (metis snd_conv)
  have s1: "(store_change env stops ab)\<^sup>*\<^sup>* s s1" unfolding s1_def by (rule ws) (simp add: outcome_def)
  have issued: "as_issued s1 = as_issued s"
    using sweep_issued [of s env _ _ k "session_dirs k s"] sw unfolding s1_def sweep_session_def by (metis snd_conv)
  show ?thesis
  proof (cases "outcome stops s ws s'")
    case False
    obtain i where q: "enforce_quota k bytes s1 = None" and i: "new_attachment_id k ids s1 = Some i"
      using assms(4) False
      by (auto simp: begin_attachment_def v Let_def k_def [symmetric] sw s1_def [symmetric] split: option.splits)
    have s': "s' \<in> {(put_dir (k, i) empty_dir s1)\<lparr>as_issued := i # as_issued s1\<rparr>,
        put_dir (k, i) (write_meta now (new_meta i (ba_session c) bytes mime name stamp) empty_dir)
          ((put_dir (k, i) empty_dir s1)\<lparr>as_issued := i # as_issued s1\<rparr>)}"
      using assms(4) False q i
      by (auto simp: begin_attachment_def v Let_def k_def [symmetric] sw s1_def [symmetric] outcome_def)
        (auto simp: last_state_def)
    from i have "dir_at s1 (k, i) = None" "i \<in> set ids"
      by (auto simp: new_attachment_id_def find_Some_iff dest: in_set_takeD nth_mem)
    moreover from this(2) assms(3) have id: "is_attachment_id i" "i \<notin> set (as_issued s1)" by (auto simp: issued)
    ultimately have "store_change env stops ab s1 (put_dir (k, i) d (s1\<lparr>as_issued := i # as_issued s1\<rparr>))"
      if "d \<in> {empty_dir, write_meta now (new_meta i (ba_session c) bytes mime name stamp) empty_dir}" for d
      using sc_begin [OF id(2,1) _ q wf_new_meta [OF v id(1) assms(2)]] that by (simp add: new_meta_def)
    then have "store_change env stops ab s1 s'" using s' by (auto simp: put_issued [symmetric])
    with s1 show ?thesis by (rule rtranclp.rtrancl_into_rtrancl)
  qed (rule ws)
qed simp

lemma call_changes:
  assumes "keys_ok s" "stamp \<noteq> []" "fresh_call c s" "outcome stops s (call_writes env now stamp c s) s'"
    "abort_keys env c \<subseteq> ab"
  shows "(store_change env stops ab)\<^sup>*\<^sup>* s s'"
proof (cases "s' = s")
  case False
  with outcome_in [OF assms(4)] have w: "s' \<in> set (call_writes env now stamp c s)" by simp
  note lift = at_dir_changes [OF _ list.set_intros(2)]
  show ?thesis
  proof (cases c)
    case (CallBegin ids b)
    with assms show ?thesis by (auto intro: begin_changes_store)
  next
    case (CallAppend a)
    with w show ?thesis
      by (auto simp: append_attachment_chunk_def Let_def split: sum.splits intro: lift [OF append_changes [OF assms(2)]])
  next
    case (CallFinish f)
    with w show ?thesis
      by (auto simp: finish_attachment_def Let_def split: sum.splits intro: lift [OF finish_changes [OF assms(2)]])
  next
    case (CallAbort ref)
    with assms(4,5) show ?thesis by (auto intro: abort_changes_store [OF assms(2)])
  next
    case (CallStat ref)
    with w show ?thesis
      by (auto simp: stat_attachment_def split: sum.splits intro: lift [OF stat_changes [OF assms(2)]])
  next
    case (CallRead q)
    with w show ?thesis
      by (auto simp: read_attachment_def Let_def split: sum.splits intro: lift [OF read_changes [OF assms(2)]])
  next
    case (CallResolve refs)
    with w show ?thesis
      by (auto simp: resolve_attachments_def split: if_splits intro: resolve_changes_store [OF assms(2)])
  next
    case (CallSweep scope busy n)
    have "outcome stops s (snd (sweep_sessions env (now - of_nat INCOMPLETE_TTL_SECONDS) (nat n) busy
        (scope_sessions env scope s) 0 0 s)) s'"
      using assms(4) w CallSweep by (auto simp: sweep_incomplete_def split: if_splits option.splits prod.splits)
    then show ?thesis by (rule sweep_sessions_changes [OF assms(1)])
  qed
qed simp

lemma change_mono: "store_change env stops ab s s' \<Longrightarrow> ab \<subseteq> ab' \<Longrightarrow> store_change env stops ab' s s'"
  by (induction rule: store_change.induct) (auto intro: store_change.intros)

lemma changes_mono: "(store_change env stops ab)\<^sup>*\<^sup>* s s' \<Longrightarrow> ab \<subseteq> ab' \<Longrightarrow> (store_change env stops ab')\<^sup>*\<^sup>* s s'"
  by (induction rule: rtranclp_induct) (auto intro: change_mono rtranclp.rtrancl_into_rtrancl)

lemma calls_changes:
  "att_calls env cs s s' \<Longrightarrow> keys_ok s \<Longrightarrow> (store_change env True (abort_keys_of env cs))\<^sup>*\<^sup>* s s'"
proof (induction rule: att_calls.induct)
  case (one_call cs s s1 stamp c s' now)
  have sub: "abort_keys_of env cs \<subseteq> abort_keys_of env (cs @ [c])" "abort_keys env c \<subseteq> abort_keys_of env (cs @ [c])"
    by (auto simp: abort_keys_of_def)
  note first = one_call.IH [OF one_call.prems]
  have "(store_change env True (abort_keys_of env (cs @ [c])))\<^sup>*\<^sup>* s1 s'"
  proof (cases "s' = s1")
    case False
    with one_call.hyps(4) have "outcome True s1 (call_writes env now stamp c s1) s'" by (simp add: outcome_def)
    from call_changes [OF changes_keys [OF first one_call.prems] one_call.hyps(2,3) this sub(2)] show ?thesis .
  qed simp
  with changes_mono [OF first sub(1)] show ?case by (rule rtranclp_trans)
qed simp

section \<open>What holds of every directory\<close>

definition dir_bytes :: "att_dir \<Rightarrow> nat" where
  "dir_bytes d = length (part_bytes d) + (case ad_data d of None \<Rightarrow> 0 | Some x \<Rightarrow> length x)"

text \<open>What a directory may come to hold: its declared size, or what it holds when nothing can be added.\<close>

definition held :: "att_dir \<Rightarrow> nat" where
  "held d = (case read_meta d of Inl _ \<Rightarrow> dir_bytes d | Inr m \<Rightarrow> am_size m)"

definition dir_ok :: "att_dir \<Rightarrow> bool" where
  "dir_ok d \<longleftrightarrow> dir_bytes d \<le> held d \<and> held d \<le> MAX_ATTACHMENT_BYTES"

lemma read_meta_update [simp]:
  "read_meta (d\<lparr>ad_part := p\<rparr>) = read_meta d" "read_meta (d\<lparr>ad_data := x\<rparr>) = read_meta d"
  by (simp_all add: read_meta_def)

lemma part_bytes_update [simp]:
  "part_bytes (d\<lparr>ad_part := Some (b, t)\<rparr>) = b" "part_bytes (d\<lparr>ad_part := None\<rparr>) = []"
  "part_bytes (d\<lparr>ad_data := x\<rparr>) = part_bytes d" "part_bytes (write_meta now m d) = part_bytes d"
  by (simp_all add: part_bytes_def write_meta_def)

lemma write_meta_data [simp]: "ad_data (write_meta now m d) = ad_data d"
  by (simp add: write_meta_def)

lemma size_finalized [simp]: "am_size (finalized_meta env stamp data v m) = am_size m"
  by (simp add: finalized_meta_def)

lemma change_held: "dir_change env d d' \<Longrightarrow> digest_ok env \<Longrightarrow> held d' = held d \<and> read_meta d' \<noteq> Inl e"
  by (induction rule: dir_change.induct)
    (simp_all add: held_def wf_finalized_meta [OF _ read_meta_wf])

lemma change_dir_ok: "dir_change env d d' \<Longrightarrow> digest_ok env \<Longrightarrow> dir_ok d \<Longrightarrow> dir_ok d'"
proof -
  assume c: "dir_change env d d'" and dig: "digest_ok env" and ok: "dir_ok d"
  have "dir_bytes d' \<le> held d"
    using c ok by (cases rule: dir_change.cases) (auto simp: dir_ok_def held_def dir_bytes_def part_bytes_def write_meta_def)
  with change_held [OF c dig] ok show ?thesis by (simp add: dir_ok_def)
qed

lemma partly_removed_ok:
  assumes "dir_ok d" "d' \<in> set (partly_removed d)"
  shows "dir_ok d'" "held d' \<le> held d"
proof -
  have b: "dir_bytes d' \<le> dir_bytes d" using assms(2)
    by (auto simp: partly_removed_def dir_bytes_def part_bytes_def split: option.splits)
  have "read_meta d' = read_meta d \<or> read_meta d' = Inl AttachmentNotFoundError"
    using assms(2) by (auto simp: partly_removed_def read_meta_def)
  with b assms(1) show "dir_ok d'" "held d' \<le> held d"
    by (auto simp: dir_ok_def held_def split: sum.splits)
qed

lemma new_dir_ok:
  assumes "wf_meta m" "d \<in> {empty_dir, write_meta now m empty_dir}"
  shows "dir_ok d" "held d \<le> am_size m"
  using assms by (auto simp: dir_ok_def held_def dir_bytes_def part_bytes_def empty_dir_def read_meta_def write_meta_def
      validate_meta_payload wf_meta_def)

end
