(* ===== verification/Attachment_Contract.thy ===== *)
theory Attachment_Contract
  imports Attachment_Changes
begin

text \<open>
  What the attachment store promises: the bytes on disk stay within the caps, a finished attachment is
  never changed or lost, what is read back is what was uploaded, and what a begin that dies halfway
  leaves behind.
\<close>

section \<open>The quota\<close>

definition dirs_sum :: "(session_key \<times> string \<Rightarrow> bool) \<Rightarrow> (att_dir \<Rightarrow> nat) \<Rightarrow> att_store \<Rightarrow> nat" where
  "dirs_sum P f s = sum_list (map (\<lambda>x. f (snd x)) (filter (\<lambda>x. P (fst x)) (as_dirs s)))"

definition of_session :: "session_key \<Rightarrow> session_key \<times> string \<Rightarrow> bool" where
  "of_session k x \<longleftrightarrow> fst x = k"

definition of_project :: "string \<Rightarrow> session_key \<times> string \<Rightarrow> bool" where
  "of_project p x \<longleftrightarrow> fst (fst x) = p"

lemma dirs_sum_issued [simp]: "dirs_sum P f (s\<lparr>as_issued := x\<rparr>) = dirs_sum P f s"
  by (simp add: dirs_sum_def)

lemma sum_update:
  "map_of al k = Some d0 \<Longrightarrow> f d \<le> f d0 \<Longrightarrow>
     sum_list (map (\<lambda>x. f (snd x)) (filter (\<lambda>x. P (fst x)) (AList.update k d al))) \<le>
     sum_list (map (\<lambda>x. f (snd x)) (filter (\<lambda>x. P (fst x)) al))" for f :: "'b \<Rightarrow> nat"
  by (induction al) (auto split: if_splits)

lemma sum_delete:
  "sum_list (map (\<lambda>x. f (snd x)) (filter (\<lambda>x. P (fst x)) (AList.delete k al))) \<le>
     sum_list (map (\<lambda>x. f (snd x)) (filter (\<lambda>x. P (fst x)) al))" for f :: "'b \<Rightarrow> nat"
  by (induction al) auto

lemma dirs_sum_put: "dir_at s k = Some d0 \<Longrightarrow> f d \<le> f d0 \<Longrightarrow> dirs_sum P f (put_dir k d s) \<le> dirs_sum P f s"
  by (simp add: dirs_sum_def put_dir_def dir_at_def sum_update)

lemma dirs_sum_drop: "dirs_sum P f (drop_dir k s) \<le> dirs_sum P f s"
  by (simp add: dirs_sum_def drop_dir_def sum_delete)

lemma dirs_sum_new:
  "dir_at s k = None \<Longrightarrow> dirs_sum P f (put_dir k d s) = dirs_sum P f s + (if P k then f d else 0)"
  by (simp add: dirs_sum_def put_dir_def dir_at_def dict_set_new map_of_eq_None_iff)

lemma set_update_subset: "set (AList.update k v al) \<subseteq> insert (k, v) (set al)"
  by (induction al) auto

lemma dirs_put: "x \<in> set (as_dirs (put_dir k d s)) \<Longrightarrow> x = (k, d) \<or> x \<in> set (as_dirs s)"
  using set_update_subset [of k d "as_dirs s"] by (auto simp: put_dir_def)

lemma dirs_drop: "x \<in> set (as_dirs (drop_dir k s)) \<Longrightarrow> x \<in> set (as_dirs s)"
  by (auto simp: drop_dir_def AList.delete_eq)

lemma dir_at_in: "dir_at s k = Some d \<Longrightarrow> (k, d) \<in> set (as_dirs s)"
  by (simp add: dir_at_def map_of_SomeD)

definition dirs_ok :: "att_store \<Rightarrow> bool" where
  "dirs_ok s \<longleftrightarrow> (\<forall>x \<in> set (as_dirs s). is_attachment_id (snd (fst x)) \<and> dir_ok (snd x))"

definition quota_inv :: "att_store \<Rightarrow> bool" where
  "quota_inv s \<longleftrightarrow> dirs_ok s \<and> (\<forall>k. dirs_sum (of_session k) held s \<le> MAX_SESSION_ATTACHMENT_BYTES) \<and>
     (\<forall>p. dirs_sum (of_project p) held s \<le> MAX_PROJECT_ATTACHMENT_BYTES)"

lemma scan_total:
  "scan_usage n ds c t = Inr (c', t') \<Longrightarrow> t' = t + sum_list (map (\<lambda>x. usage_charge (snd x)) ds)"
  by (induction n ds c t rule: scan_usage.induct) (auto split: if_splits)

lemma held_charge: "dir_ok d \<Longrightarrow> held d \<le> usage_charge d"
  by (auto simp: dir_ok_def held_def usage_charge_def split: sum.splits)

lemma sum_le_charge:
  assumes "dirs_ok s"
  shows "dirs_sum (of_session k) held s \<le> sum_list (map (\<lambda>x. usage_charge (snd x)) (session_dirs k s))"
    "dirs_sum (of_project p) held s \<le> sum_list (map (\<lambda>x. usage_charge (snd x)) (project_dirs p s))"
proof -
  have gen: "sum_list (map (\<lambda>x. held (snd x)) (filter (\<lambda>x. P (fst x)) al)) \<le>
      sum_list (map (\<lambda>x. usage_charge (snd x)) (filter (\<lambda>x. P (fst x) \<and> is_attachment_id (snd (fst x))) al))"
    if "\<forall>x \<in> set al. is_attachment_id (snd (fst x)) \<and> dir_ok (snd x)" for P and al :: "((session_key \<times> string) \<times> att_dir) list"
    using that by (induction al) (auto intro!: add_mono held_charge)
  show "dirs_sum (of_session k) held s \<le> sum_list (map (\<lambda>x. usage_charge (snd x)) (session_dirs k s))"
    using gen [OF assms [unfolded dirs_ok_def], of "of_session k"]
    by (simp add: dirs_sum_def session_dirs_def of_session_def comp_def split_def)
  show "dirs_sum (of_project p) held s \<le> sum_list (map (\<lambda>x. usage_charge (snd x)) (project_dirs p s))"
    using gen [OF assms [unfolded dirs_ok_def], of "of_project p"]
    by (simp add: dirs_sum_def project_dirs_def of_project_def comp_def split_def)
qed

lemma quota_room:
  assumes "enforce_quota k bytes s = None" "dirs_ok s"
  shows "dirs_sum (of_session k) held s + bytes \<le> MAX_SESSION_ATTACHMENT_BYTES"
    "dirs_sum (of_project (fst k)) held s + bytes \<le> MAX_PROJECT_ATTACHMENT_BYTES"
  using assms(1) sum_le_charge(1) [OF assms(2), of k] sum_le_charge(2) [OF assms(2), of "fst k"]
  by (auto simp: enforce_quota_def dest!: scan_total split: sum.splits prod.splits if_splits)

lemma quota_smaller:
  assumes "quota_inv s" "dirs_ok s'" "\<And>P. dirs_sum P held s' \<le> dirs_sum P held s"
  shows "quota_inv s'"
  using assms unfolding quota_inv_def by (meson order_trans)

lemma put_ok: "dirs_ok s \<Longrightarrow> is_attachment_id (snd k) \<Longrightarrow> dir_ok d \<Longrightarrow> dirs_ok (put_dir k d s)"
  by (auto simp: dirs_ok_def dest!: dirs_put)

lemma drop_ok: "dirs_ok s \<Longrightarrow> dirs_ok (drop_dir k s)"
  by (auto simp: dirs_ok_def dest: dirs_drop)

lemma change_quota:
  assumes "store_change env stops ab s s'" "digest_ok env" "quota_inv s"
  shows "quota_inv s'"
  using assms(1)
proof cases
  case (sc_dir k d d')
  have ok: "dirs_ok s" "is_attachment_id (snd k)" "dir_ok d"
    using assms(3) dir_at_in [OF sc_dir(2)] by (auto simp: quota_inv_def dirs_ok_def)
  show ?thesis unfolding sc_dir(1)
  proof (rule quota_smaller [OF assms(3)])
    show "dirs_ok (put_dir k d' s)" by (rule put_ok [OF ok(1,2) change_dir_ok [OF sc_dir(3) assms(2) ok(3)]])
    show "dirs_sum P held (put_dir k d' s) \<le> dirs_sum P held s" for P
      by (rule dirs_sum_put [OF sc_dir(2)]) (use change_held [OF sc_dir(3) assms(2)] in simp)
  qed
next
  case (sc_remove k d)
  have ok: "dirs_ok s" "is_attachment_id (snd k)" "dir_ok d"
    using assms(3) dir_at_in [OF sc_remove(1)] by (auto simp: quota_inv_def dirs_ok_def)
  from sc_remove(4) consider "s' = drop_dir k s" | d' where "d' \<in> set (partly_removed d)" "s' = put_dir k d' s"
    by (auto simp: in_remove_tree)
  then show ?thesis
  proof cases
    case 1
    show ?thesis unfolding 1 by (rule quota_smaller [OF assms(3) drop_ok [OF ok(1)] dirs_sum_drop])
  next
    case (2 d')
    note p = partly_removed_ok [OF ok(3) 2(1)]
    show ?thesis unfolding 2(2)
      by (rule quota_smaller [OF assms(3) put_ok [OF ok(1,2) p(1)] dirs_sum_put [OF sc_remove(1) p(2)]])
  qed
next
  case (sc_begin i k bytes m d now)
  have ok: "dirs_ok s" using assms(3) by (simp add: quota_inv_def)
  note new = new_dir_ok [OF sc_begin(6,9)]
  note room = quota_room [OF sc_begin(5) ok]
  have s': "s' = (put_dir (k, i) d s)\<lparr>as_issued := i # as_issued s\<rparr>" using sc_begin(1) by (simp add: put_issued)
  have "dirs_ok s'" using put_ok [OF ok, of "(k, i)" d] sc_begin(3) new(1) by (simp add: s' dirs_ok_def)
  moreover have "dirs_sum (of_session k') held s' \<le> MAX_SESSION_ATTACHMENT_BYTES" for k'
    using room(1) new(2) assms(3) sc_begin(7)
    by (auto simp: s' dirs_sum_new [OF sc_begin(4)] of_session_def quota_inv_def simp del: split_paired_All)
  moreover have "dirs_sum (of_project p) held s' \<le> MAX_PROJECT_ATTACHMENT_BYTES" for p
    using room(2) new(2) assms(3) sc_begin(7)
    by (auto simp: s' dirs_sum_new [OF sc_begin(4)] of_project_def quota_inv_def)
  ultimately show ?thesis by (simp add: quota_inv_def)
qed

inductive is_empty_store :: "att_store \<Rightarrow> bool" where
  "is_empty_store empty_store"

interpretation attachment_quota: inv_system is_empty_store "store_change env stops ab" "\<lambda>s. digest_ok env \<longrightarrow> quota_inv s" for env stops ab
proof
  show "is_empty_store s \<Longrightarrow> digest_ok env \<longrightarrow> quota_inv s" for s
    by (auto simp: is_empty_store.simps quota_inv_def dirs_ok_def dirs_sum_def empty_store_def)
  show "digest_ok env \<longrightarrow> quota_inv s \<Longrightarrow> store_change env stops ab s t \<Longrightarrow> digest_ok env \<longrightarrow> quota_inv t" for s t
    by (blast intro: change_quota)
qed

lemma keys_empty: "keys_ok empty_store"
  by (simp add: keys_ok_def empty_store_def)

lemma calls_from_empty:
  assumes "digest_ok env" "att_calls env cs empty_store s"
  shows "quota_inv s" "keys_ok s"
proof -
  note run = calls_changes [OF assms(2) keys_empty]
  from attachment_quota.run_inv [OF run] assms(1) show "quota_inv s"
    using attachment_quota.init_inv [of empty_store] is_empty_store.intros by blast
  show "keys_ok s" by (rule changes_keys [OF run keys_empty])
qed

text \<open>
  C34: The bytes on disk stay within the caps. Whatever calls ran on an empty store, and wherever each of
  them stopped, the bytes received and stored for a session, and for a project, are within their cap.
\<close>

theorem bytes_within_quota:
  assumes "digest_ok env" "att_calls env cs empty_store s"
  shows "dirs_sum (of_session k) dir_bytes s \<le> MAX_SESSION_ATTACHMENT_BYTES \<and>
    dirs_sum (of_project p) dir_bytes s \<le> MAX_PROJECT_ATTACHMENT_BYTES"
proof -
  note inv = calls_from_empty(1) [OF assms]
  have le: "sum_list (map (\<lambda>x. dir_bytes (snd x)) (filter (\<lambda>x. P (fst x)) al)) \<le>
      sum_list (map (\<lambda>x. held (snd x)) (filter (\<lambda>x. P (fst x)) al))"
    if "\<forall>x \<in> set al. dir_ok (snd x)" for P and al :: "((session_key \<times> string) \<times> att_dir) list"
    using that by (induction al) (auto simp: dir_ok_def intro!: add_mono)
  have "dirs_sum P dir_bytes s \<le> dirs_sum P held s" for P
    unfolding dirs_sum_def using inv by (intro le) (auto simp: quota_inv_def dirs_ok_def)
  with inv show ?thesis unfolding quota_inv_def by (meson order_trans)
qed

section \<open>A finished attachment stays\<close>

lemma final_kept:
  assumes "store_change env stops ab s s'" "dir_at s k = Some d" "read_meta d = Inr m" "am_finalized m"
  shows "dir_at s' k = Some d"
  using assms(1)
proof cases
  case (sc_dir k' d' d'')
  have "k' \<noteq> k" using sc_dir(3) assms sc_dir(2) by (auto elim!: dir_change.cases)
  with assms(2) show ?thesis by (simp add: sc_dir(1) dir_at_put)
next
  case (sc_remove k' d')
  have "k' \<noteq> k" using sc_remove(1,2) assms by (auto simp: removable_def)
  with assms(2) sc_remove(4) show ?thesis by (auto simp: in_remove_tree dir_at_put dir_at_drop)
next
  case (sc_begin i k' bytes m' d' now)
  with assms(2) have "(k', i) \<noteq> k" by auto
  with assms(2) show ?thesis by (simp add: sc_begin(1) dir_at_put)
qed

lemma final_stays:
  assumes "(store_change env stops ab)\<^sup>*\<^sup>* s s'" "dir_at s k = Some d" "read_meta d = Inr m" "am_finalized m"
  shows "dir_at s' k = Some d"
  using assms(1) by (induction rule: rtranclp_induct) (auto intro: assms final_kept [OF _ _ assms(3,4)])

lemma last_put:
  "dir_at s k = Some d \<Longrightarrow> last_state s (map (\<lambda>d'. put_dir k d' s) ds) = put_dir k (last (d # ds)) s"
  by (induction ds rule: rev_induct) (simp_all add: last_state_def put_same)

text \<open>What a reader finds: a directory that is final and holds the bytes.\<close>

definition payload_at :: "att_store \<Rightarrow> session_key \<times> string \<Rightarrow> session_ref \<Rightarrow> att_meta \<Rightarrow> bytes \<Rightarrow> bool" where
  "payload_at s k session m data \<longleftrightarrow>
     (\<exists>d. dir_at s k = Some d \<and> open_upload session (snd k) d = Inr m \<and> am_finalized m \<and>
          ad_data d = Some data \<and> length data = am_size m)"

lemma payload_stays:
  assumes "(store_change env stops ab)\<^sup>*\<^sup>* s s'" "payload_at s k session m data"
  shows "payload_at s' k session m data"
proof -
  from assms(2) obtain d where d: "dir_at s k = Some d" "open_upload session (snd k) d = Inr m" "am_finalized m"
      "ad_data d = Some data" "length data = am_size m" by (auto simp: payload_at_def)
  with final_stays [OF assms(1) d(1) open_upload_meta [OF d(2), THEN conjunct1] d(3)]
  show ?thesis by (auto simp: payload_at_def)
qed

text \<open>A finish that is answered: the bytes received become the payload, and the metadata tells their digest.\<close>

lemma finish_answered:
  assumes "finish_attachment env now stamp \<lparr>fa_ref = ref, fa_expected_size = PInt n, fa_expected_mime = mime\<rparr> s =
      (Inr res, ws)" "stamp \<noteq> []" "digest_ok env"
  obtains i d m where "validate_attachment_ref ref = Inr i" "dir_at s (session_dir env (ar_session ref), i) = Some d"
    "ad_data d = None" "length (part_bytes d) = nat n"
    "payload_at (last_state s ws) (session_dir env (ar_session ref), i) (ar_session ref) m (part_bytes d)"
    "am_revision m = Some (en_digest env (part_bytes d))" "fr_size res = nat n"
    "fr_revision res = en_digest env (part_bytes d)"
proof -
  from assms(1) obtain i size1 mime1 where v: "validate_finish_command \<lparr>fa_ref = ref, fa_expected_size = PInt n,
      fa_expected_mime = mime\<rparr> = Inr (i, size1, mime1)"
    by (auto simp: finish_attachment_def split: sum.splits)
  then have i: "validate_attachment_ref ref = Inr i" "size1 = nat n"
    by (auto simp: validate_finish_command_def validate_size_def split: sum.splits if_splits)
  define k where "k = (session_dir env (ar_session ref), i)"
  define f where "f = finish_dir env now stamp (ar_session ref) i size1 mime1"
  from assms(1) v have at: "at_dir k f s = (Inr res, ws)" by (simp add: finish_attachment_def k_def f_def Let_def)
  then obtain d ds where d: "dir_at s k = Some d" "f d = (Inr res, ds)" "ws = map (\<lambda>d'. put_dir k d' s) ds"
    by (auto simp: at_dir_def split: option.splits prod.splits)
  show ?thesis
  proof (cases rule: finish_cases [OF d(2) [unfolded f_def] assms(2), case_names failed stored])
    case (stored m v b t)
    define d2 where "d2 = d\<lparr>ad_part := None, ad_data := Some b\<rparr>"
    define m2 where "m2 = finalized_meta env stamp b v m"
    note meta = open_upload_meta [OF stored(1)]
    have wf: "wf_meta m2" unfolding m2_def
      by (rule wf_finalized_meta [OF assms(3) read_meta_wf [OF meta [THEN conjunct1]] assms(2) stored(7)])
    have last: "last_state s ws = put_dir k (write_meta now m2 d2) s"
      unfolding d(3) last_put [OF d(1)] using stored(9) by (simp add: m2_def d2_def)
    have part: "part_bytes d = b" using stored(4) by (simp add: part_bytes_def)
    have "open_upload (ar_session ref) i (write_meta now m2 d2) = Inr m2"
      using wf meta by (simp add: open_upload_def check_owner_def m2_def finalized_meta_def)
    then have "payload_at (last_state s ws) k (ar_session ref) m2 b"
      using stored(5) by (simp add: payload_at_def last dir_at_put k_def d2_def m2_def)
    moreover have "am_revision m2 = Some (en_digest env b)" by (simp add: m2_def finalized_meta_def)
    ultimately show ?thesis
      using i(1) d(1) stored(3,5,6,8) i(2) part by (intro that [of i d m2]) (simp_all add: k_def)
  qed (use assms in simp_all)
qed

section \<open>Reading back what was uploaded\<close>

lemma read_window:
  assumes "validate_attachment_ref ref = Inr i"
    "payload_at s (session_dir env (ar_session ref), i) (ar_session ref) m data" "offset \<le> length data"
    "MIN_READ_BYTES \<le> limit" "limit \<le> MAX_READ_BYTES"
  shows "read_attachment env now stamp \<lparr>ra_ref = ref, ra_offset = PInt (int offset), ra_limit = PInt limit\<rparr> s =
    (Inr \<lparr>ck_offset = offset, ck_data_base64 = b64_encode (take (nat limit) (drop offset data)),
       ck_byte_length = length (take (nat limit) (drop offset data)),
       ck_next_offset = offset + length (take (nat limit) (drop offset data)),
       ck_eof = (length data \<le> offset + length (take (nat limit) (drop offset data))),
       ck_metadata = metadata_of m\<rparr>, [])"
proof -
  from assms(2) obtain d where d: "dir_at s (session_dir env (ar_session ref), i) = Some d"
      "open_upload (ar_session ref) i d = Inr m" "am_finalized m" "ad_data d = Some data" "length data = am_size m"
    by (auto simp: payload_at_def)
  have v: "validate_read_query \<lparr>ra_ref = ref, ra_offset = PInt (int offset), ra_limit = PInt limit\<rparr> =
      Inr (i, offset, nat limit)"
    using assms by (simp add: validate_read_query_def)
  have t: "take n (take (n + 1) xs) = take n xs" for n and xs :: bytes by (simp add: min_def)
  show ?thesis
    using assms(3) d
    by (simp add: read_attachment_def v Let_def at_dir_def read_dir_def load_upload_def open_data_def t)
qed

text \<open>A client that reads windows of \<open>limit\<close> bytes until it is told of the end.\<close>

fun read_all ::
  "att_env \<Rightarrow> rat \<Rightarrow> string \<Rightarrow> attachment_ref \<Rightarrow> int \<Rightarrow> nat \<Rightarrow> nat \<Rightarrow> att_store \<Rightarrow> bytes option" where
  "read_all env now stamp ref limit 0 offset s = None"
| "read_all env now stamp ref limit (Suc fuel) offset s =
     (case read_attachment env now stamp \<lparr>ra_ref = ref, ra_offset = PInt (int offset), ra_limit = PInt limit\<rparr> s of
        (Inl _, _) \<Rightarrow> None
      | (Inr chunk, ws) \<Rightarrow>
          (case b64_decode (ck_data_base64 chunk) of
             None \<Rightarrow> None
           | Some data \<Rightarrow>
               if ck_eof chunk then Some data
               else map_option ((@) data)
                 (read_all env now stamp ref limit fuel (ck_next_offset chunk) (last_state s ws))))"

lemma read_all_data:
  assumes "validate_attachment_ref ref = Inr i"
    "payload_at s (session_dir env (ar_session ref), i) (ar_session ref) m data"
    "MIN_READ_BYTES \<le> limit" "limit \<le> MAX_READ_BYTES"
  shows "offset \<le> length data \<Longrightarrow> length data - offset < fuel \<Longrightarrow>
    read_all env now stamp ref limit fuel offset s = Some (drop offset data)"
proof (induction fuel arbitrary: offset)
  case (Suc fuel)
  define w where "w = take (nat limit) (drop offset data)"
  note window = read_window [OF assms(1,2) Suc.prems(1) assms(3,4), of now stamp, folded w_def]
  show ?case
  proof (cases "length data \<le> offset + length w")
    case True
    then have "w = drop offset data" using Suc.prems(1) unfolding w_def by (intro take_all) (simp add: min_def split: if_splits)
    with True show ?thesis by (simp add: window b64_roundtrip)
  next
    case False
    have pos: "0 < nat limit" using assms(3) by (simp add: MIN_READ_BYTES_def)
    have len: "length w = nat limit" using False by (simp add: w_def min_def split: if_splits)
    have "read_all env now stamp ref limit fuel (offset + length w) s = Some (drop (offset + length w) data)"
      by (rule Suc.IH) (use False Suc.prems(2) pos len in linarith)+
    moreover have "drop (offset + length w) data = drop (nat limit) (drop offset data)"
      by (simp add: len add.commute)
    then have "w @ drop (offset + length w) data = drop offset data" by (simp only: w_def append_take_drop_id)
    ultimately show ?thesis using False by (simp add: window b64_roundtrip)
  qed
qed simp

text \<open>
  An upload: a begin that was answered in a reachable store, the chunks that were accepted at the offset
  behind the previous ones, and in between whatever other calls that completed.
\<close>

inductive uploading :: "att_env \<Rightarrow> attachment_ref \<Rightarrow> bytes list \<Rightarrow> att_store \<Rightarrow> bool" for env ref where
  up_begin: "att_calls env cs empty_store s \<Longrightarrow> stamp \<noteq> [] \<Longrightarrow> fresh_call (CallBegin ids c) s \<Longrightarrow>
    begin_attachment env now stamp ids c s = (Inr r, ws) \<Longrightarrow> br_ref r = ref \<Longrightarrow>
    uploading env ref [] (last_state s ws)"
| up_other: "uploading env ref chunks s \<Longrightarrow> stamp \<noteq> [] \<Longrightarrow> fresh_call c s \<Longrightarrow>
    uploading env ref chunks (last_state s (call_writes env now stamp c s))"
| up_chunk: "uploading env ref chunks s \<Longrightarrow> stamp \<noteq> [] \<Longrightarrow>
    append_attachment_chunk env now stamp \<lparr>ac_ref = ref, ac_expected_offset = PInt (int (length (concat chunks))),
      ac_data_base64 = PStr (b64_encode chunk)\<rparr> s = (Inr r, ws) \<Longrightarrow>
    uploading env ref (chunks @ [chunk]) (last_state s ws)"

definition content :: "att_dir \<Rightarrow> bytes" where
  "content d = (case ad_data d of None \<Rightarrow> part_bytes d | Some x \<Rightarrow> x)"

definition upload_inv :: "session_key \<times> string \<Rightarrow> bytes \<Rightarrow> att_store \<Rightarrow> bool" where
  "upload_inv k sent s \<longleftrightarrow> snd k \<in> set (as_issued s) \<and> (\<forall>d. dir_at s k = Some d \<longrightarrow> prefix sent (content d))"

lemma change_content: "dir_change env d d' \<Longrightarrow> prefix (content d) (content d')"
  by (induction rule: dir_change.induct) (auto simp: content_def part_bytes_def)

lemma change_upload:
  assumes "store_change env False ab s s'" "upload_inv k sent s"
  shows "upload_inv k sent s'"
  using assms(1)
proof cases
  case (sc_dir k' d d')
  with assms(2) change_content [OF sc_dir(3)] show ?thesis
    by (auto simp: upload_inv_def dir_at_put intro: prefix_order.trans)
next
  case (sc_remove k' d)
  with assms(2) show ?thesis by (auto simp: upload_inv_def in_remove_tree dir_at_drop)
next
  case (sc_begin i k' bytes m d now)
  with assms(2) have "(k', i) \<noteq> k" by (auto simp: upload_inv_def)
  with assms(2) show ?thesis by (auto simp: upload_inv_def sc_begin(1) dir_at_put)
qed

lemma changes_upload: "(store_change env False ab)\<^sup>*\<^sup>* s s' \<Longrightarrow> upload_inv k sent s \<Longrightarrow> upload_inv k sent s'"
  by (induction rule: rtranclp_induct) (auto intro: change_upload)

lemma append_answered:
  assumes "append_dir env now stamp session i offset chunk d = (Inr r, ds)" "stamp \<noteq> []"
  shows "length (part_bytes d) = offset" "ad_data d = None" "content (last (d # ds)) = part_bytes d @ chunk"
proof -
  from assms(1) obtain m where m: "open_upload session i d = Inr m"
    by (auto simp: append_dir_def split: sum.splits)
  obtain r0 ws where r: "recover_finalized env now stamp m d = (r0, ws)" by fastforce
  have "length (part_bytes d) = offset \<and> ad_data d = None \<and> content (last (d # ds)) = part_bytes d @ chunk"
  proof (cases rule: recover_cases [OF r open_upload_meta [OF m, THEN conjunct1] assms(2), case_names same failed recovered])
    case same
    with assms(1) m r have nf: "\<not> am_finalized m" by (auto simp: append_dir_def)
    define opened where "opened = (if ad_part d = None then d\<lparr>ad_part := Some ([], now)\<rparr> else d)"
    have "length (part_bytes d) = offset" "ds = opened # map (\<lambda>n. opened\<lparr>ad_part := Some (part_bytes d @ take n chunk, now)\<rparr>)
        [0..<length chunk + 1]"
      using assms(1) m r same nf by (auto simp: append_dir_def Let_def opened_def simp del: upt_Suc split: if_splits)
    then show ?thesis using same nf by (simp add: content_def opened_def)
  qed (use assms(1) m r in \<open>simp_all add: append_dir_def\<close>)
  then show "length (part_bytes d) = offset" "ad_data d = None" "content (last (d # ds)) = part_bytes d @ chunk"
    by simp_all
qed

lemma begin_answered:
  assumes "begin_attachment env now stamp ids c s = (Inr r, ws)" "fresh_call (CallBegin ids c) s"
  obtains i where "ar_attachment_id (br_ref r) = PStr i" "is_attachment_id i" "ar_session (br_ref r) = ba_session c"
    "i \<in> set (as_issued (last_state s ws))" "validate_session_ref (ba_session c) = None"
    "\<exists>d. dir_at (last_state s ws) (session_dir env (ba_session c), i) = Some d \<and> content d = []"
proof -
  from assms(1) obtain bytes mime name where v: "validate_begin_command c = Inr (bytes, mime, name)"
    by (auto simp: begin_attachment_def split: sum.splits)
  define k where "k = session_dir env (ba_session c)"
  obtain rn ws1 where sw: "sweep_session env (now - of_nat INCOMPLETE_TTL_SECONDS) DEFAULT_SWEEP_ENTRIES 0 k s = (rn, ws1)"
    by fastforce
  define s1 where "s1 = last_state s ws1"
  from assms(1) obtain i where i: "new_attachment_id k ids s1 = Some i"
    and r: "br_ref r = \<lparr>ar_session = ba_session c, ar_attachment_id = PStr i\<rparr>"
    and ws: "ws = ws1 @ [(put_dir (k, i) empty_dir s1)\<lparr>as_issued := i # as_issued s1\<rparr>,
        put_dir (k, i) (write_meta now (new_meta i (ba_session c) bytes mime name stamp) empty_dir)
          ((put_dir (k, i) empty_dir s1)\<lparr>as_issued := i # as_issued s1\<rparr>)]"
    by (auto simp: begin_attachment_def v Let_def k_def [symmetric] sw s1_def [symmetric] split: option.splits)
  have last: "last_state s ws = put_dir (k, i) (write_meta now (new_meta i (ba_session c) bytes mime name stamp) empty_dir)
      ((put_dir (k, i) empty_dir s1)\<lparr>as_issued := i # as_issued s1\<rparr>)"
    unfolding ws by (simp add: last_state_def)
  have "i \<in> set ids" using i by (auto simp: new_attachment_id_def find_Some_iff dest: in_set_takeD nth_mem)
  with assms(2) have "is_attachment_id i" by simp
  moreover have "validate_session_ref (ba_session c) = None"
    using v by (auto simp: validate_begin_command_def split: option.splits)
  ultimately show ?thesis
    by (intro that [of i]) (simp_all add: r last dir_at_put k_def content_def part_bytes_def empty_dir_def write_meta_def)
qed

lemma upload_facts:
  assumes "uploading env ref chunks s" "digest_ok env"
  obtains i where "validate_attachment_ref ref = Inr i" "keys_ok s"
    "upload_inv (session_dir env (ar_session ref), i) (concat chunks) s"
proof -
  have "\<exists>i. validate_attachment_ref ref = Inr i \<and> keys_ok s \<and>
      upload_inv (session_dir env (ar_session ref), i) (concat chunks) s"
    using assms(1)
  proof induction
    case (up_begin cs s stamp ids c now r ws)
    note keys = calls_from_empty(2) [OF assms(2) up_begin(1)]
    have "(store_change env False UNIV)\<^sup>*\<^sup>* s (last_state s ws)"
      by (rule begin_changes_store [OF keys up_begin(2,3), of _ env now]) (simp add: outcome_def up_begin(4))
    from changes_keys [OF this keys] begin_answered [OF up_begin(4,3)] up_begin(5) show ?case
      by (force simp: validate_attachment_ref_def validate_attachment_id_def is_attachment_id_def upload_inv_def)
  next
    case (up_other chunks s stamp c now)
    then obtain i where i: "validate_attachment_ref ref = Inr i" "keys_ok s"
        "upload_inv (session_dir env (ar_session ref), i) (concat chunks) s" by blast
    have "(store_change env False UNIV)\<^sup>*\<^sup>* s (last_state s (call_writes env now stamp c s))"
      by (rule call_changes [OF i(2) up_other(2,3)]) (simp_all add: outcome_def)
    with i changes_keys [OF this i(2)] changes_upload [OF this i(3)] show ?case by blast
  next
    case (up_chunk chunks s stamp now chunk r ws)
    then obtain i where i: "validate_attachment_ref ref = Inr i" "keys_ok s"
        "upload_inv (session_dir env (ar_session ref), i) (concat chunks) s" by blast
    define k where "k = (session_dir env (ar_session ref), i)"
    define f where "f = append_dir env now stamp (ar_session ref) i (length (concat chunks)) chunk"
    have "decode_chunk_base64 (b64_encode chunk) = Inr x \<Longrightarrow> x = chunk" for x
      by (auto simp: decode_chunk_base64_def b64_roundtrip split: if_splits)
    with up_chunk(3) i(1) have at: "at_dir k f s = (Inr r, ws)"
      by (auto simp: append_attachment_chunk_def validate_append_command_def k_def f_def Let_def split: sum.splits if_splits)
    then obtain d ds where d: "dir_at s k = Some d" "f d = (Inr r, ds)" "ws = map (\<lambda>d'. put_dir k d' s) ds"
      by (auto simp: at_dir_def split: option.splits prod.splits)
    note a = append_answered [OF d(2) [unfolded f_def] up_chunk(2)]
    have "prefix (concat chunks) (part_bytes d)" using i(3) d(1) a(2) by (auto simp: upload_inv_def k_def content_def)
    with a(1) have "part_bytes d = concat chunks" by (auto simp: prefix_def)
    with a(3) have "upload_inv k (concat (chunks @ [chunk])) (last_state s ws)"
      using i(3) unfolding d(3) last_put [OF d(1)] by (auto simp: upload_inv_def dir_at_put k_def)
    moreover have "keys_ok (last_state s ws)" unfolding d(3) last_put [OF d(1)] by (rule keys_put [OF i(2)])
    ultimately show ?case using i(1) by (auto simp: k_def)
  qed
  then show ?thesis using that by blast
qed

text \<open>
  C10: What was uploaded is what is read back. When the chunks of an upload have been accepted, whatever other
  calls ran in between, and the finish with their total length has been answered, then after any calls,
  wherever they stopped, a reader of windows of any size gets exactly the chunks, and the revision is the
  digest of them.
\<close>

theorem upload_reads_back:
  assumes "digest_ok env" "uploading env ref chunks s" "stamp \<noteq> []"
    "finish_attachment env now stamp
       \<lparr>fa_ref = ref, fa_expected_size = PInt (int (length (concat chunks))), fa_expected_mime = mime\<rparr> s = (Inr res, ws)"
    "att_calls env calls (last_state s ws) s'" "MIN_READ_BYTES \<le> limit" "limit \<le> MAX_READ_BYTES"
    "length (concat chunks) < fuel"
  shows "read_all env now' stamp' ref limit fuel 0 s' = Some (concat chunks) \<and>
    fr_revision res = en_digest env (concat chunks) \<and> fr_size res = length (concat chunks)"
proof -
  from assms(2,1) obtain i where i: "validate_attachment_ref ref = Inr i" "keys_ok s"
      "upload_inv (session_dir env (ar_session ref), i) (concat chunks) s" by (rule upload_facts)
  from assms(4,3,1) obtain j d m where f: "validate_attachment_ref ref = Inr j"
      "dir_at s (session_dir env (ar_session ref), j) = Some d" "ad_data d = None"
      "length (part_bytes d) = nat (int (length (concat chunks)))"
      "payload_at (last_state s ws) (session_dir env (ar_session ref), j) (ar_session ref) m (part_bytes d)"
      "fr_size res = nat (int (length (concat chunks)))" "fr_revision res = en_digest env (part_bytes d)"
    by (rule finish_answered)
  have j: "j = i" using f(1) i(1) by simp
  have "prefix (concat chunks) (part_bytes d)" using i(3) f(2,3) by (auto simp: upload_inv_def j content_def)
  with f(4) have all: "part_bytes d = concat chunks" by (auto simp: prefix_def)
  have "(store_change env False UNIV)\<^sup>*\<^sup>* s (last_state s ws)"
    by (rule call_changes [OF i(2) assms(3), where c = "CallFinish \<lparr>fa_ref = ref,
        fa_expected_size = PInt (int (length (concat chunks))), fa_expected_mime = mime\<rparr>" and now = now])
      (simp_all add: outcome_def assms(4))
  from payload_stays [OF calls_changes [OF assms(5) changes_keys [OF this i(2)]] f(5)]
  have "payload_at s' (session_dir env (ar_session ref), i) (ar_session ref) m (concat chunks)" by (simp add: j all)
  from read_all_data [OF i(1) this assms(6,7), of 0] assms(8) f(6,7) all show ?thesis by simp
qed

section \<open>A finish that stops halfway\<close>

text \<open>
  From the rename on, the payload is there and the metadata is either the declaration or the completed
  one, whoever completed it.
\<close>

definition committed ::
  "att_env \<Rightarrow> att_store \<Rightarrow> session_key \<times> string \<Rightarrow> session_ref \<Rightarrow> att_meta \<Rightarrow> bytes \<Rightarrow> bool" where
  "committed env s k session m data \<longleftrightarrow>
     \<not> am_finalized m \<and> length data = am_size m \<and>
     (\<exists>d v. dir_at s k = Some d \<and> ad_data d = Some data \<and>
        validate_image_payload (en_decoder env) data (am_mime m) = Inr v \<and>
        (open_upload session (snd k) d = Inr m \<or>
         (\<exists>stamp. open_upload session (snd k) d = Inr (finalized_meta env stamp data v m))))"

lemma open_written:
  "wf_meta m \<Longrightarrow> am_attachment_id m = i \<Longrightarrow> am_project_id m = project_id session \<Longrightarrow>
     am_thread_id m = thread_id session \<Longrightarrow> open_upload session i (write_meta now m d) = Inr m"
  by (simp add: open_upload_def check_owner_def)

lemma finalized_meta_ids [simp]:
  "am_attachment_id (finalized_meta env stamp data v m) = am_attachment_id m"
  "am_project_id (finalized_meta env stamp data v m) = am_project_id m"
  "am_thread_id (finalized_meta env stamp data v m) = am_thread_id m"
  "am_revision (finalized_meta env stamp data v m) = Some (en_digest env data)"
  by (simp_all add: finalized_meta_def)

lemma committed_stays:
  assumes "store_change env stops ab s s'" "committed env s k session m data" "digest_ok env"
  shows "committed env s' k session m data"
proof -
  from assms(2) obtain d v where nf: "\<not> am_finalized m" "length data = am_size m"
    and d: "dir_at s k = Some d" "ad_data d = Some data"
    and v: "validate_image_payload (en_decoder env) data (am_mime m) = Inr v"
    and up: "open_upload session (snd k) d = Inr m \<or>
      (\<exists>stamp. open_upload session (snd k) d = Inr (finalized_meta env stamp data v m))"
    unfolding committed_def by blast
  have same: "committed env s' k session m data" if "dir_at s' k = Some d"
    using nf d v up that unfolding committed_def by blast
  from assms(1) show ?thesis
  proof cases
    case (sc_dir k' d' d'')
    show ?thesis
    proof (cases "k' = k")
      case True
      with d sc_dir(2) have "d' = d" by simp
      from sc_dir(3) show ?thesis
      proof cases
        case (dc_finalize m1 data1 v1 stamp now)
        have eq: "data1 = data" using dc_finalize(4) d(2) \<open>d' = d\<close> by simp
        have rm: "read_meta d = Inr m1" "\<not> am_finalized m1" using dc_finalize(2,3) \<open>d' = d\<close> by simp_all
        have op: "open_upload session (snd k) d = Inr m"
          using up
        proof (elim disjE exE)
          fix stamp assume "open_upload session (snd k) d = Inr (finalized_meta env stamp data v m)"
          from open_upload_meta [OF this] rm show ?thesis by simp
        qed
        have m1: "m1 = m" using open_upload_meta [OF op] rm by simp
        have "v1 = v" using dc_finalize(6) v by (simp add: m1 eq)
        have wf: "wf_meta (finalized_meta env stamp data v m)"
          by (rule wf_finalized_meta [OF assms(3) read_meta_wf [OF open_upload_meta [OF op, THEN conjunct1]] dc_finalize(7) v])
        have "open_upload session (snd k) (write_meta now (finalized_meta env stamp data v m) d) =
            Inr (finalized_meta env stamp data v m)"
          by (rule open_written [OF wf]) (use open_upload_meta [OF op] in simp_all)
        moreover have "dir_at s' k = Some (write_meta now (finalized_meta env stamp data v m) d)"
          unfolding sc_dir(1) True dir_at_put dc_finalize(1) \<open>d' = d\<close> m1 eq \<open>v1 = v\<close> by simp
        moreover have "ad_data (write_meta now (finalized_meta env stamp data v m) d) = Some data" using d(2) by simp
        ultimately show ?thesis using nf v unfolding committed_def by blast
      qed (use d \<open>d' = d\<close> in simp_all)
    next
      case False
      with d show ?thesis by (intro same) (simp add: sc_dir(1) dir_at_put)
    qed
  next
    case (sc_remove k' d')
    have "k' \<noteq> k" using sc_remove(1,2) d by (auto simp: removable_def)
    with d sc_remove(4) show ?thesis by (intro same) (auto simp: in_remove_tree dir_at_put dir_at_drop)
  next
    case (sc_begin i k' bytes m' d' now)
    with d have "(k', i) \<noteq> k" by auto
    with d show ?thesis by (intro same) (simp add: sc_begin(1) dir_at_put)
  qed
qed

text \<open>The next look at the attachment completes it.\<close>

lemma committed_stat:
  assumes "committed env s k session m data" "validate_attachment_ref ref = Inr (snd k)" "session = ar_session ref"
    "fst k = session_dir env session" "stamp \<noteq> []" "digest_ok env"
  obtains md ws m' where "stat_attachment env now stamp ref s = (Inr md, ws)" "md_finalized md"
    "md_revision md = Some (en_digest env data)" "md_size md = length data"
    "payload_at (last_state s ws) k session m' data"
proof -
  from assms(1) obtain d v where nf: "\<not> am_finalized m" "length data = am_size m"
    and d: "dir_at s k = Some d" "ad_data d = Some data"
    and v: "validate_image_payload (en_decoder env) data (am_mime m) = Inr v"
    and up: "open_upload session (snd k) d = Inr m \<or>
      (\<exists>stamp. open_upload session (snd k) d = Inr (finalized_meta env stamp data v m))"
    unfolding committed_def by blast
  have k: "(session_dir env (ar_session ref), snd k) = k" using assms(3,4) by (metis prod.collapse)
  have stat: "stat_attachment env now stamp ref s = at_dir k (stat_dir env now stamp session (snd k)) s"
    using assms(2,3) k by (simp add: stat_attachment_def)
  from up show ?thesis
  proof
    assume op: "open_upload session (snd k) d = Inr m"
    define m' where "m' = finalized_meta env stamp data v m"
    have wf: "wf_meta m'" unfolding m'_def
      by (rule wf_finalized_meta [OF assms(6) read_meta_wf [OF open_upload_meta [OF op, THEN conjunct1]] assms(5) v])
    have t: "take (am_size m + 1) data = data" using nf(2) by simp
    have "stat_dir env now stamp session (snd k) d = (Inr (metadata_of m'), [write_meta now m' d])"
      unfolding stat_dir_def load_upload_def op recover_finalized_def d(2) Let_def
      by (simp add: nf t v open_data_def m'_def [symmetric] d(2)) (simp add: m'_def)
    with stat d(1) have st: "stat_attachment env now stamp ref s = (Inr (metadata_of m'), [put_dir k (write_meta now m' d) s])"
      by (simp add: at_dir_def)
    have "open_upload session (snd k) (write_meta now m' d) = Inr m'"
      by (rule open_written [OF wf]) (use open_upload_meta [OF op] in \<open>simp_all add: m'_def\<close>)
    then have "payload_at (last_state s [put_dir k (write_meta now m' d) s]) k session m' data"
      using nf d by (simp add: payload_at_def last_state_def dir_at_put m'_def)
    with st nf show ?thesis by (intro that [of "metadata_of m'"]) (simp_all add: metadata_of_def m'_def)
  next
    assume "\<exists>stamp. open_upload session (snd k) d = Inr (finalized_meta env stamp data v m)"
    then obtain st0 where op: "open_upload session (snd k) d = Inr (finalized_meta env st0 data v m)" ..
    define m' where "m' = finalized_meta env st0 data v m"
    have "stat_dir env now stamp session (snd k) d = (Inr (metadata_of m'), [])"
      unfolding stat_dir_def load_upload_def op by (simp add: nf open_data_def d(2) m'_def)
    with stat d(1) have st: "stat_attachment env now stamp ref s = (Inr (metadata_of m'), [])" by (simp add: at_dir_def)
    have "payload_at s k session m' data" using op nf d by (simp add: payload_at_def m'_def)
    with st nf show ?thesis by (intro that [of "metadata_of m'" "[]" m']) (simp_all add: metadata_of_def m'_def)
  qed
qed

lemma finish_commits:
  assumes "finish_attachment env now stamp \<lparr>fa_ref = ref, fa_expected_size = PInt n, fa_expected_mime = mime\<rparr> s =
      (Inr res, ws)" "stamp \<noteq> []" "digest_ok env" "s1 \<in> set ws"
  obtains i d m where "validate_attachment_ref ref = Inr i" "dir_at s (session_dir env (ar_session ref), i) = Some d"
    "committed env s1 (session_dir env (ar_session ref), i) (ar_session ref) m (part_bytes d)"
    "fr_size res = length (part_bytes d)" "fr_revision res = en_digest env (part_bytes d)"
proof -
  from assms(1) obtain i size1 mime1 where v: "validate_finish_command \<lparr>fa_ref = ref, fa_expected_size = PInt n,
      fa_expected_mime = mime\<rparr> = Inr (i, size1, mime1)"
    by (auto simp: finish_attachment_def split: sum.splits)
  then have i: "validate_attachment_ref ref = Inr i" by (auto simp: validate_finish_command_def split: sum.splits)
  define k where "k = (session_dir env (ar_session ref), i)"
  define f where "f = finish_dir env now stamp (ar_session ref) i size1 mime1"
  from assms(1) v have at: "at_dir k f s = (Inr res, ws)" by (simp add: finish_attachment_def k_def f_def Let_def)
  then obtain d ds where d: "dir_at s k = Some d" "f d = (Inr res, ds)" "ws = map (\<lambda>d'. put_dir k d' s) ds"
    by (auto simp: at_dir_def split: option.splits prod.splits)
  show ?thesis
  proof (cases rule: finish_cases [OF d(2) [unfolded f_def] assms(2), case_names failed stored])
    case (stored m v b t)
    define d1 where "d1 = d\<lparr>ad_part := None, ad_data := Some b\<rparr>"
    define d2 where "d2 = write_meta now (finalized_meta env stamp b v m) d1"
    note meta = open_upload_meta [OF stored(1)]
    have s1: "s1 = put_dir k d1 s \<or> s1 = put_dir k d2 s"
      using assms(4) d(3) stored(9) by (auto simp: d1_def d2_def)
    have part: "part_bytes d = b" using stored(4) by (simp add: part_bytes_def)
    have "open_upload (ar_session ref) i d1 = Inr m"
      using stored(1) by (simp add: open_upload_def d1_def)
    moreover have "open_upload (ar_session ref) i d2 = Inr (finalized_meta env stamp b v m)"
      unfolding d2_def
      by (rule open_written [OF wf_finalized_meta [OF assms(3) read_meta_wf [OF meta [THEN conjunct1]] assms(2) stored(7)]])
        (use meta in simp_all)
    ultimately have "committed env s1 k (ar_session ref) m b"
      using s1 stored(2,5,7) unfolding committed_def
      by (auto simp: dir_at_put k_def d1_def d2_def)
    with stored i d(1) part show ?thesis by (intro that [of i d m]) (simp_all add: k_def)
  qed (use assms in simp_all)
qed

text \<open>
  C11: A finish is never lost. When the process stops at any point from the rename of a finish on, then after
  any calls, which may stop too, the next look at the attachment completes it and reports the size and
  the revision that the finish would have answered, and the whole payload can be read.
\<close>

theorem finish_survives_crash:
  assumes "digest_ok env" "att_calls env cs empty_store s" "stamp \<noteq> []"
    "finish_attachment env now stamp \<lparr>fa_ref = ref, fa_expected_size = PInt n, fa_expected_mime = mime\<rparr> s = (Inr res, ws)"
    "s1 \<in> set ws" "att_calls env calls s1 s2" "stamp' \<noteq> []"
    "MIN_READ_BYTES \<le> limit" "limit \<le> MAX_READ_BYTES" "fr_size res < fuel"
  shows "\<exists>data md ws'. stat_attachment env now' stamp' ref s2 = (Inr md, ws') \<and> md_finalized md \<and>
    md_size md = fr_size res \<and> md_revision md = Some (fr_revision res) \<and> fr_revision res = en_digest env data \<and>
    length data = fr_size res \<and> read_all env now' stamp' ref limit fuel 0 (last_state s2 ws') = Some data"
proof -
  from assms(4,3,1,5) obtain i d m where f: "validate_attachment_ref ref = Inr i"
    "committed env s1 (session_dir env (ar_session ref), i) (ar_session ref) m (part_bytes d)"
    "fr_size res = length (part_bytes d)" "fr_revision res = en_digest env (part_bytes d)"
    by (rule finish_commits)
  have keys: "keys_ok s" by (rule calls_from_empty(2) [OF assms(1,2)])
  have "(store_change env True UNIV)\<^sup>*\<^sup>* s s1"
    by (rule call_changes [OF keys assms(3), where c = "CallFinish \<lparr>fa_ref = ref, fa_expected_size = PInt n,
        fa_expected_mime = mime\<rparr>" and now = now]) (simp_all add: outcome_def assms(4,5))
  note run = calls_changes [OF assms(6) changes_keys [OF this keys]]
  from run have "committed env s2 (session_dir env (ar_session ref), i) (ar_session ref) m (part_bytes d)"
    by (induction rule: rtranclp_induct) (auto intro: f(2) committed_stays assms(1))
  from committed_stat [OF this _ refl _ assms(7,1), of now'] f(1) obtain md ws' m' where
    st: "stat_attachment env now' stamp' ref s2 = (Inr md, ws')" "md_finalized md"
      "md_revision md = Some (en_digest env (part_bytes d))" "md_size md = length (part_bytes d)"
      "payload_at (last_state s2 ws') (session_dir env (ar_session ref), i) (ar_session ref) m' (part_bytes d)"
    by auto
  from read_all_data [OF f(1) st(5) assms(8,9), of 0 fuel] assms(10) f(3)
  have "read_all env now' stamp' ref limit fuel 0 (last_state s2 ws') = Some (part_bytes d)" by simp
  with st f show ?thesis by auto
qed

section \<open>A begin that stops halfway\<close>

text \<open>Every begin that is answered has been in the state between its two writes.\<close>

lemma begin_passes_empty:
  assumes "begin_attachment env now stamp ids c s = (Inr r, ws)"
  shows "\<exists>s1 \<in> set ws. dir_at s1 (ref_key env (br_ref r)) = Some empty_dir"
proof -
  from assms obtain bytes mime name where v: "validate_begin_command c = Inr (bytes, mime, name)"
    by (auto simp: begin_attachment_def split: sum.splits)
  define k where "k = session_dir env (ba_session c)"
  obtain rn ws1 where sw: "sweep_session env (now - of_nat INCOMPLETE_TTL_SECONDS) DEFAULT_SWEEP_ENTRIES 0 k s = (rn, ws1)"
    by fastforce
  define s1 where "s1 = last_state s ws1"
  from assms obtain i where r: "br_ref r = \<lparr>ar_session = ba_session c, ar_attachment_id = PStr i\<rparr>"
    and ws: "(put_dir (k, i) empty_dir s1)\<lparr>as_issued := i # as_issued s1\<rparr> \<in> set ws"
    by (auto simp: begin_attachment_def v Let_def k_def [symmetric] sw s1_def [symmetric] split: option.splits)
  show ?thesis by (rule bexI [OF _ ws]) (simp add: r ref_key_def k_def dir_at_put)
qed

definition abandoned :: "att_store \<Rightarrow> session_key \<Rightarrow> string list \<Rightarrow> bool" where
  "abandoned s k ids \<longleftrightarrow> distinct ids \<and> (\<forall>i \<in> set ids. is_attachment_id i \<and> dir_at s (k, i) = Some empty_dir)"

lemma empty_dir_kept:
  assumes "store_change env stops ab s s'" "dir_at s k = Some empty_dir" "k \<notin> ab"
  shows "dir_at s' k = Some empty_dir"
  using assms(1)
proof cases
  case (sc_dir k' d' d'')
  have "k' \<noteq> k" using sc_dir(3) assms sc_dir(2) by (auto simp: read_meta_def empty_dir_def elim!: dir_change.cases)
  with assms(2) show ?thesis by (simp add: sc_dir(1) dir_at_put)
next
  case (sc_remove k' d')
  have "k' \<noteq> k" using sc_remove(1,3) assms by (auto simp: read_meta_def empty_dir_def)
  with assms(2) sc_remove(4) show ?thesis by (auto simp: in_remove_tree dir_at_put dir_at_drop)
next
  case (sc_begin i k' bytes m' d' now)
  with assms(2) have "(k', i) \<noteq> k" by auto
  with assms(2) show ?thesis by (simp add: sc_begin(1) dir_at_put)
qed

lemma empty_dir_stays:
  "(store_change env stops ab)\<^sup>*\<^sup>* s s' \<Longrightarrow> dir_at s k = Some empty_dir \<Longrightarrow> k \<notin> ab \<Longrightarrow> dir_at s' k = Some empty_dir"
  by (induction rule: rtranclp_induct) (auto intro: empty_dir_kept)

lemma sum_of_keys:
  "distinct ids \<Longrightarrow> (\<forall>i \<in> set ids. P (k, i) \<and> map_of al (k, i) = Some e) \<Longrightarrow>
     length ids * f e \<le> sum_list (map (\<lambda>x. f (snd x)) (filter (\<lambda>x. P (fst x)) al))" for f :: "'b \<Rightarrow> nat"
proof (induction al arbitrary: ids)
  case (Cons x al)
  obtain kk v where x: "x = (kk, v)" by fastforce
  show ?case
  proof (cases "\<exists>j \<in> set ids. kk = (k, j)")
    case True
    then obtain j where j: "j \<in> set ids" "kk = (k, j)" by blast
    with Cons.prems(2) x have v: "v = e" "P (k, j)" by auto
    have "length (remove1 j ids) * f e \<le> sum_list (map (\<lambda>x. f (snd x)) (filter (\<lambda>x. P (fst x)) al))"
    proof (rule Cons.IH)
      show "distinct (remove1 j ids)" using Cons.prems(1) by simp
      show "\<forall>i \<in> set (remove1 j ids). P (k, i) \<and> map_of al (k, i) = Some e"
      proof
        fix i assume "i \<in> set (remove1 j ids)"
        with Cons.prems(1) have "i \<in> set ids" "i \<noteq> j" by simp_all
        with Cons.prems(2) x j(2) show "P (k, i) \<and> map_of al (k, i) = Some e" by force
      qed
    qed
    moreover have "length ids = Suc (length (remove1 j ids))"
      using j(1) length_pos_if_in_set [OF j(1)] by (simp add: length_remove1)
    ultimately show ?thesis by (simp add: x j(2) v)
  next
    case False
    have "\<forall>i \<in> set ids. P (k, i) \<and> map_of al (k, i) = Some e"
    proof
      fix i assume "i \<in> set ids"
      with False have "kk \<noteq> (k, i)" by blast
      with Cons.prems(2) \<open>i \<in> set ids\<close> x show "P (k, i) \<and> map_of al (k, i) = Some e" by force
    qed
    from Cons.IH [OF Cons.prems(1) this] show ?thesis by (simp add: x)
  qed
qed simp

lemma abandoned_charge:
  assumes "abandoned s k ids"
  shows "length ids * MAX_ATTACHMENT_BYTES \<le> sum_list (map (\<lambda>x. usage_charge (snd x)) (session_dirs k s))"
proof -
  have "usage_charge empty_dir = MAX_ATTACHMENT_BYTES"
    by (simp add: usage_charge_def read_meta_def empty_dir_def)
  moreover have "length ids * usage_charge empty_dir \<le> sum_list (map (\<lambda>x. usage_charge (snd x))
      (filter (\<lambda>x. (\<lambda>(k', i). k' = k \<and> is_attachment_id i) (fst x)) (as_dirs s)))"
    using assms by (intro sum_of_keys) (auto simp: abandoned_def dir_at_def)
  ultimately show ?thesis by (simp add: session_dirs_def comp_def split_def)
qed

text \<open>
  C35: A begin that stops between making the directory and writing its metadata leaves a directory that no
  sweep reclaims and that the quota charges as the largest image; nobody knows its id, so nobody aborts
  it. After 128 of them, wherever they came from, every begin in the session is refused, for ever.
\<close>

theorem stopped_begins_block_session:
  assumes "abandoned s k ids" "128 \<le> length ids" "keys_ok s" "att_calls env cs s s'"
    "\<forall>i \<in> set ids. (k, i) \<notin> abort_keys_of env cs" "session_dir env (ba_session c) = k" "stamp \<noteq> []"
  shows "\<exists>e. fst (begin_attachment env now stamp fresh c s') = Inl e"
proof (cases "validate_begin_command c")
  case (Inl e)
  then show ?thesis by (simp add: begin_attachment_def)
next
  case (Inr x)
  obtain bytes mime name where x: "x = (bytes, mime, name)" by (cases x)
  have pos: "0 < bytes"
    using Inr x by (auto simp: validate_begin_command_def dest: validate_size_bounds split: sum.splits option.splits)
  note run = calls_changes [OF assms(4,3)]
  obtain rn ws where sw: "sweep_session env (now - of_nat INCOMPLETE_TTL_SECONDS) DEFAULT_SWEEP_ENTRIES 0 k s' = (rn, ws)"
    by fastforce
  have "(store_change env False {})\<^sup>*\<^sup>* s' (last_state s' ws)"
    using sweep_session_changes [OF changes_keys [OF run assms(3)], of False env _ _ 0 k _ "{}"] sw
    by (metis outcome_def snd_conv)
  note swept = empty_dir_stays [OF this]
  have "dir_at (last_state s' ws) (k, i) = Some empty_dir" if "i \<in> set ids" for i
    by (rule swept) (use assms(1,5) that empty_dir_stays [OF run, of "(k, i)"] in \<open>simp_all add: abandoned_def\<close>)
  then have "abandoned (last_state s' ws) k ids" using assms(1) by (simp add: abandoned_def)
  from abandoned_charge [OF this] assms(2)
  have "MAX_SESSION_ATTACHMENT_BYTES \<le> sum_list (map (\<lambda>x. usage_charge (snd x)) (session_dirs k (last_state s' ws)))"
    by (simp add: MAX_SESSION_ATTACHMENT_BYTES_def MAX_ATTACHMENT_BYTES_def)
  then have "\<exists>e. enforce_quota k bytes (last_state s' ws) = Some e"
    using pos by (auto simp: enforce_quota_def dest!: scan_total split: sum.splits prod.splits)
  then show ?thesis
    using Inr x sw assms(6) by (auto simp: begin_attachment_def Let_def)
qed

section \<open>A concrete upload\<close>

text \<open>A GIF image of one pixel, uploaded in two chunks.\<close>

definition sample_env :: att_env where
  "sample_env = \<lparr>en_digest = (\<lambda>_. replicate 64 CHR ''0''), en_decoder = (\<lambda>_. DecoderAbsent), en_parse_iso = (\<lambda>_. None)\<rparr>"

definition sample_session :: session_ref where
  "sample_session = \<lparr>project_id = ''p'', thread_id = ''t''\<rparr>"

definition sample_id :: string where
  "sample_id = replicate 32 CHR ''a''"

definition sample_key :: session_key where
  "sample_key = session_dir sample_env sample_session"

definition sample_chunks :: "bytes list" where
  "sample_chunks = [text_bytes ''GIF89a'', [1, 0, 1, 0]]"

definition sample_begin :: begin_attachment_command where
  "sample_begin = \<lparr>ba_session = sample_session, ba_size = PInt 10, ba_mime = PStr ''image/gif'',
     ba_display_name = PStr ''a.gif''\<rparr>"

definition sample_ref :: attachment_ref where
  "sample_ref = \<lparr>ar_session = sample_session, ar_attachment_id = PStr sample_id\<rparr>"

definition sample_meta :: att_meta where
  "sample_meta = new_meta sample_id sample_session 10 ''image/gif'' ''a.gif'' ''now''"

definition sample_store :: "att_dir \<Rightarrow> att_store" where
  "sample_store d = \<lparr>as_dirs = [((sample_key, sample_id), d)], as_issued = [sample_id]\<rparr>"

definition sample_dir :: "bytes \<Rightarrow> att_dir" where
  "sample_dir b = (write_meta 1 sample_meta empty_dir)\<lparr>ad_part := Some (b, 2)\<rparr>"

lemmas sample_limits = MAX_ATTACHMENT_BYTES_def MAX_SESSION_FIELD_BYTES_def MAX_DISPLAY_NAME_BYTES_def
  MAX_DISPLAY_NAME_CHARS_def IMAGE_MIME_ALLOWED_def ATTACHMENT_ID_CHARS_def MAX_QUOTA_SCAN_ENTRIES_def
  MAX_SESSION_ATTACHMENT_BYTES_def MAX_PROJECT_ATTACHMENT_BYTES_def MIN_READ_BYTES_def

lemmas py_text = py_strip_def py_isspace_def py_lower_def py_lower_char_def py_isprintable_def

lemma sample_digest: "digest_ok sample_env"
  by (simp add: digest_ok_def sample_env_def is_revision_def is_hex_text_def)

lemma sample_env_fields: "en_digest sample_env x = replicate 64 CHR ''0''" "en_decoder sample_env = (\<lambda>_. DecoderAbsent)"
  by (simp_all add: sample_env_def)

lemma sample_ref_fields: "ar_session sample_ref = sample_session" "session_dir sample_env sample_session = sample_key"
  by (simp_all add: sample_ref_def sample_key_def)

lemma sample_id_ok: "is_attachment_id sample_id"
  by (simp add: is_attachment_id_def is_hex_text_def ATTACHMENT_ID_CHARS_def sample_id_def)

lemma sample_session_ok: "validate_session_ref sample_session = None"
  by (simp add: validate_session_ref_def session_field_error_def utf8_size_def sample_session_def sample_limits)

lemma sample_ref_ok: "validate_attachment_ref sample_ref = Inr sample_id"
  using sample_id_ok
  by (simp add: validate_attachment_ref_def sample_ref_def sample_session_ok validate_attachment_id_def is_attachment_id_def)

lemma sample_mime: "normalize_mime (PStr ''image/gif'') = Inr ''image/gif''"
  by (simp add: normalize_mime_def py_text sample_limits)

lemma sample_begin_ok: "validate_begin_command sample_begin = Inr (10, ''image/gif'', ''a.gif'')"
  by (simp add: validate_begin_command_def sample_begin_def sample_session_ok validate_size_def sample_mime
      sanitize_display_name_def py_text utf8_size_def sample_limits)

lemma sample_image_ok:
  "validate_image_payload (\<lambda>_. DecoderAbsent) (concat sample_chunks) ''image/gif'' =
     Inr \<lparr>iv_mime = ''image/gif'', iv_level = VERIFICATION_STRUCTURE\<rparr>"
  by (simp add: validate_image_payload_def sample_mime sample_chunks_def sniff_image_mime_def is_gif_def slice_def
      PNG_SIGNATURE_def text_bytes_def structure_dimensions_def gif_dimensions_def from_little_def from_big_def
      check_dimensions_def MAX_IMAGE_DIMENSION_def MAX_IMAGE_PIXELS_def pillow_verify_def)

lemma sample_wf: "wf_meta sample_meta"
  using sample_id_ok
  by (simp add: wf_meta_def sample_meta_def new_meta_def sample_session_def sample_limits)

lemma sample_open: "open_upload sample_session sample_id (sample_dir b) = Inr sample_meta"
  using sample_wf
  by (simp add: open_upload_def sample_dir_def check_owner_def sample_meta_def new_meta_def bad_meta_def)

lemma sample_begin_session: "ba_session sample_begin = sample_session"
  by (simp add: sample_begin_def)

lemma sample_begins:
  "\<exists>r ws. begin_attachment sample_env 1 ''now'' [sample_id] sample_begin empty_store = (Inr r, ws) \<and>
     br_ref r = sample_ref \<and>
     ws = [(sample_store empty_dir), sample_store (write_meta 1 sample_meta empty_dir)]"
  by (simp add: begin_attachment_def sample_begin_ok sweep_session_def session_dirs_def project_dirs_def
      empty_store_def enforce_quota_def sample_limits new_attachment_id_def dir_at_def sample_begin_session
      sample_ref_def sample_store_def put_dir_def sample_key_def sample_meta_def Let_def)

lemma append_accepted:
  assumes "open_upload session i d = Inr m" "\<not> am_finalized m" "ad_data d = None"
    "length (part_bytes d) + length chunk \<le> am_size m"
  shows "append_dir env now stamp session i (length (part_bytes d)) chunk d =
    (Inr \<lparr>ap_received_bytes = length (part_bytes d) + length chunk, ap_next_offset = length (part_bytes d) + length chunk\<rparr>,
     (if ad_part d = None then d\<lparr>ad_part := Some ([], now)\<rparr> else d) #
       map (\<lambda>n. d\<lparr>ad_part := Some (part_bytes d @ take n chunk, now)\<rparr>) [0..<length chunk + 1])"
  using assms by (simp add: append_dir_def recover_finalized_def Let_def)

lemma sample_appends:
  assumes "open_upload sample_session sample_id d = Inr sample_meta" "ad_data d = None" "part_bytes d = b"
    "length b + length chunk \<le> 10" "chunk \<noteq> []" "\<And>x. d\<lparr>ad_part := Some (x, 2)\<rparr> = sample_dir x"
  shows "\<exists>r ws. append_attachment_chunk sample_env 2 ''now'' \<lparr>ac_ref = sample_ref,
      ac_expected_offset = PInt (int (length b)), ac_data_base64 = PStr (b64_encode chunk)\<rparr>
      (sample_store d) = (Inr r, ws) \<and> last_state (sample_store d) ws = sample_store (sample_dir (b @ chunk))"
proof -
  have dec: "decode_chunk_base64 (b64_encode chunk) = Inr chunk"
    using assms(4,5) by (intro chunk_roundtrip) (simp_all add: MAX_CHUNK_BYTES_def)
  have v: "validate_append_command \<lparr>ac_ref = sample_ref, ac_expected_offset = PInt (int (length b)),
      ac_data_base64 = PStr (b64_encode chunk)\<rparr> = Inr (sample_id, length b, b64_encode chunk)"
    using assms(4) by (simp add: validate_append_command_def sample_ref_ok MAX_ATTACHMENT_BYTES_def)
  have m: "\<not> am_finalized sample_meta" "am_size sample_meta = 10"
    by (simp_all add: sample_meta_def new_meta_def)
  note a = append_accepted [OF assms(1) m(1) assms(2), of chunk sample_env 2 "''now''", unfolded assms(3) m(2), OF assms(4)]
  have at: "dir_at (sample_store d) (sample_key, sample_id) = Some d" by (simp add: dir_at_def sample_store_def)
  have "put_dir (sample_key, sample_id) x (sample_store d) = sample_store x" for x
    by (simp add: put_dir_def sample_store_def)
  with last_put [OF at] show ?thesis
    by (simp add: append_attachment_chunk_def v dec Let_def at_dir_def a at sample_ref_fields assms(6) last_state_def)
qed

abbreviation sample_append :: "bytes list \<Rightarrow> bytes \<Rightarrow> append_chunk_command" where
  "sample_append sent chunk \<equiv> \<lparr>ac_ref = sample_ref, ac_expected_offset = PInt (int (length (concat sent))),
     ac_data_base64 = PStr (b64_encode chunk)\<rparr>"

lemma sample_chunk1:
  "\<exists>r ws. append_attachment_chunk sample_env 2 ''now'' (sample_append [] (sample_chunks ! 0))
      (sample_store (write_meta 1 sample_meta empty_dir)) = (Inr r, ws) \<and>
    last_state (sample_store (write_meta 1 sample_meta empty_dir)) ws = sample_store (sample_dir (sample_chunks ! 0))"
proof -
  have op: "open_upload sample_session sample_id (write_meta 1 sample_meta empty_dir) = Inr sample_meta"
    by (rule open_written [OF sample_wf]) (simp_all add: sample_meta_def new_meta_def)
  from sample_appends [OF op, of "[]" "sample_chunks ! 0"] show ?thesis
    by (auto simp: part_bytes_def empty_dir_def write_meta_def sample_dir_def sample_chunks_def text_bytes_def)
qed

lemma sample_chunk2:
  "\<exists>r ws. append_attachment_chunk sample_env 2 ''now'' (sample_append [sample_chunks ! 0] (sample_chunks ! 1))
      (sample_store (sample_dir (sample_chunks ! 0))) = (Inr r, ws) \<and>
    last_state (sample_store (sample_dir (sample_chunks ! 0))) ws = sample_store (sample_dir (concat sample_chunks))"
  using sample_appends [OF sample_open, of "sample_chunks ! 0" "sample_chunks ! 0" "sample_chunks ! 1"]
  by (auto simp: part_bytes_def write_meta_def empty_dir_def sample_dir_def sample_chunks_def text_bytes_def)

lemma sample_uploading: "uploading sample_env sample_ref sample_chunks (sample_store (sample_dir (concat sample_chunks)))"
proof -
  obtain r ws where b: "begin_attachment sample_env 1 ''now'' [sample_id] sample_begin empty_store = (Inr r, ws)"
      "br_ref r = sample_ref" "ws = [sample_store empty_dir, sample_store (write_meta 1 sample_meta empty_dir)]"
    using sample_begins by blast
  have "uploading sample_env sample_ref [] (last_state empty_store ws)"
    by (rule up_begin [OF no_calls _ _ b(1,2)]) (simp_all add: sample_id_ok empty_store_def)
  then have u0: "uploading sample_env sample_ref [] (sample_store (write_meta 1 sample_meta empty_dir))"
    by (simp add: b(3) last_state_def)
  have "uploading sample_env sample_ref ([] @ [sample_chunks ! 0]) (sample_store (sample_dir (sample_chunks ! 0)))"
    using sample_chunk1 up_chunk [OF u0, of "''now''" 2 "sample_chunks ! 0"] by fastforce
  then have u1: "uploading sample_env sample_ref [sample_chunks ! 0] (sample_store (sample_dir (sample_chunks ! 0)))"
    by simp
  have "uploading sample_env sample_ref ([sample_chunks ! 0] @ [sample_chunks ! 1])
      (sample_store (sample_dir (concat sample_chunks)))"
    using sample_chunk2 up_chunk [OF u1, of "''now''" 2 "sample_chunks ! 1"] by fastforce
  then show ?thesis by (simp add: sample_chunks_def)
qed

lemma one_completed:
  "att_calls env cs s s1 \<Longrightarrow> stamp \<noteq> [] \<Longrightarrow> fresh_call c s1 \<Longrightarrow>
     att_calls env (cs @ [c]) s (last_state s1 (call_writes env now stamp c s1))"
  by (rule one_call [OF _ _ _ last_state_in])

lemma sample_reached: "\<exists>cs. att_calls sample_env cs empty_store (sample_store (sample_dir (concat sample_chunks)))"
proof -
  have c0: "att_calls sample_env ([] @ [CallBegin [sample_id] sample_begin]) empty_store
      (last_state empty_store (call_writes sample_env 1 ''now'' (CallBegin [sample_id] sample_begin) empty_store))"
    by (rule one_completed [OF no_calls]) (simp_all add: sample_id_ok empty_store_def)
  have "last_state empty_store (call_writes sample_env 1 ''now'' (CallBegin [sample_id] sample_begin) empty_store) =
      sample_store (write_meta 1 sample_meta empty_dir)"
    using sample_begins by (auto simp: last_state_def)
  with c0 have "\<exists>cs. att_calls sample_env cs empty_store (sample_store (write_meta 1 sample_meta empty_dir))" by metis
  then have "\<exists>cs. att_calls sample_env cs empty_store (sample_store (sample_dir (sample_chunks ! 0)))"
    using sample_chunk1 one_completed [of sample_env _ empty_store _ "''now''" "CallAppend (sample_append [] (sample_chunks ! 0))" 2]
    by fastforce
  then show ?thesis
    using sample_chunk2 one_completed [of sample_env _ empty_store _ "''now''"
        "CallAppend (sample_append [sample_chunks ! 0] (sample_chunks ! 1))" 2]
    by fastforce
qed

lemma sample_finishes:
  "\<exists>ws. finish_attachment sample_env 4 ''now'' \<lparr>fa_ref = sample_ref,
      fa_expected_size = PInt (int (length (concat sample_chunks))), fa_expected_mime = PStr ''image/gif''\<rparr>
      (sample_store (sample_dir (concat sample_chunks))) =
    (Inr \<lparr>fr_size = 10, fr_mime = ''image/gif'', fr_revision = replicate 64 CHR ''0''\<rparr>, ws) \<and>
    sample_store ((sample_dir (concat sample_chunks))\<lparr>ad_part := None, ad_data := Some (concat sample_chunks)\<rparr>) \<in> set ws"
proof -
  define d where "d = sample_dir (concat sample_chunks)"
  have len: "length (concat sample_chunks) = 10" by (simp add: sample_chunks_def text_bytes_def)
  have v: "validate_finish_command \<lparr>fa_ref = sample_ref, fa_expected_size = PInt 10,
      fa_expected_mime = PStr ''image/gif''\<rparr> = Inr (sample_id, 10, ''image/gif'')"
    by (simp add: validate_finish_command_def sample_ref_ok validate_size_def sample_mime MAX_ATTACHMENT_BYTES_def)
  have at: "dir_at (sample_store d) (sample_key, sample_id) = Some d" by (simp add: dir_at_def sample_store_def)
  have put: "put_dir (sample_key, sample_id) x (sample_store d) = sample_store x" for x
    by (simp add: put_dir_def sample_store_def)
  have m: "\<not> am_finalized sample_meta" "am_size sample_meta = 10" "am_mime sample_meta = ''image/gif''"
    by (simp_all add: sample_meta_def new_meta_def)
  have d: "ad_data d = None" "ad_part d = Some (concat sample_chunks, 2)" "part_bytes d = concat sample_chunks"
    by (simp_all add: d_def sample_dir_def empty_dir_def write_meta_def part_bytes_def)
  have t: "take 11 (concat sample_chunks) = concat sample_chunks" using len by simp
  show ?thesis
    unfolding finish_attachment_def len of_nat_numeral v d_def [symmetric]
    by (simp add: Let_def sample_ref_fields at_dir_def at finish_dir_def
        sample_open [of "concat sample_chunks", folded d_def] recover_finalized_def m d t len sample_image_ok put
        sample_env_fields)
qed

text \<open>The number of an image as the last two digits of an id.\<close>

definition numbered_id :: "nat \<Rightarrow> string" where
  "numbered_id n = replicate 30 CHR ''0'' @ [''0123456789abcdef'' ! (n div 16), ''0123456789abcdef'' ! (n mod 16)]"

definition stopped_store :: att_store where
  "stopped_store = \<lparr>as_dirs = map (\<lambda>n. ((sample_key, numbered_id n), empty_dir)) [0..<128],
     as_issued = map numbered_id [0..<128]\<rparr>"

lemma numbered_id_hex: "n < 256 \<Longrightarrow> is_attachment_id (numbered_id n)"
proof -
  assume "n < 256"
  then have "n div 16 < 16" by (simp add: less_mult_imp_div_less)
  then have "''0123456789abcdef'' ! (n div 16) \<in> set ''0123456789abcdef''" by (intro nth_mem) simp
  moreover have "''0123456789abcdef'' ! (n mod 16) \<in> set ''0123456789abcdef''" by (intro nth_mem) simp
  ultimately show ?thesis
    unfolding is_attachment_id_def is_hex_text_def ATTACHMENT_ID_CHARS_def numbered_id_def by auto
qed

lemma numbered_id_inj: "inj_on numbered_id {..<256}"
proof (rule inj_onI)
  fix m n assume mn: "m \<in> {..<256}" "n \<in> {..<256}" "numbered_id m = numbered_id n"
  have dist: "distinct ''0123456789abcdef''" by simp
  have "''0123456789abcdef'' ! (m div 16) = ''0123456789abcdef'' ! (n div 16)"
    "''0123456789abcdef'' ! (m mod 16) = ''0123456789abcdef'' ! (n mod 16)"
    using mn(3) by (simp_all add: numbered_id_def)
  moreover have "m div 16 < length ''0123456789abcdef''" "n div 16 < length ''0123456789abcdef''"
    using mn(1,2) by (simp_all add: less_mult_imp_div_less)
  moreover have "m mod 16 < length ''0123456789abcdef''" "n mod 16 < length ''0123456789abcdef''" by simp_all
  ultimately have "m div 16 = n div 16" "m mod 16 = n mod 16"
    using nth_eq_iff_index_eq [OF dist] by metis+
  then show "m = n" by (metis div_mod_decomp)
qed

lemma stopped_facts: "abandoned stopped_store sample_key (map numbered_id [0..<128])" "keys_ok stopped_store"
proof -
  have inj: "inj_on numbered_id (set [0..<128])" by (rule inj_on_subset [OF numbered_id_inj]) auto
  have "map fst (as_dirs stopped_store) = map (Pair sample_key) (map numbered_id [0..<128])"
    by (simp add: stopped_store_def comp_def)
  moreover have "distinct (map (Pair sample_key) (map numbered_id [0..<128]))"
    using inj by (simp add: distinct_map inj_on_def del: map_map)
  ultimately show keys: "keys_ok stopped_store" by (simp add: keys_ok_def)
  have "dir_at stopped_store (sample_key, numbered_id n) = Some empty_dir" if "n < 128" for n
    using keys that unfolding dir_at_def keys_ok_def
    by (intro map_of_is_SomeI) (auto simp: stopped_store_def)
  with inj show "abandoned stopped_store sample_key (map numbered_id [0..<128])"
    by (auto simp: abandoned_def distinct_map numbered_id_hex)
qed

section \<open>Witnesses\<close>

theorem bytes_within_quota_witness:
  "dirs_sum (of_session sample_key) dir_bytes (sample_store empty_dir) \<le> MAX_SESSION_ATTACHMENT_BYTES \<and>
    dirs_sum (of_project (fst sample_key)) dir_bytes (sample_store empty_dir) \<le> MAX_PROJECT_ATTACHMENT_BYTES"
proof -
  obtain r ws where b: "begin_attachment sample_env 1 ''now'' [sample_id] sample_begin empty_store = (Inr r, ws)"
      "ws = [sample_store empty_dir, sample_store (write_meta 1 sample_meta empty_dir)]"
    using sample_begins by blast
  have "att_calls sample_env ([] @ [CallBegin [sample_id] sample_begin]) empty_store (sample_store empty_dir)"
    by (rule one_call [OF no_calls, where stamp = "''now''" and now = 1]) (simp_all add: b sample_id_ok, simp add: empty_store_def)
  then show ?thesis by (rule bytes_within_quota [OF sample_digest])
qed

theorem upload_reads_back_witness:
  "\<exists>s. read_all sample_env 9 ''later'' sample_ref 4 11 0 s = Some (concat sample_chunks)"
proof -
  obtain ws where f: "finish_attachment sample_env 4 ''now'' \<lparr>fa_ref = sample_ref,
      fa_expected_size = PInt (int (length (concat sample_chunks))), fa_expected_mime = PStr ''image/gif''\<rparr>
      (sample_store (sample_dir (concat sample_chunks))) =
    (Inr \<lparr>fr_size = 10, fr_mime = ''image/gif'', fr_revision = replicate 64 CHR ''0''\<rparr>, ws)"
    using sample_finishes by blast
  from upload_reads_back [OF sample_digest sample_uploading _ f no_calls, of 4 11 9 "''later''"]
  show ?thesis by (auto simp: MIN_READ_BYTES_def MAX_READ_BYTES_def MAX_CHUNK_BYTES_def sample_chunks_def text_bytes_def)
qed

theorem stopped_begins_block_session_witness:
  "\<exists>e. fst (begin_attachment sample_env 7 ''now'' [sample_id] sample_begin stopped_store) = Inl e"
  by (rule stopped_begins_block_session [OF stopped_facts(1) _ stopped_facts(2) no_calls])
    (simp_all add: abort_keys_of_def sample_begin_session sample_key_def)

text \<open>The finish of the sample stops right after its rename.\<close>

theorem finish_survives_crash_witness:
  "\<exists>data md ws. stat_attachment sample_env 9 ''later'' sample_ref
      (sample_store ((sample_dir (concat sample_chunks))\<lparr>ad_part := None, ad_data := Some (concat sample_chunks)\<rparr>)) =
      (Inr md, ws) \<and> md_finalized md \<and> md_size md = 10 \<and> length data = 10 \<and>
    read_all sample_env 9 ''later'' sample_ref 4 11 0 (last_state
      (sample_store ((sample_dir (concat sample_chunks))\<lparr>ad_part := None, ad_data := Some (concat sample_chunks)\<rparr>)) ws) =
      Some data"
proof -
  obtain ws where f: "finish_attachment sample_env 4 ''now'' \<lparr>fa_ref = sample_ref,
      fa_expected_size = PInt (int (length (concat sample_chunks))), fa_expected_mime = PStr ''image/gif''\<rparr>
      (sample_store (sample_dir (concat sample_chunks))) =
    (Inr \<lparr>fr_size = 10, fr_mime = ''image/gif'', fr_revision = replicate 64 CHR ''0''\<rparr>, ws)"
    "sample_store ((sample_dir (concat sample_chunks))\<lparr>ad_part := None, ad_data := Some (concat sample_chunks)\<rparr>) \<in> set ws"
    using sample_finishes by blast
  obtain cs where "att_calls sample_env cs empty_store (sample_store (sample_dir (concat sample_chunks)))"
    using sample_reached ..
  from finish_survives_crash [OF sample_digest this _ f(1,2) no_calls, of "''later''" 4 11 9] show ?thesis
    by (auto simp: MIN_READ_BYTES_def MAX_READ_BYTES_def MAX_CHUNK_BYTES_def)
qed

end
