(* ===== verification/Session_Replay.thy ===== *)
theory Session_Replay
  imports Session_Events "HOL-Library.Sublist"
begin

text \<open>
  The replay window of the broker. The invariant \<open>window_inv\<close> relates the retained buffer to the
  history of accepted events: the buffer is a sorted part of the history that holds every event
  after the eviction mark, the mark itself is gone, and the buffer never passes the hard cap. Gap
  detection and the recovery snapshot are exact because of it.
\<close>

section \<open>What each operation does to the window\<close>

lemma claim_drainer_window [simp]:
  "bk_events (claim_drainer b) = bk_events b"
  "bk_accepted (claim_drainer b) = bk_accepted b"
  "bk_sequence (claim_drainer b) = bk_sequence b"
  "bk_dropped_through (claim_drainer b) = bk_dropped_through b"
  "bk_max_events (claim_drainer b) = bk_max_events b"
  "bk_hard_cap (claim_drainer b) = bk_hard_cap b"
  "bk_latest_turn_id (claim_drainer b) = bk_latest_turn_id b"
  "bk_latest_turn_start (claim_drainer b) = bk_latest_turn_start b"
  "bk_closed (claim_drainer b) = bk_closed b"
  by (simp_all add: claim_drainer_def)

text \<open>The part of the state that the window properties speak about.\<close>

definition window_view ::
  "broker \<Rightarrow> envelope list \<times> envelope list \<times> nat \<times> nat \<times> nat \<times> nat \<times> string option \<times> nat option"
where
  "window_view b =
     (bk_events b, bk_accepted b, bk_sequence b, bk_dropped_through b, bk_max_events b,
      bk_hard_cap b, bk_latest_turn_id b, bk_latest_turn_start b)"

lemma window_view_subscribe [simp]: "window_view (snd (subscribe cb n b)) = window_view b"
  by (simp add: subscribe_def register_def window_view_def Let_def)

lemma window_view_subscribe_from [simp]:
  "window_view (snd (subscribe_from cb c oc b)) = window_view b"
  by (simp add: subscribe_from_def register_def window_view_def Let_def split: sum.split)

lemma window_view_forward [simp]: "window_view (snd (forward_to ok cb n b)) = window_view b"
  by (simp add: forward_to_def register_def window_view_def Let_def)

lemma window_view_close_subscription [simp]:
  "window_view (subscription_close s b) = window_view b"
  by (simp add: subscription_close_def close_subscription_def window_view_def split: option.split)

lemma window_view_close [simp]: "window_view (close b) = window_view b"
  by (simp add: close_def window_view_def Let_def)

lemma window_view_drain [simp]: "window_view (drain_step out b) = window_view b"
  by (auto simp: drain_step_def dispatch_head_def leave_dispatch_def deliver_call_def notify_call_def
      escape_def remember_def window_view_def Let_def
      split: drainer.split list.split cb_outcome.split option.split)

text \<open>Only \<open>emit\<close> changes the window, and a closed broker refuses it.\<close>

lemma broker_step_window:
  assumes "broker_step b b'"
  obtains "window_view b' = window_view b"
  | event where "\<not> bk_closed b" "b' = emit event b"
  using assms
proof cases
  case (step_emit event)
  then show thesis using that by (cases "bk_closed b") (simp_all add: emit_def)
qed (use that in simp_all)

section \<open>Making room\<close>

lemma first_preview_less: "first_preview es = Some i \<Longrightarrow> i < length es"
  by (induction es arbitrary: i) (auto split: if_splits)

lemma make_room_cases:
  assumes "0 < bk_max_events b" "bk_max_events b \<le> bk_hard_cap b"
    and "length (bk_events b) \<le> bk_hard_cap b"
  obtains "make_room_locked k b = b" "length (bk_events b) < bk_hard_cap b"
  | i where "i < length (bk_events b)" "make_room_locked k b = evict_locked i b"
proof (cases "length (bk_events b) < bk_max_events b")
  case True
  with assms that(1) show thesis by (simp add: make_room_locked_def)
next
  case False
  then have ne: "0 < length (bk_events b)" using assms(1) by linarith
  show thesis
  proof (cases "first_preview (bk_events b)")
    case (Some i)
    with False show thesis
      by (intro that(2) [of i]) (simp_all add: make_room_locked_def first_preview_less)
  next
    case None
    then show thesis
      using False assms(3) ne that
      by (cases "bk_hard_cap b \<le> length (bk_events b) \<or> \<not> is_lossless k")
         (auto simp: make_room_locked_def)
  qed
qed

section \<open>The window invariant\<close>

definition window_inv :: "broker \<Rightarrow> bool" where
  "window_inv b \<longleftrightarrow>
     16 \<le> bk_max_events b \<and> bk_max_events b \<le> bk_hard_cap b \<and>
     length (bk_events b) \<le> bk_hard_cap b \<and>
     map env_sequence (bk_accepted b) = [1..<Suc (bk_sequence b)] \<and>
     sorted_wrt (<) (map env_sequence (bk_events b)) \<and>
     set (bk_events b) \<subseteq> set (bk_accepted b) \<and>
     bk_dropped_through b \<le> bk_sequence b - 1 \<and>
     bk_dropped_through b \<notin> env_sequence ` set (bk_events b) \<and>
     (\<forall>e \<in> set (bk_accepted b). bk_dropped_through b < env_sequence e \<longrightarrow> e \<in> set (bk_events b))"

lemma window_inv_view: "window_view b' = window_view b \<Longrightarrow> window_inv b' = window_inv b"
  by (simp add: window_view_def window_inv_def)

lemma accepted_sequences:
  "map env_sequence es = [1..<Suc n] \<Longrightarrow> env_sequence ` set es = {1..n}"
  by (metis atLeastLessThanSuc_atLeastAtMost list.set_map set_upt)

lemma accepted_unique:
  assumes "map env_sequence es = [1..<Suc n]" "x \<in> set es" "y \<in> set es"
    and "env_sequence x = env_sequence y"
  shows "x = y"
  using assms by (metis distinct_map distinct_upt inj_onD)

lemma evict_locked_simps [simp]:
  "bk_events (evict_locked i b) = delete_nth i (bk_events b)"
  "bk_dropped_through (evict_locked i b) =
     max (bk_dropped_through b) (env_sequence (bk_events b ! i))"
  "bk_accepted (evict_locked i b) = bk_accepted b"
  "bk_sequence (evict_locked i b) = bk_sequence b"
  "bk_max_events (evict_locked i b) = bk_max_events b"
  "bk_hard_cap (evict_locked i b) = bk_hard_cap b"
  "bk_latest_turn_id (evict_locked i b) = bk_latest_turn_id b"
  "bk_latest_turn_start (evict_locked i b) = bk_latest_turn_start b"
  "bk_subscribers (evict_locked i b) = bk_subscribers b"
  by (simp_all add: evict_locked_def)

lemma make_room_frame [simp]:
  "bk_accepted (make_room_locked k b) = bk_accepted b"
  "bk_sequence (make_room_locked k b) = bk_sequence b"
  "bk_max_events (make_room_locked k b) = bk_max_events b"
  "bk_hard_cap (make_room_locked k b) = bk_hard_cap b"
  "bk_latest_turn_id (make_room_locked k b) = bk_latest_turn_id b"
  "bk_latest_turn_start (make_room_locked k b) = bk_latest_turn_start b"
  "bk_subscribers (make_room_locked k b) = bk_subscribers b"
  by (simp_all add: make_room_locked_def split: option.split)

definition next_envelope :: "turn_event \<Rightarrow> broker \<Rightarrow> envelope" where
  "next_envelope event b =
     \<lparr>env_thread_id = bk_thread_id b, env_sequence = Suc (bk_sequence b),
      env_turn_id = ev_turn_id event, env_event = event\<rparr>"

lemma next_envelope_simps [simp]:
  "env_sequence (next_envelope event b) = Suc (bk_sequence b)"
  "env_turn_id (next_envelope event b) = ev_turn_id event"
  "env_event (next_envelope event b) = event"
  "env_thread_id (next_envelope event b) = bk_thread_id b"
  by (simp_all add: next_envelope_def)

text \<open>The effect of \<open>emit\<close> on the window of an open broker, operation by operation.\<close>

lemma emit_window_simps:
  assumes "\<not> bk_closed b"
  shows "bk_accepted (emit event b) = bk_accepted b @ [next_envelope event b]"
    and "bk_sequence (emit event b) = Suc (bk_sequence b)"
    and "bk_max_events (emit event b) = bk_max_events b"
    and "bk_hard_cap (emit event b) = bk_hard_cap b"
    and "bk_events (emit event b) =
      bk_events (make_room_locked (ev_kind event) (b\<lparr>bk_sequence := Suc (bk_sequence b)\<rparr>)) @
        [next_envelope event b]"
    and "bk_dropped_through (emit event b) =
      bk_dropped_through (make_room_locked (ev_kind event) (b\<lparr>bk_sequence := Suc (bk_sequence b)\<rparr>))"
    and "bk_latest_turn_id (emit event b) = Some (ev_turn_id event)"
    and "bk_latest_turn_start (emit event b) =
      (if bk_latest_turn_id b = Some (ev_turn_id event) then bk_latest_turn_start b
       else Some (Suc (bk_sequence b)))"
  using assms by (simp_all add: emit_def Let_def next_envelope_def)

lemma emit_window_cases:
  assumes "\<not> bk_closed b" "window_inv b"
  obtains (keep) "length (bk_events b) < bk_hard_cap b"
      "bk_events (emit event b) = bk_events b @ [next_envelope event b]"
      "bk_dropped_through (emit event b) = bk_dropped_through b"
  | (evict) i where "i < length (bk_events b)"
      "bk_events (emit event b) = delete_nth i (bk_events b) @ [next_envelope event b]"
      "bk_dropped_through (emit event b) =
         max (bk_dropped_through b) (env_sequence (bk_events b ! i))"
proof (rule make_room_cases [of "b\<lparr>bk_sequence := Suc (bk_sequence b)\<rparr>" "ev_kind event"])
qed (use assms that in \<open>auto simp: window_inv_def emit_window_simps\<close>)

lemma window_inv_image: "window_inv b \<Longrightarrow> env_sequence ` set (bk_accepted b) = {1..bk_sequence b}"
  unfolding window_inv_def by (rule accepted_sequences) blast

lemma window_inv_bounds:
  assumes "window_inv b" "e \<in> set (bk_accepted b)"
  shows "1 \<le> env_sequence e" "env_sequence e \<le> bk_sequence b"
  using assms accepted_sequences [of "bk_accepted b" "bk_sequence b"]
  by (auto simp: window_inv_def)

lemma emit_window_inv:
  assumes "\<not> bk_closed b" "window_inv b"
  shows "window_inv (emit event b)"
proof -
  have bound: "\<forall>e \<in> set (bk_events b). 1 \<le> env_sequence e \<and> env_sequence e \<le> bk_sequence b"
    using window_inv_bounds [OF assms(2)] assms(2) by (auto simp: window_inv_def)
  have sorted: "sorted_wrt (<) (map env_sequence (bk_events b))"
    and dist: "distinct (bk_events b)"
    using assms(2) sorted_wrt_less_distinct [of "map env_sequence (bk_events b)"]
    by (auto simp: window_inv_def distinct_map)
  from assms show ?thesis
  proof (cases rule: emit_window_cases [where event = event])
    case keep
    then show ?thesis
      using assms bound unfolding window_inv_def
      by (auto simp: emit_window_simps sorted_wrt_append less_Suc_eq_le)
  next
    case (evict i)
    let ?x = "bk_events b ! i"
    have x: "?x \<in> set (bk_events b)" using evict(1) by simp
    then have xb: "env_sequence ?x \<le> bk_sequence b" using bound by blast
    have kept: "set (delete_nth i (bk_events b)) = set (bk_events b) - {?x}"
      using dist evict(1) by (rule set_delete_nth)
    have gone: "env_sequence ?x \<notin> env_sequence ` (set (bk_events b) - {?x})"
      using sorted_wrt_less_distinct [OF sorted] x by (auto simp: distinct_map inj_on_def)
    have srt: "sorted_wrt (<) (map env_sequence (delete_nth i (bk_events b)))"
      using sorted by (simp add: map_delete_nth sorted_wrt_delete_nth)
    define d where "d = max (bk_dropped_through b) (env_sequence ?x)"
    have d: "d \<le> bk_sequence b" "bk_dropped_through b \<le> d" "env_sequence ?x \<le> d"
      using assms(2) xb by (auto simp: d_def window_inv_def)
    have "d \<notin> env_sequence ` (set (bk_events b) - {?x})"
      using gone assms(2) by (auto simp: d_def window_inv_def max_def)
    then have dgone: "d \<notin> env_sequence ` set (bk_events (emit event b))"
      using d(1) evict(2) kept by auto
    have later: "e \<in> set (bk_events (emit event b))"
      if "e \<in> set (bk_accepted (emit event b))" "d < env_sequence e" for e
      using that d evict(2) kept assms by (auto simp: emit_window_simps window_inv_def)
    show ?thesis
      unfolding window_inv_def
    proof (intro conjI)
      show "sorted_wrt (<) (map env_sequence (bk_events (emit event b)))"
        using srt evict(2) kept bound by (auto simp: sorted_wrt_append less_Suc_eq_le)
      show "set (bk_events (emit event b)) \<subseteq> set (bk_accepted (emit event b))"
        using evict(2) kept assms by (auto simp: emit_window_simps(1) window_inv_def)
      show "length (bk_events (emit event b)) \<le> bk_hard_cap (emit event b)"
        using evict(1,2) assms by (auto simp: emit_window_simps(4) window_inv_def)
      show "\<forall>e \<in> set (bk_accepted (emit event b)).
          bk_dropped_through (emit event b) < env_sequence e \<longrightarrow> e \<in> set (bk_events (emit event b))"
        using later evict(3) by (simp add: d_def)
    qed (use assms evict(3) d dgone in
          \<open>simp_all add: emit_window_simps(1-4) window_inv_def flip: d_def\<close>)
  qed
qed

lemma new_broker_window_inv: "window_inv (new_broker t m h ep)"
  by (auto simp: window_inv_def new_broker_def Let_def split: option.split)

interpretation window_sys: inv_system is_new_broker broker_step window_inv
proof
  show "is_new_broker b \<Longrightarrow> window_inv b" for b
    by (erule is_new_broker.cases) (simp add: new_broker_window_inv)
next
  fix b b'
  assume "window_inv b" "broker_step b b'"
  from this(2) show "window_inv b'"
  proof (cases rule: broker_step_window)
    case 1
    then show ?thesis using \<open>window_inv b\<close> by (simp add: window_inv_view [of b' b])
  next
    case (2 event)
    then show ?thesis using \<open>window_inv b\<close> by (simp add: emit_window_inv)
  qed
qed

section \<open>Reading the window\<close>

lemma drop_accepted:
  assumes "map env_sequence es = [1..<Suc n]"
  shows "drop k es = filter (\<lambda>e. k < env_sequence e) es"
  using assms
proof (induction es arbitrary: n rule: rev_induct)
  case Nil
  then show ?case by simp
next
  case (snoc e es)
  define m where "m = length es"
  have "length (map env_sequence (es @ [e])) = length [1..<Suc n]"
    using snoc.prems by (rule arg_cong)
  then have n: "n = Suc m" by (simp add: m_def)
  with snoc.prems have es: "map env_sequence es = [1..<Suc m]" and e: "env_sequence e = Suc m"
    by auto
  show ?case
    using snoc.IH [OF es] e by (simp add: m_def [symmetric])
qed

lemma events_after_window:
  assumes "window_inv b"
  shows "set (events_after c b) = {e \<in> set (bk_events b). c < int (env_sequence e)}"
    and "sorted_wrt (<) (map env_sequence (events_after c b))"
  using assms by (auto simp: events_after_def window_inv_def sorted_wrt_map sorted_wrt_filter)

lemma events_after_no_gap:
  assumes "window_inv b" "bk_dropped_through b \<le> k"
  shows "events_after (int k) b = drop k (bk_accepted b)"
proof -
  have acc: "map env_sequence (bk_accepted b) = [1..<Suc (bk_sequence b)]"
    using assms(1) by (simp add: window_inv_def)
  have "events_after (int k) b = filter (\<lambda>e. k < env_sequence e) (bk_accepted b)"
  proof (rule sorted_map_eq [of env_sequence])
    show "sorted_wrt (<) (map env_sequence (filter (\<lambda>e. k < env_sequence e) (bk_accepted b)))"
      unfolding sorted_wrt_map
      by (rule sorted_wrt_filter) (metis acc sorted_wrt_map sorted_wrt_upt)
    show "set (events_after (int k) b) = set (filter (\<lambda>e. k < env_sequence e) (bk_accepted b))"
      using assms unfolding events_after_window(1) [OF assms(1)]
      by (auto simp: window_inv_def)
  qed (rule events_after_window(2) [OF assms(1)])
  then show ?thesis by (simp add: drop_accepted [OF acc])
qed

lemma gap_iff_lost:
  assumes "window_inv b" "0 \<le> c"
  shows "c < int (bk_dropped_through b) \<longleftrightarrow>
    (\<exists>e \<in> set (bk_accepted b). c < int (env_sequence e) \<and> e \<notin> set (bk_events b))"
    (is "?gap = ?lost")
proof
  assume gap: ?gap
  let ?d = "bk_dropped_through b"
  have "?d \<in> {1..bk_sequence b}"
    using assms gap by (auto simp: window_inv_def)
  then obtain e where "e \<in> set (bk_accepted b)" "env_sequence e = ?d"
    unfolding window_inv_image [OF assms(1), symmetric] by (metis imageE)
  moreover from this have "e \<notin> set (bk_events b)"
    using assms by (force simp: window_inv_def)
  ultimately show ?lost using gap by metis
next
  assume ?lost
  then show ?gap using assms by (force simp: window_inv_def)
qed

lemma read_after_window:
  assumes "window_inv b" "0 \<le> c" "c \<le> int (bk_sequence b)"
  obtains w where "read_after (CursorInt c) b = Inr w" "win_latest w = bk_sequence b"
    and "win_gap w \<longleftrightarrow>
      (\<exists>e \<in> set (bk_accepted b). c < int (env_sequence e) \<and> e \<notin> set (bk_events b))"
    and "win_events w = events_after c b"
    and "\<not> win_gap w \<Longrightarrow> win_events w = drop (nat c) (bk_accepted b)"
proof
  show "read_after (CursorInt c) b = Inr (window_locked c b)"
    using assms by (simp add: read_after_def)
  show "win_gap (window_locked c b) \<longleftrightarrow>
      (\<exists>e \<in> set (bk_accepted b). c < int (env_sequence e) \<and> e \<notin> set (bk_events b))"
    using gap_iff_lost [OF assms(1,2)] assms(2) by (simp add: window_locked_def Let_def)
  show "win_events (window_locked c b) = drop (nat c) (bk_accepted b)"
    if "\<not> win_gap (window_locked c b)"
    using that assms events_after_no_gap [OF assms(1), of "nat c"]
    by (simp add: window_locked_def Let_def)
qed (use assms(2) in \<open>simp_all add: window_locked_def Let_def\<close>)

section \<open>A client that follows the stream\<close>

text \<open>
  The contract that a client of the replay window relies on: the history only grows, and a read at
  a cursor inside the history either reports a gap or returns everything after the cursor. A client
  that keeps what it has read and polls at its own length then always holds a prefix of the history,
  however the provider moves between the polls.
\<close>

locale resumable_log =
  fixes init :: "'s \<Rightarrow> bool" and step :: "'s \<Rightarrow> 's \<Rightarrow> bool"
    and history :: "'s \<Rightarrow> 'e list" and read :: "nat \<Rightarrow> 's \<Rightarrow> 'e list option"
  assumes history_grows: "reach init step s \<Longrightarrow> step s t \<Longrightarrow> prefix (history s) (history t)"
    and read_complete: "reach init step s \<Longrightarrow> k \<le> length (history s) \<Longrightarrow>
      read k s = Some es \<Longrightarrow> es = drop k (history s)"
begin

lemma history_run: "step\<^sup>*\<^sup>* s t \<Longrightarrow> reach init step s \<Longrightarrow> prefix (history s) (history t)"
proof (induction rule: rtranclp_induct)
  case base
  show ?case by simp
next
  case (step t u)
  then have "reach init step t" by (blast intro: reach_rtranclp)
  with step show ?case by (blast intro: prefix_order.trans history_grows)
qed

lemma poll_prefix:
  assumes "reach init step s" "prefix local (history s)" "step\<^sup>*\<^sup>* s t"
    and "read (length local) t = Some es"
  shows "local @ es = history t"
proof -
  have t: "reach init step t" using assms(1,3) by (rule reach_rtranclp)
  have p: "prefix local (history t)"
    using assms(2) history_run [OF assms(3,1)] by (rule prefix_order.trans)
  then have "es = drop (length local) (history t)"
    using read_complete [OF t _ assms(4)] prefix_length_le by blast
  with p show ?thesis by (auto simp: prefix_def)
qed

end

definition broker_read :: "nat \<Rightarrow> broker \<Rightarrow> envelope list option" where
  "broker_read k b =
     (case read_after (CursorInt (int k)) b of
        Inl _ \<Rightarrow> None
      | Inr w \<Rightarrow> if win_gap w then None else Some (win_events w))"

lemma accepted_length: "window_inv b \<Longrightarrow> length (bk_accepted b) = bk_sequence b"
proof -
  assume "window_inv b"
  then have "length (map env_sequence (bk_accepted b)) = length [1..<Suc (bk_sequence b)]"
    unfolding window_inv_def by (intro arg_cong [where f = length]) blast
  then show ?thesis by simp
qed

lemma accepted_grows: "broker_step b b' \<Longrightarrow> prefix (bk_accepted b) (bk_accepted b')"
  by (erule broker_step_window) (auto simp: window_view_def emit_window_simps)

interpretation broker_log: resumable_log is_new_broker broker_step bk_accepted broker_read
proof
  show "prefix (bk_accepted b) (bk_accepted b')" if "broker_step b b'" for b b'
    using that by (rule accepted_grows)
next
  fix b k es
  assume b: "broker_reach b" and k: "k \<le> length (bk_accepted b)" and r: "broker_read k b = Some es"
  have inv: "window_inv b" using b by (rule window_sys.reach_inv)
  have "read_after (CursorInt (int k)) b = Inr (window_locked (int k) b)"
    using k accepted_length [OF inv] by (simp add: read_after_def)
  with r have "bk_dropped_through b \<le> k" "es = events_after (int k) b"
    by (auto simp: broker_read_def window_locked_def Let_def split: if_splits)
  then show "es = drop k (bk_accepted b)" using events_after_no_gap [OF inv] by simp
qed

section \<open>The latest turn\<close>

text \<open>
  The recovery snapshot calls the run of events from \<open>bk_latest_turn_start\<close> on the latest turn. It is
  the maximal final run of the history with one turn id.
\<close>

definition turn_inv :: "broker \<Rightarrow> bool" where
  "turn_inv b \<longleftrightarrow>
     (case bk_latest_turn_start b of
        None \<Rightarrow> bk_latest_turn_id b = None \<and> bk_accepted b = []
      | Some s \<Rightarrow>
          bk_accepted b \<noteq> [] \<and> 1 \<le> s \<and> s \<le> bk_sequence b \<and>
          (\<forall>e \<in> set (bk_accepted b). s \<le> env_sequence e \<longrightarrow>
             bk_latest_turn_id b = Some (env_turn_id e)) \<and>
          (\<forall>e \<in> set (bk_accepted b). Suc (env_sequence e) = s \<longrightarrow>
             bk_latest_turn_id b \<noteq> Some (env_turn_id e)) \<and>
          bk_latest_turn_id b \<noteq> None)"

lemma turn_inv_view: "window_view b' = window_view b \<Longrightarrow> turn_inv b' = turn_inv b"
  by (cases "bk_latest_turn_start b") (simp_all add: window_view_def turn_inv_def)

lemma emit_turn_inv:
  assumes "\<not> bk_closed b" "window_inv b" "turn_inv b"
  shows "turn_inv (emit event b)"
proof -
  have low: "\<forall>e \<in> set (bk_accepted b). env_sequence e \<le> bk_sequence b"
    using window_inv_bounds [OF assms(2)] by blast
  show ?thesis
  proof (cases "bk_latest_turn_start b")
    case None
    then show ?thesis
      using assms(1,3) low by (auto simp: turn_inv_def emit_window_simps)
  next
    case (Some s)
    have last: "bk_latest_turn_id b = Some (env_turn_id e)"
      if "e \<in> set (bk_accepted b)" "env_sequence e = bk_sequence b" for e
      using that assms(3) Some by (auto simp: turn_inv_def)
    show ?thesis
      using Some assms(1,3) low last
      by (auto simp: turn_inv_def emit_window_simps split: if_splits)
  qed
qed

interpretation turn_sys: inv_system is_new_broker broker_step "\<lambda>b. window_inv b \<and> turn_inv b"
proof
  show "is_new_broker b \<Longrightarrow> window_inv b \<and> turn_inv b" for b
    by (erule is_new_broker.cases)
       (simp add: new_broker_window_inv, simp add: turn_inv_def new_broker_def Let_def)
next
  fix b b'
  assume inv: "window_inv b \<and> turn_inv b" and "broker_step b b'"
  from this(2) show "window_inv b' \<and> turn_inv b'"
  proof (cases rule: broker_step_window)
    case 1
    then show ?thesis using inv by (simp add: window_inv_view [of b' b] turn_inv_view [of b' b])
  next
    case (2 event)
    then show ?thesis using inv by (simp add: emit_window_inv emit_turn_inv)
  qed
qed

lemma first_sequence_of_turn_Some:
  "first_sequence_of_turn t es = Some n \<Longrightarrow>
     \<exists>e \<in> set es. env_turn_id e = t \<and> env_sequence e = n"
  by (induction es) (auto split: if_splits)

lemma first_sequence_of_turn_None:
  "first_sequence_of_turn t es = None \<longleftrightarrow> (\<forall>e \<in> set es. env_turn_id e \<noteq> t)"
  by (induction es) auto

lemma latest_retained:
  assumes "window_inv b" "bk_accepted b \<noteq> []"
  shows "last (bk_accepted b) \<in> set (bk_events b)"
    and "env_sequence (last (bk_accepted b)) = bk_sequence b"
proof -
  have "last (map env_sequence (bk_accepted b)) = last [1..<Suc (bk_sequence b)]"
    using assms(1) unfolding window_inv_def by metis
  moreover have pos: "0 < bk_sequence b"
    using accepted_length [OF assms(1)] assms(2) by (metis length_greater_0_conv)
  ultimately show seq: "env_sequence (last (bk_accepted b)) = bk_sequence b"
    using assms(2) by (simp add: last_map)
  have "bk_dropped_through b < bk_sequence b"
    using assms(1) pos by (auto simp: window_inv_def)
  then show "last (bk_accepted b) \<in> set (bk_events b)"
    using assms seq by (auto simp: window_inv_def)
qed

lemma intact_iff:
  assumes "window_inv b" "turn_inv b" "bk_latest_turn_start b = Some s"
  shows "rs_latest_turn_intact (recovery_state b) \<longleftrightarrow>
    (\<forall>e \<in> set (bk_accepted b). s \<le> env_sequence e \<longrightarrow> e \<in> set (bk_events b))"
proof -
  from assms(2,3) obtain t where t: "bk_latest_turn_id b = Some t" and s: "1 \<le> s" "s \<le> bk_sequence b"
    and ne: "bk_accepted b \<noteq> []"
    and run: "\<And>e. e \<in> set (bk_accepted b) \<Longrightarrow> s \<le> env_sequence e \<Longrightarrow> env_turn_id e = t"
    by (auto simp: turn_inv_def)
  have "env_turn_id (last (bk_accepted b)) = t"
    using run ne latest_retained(2) [OF assms(1) ne] s(2) by simp
  then obtain r where r: "first_sequence_of_turn t (bk_events b) = Some r"
    using latest_retained(1) [OF assms(1) ne] first_sequence_of_turn_None
    by (cases "first_sequence_of_turn t (bk_events b)") auto
  have "rs_latest_turn_intact (recovery_state b) \<longleftrightarrow> \<not> int s - 1 < int (bk_dropped_through b)"
    using t r assms(3) by (auto simp: recovery_state_def Let_def)
  also have "\<dots> \<longleftrightarrow> (\<forall>e \<in> set (bk_accepted b). s \<le> env_sequence e \<longrightarrow> e \<in> set (bk_events b))"
    using gap_iff_lost [OF assms(1), of "int s - 1"] s by fastforce
  finally show ?thesis .
qed

lemma first_preview_Some:
  "first_preview es = Some i \<Longrightarrow> is_preview (ev_kind (env_event (es ! i)))"
  by (induction es arbitrary: i) (auto split: if_splits)

lemma first_preview_None:
  "first_preview es = None \<longleftrightarrow> (\<forall>x \<in> set es. \<not> is_preview (ev_kind (env_event x)))"
  by (induction es) auto

lemma lossless_not_preview: "is_lossless k \<Longrightarrow> \<not> is_preview k"
  by (cases k) auto

lemma make_room_evicts:
  assumes "e \<in> set (bk_events b)" "e \<notin> set (bk_events (make_room_locked k b))"
    and "is_lossless (ev_kind (env_event e))"
  shows "e = hd (bk_events b) \<and> (\<forall>x \<in> set (bk_events b). \<not> is_preview (ev_kind (env_event x))) \<and>
    (bk_hard_cap b \<le> length (bk_events b) \<or> \<not> is_lossless k)"
proof (cases "first_preview (bk_events b)")
  case (Some i)
  with assms(1,2) have "e = bk_events b ! i"
    by (auto simp: make_room_locked_def dest: deleted_is_nth split: if_splits)
  with Some assms(3) show ?thesis
    using first_preview_Some lossless_not_preview by blast
next
  case None
  with assms(1,2) have "e = bk_events b ! 0"
    and "bk_hard_cap b \<le> length (bk_events b) \<or> \<not> is_lossless k"
    by (auto simp: make_room_locked_def dest: deleted_is_nth split: if_splits)
  moreover have "\<forall>x \<in> set (bk_events b). \<not> is_preview (ev_kind (env_event x))"
    using None first_preview_None by blast
  ultimately show ?thesis
    using assms(1) by (cases "bk_events b") auto
qed

section \<open>Properties\<close>

text \<open>
  C12: Reading after a cursor is exact. In every reachable state of the broker and for every cursor
  from 0 to the latest sequence, \<open>read_after\<close> succeeds; it reports a gap exactly when some event
  after the cursor has been evicted; and without a gap it returns every event accepted after the
  cursor, in order and without a hole.
\<close>

theorem read_after_exact:
  assumes "broker_reach b" "0 \<le> c" "c \<le> int (bk_sequence b)"
  shows "\<exists>w. read_after (CursorInt c) b = Inr w \<and> win_latest w = bk_sequence b \<and>
    (win_gap w \<longleftrightarrow>
       (\<exists>e \<in> set (bk_accepted b). c < int (env_sequence e) \<and> e \<notin> set (bk_events b))) \<and>
    (\<not> win_gap w \<longrightarrow> win_events w = drop (nat c) (bk_accepted b))"
  using read_after_window [OF window_sys.reach_inv [OF assms(1)] assms(2,3)] by metis

definition sample_event :: "turn_event_kind \<Rightarrow> string \<Rightarrow> turn_event" where
  "sample_event k t =
     \<lparr>ev_version = EVENT_VERSION, ev_thread_id = ''thread'', ev_turn_id = t, ev_sequence = 0,
      ev_kind = k, ev_payload = Plain PNone\<rparr>"

lemma broker_reach_new: "broker_reach (new_broker t m h ep)"
  by (intro reach_init is_new_broker.intros)

lemma broker_reach_emit: "broker_reach b \<Longrightarrow> broker_reach (emit event b)"
  by (erule reach_step) (rule broker_step.step_emit)

lemma broker_reach_fold_emit: "broker_reach b \<Longrightarrow> broker_reach (fold (\<lambda>_. emit event) xs b)"
  by (induction xs arbitrary: b) (simp_all add: broker_reach_emit)

definition sample_broker :: broker where
  "sample_broker = emit (sample_event TOOL_STARTED ''turn'') (new_broker ''thread'' 16 None ''epoch'')"

lemma sample_broker_reach: "broker_reach sample_broker"
  unfolding sample_broker_def
  by (intro broker_reach_emit broker_reach_new)

lemma sample_broker_simps:
  "bk_sequence sample_broker = 1" "bk_closed sample_broker = False"
  "bk_latest_turn_start sample_broker = Some 1"
  by (simp_all add: sample_broker_def emit_window_simps new_broker_def Let_def)
     (simp add: emit_def Let_def make_room_locked_def)

theorem read_after_exact_witness:
  "\<exists>w. read_after (CursorInt 0) sample_broker = Inr w \<and> win_latest w = 1 \<and>
    (\<not> win_gap w \<longrightarrow> win_events w = bk_accepted sample_broker)"
  using read_after_exact [OF sample_broker_reach, of 0] by (auto simp: sample_broker_simps)


definition full_broker :: broker where
  "full_broker =
     fold (\<lambda>_. emit (sample_event TOOL_STARTED ''turn'')) [0..<16]
       (new_broker ''thread'' 16 (Some 16) ''epoch'')"

lemma full_broker_reach: "broker_reach full_broker"
  unfolding full_broker_def by (intro broker_reach_fold_emit broker_reach_new)

lemma full_broker_evaluated:
  "\<not> bk_closed full_broker \<and> hd (bk_events full_broker) \<in> set (bk_events full_broker) \<and>
    hd (bk_events full_broker) \<notin>
      set (bk_events (emit (sample_event TOOL_RESULT ''turn'') full_broker)) \<and>
    is_lossless (ev_kind (env_event (hd (bk_events full_broker)))) \<and> bk_hard_cap full_broker = 16"
  by code_simp


text \<open>
  The recovery snapshot is exact about the latest turn. When events were accepted,
  \<open>latest_turn_start\<close> is the first event of the final run of one turn id, and
  \<open>latest_turn_intact\<close> holds exactly when every event of that run is still retained; then reading
  from just before it replays the whole run and nothing else.
\<close>

theorem recovery_intact_exact:
  assumes "broker_reach b" "rs_latest_turn_start (recovery_state b) = Some s"
  shows "(rs_latest_turn_intact (recovery_state b) \<longleftrightarrow>
      (\<forall>e \<in> set (bk_accepted b). s \<le> env_sequence e \<longrightarrow> e \<in> set (bk_events b))) \<and>
    (rs_latest_turn_intact (recovery_state b) \<longrightarrow>
      (\<exists>w. read_after (CursorInt (int s - 1)) b = Inr w \<and> \<not> win_gap w \<and>
         win_events w = drop (s - 1) (bk_accepted b) \<and>
         (\<forall>e \<in> set (win_events w).
            rs_latest_turn_id (recovery_state b) = Some (env_turn_id e))))"
proof -
  have inv: "window_inv b" "turn_inv b"
    using turn_sys.reach_inv [OF assms(1)] by auto
  have st: "bk_latest_turn_start b = Some s"
    using assms(2) by (simp add: recovery_state_def Let_def)
  note exact = intact_iff [OF inv st]
  have s: "1 \<le> s" "s \<le> bk_sequence b" using inv(2) st by (auto simp: turn_inv_def)
  have run: "bk_latest_turn_id b = Some (env_turn_id e)" if "e \<in> set (drop (s - 1) (bk_accepted b))" for e
    using that inv s(1) st drop_accepted [of "bk_accepted b" "bk_sequence b" "s - 1"]
    by (auto simp: turn_inv_def window_inv_def)
  have "\<exists>w. read_after (CursorInt (int s - 1)) b = Inr w \<and> \<not> win_gap w \<and>
      win_events w = drop (s - 1) (bk_accepted b)"
    if intact: "\<forall>e \<in> set (bk_accepted b). s \<le> env_sequence e \<longrightarrow> e \<in> set (bk_events b)"
  proof -
    have "0 \<le> int s - 1" "int s - 1 \<le> int (bk_sequence b)" "nat (int s - 1) = s - 1"
      using s by auto
    moreover have "\<not> (\<exists>e \<in> set (bk_accepted b). int s - 1 < int (env_sequence e) \<and>
        e \<notin> set (bk_events b))"
      using intact by force
    ultimately show ?thesis by (metis read_after_window [OF inv(1)])
  qed
  with exact run show ?thesis by (auto simp: recovery_state_def Let_def)
qed

theorem recovery_intact_exact_witness:
  "rs_latest_turn_start (recovery_state sample_broker) = Some 1 \<and>
    rs_latest_turn_intact (recovery_state sample_broker)"
proof -
  have start: "rs_latest_turn_start (recovery_state sample_broker) = Some 1"
    by (simp add: recovery_state_def sample_broker_simps Let_def)
  have "\<forall>e \<in> set (bk_accepted sample_broker). e \<in> set (bk_events sample_broker)"
    by code_simp
  with start recovery_intact_exact [OF sample_broker_reach start] show ?thesis by blast
qed

text \<open>
  C14: A client that polls with \<open>read_after\<close> at the length of what it holds keeps an exact copy. If it
  holds a prefix of the history, the broker then makes any steps, and the poll succeeds without a
  gap, then what it holds followed by what it got is the whole history at that moment.
\<close>

theorem polling_client_exact:
  assumes "broker_reach b" "prefix held (bk_accepted b)" "broker_step\<^sup>*\<^sup>* b b'"
    and "read_after (CursorInt (int (length held))) b' = Inr w" "\<not> win_gap w"
  shows "held @ win_events w = bk_accepted b'"
  using broker_log.poll_prefix [OF assms(1-3), of "win_events w"] assms(4,5)
  by (simp add: broker_read_def)

theorem polling_client_exact_witness:
  "\<exists>w. read_after (CursorInt 0) sample_broker = Inr w \<and> win_events w = bk_accepted sample_broker"
proof -
  have "(case read_after (CursorInt 0) sample_broker of Inl _ \<Rightarrow> False | Inr w \<Rightarrow> \<not> win_gap w)"
    by code_simp
  then obtain w where w: "read_after (CursorInt (int (length []))) sample_broker = Inr w" "\<not> win_gap w"
    by (auto split: sum.splits)
  have "[] @ win_events w = bk_accepted sample_broker"
    using polling_client_exact [of sample_broker "[]" sample_broker w] sample_broker_reach w by simp
  with w show ?thesis by auto
qed

end
