(* ===== verification/Session_Delivery.thy ===== *)
theory Session_Delivery
  imports Session_Replay
begin

text \<open>
  Delivery by the broker's serial drainer. For each subscriber record, \<open>stream\<close> is what it was
  called with, followed by what the drainer is about to call it with, followed by what is queued for
  it. The invariant \<open>delivery_inv\<close> says that this stream is strictly sorted by sequence, \<open>control_inv\<close>
  ties the position of the drainer to the flags, and \<open>close_inv\<close> describes the close notification.
  \<open>drain_all\<close> runs the drainer to its end when nothing interleaves; it terminates, and delivers
  everything whatever the callbacks raise, as long as none of them leaves the process.
\<close>

section \<open>Streams\<close>

fun calls_to :: "nat \<Rightarrow> cb_call list \<Rightarrow> envelope list" where
  "calls_to r [] = []"
| "calls_to r (Callback q e # cs) = (if q = r then e # calls_to r cs else calls_to r cs)"
| "calls_to r (OnClose q # cs) = calls_to r cs"

fun in_flight :: "nat \<Rightarrow> drainer \<Rightarrow> envelope list" where
  "in_flight r (Deliver e rs) = (if r \<in> set rs then [e] else [])"
| "in_flight r _ = []"

definition queued_for :: "nat \<Rightarrow> (envelope \<times> nat list) list \<Rightarrow> envelope list" where
  "queued_for r q = map fst (filter (\<lambda>(e, rs). r \<in> set rs) q)"

definition stream :: "nat \<Rightarrow> broker \<Rightarrow> envelope list" where
  "stream r b =
     calls_to r (bk_calls b) @ in_flight r (bk_drainer b) @ queued_for r (bk_delivery b)"

lemma calls_to_append [simp]: "calls_to r (xs @ ys) = calls_to r xs @ calls_to r ys"
  by (induction r xs rule: calls_to.induct) auto

lemma queued_for_simps [simp]:
  "queued_for r [] = []"
  "queued_for r ((e, rs) # q) = (if r \<in> set rs then e # queued_for r q else queued_for r q)"
  "queued_for r (q @ q') = queued_for r q @ queued_for r q'"
  "queued_for r (map (\<lambda>e. (e, [i])) es) = (if r = i then es else [])"
  by (auto simp: queued_for_def comp_def)

section \<open>Control\<close>

text \<open>Where the drainer may be, given the flags.\<close>

definition control_inv :: "broker \<Rightarrow> bool" where
  "control_inv b \<longleftrightarrow>
     (case bk_drainer b of
        Idle \<Rightarrow> \<not> bk_dispatching b
      | Head \<Rightarrow> bk_dispatching b \<and> \<not> bk_close_notified b
      | Deliver e rs \<Rightarrow> bk_dispatching b \<and> \<not> bk_close_notified b
      | Notify rs \<Rightarrow> \<not> bk_dispatching b \<and> bk_close_notified b
      | Escape e \<Rightarrow> bk_dispatching b \<noteq> bk_close_notified b) \<and>
     (bk_close_notified b \<longrightarrow> bk_closed b \<and> bk_delivery b = [] \<and> bk_pending_close b = []) \<and>
     (bk_closed b \<longrightarrow> bk_subscribers b = []) \<and>
     (\<not> bk_closed b \<longrightarrow> bk_pending_close b = [])"

lemmas broker_op_defs = emit_def claim_drainer_def subscribe_def subscribe_from_def forward_to_def
  register_def subscription_close_def close_subscription_def close_def drain_step_def
  dispatch_head_def leave_dispatch_def deliver_call_def notify_call_def escape_def remember_def

lemma make_room_control [simp]:
  "bk_closed (make_room_locked k b) = bk_closed b"
  "bk_dispatching (make_room_locked k b) = bk_dispatching b"
  "bk_close_notified (make_room_locked k b) = bk_close_notified b"
  "bk_drainer (make_room_locked k b) = bk_drainer b"
  "bk_delivery (make_room_locked k b) = bk_delivery b"
  "bk_pending_close (make_room_locked k b) = bk_pending_close b"
  "bk_calls (make_room_locked k b) = bk_calls b"
  "bk_records (make_room_locked k b) = bk_records b"
  "bk_next_subscription_id (make_room_locked k b) = bk_next_subscription_id b"
  "bk_first_exception (make_room_locked k b) = bk_first_exception b"
  by (simp_all add: make_room_locked_def evict_locked_def split: option.split)

lemma control_emit: "control_inv b \<Longrightarrow> control_inv (emit event b)"
  by (auto simp: control_inv_def emit_def claim_drainer_def Let_def split: drainer.splits)

lemma control_subscribe: "control_inv b \<Longrightarrow> control_inv (snd (subscribe cb n b))"
  by (auto simp: control_inv_def subscribe_def register_def Let_def split: drainer.splits)

lemma control_subscribe_from: "control_inv b \<Longrightarrow> control_inv (snd (subscribe_from cb c oc b))"
  by (auto simp: control_inv_def subscribe_from_def register_def Let_def
      split: drainer.splits sum.split)

lemma control_forward: "control_inv b \<Longrightarrow> control_inv (snd (forward_to ok cb n b))"
  by (auto simp: control_inv_def forward_to_def register_def claim_drainer_def Let_def
      split: drainer.splits)

lemma control_close_subscription: "control_inv b \<Longrightarrow> control_inv (subscription_close s b)"
  by (auto simp: control_inv_def subscription_close_def close_subscription_def
      split: drainer.splits option.split)

lemma control_close: "control_inv b \<Longrightarrow> control_inv (close b)"
  by (auto simp: control_inv_def close_def claim_drainer_def Let_def split: drainer.splits)

lemma control_drain: "control_inv b \<Longrightarrow> control_inv (drain_step out b)"
  by (cases "bk_drainer b")
     (auto simp: control_inv_def drain_step_def dispatch_head_def leave_dispatch_def deliver_call_def
       notify_call_def escape_def remember_def Let_def
       split: list.split cb_outcome.split option.split)

lemma new_broker_control: "control_inv (new_broker t m h ep)"
  by (simp add: control_inv_def new_broker_def Let_def)

lemmas control_ops = control_emit control_subscribe control_subscribe_from control_forward
  control_close_subscription control_close control_drain

interpretation control_sys: inv_system is_new_broker broker_step control_inv
proof
  show "is_new_broker b \<Longrightarrow> control_inv b" for b
    by (erule is_new_broker.cases) (simp add: new_broker_control)
  show "control_inv b \<Longrightarrow> broker_step b b' \<Longrightarrow> control_inv b'" for b b'
    by (rotate_tac, erule broker_step.cases) (auto intro: control_ops)
qed

section \<open>What each operation does to the streams\<close>

lemma subseq_set: "subseq xs ys \<Longrightarrow> set xs \<subseteq> set ys"
  by (auto dest: list_emb_set)

lemma sorted_wrt_subseq: "subseq xs ys \<Longrightarrow> sorted_wrt P ys \<Longrightarrow> sorted_wrt P xs"
  by (induction rule: list_emb.induct) (auto dest: list_emb_set)

lemma in_flight_free: "control_inv b \<Longrightarrow> \<not> bk_dispatching b \<Longrightarrow> in_flight r (bk_drainer b) = []"
  by (auto simp: control_inv_def split: drainer.splits)

lemma stream_emit:
  assumes "control_inv b" "\<not> bk_closed b"
  shows "stream r (emit event b) =
    stream r b @ (if r \<in> set (bk_subscribers b) then [next_envelope event b] else [])"
  using assms in_flight_free [OF assms(1), of r]
  by (auto simp: stream_def emit_def claim_drainer_def next_envelope_def Let_def)

lemma stream_subscribe: "stream r (snd (subscribe cb n b)) = stream r b"
  by (simp add: stream_def subscribe_def register_def Let_def)

lemma stream_subscribe_from: "stream r (snd (subscribe_from cb c oc b)) = stream r b"
  by (simp add: stream_def subscribe_from_def register_def Let_def split: sum.split)

lemma stream_forward:
  assumes "control_inv b"
  shows "stream r (snd (forward_to ok cb n b)) =
    stream r b @ (if ok \<and> \<not> bk_closed b \<and> r = Suc (bk_next_subscription_id b)
      then events_after n b else [])"
  using in_flight_free [OF assms, of r]
  by (auto simp: stream_def forward_to_def register_def claim_drainer_def Let_def)

lemma stream_close_subscription: "stream r (subscription_close s b) = stream r b"
  by (simp add: stream_def subscription_close_def close_subscription_def split: option.split)

lemma stream_close: "control_inv b \<Longrightarrow> stream r (close b) = stream r b"
  using in_flight_free [of b r]
  by (auto simp: stream_def close_def claim_drainer_def Let_def)

lemma stream_drain_no_exit:
  assumes "control_inv b" "\<And>x. out \<noteq> CbExit x"
    and "case bk_drainer b of Deliver e rs \<Rightarrow> distinct rs | _ \<Rightarrow> True"
  shows "stream r (drain_step out b) = stream r b"
  using assms
  by (cases "bk_drainer b"; cases out)
     (auto simp: stream_def control_inv_def drain_step_def dispatch_head_def leave_dispatch_def
       deliver_call_def notify_call_def escape_def remember_def Let_def
       split: list.split option.split)

lemma stream_drain_exit:
  assumes "case bk_drainer b of Deliver e rs \<Rightarrow> distinct rs | _ \<Rightarrow> True"
  shows "subseq (stream r (drain_step (CbExit x) b)) (stream r b)"
  using assms
  by (cases "bk_drainer b")
     (auto simp: stream_def drain_step_def dispatch_head_def leave_dispatch_def
       deliver_call_def notify_call_def escape_def remember_def Let_def
       split: list.split option.split intro!: list_emb_append_mono)

section \<open>The delivery invariant\<close>

definition delivery_inv :: "broker \<Rightarrow> bool" where
  "delivery_inv b \<longleftrightarrow>
     (\<forall>r. sorted_wrt (<) (map env_sequence (stream r b)) \<and>
          set (stream r b) \<subseteq> set (bk_accepted b) \<and>
          (stream r b \<noteq> [] \<longrightarrow> r \<le> bk_next_subscription_id b)) \<and>
     (\<forall>r \<in> set (bk_subscribers b). r \<le> bk_next_subscription_id b) \<and>
     distinct (bk_subscribers b) \<and>
     (\<forall>(e, rs) \<in> set (bk_delivery b). distinct rs) \<and>
     (case bk_drainer b of Deliver e rs \<Rightarrow> distinct rs | _ \<Rightarrow> True)"

definition broker_inv :: "broker \<Rightarrow> bool" where
  "broker_inv b \<longleftrightarrow> window_inv b \<and> control_inv b \<and> delivery_inv b"

text \<open>The parts of the invariant that are not about streams.\<close>

lemma emit_registry:
  assumes "\<not> bk_closed b"
  shows "bk_subscribers (emit event b) = bk_subscribers b"
    and "bk_next_subscription_id (emit event b) = bk_next_subscription_id b"
    and "set (bk_delivery (emit event b)) \<subseteq>
      set (bk_delivery b) \<union> {(next_envelope event b, bk_subscribers b)}"
    and "bk_drainer (emit event b) = bk_drainer b \<or> bk_drainer (emit event b) = Head"
  using assms by (auto simp: emit_def claim_drainer_def next_envelope_def Let_def)

lemma delivery_emit:
  assumes "broker_inv b"
  shows "delivery_inv (emit event b)"
proof (cases "bk_closed b")
  case True
  then show ?thesis using assms by (simp add: emit_def broker_inv_def)
next
  case False
  have inv: "window_inv b" "control_inv b" "delivery_inv b" using assms by (auto simp: broker_inv_def)
  have "env_sequence e \<le> bk_sequence b" if "e \<in> set (stream r b)" for r e
    using that inv(1,3) window_inv_bounds(2) by (force simp: delivery_inv_def)
  then have "sorted_wrt (<) (map env_sequence (stream r (emit event b))) \<and>
      set (stream r (emit event b)) \<subseteq> set (bk_accepted (emit event b)) \<and>
      (stream r (emit event b) \<noteq> [] \<longrightarrow> r \<le> bk_next_subscription_id b)" for r
    using inv(3) False
    by (auto simp: stream_emit [OF inv(2)] delivery_inv_def sorted_wrt_append emit_window_simps(1)
        less_Suc_eq_le)
  then show ?thesis
    using inv(3) emit_registry [OF False, of event]
    by (auto simp: delivery_inv_def split: drainer.splits)
qed

lemma register_fresh:
  assumes "delivery_inv b"
  shows "stream (Suc (bk_next_subscription_id b)) b = []"
    and "Suc (bk_next_subscription_id b) \<notin> set (bk_subscribers b)"
  using assms by (force simp: delivery_inv_def)+

lemma accepted_frame:
  "window_view b' = window_view b \<Longrightarrow> bk_accepted b' = bk_accepted b"
  by (simp add: window_view_def)

text \<open>An operation that leaves every stream and the queued record lists alone.\<close>

lemma delivery_frame:
  assumes "delivery_inv b" "\<And>r. stream r b' = stream r b" "bk_accepted b' = bk_accepted b"
    and "bk_next_subscription_id b \<le> bk_next_subscription_id b'"
    and "\<forall>r \<in> set (bk_subscribers b'). r \<le> bk_next_subscription_id b'"
    and "distinct (bk_subscribers b')"
    and "bk_delivery b' = bk_delivery b" "bk_drainer b' = bk_drainer b \<or> bk_drainer b' = Head"
  shows "delivery_inv b'"
  using assms by (fastforce simp: delivery_inv_def split: drainer.splits)

lemma register_registry:
  assumes "delivery_inv b"
  shows "\<forall>r \<in> set (bk_subscribers (snd (register cb oc b))).
      r \<le> bk_next_subscription_id (snd (register cb oc b))"
    and "distinct (bk_subscribers (snd (register cb oc b)))"
  using assms register_fresh [OF assms]
  by (auto simp: register_def Let_def delivery_inv_def le_SucI)

lemma register_other [simp]:
  "bk_next_subscription_id (snd (register cb oc b)) = Suc (bk_next_subscription_id b)"
  "bk_delivery (snd (register cb oc b)) = bk_delivery b"
  "bk_drainer (snd (register cb oc b)) = bk_drainer b"
  by (simp_all add: register_def Let_def)

lemma subscribe_registers:
  "snd (subscribe cb n b) = (if bk_closed b then b else snd (register cb None b))"
  by (simp add: subscribe_def Let_def split_beta)

lemma subscribe_from_registers:
  "snd (subscribe_from cb c oc b) = b \<or> snd (subscribe_from cb c oc b) = snd (register cb oc b)"
  by (simp add: subscribe_from_def Let_def split_beta split: sum.split)

lemma delivery_subscribe:
  assumes "delivery_inv b"
  shows "delivery_inv (snd (subscribe cb n b))"
proof (cases "bk_closed b")
  case True
  then show ?thesis using assms by (simp add: subscribe_registers)
next
  case False
  have eq: "snd (subscribe cb n b) = snd (register cb None b)"
    using False by (simp add: subscribe_registers)
  show ?thesis
    by (rule delivery_frame [OF assms stream_subscribe accepted_frame [OF window_view_subscribe]])
       (use register_registry [OF assms] in \<open>auto simp: eq\<close>)
qed

lemma delivery_subscribe_from:
  assumes "delivery_inv b"
  shows "delivery_inv (snd (subscribe_from cb c oc b))"
  using subscribe_from_registers [of cb c oc b]
proof
  assume eq: "snd (subscribe_from cb c oc b) = snd (register cb oc b)"
  show ?thesis
    by (rule delivery_frame [OF assms stream_subscribe_from
          accepted_frame [OF window_view_subscribe_from]])
       (use register_registry [OF assms] in \<open>auto simp: eq\<close>)
qed (use assms in simp)

lemma delivery_close_subscription:
  assumes "delivery_inv b"
  shows "delivery_inv (subscription_close s b)"
  by (rule delivery_frame [OF assms stream_close_subscription
        accepted_frame [OF window_view_close_subscription]])
     (use assms in \<open>auto simp: delivery_inv_def subscription_close_def close_subscription_def
        distinct_removeAll split: option.splits\<close>)

lemma delivery_close:
  assumes "control_inv b" "delivery_inv b"
  shows "delivery_inv (close b)"
  by (rule delivery_frame [OF assms(2) stream_close [OF assms(1)]
        accepted_frame [OF window_view_close]])
     (use assms(2) in \<open>auto simp: delivery_inv_def close_def claim_drainer_def Let_def\<close>)

lemma delivery_forward:
  assumes "broker_inv b"
  shows "delivery_inv (snd (forward_to ok cb n b))"
proof -
  let ?b = "snd (forward_to ok cb n b)" and ?i = "Suc (bk_next_subscription_id b)"
  have inv: "window_inv b" "control_inv b" "delivery_inv b" using assms by (auto simp: broker_inv_def)
  have new: "sorted_wrt (<) (map env_sequence (events_after n b))"
    "set (events_after n b) \<subseteq> set (bk_accepted b)"
    using events_after_window [OF inv(1), of n] inv(1) by (auto simp: window_inv_def)
  have reg: "bk_next_subscription_id b \<le> bk_next_subscription_id ?b"
    "ok \<and> \<not> bk_closed b \<Longrightarrow> bk_next_subscription_id ?b = ?i"
    "set (bk_subscribers ?b) \<subseteq> insert ?i (set (bk_subscribers b))"
    "\<not> (ok \<and> \<not> bk_closed b) \<Longrightarrow> ?b = b"
    "distinct (bk_subscribers b) \<Longrightarrow> ?i \<notin> set (bk_subscribers b) \<Longrightarrow> distinct (bk_subscribers ?b)"
    "\<forall>(e, rs) \<in> set (bk_delivery ?b). (e, rs) \<in> set (bk_delivery b) \<or> rs = [?i]"
    "bk_drainer ?b = bk_drainer b \<or> bk_drainer ?b = Head"
    by (auto simp: forward_to_def register_def claim_drainer_def Let_def)
  show ?thesis
  proof (cases "ok \<and> \<not> bk_closed b")
    case True
    have str: "sorted_wrt (<) (map env_sequence (stream r ?b)) \<and>
        set (stream r ?b) \<subseteq> set (bk_accepted b) \<and>
        (stream r ?b \<noteq> [] \<longrightarrow> r \<le> ?i)" for r
      using inv(3) new register_fresh [OF inv(3)] True
      by (cases "r = ?i") (auto simp: stream_forward [OF inv(2)] delivery_inv_def le_SucI)
    show ?thesis
      unfolding delivery_inv_def
    proof (intro conjI allI)
      show "distinct (bk_subscribers ?b)"
        using reg(5) register_fresh(2) [OF inv(3)] inv(3) by (simp add: delivery_inv_def)
      show "\<forall>r \<in> set (bk_subscribers ?b). r \<le> bk_next_subscription_id ?b"
        using reg(2,3) True inv(3) by (auto simp: delivery_inv_def le_SucI)
      show "\<forall>(e, rs) \<in> set (bk_delivery ?b). distinct rs"
        using reg(6) inv(3) by (fastforce simp: delivery_inv_def)
      show "case bk_drainer ?b of Deliver e rs \<Rightarrow> distinct rs | _ \<Rightarrow> True"
        using reg(7) inv(3) by (auto simp: delivery_inv_def)
    qed (use str reg(2) True accepted_frame [OF window_view_forward, of ok cb n b] in auto)
  next
    case False
    with reg(4) inv(3) show ?thesis by simp
  qed
qed

lemma drain_registry:
  "bk_subscribers (drain_step out b) = bk_subscribers b \<and>
   bk_next_subscription_id (drain_step out b) = bk_next_subscription_id b \<and>
   set (bk_delivery (drain_step out b)) \<subseteq> set (bk_delivery b)"
  by (auto simp: drain_step_def dispatch_head_def leave_dispatch_def deliver_call_def
      notify_call_def escape_def remember_def Let_def
      split: drainer.split list.split option.split cb_outcome.split)

lemma drain_distinct:
  assumes "delivery_inv b"
  shows "case bk_drainer (drain_step out b) of Deliver e rs \<Rightarrow> distinct rs | _ \<Rightarrow> True"
  using assms
  by (cases "bk_drainer b")
     (auto simp: delivery_inv_def drain_step_def dispatch_head_def leave_dispatch_def deliver_call_def
      notify_call_def escape_def remember_def Let_def
      split: list.split option.split cb_outcome.split)

lemma stream_drain_subseq:
  assumes "control_inv b" "delivery_inv b"
  shows "subseq (stream r (drain_step out b)) (stream r b)"
  using assms stream_drain_no_exit [OF assms(1), of out r] stream_drain_exit [of b r]
  by (cases out) (auto simp: delivery_inv_def)

lemma delivery_drain:
  assumes "broker_inv b"
  shows "delivery_inv (drain_step out b)"
proof -
  have inv: "control_inv b" "delivery_inv b" using assms by (auto simp: broker_inv_def)
  note sub = stream_drain_subseq [OF inv, of _ out]
  have acc: "bk_accepted (drain_step out b) = bk_accepted b"
    by (rule accepted_frame) simp
  have "sorted_wrt (<) (map env_sequence (stream r (drain_step out b))) \<and>
      set (stream r (drain_step out b)) \<subseteq> set (bk_accepted (drain_step out b)) \<and>
      (stream r (drain_step out b) \<noteq> [] \<longrightarrow> r \<le> bk_next_subscription_id (drain_step out b))" for r
  proof -
    have old: "sorted_wrt (<) (map env_sequence (stream r b))" "set (stream r b) \<subseteq> set (bk_accepted b)"
      "stream r b \<noteq> [] \<longrightarrow> r \<le> bk_next_subscription_id b"
      using inv(2) by (auto simp: delivery_inv_def)
    have "sorted_wrt (<) (map env_sequence (stream r (drain_step out b)))"
      by (rule sorted_wrt_subseq [OF subseq_map [OF sub] old(1)])
    moreover have "set (stream r (drain_step out b)) \<subseteq> set (bk_accepted (drain_step out b))"
      using subseq_set [OF sub] old(2) acc by auto
    moreover have "stream r (drain_step out b) \<noteq> [] \<Longrightarrow> stream r b \<noteq> []"
      using subseq_set [OF sub [of r]] by (cases "stream r b") auto
    ultimately show ?thesis using old(3) drain_registry [of out b] by auto
  qed
  moreover have "\<forall>(e, rs) \<in> set (bk_delivery (drain_step out b)). distinct rs"
    using drain_registry [of out b] inv(2) by (auto simp: delivery_inv_def)
  moreover have "\<forall>r \<in> set (bk_subscribers (drain_step out b)).
      r \<le> bk_next_subscription_id (drain_step out b)" "distinct (bk_subscribers (drain_step out b))"
    using drain_registry [of out b] inv(2) by (auto simp: delivery_inv_def)
  ultimately show ?thesis
    using drain_distinct [OF inv(2), of out] unfolding delivery_inv_def by blast
qed

lemma new_broker_delivery: "delivery_inv (new_broker t m h ep)"
  by (simp add: delivery_inv_def new_broker_def stream_def Let_def)

interpretation broker_sys: inv_system is_new_broker broker_step broker_inv
proof
  show "is_new_broker b \<Longrightarrow> broker_inv b" for b
    by (erule is_new_broker.cases)
       (simp add: broker_inv_def new_broker_window_inv new_broker_control new_broker_delivery)
next
  fix b b'
  assume inv: "broker_inv b" and st: "broker_step b b'"
  have "delivery_inv b'"
    using st inv unfolding broker_inv_def
    by (cases rule: broker_step.cases)
       (auto intro: delivery_emit delivery_subscribe delivery_subscribe_from delivery_forward
         delivery_close_subscription delivery_close delivery_drain simp: broker_inv_def)
  then show "broker_inv b'"
    using window_sys.step_inv [OF _ st] control_sys.step_inv [OF _ st] inv
    by (simp add: broker_inv_def)
qed

section \<open>The close notification\<close>

fun on_closes :: "cb_call list \<Rightarrow> nat list" where
  "on_closes [] = []"
| "on_closes (Callback q e # cs) = on_closes cs"
| "on_closes (OnClose q # cs) = q # on_closes cs"

text \<open>No subscriber callback comes after a close notification.\<close>

fun callbacks_first :: "cb_call list \<Rightarrow> bool" where
  "callbacks_first [] = True"
| "callbacks_first (Callback q e # cs) = callbacks_first cs"
| "callbacks_first (OnClose q # cs) = list_all (\<lambda>c. case c of OnClose _ \<Rightarrow> True | _ \<Rightarrow> False) cs"

fun notifying :: "drainer \<Rightarrow> nat list" where
  "notifying (Notify rs) = rs"
| "notifying _ = []"

definition has_on_close :: "(nat \<Rightarrow> subscriber_record option) \<Rightarrow> nat \<Rightarrow> bool" where
  "has_on_close h r \<longleftrightarrow> Option.bind (h r) sr_on_close \<noteq> None"

text \<open>The records whose close observer is still to be run.\<close>

definition owed :: "broker \<Rightarrow> nat list" where
  "owed b = filter (has_on_close (bk_records b)) (notifying (bk_drainer b) @ bk_pending_close b)"

lemma on_closes_append [simp]: "on_closes (xs @ ys) = on_closes xs @ on_closes ys"
  by (induction xs rule: on_closes.induct) auto

lemma callbacks_first_OnClose [simp]: "callbacks_first (cs @ [OnClose r]) = callbacks_first cs"
  by (induction cs rule: callbacks_first.induct) auto

lemma callbacks_first_Callback:
  "on_closes cs = [] \<Longrightarrow> callbacks_first cs \<and> callbacks_first (cs @ [Callback r e])"
  by (induction cs rule: callbacks_first.induct) auto

definition close_inv :: "broker \<Rightarrow> bool" where
  "close_inv b \<longleftrightarrow>
     callbacks_first (bk_calls b) \<and>
     (\<not> bk_close_notified b \<longrightarrow> on_closes (bk_calls b) = []) \<and>
     distinct (on_closes (bk_calls b) @ notifying (bk_drainer b)) \<and>
     distinct (bk_pending_close b)"

lemma emit_close_view:
  assumes "control_inv b"
  shows "bk_calls (emit event b) = bk_calls b"
    and "bk_close_notified (emit event b) = bk_close_notified b"
    and "notifying (bk_drainer (emit event b)) = notifying (bk_drainer b)"
    and "bk_pending_close (emit event b) = bk_pending_close b"
  using assms by (auto simp: emit_def claim_drainer_def Let_def control_inv_def split: drainer.splits)

lemma close_inv_emit: "control_inv b \<Longrightarrow> close_inv b \<Longrightarrow> close_inv (emit event b)"
  by (simp add: close_inv_def emit_close_view)

lemma close_inv_subscribe: "close_inv b \<Longrightarrow> close_inv (snd (subscribe cb n b))"
  by (auto simp: close_inv_def subscribe_def register_def Let_def)

lemma close_inv_subscribe_from: "close_inv b \<Longrightarrow> close_inv (snd (subscribe_from cb c oc b))"
  by (auto simp: close_inv_def subscribe_from_def register_def Let_def split: sum.split)

lemma close_inv_forward:
  "control_inv b \<Longrightarrow> close_inv b \<Longrightarrow> close_inv (snd (forward_to ok cb n b))"
  by (auto simp: close_inv_def forward_to_def register_def claim_drainer_def Let_def control_inv_def
      split: drainer.splits)

lemma close_inv_close_subscription: "close_inv b \<Longrightarrow> close_inv (subscription_close s b)"
  by (auto simp: close_inv_def subscription_close_def close_subscription_def split: option.split)

lemma close_inv_close: "broker_inv b \<Longrightarrow> close_inv b \<Longrightarrow> close_inv (close b)"
  by (auto simp: close_inv_def close_def claim_drainer_def Let_def broker_inv_def control_inv_def
      delivery_inv_def split: drainer.splits)

lemma close_inv_drain:
  assumes "control_inv b" "close_inv b"
  shows "close_inv (drain_step out b)"
  using assms callbacks_first_Callback [of "bk_calls b"]
  by (cases "bk_drainer b")
     (auto simp: close_inv_def control_inv_def drain_step_def dispatch_head_def leave_dispatch_def
       deliver_call_def notify_call_def escape_def remember_def Let_def
       split: list.split cb_outcome.split option.split)

interpretation close_sys: inv_system is_new_broker broker_step "\<lambda>b. broker_inv b \<and> close_inv b"
proof
  show "is_new_broker b \<Longrightarrow> broker_inv b \<and> close_inv b" for b
    by (frule broker_sys.init_inv, erule is_new_broker.cases)
       (simp add: close_inv_def new_broker_def Let_def)
next
  fix b b'
  assume inv: "broker_inv b \<and> close_inv b" and st: "broker_step b b'"
  from st inv have "close_inv b'"
    by (cases rule: broker_step.cases)
       (auto intro: close_inv_emit close_inv_subscribe close_inv_subscribe_from close_inv_forward
         close_inv_close_subscription close_inv_close close_inv_drain simp: broker_inv_def)
  then show "broker_inv b' \<and> close_inv b'"
    using broker_sys.step_inv st inv by blast
qed

section \<open>Running the drainer to its end\<close>

definition drain_work :: "broker \<Rightarrow> nat" where
  "drain_work b =
     (let queued = sum_list (map (\<lambda>(e, rs). 3 + length rs) (bk_delivery b));
          notice = (if bk_closed b \<and> \<not> bk_close_notified b then 2 + length (bk_pending_close b) else 0)
      in case bk_drainer b of
           Idle \<Rightarrow> 0
         | Head \<Rightarrow> 1 + queued + notice
         | Deliver e rs \<Rightarrow> 2 + length rs + queued + notice
         | Notify rs \<Rightarrow> 1 + length rs
         | Escape e \<Rightarrow> 1)"

lemma drain_step_work: "bk_drainer b \<noteq> Idle \<Longrightarrow> drain_work (drain_step out b) < drain_work b"
  by (cases "bk_drainer b")
     (auto simp: drain_work_def drain_step_def dispatch_head_def leave_dispatch_def
       deliver_call_def notify_call_def escape_def remember_def Let_def
       split: list.split cb_outcome.split option.split)

text \<open>
  The loop of \<open>_dispatch\<close> with nothing interleaved; \<open>outs n\<close> is how the call number \<open>n\<close> since the
  broker was made ends.
\<close>

function dispatch :: "(nat \<Rightarrow> cb_outcome) \<Rightarrow> broker \<Rightarrow> broker" where
  "dispatch outs b =
     (if bk_drainer b = Idle then b else dispatch outs (drain_step (outs (length (bk_calls b))) b))"
  by auto
termination
  by (relation "measure (\<lambda>(outs, b). drain_work b)") (auto simp: drain_step_work)

declare dispatch.simps [simp del]

lemma dispatch_keeps:
  assumes "\<And>b out. P b \<Longrightarrow> bk_drainer b \<noteq> Idle \<Longrightarrow> out \<in> range outs \<Longrightarrow> P (drain_step out b)"
    and "P b"
  shows "P (dispatch outs b) \<and> bk_drainer (dispatch outs b) = Idle"
  using assms(2)
proof (induction b rule: measure_induct_rule [of drain_work])
  case (less b)
  show ?case
  proof (cases "bk_drainer b = Idle")
    case True
    then show ?thesis using less.prems by (subst (1 2) dispatch.simps) simp
  next
    case False
    let ?b = "drain_step (outs (length (bk_calls b))) b"
    have "P ?b" using assms(1) less.prems False by blast
    with less.IH [OF drain_step_work [OF False]] False show ?thesis
      by (subst (1 2) dispatch.simps) simp
  qed
qed

text \<open>What is left to do while nothing exits: the queue is emptied before the drainer leaves.\<close>

definition draining :: "broker \<Rightarrow> bool" where
  "draining b \<longleftrightarrow> (case bk_drainer b of Idle \<Rightarrow> False | Escape e \<Rightarrow> False | _ \<Rightarrow> True)"

definition no_exit :: "(nat \<Rightarrow> cb_outcome) \<Rightarrow> bool" where
  "no_exit outs \<longleftrightarrow> (\<forall>x. CbExit x \<notin> range outs)"

definition finishing :: "broker \<Rightarrow> bool" where
  "finishing b \<longleftrightarrow> control_inv b \<and> delivery_inv b \<and> (\<forall>e. bk_drainer b \<noteq> Escape e) \<and>
     (bk_drainer b = Idle \<longrightarrow> bk_delivery b = [] \<and> (bk_closed b \<longrightarrow> bk_close_notified b))"

lemma finishing_drain:
  assumes "broker_inv b \<and> finishing b" "bk_drainer b \<noteq> Idle" "\<And>x. out \<noteq> CbExit x"
  shows "broker_inv (drain_step out b) \<and> finishing (drain_step out b)"
proof -
  have inv: "broker_inv (drain_step out b)"
    using broker_sys.step_inv assms(1,2) step_drain by blast
  have "(\<forall>e. bk_drainer (drain_step out b) \<noteq> Escape e) \<and>
     (bk_drainer (drain_step out b) = Idle \<longrightarrow> bk_delivery (drain_step out b) = [] \<and>
        (bk_closed (drain_step out b) \<longrightarrow> bk_close_notified (drain_step out b)))"
    using assms
    by (cases "bk_drainer b"; cases out)
       (auto simp: finishing_def control_inv_def drain_step_def dispatch_head_def leave_dispatch_def
         deliver_call_def notify_call_def escape_def remember_def Let_def
         split: list.split option.split)
  with inv show ?thesis by (simp add: finishing_def broker_inv_def)
qed

lemma drain_records [simp]: "bk_records (drain_step out b) = bk_records b"
  by (cases "bk_drainer b")
     (auto simp: drain_step_def dispatch_head_def leave_dispatch_def
       deliver_call_def notify_call_def escape_def remember_def Let_def
       split: list.split cb_outcome.split option.split)

lemma notify_call_has:
  "notify_call out r rs b =
    (if has_on_close (bk_records b) r
     then
       (let b1 = b\<lparr>bk_calls := bk_calls b @ [OnClose r]\<rparr>;
            continue = b1\<lparr>bk_drainer := Notify rs\<rparr>
        in case out of
             CbReturn \<Rightarrow> continue
           | CbException \<Rightarrow> continue
           | CbBase e \<Rightarrow> remember e continue
           | CbExit e \<Rightarrow> b1\<lparr>bk_drainer := Escape e\<rparr>)
     else b\<lparr>bk_drainer := Notify rs\<rparr>)"
  by (auto simp: notify_call_def has_on_close_def split: option.split)

lemma notices_drain_no_exit:
  assumes "control_inv b" "\<And>x. out \<noteq> CbExit x"
  shows "on_closes (bk_calls (drain_step out b)) @ owed (drain_step out b) =
    on_closes (bk_calls b) @ owed b"
proof (cases "bk_drainer b")
  case (Notify rs)
  show ?thesis
  proof (cases rs)
    case (Cons r rs')
    then show ?thesis
      using assms Notify
      by (cases out; cases "has_on_close (bk_records b) r")
         (simp_all add: owed_def drain_step_def notify_call_has control_inv_def remember_def Let_def)
  qed (use assms Notify in \<open>simp add: owed_def drain_step_def leave_dispatch_def control_inv_def\<close>)
next
  case (Deliver e rs)
  then show ?thesis
    using assms
    by (cases out)
       (simp_all add: owed_def drain_step_def deliver_call_def remember_def Let_def split: list.split)
qed (simp_all add: owed_def drain_step_def dispatch_head_def leave_dispatch_def escape_def Let_def
      split: list.split)

lemma dispatch_complete:
  assumes inv: "broker_inv b" and run: "draining b" and ne: "no_exit outs"
  defines "b' \<equiv> dispatch outs b"
  shows "bk_drainer b' = Idle \<and> \<not> bk_dispatching b' \<and> bk_delivery b' = [] \<and>
    (bk_closed b' \<longrightarrow> bk_close_notified b') \<and>
    (\<forall>r. calls_to r (bk_calls b') = stream r b) \<and>
    on_closes (bk_calls b') = on_closes (bk_calls b) @ owed b"
proof -
  let ?P = "\<lambda>c. (broker_inv c \<and> finishing c) \<and> (\<forall>r. stream r c = stream r b) \<and>
    on_closes (bk_calls c) @ owed c = on_closes (bk_calls b) @ owed b"
  have "?P (drain_step out c)" if "?P c" "bk_drainer c \<noteq> Idle" "out \<in> range outs" for c out
  proof -
    have out: "out \<noteq> CbExit x" for x using that(3) ne by (simp only: no_exit_def) blast
    have c: "control_inv c" "case bk_drainer c of Deliver e rs \<Rightarrow> distinct rs | _ \<Rightarrow> True"
      using that(1) by (auto simp: finishing_def delivery_inv_def)
    show ?thesis
      using that(1) finishing_drain [of c out] that(2) out stream_drain_no_exit [OF c(1) out c(2)]
        notices_drain_no_exit [OF c(1) out]
      by simp
  qed
  moreover have "?P b"
    using inv run by (auto simp: broker_inv_def finishing_def draining_def split: drainer.splits)
  ultimately have fin: "?P b' \<and> bk_drainer b' = Idle"
    unfolding b'_def by (rule dispatch_keeps)
  then have "bk_delivery b' = []" "bk_closed b' \<longrightarrow> bk_close_notified b'" "control_inv b'"
    by (auto simp: finishing_def)
  moreover from this fin have "owed b' = []" by (auto simp: owed_def control_inv_def)
  moreover have "stream r b' = calls_to r (bk_calls b')" for r
    using fin calculation by (simp add: stream_def)
  ultimately show ?thesis using fin by (simp add: control_inv_def)
qed

text \<open>Once the broker is closed, no outcome of a callback makes the drainer leave its work.\<close>

definition closing :: "broker \<Rightarrow> bool" where
  "closing b \<longleftrightarrow> control_inv b \<and> bk_closed b \<and>
     (\<not> bk_close_notified b \<longrightarrow> bk_drainer b \<noteq> Idle \<and> (\<forall>e. bk_drainer b \<noteq> Escape e))"

lemma closing_drain: "closing b \<Longrightarrow> bk_drainer b \<noteq> Idle \<Longrightarrow> closing (drain_step out b)"
  using control_drain [of b out]
  by (cases "bk_drainer b"; cases out)
     (auto simp: closing_def control_inv_def drain_step_def dispatch_head_def leave_dispatch_def
       deliver_call_def notify_call_def escape_def remember_def Let_def
       split: list.split option.split)

text \<open>A broker that has lost the thread that should have notified its close observers.\<close>

definition stranded :: "broker \<Rightarrow> bool" where
  "stranded b \<longleftrightarrow> bk_closed b \<and> \<not> bk_close_notified b \<and> bk_drainer b = Idle \<and> bk_subscribers b = []"

lemma stranded_step:
  assumes "broker_step b b'" "stranded b"
  shows "stranded b' \<and> bk_calls b' = bk_calls b \<and> bk_pending_close b' = bk_pending_close b"
  using assms
  by (cases rule: broker_step.cases)
     (auto simp: stranded_def emit_def subscribe_def subscribe_from_def forward_to_def Let_def
       window_locked_def subscription_close_def close_subscription_def close_def
       split: sum.split option.split)

lemma stranded_run:
  "broker_step\<^sup>*\<^sup>* b b' \<Longrightarrow> stranded b \<Longrightarrow>
   stranded b' \<and> bk_calls b' = bk_calls b \<and> bk_pending_close b' = bk_pending_close b"
  by (induction rule: rtranclp_induct) (auto dest: stranded_step)

section \<open>The loss of a position is permanent\<close>

lemma dropped_through_mono:
  assumes "window_inv b" "broker_step b b'"
  shows "bk_dropped_through b \<le> bk_dropped_through b'"
  using assms(2)
proof (cases rule: broker_step_window)
  case 1
  then show ?thesis by (simp add: window_view_def)
next
  case (2 event)
  from 2(1) assms(1) show ?thesis
    by (cases rule: emit_window_cases [where event = event]) (simp_all add: 2(2))
qed

lemma sequence_step_mono:
  assumes "broker_step b b'"
  shows "bk_sequence b \<le> bk_sequence b'"
  using assms
  by (cases rule: broker_step_window) (auto simp: window_view_def emit_window_simps)

interpretation dropped_mono: mono_system is_new_broker broker_step window_inv "(\<le>)" bk_dropped_through
  by unfold_locales (auto intro: dropped_through_mono)

interpretation sequence_mono: mono_system is_new_broker broker_step window_inv "(\<le>)" bk_sequence
  by unfold_locales (auto intro: sequence_step_mono)

section \<open>A broker with two observers\<close>

text \<open>Two subscriptions, the second with a close observer, and one event: the drainer is claimed.\<close>

definition watched_broker :: broker where
  "watched_broker =
     emit (sample_event TOOL_STARTED ''t1'')
       (snd (subscribe_from 7 (CursorInt 0) (Some 9)
         (snd (subscribe 5 0 (new_broker ''th'' 16 None ''ep'')))))"

lemma broker_reach_subscribe: "broker_reach b \<Longrightarrow> broker_reach (snd (subscribe cb n b))"
  by (blast intro: reach.intros(2) step_subscribe)

lemma broker_reach_subscribe_from:
  "broker_reach b \<Longrightarrow> broker_reach (snd (subscribe_from cb c oc b))"
  by (blast intro: reach.intros(2) step_subscribe_from)

lemma broker_run_emit: "broker_step\<^sup>*\<^sup>* b (emit event b)"
  by (rule r_into_rtranclp) (rule step_emit)

lemma watched_broker_reach: "broker_reach watched_broker"
  unfolding watched_broker_def
  by (intro broker_reach_emit broker_reach_subscribe_from broker_reach_subscribe broker_reach_new)

lemma broker_reach_drain: "broker_reach b \<Longrightarrow> bk_drainer b \<noteq> Idle \<Longrightarrow> broker_reach (drain_step out b)"
  by (blast intro: reach.intros(2) step_drain)

lemma broker_reach_close: "broker_reach b \<Longrightarrow> broker_reach (close b)"
  by (blast intro: reach.intros(2) step_close)

lemma watched_broker_drainer [simp]: "bk_drainer watched_broker = Head" "\<not> bk_closed watched_broker"
  by code_simp+

definition escaping_broker :: broker where
  "escaping_broker = drain_step (CbExit 3) (drain_step CbReturn watched_broker)"

lemma escaping_broker_reach: "broker_reach escaping_broker"
  unfolding escaping_broker_def
  by (intro broker_reach_drain watched_broker_reach) (code_simp)+

section \<open>Properties\<close>

text \<open>
  C15: in every reachable state the callbacks made for one subscriber carry events the broker has
  accepted, in strictly increasing sequence order: none is delivered twice or out of order, whatever
  emissions, subscriptions, closes and callback failures were interleaved.
\<close>

theorem delivery_in_order:
  assumes "broker_reach b"
  shows "sorted_wrt (<) (map env_sequence (calls_to r (bk_calls b))) \<and>
    set (calls_to r (bk_calls b)) \<subseteq> set (bk_accepted b)"
proof -
  have "delivery_inv b"
    using broker_sys.reach_inv [OF assms] by (simp add: broker_inv_def)
  then show ?thesis
    by (auto simp: delivery_inv_def stream_def sorted_wrt_append)
qed

theorem delivery_in_order_witness:
  "map env_sequence (calls_to 1 (bk_calls (dispatch (\<lambda>_. CbException) watched_broker))) = [1] \<and>
   sorted_wrt (<) (map env_sequence (calls_to 1 (bk_calls escaping_broker)))"
proof
  show "map env_sequence (calls_to 1 (bk_calls (dispatch (\<lambda>_. CbException) watched_broker))) = [1]"
    by code_simp
  show "sorted_wrt (<) (map env_sequence (calls_to 1 (bk_calls escaping_broker)))"
    using delivery_in_order [OF escaping_broker_reach, of 1] by blast
qed

text \<open>
  the close observers are run at most once each, and after the first of them no subscriber
  callback is made any more.
\<close>

theorem close_notice_once_and_last:
  assumes "broker_reach b"
  shows "distinct (on_closes (bk_calls b)) \<and> callbacks_first (bk_calls b) \<and>
    (on_closes (bk_calls b) \<noteq> [] \<longrightarrow> bk_closed b \<and> bk_delivery b = [])"
  using close_sys.reach_inv [OF assms]
  by (auto simp: close_inv_def broker_inv_def control_inv_def)

definition closed_watched :: broker where
  "closed_watched =
     drain_step CbReturn (drain_step CbReturn (close (drain_step CbReturn
       (drain_step CbReturn (drain_step CbReturn watched_broker)))))"

lemma closed_watched_reach: "broker_reach closed_watched"
  unfolding closed_watched_def
  by (intro broker_reach_drain broker_reach_close watched_broker_reach) code_simp+

theorem close_notice_once_and_last_witness:
  "bk_drainer closed_watched = Notify [1, 2] \<and>
   distinct (on_closes (bk_calls closed_watched)) \<and> callbacks_first (bk_calls closed_watched)"
proof
  show "bk_drainer closed_watched = Notify [1, 2]" by code_simp
  show "distinct (on_closes (bk_calls closed_watched)) \<and> callbacks_first (bk_calls closed_watched)"
    using close_notice_once_and_last [OF closed_watched_reach] by blast
qed

text \<open>
  a drainer whose callbacks do not leave the process empties the queue, clears the flag, calls
  every subscriber with exactly the rest of its stream, and, when the broker is closed, runs the
  close observer of every record that was still subscribed; other exceptions change none of this.
\<close>

theorem dispatch_delivers_everything:
  assumes "broker_reach b" "draining b" "no_exit outs"
  shows "bk_drainer (dispatch outs b) = Idle \<and> \<not> bk_dispatching (dispatch outs b) \<and>
    bk_delivery (dispatch outs b) = [] \<and>
    (bk_closed (dispatch outs b) \<longrightarrow> bk_close_notified (dispatch outs b)) \<and>
    (\<forall>r. calls_to r (bk_calls (dispatch outs b)) = stream r b) \<and>
    on_closes (bk_calls (dispatch outs b)) = on_closes (bk_calls b) @ owed b"
  using broker_sys.reach_inv [OF assms(1)] assms(2,3) by (rule dispatch_complete)

theorem dispatch_delivers_everything_witness:
  "on_closes (bk_calls (dispatch (\<lambda>_. CbBase 4) (close watched_broker))) = [2] \<and>
   bk_raised (dispatch (\<lambda>_. CbBase 4) (close watched_broker)) = [4]"
proof
  have run: "draining (close watched_broker)" by code_simp
  have "on_closes (bk_calls (close watched_broker)) @ owed (close watched_broker) = [2]"
    by code_simp
  moreover have "no_exit (\<lambda>_. CbBase 4)" by (simp add: no_exit_def)
  ultimately show "on_closes (bk_calls (dispatch (\<lambda>_. CbBase 4) (close watched_broker))) = [2]"
    using dispatch_delivers_everything
      [OF broker_reach_close [OF watched_broker_reach] run, of "\<lambda>_. CbBase 4"] by simp
  show "bk_raised (dispatch (\<lambda>_. CbBase 4) (close watched_broker)) = [4]" by code_simp
qed

text \<open>
  once the broker is closed while its drainer runs, the drainer finishes: the queue is emptied
  and the close notification is started, even when callbacks raise process exits.
\<close>

theorem closing_drainer_finishes:
  assumes "broker_reach b" "bk_closed b" "draining b"
  shows "bk_drainer (dispatch outs b) = Idle \<and> bk_delivery (dispatch outs b) = [] \<and>
    bk_close_notified (dispatch outs b)"
proof -
  have "closing b"
    using control_sys.reach_inv [OF assms(1)] assms(2,3) by (auto simp: closing_def draining_def)
  then have "closing (dispatch outs b) \<and> bk_drainer (dispatch outs b) = Idle"
    by (rule dispatch_keeps [rotated]) (rule closing_drain)
  then show ?thesis by (auto simp: closing_def control_inv_def)
qed

theorem closing_drainer_finishes_witness:
  "bk_close_notified (dispatch CbExit (close watched_broker)) \<and>
   bk_raised (dispatch CbExit (close watched_broker)) = [1]"
proof
  have run: "bk_closed (close watched_broker)" "draining (close watched_broker)" by code_simp+
  show "bk_close_notified (dispatch CbExit (close watched_broker))"
    using closing_drainer_finishes [OF broker_reach_close [OF watched_broker_reach] run] by blast
  show "bk_raised (dispatch CbExit (close watched_broker)) = [1]" by code_simp
qed

text \<open>
  C36: the one interleaving that loses the close notification. A callback raises a process exit while
  the broker is open, so the drainer decides to leave; before it takes the lock to clear its flag
  another thread closes the broker and sees the flag still set. The observers of the records that
  were subscribed are then never told, whatever happens later.
\<close>

theorem close_during_escape_strands_notice:
  assumes "broker_reach b" "bk_drainer b = Escape e" "\<not> bk_closed b"
    and "broker_step\<^sup>*\<^sup>* (drain_step out (close b)) b'"
  shows "bk_closed b' \<and> \<not> bk_close_notified b' \<and> bk_pending_close b' = bk_subscribers b \<and>
    on_closes (bk_calls b') = []"
proof -
  have inv: "control_inv b" "close_inv b"
    using close_sys.reach_inv [OF assms(1)] by (auto simp: broker_inv_def)
  then have "stranded (drain_step out (close b)) \<and>
      bk_pending_close (drain_step out (close b)) = bk_subscribers b \<and>
      bk_calls (drain_step out (close b)) = bk_calls b"
    using assms(2,3)
    by (auto simp: stranded_def control_inv_def close_def claim_drainer_def drain_step_def
        escape_def Let_def)
  then show ?thesis
    using stranded_run [OF assms(4)] inv assms(3)
    by (auto simp: stranded_def close_inv_def control_inv_def)
qed

theorem close_during_escape_strands_notice_witness:
  "bk_pending_close (drain_step CbReturn (close escaping_broker)) = [1, 2] \<and>
   on_closes (bk_calls (emit (sample_event ANSWER_DELTA ''t1'')
     (drain_step CbReturn (close escaping_broker)))) = []"
proof -
  have state: "bk_drainer escaping_broker = Escape 3" "\<not> bk_closed escaping_broker"
    "bk_subscribers escaping_broker = [1, 2]" by code_simp+
  show ?thesis
    using close_during_escape_strands_notice
        [OF escaping_broker_reach state(1,2) rtranclp.rtrancl_refl, of CbReturn]
      close_during_escape_strands_notice
        [OF escaping_broker_reach state(1,2) broker_run_emit] state(3)
    by simp
qed

text \<open>
  once a cursor has been reported to have a gap, it has a gap for ever: the broker never again
  claims to have the events a client has missed. A cursor that was valid stays valid.
\<close>

theorem gap_is_permanent:
  assumes "broker_reach b" "broker_step\<^sup>*\<^sup>* b b'" "read_after (CursorInt c) b = Inr w" "win_gap w"
  shows "\<exists>w'. read_after (CursorInt c) b' = Inr w' \<and> win_gap w' \<and> win_latest w \<le> win_latest w'"
  using dropped_mono.reach_run_mono [OF assms(1,2)] sequence_mono.reach_run_mono [OF assms(1,2)]
    assms(3,4)
  by (auto simp: read_after_def window_locked_def Let_def split: if_splits)

theorem gap_is_permanent_witness:
  "\<exists>w. read_after (CursorInt 0) (emit (sample_event TURN_COMPLETED ''t1'')
     (emit (sample_event ANSWER_DELTA ''t1'') full_broker)) = Inr w \<and> win_gap w"
proof -
  let ?b = "emit (sample_event ANSWER_DELTA ''t1'') full_broker"
  have gap: "\<exists>w. read_after (CursorInt 0) ?b = Inr w \<and> win_gap w"
    by (rule exI [of _ "window_locked 0 ?b"]) code_simp
  then show ?thesis
    using gap_is_permanent [OF broker_reach_emit [OF full_broker_reach] broker_run_emit]
    by blast
qed

end
