(* ===== verification/Token_Rate.thy ===== *)
theory Token_Rate
  imports Py_Text
begin

text \<open>
  The output rate of one model call (\<open>runtime/token_rate.py\<close>). The tracker is updated call by call
  under its lock; times are rational numbers, and the clock that is read when no time is given is an
  argument. \<open>None\<close> in place of a snapshot is the TypeError of subtracting None.

  The reference is a definition on the whole list of events: which of them belong to the call that is
  being measured, when that call started, and when its first output was seen. The tracker is shown to
  hold exactly that.
\<close>

section \<open>The tracker\<close>

datatype rate_basis = GENERATION | END_TO_END

record rate_snapshot =
  rs_output_tokens :: int
  rs_elapsed_s :: rat
  rs_tokens_per_second :: "rat option"
  rs_ttft_s :: "rat option"
  rs_basis :: rate_basis
  rs_estimated :: bool

definition blank_snapshot :: "int \<Rightarrow> bool \<Rightarrow> rate_snapshot" where
  "blank_snapshot tokens estimated =
     \<lparr>rs_output_tokens = tokens, rs_elapsed_s = 0, rs_tokens_per_second = None, rs_ttft_s = None,
      rs_basis = END_TO_END, rs_estimated = estimated\<rparr>"

record rate_tracker =
  tk_started_at :: "rat option"
  tk_first_output_at :: "rat option"
  tk_estimated_chars :: nat
  tk_observed_reasoning :: bool
  tk_observed_tool_call :: bool

definition new_tracker :: rate_tracker where
  "new_tracker = \<lparr>tk_started_at = None, tk_first_output_at = None, tk_estimated_chars = 0,
     tk_observed_reasoning = False, tk_observed_tool_call = False\<rparr>"

definition rate_now :: "rat \<Rightarrow> rat option \<Rightarrow> rat" where
  "rate_now clock now = (case now of None \<Rightarrow> clock | Some x \<Rightarrow> x)"

definition model_started :: "rat \<Rightarrow> rate_tracker \<Rightarrow> rate_tracker" where
  "model_started now tr =
     tr\<lparr>tk_started_at := Some now, tk_first_output_at := None, tk_estimated_chars := 0,
        tk_observed_reasoning := False, tk_observed_tool_call := False\<rparr>"

definition ensure_started :: "rat \<Rightarrow> rate_tracker \<Rightarrow> rate_tracker" where
  "ensure_started now tr = (if tk_started_at tr = None then model_started now tr else tr)"

definition output_observed :: "string \<Rightarrow> rat \<Rightarrow> bool \<Rightarrow> bool \<Rightarrow> rate_tracker \<Rightarrow> rate_tracker" where
  "output_observed txt now reasoning tool_call tr =
     (let tr1 = (if tk_started_at tr = None then tr\<lparr>tk_started_at := Some now\<rparr> else tr);
          tr2 = (if tk_first_output_at tr1 = None then tr1\<lparr>tk_first_output_at := Some now\<rparr> else tr1)
      in tr2\<lparr>tk_observed_reasoning := (tk_observed_reasoning tr2 \<or> reasoning),
             tk_observed_tool_call := (tk_observed_tool_call tr2 \<or> tool_call),
             tk_estimated_chars := tk_estimated_chars tr2 + length txt\<rparr>)"

text \<open>A number of tokens over a span, if the span is positive.\<close>

definition rate_over :: "int \<Rightarrow> rat \<Rightarrow> rat option" where
  "rate_over tokens secs = (if 0 < secs then Some (of_int tokens / secs) else None)"

definition time_to_first :: "rate_tracker \<Rightarrow> rat \<Rightarrow> rat option" where
  "time_to_first tr started = map_option (\<lambda>f. max 0 (f - started)) (tk_first_output_at tr)"

definition live_snapshot :: "rat \<Rightarrow> rate_tracker \<Rightarrow> rate_snapshot option" where
  "live_snapshot now tr =
     (case tk_started_at tr of
        None \<Rightarrow> Some (blank_snapshot 0 True)
      | Some started \<Rightarrow>
          if tk_estimated_chars tr = 0 then Some (blank_snapshot 0 True)
          else
            let elapsed = max 0 (now - started);
                tokens = int (max 1 ((tk_estimated_chars tr + 3) div 4));
                end_to_end = (rate_over tokens elapsed, END_TO_END);
                decode = map_option (\<lambda>f. (rate_over tokens (max 0 (now - f)), GENERATION)) (tk_first_output_at tr)
            in map_option (\<lambda>(rate, basis).
                 \<lparr>rs_output_tokens = tokens, rs_elapsed_s = elapsed, rs_tokens_per_second = rate,
                  rs_ttft_s = time_to_first tr started, rs_basis = basis, rs_estimated = True\<rparr>)
               (if tk_observed_reasoning tr then decode
                else if tk_observed_tool_call tr then Some end_to_end
                else case decode of Some d \<Rightarrow> Some d | None \<Rightarrow> Some end_to_end))"

definition model_finished :: "int \<Rightarrow> rat \<Rightarrow> int \<Rightarrow> rate_tracker \<Rightarrow> rate_snapshot \<times> rate_tracker" where
  "model_finished output_tokens now hidden_reasoning_tokens tr =
     (let tokens = max 0 output_tokens in
      if tokens = 0 then (blank_snapshot 0 False, tr)
      else
        (case tk_started_at tr of
           None \<Rightarrow> blank_snapshot tokens False
         | Some started \<Rightarrow>
             let elapsed = max 0 (now - started);
                 end_to_end = (rate_over tokens elapsed, END_TO_END);
                 (rate, basis) =
                   (case tk_first_output_at tr of
                      None \<Rightarrow> end_to_end
                    | Some f \<Rightarrow>
                        let decode = (rate_over tokens (max 0 (now - f)), GENERATION)
                        in if tk_observed_reasoning tr then decode
                           else if tk_observed_tool_call tr then end_to_end
                           else if 0 < max 0 hidden_reasoning_tokens then end_to_end
                           else decode)
             in \<lparr>rs_output_tokens = tokens, rs_elapsed_s = elapsed, rs_tokens_per_second = rate,
                 rs_ttft_s = time_to_first tr started, rs_basis = basis, rs_estimated = False\<rparr>,
         new_tracker))"

section \<open>The reference\<close>

datatype rate_event =
    CallStarted rat
  | CallEnsured rat
  | OutputSeen string rat bool bool
  | CallFinished int rat int

fun track :: "rate_event \<Rightarrow> rate_tracker \<Rightarrow> rate_tracker" where
  "track (CallStarted t) tr = model_started t tr"
| "track (CallEnsured t) tr = ensure_started t tr"
| "track (OutputSeen txt t reasoning tool) tr = output_observed txt t reasoning tool tr"
| "track (CallFinished tokens t hidden) tr = snd (model_finished tokens t hidden tr)"

definition track_all :: "rate_event list \<Rightarrow> rate_tracker" where
  "track_all evs = fold track evs new_tracker"

text \<open>
  A start and a report that carries tokens end what came before. The window is what comes after the last
  of them, with the start itself.
\<close>

fun resets :: "rate_event \<Rightarrow> bool" where
  "resets (CallStarted _) = True"
| "resets (CallFinished tokens _ _) = (0 < tokens)"
| "resets _ = False"

definition window :: "rate_event list \<Rightarrow> rate_event list" where
  "window evs =
     (case dropWhile (\<lambda>e. \<not> resets e) (rev evs) of
        CallStarted t # _ \<Rightarrow> CallStarted t # rev (takeWhile (\<lambda>e. \<not> resets e) (rev evs))
      | _ \<Rightarrow> rev (takeWhile (\<lambda>e. \<not> resets e) (rev evs)))"

fun start_time :: "rate_event \<Rightarrow> rat option" where
  "start_time (CallStarted t) = Some t"
| "start_time (CallEnsured t) = Some t"
| "start_time (OutputSeen _ t _ _) = Some t"
| "start_time (CallFinished _ _ _) = None"

fun output_of :: "rate_event \<Rightarrow> (string \<times> rat \<times> bool \<times> bool) option" where
  "output_of (OutputSeen txt t reasoning tool) = Some (txt, t, reasoning, tool)"
| "output_of _ = None"

definition first_of :: "'a list \<Rightarrow> 'a option" where
  "first_of xs = (case xs of [] \<Rightarrow> None | x # _ \<Rightarrow> Some x)"

definition outputs :: "rate_event list \<Rightarrow> (string \<times> rat \<times> bool \<times> bool) list" where
  "outputs evs = List.map_filter output_of evs"

definition tracker_of :: "rate_event list \<Rightarrow> rate_tracker" where
  "tracker_of w =
     \<lparr>tk_started_at = first_of (List.map_filter start_time w),
      tk_first_output_at = first_of (map (\<lambda>(_, t, _, _). t) (outputs w)),
      tk_estimated_chars = sum_list (map (\<lambda>(txt, _, _, _). length txt) (outputs w)),
      tk_observed_reasoning = list_ex (\<lambda>(_, _, reasoning, _). reasoning) (outputs w),
      tk_observed_tool_call = list_ex (\<lambda>(_, _, _, tool). tool) (outputs w)\<rparr>"

section \<open>The tracker is the reference\<close>

lemma window_Nil [simp]: "window [] = []"
  by (simp add: window_def)

lemma window_snoc:
  "window (evs @ [e]) =
     (case e of CallStarted t \<Rightarrow> [CallStarted t]
      | CallFinished tokens _ _ \<Rightarrow> if 0 < tokens then [] else window evs @ [e]
      | _ \<Rightarrow> window evs @ [e])"
proof (cases "resets e")
  case True
  then show ?thesis by (cases e) (simp_all add: window_def)
next
  case False
  have "window (evs @ [e]) = window evs @ [e]"
  proof (cases "dropWhile (\<lambda>e. \<not> resets e) (rev evs)")
    case Nil
    show ?thesis using False by (simp add: window_def Nil)
  next
    case (Cons a r)
    show ?thesis using False by (cases a) (simp_all add: window_def Cons)
  qed
  with False show ?thesis by (cases e) simp_all
qed

lemma map_filter_snoc: "List.map_filter f (xs @ [x]) = List.map_filter f xs @ (case f x of None \<Rightarrow> [] | Some y \<Rightarrow> [y])"
  by (simp add: List.map_filter_def split: option.split)

lemma first_of_snoc: "first_of (xs @ [x]) = (case first_of xs of None \<Rightarrow> Some x | Some y \<Rightarrow> Some y)"
  by (simp add: first_of_def split: list.split)

lemma outputs_snoc: "outputs (w @ [e]) = outputs w @ (case output_of e of None \<Rightarrow> [] | Some o' \<Rightarrow> [o'])"
  by (simp add: outputs_def map_filter_snoc)

lemma output_starts:
  "List.map_filter start_time w = [] \<Longrightarrow> outputs w = []"
proof (induction w)
  case (Cons e w)
  then show ?case by (cases e) (simp_all add: outputs_def List.map_filter_simps)
qed (simp add: outputs_def List.map_filter_simps)

lemma unstarted_blank: "tk_started_at (tracker_of w) = None \<Longrightarrow> tracker_of w = new_tracker"
  using output_starts [of w]
  by (cases "List.map_filter start_time w") (simp_all add: tracker_of_def first_of_def new_tracker_def)

lemma tracker_of_output:
  "tracker_of (w @ [OutputSeen txt t reasoning tool]) = output_observed txt t reasoning tool (tracker_of w)"
  by (simp add: tracker_of_def output_observed_def Let_def outputs_snoc map_filter_snoc first_of_snoc
      split: option.split)

lemma tracker_of_ensured: "tracker_of (w @ [CallEnsured t]) = ensure_started t (tracker_of w)"
proof (cases "tk_started_at (tracker_of w)")
  case None
  then have s: "List.map_filter start_time w = []"
    by (cases "List.map_filter start_time w") (simp_all add: tracker_of_def first_of_def)
  have "tracker_of (w @ [CallEnsured t]) = model_started t new_tracker"
    by (simp add: tracker_of_def outputs_snoc map_filter_snoc s output_starts [OF s] first_of_def
        model_started_def new_tracker_def)
  then show ?thesis using None unstarted_blank [OF None] by (simp add: ensure_started_def)
next
  case (Some s)
  then have "first_of (List.map_filter start_time w) = Some s" by (simp add: tracker_of_def)
  then show ?thesis
    using Some by (simp add: ensure_started_def)
      (simp add: tracker_of_def outputs_snoc map_filter_snoc first_of_snoc)
qed

lemma tracker_of_report: "tracker_of (w @ [CallFinished tokens t hidden]) = tracker_of w"
  by (simp add: tracker_of_def outputs_snoc map_filter_snoc)

lemma track_window: "track_all evs = tracker_of (window evs)"
proof (induction evs rule: rev_induct)
  case Nil
  show ?case
    by (simp add: track_all_def tracker_of_def new_tracker_def outputs_def first_of_def List.map_filter_simps)
next
  case (snoc e evs)
  have step: "track_all (evs @ [e]) = track e (tracker_of (window evs))"
    using snoc.IH by (simp add: track_all_def)
  show ?case
  proof (cases e)
    case (CallStarted t)
    have "tracker_of [CallStarted t] = model_started t tr" for tr
      by (simp add: tracker_of_def model_started_def outputs_def first_of_def List.map_filter_simps)
    then show ?thesis unfolding step by (simp add: CallStarted window_snoc)
  next
    case (CallEnsured t)
    show ?thesis unfolding step by (simp add: CallEnsured window_snoc tracker_of_ensured)
  next
    case (OutputSeen body t reasoning tool)
    show ?thesis unfolding step by (simp add: OutputSeen window_snoc tracker_of_output)
  next
    case (CallFinished tokens t hidden)
    have "tracker_of [] = new_tracker"
      by (simp add: tracker_of_def new_tracker_def outputs_def first_of_def List.map_filter_simps)
    then show ?thesis
      unfolding step by (simp add: CallFinished window_snoc model_finished_def Let_def tracker_of_report)
  qed
qed

text \<open>So the snapshot never fails, and a rate, where there is one, is exact over its span.\<close>

lemma live_snapshot_returns: "live_snapshot now (track_all evs) \<noteq> None"
proof -
  let ?tr = "tracker_of (window evs)"
  have "tk_first_output_at ?tr \<noteq> None" if "tk_observed_reasoning ?tr"
    using that by (cases "outputs (window evs)") (auto simp: tracker_of_def first_of_def)
  then show ?thesis
    unfolding track_window
    by (auto simp: live_snapshot_def Let_def split: option.split)
qed

text \<open>
  C39: The tracker is the reference. After any sequence of calls the incremental state is the one read
  off the list of events: the window since the last start or the last report that carried tokens, its
  first event that can start a call, its first output, and the sums over its outputs. A report without
  tokens changes nothing.
\<close>

theorem tracker_is_reference:
  "track_all evs = tracker_of (window evs) \<and> live_snapshot now (track_all evs) \<noteq> None"
  using track_window live_snapshot_returns by blast

text \<open>
  The final rate is exact. A report that carries tokens takes the tokens over the whole call, or
  over the time since the first output when the call streamed its reasoning, or streamed neither a tool
  call nor hid reasoning; the rate times that span is the number of tokens; and when the clock does not
  go back, the time to the first output is at most the whole.
\<close>

theorem final_rate_exact:
  assumes "0 < tokens" "tk_started_at tr = Some started" "fst (model_finished tokens now hidden tr) = s"
  shows "rs_output_tokens s = tokens \<and> rs_elapsed_s s = max 0 (now - started) \<and>
    snd (model_finished tokens now hidden tr) = new_tracker \<and>
    (\<forall>rate. rs_tokens_per_second s = Some rate \<longrightarrow>
       rate * (case rs_basis s of END_TO_END \<Rightarrow> now - started | GENERATION \<Rightarrow> now - the (tk_first_output_at tr)) = of_int tokens) \<and>
    (rs_basis s = GENERATION \<longleftrightarrow> tk_first_output_at tr \<noteq> None \<and>
       (tk_observed_reasoning tr \<or> \<not> tk_observed_tool_call tr \<and> hidden \<le> 0)) \<and>
    (\<forall>f ttft. tk_first_output_at tr = Some f \<longrightarrow> f \<le> now \<longrightarrow> rs_ttft_s s = Some ttft \<longrightarrow> ttft \<le> rs_elapsed_s s)"
proof -
  have rate: "rate_over tokens (max 0 secs) = Some r \<Longrightarrow> r * secs = of_int tokens" for secs r
    by (auto simp: rate_over_def max_def split: if_splits)
  have s: "s = fst (model_finished tokens now hidden tr)" by (simp add: assms(3))
  show ?thesis
  proof (cases "tk_first_output_at tr")
    case None
    then show ?thesis
      using assms(1,2) rate [of "now - started"] by (simp add: s model_finished_def Let_def time_to_first_def)
  next
    case (Some f)
    then show ?thesis
      using assms(1,2) rate [of "now - started"] rate [of "now - f"]
      by (auto simp: s model_finished_def Let_def time_to_first_def max_def)
  qed
qed

theorem final_rate_exact_witness:
  "rs_tokens_per_second (fst (model_finished 30 5 0 (track_all [CallStarted 1, OutputSeen ''ab'' 2 False False]))) = Some 10"
proof -
  let ?tr = "track_all [CallStarted 1, OutputSeen ''ab'' 2 False False]"
  have tr: "tk_started_at ?tr = Some 1" "tk_first_output_at ?tr = Some 2"
    "rs_basis (fst (model_finished 30 5 0 ?tr)) = GENERATION"
    "rs_tokens_per_second (fst (model_finished 30 5 0 ?tr)) \<noteq> None"
    by code_simp+
  then obtain rate where r: "rs_tokens_per_second (fst (model_finished 30 5 0 ?tr)) = Some rate" by blast
  then have "rate * (5 - 2) = of_int 30"
    using final_rate_exact [OF _ tr(1) refl, of 30 5 0] tr(2,3) by simp
  with r show ?thesis by simp
qed

end
