(* ===== verification/Ptc_Scheduler.thy ===== *)
theory Ptc_Scheduler
  imports Prelude
begin

text \<open>
  The fair reader/writer barrier of \<open>runtime/ptc/scheduler.py\<close>.

  A ticket object is shared between its acquirer, the queue and the releaser; it enters the scheduler
  once, in the section that gives it its sequence number, so that number is its address in
  \<open>sc_tickets\<close>. Event loops and futures are named by numbers. Loops close at any time:
  \<open>sc_closed_loops\<close> is what \<open>is_closed\<close> answers when a section starts, and the parameter \<open>dies\<close> of a
  section says for which tickets the loop dies between that test and \<open>call_soon_threadsafe\<close>, which
  then raises. \<open>sc_grants\<close> records the order of grants; no operation reads it.
\<close>

definition READ :: string where "READ = ''read''"
definition WRITE :: string where "WRITE = ''write''"

lemma READ_not_WRITE [simp]: "READ \<noteq> WRITE" "WRITE \<noteq> READ"
  by (simp_all add: READ_def WRITE_def)

record ticket =
  tk_kind :: string
  tk_seq :: nat
  tk_loop :: "nat option"
  tk_wakeup :: "nat option"
  tk_granted :: bool
  tk_released :: bool
  tk_cancelled :: bool

record scheduler =
  sc_max_parallel :: nat
  sc_tickets :: "nat \<Rightarrow> ticket option"
  sc_queue :: "nat list"
  sc_active_reads :: int
  sc_writer_active :: bool
  sc_next_seq :: nat
  sc_closed_loops :: "nat list"
  sc_grants :: "nat list"

datatype scheduler_error = UnknownSchedulerKind string

definition new_scheduler :: "int \<Rightarrow> scheduler" where
  "new_scheduler max_parallel =
     \<lparr>sc_max_parallel = nat (max 1 max_parallel), sc_tickets = (\<lambda>_. None), sc_queue = [],
      sc_active_reads = 0, sc_writer_active = False, sc_next_seq = 0,
      sc_closed_loops = [], sc_grants = []\<rparr>"

section \<open>Internals, under the lock\<close>

definition is_closed_loop :: "scheduler \<Rightarrow> nat option \<Rightarrow> bool" where
  "is_closed_loop s l = (case l of None \<Rightarrow> False | Some x \<Rightarrow> x \<in> set (sc_closed_loops s))"

text \<open>The ticket object at an address; queued addresses always have one.\<close>

definition ticket_at :: "scheduler \<Rightarrow> nat \<Rightarrow> ticket" where
  "ticket_at s i =
     (case sc_tickets s i of
        Some t \<Rightarrow> t
      | None \<Rightarrow> \<lparr>tk_kind = [], tk_seq = i, tk_loop = None, tk_wakeup = None, tk_granted = False,
                 tk_released = False, tk_cancelled = True\<rparr>)"

definition set_ticket :: "nat \<Rightarrow> (ticket \<Rightarrow> ticket) \<Rightarrow> scheduler \<Rightarrow> scheduler" where
  "set_ticket i f s = s\<lparr>sc_tickets := (sc_tickets s)(i := map_option f (sc_tickets s i))\<rparr>"

definition cancel_ticket :: "nat \<Rightarrow> scheduler \<Rightarrow> scheduler" where
  "cancel_ticket i = set_ticket i (\<lambda>t. t\<lparr>tk_cancelled := True\<rparr>)"

definition finish_locked :: "ticket \<Rightarrow> scheduler \<Rightarrow> scheduler" where
  "finish_locked t s =
     (if tk_kind t = WRITE then s\<lparr>sc_writer_active := False\<rparr>
      else s\<lparr>sc_active_reads := max 0 (sc_active_reads s - 1)\<rparr>)"

definition can_start_locked :: "ticket \<Rightarrow> scheduler \<Rightarrow> bool" where
  "can_start_locked t s =
     (if sc_writer_active s then False
      else if tk_kind t = WRITE then sc_active_reads s = 0
      else sc_active_reads s < int (sc_max_parallel s))"

fun prune_queue :: "nat list \<Rightarrow> scheduler \<Rightarrow> nat list \<times> scheduler" where
  "prune_queue [] s = ([], s)"
| "prune_queue (i # q) s =
     (let t = ticket_at s i in
      if tk_loop t \<noteq> None \<and> is_closed_loop s (tk_loop t)
      then prune_queue q (cancel_ticket i s)
      else (let (alive, s') = prune_queue q s in (i # alive, s')))"

definition prune_locked :: "scheduler \<Rightarrow> scheduler" where
  "prune_locked s =
     (if sc_queue s = [] then s
      else (let (alive, s') = prune_queue (sc_queue s) s in s'\<lparr>sc_queue := alive\<rparr>))"

definition wake :: "(nat \<Rightarrow> bool) \<Rightarrow> nat \<Rightarrow> scheduler \<Rightarrow> bool" where
  "wake dies i s =
     (let t = ticket_at s i in
      if tk_wakeup t = None \<or> tk_loop t = None \<or> is_closed_loop s (tk_loop t) then False
      else \<not> dies i)"

definition grant :: "nat \<Rightarrow> scheduler \<Rightarrow> scheduler" where
  "grant i s =
     (let s1 = set_ticket i (\<lambda>t. t\<lparr>tk_granted := True\<rparr>) s;
          s2 = (if tk_kind (ticket_at s1 i) = WRITE then s1\<lparr>sc_writer_active := True\<rparr>
                else s1\<lparr>sc_active_reads := sc_active_reads s1 + 1\<rparr>)
      in (set_ticket i (\<lambda>t. t\<lparr>tk_loop := None, tk_wakeup := None\<rparr>) s2)
           \<lparr>sc_grants := sc_grants s @ [i]\<rparr>)"

text \<open>The \<open>while\<close> loop of \<open>_grant_locked\<close>; every turn shortens the queue.\<close>

function grant_loop :: "(nat \<Rightarrow> bool) \<Rightarrow> scheduler \<Rightarrow> scheduler" where
  "grant_loop dies s =
     (case sc_queue s of
        [] \<Rightarrow> s
      | i # q \<Rightarrow>
          if \<not> can_start_locked (ticket_at s i) s then s
          else
            let s1 = s\<lparr>sc_queue := q\<rparr> in
            if \<not> wake dies i s1
            then grant_loop dies (cancel_ticket i s1)
            else grant_loop dies (grant i s1))"
  by auto
termination
  by (relation "measure (\<lambda>(d, s). length (sc_queue s))")
     (auto simp: cancel_ticket_def set_ticket_def grant_def Let_def)

declare grant_loop.simps [simp del]

definition grant_locked :: "(nat \<Rightarrow> bool) \<Rightarrow> scheduler \<Rightarrow> scheduler" where
  "grant_locked dies s = grant_loop dies (prune_locked s)"

section \<open>Operations\<close>

text \<open>The locked section of \<open>acquire\<close>; the caller then waits for the ticket's future.\<close>

definition acquire ::
  "string \<Rightarrow> nat \<Rightarrow> nat \<Rightarrow> (nat \<Rightarrow> bool) \<Rightarrow> scheduler \<Rightarrow> (scheduler_error + nat) \<times> scheduler" where
  "acquire kind loop future dies s =
     (if kind \<notin> {READ, WRITE} then (Inl (UnknownSchedulerKind kind), s)
      else
        let seq = sc_next_seq s;
            ticket = \<lparr>tk_kind = kind, tk_seq = seq, tk_loop = Some loop, tk_wakeup = Some future,
                      tk_granted = False, tk_released = False, tk_cancelled = False\<rparr>
        in (Inr seq,
            grant_locked dies
              (s\<lparr>sc_next_seq := Suc seq, sc_tickets := (sc_tickets s)(seq \<mapsto> ticket),
                 sc_queue := sc_queue s @ [seq]\<rparr>)))"

definition release_nowait :: "nat \<Rightarrow> (nat \<Rightarrow> bool) \<Rightarrow> scheduler \<Rightarrow> scheduler" where
  "release_nowait i dies s =
     (let t = ticket_at s i in
      if \<not> tk_granted t \<or> tk_released t \<or> tk_cancelled t then s
      else
        grant_locked dies
          (finish_locked t (set_ticket i (\<lambda>t. t\<lparr>tk_released := True\<rparr>) s)))"

definition abandon :: "nat \<Rightarrow> (nat \<Rightarrow> bool) \<Rightarrow> scheduler \<Rightarrow> scheduler" where
  "abandon i dies s =
     (let t = ticket_at s i in
      if tk_granted t then
        (if tk_released t then s
         else grant_locked dies
                (finish_locked t (set_ticket i (\<lambda>t. t\<lparr>tk_released := True\<rparr>) s)))
      else
        (let s1 = cancel_ticket i s
         in grant_locked dies (s1\<lparr>sc_queue := remove1 i (sc_queue s1)\<rparr>)))"

text \<open>The environment closes an event loop.\<close>

definition close_loop :: "nat \<Rightarrow> scheduler \<Rightarrow> scheduler" where
  "close_loop l s = s\<lparr>sc_closed_loops := l # sc_closed_loops s\<rparr>"

inductive scheduler_step :: "scheduler \<Rightarrow> scheduler \<Rightarrow> bool" where
  "scheduler_step s (snd (acquire kind loop future dies s))"
| "i < sc_next_seq s \<Longrightarrow> scheduler_step s (release_nowait i dies s)"
| "i < sc_next_seq s \<Longrightarrow> scheduler_step s (abandon i dies s)"
| "scheduler_step s (close_loop l s)"

inductive is_new_scheduler :: "scheduler \<Rightarrow> bool" where
  "is_new_scheduler (new_scheduler n)"

inductive_cases scheduler_stepE: "scheduler_step s s'"

abbreviation scheduler_reach :: "scheduler \<Rightarrow> bool" where
  "scheduler_reach \<equiv> reach is_new_scheduler scheduler_step"

section \<open>Who holds the barrier\<close>

definition holds :: "scheduler \<Rightarrow> string \<Rightarrow> nat \<Rightarrow> bool" where
  "holds s k i =
     (case sc_tickets s i of
        None \<Rightarrow> False
      | Some t \<Rightarrow> tk_granted t \<and> \<not> tk_released t \<and> tk_kind t = k)"

definition holders :: "scheduler \<Rightarrow> string \<Rightarrow> nat list" where
  "holders s k = filter (holds s k) [0..<sc_next_seq s]"

text \<open>What a queued ticket looks like, and what a ticket looks like after it left the queue.\<close>

definition pending_ticket :: "nat \<Rightarrow> ticket \<Rightarrow> bool" where
  "pending_ticket i t \<longleftrightarrow>
     tk_seq t = i \<and> tk_kind t \<in> {READ, WRITE} \<and> tk_loop t \<noteq> None \<and> tk_wakeup t \<noteq> None \<and>
     \<not> tk_granted t \<and> \<not> tk_released t \<and> \<not> tk_cancelled t"

definition settled_ticket :: "nat \<Rightarrow> ticket \<Rightarrow> bool" where
  "settled_ticket i t \<longleftrightarrow>
     tk_seq t = i \<and> tk_kind t \<in> {READ, WRITE} \<and>
     (tk_granted t \<longleftrightarrow> \<not> tk_cancelled t) \<and> (tk_released t \<longrightarrow> tk_granted t) \<and>
     (tk_granted t \<longrightarrow> tk_loop t = None \<and> tk_wakeup t = None)"

text \<open>The part of the invariant that holds inside a critical section too.\<close>

definition order_inv :: "scheduler \<Rightarrow> bool" where
  "order_inv s \<longleftrightarrow>
     sorted_wrt (<) (sc_grants s @ sc_queue s) \<and>
     (\<forall>i \<in> set (sc_grants s @ sc_queue s). i < sc_next_seq s)"

definition tickets_inv :: "scheduler \<Rightarrow> bool" where
  "tickets_inv s \<longleftrightarrow>
     (\<forall>i. (sc_tickets s i \<noteq> None) = (i < sc_next_seq s)) \<and>
     (\<forall>i t. sc_tickets s i = Some t \<longrightarrow>
        (if i \<in> set (sc_queue s) then pending_ticket i t else settled_ticket i t) \<and>
        (tk_granted t \<longleftrightarrow> i \<in> set (sc_grants s)))"

definition count_inv :: "scheduler \<Rightarrow> bool" where
  "count_inv s \<longleftrightarrow>
     1 \<le> sc_max_parallel s \<and>
     int (length (holders s READ)) = sc_active_reads s \<and>
     length (holders s WRITE) = (if sc_writer_active s then 1 else 0) \<and>
     (sc_writer_active s \<longrightarrow> sc_active_reads s = 0) \<and>
     sc_active_reads s \<le> int (sc_max_parallel s)"

definition barrier_inv :: "scheduler \<Rightarrow> bool" where
  "barrier_inv s \<longleftrightarrow> order_inv s \<and> tickets_inv s \<and> count_inv s"

definition head_blocked :: "scheduler \<Rightarrow> bool" where
  "head_blocked s \<longleftrightarrow>
     (case sc_queue s of [] \<Rightarrow> True | i # _ \<Rightarrow> \<not> can_start_locked (ticket_at s i) s)"

definition scheduler_inv :: "scheduler \<Rightarrow> bool" where
  "scheduler_inv s \<longleftrightarrow> barrier_inv s \<and> head_blocked s"

section \<open>The invariant\<close>

definition cancel_pending :: "nat \<Rightarrow> scheduler \<Rightarrow> scheduler" where
  "cancel_pending i s =
     (cancel_ticket i s)\<lparr>sc_queue := remove1 i (sc_queue s)\<rparr>"

lemma set_ticket_simps [simp]:
  "sc_max_parallel (set_ticket i f s) = sc_max_parallel s"
  "sc_queue (set_ticket i f s) = sc_queue s"
  "sc_active_reads (set_ticket i f s) = sc_active_reads s"
  "sc_writer_active (set_ticket i f s) = sc_writer_active s"
  "sc_next_seq (set_ticket i f s) = sc_next_seq s"
  "sc_closed_loops (set_ticket i f s) = sc_closed_loops s"
  "sc_grants (set_ticket i f s) = sc_grants s"
  "sc_tickets (set_ticket i f s) j = (if j = i then map_option f (sc_tickets s i) else sc_tickets s j)"
  by (simp_all add: set_ticket_def)

lemma cancel_ticket_simps [simp]:
  "sc_max_parallel (cancel_ticket i s) = sc_max_parallel s"
  "sc_queue (cancel_ticket i s) = sc_queue s"
  "sc_active_reads (cancel_ticket i s) = sc_active_reads s"
  "sc_writer_active (cancel_ticket i s) = sc_writer_active s"
  "sc_next_seq (cancel_ticket i s) = sc_next_seq s"
  "sc_closed_loops (cancel_ticket i s) = sc_closed_loops s"
  "sc_grants (cancel_ticket i s) = sc_grants s"
  "sc_tickets (cancel_ticket i s) =
     (sc_tickets s)(i := map_option (\<lambda>t. t\<lparr>tk_cancelled := True\<rparr>) (sc_tickets s i))"
  by (auto simp: cancel_ticket_def set_ticket_def)

lemma holds_cong: "sc_tickets s' i = sc_tickets s i \<Longrightarrow> holds s' k i = holds s k i"
  by (simp add: holds_def)

lemma holds_same_tickets: "sc_tickets s' = sc_tickets s \<Longrightarrow> holds s' = holds s"
  by (intro ext) (simp add: holds_def)

lemma holds_set_ticket:
  assumes "\<And>t. tk_granted (f t) = tk_granted t" "\<And>t. tk_released (f t) = tk_released t"
    "\<And>t. tk_kind (f t) = tk_kind t"
  shows "holds (set_ticket i f s) = holds s"
  using assms by (intro ext) (auto simp: holds_def split: option.split)

lemma cancel_pending_simps [simp]:
  "sc_max_parallel (cancel_pending i s) = sc_max_parallel s"
  "sc_queue (cancel_pending i s) = remove1 i (sc_queue s)"
  "sc_active_reads (cancel_pending i s) = sc_active_reads s"
  "sc_writer_active (cancel_pending i s) = sc_writer_active s"
  "sc_next_seq (cancel_pending i s) = sc_next_seq s"
  "sc_closed_loops (cancel_pending i s) = sc_closed_loops s"
  "sc_grants (cancel_pending i s) = sc_grants s"
  by (simp_all add: cancel_pending_def)

lemma cancel_pending_holders [simp]: "holders (cancel_pending i s) k = holders s k"
proof -
  have "holds (cancel_pending i s) = holds (cancel_ticket i s)"
    by (rule holds_same_tickets) (simp add: cancel_pending_def)
  then show ?thesis by (simp add: holders_def cancel_ticket_def holds_set_ticket)
qed

lemma order_distinct: "order_inv s \<Longrightarrow> distinct (sc_grants s @ sc_queue s)"
  unfolding order_inv_def using sorted_wrt_less_distinct by blast

lemma order_remove:
  assumes "order_inv s" "sc_grants s' = sc_grants s" "sc_queue s' = remove1 i (sc_queue s)"
    "sc_next_seq s' = sc_next_seq s"
  shows "order_inv s'"
proof -
  have "distinct (sc_queue s)" using order_distinct [OF assms(1)] by simp
  then have q: "sc_queue s' = filter (\<lambda>x. x \<noteq> i) (sc_queue s)"
    by (simp add: assms(3) distinct_remove1_removeAll removeAll_filter_not_eq eq_commute)
  show ?thesis
    using assms(1) sorted_wrt_filter [of "(<)" "sc_queue s" "\<lambda>x. x \<noteq> i"]
    by (auto simp: order_inv_def sorted_wrt_append q assms(2,4))
qed

lemma tickets_inv_at:
  "tickets_inv s \<Longrightarrow> i < sc_next_seq s \<Longrightarrow> sc_tickets s i = Some (ticket_at s i)"
  by (auto simp: tickets_inv_def ticket_at_def split: option.split)

lemma tickets_pending:
  assumes "tickets_inv s" "i \<in> set (sc_queue s)" "sc_tickets s i = Some t"
  shows "pending_ticket i t" "\<not> tk_granted t" "\<not> tk_released t" "i \<notin> set (sc_grants s)"
proof -
  show p: "pending_ticket i t" using assms by (auto simp: tickets_inv_def)
  then show g: "\<not> tk_granted t" "\<not> tk_released t" by (auto simp: pending_ticket_def)
  show "i \<notin> set (sc_grants s)" using assms(1,3) g(1) by (auto simp: tickets_inv_def)
qed

lemma pending_cancelled: "pending_ticket i t \<Longrightarrow> settled_ticket i (t\<lparr>tk_cancelled := True\<rparr>)"
  by (auto simp: pending_ticket_def settled_ticket_def)

lemma pending_granted:
  "pending_ticket i t \<Longrightarrow>
   settled_ticket i (t\<lparr>tk_granted := True, tk_loop := None, tk_wakeup := None\<rparr>)"
  by (auto simp: pending_ticket_def settled_ticket_def)

lemma tickets_inv_update:
  assumes "tickets_inv s" "sc_tickets s i = Some t" "sc_next_seq s' = sc_next_seq s"
    and "sc_tickets s' = (sc_tickets s)(i \<mapsto> t')"
    and "set (sc_queue s') = set (sc_queue s) - {i}" "settled_ticket i t'"
    and "set (sc_grants s') - {i} = set (sc_grants s) - {i}"
    and "tk_granted t' \<longleftrightarrow> i \<in> set (sc_grants s')"
  shows "tickets_inv s'"
proof -
  have g: "j \<in> set (sc_grants s') \<longleftrightarrow> j \<in> set (sc_grants s)" if "j \<noteq> i" for j
    using that assms(7) by blast
  show ?thesis
    using assms(1-6,8) g by (auto simp: tickets_inv_def)
qed

lemma barrier_cancel:
  assumes "barrier_inv s" "i \<in> set (sc_queue s)"
  shows "barrier_inv (cancel_pending i s)"
proof -
  have inv: "order_inv s" "tickets_inv s" "count_inv s" using assms(1) by (auto simp: barrier_inv_def)
  have d: "distinct (sc_queue s)" "i \<notin> set (sc_grants s)"
    using order_distinct [OF inv(1)] assms(2) by auto
  obtain t where t: "sc_tickets s i = Some t"
    using tickets_inv_at [OF inv(2)] inv(1) assms(2) by (auto simp: order_inv_def)
  note p = tickets_pending [OF inv(2) assms(2) t]
  have "tickets_inv (cancel_pending i s)"
    by (rule tickets_inv_update [OF inv(2) t _ _ _ pending_cancelled [OF p(1)]])
       (use d t p in \<open>auto simp: cancel_pending_def set_ticket_def\<close>)
  moreover have "order_inv (cancel_pending i s)" by (rule order_remove [OF inv(1)]) simp_all
  moreover have "count_inv (cancel_pending i s)" using inv(3) by (simp add: count_inv_def)
  ultimately show ?thesis by (simp add: barrier_inv_def)
qed

lemma grant_simps [simp]:
  "sc_max_parallel (grant i s) = sc_max_parallel s"
  "sc_queue (grant i s) = sc_queue s"
  "sc_next_seq (grant i s) = sc_next_seq s"
  "sc_grants (grant i s) = sc_grants s @ [i]"
  "sc_closed_loops (grant i s) = sc_closed_loops s"
  "sc_tickets (grant i s) = (sc_tickets s)(i := map_option
     (\<lambda>t. t\<lparr>tk_granted := True, tk_loop := None, tk_wakeup := None\<rparr>) (sc_tickets s i))"
  by (auto simp: grant_def Let_def set_ticket_def option.map_comp comp_def)

lemma grant_counters:
  assumes "sc_tickets s i = Some t"
  shows "sc_writer_active (grant i s) = (tk_kind t = WRITE \<or> sc_writer_active s)"
    and "sc_active_reads (grant i s) = sc_active_reads s + (if tk_kind t = WRITE then 0 else 1)"
  using assms by (auto simp: grant_def Let_def ticket_at_def)

lemma grant_holders:
  assumes "tickets_inv s" "i \<in> set (sc_queue s)" "sc_tickets s i = Some t" "i < sc_next_seq s"
  shows "length (holders (grant i (s\<lparr>sc_queue := q\<rparr>)) k) =
    length (holders s k) + (if tk_kind t = k then 1 else 0)"
proof -
  have t: "\<not> tk_granted t" "\<not> tk_released t"
    using tickets_pending [OF assms(1,2,3)] by auto
  let ?s = "grant i (s\<lparr>sc_queue := q\<rparr>)"
  have other: "holds ?s k x = holds s k x" if "x \<noteq> i" for x
    using that by (intro holds_cong) simp
  have "\<not> holds s k i" "holds ?s k i = (tk_kind t = k)"
    using t assms(3) by (simp_all add: holds_def)
  then show ?thesis
    unfolding holders_def
    using length_filter_gain [of "[0..<sc_next_seq s]" i "holds s k" "holds ?s k"]
      length_filter_same [of "[0..<sc_next_seq s]" "holds ?s k" "holds s k"] other assms(4)
    by (cases "tk_kind t = k") (simp_all, metis)
qed

lemma barrier_grant:
  assumes inv: "barrier_inv s" and q: "sc_queue s = i # q" and go: "can_start_locked (ticket_at s i) s"
  shows "barrier_inv (grant i (s\<lparr>sc_queue := q\<rparr>))"
proof -
  let ?s = "grant i (s\<lparr>sc_queue := q\<rparr>)"
  have inv': "order_inv s" "tickets_inv s" "count_inv s" using inv by (auto simp: barrier_inv_def)
  have i: "i < sc_next_seq s" "i \<in> set (sc_queue s)" "i \<notin> set q"
    using inv'(1) order_distinct [OF inv'(1)] q by (auto simp: order_inv_def)
  then obtain t where t: "sc_tickets s i = Some t" "ticket_at s i = t"
    using tickets_inv_at [OF inv'(2)] by blast
  note p = tickets_pending [OF inv'(2) i(2) t(1)]
  have "order_inv ?s" using inv'(1) q by (auto simp: order_inv_def)
  moreover have "tickets_inv ?s"
    by (rule tickets_inv_update [OF inv'(2) t(1) _ _ _ pending_granted [OF p(1)]])
       (use p t i q in auto)
  moreover have "count_inv ?s"
    using inv'(3) go p t grant_holders [OF inv'(2) i(2) t(1) i(1), of q] grant_counters [of "s\<lparr>sc_queue := q\<rparr>" i t]
    by (auto simp: count_inv_def can_start_locked_def pending_ticket_def split: if_splits)
  ultimately show ?thesis by (simp add: barrier_inv_def)
qed

lemma cancel_head:
  assumes "sc_queue s = i # q"
  shows "cancel_ticket i (s\<lparr>sc_queue := q\<rparr>) = cancel_pending i s"
  using assms by (simp add: cancel_pending_def)

lemma grant_loop_barrier: "barrier_inv s \<Longrightarrow> barrier_inv (grant_loop dies s)"
proof (induction dies s rule: grant_loop.induct)
  case (1 dies s)
  show ?case
  proof (cases "sc_queue s")
    case Nil
    then show ?thesis using 1(3) by (simp add: grant_loop.simps)
  next
    case (Cons i q)
    show ?thesis
    proof (cases "can_start_locked (ticket_at s i) s")
      case False
      then show ?thesis using 1(3) Cons by (simp add: grant_loop.simps)
    next
      case True
      show ?thesis
        using 1(1) [OF Cons _ refl] 1(2) [OF Cons _ refl] True Cons
          barrier_cancel [OF 1(3), of i] barrier_grant [OF 1(3) Cons True]
        by (subst grant_loop.simps) (auto simp: Let_def cancel_head [OF Cons])
    qed
  qed
qed

lemma grant_loop_head: "head_blocked (grant_loop dies s)"
proof (induction dies s rule: grant_loop.induct)
  case (1 dies s)
  show ?case
  proof (cases "sc_queue s")
    case Nil
    then show ?thesis by (simp add: grant_loop.simps head_blocked_def)
  next
    case (Cons i q)
    show ?thesis
    proof (cases "can_start_locked (ticket_at s i) s")
      case False
      then show ?thesis using Cons by (simp add: grant_loop.simps head_blocked_def)
    next
      case True
      with 1(1) [OF Cons _ refl] 1(2) [OF Cons _ refl] Cons show ?thesis
        by (subst grant_loop.simps) (simp add: Let_def)
    qed
  qed
qed

definition dead_ticket :: "scheduler \<Rightarrow> nat \<Rightarrow> bool" where
  "dead_ticket s i \<longleftrightarrow> is_closed_loop s (tk_loop (ticket_at s i))"

lemma dead_ticket_cancelled [simp]: "dead_ticket (cancel_ticket i s) = dead_ticket s"
  by (intro ext) (auto simp: dead_ticket_def is_closed_loop_def ticket_at_def split: option.split)

lemma dead_ticket_loop: "dead_ticket s i \<longleftrightarrow> tk_loop (ticket_at s i) \<noteq> None \<and> dead_ticket s i"
  by (auto simp: dead_ticket_def is_closed_loop_def split: option.splits)

lemma prune_queue_eq:
  "prune_queue q s = (filter (\<lambda>i. \<not> dead_ticket s i) q, fold cancel_ticket (filter (dead_ticket s) q) s)"
proof (induction q arbitrary: s)
  case (Cons i q)
  show ?case
    using Cons dead_ticket_loop [of s i] by (simp add: Let_def flip: dead_ticket_def)
qed simp

lemma fold_cancel:
  assumes "barrier_inv s" "set is \<subseteq> set (sc_queue s)" "distinct is"
  shows "barrier_inv ((fold cancel_ticket is s)\<lparr>sc_queue := filter (\<lambda>i. i \<notin> set is) (sc_queue s)\<rparr>)"
  using assms
proof (induction "is" rule: rev_induct)
  case (snoc i xs)
  let ?f = "(fold cancel_ticket xs s)\<lparr>sc_queue := filter (\<lambda>i. i \<notin> set xs) (sc_queue s)\<rparr>"
  have d: "distinct (sc_queue s)" using order_distinct snoc.prems(1) by (simp add: barrier_inv_def)
  have "barrier_inv ?f" "i \<in> set (sc_queue ?f)" using snoc by auto
  then have "barrier_inv (cancel_pending i ?f)" by (rule barrier_cancel)
  moreover have "remove1 i (filter (\<lambda>i. i \<notin> set xs) (sc_queue s)) =
      filter (\<lambda>j. j \<notin> set (xs @ [i])) (sc_queue s)"
    using d by (simp add: distinct_remove1_removeAll removeAll_filter_not_eq)
      (rule filter_cong, auto)
  moreover have "cancel_pending i ?f = (cancel_ticket i (fold cancel_ticket xs s))
      \<lparr>sc_queue := remove1 i (filter (\<lambda>i. i \<notin> set xs) (sc_queue s))\<rparr>"
    by (simp add: cancel_pending_def cancel_ticket_def set_ticket_def)
  ultimately show ?case by simp
qed simp

lemma prune_barrier:
  assumes "barrier_inv s"
  shows "barrier_inv (prune_locked s)"
proof -
  have d: "distinct (sc_queue s)" using order_distinct assms by (simp add: barrier_inv_def)
  have "filter (\<lambda>i. i \<notin> set (filter (dead_ticket s) (sc_queue s))) (sc_queue s) =
      filter (\<lambda>i. \<not> dead_ticket s i) (sc_queue s)"
    by (rule filter_cong) auto
  then show ?thesis
    using fold_cancel [OF assms, of "filter (dead_ticket s) (sc_queue s)"] d assms
    by (simp add: prune_locked_def prune_queue_eq)
qed

lemma grant_locked_inv: "barrier_inv s \<Longrightarrow> scheduler_inv (grant_locked dies s)"
  by (simp add: scheduler_inv_def grant_locked_def grant_loop_barrier prune_barrier grant_loop_head)

section \<open>Every operation keeps it\<close>

lemma acquire_inv:
  assumes "scheduler_inv s"
  shows "scheduler_inv (snd (acquire kind loop future dies s))"
proof (cases "kind \<in> {READ, WRITE}")
  case True
  let ?n = "sc_next_seq s"
  let ?t = "\<lparr>tk_kind = kind, tk_seq = ?n, tk_loop = Some loop, tk_wakeup = Some future,
    tk_granted = False, tk_released = False, tk_cancelled = False\<rparr>"
  let ?s = "s\<lparr>sc_next_seq := Suc ?n, sc_tickets := (sc_tickets s)(?n \<mapsto> ?t),
    sc_queue := sc_queue s @ [?n]\<rparr>"
  have inv: "order_inv s" "tickets_inv s" "count_inv s"
    using assms by (auto simp: scheduler_inv_def barrier_inv_def)
  have "holds ?s k j = holds s k j" if "j < ?n" for k j
    using that by (intro holds_cong) simp
  moreover have "\<not> holds ?s k ?n" for k by (simp add: holds_def)
  ultimately have "holders ?s k = holders s k" for k
    by (auto simp: holders_def intro!: filter_cong)
  then have "count_inv ?s" using inv(3) by (simp add: count_inv_def)
  moreover have "order_inv ?s"
    using inv(1) by (auto simp: order_inv_def sorted_wrt_append less_Suc_eq)
  moreover have "pending_ticket ?n ?t" using True by (simp add: pending_ticket_def)
  then have "tickets_inv ?s"
    using inv(1,2) by (auto simp: tickets_inv_def order_inv_def less_Suc_eq)
  ultimately have "scheduler_inv (grant_locked dies ?s)"
    by (intro grant_locked_inv) (simp add: barrier_inv_def)
  then show ?thesis using True by (simp add: acquire_def Let_def)
qed (use assms in \<open>simp add: acquire_def\<close>)

lemma finish_simps [simp]:
  "sc_max_parallel (finish_locked t s) = sc_max_parallel s"
  "sc_tickets (finish_locked t s) = sc_tickets s"
  "sc_queue (finish_locked t s) = sc_queue s"
  "sc_next_seq (finish_locked t s) = sc_next_seq s"
  "sc_grants (finish_locked t s) = sc_grants s"
  "sc_writer_active (finish_locked t s) = (sc_writer_active s \<and> tk_kind t \<noteq> WRITE)"
  "sc_active_reads (finish_locked t s) =
     (if tk_kind t = WRITE then sc_active_reads s else max 0 (sc_active_reads s - 1))"
  by (simp_all add: finish_locked_def)

lemma finish_barrier:
  assumes "barrier_inv s" "sc_tickets s i = Some t" "tk_granted t" "\<not> tk_released t"
  shows "barrier_inv (finish_locked t (set_ticket i (\<lambda>t. t\<lparr>tk_released := True\<rparr>) s))"
proof -
  let ?s = "finish_locked t (set_ticket i (\<lambda>t. t\<lparr>tk_released := True\<rparr>) s)"
  have inv: "order_inv s" "tickets_inv s" "count_inv s" using assms(1) by (auto simp: barrier_inv_def)
  have i: "i < sc_next_seq s" "i \<notin> set (sc_queue s)"
    using inv(2) assms(2) tickets_pending [OF inv(2) _ assms(2)] assms(3) by (auto simp: tickets_inv_def)
  have st: "settled_ticket i t" using inv(2) i(2) assms(2) by (auto simp: tickets_inv_def)
  then have kind: "tk_kind t = WRITE \<longleftrightarrow> tk_kind t \<noteq> READ" by (auto simp: settled_ticket_def)
  have "order_inv ?s" using inv(1) by (simp add: order_inv_def)
  moreover have "tickets_inv ?s"
    by (rule tickets_inv_update [OF inv(2) assms(2), of _ "t\<lparr>tk_released := True\<rparr>"])
       (use inv(2) i st assms(2,3) in
         \<open>auto simp: settled_ticket_def tickets_inv_def set_ticket_def\<close>)
  moreover have "count_inv ?s"
  proof -
    have other: "holds ?s k x = holds s k x" if "x \<noteq> i" for k x
      using that by (intro holds_cong) simp
    have at: "holds s k i = (tk_kind t = k)" "\<not> holds ?s k i" for k
      using assms by (simp_all add: holds_def)
    have lose: "Suc (length (holders ?s k)) = length (holders s k)" if "tk_kind t = k" for k
      using length_filter_lose [of "[0..<sc_next_seq s]" i "holds s k" "holds ?s k"] i(1) other at that
      by (simp add: holders_def)
    have same: "length (holders ?s k) = length (holders s k)" if "tk_kind t \<noteq> k" for k
      using length_filter_same [of "[0..<sc_next_seq s]" "holds ?s k" "holds s k"] other at that
      by (simp add: holders_def) metis
    show ?thesis
      using inv(3) kind lose same [of READ] same [of WRITE]
      by (cases "tk_kind t = WRITE") (auto simp: count_inv_def split: if_splits)
  qed
  ultimately show ?thesis by (simp add: barrier_inv_def)
qed

lemma release_inv:
  assumes "scheduler_inv s" "i < sc_next_seq s"
  shows "scheduler_inv (release_nowait i dies s)"
proof -
  have b: "barrier_inv s" using assms(1) by (simp add: scheduler_inv_def)
  then have "sc_tickets s i = Some (ticket_at s i)"
    using assms(2) by (simp add: tickets_inv_at barrier_inv_def)
  from grant_locked_inv [OF finish_barrier [OF b this], of dies] assms(1)
  show ?thesis by (auto simp: release_nowait_def Let_def)
qed

lemma cancel_settled:
  assumes "barrier_inv s" "sc_tickets s i = Some t" "\<not> tk_granted t" "i \<notin> set (sc_queue s)"
  shows "cancel_ticket i s = s"
proof -
  have "settled_ticket i t" using assms by (auto simp: barrier_inv_def tickets_inv_def)
  then have "t\<lparr>tk_cancelled := True\<rparr> = t" using assms(3) by (simp add: settled_ticket_def)
  then show ?thesis
    using assms(2) by (simp add: cancel_ticket_def set_ticket_def fun_upd_idem)
qed

lemma abandon_inv:
  assumes "scheduler_inv s" "i < sc_next_seq s"
  shows "scheduler_inv (abandon i dies s)"
proof -
  have b: "barrier_inv s" using assms(1) by (simp add: scheduler_inv_def)
  then have t: "sc_tickets s i = Some (ticket_at s i)"
    using assms(2) by (simp add: tickets_inv_at barrier_inv_def)
  show ?thesis
  proof (cases "tk_granted (ticket_at s i)")
    case True
    with grant_locked_inv [OF finish_barrier [OF b t], of dies] assms(1)
    show ?thesis by (auto simp: abandon_def Let_def)
  next
    case False
    have "barrier_inv ((cancel_ticket i s)\<lparr>sc_queue := remove1 i (sc_queue (cancel_ticket i s))\<rparr>)"
    proof (cases "i \<in> set (sc_queue s)")
      case True
      with barrier_cancel [OF b True] show ?thesis by (simp add: cancel_pending_def)
    next
      case out: False
      then show ?thesis using b cancel_settled [OF b t False out] by (simp add: remove1_idem)
    qed
    with False show ?thesis by (simp add: abandon_def Let_def grant_locked_inv)
  qed
qed

lemma close_loop_simps [simp]:
  "sc_max_parallel (close_loop l s) = sc_max_parallel s"
  "sc_tickets (close_loop l s) = sc_tickets s"
  "sc_queue (close_loop l s) = sc_queue s"
  "sc_next_seq (close_loop l s) = sc_next_seq s"
  "sc_grants (close_loop l s) = sc_grants s"
  "sc_writer_active (close_loop l s) = sc_writer_active s"
  "sc_active_reads (close_loop l s) = sc_active_reads s"
  by (simp_all add: close_loop_def)

lemma close_loop_inv:
  assumes "scheduler_inv s"
  shows "scheduler_inv (close_loop l s)"
proof -
  have "holders (close_loop l s) k = holders s k" for k
    by (simp add: holders_def close_loop_def holds_def [abs_def])
  moreover have "ticket_at (close_loop l s) = ticket_at s"
    by (intro ext) (simp add: ticket_at_def close_loop_def)
  moreover have "can_start_locked t (close_loop l s) = can_start_locked t s" for t
    by (simp add: can_start_locked_def)
  ultimately show ?thesis
    using assms
    by (simp add: scheduler_inv_def barrier_inv_def order_inv_def tickets_inv_def count_inv_def
        head_blocked_def cong: list.case_cong)
qed

lemma new_scheduler_inv: "scheduler_inv (new_scheduler n)"
  by (auto simp: le_nat_iff scheduler_inv_def barrier_inv_def order_inv_def tickets_inv_def count_inv_def
      head_blocked_def new_scheduler_def holders_def holds_def [abs_def])

interpretation scheduler_sys: inv_system is_new_scheduler scheduler_step scheduler_inv
proof
  show "is_new_scheduler s \<Longrightarrow> scheduler_inv s" for s
    by (erule is_new_scheduler.cases) (simp add: new_scheduler_inv)
  show "scheduler_inv s \<Longrightarrow> scheduler_step s s' \<Longrightarrow> scheduler_inv s'" for s s'
    by (rotate_tac, erule scheduler_step.cases)
       (auto intro: acquire_inv release_inv abandon_inv close_loop_inv)
qed

section \<open>Serving the queue\<close>

text \<open>No operation but a release sets a released flag, and a grant section keeps the numbering.\<close>

definition was_released :: "scheduler \<Rightarrow> nat \<Rightarrow> bool" where
  "was_released s i = (case sc_tickets s i of None \<Rightarrow> False | Some t \<Rightarrow> tk_released t)"

lemma was_released_cancel [simp]: "was_released (cancel_ticket i s) = was_released s"
  by (intro ext) (auto simp: was_released_def split: option.split)

lemma was_released_grant [simp]: "was_released (grant i s) = was_released s"
  by (intro ext) (auto simp: was_released_def split: option.split)

lemma was_released_queue [simp]: "was_released (s\<lparr>sc_queue := q\<rparr>) = was_released s"
  by (intro ext) (simp add: was_released_def)

lemma grant_loop_frame:
  "was_released (grant_loop dies s) = was_released s \<and>
   sc_next_seq (grant_loop dies s) = sc_next_seq s \<and>
   sc_closed_loops (grant_loop dies s) = sc_closed_loops s"
proof (induction dies s rule: grant_loop.induct)
  case (1 dies s)
  show ?case
  proof (cases "sc_queue s")
    case (Cons i q)
    then show ?thesis
      using 1(1) [OF Cons _ refl] 1(2) [OF Cons _ refl]
      by (subst (1 2 3) grant_loop.simps) (simp add: Let_def)
  qed (simp add: grant_loop.simps)
qed

lemma fold_cancel_frame:
  "was_released (fold cancel_ticket is s) = was_released s \<and>
   sc_next_seq (fold cancel_ticket is s) = sc_next_seq s \<and>
   sc_closed_loops (fold cancel_ticket is s) = sc_closed_loops s"
  by (induction "is" arbitrary: s) simp_all

lemma grant_locked_frame [simp]:
  "was_released (grant_locked dies s) = was_released s"
  "sc_next_seq (grant_locked dies s) = sc_next_seq s"
  "sc_closed_loops (grant_locked dies s) = sc_closed_loops s"
  by (simp_all add: grant_locked_def grant_loop_frame prune_locked_def prune_queue_eq fold_cancel_frame)

definition unreleased :: "scheduler \<Rightarrow> nat" where
  "unreleased s = length (filter (\<lambda>i. \<not> was_released s i) [0..<sc_next_seq s])"

lemma holder_released:
  assumes "i \<in> set (holders s k)"
  shows "unreleased (release_nowait i dies s) < unreleased s \<or>
    release_nowait i dies s = s"
proof -
  let ?s = "release_nowait i dies s"
  have i: "i < sc_next_seq s" "\<not> was_released s i" "sc_tickets s i = Some (ticket_at s i)"
    using assms by (auto simp: holders_def holds_def was_released_def ticket_at_def split: option.splits)
  show ?thesis
  proof (cases "?s = s")
    case False
    then have s: "?s = grant_locked dies (finish_locked (ticket_at s i)
        (set_ticket i (\<lambda>t. t\<lparr>tk_released := True\<rparr>) s))"
      by (auto simp: release_nowait_def Let_def)
    have "was_released ?s j = (j = i \<or> was_released s j)" for j
      using i(3) by (simp add: s was_released_def)
    then have "Suc (unreleased ?s) = unreleased s"
      unfolding unreleased_def using i length_filter_lose
        [of "[0..<sc_next_seq s]" i "\<lambda>j. \<not> was_released s j" "\<lambda>j. \<not> was_released ?s j"]
      by (simp add: s)
    then show ?thesis by simp
  qed simp
qed

text \<open>
  Whoever holds the barrier releases it, writers first, until nobody holds it. A holder that
  was cancelled after its grant (which no operation does) would be skipped by \<open>release_nowait\<close>,
  so the loop also stops when a release changes nothing.
\<close>

function release_all :: "scheduler \<Rightarrow> scheduler" where
  "release_all s =
     (case holders s WRITE @ holders s READ of
        [] \<Rightarrow> s
      | i # _ \<Rightarrow>
          (let s' = release_nowait i (\<lambda>_. False) s
           in if unreleased s' < unreleased s then release_all s' else s))"
  by auto
termination by (relation "measure unreleased") auto

declare release_all.simps [simp del]

definition open_loops :: "scheduler \<Rightarrow> bool" where
  "open_loops s \<longleftrightarrow> sc_closed_loops s = []"

lemma wake_pending:
  assumes "barrier_inv s" "sc_queue s = i # q" "open_loops s"
  shows "wake (\<lambda>_. False) i (s\<lparr>sc_queue := q\<rparr>)"
proof -
  have i: "i < sc_next_seq s" "i \<in> set (sc_queue s)"
    using assms(1,2) by (auto simp: barrier_inv_def order_inv_def)
  then have t: "sc_tickets s i = Some (ticket_at s i)"
    using tickets_inv_at assms(1) by (auto simp: barrier_inv_def)
  then have "pending_ticket i (ticket_at s i)"
    using tickets_pending(1) [OF _ i(2) t] assms(1) by (simp add: barrier_inv_def)
  moreover have "ticket_at (s\<lparr>sc_queue := q\<rparr>) = ticket_at s" by (intro ext) (simp add: ticket_at_def)
  ultimately show ?thesis
    using assms(3) by (auto simp: wake_def Let_def pending_ticket_def is_closed_loop_def open_loops_def)
qed

lemma grant_loop_serves:
  assumes "barrier_inv s" "open_loops s" "dies = (\<lambda>_. False)"
  shows "set (sc_grants (grant_loop dies s) @ sc_queue (grant_loop dies s)) =
    set (sc_grants s @ sc_queue s)"
  using assms
proof (induction dies s rule: grant_loop.induct)
  case (1 dies s)
  show ?case
  proof (cases "sc_queue s")
    case (Cons i q)
    show ?thesis
    proof (cases "can_start_locked (ticket_at s i) s")
      case True
      have w: "wake dies i (s\<lparr>sc_queue := q\<rparr>)" using wake_pending [OF 1(3) Cons 1(4)] 1(5) by simp
      have "open_loops (grant i (s\<lparr>sc_queue := q\<rparr>))" using 1(4) by (simp add: open_loops_def)
      then show ?thesis
        using 1(2) [OF Cons _ refl] True w barrier_grant [OF 1(3) Cons True] 1(5) Cons
        by (subst (1 2) grant_loop.simps) (auto simp: Let_def)
    qed (simp add: grant_loop.simps Cons)
  qed (simp add: grant_loop.simps)
qed

lemma prune_open: "open_loops s \<Longrightarrow> prune_locked s = s"
proof -
  assume "open_loops s"
  then have "dead_ticket s i = False" for i
    by (simp add: dead_ticket_def is_closed_loop_def open_loops_def split: option.split)
  then show ?thesis by (simp add: prune_locked_def prune_queue_eq)
qed

lemma release_serves:
  assumes "barrier_inv s" "open_loops s" "i < sc_next_seq s"
  shows "open_loops (release_nowait i (\<lambda>_. False) s) \<and>
    set (sc_grants s @ sc_queue s) =
      set (sc_grants (release_nowait i (\<lambda>_. False) s) @ sc_queue (release_nowait i (\<lambda>_. False) s))"
proof (cases "release_nowait i (\<lambda>_. False) s = s")
  case False
  let ?f = "finish_locked (ticket_at s i) (set_ticket i (\<lambda>t. t\<lparr>tk_released := True\<rparr>) s)"
  have t: "sc_tickets s i = Some (ticket_at s i)"
    using tickets_inv_at assms by (simp add: barrier_inv_def)
  have g: "tk_granted (ticket_at s i)" "\<not> tk_released (ticket_at s i)"
    and eq: "release_nowait i (\<lambda>_. False) s = grant_locked (\<lambda>_. False) ?f"
    using False by (auto simp: release_nowait_def Let_def split: if_splits)
  have o: "open_loops ?f" using assms(2) by (simp add: open_loops_def finish_locked_def)
  then show ?thesis
    using grant_loop_serves [OF finish_barrier [OF assms(1) t g] o refl] grant_loop_frame
    by (simp add: eq grant_locked_def prune_open open_loops_def finish_locked_def)
qed (use assms in simp)

lemma holder_ticket:
  assumes "barrier_inv s" "i \<in> set (holders s k)"
  obtains t where "sc_tickets s i = Some t" "tk_granted t" "\<not> tk_released t" "\<not> tk_cancelled t"
proof -
  obtain t where t: "sc_tickets s i = Some t" "tk_granted t" "\<not> tk_released t"
    using assms(2) by (auto simp: holders_def holds_def split: option.splits)
  have "i \<notin> set (sc_queue s)"
    using tickets_pending(2) [OF _ _ t(1)] assms(1) t(2) by (auto simp: barrier_inv_def)
  then have "settled_ticket i t" using assms(1) t(1) by (auto simp: barrier_inv_def tickets_inv_def)
  then show thesis using that t by (auto simp: settled_ticket_def)
qed

lemma release_all_inv:
  "scheduler_inv s \<Longrightarrow> scheduler_inv (release_all s) \<and> holders (release_all s) WRITE = [] \<and>
    holders (release_all s) READ = [] \<and>
    (open_loops s \<longrightarrow> set (sc_grants s @ sc_queue s) =
      set (sc_grants (release_all s) @ sc_queue (release_all s)))"
proof (induction s rule: release_all.induct)
  case (1 s)
  show ?case
  proof (cases "holders s WRITE @ holders s READ")
    case Nil
    then show ?thesis using 1(2) by (subst (1 2 3 4 5) release_all.simps) simp
  next
    case (Cons i q)
    let ?s = "release_nowait i (\<lambda>_. False) s"
    have "i \<in> set (holders s WRITE @ holders s READ)" by (simp add: Cons)
    then obtain k where k: "i \<in> set (holders s k)" "i < sc_next_seq s"
      by (auto simp: holders_def)
    have b: "barrier_inv s" using 1(2) by (simp add: scheduler_inv_def)
    have t: "sc_tickets s i = Some (ticket_at s i)" "tk_granted (ticket_at s i)"
      "\<not> tk_released (ticket_at s i)" "\<not> tk_cancelled (ticket_at s i)"
      by (rule holder_ticket [OF b k(1)], simp add: ticket_at_def)+
    then have "was_released ?s i"
      using t by (simp add: release_nowait_def Let_def was_released_def)
    then have "?s \<noteq> s" using t by (auto simp: was_released_def)
    then have less: "unreleased ?s < unreleased s" using holder_released [OF k(1)] by blast
    have eq: "release_all s = release_all ?s"
      by (subst release_all.simps) (simp add: Cons Let_def less)
    show ?thesis
      using 1(1) [OF Cons refl less] release_inv [OF 1(2) k(2)]
        release_serves [OF b _ k(2)] by (auto simp: eq)
  qed
qed

lemma grant_loop_other:
  "i \<notin> set (sc_queue s) \<Longrightarrow> sc_tickets (grant_loop dies s) i = sc_tickets s i"
proof (induction dies s rule: grant_loop.induct)
  case (1 dies s)
  show ?case
  proof (cases "sc_queue s")
    case (Cons j q)
    then show ?thesis
      using 1(1) [OF Cons _ refl] 1(2) [OF Cons _ refl] 1(3)
      by (subst grant_loop.simps) (auto simp: Let_def)
  qed (simp add: grant_loop.simps)
qed

lemma fold_cancel_other: "i \<notin> set is \<Longrightarrow> sc_tickets (fold cancel_ticket is s) i = sc_tickets s i"
  by (induction "is" arbitrary: s) simp_all

lemma grant_locked_other:
  "i \<notin> set (sc_queue s) \<Longrightarrow> sc_tickets (grant_locked dies s) i = sc_tickets s i"
  by (simp add: grant_locked_def grant_loop_other prune_locked_def prune_queue_eq fold_cancel_other)

text \<open>Two reads run, a write waits for them, and a read submitted after it waits behind it.\<close>

definition busy_scheduler :: scheduler where
  "busy_scheduler =
     snd (acquire READ 1 13 (\<lambda>_. False) (snd (acquire WRITE 1 12 (\<lambda>_. False)
       (snd (acquire READ 1 11 (\<lambda>_. False) (snd (acquire READ 1 10 (\<lambda>_. False)
         (new_scheduler 8))))))))"

lemma scheduler_reach_acquire:
  "scheduler_reach s \<Longrightarrow> scheduler_reach (snd (acquire kind loop future dies s))"
  by (blast intro: reach.intros(2) scheduler_step.intros)

lemma scheduler_reach_new: "scheduler_reach (new_scheduler n)"
  by (rule reach.intros(1)) (rule is_new_scheduler.intros)

lemma busy_scheduler_reach: "scheduler_reach busy_scheduler"
  unfolding busy_scheduler_def
  by (intro scheduler_reach_acquire scheduler_reach_new)

section \<open>Properties\<close>

text \<open>
  C16: Exclusion. At most one writer holds the barrier, no reader holds it together with a writer,
  at most \<open>max_parallel\<close> readers hold it, and the two counters are exactly the granted tickets that
  have not been released, whatever loops died or acquirers were cancelled on the way.
\<close>

theorem barrier_exclusion:
  assumes "scheduler_reach s"
  shows "length (holders s WRITE) \<le> 1 \<and> (holders s WRITE \<noteq> [] \<longrightarrow> holders s READ = []) \<and>
    length (holders s READ) \<le> sc_max_parallel s \<and>
    sc_active_reads s = int (length (holders s READ)) \<and>
    sc_writer_active s = (holders s WRITE \<noteq> [])"
  using scheduler_sys.reach_inv [OF assms]
  by (auto simp: scheduler_inv_def barrier_inv_def count_inv_def split: if_splits)

theorem barrier_exclusion_witness:
  "holders busy_scheduler READ = [0, 1] \<and> length (holders busy_scheduler READ) \<le> 8"
proof
  show "holders busy_scheduler READ = [0, 1]" by code_simp
  have "sc_max_parallel busy_scheduler = 8" by code_simp
  then show "length (holders busy_scheduler READ) \<le> 8"
    using barrier_exclusion [OF busy_scheduler_reach] by simp
qed

text \<open>
  Fairness. Grants happen in submission order: while a ticket waits, every ticket granted so
  far was submitted before it, so no later read jumps a queued writer.
\<close>

theorem barrier_fair:
  assumes "scheduler_reach s" "i \<in> set (sc_queue s)"
  shows "sorted_wrt (<) (sc_grants s) \<and> (\<forall>g \<in> set (sc_grants s). g < i) \<and>
    (\<forall>j. i \<le> j \<longrightarrow> \<not> holds s READ j \<and> \<not> holds s WRITE j)"
proof -
  have inv: "order_inv s" "tickets_inv s"
    using scheduler_sys.reach_inv [OF assms(1)] by (auto simp: scheduler_inv_def barrier_inv_def)
  then have g: "\<forall>g \<in> set (sc_grants s). g < i"
    using assms(2) by (auto simp: order_inv_def sorted_wrt_append)
  have "\<not> holds s k j" if "i \<le> j" for k j
  proof
    assume "holds s k j"
    then have "j \<in> set (sc_grants s)"
      using inv(2) by (auto simp: holds_def tickets_inv_def split: option.splits)
    with g that show False by fastforce
  qed
  with g inv(1) show ?thesis by (auto simp: order_inv_def sorted_wrt_append)
qed

theorem barrier_fair_witness:
  "sc_queue busy_scheduler = [2, 3] \<and> \<not> holds busy_scheduler READ 3"
proof
  show q: "sc_queue busy_scheduler = [2, 3]" by code_simp
  then have "2 \<in> set (sc_queue busy_scheduler)" by simp
  from barrier_fair [OF busy_scheduler_reach this] show "\<not> holds busy_scheduler READ 3" by simp
qed

text \<open>
  No lost wake-up. The ticket at the head of the queue waits for somebody: a writer for any
  holder, a reader for a writer or for a full set of readers.
\<close>

theorem waiting_ticket_is_blocked:
  assumes "scheduler_reach s" "sc_queue s = i # q"
  shows "holders s WRITE \<noteq> [] \<or>
    (if tk_kind (ticket_at s i) = WRITE then holders s READ \<noteq> []
     else length (holders s READ) = sc_max_parallel s)"
  using scheduler_sys.reach_inv [OF assms(1)] assms(2)
  by (auto simp: scheduler_inv_def head_blocked_def can_start_locked_def barrier_inv_def count_inv_def
      split: if_splits)

theorem waiting_ticket_is_blocked_witness:
  "tk_kind (ticket_at busy_scheduler 2) = WRITE \<and>
   holders busy_scheduler WRITE @ holders busy_scheduler READ \<noteq> []"
proof
  show w: "tk_kind (ticket_at busy_scheduler 2) = WRITE" by code_simp
  have "sc_queue busy_scheduler = [2, 3]" by code_simp
  from waiting_ticket_is_blocked [OF busy_scheduler_reach this] w
  show "holders busy_scheduler WRITE @ holders busy_scheduler READ \<noteq> []" by auto
qed

text \<open>
  C17: Liveness. If the holders release, every waiting ticket is served: releasing whatever holds
  the barrier, again and again, ends with an empty queue, and when no event loop was closed every
  ticket that waited has been granted.
\<close>

theorem waiting_tickets_are_served:
  assumes "scheduler_reach s"
  shows "sc_queue (release_all s) = [] \<and> holders (release_all s) READ = [] \<and>
    holders (release_all s) WRITE = [] \<and>
    (sc_closed_loops s = [] \<longrightarrow> set (sc_queue s) \<subseteq> set (sc_grants (release_all s)))"
proof -
  have inv: "scheduler_inv s" by (rule scheduler_sys.reach_inv [OF assms])
  note r = release_all_inv [OF inv]
  have "sc_queue (release_all s) = []"
    using r by (auto simp: scheduler_inv_def head_blocked_def can_start_locked_def barrier_inv_def
        count_inv_def split: list.splits if_splits)
  then show ?thesis using r by (auto simp: open_loops_def)
qed

theorem waiting_tickets_are_served_witness:
  "sc_queue busy_scheduler = [2, 3] \<and> {2, 3} \<subseteq> set (sc_grants (release_all busy_scheduler))"
proof
  show q: "sc_queue busy_scheduler = [2, 3]" by code_simp
  have "sc_closed_loops busy_scheduler = []" by code_simp
  with q show "{2, 3} \<subseteq> set (sc_grants (release_all busy_scheduler))"
    using waiting_tickets_are_served [OF busy_scheduler_reach] by auto
qed

text \<open>
  A ticket is released exactly once: after its release nobody holds the barrier through it, and
  releasing or abandoning it again changes nothing.
\<close>

theorem release_is_once:
  assumes "scheduler_reach s" "i \<in> set (holders s k)"
  shows "\<not> holds (release_nowait i dies s) k' i \<and>
    release_nowait i dies' (release_nowait i dies s) = release_nowait i dies s \<and>
    abandon i dies' (release_nowait i dies s) = release_nowait i dies s"
proof -
  have b: "barrier_inv s"
    using scheduler_sys.reach_inv [OF assms(1)] by (simp add: scheduler_inv_def)
  obtain t where t: "sc_tickets s i = Some t" "tk_granted t" "\<not> tk_released t" "\<not> tk_cancelled t"
    by (rule holder_ticket [OF b assms(2)])
  have q: "i \<notin> set (sc_queue s)"
    using tickets_pending(2) [OF _ _ t(1)] b t(2) by (auto simp: barrier_inv_def)
  have at: "ticket_at s i = t" using t(1) by (simp add: ticket_at_def)
  have "sc_tickets (release_nowait i dies s) i = Some (t\<lparr>tk_released := True\<rparr>)"
    using t q by (simp add: release_nowait_def Let_def at grant_locked_other)
  then show ?thesis
    using t(2) by (simp add: holds_def release_nowait_def [of i dies'] abandon_def ticket_at_def)
qed

theorem release_is_once_witness:
  "holders busy_scheduler READ = [0, 1] \<and>
   \<not> holds (release_nowait 0 (\<lambda>_. False) busy_scheduler) READ 0"
proof
  show h: "holders busy_scheduler READ = [0, 1]" by code_simp
  then have "0 \<in> set (holders busy_scheduler READ)" by simp
  from release_is_once [OF busy_scheduler_reach this]
  show "\<not> holds (release_nowait 0 (\<lambda>_. False) busy_scheduler) READ 0" by blast
qed

end
