(* ===== verification/Goal_Runtime.thy ===== *)
theory Goal_Runtime
  imports Goal_Store
begin

text \<open>
  The in-process accounting of \<open>goals/runtime.py\<close> (\<open>GoalRuntime\<close>: the turn's token baseline and the
  wall clock; \<open>GoalService\<close>: the registry and the operations of the slash commands, the tools and the
  middleware) and the agent tools of \<open>goals/tools.py\<close>.

  An operation takes the clock readings it makes as a record \<open>clock\<close>: \<open>ck_start\<close> when a wall clock is
  started, \<open>ck_read\<close> when it is read, \<open>ck_reset\<close> when it is restarted, \<open>ck_now_ms\<close> for the row's time
  stamp. Listeners are external callables named by numbers; what they are told is recorded in
  \<open>gs_told\<close>, which no operation reads.
\<close>

record clock =
  ck_start :: rat
  ck_read :: rat
  ck_reset :: rat
  ck_now_ms :: int

text \<open>\<open>a or b\<close> on an optional string.\<close>

definition or_str :: "string option \<Rightarrow> string option \<Rightarrow> string option" where
  "or_str a b = (case a of Some (c # cs) \<Rightarrow> a | _ \<Rightarrow> b)"

section \<open>GoalRuntime\<close>

record turn_accounting =
  ta_turn_id :: string
  ta_last_accounted_tokens :: int
  ta_current_tokens :: int
  ta_goal_id :: "string option"

record goal_runtime =
  gr_thread_id :: string
  gr_turn :: "turn_accounting option"
  gr_wall_clock_goal_id :: "string option"
  gr_wall_clock_started_at :: "rat option"
  gr_budget_reported_goal_id :: "string option"

definition new_goal_runtime :: "string \<Rightarrow> goal_runtime" where
  "new_goal_runtime tid =
     \<lparr>gr_thread_id = tid, gr_turn = None, gr_wall_clock_goal_id = None,
      gr_wall_clock_started_at = None, gr_budget_reported_goal_id = None\<rparr>"

definition active_goal_id_locked :: "goal_store \<Rightarrow> goal_runtime \<Rightarrow> string option" where
  "active_goal_id_locked st rt =
     (case store_get (gr_thread_id rt) st of
        Some g \<Rightarrow> if goal_status g = ACTIVE then Some (goal_id g) else None
      | None \<Rightarrow> None)"

definition wall_clock_delta_locked :: "clock \<Rightarrow> goal_runtime \<Rightarrow> int" where
  "wall_clock_delta_locked ck rt =
     (case gr_wall_clock_started_at rt of
        None \<Rightarrow> 0
      | Some t \<Rightarrow> max 0 (py_trunc (ck_read ck - t)))"

definition reset_wall_clock_locked :: "clock \<Rightarrow> goal_runtime \<Rightarrow> goal_runtime" where
  "reset_wall_clock_locked ck rt = rt\<lparr>gr_wall_clock_started_at := Some (ck_reset ck)\<rparr>"

definition start_turn :: "string \<Rightarrow> int \<Rightarrow> clock \<Rightarrow> goal_store \<Rightarrow> goal_runtime \<Rightarrow> goal_runtime" where
  "start_turn turn_id token_usage ck st rt =
     (let rt1 = rt\<lparr>gr_turn := Some \<lparr>ta_turn_id = turn_id,
                      ta_last_accounted_tokens = max 0 token_usage,
                      ta_current_tokens = max 0 token_usage, ta_goal_id = None\<rparr>,
                   gr_wall_clock_goal_id := active_goal_id_locked st rt\<rparr>
      in if gr_wall_clock_goal_id rt1 \<noteq> None
         then rt1\<lparr>gr_wall_clock_started_at := Some (ck_start ck)\<rparr> else rt1)"

definition record_token_usage :: "string \<Rightarrow> int \<Rightarrow> int \<Rightarrow> int \<Rightarrow> goal_runtime \<Rightarrow> goal_runtime" where
  "record_token_usage turn_id input_tokens output_tokens cache_read_tokens rt =
     (case gr_turn rt of
        None \<Rightarrow> rt
      | Some turn \<Rightarrow>
          if ta_turn_id turn \<noteq> turn_id then rt
          else
            let delta = goal_token_delta input_tokens output_tokens cache_read_tokens
            in rt\<lparr>gr_turn := Some (turn\<lparr>ta_current_tokens := ta_current_tokens turn + max 0 delta\<rparr>)\<rparr>)"

definition mark_idle_goal_active :: "string \<Rightarrow> clock \<Rightarrow> goal_runtime \<Rightarrow> goal_runtime" where
  "mark_idle_goal_active gid ck rt =
     rt\<lparr>gr_wall_clock_goal_id := Some gid, gr_wall_clock_started_at := Some (ck_start ck),
        gr_budget_reported_goal_id := None\<rparr>"

definition mark_turn_goal_active :: "string \<Rightarrow> clock \<Rightarrow> goal_runtime \<Rightarrow> goal_runtime" where
  "mark_turn_goal_active gid ck rt =
     rt\<lparr>gr_turn := map_option (\<lambda>turn. turn\<lparr>ta_goal_id := Some gid,
                     ta_last_accounted_tokens := ta_current_tokens turn\<rparr>) (gr_turn rt),
        gr_wall_clock_goal_id := Some gid, gr_wall_clock_started_at := Some (ck_start ck),
        gr_budget_reported_goal_id := None\<rparr>"

definition clear_active_goal :: "goal_runtime \<Rightarrow> goal_runtime" where
  "clear_active_goal rt =
     rt\<lparr>gr_turn := map_option (\<lambda>turn. turn\<lparr>ta_goal_id := None\<rparr>) (gr_turn rt),
        gr_wall_clock_goal_id := None, gr_wall_clock_started_at := None,
        gr_budget_reported_goal_id := None\<rparr>"

definition finish_turn :: "string \<Rightarrow> goal_runtime \<Rightarrow> goal_runtime" where
  "finish_turn turn_id rt =
     (case gr_turn rt of
        None \<Rightarrow> rt\<lparr>gr_wall_clock_started_at := None\<rparr>
      | Some turn \<Rightarrow>
          if ta_turn_id turn = turn_id
          then rt\<lparr>gr_turn := None, gr_wall_clock_started_at := None\<rparr> else rt)"

definition finish_active_turn :: "goal_runtime \<Rightarrow> goal_runtime" where
  "finish_active_turn rt = rt\<lparr>gr_turn := None, gr_wall_clock_started_at := None\<rparr>"

definition turn_active :: "goal_runtime \<Rightarrow> bool" where
  "turn_active rt \<longleftrightarrow> gr_turn rt \<noteq> None"

definition current_turn_id :: "goal_runtime \<Rightarrow> string option" where
  "current_turn_id rt = map_option ta_turn_id (gr_turn rt)"

definition budget_hit :: "thread_goal option \<Rightarrow> thread_goal option \<Rightarrow> bool" where
  "budget_hit before after \<longleftrightarrow>
     (case (before, after) of
        (Some b, Some g) \<Rightarrow> goal_status b = ACTIVE \<and> goal_status g = BUDGET_LIMITED
      | _ \<Rightarrow> False)"

definition account_wall_clock_only ::
  "bool \<Rightarrow> bool \<Rightarrow> clock \<Rightarrow> goal_store \<Rightarrow> goal_runtime \<Rightarrow>
     (thread_goal option \<times> bool) \<times> goal_store \<times> goal_runtime" where
  "account_wall_clock_only allow_complete allow_stopped ck st rt =
     (let time_delta = wall_clock_delta_locked ck rt in
      if time_delta = 0 then ((store_get (gr_thread_id rt) st, False), st, rt)
      else
        let before = store_get (gr_thread_id rt) st;
            (goal, st') = account_usage
              \<lparr>ua_time_delta_seconds = time_delta, ua_token_delta = 0,
               ua_allow_complete = allow_complete, ua_allow_stopped = allow_stopped,
               ua_expected_goal_id = gr_wall_clock_goal_id rt, ua_now_ms = ck_now_ms ck\<rparr>
              (gr_thread_id rt) st
        in ((goal, budget_hit before goal), st', reset_wall_clock_locked ck rt))"

definition account_progress ::
  "bool \<Rightarrow> bool \<Rightarrow> string option \<Rightarrow> clock \<Rightarrow> goal_store \<Rightarrow> goal_runtime \<Rightarrow>
     (thread_goal option \<times> bool) \<times> goal_store \<times> goal_runtime" where
  "account_progress allow_complete allow_stopped expected_goal_id ck st rt =
     (case gr_turn rt of
        None \<Rightarrow> account_wall_clock_only allow_complete allow_stopped ck st rt
      | Some turn \<Rightarrow>
          let token_delta = max 0 (ta_current_tokens turn - ta_last_accounted_tokens turn);
              time_delta = wall_clock_delta_locked ck rt;
              gid = or_str (ta_goal_id turn) (gr_wall_clock_goal_id rt)
          in if token_delta = 0 \<and> time_delta = 0
             then ((store_get (gr_thread_id rt) st, False), st, rt)
             else
               let before = store_get (gr_thread_id rt) st;
                   (goal, st') = account_usage
                     \<lparr>ua_time_delta_seconds = time_delta, ua_token_delta = token_delta,
                      ua_allow_complete = allow_complete, ua_allow_stopped = allow_stopped,
                      ua_expected_goal_id = or_str expected_goal_id gid, ua_now_ms = ck_now_ms ck\<rparr>
                     (gr_thread_id rt) st;
                   rt1 = rt\<lparr>gr_turn := Some (turn\<lparr>ta_last_accounted_tokens := ta_current_tokens turn\<rparr>)\<rparr>;
                   rt2 = (if 0 < time_delta then reset_wall_clock_locked ck rt1 else rt1)
               in ((goal, budget_hit before goal), st', rt2))"

definition or_goal :: "thread_goal option \<Rightarrow> thread_goal option \<Rightarrow> thread_goal option" where
  "or_goal a b = (case a of None \<Rightarrow> b | Some g \<Rightarrow> Some g)"

definition stop_for_error ::
  "bool \<Rightarrow> clock \<Rightarrow> goal_store \<Rightarrow> goal_runtime \<Rightarrow> thread_goal option \<times> goal_store \<times> goal_runtime" where
  "stop_for_error usage_limit ck st rt =
     (let status = (if usage_limit then USAGE_LIMITED else BLOCKED) in
      case store_get (gr_thread_id rt) st of
        None \<Rightarrow> (None, st, rt)
      | Some current \<Rightarrow>
          let (goal, st') = store_update
                (no_update\<lparr>gu_status := Some status, gu_expected_goal_id := Some (goal_id current),
                           gu_expected_status := Some ACTIVE, gu_now_ms := ck_now_ms ck\<rparr>)
                (gr_thread_id rt) st
          in (or_goal goal (store_get (gr_thread_id rt) st'), st', clear_active_goal rt))"

definition pause ::
  "clock \<Rightarrow> goal_store \<Rightarrow> goal_runtime \<Rightarrow> thread_goal option \<times> goal_store \<times> goal_runtime" where
  "pause ck st rt =
     (case store_get (gr_thread_id rt) st of
        None \<Rightarrow> (None, st, rt)
      | Some current \<Rightarrow>
          if goal_status current \<noteq> ACTIVE then (Some current, st, rt)
          else
            let (goal, st') = store_update
                  (no_update\<lparr>gu_status := Some PAUSED, gu_expected_goal_id := Some (goal_id current),
                             gu_expected_status := Some ACTIVE, gu_now_ms := ck_now_ms ck\<rparr>)
                  (gr_thread_id rt) st
            in (or_goal goal (store_get (gr_thread_id rt) st'), st', clear_active_goal rt))"

definition resume ::
  "clock \<Rightarrow> goal_store \<Rightarrow> goal_runtime \<Rightarrow> thread_goal option \<times> goal_store \<times> goal_runtime" where
  "resume ck st rt =
     (case store_get (gr_thread_id rt) st of
        None \<Rightarrow> (None, st, rt)
      | Some goal \<Rightarrow>
          if goal_status goal \<notin> {PAUSED, BLOCKED, USAGE_LIMITED, BUDGET_LIMITED}
          then (Some goal, st, rt)
          else
            let (updated, st') = store_update
                  (no_update\<lparr>gu_status := Some ACTIVE, gu_expected_goal_id := Some (goal_id goal),
                             gu_now_ms := ck_now_ms ck\<rparr>)
                  (gr_thread_id rt) st
            in (updated, st',
                case updated of None \<Rightarrow> rt | Some g \<Rightarrow> mark_idle_goal_active (goal_id g) ck rt))"

definition mark_budget_reported :: "string \<Rightarrow> goal_runtime \<Rightarrow> bool \<times> goal_runtime" where
  "mark_budget_reported gid rt =
     (if gr_budget_reported_goal_id rt = Some gid then (False, rt)
      else (True, rt\<lparr>gr_budget_reported_goal_id := Some gid\<rparr>))"

section \<open>GoalService\<close>

record goal_service =
  gs_store :: goal_store
  gs_runtimes :: "string \<Rightarrow> goal_runtime option"
  gs_listeners :: "nat list"
  gs_told :: "(nat \<times> string \<times> thread_goal option) list"

definition new_goal_service :: "goal_store \<Rightarrow> goal_service" where
  "new_goal_service st = \<lparr>gs_store = st, gs_runtimes = (\<lambda>_. None), gs_listeners = [], gs_told = []\<rparr>"

definition runtime_of :: "string \<Rightarrow> goal_service \<Rightarrow> goal_runtime" where
  "runtime_of tid s = (case gs_runtimes s tid of None \<Rightarrow> new_goal_runtime tid | Some rt \<Rightarrow> rt)"

text \<open>\<open>runtime(thread_id)\<close> registers the runtime it returns; an operation on it is applied in place.\<close>

definition on_runtime ::
  "string \<Rightarrow> (goal_store \<Rightarrow> goal_runtime \<Rightarrow> 'a \<times> goal_store \<times> goal_runtime) \<Rightarrow> goal_service \<Rightarrow>
     'a \<times> goal_service" where
  "on_runtime tid f s =
     (let (x, st, rt) = f (gs_store s) (runtime_of tid s)
      in (x, s\<lparr>gs_store := st, gs_runtimes := (gs_runtimes s)(tid \<mapsto> rt)\<rparr>))"

definition on_runtime_only :: "string \<Rightarrow> (goal_runtime \<Rightarrow> goal_runtime) \<Rightarrow> goal_service \<Rightarrow> goal_service"
  where "on_runtime_only tid f s = snd (on_runtime tid (\<lambda>st rt. ((), st, f rt)) s)"

definition add_listener :: "nat \<Rightarrow> goal_service \<Rightarrow> goal_service" where
  "add_listener l s =
     (if l \<notin> set (gs_listeners s) then s\<lparr>gs_listeners := gs_listeners s @ [l]\<rparr> else s)"

definition remove_listener :: "nat \<Rightarrow> goal_service \<Rightarrow> goal_service" where
  "remove_listener l s = s\<lparr>gs_listeners := filter (\<lambda>cb. cb \<noteq> l) (gs_listeners s)\<rparr>"

definition notify :: "string \<Rightarrow> thread_goal option \<Rightarrow> goal_service \<Rightarrow> goal_service" where
  "notify tid goal s = s\<lparr>gs_told := gs_told s @ map (\<lambda>l. (l, tid, goal)) (gs_listeners s)\<rparr>"

text \<open>The id of \<open>if not thread_id: ...\<close>: None and the empty string are both absent.\<close>

definition real_id :: "string option \<Rightarrow> string option" where
  "real_id t = (case t of Some (c # cs) \<Rightarrow> t | _ \<Rightarrow> None)"

definition service_get :: "string option \<Rightarrow> goal_service \<Rightarrow> thread_goal option" where
  "service_get t s = (case real_id t of None \<Rightarrow> None | Some tid \<Rightarrow> store_get tid (gs_store s))"

type_synonym goal_reply = "thread_goal option \<times> string option"

definition set_goal ::
  "string option \<Rightarrow> string \<Rightarrow> int option \<Rightarrow> bool \<Rightarrow> string \<Rightarrow> clock \<Rightarrow> goal_service \<Rightarrow>
     goal_reply \<times> goal_service" where
  "set_goal t objective token_budget replace fresh ck s =
     (case real_id t of
        None \<Rightarrow> ((None, Some ''session must start before setting a goal''), s)
      | Some tid \<Rightarrow>
          let existing = store_get tid (gs_store s);
              unfinished = (case existing of None \<Rightarrow> False | Some g \<Rightarrow> \<not> is_replaceable (goal_status g))
          in if unfinished \<and> \<not> replace
             then ((None, Some (''there is already an unfinished goal; '' @
                      ''finish it first or use /goal clear or /goal edit'')), s)
             else
               let s1 = (if unfinished
                         then notify tid None (s\<lparr>gs_store := snd (store_clear None tid (gs_store s))\<rparr>)
                         else s);
                   (goal, st) = store_insert tid objective ACTIVE token_budget None fresh
                                  (ck_now_ms ck) (gs_store s1)
               in case goal of
                    None \<Rightarrow> ((None, Some ''cannot create a goal in this thread''), s1)
                  | Some g \<Rightarrow>
                      ((Some g, None),
                       notify tid (Some g)
                         (on_runtime_only tid (mark_turn_goal_active (goal_id g) ck)
                           (s1\<lparr>gs_store := st\<rparr>))))"

definition changed_or_missing :: "string \<Rightarrow> goal_service \<Rightarrow> goal_reply" where
  "changed_or_missing tid s =
     (case store_get tid (gs_store s) of
        None \<Rightarrow> (None, Some ''no goal is currently set'')
      | Some current \<Rightarrow> (Some current, Some ''goal changed since it was read''))"

definition edit_goal ::
  "string option \<Rightarrow> string \<Rightarrow> string option \<Rightarrow> clock \<Rightarrow> goal_service \<Rightarrow> goal_reply \<times> goal_service" where
  "edit_goal t objective expected_goal_id ck s =
     (case real_id t of
        None \<Rightarrow> ((None, Some ''session must start before editing a goal''), s)
      | Some tid \<Rightarrow>
          let (goal, st) = store_update
                (no_update\<lparr>gu_objective := Some objective, gu_expected_goal_id := expected_goal_id,
                           gu_now_ms := ck_now_ms ck\<rparr>) tid (gs_store s);
              s1 = s\<lparr>gs_store := st\<rparr>
          in case goal of
               None \<Rightarrow> (changed_or_missing tid s1, s1)
             | Some g \<Rightarrow> ((Some g, None), notify tid (Some g) s1))"

definition clear_goal ::
  "string option \<Rightarrow> string option \<Rightarrow> goal_service \<Rightarrow> goal_reply \<times> goal_service" where
  "clear_goal t expected_goal_id s =
     (case real_id t of
        None \<Rightarrow> ((None, Some ''session must start before clearing a goal''), s)
      | Some tid \<Rightarrow>
          let (goal, st) = store_clear expected_goal_id tid (gs_store s);
              s1 = s\<lparr>gs_store := st\<rparr>
          in case goal of
               None \<Rightarrow> (changed_or_missing tid s1, s1)
             | Some g \<Rightarrow>
                 ((Some g, None), notify tid None (on_runtime_only tid clear_active_goal s1)))"

text \<open>\<open>pause_goal\<close> and \<open>resume_goal\<close> differ in the runtime operation and the first message.\<close>

definition with_current_goal ::
  "string \<Rightarrow> (goal_store \<Rightarrow> goal_runtime \<Rightarrow> thread_goal option \<times> goal_store \<times> goal_runtime) \<Rightarrow>
     string option \<Rightarrow> string option \<Rightarrow> goal_service \<Rightarrow> goal_reply \<times> goal_service" where
  "with_current_goal missing f t expected_goal_id s =
     (case real_id t of
        None \<Rightarrow> ((None, Some missing), s)
      | Some tid \<Rightarrow>
          (case store_get tid (gs_store s) of
             None \<Rightarrow> ((None, Some ''no goal is currently set''), s)
           | Some current \<Rightarrow>
               if expected_goal_id \<noteq> None \<and> Some (goal_id current) \<noteq> expected_goal_id
               then ((Some current, Some ''goal changed since it was read''), s)
               else
                 let (goal, s1) = on_runtime tid f s
                 in case goal of
                      None \<Rightarrow> ((None, Some ''no goal is currently set''), s1)
                    | Some g \<Rightarrow> ((Some g, None), notify tid (Some g) s1)))"

definition pause_goal ::
  "string option \<Rightarrow> string option \<Rightarrow> clock \<Rightarrow> goal_service \<Rightarrow> goal_reply \<times> goal_service" where
  "pause_goal t expected_goal_id ck =
     with_current_goal ''session must start before pausing a goal'' (pause ck) t expected_goal_id"

definition resume_goal ::
  "string option \<Rightarrow> string option \<Rightarrow> clock \<Rightarrow> goal_service \<Rightarrow> goal_reply \<times> goal_service" where
  "resume_goal t expected_goal_id ck =
     with_current_goal ''session must start before resuming a goal'' (resume ck) t expected_goal_id"

definition mark_status ::
  "string option \<Rightarrow> thread_goal_status \<Rightarrow> string option \<Rightarrow> clock \<Rightarrow> goal_service \<Rightarrow>
     goal_reply \<times> goal_service" where
  "mark_status t status expected_goal_id ck s =
     (case real_id t of
        None \<Rightarrow> ((None, Some ''missing thread id''), s)
      | Some tid \<Rightarrow>
          (case store_get tid (gs_store s) of
             None \<Rightarrow> ((None, Some ''no goal is currently set''), s)
           | Some current \<Rightarrow>
               if expected_goal_id \<noteq> None \<and> Some (goal_id current) \<noteq> expected_goal_id
               then ((Some current, None), s)
               else
                 let (updated, st) = store_update
                       (no_update\<lparr>gu_status := Some status,
                                  gu_expected_goal_id := Some (goal_id current),
                                  gu_now_ms := ck_now_ms ck\<rparr>) tid (gs_store s);
                     s1 = s\<lparr>gs_store := st\<rparr>
                 in case or_goal updated (store_get tid st) of
                      None \<Rightarrow> ((None, Some ''no goal is currently set''), s1)
                    | Some g \<Rightarrow>
                        ((Some g, None),
                         notify tid (Some g)
                           (if status \<in> {PAUSED, BLOCKED, USAGE_LIMITED, BUDGET_LIMITED, COMPLETE}
                            then on_runtime_only tid clear_active_goal s1 else s1))))"

section \<open>Turn hooks\<close>

text \<open>\<open>ns\<close> is the reading of \<open>time.monotonic_ns()\<close> that names an implicit turn.\<close>

definition implicit_turn_id :: "string \<Rightarrow> int \<Rightarrow> string" where
  "implicit_turn_id tid ns = tid @ '':'' @ py_str_int ns"

definition ensure_turn :: "string \<Rightarrow> int \<Rightarrow> clock \<Rightarrow> goal_store \<Rightarrow> goal_runtime \<Rightarrow> goal_runtime" where
  "ensure_turn tid ns ck st rt =
     (if \<not> turn_active rt then start_turn (implicit_turn_id tid ns) 0 ck st rt else rt)"

definition on_model_call_begin :: "string option \<Rightarrow> int \<Rightarrow> clock \<Rightarrow> goal_service \<Rightarrow> goal_service" where
  "on_model_call_begin t ns ck s =
     (case real_id t of
        None \<Rightarrow> s
      | Some tid \<Rightarrow> snd (on_runtime tid (\<lambda>st rt. ((), st, ensure_turn tid ns ck st rt)) s))"

definition notify_some :: "string \<Rightarrow> thread_goal option \<Rightarrow> goal_service \<Rightarrow> goal_service" where
  "notify_some tid goal s = (case goal of None \<Rightarrow> s | Some g \<Rightarrow> notify tid (Some g) s)"

definition on_model_call_end ::
  "string option \<Rightarrow> int \<Rightarrow> int \<Rightarrow> int \<Rightarrow> int \<Rightarrow> clock \<Rightarrow> goal_service \<Rightarrow> goal_service" where
  "on_model_call_end t input_tokens output_tokens cache_read_tokens ns ck s =
     (case real_id t of
        None \<Rightarrow> s
      | Some tid \<Rightarrow>
          let ((goal, hit), s1) =
                on_runtime tid
                  (\<lambda>st rt.
                     let rt1 = ensure_turn tid ns ck st rt;
                         turn = (case current_turn_id rt1 of None \<Rightarrow> [] | Some i \<Rightarrow> i);
                         rt2 = record_token_usage turn input_tokens output_tokens cache_read_tokens rt1
                     in account_progress False False None ck st rt2) s
          in notify_some tid goal s1)"

definition on_turn_start ::
  "string option \<Rightarrow> string \<Rightarrow> int \<Rightarrow> clock \<Rightarrow> goal_service \<Rightarrow> goal_service" where
  "on_turn_start t turn_id token_usage ck s =
     (case real_id t of
        None \<Rightarrow> s
      | Some tid \<Rightarrow>
          snd (on_runtime tid (\<lambda>st rt. ((), st, start_turn turn_id token_usage ck st rt)) s))"

definition on_turn_abort :: "string option \<Rightarrow> string \<Rightarrow> goal_service \<Rightarrow> goal_service" where
  "on_turn_abort t turn_id s =
     (case real_id t of None \<Rightarrow> s | Some tid \<Rightarrow> on_runtime_only tid (finish_turn turn_id) s)"

definition on_token_usage ::
  "string option \<Rightarrow> string \<Rightarrow> int \<Rightarrow> int \<Rightarrow> int \<Rightarrow> goal_service \<Rightarrow> goal_service" where
  "on_token_usage t turn_id input_tokens output_tokens cache_read_tokens s =
     (case real_id t of
        None \<Rightarrow> s
      | Some tid \<Rightarrow>
          on_runtime_only tid
            (record_token_usage turn_id input_tokens output_tokens cache_read_tokens) s)"

definition on_tool_finish :: "string option \<Rightarrow> clock \<Rightarrow> goal_service \<Rightarrow> goal_service" where
  "on_tool_finish t ck s =
     (case real_id t of
        None \<Rightarrow> s
      | Some tid \<Rightarrow>
          let ((goal, hit), s1) = on_runtime tid (account_progress False False None ck) s
          in notify_some tid goal s1)"

definition on_turn_end ::
  "string option \<Rightarrow> bool \<Rightarrow> string option \<Rightarrow> clock \<Rightarrow> goal_service \<Rightarrow>
     thread_goal option \<times> goal_service" where
  "on_turn_end t usage_limit_error turn_id ck s =
     (case real_id t of
        None \<Rightarrow> (None, s)
      | Some tid \<Rightarrow>
          let s0 = on_runtime_only tid id s;
              running = current_turn_id (runtime_of tid s0)
          in if turn_id \<noteq> None \<and> running \<noteq> None \<and> running \<noteq> turn_id
             then (store_get tid (gs_store s0), s0)
             else
               let (goal, s1) =
                     (if usage_limit_error then on_runtime tid (stop_for_error True ck) s0
                      else
                        let ((g, hit), s') = on_runtime tid (account_progress False False None ck) s0
                        in (or_goal g (store_get tid (gs_store s')), s'));
                   s2 = on_runtime_only tid
                          (case turn_id of None \<Rightarrow> finish_active_turn | Some i \<Rightarrow> finish_turn i) s1
               in (goal, notify_some tid goal s2))"

section \<open>Agent tools\<close>

definition format_goal :: "thread_goal \<Rightarrow> bool \<Rightarrow> string list" where
  "format_goal g include_budget_report =
     [''status: '' @ label (goal_status g),
      ''objective: '' @ goal_objective g,
      ''tokens_used: '' @ py_str_int (goal_tokens_used g),
      ''time_used_seconds: '' @ py_str_int (goal_time_used_seconds g)] @
     (case goal_token_budget g of
        None \<Rightarrow> []
      | Some b \<Rightarrow>
          (''token_budget: '' @ py_str_int b) #
          (if include_budget_report then [''final_token_usage: '' @ py_str_int (goal_tokens_used g)]
           else []))"

text \<open>The reply of a tool: an error text, or the lines that are joined by newlines.\<close>

definition get_goal_tool :: "string option \<Rightarrow> goal_service \<Rightarrow> string + string list" where
  "get_goal_tool t s =
     (case service_get t s of
        None \<Rightarrow> Inl ''no goal is currently set for this thread''
      | Some g \<Rightarrow> Inr (format_goal g False))"

definition create_goal_tool ::
  "string option \<Rightarrow> string option \<Rightarrow> int option \<Rightarrow> string \<Rightarrow> clock \<Rightarrow> clock \<Rightarrow> goal_service \<Rightarrow>
     (string + string list) \<times> goal_service" where
  "create_goal_tool t objective token_budget fresh ck1 ck2 s =
     (let text = py_strip (case objective of None \<Rightarrow> [] | Some x \<Rightarrow> x);
          error = (case validate_goal_objective (Some text) of
                     Some e \<Rightarrow> Some e
                   | None \<Rightarrow> validate_goal_budget token_budget)
      in case error of
           Some e \<Rightarrow> (Inl (''failed to create goal: '' @ e), s)
         | None \<Rightarrow>
             let s1 = on_tool_finish t ck1 s;
                 ((goal, err), s2) = set_goal t text token_budget False fresh ck2 s1
             in case (err, goal) of
                  (Some e, _) \<Rightarrow> (Inl (''failed to create goal: '' @ e), s2)
                | (None, Some g) \<Rightarrow> (Inr (''goal created.'' # format_goal g False), s2)
                | (None, None) \<Rightarrow> (Inl ''assertion failed'', s2))"

definition update_goal_tool ::
  "string option \<Rightarrow> string \<Rightarrow> clock \<Rightarrow> clock \<Rightarrow> goal_service \<Rightarrow>
     (string + string list) \<times> goal_service" where
  "update_goal_tool t status ck1 ck2 s =
     (let s1 = on_tool_finish t ck1 s in
      case service_get t s1 of
        None \<Rightarrow> (Inl ''failed to update goal: no goal is currently set'', s1)
      | Some current \<Rightarrow>
          let new_status = (if status = ''complete'' then COMPLETE else BLOCKED);
              ((goal, err), s2) = mark_status t new_status (Some (goal_id current)) ck2 s1
          in case (err, goal) of
               (Some e, _) \<Rightarrow> (Inl (''failed to update goal: '' @ e), s2)
             | (None, Some g) \<Rightarrow> (Inr (format_goal g (new_status = COMPLETE)), s2)
             | (None, None) \<Rightarrow> (Inl ''assertion failed'', s2))"

end
