(* ===== verification/Goal_Lifecycle.thy ===== *)
theory Goal_Lifecycle
  imports Goal_Runtime
begin

text \<open>
  What the goal operations promise. \<open>goal_step\<close> is one operation of the service (the tools are
  sequences of them); \<open>status_edge\<close> is the table of status changes of a goal that keeps its identity;
  \<open>billing\<close> describes a turn whose usage is charged to a goal, and the billing lemmas follow an
  arbitrary sequence of model calls and finished tools.
\<close>

section \<open>Frames\<close>

lemma notify_simps [simp]:
  "gs_store (notify tid g s) = gs_store s"
  "gs_runtimes (notify tid g s) = gs_runtimes s"
  "gs_listeners (notify tid g s) = gs_listeners s"
  by (simp_all add: notify_def)

lemma notify_some_simps [simp]:
  "gs_store (notify_some tid g s) = gs_store s"
  "gs_runtimes (notify_some tid g s) = gs_runtimes s"
  by (simp_all add: notify_some_def split: option.split)

lemma on_runtime_simps:
  "fst (on_runtime tid f s) = fst (f (gs_store s) (runtime_of tid s))"
  "gs_store (snd (on_runtime tid f s)) = fst (snd (f (gs_store s) (runtime_of tid s)))"
  "gs_runtimes (snd (on_runtime tid f s)) =
     (gs_runtimes s)(tid \<mapsto> snd (snd (f (gs_store s) (runtime_of tid s))))"
  by (simp_all add: on_runtime_def split_beta Let_def)

lemma on_runtime_only_simps [simp]:
  "gs_store (on_runtime_only tid f s) = gs_store s"
  "gs_runtimes (on_runtime_only tid f s) = (gs_runtimes s)(tid \<mapsto> f (runtime_of tid s))"
  by (simp_all add: on_runtime_only_def on_runtime_simps)

lemma real_id_Some [simp]: "tid \<noteq> [] \<Longrightarrow> real_id (Some tid) = Some tid"
  by (cases tid) (simp_all add: real_id_def)

section \<open>Status changes\<close>

text \<open>The changes an operation may make to a goal that stays the same goal.\<close>

definition status_edge :: "thread_goal_status \<Rightarrow> thread_goal_status \<Rightarrow> bool" where
  "status_edge a b \<longleftrightarrow>
     a = b \<or> (a = ACTIVE \<and> b \<in> {PAUSED, BUDGET_LIMITED, USAGE_LIMITED}) \<or>
     (a \<in> {PAUSED, BLOCKED, USAGE_LIMITED, BUDGET_LIMITED} \<and> b = ACTIVE)"

lemma complete_is_final: "\<forall>b. status_edge COMPLETE b \<longrightarrow> b = COMPLETE"
  by (simp add: status_edge_def)

definition goal_kept :: "thread_goal \<Rightarrow> thread_goal \<Rightarrow> bool" where
  "goal_kept g g' \<longleftrightarrow>
     status_edge (goal_status g) (goal_status g') \<and>
     goal_tokens_used g \<le> goal_tokens_used g' \<and>
     goal_time_used_seconds g \<le> goal_time_used_seconds g' \<and>
     goal_thread_id g' = goal_thread_id g \<and> goal_created_at_ms g' = goal_created_at_ms g"

text \<open>Every goal that survives an operation is kept.\<close>

definition store_kept :: "goal_store \<Rightarrow> goal_store \<Rightarrow> bool" where
  "store_kept st st' \<longleftrightarrow>
     (\<forall>t g g'. st t = Some g \<longrightarrow> st' t = Some g' \<longrightarrow> goal_id g = goal_id g' \<longrightarrow> goal_kept g g')"

lemma goal_kept_refl [simp]: "goal_kept g g"
  by (simp add: goal_kept_def status_edge_def)

lemma store_kept_refl [simp]: "store_kept st st"
  by (simp add: store_kept_def)

lemma store_kept_usage: "store_kept st (snd (account_usage u tid st))"
  by (auto simp: store_kept_def account_usage_def Let_def goal_kept_def status_edge_def usage_set_def
      split: option.splits if_splits)

lemma store_kept_update:
  assumes "\<And>g b. st tid = Some g \<Longrightarrow> update_where u g \<Longrightarrow> gu_status u = Some b \<Longrightarrow>
    status_edge (goal_status g) b"
  shows "store_kept st (snd (store_update u tid st))"
  using assms
  by (auto simp: store_kept_def store_update_def goal_kept_def update_set_def status_edge_def
      split: option.splits if_splits)

lemma store_kept_clear: "store_kept st (snd (store_clear e tid st))"
  by (auto simp: store_kept_def store_clear_def split: option.splits)

lemma store_kept_insert:
  assumes "\<And>g. st tid = Some g \<Longrightarrow> goal_id g \<noteq> fresh"
  shows "store_kept st (snd (store_insert tid obj status budget None fresh now st))"
  using assms by (auto simp: store_kept_def store_insert_def Let_def split: option.splits)

section \<open>The operations as steps\<close>

text \<open>
  An id drawn by \<open>uuid4\<close> is one no stored goal has; that is the only assumption a step makes. Setting a
  status directly (\<open>mark_status\<close>) is a step of its own, with the statuses the tools use.
\<close>

definition fresh_id :: "string \<Rightarrow> goal_service \<Rightarrow> bool" where
  "fresh_id i s \<longleftrightarrow> i \<noteq> [] \<and> (\<forall>t g. gs_store s t = Some g \<longrightarrow> goal_id g \<noteq> i)"

inductive goal_step :: "goal_service \<Rightarrow> goal_service \<Rightarrow> bool" where
  "fresh_id i s \<Longrightarrow> goal_step s (snd (set_goal t objective budget replace i ck s))"
| "goal_step s (snd (edit_goal t objective expected ck s))"
| "goal_step s (snd (clear_goal t expected s))"
| "goal_step s (snd (pause_goal t expected ck s))"
| "goal_step s (snd (resume_goal t expected ck s))"
| "goal_step s (on_model_call_begin t ns ck s)"
| "goal_step s (on_model_call_end t i_tokens o_tokens c_tokens ns ck s)"
| "goal_step s (on_turn_start t turn usage ck s)"
| "goal_step s (on_turn_abort t turn s)"
| "goal_step s (on_token_usage t turn i_tokens o_tokens c_tokens s)"
| "goal_step s (on_tool_finish t ck s)"
| "goal_step s (snd (on_turn_end t usage_limit turn_opt ck s))"
| "goal_step s (add_listener l s)"
| "goal_step s (remove_listener l s)"

inductive_cases goal_stepE: "goal_step s s'"

lemma kept_account_progress:
  "store_kept st (fst (snd (account_progress ac as e ck st rt)))"
  by (auto simp: account_progress_def account_wall_clock_only_def Let_def split_beta store_kept_usage
      split: option.split)

lemma kept_stop: "store_kept st (fst (snd (stop_for_error True ck st rt)))"
  unfolding stop_for_error_def
  by (auto simp: Let_def split_beta store_get_def update_where_def no_update_def status_edge_def
      split: option.split intro!: store_kept_update)

lemma kept_pause: "store_kept st (fst (snd (pause ck st rt)))"
  unfolding pause_def
  by (auto simp: Let_def split_beta store_get_def update_where_def no_update_def status_edge_def
      split: option.split intro!: store_kept_update)

lemma kept_resume: "store_kept st (fst (snd (resume ck st rt)))"
  unfolding resume_def
  by (auto simp: Let_def split_beta store_get_def update_where_def no_update_def status_edge_def
      split: option.split intro!: store_kept_update)

lemma kept_set_goal:
  assumes "fresh_id i s"
  shows "store_kept (gs_store s) (gs_store (snd (set_goal t objective budget replace i ck s)))"
proof -
  have ins: "store_kept (gs_store s)
      (snd (store_insert tid objective ACTIVE budget None i (ck_now_ms ck) (gs_store s)))" for tid
    using assms by (intro store_kept_insert) (auto simp: fresh_id_def)
  have clr: "store_kept (gs_store s)
      (snd (store_insert tid objective ACTIVE budget None i (ck_now_ms ck)
        (snd (store_clear None tid (gs_store s)))))" for tid
    using assms
    by (auto simp: store_kept_def store_clear_def store_insert_def Let_def fresh_id_def
        split: option.splits if_splits)
  show ?thesis
    using ins clr store_kept_clear [of "gs_store s" None]
    by (auto simp: set_goal_def Let_def split_beta split: option.split)
qed

lemma kept_with_current:
  assumes "\<And>rt. store_kept (gs_store s) (fst (snd (f (gs_store s) rt)))"
  shows "store_kept (gs_store s) (gs_store (snd (with_current_goal m f t e s)))"
  using assms
  by (auto simp: with_current_goal_def Let_def split_beta on_runtime_simps split: option.split)

lemma kept_edit: "store_kept (gs_store s) (gs_store (snd (edit_goal t objective e ck s)))"
  by (auto simp: edit_goal_def Let_def split_beta no_update_def split: option.split
      intro!: store_kept_update)

lemma kept_clear: "store_kept (gs_store s) (gs_store (snd (clear_goal t e s)))"
  by (auto simp: clear_goal_def Let_def split_beta store_kept_clear split: option.split)

lemma kept_turn_end: "store_kept (gs_store s) (gs_store (snd (on_turn_end t u turn ck s)))"
  by (auto simp: on_turn_end_def Let_def split_beta on_runtime_simps kept_account_progress kept_stop
      split: option.split)

lemma goal_step_kept: "goal_step s s' \<Longrightarrow> store_kept (gs_store s) (gs_store s')"
  by (cases rule: goal_step.cases)
     (auto simp: kept_set_goal kept_edit kept_clear pause_goal_def resume_goal_def kept_with_current
       kept_pause kept_resume kept_turn_end on_model_call_begin_def on_model_call_end_def
       on_turn_start_def on_turn_abort_def on_token_usage_def on_tool_finish_def add_listener_def
       remove_listener_def on_runtime_simps Let_def split_beta kept_account_progress
       split: option.split)

section \<open>Billing a turn\<close>

datatype billing_event =
    ModelCall int int int int clock
  | ToolFinished clock

fun billing_apply :: "string \<Rightarrow> billing_event \<Rightarrow> goal_service \<Rightarrow> goal_service" where
  "billing_apply tid (ModelCall i out c ns ck) s = on_model_call_end (Some tid) i out c ns ck s"
| "billing_apply tid (ToolFinished ck) s = on_tool_finish (Some tid) ck s"

fun event_usage :: "billing_event \<Rightarrow> int" where
  "event_usage (ModelCall i out c ns ck) = goal_token_delta i out c"
| "event_usage (ToolFinished ck) = 0"

lemma goal_token_delta_nonneg [simp]: "0 \<le> goal_token_delta i out c"
  by (simp add: goal_token_delta_def Let_def)

lemma event_usage_nonneg [simp]: "0 \<le> event_usage e"
  by (cases e) simp_all

text \<open>
  A running turn whose usage is charged to the goal \<open>g\<close> of its thread: the goal is the one the turn,
  or else the wall clock, is bound to, and it is in a status that is billed.
\<close>

definition billing :: "string \<Rightarrow> goal_service \<Rightarrow> bool" where
  "billing tid s \<longleftrightarrow>
     tid \<noteq> [] \<and>
     (case (gs_store s tid, gs_runtimes s tid) of
        (Some g, Some rt) \<Rightarrow>
          goal_status g \<in> {ACTIVE, BUDGET_LIMITED} \<and> gr_thread_id rt = tid \<and>
          (case gr_turn rt of
             None \<Rightarrow> False
           | Some turn \<Rightarrow>
               or_str (ta_goal_id turn) (gr_wall_clock_goal_id rt) = Some (goal_id g) \<and>
               ta_last_accounted_tokens turn \<le> ta_current_tokens turn)
      | _ \<Rightarrow> False)"

text \<open>Usage the turn has recorded and not yet charged.\<close>

definition unbilled :: "string \<Rightarrow> goal_service \<Rightarrow> int" where
  "unbilled tid s =
     (case Option.bind (gs_runtimes s tid) gr_turn of
        None \<Rightarrow> 0
      | Some turn \<Rightarrow> ta_current_tokens turn - ta_last_accounted_tokens turn)"

lemma billingE:
  assumes "billing tid s"
  obtains g rt turn where "gs_store s tid = Some g" "gs_runtimes s tid = Some rt"
    "gr_turn rt = Some turn" "gr_thread_id rt = tid" "tid \<noteq> []"
    "goal_status g \<in> {ACTIVE, BUDGET_LIMITED}"
    "or_str (ta_goal_id turn) (gr_wall_clock_goal_id rt) = Some (goal_id g)"
    "ta_last_accounted_tokens turn \<le> ta_current_tokens turn"
    "unbilled tid s = ta_current_tokens turn - ta_last_accounted_tokens turn"
  using assms
  by (auto simp: billing_def unbilled_def split: option.splits)

text \<open>The status after an amount has been charged.\<close>

definition limit_status :: "thread_goal \<Rightarrow> int \<Rightarrow> thread_goal_status" where
  "limit_status g used =
     (if goal_status g = ACTIVE \<and>
         (case goal_token_budget g of None \<Rightarrow> True | Some b \<Rightarrow> used < b)
      then ACTIVE else BUDGET_LIMITED)"

definition settled_goal :: "thread_goal \<Rightarrow> bool" where
  "settled_goal g \<longleftrightarrow> goal_status g = limit_status g (goal_tokens_used g)"

text \<open>What charging \<open>d\<close> tokens to a billed goal makes of it.\<close>

definition charged :: "int \<Rightarrow> thread_goal \<Rightarrow> thread_goal \<Rightarrow> bool" where
  "charged d g g' \<longleftrightarrow>
     goal_id g' = goal_id g \<and> goal_token_budget g' = goal_token_budget g \<and>
     goal_tokens_used g' = goal_tokens_used g + d \<and>
     goal_status g' \<in> {ACTIVE, BUDGET_LIMITED} \<and>
     (\<forall>u \<ge> goal_tokens_used g'. limit_status g' u = limit_status g u) \<and>
     (0 < d \<or> settled_goal g \<longrightarrow> settled_goal g')"

lemma charged_trans: "charged d g g' \<Longrightarrow> charged d' g' g'' \<Longrightarrow> 0 \<le> d \<Longrightarrow> 0 \<le> d' \<Longrightarrow> charged (d + d') g g''"
  by (auto simp: charged_def)

text \<open>One settlement of a bound turn, on the runtime and the store.\<close>

lemma account_bound:
  fixes ck :: clock
  assumes "gr_turn rt = Some turn" "st (gr_thread_id rt) = Some g"
    and "goal_status g \<in> {ACTIVE, BUDGET_LIMITED}"
    and "or_str (ta_goal_id turn) (gr_wall_clock_goal_id rt) = Some (goal_id g)"
    and "ta_last_accounted_tokens turn \<le> ta_current_tokens turn"
  defines "r \<equiv> snd (account_progress False False None ck st rt)"
    and "d \<equiv> ta_current_tokens turn - ta_last_accounted_tokens turn"
  shows "\<exists>g' turn'. fst r (gr_thread_id rt) = Some g' \<and> gr_turn (snd r) = Some turn' \<and>
    gr_thread_id (snd r) = gr_thread_id rt \<and>
    gr_wall_clock_goal_id (snd r) = gr_wall_clock_goal_id rt \<and>
    ta_goal_id turn' = ta_goal_id turn \<and> ta_turn_id turn' = ta_turn_id turn \<and>
    ta_current_tokens turn' = ta_current_tokens turn \<and>
    ta_last_accounted_tokens turn' = ta_current_tokens turn \<and>
    charged d g g'"
proof -
  let ?td = "wall_clock_delta_locked ck rt"
  have td: "0 \<le> ?td" by (simp add: wall_clock_delta_locked_def split: option.split)
  have d: "0 \<le> d" using assms(5) by (simp add: d_def)
  have e: "or_str None (or_str (ta_goal_id turn) (gr_wall_clock_goal_id rt)) = Some (goal_id g)"
    using assms(4) by (simp add: or_str_def)
  show ?thesis
  proof (cases "d = 0 \<and> ?td = 0")
    case True
    then show ?thesis
      using assms(1-5)
      by (auto simp: r_def d_def account_progress_def Let_def charged_def)
  next
    case False
    then have nz: "\<not> (?td = 0 \<and> d = 0)" by blast
    have w: "usage_where \<lparr>ua_time_delta_seconds = ?td, ua_token_delta = d, ua_allow_complete = False,
        ua_allow_stopped = False, ua_expected_goal_id = Some (goal_id g), ua_now_ms = n\<rparr> g" for n
      using assms(3) by (auto simp: usage_where_def usage_statuses_def)
    show ?thesis
      using assms(1-3) False e w td d
      by (auto simp: r_def account_progress_def Let_def account_usage_def usage_set_def charged_def
          settled_goal_def limit_status_def reset_wall_clock_locked_def max_def simp flip: d_def
          split: option.splits)
  qed
qed

lemma billing_step:
  assumes "billing tid s" "gs_store s tid = Some g"
  shows "\<exists>g'. billing tid (billing_apply tid e s) \<and> unbilled tid (billing_apply tid e s) = 0 \<and>
    gs_store (billing_apply tid e s) tid = Some g' \<and>
    charged (unbilled tid s + event_usage e) g g'"
  using assms(1)
proof (rule billingE)
  fix g0 rt turn
  assume b: "gs_store s tid = Some g0" "gs_runtimes s tid = Some rt" "gr_turn rt = Some turn"
    "gr_thread_id rt = tid" "tid \<noteq> []" "goal_status g0 \<in> {ACTIVE, BUDGET_LIMITED}"
    "or_str (ta_goal_id turn) (gr_wall_clock_goal_id rt) = Some (goal_id g0)"
    "ta_last_accounted_tokens turn \<le> ta_current_tokens turn"
    "unbilled tid s = ta_current_tokens turn - ta_last_accounted_tokens turn"
  have g: "g0 = g" using b(1) assms(2) by simp
  have rt: "runtime_of tid s = rt" by (simp add: runtime_of_def b(2))
  have charge: ?thesis
    if st: "gs_store (billing_apply tid e s) =
          fst (snd (account_progress False False None ck (gs_store s) rt'))"
      and rts: "gs_runtimes (billing_apply tid e s) = (gs_runtimes s)
          (tid \<mapsto> snd (snd (account_progress False False None ck (gs_store s) rt')))"
      and rt': "rt' = rt\<lparr>gr_turn := Some turn'\<rparr>"
      and turn': "turn' = turn\<lparr>ta_current_tokens := ta_current_tokens turn + event_usage e\<rparr>"
    for ck rt' turn'
  proof -
    have le: "ta_last_accounted_tokens turn' \<le> ta_current_tokens turn'"
      using b(8) by (simp add: turn' add_increasing2)
    have or': "or_str (ta_goal_id turn') (gr_wall_clock_goal_id rt') = Some (goal_id g)"
      using b(7) g by (simp add: turn' rt')
    obtain g' turn'' where acc:
      "fst (snd (account_progress False False None ck (gs_store s) rt')) tid = Some g'"
      "gr_turn (snd (snd (account_progress False False None ck (gs_store s) rt'))) = Some turn''"
      "gr_thread_id (snd (snd (account_progress False False None ck (gs_store s) rt'))) = tid"
      "gr_wall_clock_goal_id (snd (snd (account_progress False False None ck (gs_store s) rt'))) =
         gr_wall_clock_goal_id rt'"
      "ta_goal_id turn'' = ta_goal_id turn'" "ta_current_tokens turn'' = ta_current_tokens turn'"
      "ta_last_accounted_tokens turn'' = ta_current_tokens turn'"
      "charged (ta_current_tokens turn' - ta_last_accounted_tokens turn') g g'"
      using account_bound [of rt' turn' "gs_store s" g ck] b(1,4,6) g le or' rt' by auto
    then show ?thesis
      using b(5,9) or' by (auto simp: billing_def unbilled_def st rts charged_def turn')
  qed
  show ?thesis
  proof (cases e)
    case (ModelCall i out c ns ck)
    have "ensure_turn tid ns ck st rt = rt" for st by (simp add: ensure_turn_def turn_active_def b(3))
    then show ?thesis
      using b(3,5)
      by (intro charge [OF _ _ refl refl])
         (simp_all add: ModelCall on_model_call_end_def Let_def split_beta on_runtime_simps rt
          record_token_usage_def current_turn_id_def)
  next
    case (ToolFinished ck)
    have "rt\<lparr>gr_turn := Some (turn\<lparr>ta_current_tokens := ta_current_tokens turn + event_usage e\<rparr>)\<rparr> = rt"
      using b(3) ToolFinished by simp
    then show ?thesis
      using b(5) by (intro charge [OF _ _ refl refl])
        (simp_all add: ToolFinished on_tool_finish_def Let_def split_beta on_runtime_simps rt)
  qed
qed

lemma billing_run:
  assumes "billing tid s" "gs_store s tid = Some g" "es \<noteq> []"
  shows "\<exists>g'. billing tid (fold (billing_apply tid) es s) \<and>
    unbilled tid (fold (billing_apply tid) es s) = 0 \<and>
    gs_store (fold (billing_apply tid) es s) tid = Some g' \<and>
    charged (unbilled tid s + sum_list (map event_usage es)) g g'"
  using assms(3)
proof (induction es rule: rev_nonempty_induct)
  case (single e)
  then show ?case using billing_step [OF assms(1,2), of e] by simp
next
  case (snoc e es)
  let ?s = "fold (billing_apply tid) es s"
  from snoc.IH obtain g1 where g1: "billing tid ?s" "unbilled tid ?s = 0" "gs_store ?s tid = Some g1"
    "charged (unbilled tid s + sum_list (map event_usage es)) g g1"
    by blast
  from billing_step [OF g1(1,3), of e] g1(2) obtain g2 where g2:
    "billing tid (billing_apply tid e ?s)" "unbilled tid (billing_apply tid e ?s) = 0"
    "gs_store (billing_apply tid e ?s) tid = Some g2" "charged (event_usage e) g1 g2"
    by auto
  have "0 \<le> sum_list (map event_usage es)" by (intro sum_list_nonneg) auto
  moreover have "0 \<le> unbilled tid s" using assms(1) by (auto elim!: billingE)
  ultimately show ?case
    using g2 charged_trans [OF g1(4) g2(4)] by (auto simp: add.assoc)
qed

section \<open>A new goal\<close>

definition new_goal :: "string \<Rightarrow> string \<Rightarrow> int option \<Rightarrow> string \<Rightarrow> int \<Rightarrow> thread_goal" where
  "new_goal tid objective budget fresh now =
     \<lparr>goal_thread_id = tid, goal_id = fresh, goal_objective = objective, goal_status = ACTIVE,
      goal_token_budget = budget, goal_tokens_used = 0, goal_time_used_seconds = 0,
      goal_created_at_ms = now, goal_updated_at_ms = now\<rparr>"

lemma unbilled_mark:
  "unbilled tid (notify tid g (on_runtime_only tid (mark_turn_goal_active i ck) s)) = 0"
  by (simp add: unbilled_def mark_turn_goal_active_def bind_eq_None_conv split: option.split)

text \<open>A turn runs and the thread is given a goal with a budget of 100 tokens.\<close>

definition sample_clock :: clock where
  "sample_clock = \<lparr>ck_start = 0, ck_read = 0, ck_reset = 0, ck_now_ms = 7\<rparr>"

definition sample_goal :: thread_goal where
  "sample_goal = new_goal ''th'' ''ship'' (Some 100) ''g1'' 7"

definition goal_sample :: goal_service where
  "goal_sample =
     snd (set_goal (Some ''th'') ''ship'' (Some 100) False ''g1'' sample_clock
       (on_turn_start (Some ''th'') ''turn1'' 0 sample_clock (new_goal_service (\<lambda>_. None))))"

lemma goal_sample_facts:
  "gs_store goal_sample = [''th'' \<mapsto> sample_goal]" "billing ''th'' goal_sample"
  "unbilled ''th'' goal_sample = 0" "goal_status sample_goal = ACTIVE" "goal_id sample_goal = ''g1''"
  "goal_tokens_used sample_goal = 0" "goal_token_budget sample_goal = Some 100"
proof -
  have rt: "gs_runtimes goal_sample ''th'' = Some \<lparr>gr_thread_id = ''th'',
      gr_turn = Some \<lparr>ta_turn_id = ''turn1'', ta_last_accounted_tokens = 0, ta_current_tokens = 0,
        ta_goal_id = Some ''g1''\<rparr>,
      gr_wall_clock_goal_id = Some ''g1'', gr_wall_clock_started_at = Some 0,
      gr_budget_reported_goal_id = None\<rparr>"
    and st: "gs_store goal_sample = [''th'' \<mapsto> sample_goal]"
    by (simp_all add: goal_sample_def set_goal_def on_turn_start_def store_get_def store_insert_def
        new_goal_service_def on_runtime_simps Let_def start_turn_def active_goal_id_locked_def
        runtime_of_def new_goal_runtime_def mark_turn_goal_active_def sample_clock_def sample_goal_def
        new_goal_def)
  show "gs_store goal_sample = [''th'' \<mapsto> sample_goal]" by (rule st)
  show "goal_status sample_goal = ACTIVE" "goal_id sample_goal = ''g1''"
    "goal_tokens_used sample_goal = 0" "goal_token_budget sample_goal = Some 100"
    by (simp_all add: sample_goal_def new_goal_def)
  then show "billing ''th'' goal_sample" "unbilled ''th'' goal_sample = 0"
    by (simp_all add: billing_def unbilled_def rt st or_str_def)
qed

definition sample_calls :: "billing_event list" where
  "sample_calls = [ModelCall 50 10 20 1 sample_clock, ToolFinished sample_clock,
     ModelCall 60 5 0 2 sample_clock]"

lemma sample_calls_usage: "sum_list (map event_usage sample_calls) = 105" "sample_calls \<noteq> []"
  by (simp_all add: sample_calls_def goal_token_delta_def Let_def)

section \<open>Properties\<close>

text \<open>
  C25: Exact billing. Through any sequence of model calls and finished tools of a turn that is bound
  to its thread's goal, the goal is charged exactly the usage the turn had recorded before plus the
  billable tokens of every call: nothing is lost and nothing is charged twice.
\<close>

theorem turn_usage_billed_exactly:
  assumes "billing tid s" "gs_store s tid = Some g" "es \<noteq> []"
  shows "\<exists>g'. gs_store (fold (billing_apply tid) es s) tid = Some g' \<and> goal_id g' = goal_id g \<and>
    goal_tokens_used g' = goal_tokens_used g + unbilled tid s + sum_list (map event_usage es) \<and>
    unbilled tid (fold (billing_apply tid) es s) = 0"
  using billing_run [OF assms] by (fastforce simp: charged_def)

theorem turn_usage_billed_exactly_witness:
  "\<exists>g'. gs_store (fold (billing_apply ''th'') sample_calls goal_sample) ''th'' = Some g' \<and>
    goal_tokens_used g' = 105"
proof -
  have "gs_store goal_sample ''th'' = Some sample_goal" by (simp add: goal_sample_facts)
  from turn_usage_billed_exactly [OF goal_sample_facts(2) this sample_calls_usage(2)]
  show ?thesis by (auto simp: sample_calls_usage goal_sample_facts)
qed

text \<open>
  The budget is enforced. After usage has been charged in that way, the goal is still active
  exactly when it was active and its budget (if it has one) is not used up; otherwise it is
  budget-limited.
\<close>

theorem budget_limits_goal:
  assumes "billing tid s" "gs_store s tid = Some g" "es \<noteq> []"
    and "0 < unbilled tid s + sum_list (map event_usage es)"
  shows "\<exists>g'. gs_store (fold (billing_apply tid) es s) tid = Some g' \<and>
    goal_status g' =
      (if goal_status g = ACTIVE \<and>
          (\<forall>b. goal_token_budget g = Some b \<longrightarrow> goal_tokens_used g' < b)
       then ACTIVE else BUDGET_LIMITED)"
proof -
  obtain g' where g': "gs_store (fold (billing_apply tid) es s) tid = Some g'"
    "charged (unbilled tid s + sum_list (map event_usage es)) g g'"
    using billing_run [OF assms(1-3)] by blast
  then have "goal_status g' = limit_status g (goal_tokens_used g')"
    using assms(4) by (simp add: charged_def settled_goal_def)
  with g'(1) show ?thesis by (auto simp: limit_status_def split: option.split)
qed

theorem budget_limits_goal_witness:
  "\<exists>g'. gs_store (fold (billing_apply ''th'') sample_calls goal_sample) ''th'' = Some g' \<and>
    (goal_status g' = ACTIVE \<longleftrightarrow> goal_tokens_used g' < 100)"
proof -
  have "gs_store goal_sample ''th'' = Some sample_goal" by (simp add: goal_sample_facts)
  from budget_limits_goal [OF goal_sample_facts(2) this sample_calls_usage(2)]
  show ?thesis by (auto simp: sample_calls_usage goal_sample_facts split: if_splits)
qed



text \<open>
  A write made for a goal that has been replaced is refused: editing, clearing, pausing and
  resuming with the id of another goal report the conflict with the current goal, and no stored goal
  and no turn accounting changes.
\<close>

theorem stale_goal_writes_refused:
  assumes "tid \<noteq> []" "gs_store s tid = Some g" "goal_id g \<noteq> old"
  shows "edit_goal (Some tid) objective (Some old) ck s =
      ((Some g, Some ''goal changed since it was read''), s) \<and>
    clear_goal (Some tid) (Some old) s = ((Some g, Some ''goal changed since it was read''), s) \<and>
    pause_goal (Some tid) (Some old) ck s = ((Some g, Some ''goal changed since it was read''), s) \<and>
    resume_goal (Some tid) (Some old) ck s = ((Some g, Some ''goal changed since it was read''), s)"
proof -
  have "store_update (no_update\<lparr>gu_objective := Some objective, gu_expected_goal_id := Some old,
      gu_now_ms := ck_now_ms ck\<rparr>) tid (gs_store s) = (None, gs_store s)"
    using assms(2,3)
    by (intro goal_update_op.stale)
       (auto simp: update_guard_def update_fields_empty_def update_where_def no_update_def)
  then have "edit_goal (Some tid) objective (Some old) ck s =
      ((Some g, Some ''goal changed since it was read''), s)"
    using assms by (simp add: edit_goal_def changed_or_missing_def store_get_def Let_def)
  moreover have "clear_goal (Some tid) (Some old) s =
      ((Some g, Some ''goal changed since it was read''), s)"
    using assms by (simp add: clear_goal_def store_clear_def changed_or_missing_def store_get_def Let_def)
  ultimately show ?thesis
    using assms by (simp add: pause_goal_def resume_goal_def with_current_goal_def store_get_def)
qed

theorem stale_goal_writes_refused_witness:
  "snd (edit_goal (Some ''th'') ''other'' (Some ''g0'') sample_clock goal_sample) = goal_sample"
proof -
  have "gs_store goal_sample ''th'' = Some sample_goal" "goal_id sample_goal \<noteq> ''g0''"
    by (simp_all add: goal_sample_facts)
  then show ?thesis
    using stale_goal_writes_refused [of "''th''" goal_sample sample_goal "''g0''" "''other''" sample_clock]
    by simp
qed

text \<open>
  Setting a goal. An unfinished goal is never replaced unless the caller asks for it; when the
  goal is set it is active and unused, and the running turn starts paying for it from zero, so usage
  from before its creation is not charged to it.
\<close>

theorem set_goal_contract:
  assumes "tid \<noteq> []" "set_goal (Some tid) objective budget replace fresh ck s = ((r, e), s')"
  shows "(case gs_store s tid of
       Some g \<Rightarrow> if \<not> is_replaceable (goal_status g) \<and> \<not> replace then r = None \<and> e \<noteq> None \<and> s' = s
                 else e = None
     | None \<Rightarrow> e = None) \<and>
    (e = None \<longrightarrow> (\<exists>g. r = Some g \<and> gs_store s' tid = Some g \<and> goal_status g = ACTIVE \<and>
       goal_tokens_used g = 0 \<and> goal_time_used_seconds g = 0 \<and> goal_objective g = objective \<and>
       goal_token_budget g = budget \<and> goal_id g = fresh \<and> unbilled tid s' = 0))"
proof -
  let ?refused = "case gs_store s tid of None \<Rightarrow> False
    | Some g \<Rightarrow> \<not> is_replaceable (goal_status g) \<and> \<not> replace"
  show ?thesis
  proof (cases ?refused)
    case True
    then show ?thesis
      using assms by (auto simp: set_goal_def store_get_def split: option.split_asm)
  next
    case False
    have "fst (set_goal (Some tid) objective budget replace fresh ck s) = (Some (new_goal tid
        objective budget fresh (ck_now_ms ck)), None) \<and>
      gs_store (snd (set_goal (Some tid) objective budget replace fresh ck s)) tid =
        Some (new_goal tid objective budget fresh (ck_now_ms ck)) \<and>
      unbilled tid (snd (set_goal (Some tid) objective budget replace fresh ck s)) = 0"
      using False assms(1)
      by (cases "gs_store s tid"; cases replace)
         (auto simp: set_goal_def store_get_def store_insert_def store_clear_def Let_def split_beta
           unbilled_mark new_goal_def)
    then show ?thesis
      using assms(2) False by (auto simp: new_goal_def split: option.split)
  qed
qed

theorem set_goal_contract_witness:
  "\<exists>e. set_goal (Some ''th'') ''again'' None False ''g2'' sample_clock goal_sample =
    ((None, Some e), goal_sample)"
proof -
  obtain r e s' where eq: "set_goal (Some ''th'') ''again'' None False ''g2'' sample_clock goal_sample =
      ((r, e), s')"
    by (metis prod.collapse)
  have th: "''th'' \<noteq> []" by simp
  from set_goal_contract [OF th eq] eq show ?thesis
    by (auto simp: goal_sample_facts is_replaceable_def is_terminal_def)
qed

text \<open>
  The late end of an older turn is ignored: when another turn runs on the thread, neither the
  store nor that turn's accounting changes, and the caller is told the stored goal.
\<close>

theorem late_turn_end_ignored:
  assumes "tid \<noteq> []" "gs_runtimes s tid = Some rt" "gr_turn rt = Some turn" "ta_turn_id turn \<noteq> old"
  shows "on_turn_end (Some tid) usage_limit (Some old) ck s = (gs_store s tid, s)"
proof -
  have "on_runtime_only tid id s = s"
    using assms(2)
    by (simp add: on_runtime_only_def on_runtime_def runtime_of_def Let_def fun_upd_idem)
  then show ?thesis
    using assms by (simp add: on_turn_end_def Let_def runtime_of_def current_turn_id_def store_get_def)
qed

theorem late_turn_end_ignored_witness:
  "snd (on_turn_end (Some ''th'') True (Some ''turn0'') sample_clock
     (on_turn_start (Some ''th'') ''turn1'' 0 sample_clock (new_goal_service (\<lambda>_. None)))) =
   on_turn_start (Some ''th'') ''turn1'' 0 sample_clock (new_goal_service (\<lambda>_. None))"
proof -
  let ?s = "on_turn_start (Some ''th'') ''turn1'' 0 sample_clock (new_goal_service (\<lambda>_. None))"
  have "\<exists>rt turn. gs_runtimes ?s ''th'' = Some rt \<and> gr_turn rt = Some turn \<and> ta_turn_id turn \<noteq> ''turn0''"
    by (simp add: on_turn_start_def new_goal_service_def on_runtime_simps Let_def start_turn_def)
  then obtain rt turn where s: "gs_runtimes ?s ''th'' = Some rt" "gr_turn rt = Some turn"
    "ta_turn_id turn \<noteq> ''turn0''" by blast
  have th: "''th'' \<noteq> []" by simp
  from late_turn_end_ignored [OF th s] show ?thesis by simp
qed

end
