(* ===== verification/Project_Tasks.thy ===== *)
theory Project_Tasks
  imports Py_Text "HOL-Library.Multiset"
begin

text \<open>
  Project tasks: the validators and the entity of \<open>tasks/model.py\<close>, the table of \<open>tasks/store.py\<close>, the
  service of \<open>tasks/service.py\<close> and the agent tools of \<open>tasks/tools.py\<close>.

  The table is the list of its rows in insertion order; \<open>labels_json\<close> is kept decoded (the
  standard library's encoder and decoder invert each other on lists of strings). SQL leaves the order
  of rows with equal time stamps open, so \<open>ORDER BY updated_at_ms DESC\<close> is the parameter \<open>arrange\<close>.
  A clock reading and a fresh id are arguments; a \<open>ValueError\<close> is a constructor of \<open>task_error\<close> with
  the data of its message.
\<close>

section \<open>The entity\<close>

datatype task_status = TODO | IN_PROGRESS | TASK_BLOCKED | DONE
datatype task_priority = LOW | MEDIUM | HIGH | CRITICAL

fun task_status_value :: "task_status \<Rightarrow> string" where
  "task_status_value TODO = ''todo''"
| "task_status_value IN_PROGRESS = ''in_progress''"
| "task_status_value TASK_BLOCKED = ''blocked''"
| "task_status_value DONE = ''done''"

fun task_status_label :: "task_status \<Rightarrow> string" where
  "task_status_label TODO = ''To Do''"
| "task_status_label IN_PROGRESS = ''In Progress''"
| "task_status_label TASK_BLOCKED = ''Blocked''"
| "task_status_label DONE = ''Done''"

fun priority_value :: "task_priority \<Rightarrow> string" where
  "priority_value LOW = ''low''"
| "priority_value MEDIUM = ''medium''"
| "priority_value HIGH = ''high''"
| "priority_value CRITICAL = ''critical''"

fun priority_label :: "task_priority \<Rightarrow> string" where
  "priority_label LOW = ''Low''"
| "priority_label MEDIUM = ''Medium''"
| "priority_label HIGH = ''High''"
| "priority_label CRITICAL = ''Critical''"

definition task_is_terminal :: "task_status \<Rightarrow> bool" where
  "task_is_terminal s \<longleftrightarrow> s = DONE"

record project_task =
  pt_id :: string
  pt_title :: string
  pt_description :: string
  pt_status :: task_status
  pt_priority :: task_priority
  pt_labels :: "string list"
  pt_assigned_thread_id :: "string option"
  pt_created_at_ms :: int
  pt_updated_at_ms :: int
  pt_completed_at_ms :: "int option"

section \<open>Validation\<close>

datatype task_error =
    NotAString pyval
  | EmptyTitle
  | TitleTooLong nat
  | DescriptionTooLong nat
  | InvalidStatus pyval
  | InvalidPriority pyval
  | LabelsNotAList pyval
  | LabelTooLong string
  | TooManyLabels
  | IntegrityError string

definition MAX_TASK_TITLE_CHARS :: nat where "MAX_TASK_TITLE_CHARS = 200"
definition MAX_TASK_DESCRIPTION_CHARS :: nat where "MAX_TASK_DESCRIPTION_CHARS = 20000"
definition MAX_LABELS_COUNT :: nat where "MAX_LABELS_COUNT = 20"
definition MAX_LABEL_CHARS :: nat where "MAX_LABEL_CHARS = 50"

fun validate_task_title :: "pyval \<Rightarrow> task_error + string" where
  "validate_task_title (PStr title) =
     (let cleaned = py_strip title in
      if cleaned = [] then Inl EmptyTitle
      else if MAX_TASK_TITLE_CHARS < length cleaned then Inl (TitleTooLong (length cleaned))
      else Inr cleaned)"
| "validate_task_title v = Inl (NotAString v)"

fun validate_task_description :: "pyval \<Rightarrow> task_error + string" where
  "validate_task_description PNone = Inr []"
| "validate_task_description (PStr d) =
     (if MAX_TASK_DESCRIPTION_CHARS < length d then Inl (DescriptionTooLong (length d)) else Inr d)"
| "validate_task_description v = Inl (NotAString v)"

text \<open>An argument that may already be a member of the enumeration.\<close>

datatype 'e enum_arg = Member 'e | Value pyval

definition status_of_value :: "string \<Rightarrow> task_status option" where
  "status_of_value v =
     map_of (map (\<lambda>s. (task_status_value s, s)) [TODO, IN_PROGRESS, TASK_BLOCKED, DONE]) v"

definition priority_of_value :: "string \<Rightarrow> task_priority option" where
  "priority_of_value v = map_of (map (\<lambda>p. (priority_value p, p)) [LOW, MEDIUM, HIGH, CRITICAL]) v"

fun validate_task_status :: "task_status enum_arg \<Rightarrow> task_error + task_status" where
  "validate_task_status (Member s) = Inr s"
| "validate_task_status (Value (PStr v)) =
     (case status_of_value (py_lower v) of None \<Rightarrow> Inl (InvalidStatus (PStr v)) | Some s \<Rightarrow> Inr s)"
| "validate_task_status (Value v) = Inl (InvalidStatus v)"

fun validate_task_priority :: "task_priority enum_arg \<Rightarrow> task_error + task_priority" where
  "validate_task_priority (Member p) = Inr p"
| "validate_task_priority (Value (PStr v)) =
     (case priority_of_value (py_lower v) of None \<Rightarrow> Inl (InvalidPriority (PStr v)) | Some p \<Rightarrow> Inr p)"
| "validate_task_priority (Value v) = Inl (InvalidPriority v)"

text \<open>The loop over the labels; \<open>cleaned\<close> also answers the membership test of \<open>seen\<close>.\<close>

fun clean_labels :: "string list \<Rightarrow> pyval list \<Rightarrow> task_error + string list" where
  "clean_labels cleaned [] = Inr cleaned"
| "clean_labels cleaned (PStr item # rest) =
     (let tag = py_lower (py_strip item) in
      if tag = [] \<or> tag \<in> set cleaned then clean_labels cleaned rest
      else if MAX_LABEL_CHARS < length tag then Inl (LabelTooLong tag)
      else if MAX_LABELS_COUNT < length (cleaned @ [tag]) then Inl TooManyLabels
      else clean_labels (cleaned @ [tag]) rest)"
| "clean_labels cleaned (v # rest) = Inl (NotAString v)"

fun validate_task_labels :: "pyval \<Rightarrow> task_error + string list" where
  "validate_task_labels PNone = Inr []"
| "validate_task_labels (PList labels) = clean_labels [] labels"
| "validate_task_labels v = Inl (LabelsNotAList v)"

section \<open>The table\<close>

definition task_from_row :: "project_task \<Rightarrow> project_task" where
  "task_from_row r =
     r\<lparr>pt_assigned_thread_id :=
         (case pt_assigned_thread_id r of Some (c # cs) \<Rightarrow> Some (c # cs) | _ \<Rightarrow> None)\<rparr>"

definition task_get :: "string \<Rightarrow> project_task list \<Rightarrow> project_task option" where
  "task_get i rows =
     (if i = [] then None else map_option task_from_row (find (\<lambda>r. pt_id r = i) rows))"

definition task_list ::
  "(project_task list \<Rightarrow> project_task list) \<Rightarrow> task_status option \<Rightarrow> string option \<Rightarrow> int \<Rightarrow> int \<Rightarrow>
     project_task list \<Rightarrow> project_task list" where
  "task_list arrange status label limit offset rows =
     (let selected = filter (\<lambda>r. case status of None \<Rightarrow> True | Some s \<Rightarrow> pt_status r = s) rows;
          page = take (nat (max 1 (min limit 500))) (drop (nat (max 0 offset)) (arrange selected));
          tasks = map task_from_row page
      in case label of
           Some (c # cs) \<Rightarrow> filter (\<lambda>t. py_lower (py_strip (c # cs)) \<in> set (pt_labels t)) tasks
         | _ \<Rightarrow> tasks)"

definition task_count :: "task_status option \<Rightarrow> project_task list \<Rightarrow> nat" where
  "task_count status rows =
     length (filter (\<lambda>r. case status of None \<Rightarrow> True | Some s \<Rightarrow> pt_status r = s) rows)"

record task_fields =
  tf_title :: pyval
  tf_description :: pyval
  tf_priority :: "task_priority enum_arg"
  tf_status :: "task_status enum_arg"
  tf_labels :: pyval
  tf_assigned_thread_id :: "string option"

text \<open>\<open>str(x).strip() if x else None\<close>.\<close>

definition clean_assigned :: "string option \<Rightarrow> string option" where
  "clean_assigned a = (case a of Some (c # cs) \<Rightarrow> Some (py_strip (c # cs)) | _ \<Rightarrow> None)"

text \<open>\<open>task_id.strip() if task_id and task_id.strip() else new_task_id()\<close>.\<close>

definition final_task_id :: "string option \<Rightarrow> string \<Rightarrow> string" where
  "final_task_id task_id fresh =
     (case task_id of None \<Rightarrow> fresh | Some i \<Rightarrow> if py_strip i = [] then fresh else py_strip i)"

definition task_insert ::
  "task_fields \<Rightarrow> string option \<Rightarrow> string \<Rightarrow> int \<Rightarrow> project_task list \<Rightarrow>
     (task_error + project_task) \<times> project_task list" where
  "task_insert f task_id fresh now_ms rows =
     (case validate_task_title (tf_title f) of Inl e \<Rightarrow> (Inl e, rows) | Inr title \<Rightarrow>
      case validate_task_description (tf_description f) of Inl e \<Rightarrow> (Inl e, rows) | Inr desc \<Rightarrow>
      case validate_task_status (tf_status f) of Inl e \<Rightarrow> (Inl e, rows) | Inr status \<Rightarrow>
      case validate_task_priority (tf_priority f) of Inl e \<Rightarrow> (Inl e, rows) | Inr priority \<Rightarrow>
      case validate_task_labels (tf_labels f) of Inl e \<Rightarrow> (Inl e, rows) | Inr labels \<Rightarrow>
        let task = \<lparr>pt_id = final_task_id task_id fresh, pt_title = title, pt_description = desc,
                    pt_status = status, pt_priority = priority, pt_labels = labels,
                    pt_assigned_thread_id = clean_assigned (tf_assigned_thread_id f),
                    pt_created_at_ms = now_ms, pt_updated_at_ms = now_ms,
                    pt_completed_at_ms = (if task_is_terminal status then Some now_ms else None)\<rparr>
        in if pt_id task \<in> pt_id ` set rows then (Inl (IntegrityError (pt_id task)), rows)
           else (Inr task, rows @ [task]))"

record task_update =
  tu_title :: "pyval option"
  tu_description :: "pyval option"
  tu_status :: "task_status enum_arg option"
  tu_priority :: "task_priority enum_arg option"
  tu_labels :: "pyval option"
  tu_assigned_thread_id :: "string option"
  tu_clear_assigned_thread :: bool

text \<open>\<open>validate(x) if x is not None else current\<close>.\<close>

definition or_current :: "('a \<Rightarrow> task_error + 'b) \<Rightarrow> 'a option \<Rightarrow> 'b \<Rightarrow> task_error + 'b" where
  "or_current validate x current = (case x of None \<Rightarrow> Inr current | Some v \<Rightarrow> validate v)"

definition new_assigned :: "task_update \<Rightarrow> project_task \<Rightarrow> string option" where
  "new_assigned u current =
     (if tu_clear_assigned_thread u then None
      else case tu_assigned_thread_id u of
             Some a \<Rightarrow> if py_strip a = [] then None else Some (py_strip a)
           | None \<Rightarrow> pt_assigned_thread_id current)"

definition new_completed_at :: "task_status \<Rightarrow> int \<Rightarrow> project_task \<Rightarrow> int option" where
  "new_completed_at status now_ms current =
     (if task_is_terminal status \<and> \<not> task_is_terminal (pt_status current) then Some now_ms
      else if \<not> task_is_terminal status \<and> task_is_terminal (pt_status current) then None
      else pt_completed_at_ms current)"

definition updated_task :: "task_update \<Rightarrow> int \<Rightarrow> project_task \<Rightarrow> task_error + project_task" where
  "updated_task u now_ms current =
     (case or_current validate_task_title (tu_title u) (pt_title current) of Inl e \<Rightarrow> Inl e | Inr title \<Rightarrow>
      case or_current validate_task_description (tu_description u) (pt_description current) of
        Inl e \<Rightarrow> Inl e | Inr desc \<Rightarrow>
      case or_current validate_task_status (tu_status u) (pt_status current) of
        Inl e \<Rightarrow> Inl e | Inr status \<Rightarrow>
      case or_current validate_task_priority (tu_priority u) (pt_priority current) of
        Inl e \<Rightarrow> Inl e | Inr priority \<Rightarrow>
      case or_current validate_task_labels (tu_labels u) (pt_labels current) of
        Inl e \<Rightarrow> Inl e | Inr labels \<Rightarrow>
        Inr (current\<lparr>pt_title := title, pt_description := desc, pt_status := status,
                      pt_priority := priority, pt_labels := labels,
                      pt_assigned_thread_id := new_assigned u current,
                      pt_updated_at_ms := now_ms,
                      pt_completed_at_ms := new_completed_at status now_ms current\<rparr>))"

definition task_update_row ::
  "string \<Rightarrow> task_update \<Rightarrow> int \<Rightarrow> project_task list \<Rightarrow>
     (task_error + project_task option) \<times> project_task list" where
  "task_update_row i u now_ms rows =
     (case task_get i rows of
        None \<Rightarrow> (Inr None, rows)
      | Some current \<Rightarrow>
          (case updated_task u now_ms current of
             Inl e \<Rightarrow> (Inl e, rows)
           | Inr new \<Rightarrow>
               let rows' = map (\<lambda>r. if pt_id r = i then new else r) rows
               in (Inr (task_get i rows'), rows')))"

definition task_delete :: "string \<Rightarrow> project_task list \<Rightarrow> bool \<times> project_task list" where
  "task_delete i rows =
     (if i = [] then (False, rows)
      else (i \<in> pt_id ` set rows, filter (\<lambda>r. pt_id r \<noteq> i) rows))"

section \<open>The service\<close>

record task_service =
  ts_rows :: "project_task list"
  ts_listeners :: "nat list"
  ts_told :: "(nat \<times> project_task option \<times> string) list"

definition new_task_service :: task_service where
  "new_task_service = \<lparr>ts_rows = [], ts_listeners = [], ts_told = []\<rparr>"

definition task_add_listener :: "nat \<Rightarrow> task_service \<Rightarrow> task_service" where
  "task_add_listener l s =
     (if l \<notin> set (ts_listeners s) then s\<lparr>ts_listeners := ts_listeners s @ [l]\<rparr> else s)"

definition task_remove_listener :: "nat \<Rightarrow> task_service \<Rightarrow> task_service" where
  "task_remove_listener l s = s\<lparr>ts_listeners := filter (\<lambda>cb. cb \<noteq> l) (ts_listeners s)\<rparr>"

definition task_notify :: "project_task option \<Rightarrow> string \<Rightarrow> task_service \<Rightarrow> task_service" where
  "task_notify task action s =
     s\<lparr>ts_told := ts_told s @ map (\<lambda>l. (l, task, action)) (ts_listeners s)\<rparr>"

definition list_tasks ::
  "(project_task list \<Rightarrow> project_task list) \<Rightarrow> task_status option \<Rightarrow> string option \<Rightarrow> int \<Rightarrow> int \<Rightarrow>
     task_service \<Rightarrow> project_task list" where
  "list_tasks arrange status label limit offset s =
     task_list arrange status label limit offset (ts_rows s)"

definition get_task :: "string \<Rightarrow> task_service \<Rightarrow> project_task option" where
  "get_task i s = task_get i (ts_rows s)"

definition create_task ::
  "task_fields \<Rightarrow> string \<Rightarrow> int \<Rightarrow> task_service \<Rightarrow> (task_error + project_task) \<times> task_service" where
  "create_task f fresh now_ms s =
     (let (r, rows) = task_insert f None fresh now_ms (ts_rows s) in
      case r of
        Inl e \<Rightarrow> (Inl e, s)
      | Inr task \<Rightarrow> (Inr task, task_notify (Some task) ''create'' (s\<lparr>ts_rows := rows\<rparr>)))"

definition update_task ::
  "string \<Rightarrow> task_update \<Rightarrow> int \<Rightarrow> task_service \<Rightarrow> (task_error + project_task option) \<times> task_service" where
  "update_task i u now_ms s =
     (let (r, rows) = task_update_row i u now_ms (ts_rows s);
          s1 = s\<lparr>ts_rows := rows\<rparr>
      in case r of
           Inr (Some task) \<Rightarrow> (r, task_notify (Some task) ''update'' s1)
         | _ \<Rightarrow> (r, s1))"

definition delete_task :: "string \<Rightarrow> task_service \<Rightarrow> bool \<times> task_service" where
  "delete_task i s =
     (case get_task i s of
        None \<Rightarrow> (False, s)
      | Some task \<Rightarrow>
          let (success, rows) = task_delete i (ts_rows s);
              s1 = s\<lparr>ts_rows := rows\<rparr>
          in (success, if success then task_notify (Some task) ''delete'' s1 else s1))"

section \<open>Agent tools\<close>

datatype task_reply =
    TaskList "project_task list"
  | NoTasksFound string "string option"
  | TaskDetail project_task
  | TaskCreated project_task
  | TaskUpdated project_task
  | TaskDeleted string
  | TaskNotFound string
  | EmptyTaskId
  | ValidationError task_error

definition list_project_tasks ::
  "(project_task list \<Rightarrow> project_task list) \<Rightarrow> string \<Rightarrow> string option \<Rightarrow> int \<Rightarrow> task_service \<Rightarrow> task_reply"
  where
  "list_project_tasks arrange status label limit s =
     (let filter_status =
            (if status \<noteq> [] \<and> status \<noteq> ''all''
             then map_sum id Some (validate_task_status (Value (PStr status))) else Inr None)
      in case filter_status of
           Inl e \<Rightarrow> ValidationError e
         | Inr fs \<Rightarrow>
             let tasks = list_tasks arrange fs label limit 0 s
             in if tasks = [] then NoTasksFound status label else TaskList tasks)"

definition get_project_task :: "string option \<Rightarrow> task_service \<Rightarrow> task_reply" where
  "get_project_task i s =
     (let clean_id = py_strip (case i of None \<Rightarrow> [] | Some x \<Rightarrow> x) in
      if clean_id = [] then EmptyTaskId
      else case get_task clean_id s of None \<Rightarrow> TaskNotFound clean_id | Some t \<Rightarrow> TaskDetail t)"

text \<open>
  \<open>session\<close> is the caller's thread id when it asked to be assigned. The tool validates and then the
  store validates the cleaned values again; an \<open>IntegrityError\<close> would escape the tool.
\<close>

definition create_project_task ::
  "pyval \<Rightarrow> pyval \<Rightarrow> pyval \<Rightarrow> pyval \<Rightarrow> string option \<Rightarrow> string \<Rightarrow> int \<Rightarrow> task_service \<Rightarrow>
     (task_error + task_reply) \<times> task_service" where
  "create_project_task title description priority labels session fresh now_ms s =
     (case validate_task_title title of Inl e \<Rightarrow> (Inr (ValidationError e), s) | Inr clean_title \<Rightarrow>
      case validate_task_description description of
        Inl e \<Rightarrow> (Inr (ValidationError e), s) | Inr clean_desc \<Rightarrow>
      case validate_task_priority (Value priority) of
        Inl e \<Rightarrow> (Inr (ValidationError e), s) | Inr valid_prio \<Rightarrow>
      case validate_task_labels labels of Inl e \<Rightarrow> (Inr (ValidationError e), s) | Inr tags \<Rightarrow>
        let (r, s') = create_task
              \<lparr>tf_title = PStr clean_title, tf_description = PStr clean_desc,
               tf_priority = Member valid_prio, tf_status = Member TODO,
               tf_labels = PList (map PStr tags), tf_assigned_thread_id = session\<rparr>
              fresh now_ms s
        in (map_sum id TaskCreated r, s'))"

definition update_project_task ::
  "string option \<Rightarrow> task_update \<Rightarrow> int \<Rightarrow> task_service \<Rightarrow> task_reply \<times> task_service" where
  "update_project_task i u now_ms s =
     (let clean_id = py_strip (case i of None \<Rightarrow> [] | Some x \<Rightarrow> x) in
      if clean_id = [] then (EmptyTaskId, s)
      else
        let (r, s') = update_task clean_id u now_ms s
        in (case r of
              Inl e \<Rightarrow> ValidationError e
            | Inr None \<Rightarrow> TaskNotFound clean_id
            | Inr (Some t) \<Rightarrow> TaskUpdated t, s'))"

definition delete_project_task :: "string option \<Rightarrow> task_service \<Rightarrow> task_reply \<times> task_service" where
  "delete_project_task i s =
     (let clean_id = py_strip (case i of None \<Rightarrow> [] | Some x \<Rightarrow> x) in
      if clean_id = [] then (EmptyTaskId, s)
      else
        let (success, s') = delete_task clean_id s
        in (if success then TaskDeleted clean_id else TaskNotFound clean_id, s'))"

section \<open>What validation accepts\<close>

lemma py_isspace_lower [simp]: "py_isspace (py_lower_char c) = py_isspace c"
  by (auto simp: py_isspace_def py_lower_char_def Let_def)

lemma py_strip_lower: "py_strip (py_lower s) = py_lower (py_strip s)"
  by (simp add: py_strip_def py_lower_def dropWhile_map comp_def rev_map)

definition valid_label :: "string \<Rightarrow> bool" where
  "valid_label l \<longleftrightarrow> l \<noteq> [] \<and> length l \<le> MAX_LABEL_CHARS \<and> py_lower (py_strip l) = l"

definition valid_labels :: "string list \<Rightarrow> bool" where
  "valid_labels ls \<longleftrightarrow> distinct ls \<and> length ls \<le> MAX_LABELS_COUNT \<and> (\<forall>l \<in> set ls. valid_label l)"

lemma cleaned_label:
  "py_lower (py_strip item) \<noteq> [] \<Longrightarrow> length (py_lower (py_strip item)) \<le> MAX_LABEL_CHARS \<Longrightarrow>
   valid_label (py_lower (py_strip item))"
  by (simp add: valid_label_def py_strip_lower)

lemma clean_labels_valid: "clean_labels acc vs = Inr ls \<Longrightarrow> valid_labels acc \<Longrightarrow> valid_labels ls"
  by (induction acc vs rule: clean_labels.induct)
     (auto simp: Let_def valid_labels_def cleaned_label not_less split: if_splits)

lemma clean_labels_set:
  "clean_labels acc vs = Inr ls \<Longrightarrow>
   set ls = set acc \<union> {py_lower (py_strip x) | x. PStr x \<in> set vs} - {[]} \<union> (set acc \<inter> {[]})"
  by (induction acc vs rule: clean_labels.induct) (auto simp: Let_def split: if_splits)

lemma clean_labels_idem:
  "valid_labels (acc @ ls) \<Longrightarrow> clean_labels acc (map PStr ls) = Inr (acc @ ls)"
proof (induction ls arbitrary: acc)
  case (Cons l ls)
  then have "py_lower (py_strip l) = l" "l \<noteq> []" "length l \<le> MAX_LABEL_CHARS" "l \<notin> set acc"
    "length (acc @ [l]) \<le> MAX_LABELS_COUNT"
    by (auto simp: valid_labels_def valid_label_def)
  then show ?case using Cons.IH [of "acc @ [l]"] Cons.prems by (simp add: not_less)
qed simp

lemma validate_labels_valid: "validate_task_labels v = Inr ls \<Longrightarrow> valid_labels ls"
proof (cases v)
  case (PList vs)
  assume "validate_task_labels v = Inr ls"
  then have "clean_labels [] vs = Inr ls" by (simp add: PList)
  then show "valid_labels ls" by (rule clean_labels_valid) (simp add: valid_labels_def)
qed (simp_all add: valid_labels_def)

definition valid_title :: "string \<Rightarrow> bool" where
  "valid_title t \<longleftrightarrow> t \<noteq> [] \<and> length t \<le> MAX_TASK_TITLE_CHARS \<and> py_strip t = t"

lemma validate_title_valid: "validate_task_title v = Inr t \<Longrightarrow> valid_title t"
  by (cases v) (auto simp: Let_def valid_title_def not_less split: if_splits)

lemma validate_title_idem: "valid_title t \<Longrightarrow> validate_task_title (PStr t) = Inr t"
  by (simp add: valid_title_def)

lemma validate_description_bound:
  "validate_task_description v = Inr d \<Longrightarrow> length d \<le> MAX_TASK_DESCRIPTION_CHARS"
  by (cases v) (auto simp: not_less split: if_splits)

section \<open>The invariant of the table\<close>

definition valid_task :: "project_task \<Rightarrow> bool" where
  "valid_task t \<longleftrightarrow>
     valid_title (pt_title t) \<and> length (pt_description t) \<le> MAX_TASK_DESCRIPTION_CHARS \<and>
     valid_labels (pt_labels t) \<and> (pt_completed_at_ms t \<noteq> None \<longleftrightarrow> pt_status t = DONE)"

definition rows_inv :: "project_task list \<Rightarrow> bool" where
  "rows_inv rows \<longleftrightarrow> distinct (map pt_id rows) \<and> list_all valid_task rows"

lemma insert_rows_inv: "rows_inv rows \<Longrightarrow> rows_inv (snd (task_insert f i fresh now rows))"
  by (auto simp: task_insert_def rows_inv_def valid_task_def Let_def task_is_terminal_def
      split: sum.split dest: validate_title_valid validate_description_bound validate_labels_valid)

lemma valid_from_row [simp]: "valid_task (task_from_row t) = valid_task t"
  by (simp add: valid_task_def task_from_row_def)

lemma task_get_Some: "task_get i rows = Some t \<Longrightarrow> \<exists>r \<in> set rows. pt_id r = i \<and> t = task_from_row r"
  by (auto simp: task_get_def find_Some_iff split: if_splits)

lemma or_current_cases:
  "or_current validate x current = Inr v \<Longrightarrow> v = current \<or> (\<exists>a. validate a = Inr v)"
  by (auto simp: or_current_def split: option.splits)

lemma updated_task_valid:
  assumes "valid_task t" "updated_task u now t = Inr t'"
  shows "valid_task t' \<and> pt_id t' = pt_id t"
proof -
  have "\<exists>title desc status priority labels.
    or_current validate_task_title (tu_title u) (pt_title t) = Inr title \<and>
    or_current validate_task_description (tu_description u) (pt_description t) = Inr desc \<and>
    or_current validate_task_labels (tu_labels u) (pt_labels t) = Inr labels \<and>
    t' = t\<lparr>pt_title := title, pt_description := desc, pt_status := status,
       pt_priority := priority, pt_labels := labels, pt_assigned_thread_id := new_assigned u t,
       pt_updated_at_ms := now, pt_completed_at_ms := new_completed_at status now t\<rparr>"
    using assms(2) by (auto simp: updated_task_def split: sum.splits)
  then obtain title desc status priority labels where parts:
    "or_current validate_task_title (tu_title u) (pt_title t) = Inr title"
    "or_current validate_task_description (tu_description u) (pt_description t) = Inr desc"
    "or_current validate_task_labels (tu_labels u) (pt_labels t) = Inr labels"
    and t': "t' = t\<lparr>pt_title := title, pt_description := desc, pt_status := status,
       pt_priority := priority, pt_labels := labels, pt_assigned_thread_id := new_assigned u t,
       pt_updated_at_ms := now, pt_completed_at_ms := new_completed_at status now t\<rparr>"
    by blast
  have "valid_title title" "length desc \<le> MAX_TASK_DESCRIPTION_CHARS" "valid_labels labels"
    using or_current_cases [OF parts(1)] or_current_cases [OF parts(2)] or_current_cases [OF parts(3)]
      assms(1) validate_title_valid validate_description_bound validate_labels_valid
    by (auto simp: valid_task_def)
  then show ?thesis
    using assms(1) by (auto simp: t' valid_task_def task_is_terminal_def new_completed_at_def)
qed

lemma update_rows_inv:
  assumes "rows_inv rows"
  shows "rows_inv (snd (task_update_row i u now rows))"
proof (cases "task_get i rows")
  case None
  then show ?thesis using assms by (simp add: task_update_row_def)
next
  case (Some current)
  show ?thesis
  proof (cases "updated_task u now current")
    case (Inl e)
    then show ?thesis using assms Some by (simp add: task_update_row_def)
  next
    case (Inr new)
    obtain r where r: "r \<in> set rows" "pt_id r = i" "current = task_from_row r"
      using task_get_Some [OF Some] by blast
    then have cur: "valid_task current" "pt_id current = i"
      using assms by (auto simp: rows_inv_def list_all_iff) (simp add: task_from_row_def)
    note new = updated_task_valid [OF cur(1) Inr]
    have ids: "map pt_id (map (\<lambda>r. if pt_id r = i then new else r) rows) = map pt_id rows"
      using new cur(2) by simp
    have "rows_inv (map (\<lambda>r. if pt_id r = i then new else r) rows)"
      unfolding rows_inv_def ids using assms new by (auto simp: rows_inv_def list_all_iff)
    then show ?thesis using Some Inr by (simp add: task_update_row_def Let_def)
  qed
qed

lemma delete_rows_inv: "rows_inv rows \<Longrightarrow> rows_inv (snd (task_delete i rows))"
  by (auto simp: task_delete_def rows_inv_def list_all_iff distinct_map_filter)

lemma task_notify_rows [simp]: "ts_rows (task_notify t a s) = ts_rows s"
  by (simp add: task_notify_def)

inductive task_step :: "task_service \<Rightarrow> task_service \<Rightarrow> bool" where
  "task_step s (snd (create_task f fresh now s))"
| "task_step s (snd (update_task i u now s))"
| "task_step s (snd (delete_task i s))"
| "task_step s (task_add_listener l s)"
| "task_step s (task_remove_listener l s)"

inductive is_new_task_service :: "task_service \<Rightarrow> bool" where
  "is_new_task_service new_task_service"

inductive_cases task_stepE: "task_step s s'"

abbreviation task_reach :: "task_service \<Rightarrow> bool" where
  "task_reach \<equiv> reach is_new_task_service task_step"

lemma create_task_rows:
  "ts_rows (snd (create_task f fresh now s)) = snd (task_insert f None fresh now (ts_rows s))"
  by (auto simp: create_task_def task_insert_def Let_def split: sum.split)

lemma update_task_rows:
  "ts_rows (snd (update_task i u now s)) = snd (task_update_row i u now (ts_rows s))"
  by (auto simp: update_task_def Let_def split_beta split: sum.split option.split)

lemma delete_task_rows:
  "ts_rows (snd (delete_task i s)) =
    (if get_task i s = None then ts_rows s else snd (task_delete i (ts_rows s)))"
  by (auto simp: delete_task_def Let_def split_beta split: option.split)

interpretation task_sys: inv_system is_new_task_service task_step "\<lambda>s. rows_inv (ts_rows s)"
proof
  show "is_new_task_service s \<Longrightarrow> rows_inv (ts_rows s)" for s
    by (erule is_new_task_service.cases) (simp add: new_task_service_def rows_inv_def)
  show "rows_inv (ts_rows s) \<Longrightarrow> task_step s s' \<Longrightarrow> rows_inv (ts_rows s')" for s s'
    by (rotate_tac, erule task_step.cases)
       (auto simp: create_task_rows update_task_rows delete_task_rows insert_rows_inv update_rows_inv
         delete_rows_inv task_add_listener_def task_remove_listener_def)
qed

section \<open>Samples\<close>

definition sample_fields :: "string \<Rightarrow> string list \<Rightarrow> task_fields" where
  "sample_fields title labels =
     \<lparr>tf_title = PStr title, tf_description = PNone, tf_priority = Member MEDIUM,
      tf_status = Member TODO, tf_labels = PList (map PStr labels), tf_assigned_thread_id = None\<rparr>"

definition sample_tasks :: task_service where
  "sample_tasks =
     snd (create_task (sample_fields ''new'' []) ''task-2'' 20
       (snd (create_task (sample_fields '' old '' ['' Bug'', ''bug'']) ''task-1'' 10 new_task_service)))"

lemma sample_tasks_reach: "task_reach sample_tasks"
  unfolding sample_tasks_def
  by (rule reach.intros(2) [OF reach.intros(2) [OF reach.intros(1)]],
      rule is_new_task_service.intros, rule task_step.intros(1), rule task_step.intros(1))

definition newest_first :: "project_task list \<Rightarrow> project_task list" where
  "newest_first rows = foldr (insort_key (\<lambda>t. - pt_updated_at_ms t)) rows []"

definition orders_by_updated :: "(project_task list \<Rightarrow> project_task list) \<Rightarrow> bool" where
  "orders_by_updated arrange \<longleftrightarrow>
     (\<forall>rows. mset (arrange rows) = mset rows \<and>
             sorted_wrt (\<lambda>a b. pt_updated_at_ms b \<le> pt_updated_at_ms a) (arrange rows))"

lemma newest_first_sort: "newest_first rows = sort_key (\<lambda>t. - pt_updated_at_ms t) rows"
  by (simp add: newest_first_def sort_key_def)

lemma newest_first_orders: "orders_by_updated newest_first"
proof -
  have "sorted_wrt (\<lambda>a b. pt_updated_at_ms b \<le> pt_updated_at_ms a) (newest_first rows)" for rows
    using sorted_sort_key [of "\<lambda>t. - pt_updated_at_ms t" rows]
    by (simp add: newest_first_sort sorted_map)
  then show ?thesis by (simp add: orders_by_updated_def newest_first_sort)
qed

section \<open>Properties\<close>

text \<open>
  C40: The table stays well formed under every operation: ids are unique, titles are stripped,
  non-empty and bounded, descriptions are bounded, labels are distinct, normalised and bounded in
  number and length, and a task has a completion time exactly while it is done.
\<close>

theorem tasks_well_formed:
  assumes "task_reach s" "get_task i s = Some t"
  shows "distinct (map pt_id (ts_rows s)) \<and> pt_id t = i \<and> valid_title (pt_title t) \<and>
    length (pt_description t) \<le> MAX_TASK_DESCRIPTION_CHARS \<and> valid_labels (pt_labels t) \<and>
    (pt_completed_at_ms t \<noteq> None \<longleftrightarrow> pt_status t = DONE)"
proof -
  have inv: "rows_inv (ts_rows s)" by (rule task_sys.reach_inv [OF assms(1)])
  obtain r where r: "r \<in> set (ts_rows s)" "pt_id r = i" "t = task_from_row r"
    using task_get_Some [OF assms(2) [unfolded get_task_def]] by blast
  then have "valid_task t" using inv by (auto simp: rows_inv_def list_all_iff)
  moreover have "pt_id t = i" using r by (simp add: task_from_row_def)
  ultimately show ?thesis using inv by (simp add: rows_inv_def valid_task_def)
qed

theorem tasks_well_formed_witness:
  "\<exists>t. get_task ''task-1'' sample_tasks = Some t \<and> pt_title t = ''old'' \<and> pt_labels t = [''bug''] \<and>
    valid_title (pt_title t)"
proof -
  have "map_option (\<lambda>t. (pt_title t, pt_labels t)) (get_task ''task-1'' sample_tasks) =
      Some (''old'', [''bug''])"
    by code_simp
  then obtain t where t: "get_task ''task-1'' sample_tasks = Some t" "pt_title t = ''old''"
    "pt_labels t = [''bug'']" by auto
  with tasks_well_formed [OF sample_tasks_reach t(1)] show ?thesis by blast
qed

text \<open>
  Label normalisation. The labels a list of strings is reduced to are distinct, at most 20,
  non-empty, at most 50 characters, stripped and in lower case; they are exactly the normal forms of
  the given labels without the empty one; and validating them again gives them back.
\<close>

theorem labels_normalised:
  assumes "validate_task_labels (PList vs) = Inr ls"
  shows "valid_labels ls \<and> set ls = {py_lower (py_strip x) | x. PStr x \<in> set vs} - {[]} \<and>
    validate_task_labels (PList (map PStr ls)) = Inr ls"
  using assms validate_labels_valid [OF assms] clean_labels_set [of "[]" vs ls]
    clean_labels_idem [of "[]" ls]
  by simp

theorem labels_normalised_witness:
  "validate_task_labels (PList [PStr '' Bug'', PStr ''bug'', PStr '' '']) = Inr [''bug''] \<and>
   valid_labels [''bug'']"
proof
  show v: "validate_task_labels (PList [PStr '' Bug'', PStr ''bug'', PStr '' '']) = Inr [''bug'']"
    by code_simp
  show "valid_labels [''bug'']" using labels_normalised [OF v] by blast
qed

text \<open>
  What is created can be read back: after a successful creation every other id reads as before,
  and the new id, which was free, reads as the task that was returned, unless the assignee given
  was blank; then the returned task has an empty assignee and the stored one has none.
\<close>

theorem create_then_get:
  assumes "create_task f fresh now s = (Inr t, s')" "fresh \<noteq> []"
  shows "get_task fresh s = None \<and> pt_id t = fresh \<and>
    get_task fresh s' = Some (t\<lparr>pt_assigned_thread_id :=
      (if pt_assigned_thread_id t = Some [] then None else pt_assigned_thread_id t)\<rparr>) \<and>
    (\<forall>i. i \<noteq> fresh \<longrightarrow> get_task i s' = get_task i s)"
proof -
  have t: "pt_id t = fresh" "fresh \<notin> pt_id ` set (ts_rows s)" "ts_rows s' = ts_rows s @ [t]"
    using assms
    by (auto simp: create_task_def task_insert_def final_task_id_def Let_def split: sum.splits if_splits)
  then have f: "find (\<lambda>r. pt_id r = fresh) (ts_rows s) = None" 
    unfolding find_None_iff by (metis image_eqI)
  have app: "find P (xs @ ys) = (case find P xs of None \<Rightarrow> find P ys | Some x \<Rightarrow> Some x)" for P and xs ys :: "project_task list"
    by (induction xs) auto
  have "task_from_row t = t\<lparr>pt_assigned_thread_id :=
      (if pt_assigned_thread_id t = Some [] then None else pt_assigned_thread_id t)\<rparr>"
    by (auto simp: task_from_row_def split: option.split list.split)
  then show ?thesis
    using t f assms(2) by (auto simp: get_task_def task_get_def app split: option.split)
qed

theorem create_then_get_witness:
  "\<exists>t s'. create_task (sample_fields ''third'' []) ''task-3'' 30 sample_tasks = (Inr t, s') \<and>
    get_task ''task-3'' s' = Some t"
proof -
  let ?c = "create_task (sample_fields ''third'' []) ''task-3'' 30 sample_tasks"
  have "map_sum (\<lambda>_. ()) pt_assigned_thread_id (fst ?c) = Inr None" by code_simp
  then have "\<exists>t. fst ?c = Inr t \<and> pt_assigned_thread_id t = None" by (cases "fst ?c") auto
  then have "\<exists>t s'. ?c = (Inr t, s') \<and> pt_assigned_thread_id t = None" by (metis prod.collapse)
  then obtain t s' where c: "create_task (sample_fields ''third'' []) ''task-3'' 30 sample_tasks = (Inr t, s')"
    "pt_assigned_thread_id t = None" by blast
  have "get_task ''task-3'' s' = Some t"
    using create_then_get [OF c(1)] c(2) by (cases t) simp
  with c show ?thesis by blast
qed

text \<open>
  Listing. A page holds at most the clamped limit, in order of the last update, and every task on
  it has the status asked for. The label is looked for on the page only: a labelled task that the page
  does not reach is not found, and the agent's tool then reports that no task was found.
\<close>

theorem list_tasks_page:
  assumes "orders_by_updated arrange"
  shows "length (list_tasks arrange status label limit offset s) \<le> nat (max 1 (min limit 500)) \<and>
    sorted_wrt (\<lambda>a b. pt_updated_at_ms b \<le> pt_updated_at_ms a)
      (list_tasks arrange status label limit offset s) \<and>
    (\<forall>t \<in> set (list_tasks arrange status label limit offset s).
       t \<in> task_from_row ` set (ts_rows s) \<and> (\<forall>x. status = Some x \<longrightarrow> pt_status t = x)) \<and>
    list_tasks arrange status (Some (c # cs)) limit offset s =
      filter (\<lambda>t. py_lower (py_strip (c # cs)) \<in> set (pt_labels t))
        (list_tasks arrange status None limit offset s)"
proof -
  let ?sel = "filter (\<lambda>r. case status of None \<Rightarrow> True | Some s \<Rightarrow> pt_status r = s) (ts_rows s)"
  let ?page = "take (nat (max 1 (min limit 500))) (drop (nat (max 0 offset)) (arrange ?sel))"
  have arr: "sorted_wrt (\<lambda>a b. pt_updated_at_ms b \<le> pt_updated_at_ms a) (arrange ?sel)"
    "set (arrange ?sel) = set ?sel"
    using assms unfolding orders_by_updated_def by (blast, metis set_mset_mset)
  have page: "sorted_wrt (\<lambda>a b. pt_updated_at_ms b \<le> pt_updated_at_ms a) (map task_from_row ?page)"
    using arr(1) by (simp add: sorted_wrt_map sorted_wrt_take sorted_wrt_drop task_from_row_def)
  have mem: "t \<in> task_from_row ` set (ts_rows s) \<and> (\<forall>x. status = Some x \<longrightarrow> pt_status t = x)"
    if "t \<in> set (map task_from_row ?page)" for t
  proof -
    obtain r where r: "r \<in> set ?page" "t = task_from_row r" using \<open>t \<in> set (map task_from_row ?page)\<close> by auto
    from r(1) have "r \<in> set (arrange ?sel)" by (rule in_set_dropD [OF in_set_takeD])
    then have "r \<in> set ?sel" by (simp only: arr(2))
    with r(2) show ?thesis by (auto simp: task_from_row_def)
  qed
  have cases: "list_tasks arrange status label limit offset s = map task_from_row ?page \<or>
      (\<exists>P. list_tasks arrange status label limit offset s = filter P (map task_from_row ?page))"
    by (auto simp: list_tasks_def task_list_def Let_def split: option.split list.split)
  have "length (filter P (map task_from_row ?page)) \<le> nat (max 1 (min limit 500))" for P
    by (rule order_trans [OF length_filter_le]) simp
  then have "length (list_tasks arrange status label limit offset s) \<le> nat (max 1 (min limit 500))"
    using cases by auto
  moreover have "sorted_wrt (\<lambda>a b. pt_updated_at_ms b \<le> pt_updated_at_ms a)
      (list_tasks arrange status label limit offset s)"
    using cases page sorted_wrt_filter [OF page] by metis
  moreover have "set (list_tasks arrange status label limit offset s) \<subseteq> set (map task_from_row ?page)"
    using cases by auto
  moreover have "list_tasks arrange status (Some (c # cs)) limit offset s =
      filter (\<lambda>t. py_lower (py_strip (c # cs)) \<in> set (pt_labels t))
        (list_tasks arrange status None limit offset s)"
    by (simp add: list_tasks_def task_list_def Let_def)
  ultimately show ?thesis using mem by blast
qed

theorem list_tasks_page_witness:
  "map pt_id (list_tasks newest_first None None 1 0 sample_tasks) = [''task-2''] \<and>
   list_project_tasks newest_first ''all'' (Some ''bug'') 1 sample_tasks =
     NoTasksFound ''all'' (Some ''bug'') \<and>
   map pt_id (list_tasks newest_first None (Some ''bug'') 2 0 sample_tasks) = [''task-1''] \<and>
   length (list_tasks newest_first None None 1 0 sample_tasks) \<le> nat (max 1 (min 1 500))"
proof (intro conjI)
  show "length (list_tasks newest_first None None 1 0 sample_tasks) \<le> nat (max 1 (min 1 500))"
    using list_tasks_page [OF newest_first_orders] by blast
  show "map pt_id (list_tasks newest_first None None 1 0 sample_tasks) = [''task-2'']"
    by code_simp
  have "list_tasks newest_first None (Some ''bug'') 1 0 sample_tasks = []"
    by code_simp
  then show "list_project_tasks newest_first ''all'' (Some ''bug'') 1 sample_tasks =
     NoTasksFound ''all'' (Some ''bug'')"
    by (simp add: list_project_tasks_def)
  show "map pt_id (list_tasks newest_first None (Some ''bug'') 2 0 sample_tasks) = [''task-1'']"
    by code_simp
qed

end
