(* ===== verification/Collab_Store.thy ===== *)
theory Collab_Store
  imports Collab_Model "HOL-Library.List_Lexorder" "HOL-Library.Char_ord"
    "HOL-Library.Product_Lexorder"
begin

text \<open>
  The transactional mailbox of \<open>runtime/collaboration/store.py\<close>. The four tables are lists of rows in
  insertion order, which is the order of \<open>rowid\<close> and, for deliveries and for the messages of one
  request, of \<open>sequence\<close>; an SQL statement is the function on the rows it selects. A public operation
  is one transaction under the store's lock: it either returns a value with the tables it leaves, or an
  error with the tables as they were. Clock readings (\<open>now\<close>) and drawn ids are arguments.
\<close>

section \<open>State and transactions\<close>

record collab_store =
  cs_closed :: bool
  cs_max_pending :: nat
  cs_scopes :: "continuation_scope list"
  cs_requests :: "collab_request list"
  cs_messages :: "collab_message list"
  cs_deliveries :: "delivery list"
  cs_next_sequence :: nat

definition new_collab_store :: "int \<Rightarrow> collab_error + collab_store" where
  "new_collab_store max_pending =
     (if max_pending < 1 \<or> 4096 < max_pending
      then Inl (CollaborationError ''invalid mailbox capacity'')
      else Inr \<lparr>cs_closed = False, cs_max_pending = nat max_pending, cs_scopes = [],
                cs_requests = [], cs_messages = [], cs_deliveries = [], cs_next_sequence = 1\<rparr>)"

definition collab_close :: "collab_store \<Rightarrow> collab_store" where
  "collab_close s = (if \<not> cs_closed s then s\<lparr>cs_closed := True\<rparr> else s)"

text \<open>\<open>and_then\<close> runs the rest when no exception was raised.\<close>

definition and_then :: "'e + 'a \<Rightarrow> ('a \<Rightarrow> 'e + 'b) \<Rightarrow> 'e + 'b" where
  "and_then x f = (case x of Inl e \<Rightarrow> Inl e | Inr a \<Rightarrow> f a)"

definition transaction ::
  "(collab_store \<Rightarrow> collab_error + 'a \<times> collab_store) \<Rightarrow> collab_store \<Rightarrow>
     (collab_error + 'a) \<times> collab_store" where
  "transaction f s =
     (if cs_closed s then (Inl (CollaborationError ''store is closed''), s)
      else case f s of Inl e \<Rightarrow> (Inl e, s) | Inr (x, s') \<Rightarrow> (Inr x, s'))"

definition read_transaction ::
  "(collab_store \<Rightarrow> collab_error + 'a) \<Rightarrow> collab_store \<Rightarrow> collab_error + 'a" where
  "read_transaction f s =
     (if cs_closed s then Inl (CollaborationError ''store is closed'') else f s)"

text \<open>Argument checks come before the transaction.\<close>

definition checked ::
  "collab_error + 'b \<Rightarrow> collab_store \<Rightarrow> (collab_error + 'a) \<times> collab_store \<Rightarrow>
     (collab_error + 'a) \<times> collab_store" where
  "checked v s k = (case v of Inl e \<Rightarrow> (Inl e, s) | Inr _ \<Rightarrow> k)"

definition check_version :: "int \<Rightarrow> collab_error + unit" where
  "check_version value = (if value < 0 then Inl (CollaborationError ''invalid expected version'') else Inr ())"

definition update_rows :: "('r \<Rightarrow> bool) \<Rightarrow> ('r \<Rightarrow> 'r) \<Rightarrow> 'r list \<Rightarrow> 'r list" where
  "update_rows P f rows = map (\<lambda>r. if P r then f r else r) rows"

definition owner_states :: "delivery_state list" where
  "owner_states = [CLAIMED, RUNNING, REVIEW]"

definition unresolved_states :: "delivery_state list" where
  "unresolved_states = [PENDING, CLAIMED, RUNNING, REVIEW]"

definition set_delivery_state :: "delivery_state \<Rightarrow> string \<Rightarrow> delivery \<Rightarrow> delivery" where
  "set_delivery_state st reason d =
     d\<lparr>del_state := st, del_version := Suc (del_version d), del_reason := Some reason\<rparr>"

definition set_request_state :: "request_state \<Rightarrow> int \<Rightarrow> collab_request \<Rightarrow> collab_request" where
  "set_request_state st now r =
     r\<lparr>req_state := st, req_version := Suc (req_version r), req_updated_at_ms := now\<rparr>"

section \<open>Scopes\<close>

definition read_scope :: "string \<Rightarrow> collab_store \<Rightarrow> collab_error + continuation_scope" where
  "read_scope sid s =
     and_then (bounded_text MAX_ID_BYTES sid) (\<lambda>_.
       case find (\<lambda>r. scope_id r = sid) (cs_scopes s) of
         None \<Rightarrow> Inl (NotFoundError ''scope not found'')
       | Some r \<Rightarrow> Inr r)"

definition read_request :: "string \<Rightarrow> session_ref \<Rightarrow> collab_store \<Rightarrow> collab_error + collab_request" where
  "read_request rid actor s =
     and_then (bounded_text MAX_ID_BYTES rid) (\<lambda>_.
     and_then (validate_ref actor) (\<lambda>_.
       case find (\<lambda>r. req_id r = rid) (cs_requests s) of
         None \<Rightarrow> Inl (NotFoundError ''request not found'')
       | Some r \<Rightarrow>
           if actor \<noteq> req_source r \<and> actor \<noteq> req_target r
           then Inl (NotFoundError ''request not found'') else Inr r))"

definition get_scope :: "string \<Rightarrow> session_ref \<Rightarrow> collab_store \<Rightarrow> collab_error + continuation_scope" where
  "get_scope sid actor s =
     and_then (validate_ref actor) (\<lambda>_.
       read_transaction (\<lambda>s. and_then (read_scope sid s) (\<lambda>scope.
         if scope_source scope \<noteq> actor then Inl (NotFoundError ''scope not found'') else Inr scope)) s)"

definition active_scope :: "session_ref \<Rightarrow> collab_store \<Rightarrow> collab_error + continuation_scope option" where
  "active_scope source s =
     and_then (validate_ref source) (\<lambda>_.
       read_transaction (\<lambda>s.
         Inr (find (\<lambda>r. scope_source r = source \<and> scope_state r = SC_ACTIVE) (rev (cs_scopes s)))) s)"

definition begin_scope ::
  "session_ref \<Rightarrow> string \<Rightarrow> string \<Rightarrow> collab_store \<Rightarrow>
     (collab_error + continuation_scope) \<times> collab_store" where
  "begin_scope source work_id fresh s =
     checked (and_then (validate_ref source) (\<lambda>_. bounded_text MAX_ID_BYTES work_id)) s
       (transaction (\<lambda>s.
          case find (\<lambda>r. scope_source r = source \<and> scope_work_id r = work_id) (cs_scopes s) of
            Some r \<Rightarrow> Inr (r, s)
          | None \<Rightarrow>
              let s' = s\<lparr>cs_scopes := cs_scopes s @
                           [\<lparr>scope_id = fresh, scope_source = source, scope_work_id = work_id,
                             scope_state = SC_ACTIVE, scope_version = 0\<rparr>]\<rparr>
              in and_then (read_scope fresh s') (\<lambda>r. Inr (r, s'))) s)"

text \<open>Which deliveries a restriction reaches.\<close>

definition is_reply_delivery :: "collab_store \<Rightarrow> delivery \<Rightarrow> bool" where
  "is_reply_delivery s d \<longleftrightarrow>
     list_ex (\<lambda>m. msg_id m = del_message_id d \<and> msg_request_id m = del_request_id d \<and>
       msg_kind m = REPLY) (cs_messages s)"

definition restriction_reaches ::
  "collab_store \<Rightarrow> continuation_scope \<Rightarrow> scope_state \<Rightarrow> delivery \<Rightarrow> bool" where
  "restriction_reaches s scope st d \<longleftrightarrow>
     del_scope_id d = scope_id scope \<and>
     (st = RECEIVE_ONLY \<longrightarrow> del_recipient d = scope_source scope \<and> is_reply_delivery s d)"

text \<open>Pending deliveries are cancelled; a claimed one may have started, so it is held for review.\<close>

definition disable_deliveries :: "(delivery \<Rightarrow> bool) \<Rightarrow> string \<Rightarrow> delivery list \<Rightarrow> delivery list" where
  "disable_deliveries reached reason ds =
     update_rows (\<lambda>d. reached d \<and> del_state d = CLAIMED) (set_delivery_state REVIEW reason)
       (update_rows (\<lambda>d. reached d \<and> del_state d = PENDING) (set_delivery_state CANCELLED reason) ds)"

definition request_owned :: "delivery list \<Rightarrow> string \<Rightarrow> bool" where
  "request_owned ds rid \<longleftrightarrow> list_ex (\<lambda>d. del_request_id d = rid \<and> del_state d \<in> set owner_states) ds"

definition restrict_scope_rows ::
  "continuation_scope \<Rightarrow> scope_state \<Rightarrow> int \<Rightarrow> collab_store \<Rightarrow> collab_store" where
  "restrict_scope_rows scope st now s =
     (let scopes = update_rows (\<lambda>r. scope_id r = scope_id scope)
            (\<lambda>r. r\<lparr>scope_state := st, scope_version := Suc (scope_version r)\<rparr>) (cs_scopes s);
          ds = disable_deliveries (restriction_reaches s scope st) ''scope_disabled'' (cs_deliveries s);
          requests =
            (if st = REVOKED
             then update_rows (\<lambda>r. req_scope_id r = scope_id scope \<and> req_state r = RQ_PENDING \<and>
                      \<not> request_owned ds (req_id r))
                    (set_request_state RQ_CANCELLED now) (cs_requests s)
             else cs_requests s)
      in s\<lparr>cs_scopes := scopes, cs_deliveries := ds, cs_requests := requests\<rparr>)"

definition restrict_scope ::
  "string \<Rightarrow> session_ref \<Rightarrow> scope_state \<Rightarrow> int \<Rightarrow> int \<Rightarrow> collab_store \<Rightarrow>
     (collab_error + continuation_scope) \<times> collab_store" where
  "restrict_scope sid actor st expected_version now s =
     checked (and_then (validate_ref actor) (\<lambda>_. check_version expected_version)) s
       (transaction (\<lambda>s. and_then (read_scope sid s) (\<lambda>scope.
          if scope_source scope \<noteq> actor then Inl (NotFoundError ''scope not found'')
          else if int (scope_version scope) \<noteq> expected_version
          then Inl (ConflictError ''scope version changed'')
          else and_then (check_transition (OfScope (scope_state scope)) (OfScope st)) (\<lambda>_.
            let s' = restrict_scope_rows scope st now s
            in and_then (read_scope sid s') (\<lambda>r. Inr (r, s'))))) s)"

section \<open>Requests\<close>

definition get_request :: "string \<Rightarrow> session_ref \<Rightarrow> collab_store \<Rightarrow> collab_error + collab_request" where
  "get_request rid actor s = read_transaction (read_request rid actor) s"

definition control_request ::
  "string \<Rightarrow> session_ref \<Rightarrow> int \<Rightarrow> bool \<Rightarrow> int \<Rightarrow> collab_store \<Rightarrow>
     (collab_error + collab_request) \<times> collab_store" where
  "control_request rid source expected_version receive_only now s =
     checked (check_version expected_version) s
       (transaction (\<lambda>s. and_then (read_request rid source s) (\<lambda>request.
          if req_source request \<noteq> source then Inl (NotFoundError ''assignment not found'')
          else if int (req_control_version request) \<noteq> expected_version
          then Inl (ConflictError ''assignment control changed'')
          else
            let st = (if receive_only then RECEIVE_ONLY else REVOKED)
            in and_then (check_transition (OfScope (req_continuation request)) (OfScope st)) (\<lambda>_.
              let requests1 = update_rows (\<lambda>r. req_id r = rid)
                    (\<lambda>r. r\<lparr>req_continuation := st, req_control_version := Suc (req_control_version r),
                           req_updated_at_ms := now\<rparr>) (cs_requests s);
                  ds = disable_deliveries
                    (\<lambda>d. del_request_id d = rid \<and> (receive_only \<longrightarrow> del_recipient d = source))
                    ''assignment_disabled'' (cs_deliveries s);
                  requests2 =
                    (if \<not> receive_only \<and> req_state request \<in> {RQ_PENDING, WORKING, WAITING_INPUT}
                     then update_rows (\<lambda>r. req_id r = rid)
                            (\<lambda>r. r\<lparr>req_state := RQ_CANCELLED, req_version := Suc (req_version r)\<rparr>)
                            requests1
                     else requests1);
                  s' = s\<lparr>cs_requests := requests2, cs_deliveries := ds\<rparr>
              in and_then (read_request rid source s') (\<lambda>r. Inr (r, s'))))) s)"

definition request_deliveries ::
  "string \<Rightarrow> session_ref \<Rightarrow> collab_store \<Rightarrow> collab_error + delivery list" where
  "request_deliveries rid actor s =
     read_transaction (\<lambda>s. and_then (read_request rid actor s) (\<lambda>_.
       Inr (take MAX_MESSAGES (filter (\<lambda>d. del_request_id d = rid) (cs_deliveries s))))) s"

text \<open>\<open>SELECT * FROM deliveries WHERE id=?\<close> for its recipient.\<close>

definition read_delivery :: "string \<Rightarrow> session_ref \<Rightarrow> collab_store \<Rightarrow> collab_error + delivery" where
  "read_delivery did recipient s =
     (case find (\<lambda>d. del_id d = did) (cs_deliveries s) of
        None \<Rightarrow> Inl (NotFoundError ''delivery not found'')
      | Some d \<Rightarrow>
          if del_recipient d \<noteq> recipient then Inl (NotFoundError ''delivery not found'') else Inr d)"

text \<open>Whether scope and assignment still let the recipient execute.\<close>

definition execution_refused :: "continuation_scope \<Rightarrow> collab_request \<Rightarrow> session_ref \<Rightarrow> bool" where
  "execution_refused scope request recipient \<longleftrightarrow>
     scope_state scope = REVOKED \<or> req_continuation request = REVOKED \<or>
     (recipient = req_source request \<and>
      (scope_state scope \<noteq> SC_ACTIVE \<or> req_continuation request \<noteq> SC_ACTIVE))"

definition link_resumed_turn ::
  "string \<Rightarrow> session_ref \<Rightarrow> string \<Rightarrow> collab_store \<Rightarrow> (collab_error + unit) \<times> collab_store" where
  "link_resumed_turn did recipient turn_id s =
     checked (bounded_text MAX_ID_BYTES turn_id) s
       (transaction (\<lambda>s. and_then (read_delivery did recipient s) (\<lambda>d.
          if del_turn_id d = Some turn_id then Inr ((), s)
          else and_then (read_request (del_request_id d) recipient s) (\<lambda>request.
            and_then (read_scope (req_scope_id request) s) (\<lambda>scope.
              if del_state d \<noteq> RUNNING \<or> execution_refused scope request recipient
              then Inl (ConflictError ''assignment no longer permits execution'')
              else Inr ((), s\<lparr>cs_deliveries := update_rows (\<lambda>r. del_id r = did)
                     (\<lambda>r. r\<lparr>del_turn_id := Some turn_id, del_version := Suc (del_version r)\<rparr>)
                     (cs_deliveries s)\<rparr>))))) s)"

section \<open>Messages\<close>

definition messages_of :: "string \<Rightarrow> collab_store \<Rightarrow> collab_message list" where
  "messages_of rid s = filter (\<lambda>m. msg_request_id m = rid) (cs_messages s)"

definition unresolved_count :: "session_ref \<Rightarrow> delivery list \<Rightarrow> nat" where
  "unresolved_count recipient ds =
     length (filter (\<lambda>d. del_recipient d = recipient \<and> del_state d \<in> set unresolved_states) ds)"

definition append_executable ::
  "continuation_scope \<Rightarrow> collab_request \<Rightarrow> session_ref \<Rightarrow> message_kind \<Rightarrow> bool" where
  "append_executable scope request recipient kind \<longleftrightarrow>
     kind \<noteq> PROGRESS \<and> req_continuation request \<noteq> REVOKED \<and>
     (recipient \<noteq> req_source request \<or>
      (scope_state scope = SC_ACTIVE \<and> req_continuation request = SC_ACTIVE))"

definition append_message ::
  "collab_request \<Rightarrow> session_ref \<Rightarrow> message_kind \<Rightarrow> string \<Rightarrow> string \<Rightarrow> string \<Rightarrow>
     string \<Rightarrow> string \<Rightarrow> int \<Rightarrow> collab_store \<Rightarrow> collab_error + collab_message \<times> collab_store" where
  "append_message request sender kind body operation_key anchor mid did now s =
     (let count = length (messages_of (req_id request) s);
          ceiling = (if kind = REPLY then MAX_MESSAGES else MAX_MESSAGES - 1)
      in if ceiling \<le> count then Inl (CapacityError ''request message limit reached'')
         else
           let recipient = (if sender = req_source request then req_target request else req_source request)
           in and_then (read_scope (req_scope_id request) s) (\<lambda>scope.
             let executable = append_executable scope request recipient kind
             in if executable \<and> cs_max_pending s \<le> unresolved_count recipient (cs_deliveries s)
                then Inl (CapacityError ''recipient mailbox is full'')
                else
                  let m = \<lparr>msg_id = mid, msg_request_id = req_id request, msg_sequence = Suc count,
                           msg_sender = sender, msg_kind = kind, msg_body = body,
                           msg_operation_key = operation_key, msg_anchor_turn_id = anchor,
                           msg_created_at_ms = now\<rparr>;
                      d = \<lparr>del_id = did, del_message_id = mid, del_request_id = req_id request,
                           del_recipient = recipient, del_scope_id = req_scope_id request,
                           del_state = (if executable then PENDING
                                        else if kind = PROGRESS then SETTLED else CANCELLED),
                           del_version = 0, del_turn_id = None,
                           del_reason = (if executable then None
                                         else if kind = PROGRESS then Some ''notification''
                                         else Some ''scope_disabled''),
                           del_sequence = cs_next_sequence s\<rparr>
                  in Inr (m, s\<lparr>cs_messages := cs_messages s @ [m],
                              cs_deliveries := cs_deliveries s @ [d],
                              cs_next_sequence := Suc (cs_next_sequence s)\<rparr>)))"

definition create_request ::
  "string \<Rightarrow> session_ref \<Rightarrow> session_ref \<Rightarrow> string \<Rightarrow> string \<Rightarrow> string \<Rightarrow>
     string \<Rightarrow> string \<Rightarrow> string \<Rightarrow> int \<Rightarrow> collab_store \<Rightarrow>
     (collab_error + collab_request) \<times> collab_store" where
  "create_request sid source target operation_key body anchor rid mid did now s =
     checked (and_then (validate_ref source) (\<lambda>_. validate_ref target)) s
       (if source = target then (Inl (CollaborationError ''cannot request the same session''), s)
        else
          checked (and_then (bounded_text MAX_ID_BYTES operation_key) (\<lambda>_.
                   and_then (bounded_text MAX_BODY_BYTES body) (\<lambda>_.
                     optional_text MAX_ID_BYTES anchor))) s
            (transaction (\<lambda>s. and_then (read_scope sid s) (\<lambda>scope.
               if scope_source scope \<noteq> source then Inl (NotFoundError ''scope not found'')
               else case find (\<lambda>r. req_scope_id r = sid \<and> req_operation_key r = operation_key)
                           (cs_requests s) of
                      Some r \<Rightarrow>
                        if (req_target r, req_body r, req_anchor_turn_id r) \<noteq> (target, body, anchor)
                        then Inl (ConflictError ''operation key already has different content'')
                        else Inr (r, s)
                    | None \<Rightarrow>
                        if scope_state scope \<noteq> SC_ACTIVE
                        then Inl (ConflictError ''scope is not active'')
                        else
                          let request = \<lparr>req_id = rid, req_scope_id = sid, req_source = source,
                                req_target = target, req_operation_key = operation_key,
                                req_body = body, req_anchor_turn_id = anchor,
                                req_state = RQ_PENDING, req_version = 0, req_created_at_ms = now,
                                req_updated_at_ms = now, req_continuation = SC_ACTIVE,
                                req_control_version = 0\<rparr>;
                              s1 = s\<lparr>cs_requests := cs_requests s @ [request]\<rparr>
                          in and_then (read_request rid source s1) (\<lambda>request.
                             and_then (append_message request source REQUEST body operation_key
                                         anchor mid did now s1)
                               (\<lambda>(m, s2). Inr (request, s2))))) s))"

definition is_clarification :: "collab_store \<Rightarrow> string \<Rightarrow> string \<Rightarrow> bool" where
  "is_clarification s rid mid \<longleftrightarrow>
     list_ex (\<lambda>m. msg_id m = mid \<and> msg_request_id m = rid \<and> msg_kind m = CLARIFICATION) (cs_messages s)"

definition cancel_pending_clarifications :: "string \<Rightarrow> collab_store \<Rightarrow> collab_store" where
  "cancel_pending_clarifications rid s =
     s\<lparr>cs_deliveries := update_rows
         (\<lambda>d. del_request_id d = rid \<and> del_state d = PENDING \<and> is_clarification s rid (del_message_id d))
         (set_delivery_state CANCELLED ''superseded'') (cs_deliveries s)\<rparr>"

fun next_request_state :: "message_kind \<Rightarrow> request_state" where
  "next_request_state CLARIFICATION = WAITING_INPUT"
| "next_request_state SUPPLEMENT = RQ_PENDING"
| "next_request_state REPLY = REPLIED"
| "next_request_state PROGRESS = WORKING"
| "next_request_state REQUEST = RQ_PENDING"

definition post_message ::
  "string \<Rightarrow> session_ref \<Rightarrow> message_kind \<Rightarrow> string \<Rightarrow> string \<Rightarrow> string \<Rightarrow>
     string \<Rightarrow> string \<Rightarrow> int \<Rightarrow> collab_store \<Rightarrow> (collab_error + collab_message) \<times> collab_store" where
  "post_message rid actor kind body operation_key anchor mid did now s =
     (if kind = REQUEST then (Inl (CollaborationError ''invalid response kind''), s)
      else checked (and_then (bounded_text MAX_BODY_BYTES body) (\<lambda>_.
                    and_then (bounded_text MAX_ID_BYTES operation_key) (\<lambda>_.
                      optional_text MAX_ID_BYTES anchor))) s
        (transaction (\<lambda>s. and_then (read_request rid actor s) (\<lambda>request.
           if actor \<noteq> (if kind = SUPPLEMENT then req_source request else req_target request)
           then Inl (ConflictError ''message role is not allowed'')
           else case find (\<lambda>m. msg_request_id m = rid \<and> msg_sender m = actor \<and>
                              msg_operation_key m = operation_key) (cs_messages s) of
                  Some m \<Rightarrow>
                    if (msg_kind m, msg_body m, msg_anchor_turn_id m) \<noteq> (kind, body, anchor)
                    then Inl (ConflictError ''operation key already has different content'')
                    else Inr (m, s)
                | None \<Rightarrow>
                    if kind = PROGRESS then
                      (if req_state request \<notin> {WORKING, WAITING_INPUT}
                       then Inl (ConflictError ''assignment is not running'')
                       else and_then (append_message request actor kind body operation_key anchor
                                        mid did now s) (\<lambda>(m, s1).
                              Inr (m, s1\<lparr>cs_requests := update_rows (\<lambda>r. req_id r = rid)
                                     (\<lambda>r. r\<lparr>req_updated_at_ms := now\<rparr>) (cs_requests s1)\<rparr>)))
                    else
                      and_then
                        (if kind = SUPPLEMENT then
                           and_then (read_scope (req_scope_id request) s) (\<lambda>scope.
                             if scope_state scope \<noteq> SC_ACTIVE \<or> req_continuation request \<noteq> SC_ACTIVE
                             then Inl (ConflictError ''scope is not active'') else Inr ())
                         else Inr ()) (\<lambda>_.
                      and_then (check_transition (OfRequest (req_state request))
                                  (OfRequest (next_request_state kind))) (\<lambda>_.
                        let s1 = (if kind \<in> {SUPPLEMENT, REPLY}
                                  then cancel_pending_clarifications rid s else s)
                        in and_then (append_message request actor kind body operation_key anchor
                                       mid did now s1) (\<lambda>(m, s2).
                             Inr (m, s2\<lparr>cs_requests := update_rows (\<lambda>r. req_id r = rid)
                                    (set_request_state (next_request_state kind) now)
                                    (cs_requests s2)\<rparr>))))))  s))"

definition collab_messages ::
  "string \<Rightarrow> session_ref \<Rightarrow> int \<Rightarrow> int \<Rightarrow> collab_store \<Rightarrow> collab_error + collab_message list" where
  "collab_messages rid actor after limit s =
     and_then (page_size limit) (\<lambda>_.
       if after < 0 \<or> int MAX_MESSAGES < after
       then Inl (CollaborationError ''invalid message cursor'')
       else read_transaction (\<lambda>s. and_then (read_request rid actor s) (\<lambda>_.
         Inr (take (nat limit) (filter (\<lambda>m. after < int (msg_sequence m)) (messages_of rid s))))) s)"

definition fail_request ::
  "string \<Rightarrow> session_ref \<Rightarrow> int \<Rightarrow> int \<Rightarrow> collab_store \<Rightarrow>
     (collab_error + collab_request) \<times> collab_store" where
  "fail_request rid actor expected_version now s =
     checked (check_version expected_version) s
       (transaction (\<lambda>s. and_then (read_request rid actor s) (\<lambda>request.
          if actor \<noteq> req_target request then Inl (ConflictError ''only target can report failure'')
          else if int (req_version request) \<noteq> expected_version
          then Inl (ConflictError ''request version changed'')
          else and_then (check_transition (OfRequest (req_state request)) (OfRequest FAILED)) (\<lambda>_.
            let s1 = cancel_pending_clarifications rid s;
                s2 = s1\<lparr>cs_requests := update_rows (\<lambda>r. req_id r = rid)
                          (set_request_state FAILED now) (cs_requests s1)\<rparr>
            in and_then (read_request rid actor s2) (\<lambda>r. Inr (r, s2))))) s)"

end
