(* ===== verification/Collab_Delivery.thy ===== *)
theory Collab_Delivery
  imports Collab_Store
begin

text \<open>
  The rest of \<open>runtime/collaboration/store.py\<close>: claiming and moving deliveries, the recovery of a
  restarted daemon, the read surface, and the mailbox as a step system.
\<close>

section \<open>Claiming and moving deliveries\<close>

definition collab_deliveries ::
  "session_ref \<Rightarrow> int \<Rightarrow> int \<Rightarrow> collab_store \<Rightarrow> collab_error + delivery list" where
  "collab_deliveries recipient after limit s =
     and_then (validate_ref recipient) (\<lambda>_. and_then (page_size limit) (\<lambda>_.
       if after < 0 \<or> 2 ^ 63 \<le> after then Inl (CollaborationError ''invalid delivery cursor'')
       else read_transaction (\<lambda>s. Inr (take (nat limit)
              (filter (\<lambda>d. del_recipient d = recipient \<and> after < int (del_sequence d))
                (cs_deliveries s)))) s))"

definition has_owner :: "session_ref \<Rightarrow> delivery list \<Rightarrow> bool" where
  "has_owner recipient ds \<longleftrightarrow>
     list_ex (\<lambda>d. del_recipient d = recipient \<and> del_state d \<in> set owner_states) ds"

definition claim_row :: "delivery \<Rightarrow> delivery" where
  "claim_row d = d\<lparr>del_state := CLAIMED, del_version := Suc (del_version d)\<rparr>"

definition claim_next ::
  "session_ref \<Rightarrow> collab_store \<Rightarrow> (collab_error + delivery option) \<times> collab_store" where
  "claim_next recipient s =
     checked (validate_ref recipient) s
       (transaction (\<lambda>s.
          if has_owner recipient (cs_deliveries s) then Inr (None, s)
          else case find (\<lambda>d. del_recipient d = recipient \<and> del_state d = PENDING) (cs_deliveries s) of
                 None \<Rightarrow> Inr (None, s)
               | Some d \<Rightarrow>
                   let ds = update_rows (\<lambda>r. del_id r = del_id d) claim_row (cs_deliveries s)
                   in Inr (find (\<lambda>r. del_id r = del_id d) ds, s\<lparr>cs_deliveries := ds\<rparr>)) s)"

text \<open>The unique index \<open>one_delivery_owner\<close>, which an \<open>UPDATE\<close> may violate.\<close>

definition one_delivery_owner :: "delivery list \<Rightarrow> bool" where
  "one_delivery_owner ds \<longleftrightarrow>
     distinct (map del_recipient (filter (\<lambda>d. del_state d \<in> set owner_states) ds))"

definition start_allowed :: "message_kind \<Rightarrow> collab_request \<Rightarrow> session_ref \<Rightarrow> collab_error + bool" where
  "start_allowed kind request recipient =
     (case kind of
        REQUEST \<Rightarrow> Inr (recipient = req_target request \<and> req_state request = RQ_PENDING)
      | SUPPLEMENT \<Rightarrow> Inr (recipient = req_target request \<and> req_state request = RQ_PENDING)
      | CLARIFICATION \<Rightarrow> Inr (recipient = req_source request \<and> req_state request = WAITING_INPUT)
      | REPLY \<Rightarrow> Inr (recipient = req_source request \<and> req_state request = REPLIED)
      | PROGRESS \<Rightarrow> Inl (LookupFailure ''progress''))"

text \<open>What a start checks and does besides moving the delivery.\<close>

definition start_checks ::
  "delivery \<Rightarrow> collab_request \<Rightarrow> session_ref \<Rightarrow> int \<Rightarrow> collab_store \<Rightarrow> collab_error + collab_store" where
  "start_checks d request recipient now s =
     and_then (read_scope (del_scope_id d) s) (\<lambda>scope.
       if execution_refused scope request recipient
       then Inl (ConflictError ''scope no longer permits execution'')
       else case find (\<lambda>m. msg_id m = del_message_id d) (cs_messages s) of
              None \<Rightarrow> Inl (LookupFailure ''message'')
            | Some m \<Rightarrow> and_then (start_allowed (msg_kind m) request recipient) (\<lambda>ok.
                if \<not> ok then Inl (ConflictError ''request no longer permits execution'')
                else if recipient = req_target request \<and> req_state request = RQ_PENDING
                then Inr (s\<lparr>cs_requests := update_rows (\<lambda>r. req_id r = req_id request)
                              (set_request_state WORKING now) (cs_requests s)\<rparr>)
                else Inr s))"

definition or_else :: "'a option \<Rightarrow> 'a option \<Rightarrow> 'a option" where
  "or_else a b = (case a of None \<Rightarrow> b | Some x \<Rightarrow> Some x)"

definition move_row :: "delivery_state \<Rightarrow> string option \<Rightarrow> string option \<Rightarrow> delivery \<Rightarrow> delivery" where
  "move_row st turn_id reason d =
     d\<lparr>del_state := st, del_version := Suc (del_version d),
       del_turn_id := or_else (del_turn_id d) turn_id, del_reason := or_else reason (del_reason d)\<rparr>"

definition transition_delivery ::
  "string \<Rightarrow> session_ref \<Rightarrow> delivery_state \<Rightarrow> int \<Rightarrow> string option \<Rightarrow> string option \<Rightarrow> int \<Rightarrow>
     collab_store \<Rightarrow> (collab_error + delivery) \<times> collab_store" where
  "transition_delivery did recipient st expected_version turn_id reason now s =
     checked (and_then (bounded_text MAX_ID_BYTES did) (\<lambda>_.
              and_then (validate_ref recipient) (\<lambda>_.
              and_then (check_version expected_version) (\<lambda>_.
              and_then (case turn_id of None \<Rightarrow> Inr [] | Some t \<Rightarrow> bounded_text MAX_ID_BYTES t) (\<lambda>_.
                case reason of None \<Rightarrow> Inr [] | Some r \<Rightarrow> bounded_text MAX_REASON_BYTES r))))) s
       (transaction (\<lambda>s. and_then (read_delivery did recipient s) (\<lambda>d.
          if int (del_version d) \<noteq> expected_version
          then Inl (ConflictError ''delivery version changed'')
          else and_then (check_transition (OfDelivery (del_state d)) (OfDelivery st)) (\<lambda>_.
            if st = RUNNING \<and> turn_id = None
            then Inl (CollaborationError ''running delivery requires a turn identity'')
            else if del_turn_id d \<noteq> None \<and> turn_id \<noteq> None \<and> turn_id \<noteq> del_turn_id d
            then Inl (ConflictError ''delivery already bound to another turn'')
            else and_then (read_request (del_request_id d) recipient s) (\<lambda>request.
              and_then (if st = RUNNING then start_checks d request recipient now s else Inr s) (\<lambda>s1.
                let ds = update_rows (\<lambda>r. del_id r = did) (move_row st turn_id reason) (cs_deliveries s1)
                in if \<not> one_delivery_owner ds then Inl (SqliteIntegrityError ''one_delivery_owner'')
                   else case find (\<lambda>r. del_id r = did) ds of
                          None \<Rightarrow> Inl (LookupFailure ''delivery'')
                        | Some r \<Rightarrow> Inr (r, s1\<lparr>cs_deliveries := ds\<rparr>)))))) s)"

definition abandon_claim ::
  "string \<Rightarrow> session_ref \<Rightarrow> int \<Rightarrow> string \<Rightarrow> int \<Rightarrow> collab_store \<Rightarrow>
     (collab_error + delivery) \<times> collab_store" where
  "abandon_claim did recipient expected_version reason now s =
     checked (bounded_text MAX_REASON_BYTES reason) s
       (transition_delivery did recipient CANCELLED expected_version None (Some reason) now s)"

definition resolve_uncertain ::
  "string \<Rightarrow> session_ref \<Rightarrow> int \<Rightarrow> string \<Rightarrow> int \<Rightarrow> collab_store \<Rightarrow>
     (collab_error + delivery) \<times> collab_store" where
  "resolve_uncertain did recipient expected_version reason now s =
     checked (bounded_text MAX_REASON_BYTES reason) s
       (transition_delivery did recipient SETTLED expected_version None (Some reason) now s)"

section \<open>Restart\<close>

definition in_states :: "delivery_state list \<Rightarrow> delivery \<Rightarrow> bool" where
  "in_states sts d \<longleftrightarrow> del_state d \<in> set sts"

definition recover_uncertain :: "int \<Rightarrow> collab_store \<Rightarrow> (collab_error + nat) \<times> collab_store" where
  "recover_uncertain limit s =
     checked (page_size limit) s
       (transaction (\<lambda>s.
          let rows = take (nat limit) (filter (in_states [CLAIMED, RUNNING]) (cs_deliveries s))
          in Inr (length rows,
                  s\<lparr>cs_deliveries := update_rows (\<lambda>r. del_id r \<in> del_id ` set rows)
                      (set_delivery_state REVIEW ''restart'') (cs_deliveries s)\<rparr>)) s)"

text \<open>One turn of the loop of \<open>settle_interrupted\<close>.\<close>

definition settle_one :: "int \<Rightarrow> delivery \<Rightarrow> collab_store \<Rightarrow> collab_store" where
  "settle_one now d s =
     (let s1 = s\<lparr>cs_deliveries := update_rows (\<lambda>r. del_id r = del_id d)
                   (set_delivery_state SETTLED ''interrupted'') (cs_deliveries s)\<rparr>
      in case find (\<lambda>r. req_id r = del_request_id d) (cs_requests s1) of
           None \<Rightarrow> s1
         | Some request \<Rightarrow>
             if del_recipient d \<noteq> req_target request \<or>
                req_state request \<notin> {RQ_PENDING, WORKING}
             then s1
             else s1\<lparr>cs_requests := update_rows (\<lambda>r. req_id r = req_id request)
                        (set_request_state FAILED now) (cs_requests s1)\<rparr>)"

definition settle_interrupted :: "int \<Rightarrow> int \<Rightarrow> collab_store \<Rightarrow> (collab_error + nat) \<times> collab_store" where
  "settle_interrupted limit now s =
     checked (page_size limit) s
       (transaction (\<lambda>s.
          let rows = take (nat limit) (filter (in_states [REVIEW]) (cs_deliveries s))
          in Inr (length rows, fold (settle_one now) rows s)) s)"

definition stopped_request :: "collab_store \<Rightarrow> collab_request \<Rightarrow> bool" where
  "stopped_request s r \<longleftrightarrow>
     req_state r = RQ_PENDING \<and>
     list_ex (\<lambda>sc. scope_id sc = req_scope_id r \<and> scope_state sc \<noteq> SC_ACTIVE) (cs_scopes s) \<and>
     \<not> list_ex (\<lambda>d. del_request_id d = req_id r \<and> in_states unresolved_states d) (cs_deliveries s)"

definition reconcile_stopped_requests ::
  "int \<Rightarrow> int \<Rightarrow> collab_store \<Rightarrow> (collab_error + nat) \<times> collab_store" where
  "reconcile_stopped_requests limit now s =
     checked (page_size limit) s
       (transaction (\<lambda>s.
          let rows = take (nat limit) (filter (stopped_request s) (cs_requests s))
          in Inr (length rows,
                  s\<lparr>cs_requests := update_rows (\<lambda>r. req_id r \<in> req_id ` set rows)
                      (set_request_state RQ_CANCELLED now) (cs_requests s)\<rparr>)) s)"

section \<open>Reads\<close>

definition get_delivery :: "string \<Rightarrow> session_ref \<Rightarrow> collab_store \<Rightarrow> collab_error + delivery" where
  "get_delivery did recipient s =
     and_then (bounded_text MAX_ID_BYTES did) (\<lambda>_. and_then (validate_ref recipient) (\<lambda>_.
       read_transaction (read_delivery did recipient) s))"

definition execution_context ::
  "string \<Rightarrow> collab_store \<Rightarrow>
     collab_error + collab_request \<times> continuation_scope \<times> collab_message" where
  "execution_context did s =
     and_then (bounded_text MAX_ID_BYTES did) (\<lambda>_.
       read_transaction (\<lambda>s.
         case find (\<lambda>d. del_id d = did) (cs_deliveries s) of
           None \<Rightarrow> Inl (NotFoundError ''delivery not found'')
         | Some d \<Rightarrow>
             (case (find (\<lambda>r. req_id r = del_request_id d) (cs_requests s),
                    find (\<lambda>m. msg_id m = del_message_id d) (cs_messages s)) of
                (Some r, Some m) \<Rightarrow> and_then (read_scope (del_scope_id d) s) (\<lambda>sc. Inr (r, sc, m))
              | _ \<Rightarrow> Inl (NotFoundError ''delivery record is incomplete''))) s)"

definition running_deliveries :: "string \<Rightarrow> collab_store \<Rightarrow> collab_error + delivery list" where
  "running_deliveries sid s =
     and_then (bounded_text MAX_ID_BYTES sid) (\<lambda>_.
       read_transaction (\<lambda>s.
         Inr (filter (\<lambda>d. del_scope_id d = sid \<and> del_state d = RUNNING) (cs_deliveries s))) s)"

definition pending_recipients :: "int \<Rightarrow> collab_store \<Rightarrow> collab_error + session_ref list" where
  "pending_recipients limit s =
     and_then (page_size limit) (\<lambda>_.
       read_transaction (\<lambda>s.
         let ready = filter (\<lambda>d. del_state d = PENDING \<and> \<not> has_owner (del_recipient d) (cs_deliveries s))
               (cs_deliveries s)
         in Inr (take (nat limit) (rev (remdups (rev (map del_recipient ready)))))) s)"

definition requests_for_session ::
  "session_ref \<Rightarrow> int \<Rightarrow> collab_store \<Rightarrow> collab_error + collab_request list" where
  "requests_for_session session limit s =
     and_then (validate_ref session) (\<lambda>_. and_then (page_size limit) (\<lambda>_.
       read_transaction (\<lambda>s.
         Inr (take (nat limit) (rev (sort_key (\<lambda>r. (req_updated_at_ms r, req_id r))
           (filter (\<lambda>r. req_source r = session \<or> req_target r = session) (cs_requests s)))))) s))"

definition recent_messages ::
  "string \<Rightarrow> session_ref \<Rightarrow> int \<Rightarrow> collab_store \<Rightarrow> collab_error + collab_message list" where
  "recent_messages rid actor limit s =
     and_then (page_size limit) (\<lambda>_.
       read_transaction (\<lambda>s. and_then (read_request rid actor s) (\<lambda>_.
         Inr (rev (take (nat limit) (rev (messages_of rid s)))))) s)"

definition request_counts :: "string \<Rightarrow> collab_store \<Rightarrow> collab_error + nat \<times> nat" where
  "request_counts rid s =
     and_then (bounded_text MAX_ID_BYTES rid) (\<lambda>_.
       read_transaction (\<lambda>s.
         Inr (length (messages_of rid s),
              length (filter (\<lambda>d. del_request_id d = rid \<and> del_state d \<notin> {SETTLED, CANCELLED})
                (cs_deliveries s)))) s)"

section \<open>The mailbox as a step system\<close>

text \<open>Ids are drawn by \<open>uuid4\<close>: no row has them yet.\<close>

definition fresh_message_ids :: "string \<Rightarrow> string \<Rightarrow> collab_store \<Rightarrow> bool" where
  "fresh_message_ids mid did s \<longleftrightarrow>
     mid \<notin> msg_id ` set (cs_messages s) \<and> did \<notin> del_id ` set (cs_deliveries s)"

inductive collab_step :: "collab_store \<Rightarrow> collab_store \<Rightarrow> bool" where
  step_begin_scope:
    "fresh \<notin> scope_id ` set (cs_scopes s) \<Longrightarrow> collab_step s (snd (begin_scope source work fresh s))"
| step_restrict_scope: "collab_step s (snd (restrict_scope sid actor st v now s))"
| step_control_request: "collab_step s (snd (control_request rid source v ro now s))"
| step_link_resumed_turn: "collab_step s (snd (link_resumed_turn did recipient turn s))"
| step_create_request:
    "rid \<notin> req_id ` set (cs_requests s) \<Longrightarrow> fresh_message_ids mid did s \<Longrightarrow>
     collab_step s (snd (create_request sid source target key body anchor rid mid did now s))"
| step_post_message:
    "fresh_message_ids mid did s \<Longrightarrow>
     collab_step s (snd (post_message rid actor kind body key anchor mid did now s))"
| step_fail_request: "collab_step s (snd (fail_request rid actor v now s))"
| step_claim_next: "collab_step s (snd (claim_next recipient s))"
| step_transition_delivery:
    "collab_step s (snd (transition_delivery did recipient st v turn reason now s))"
| step_recover_uncertain: "collab_step s (snd (recover_uncertain limit s))"
| step_settle_interrupted: "collab_step s (snd (settle_interrupted limit now s))"
| step_reconcile: "collab_step s (snd (reconcile_stopped_requests limit now s))"
| step_close: "collab_step s (collab_close s)"

inductive is_new_collab_store :: "collab_store \<Rightarrow> bool" where
  "new_collab_store max_pending = Inr s \<Longrightarrow> is_new_collab_store s"

inductive_cases collab_stepE: "collab_step s s'"

abbreviation collab_reach :: "collab_store \<Rightarrow> bool" where
  "collab_reach \<equiv> reach is_new_collab_store collab_step"

end
