(* ===== verification/Collab_Invariants.thy ===== *)
theory Collab_Invariants
  imports Collab_Delivery "HOL-Library.Sublist"
begin

text \<open>
  How the tables of the mailbox evolve, and what holds of them in every reachable state. A row is never
  removed and never changes identity; \<open>del_evolves\<close>, \<open>req_evolves\<close> and \<open>scope_evolves\<close> say what an
  operation may do to it, and a version that has not moved certifies an unchanged delivery. An
  operation either touches existing rows (\<open>store_touch\<close>), or appends a scope, or appends a message
  together with its delivery.
\<close>

section \<open>How rows evolve\<close>

definition delivery_edge :: "delivery_state \<Rightarrow> delivery_state \<Rightarrow> bool" where
  "delivery_edge a b \<longleftrightarrow> b \<in> set (delivery_edges a)"

text \<open>Besides the table's edges, a restart fails a request that was claimed but never started.\<close>

definition request_edge :: "request_state \<Rightarrow> request_state \<Rightarrow> bool" where
  "request_edge a b \<longleftrightarrow> b \<in> set (request_edges a) \<or> (a = RQ_PENDING \<and> b = FAILED)"

definition scope_edge :: "scope_state \<Rightarrow> scope_state \<Rightarrow> bool" where
  "scope_edge a b \<longleftrightarrow> b \<in> set (scope_edges a)"

definition del_evolves :: "delivery \<Rightarrow> delivery \<Rightarrow> bool" where
  "del_evolves d d' \<longleftrightarrow>
     del_id d' = del_id d \<and> del_message_id d' = del_message_id d \<and>
     del_request_id d' = del_request_id d \<and> del_recipient d' = del_recipient d \<and>
     del_scope_id d' = del_scope_id d \<and> del_sequence d' = del_sequence d \<and>
     delivery_edge\<^sup>*\<^sup>* (del_state d) (del_state d') \<and>
     (d' = d \<or> del_version d < del_version d')"

definition req_evolves :: "collab_request \<Rightarrow> collab_request \<Rightarrow> bool" where
  "req_evolves r r' \<longleftrightarrow>
     req_id r' = req_id r \<and> req_scope_id r' = req_scope_id r \<and> req_source r' = req_source r \<and>
     req_target r' = req_target r \<and> req_operation_key r' = req_operation_key r \<and>
     req_body r' = req_body r \<and> req_anchor_turn_id r' = req_anchor_turn_id r \<and>
     request_edge\<^sup>*\<^sup>* (req_state r) (req_state r') \<and>
     scope_edge\<^sup>*\<^sup>* (req_continuation r) (req_continuation r') \<and>
     req_version r \<le> req_version r' \<and>
     (req_state r' = req_state r \<or> req_version r < req_version r')"

definition scope_evolves :: "continuation_scope \<Rightarrow> continuation_scope \<Rightarrow> bool" where
  "scope_evolves c c' \<longleftrightarrow>
     scope_id c' = scope_id c \<and> scope_source c' = scope_source c \<and>
     scope_work_id c' = scope_work_id c \<and> scope_edge\<^sup>*\<^sup>* (scope_state c) (scope_state c') \<and>
     (c' = c \<or> scope_version c < scope_version c')"

lemma evolves_refl [simp]: "del_evolves d d" "req_evolves r r" "scope_evolves c c"
  by (simp_all add: del_evolves_def req_evolves_def scope_evolves_def)

lemma del_evolves_trans: "del_evolves a b \<Longrightarrow> del_evolves b c \<Longrightarrow> del_evolves a c"
  unfolding del_evolves_def by (metis (no_types, lifting) order.strict_trans rtranclp_trans)

lemma req_evolves_trans: "req_evolves a b \<Longrightarrow> req_evolves b c \<Longrightarrow> req_evolves a c"
  unfolding req_evolves_def
  by (metis (no_types, lifting) order_trans rtranclp_trans order_le_less_trans order_less_le_trans)

lemma scope_evolves_trans: "scope_evolves a b \<Longrightarrow> scope_evolves b c \<Longrightarrow> scope_evolves a c"
  unfolding scope_evolves_def by (metis (no_types, lifting) order.strict_trans rtranclp_trans)

lemma del_evolves_state:
  "delivery_edge (del_state d) st \<Longrightarrow> del_evolves d (set_delivery_state st reason d)"
  by (simp add: del_evolves_def set_delivery_state_def)

lemma del_evolves_move:
  "delivery_edge (del_state d) st \<Longrightarrow> del_evolves d (move_row st turn reason d)"
  by (simp add: del_evolves_def move_row_def)

lemma del_evolves_claim: "del_state d = PENDING \<Longrightarrow> del_evolves d (claim_row d)"
  by (auto simp: del_evolves_def claim_row_def delivery_edge_def)

lemma req_evolves_state:
  "request_edge (req_state r) st \<Longrightarrow> req_evolves r (set_request_state st now r)"
  by (simp add: req_evolves_def set_request_state_def)

lemma request_final:
  assumes "request_edge\<^sup>*\<^sup>* a b" "a \<in> {REPLIED, RQ_CANCELLED, FAILED}"
  shows "b = a"
  using assms by (induction rule: rtranclp_induct) (auto simp: request_edge_def)

lemma delivery_final:
  assumes "delivery_edge\<^sup>*\<^sup>* a b" "a \<in> {SETTLED, CANCELLED}"
  shows "b = a"
  using assms by (induction rule: rtranclp_induct) (auto simp: delivery_edge_def)

lemma scope_final:
  assumes "scope_edge\<^sup>*\<^sup>* REVOKED b"
  shows "b = REVOKED"
  using assms by (induction rule: rtranclp_induct) (auto simp: scope_edge_def)

lemma unresolved_evolves:
  assumes "del_evolves d d'" "del_state d' \<in> set unresolved_states"
  shows "del_state d \<in> set unresolved_states"
proof (rule ccontr)
  assume "del_state d \<notin> set unresolved_states"
  then have "del_state d \<in> {SETTLED, CANCELLED}"
    by (cases "del_state d") (auto simp: unresolved_states_def)
  with assms show False
    by (auto simp: del_evolves_def unresolved_states_def dest: delivery_final)
qed

section \<open>Touching rows\<close>

definition store_touch :: "collab_store \<Rightarrow> collab_store \<Rightarrow> bool" where
  "store_touch s s' \<longleftrightarrow>
     cs_max_pending s' = cs_max_pending s \<and> cs_next_sequence s' = cs_next_sequence s \<and>
     cs_messages s' = cs_messages s \<and>
     list_all2 scope_evolves (cs_scopes s) (cs_scopes s') \<and>
     list_all2 req_evolves (cs_requests s) (cs_requests s') \<and>
     list_all2 del_evolves (cs_deliveries s) (cs_deliveries s')"

lemma touch_refl [simp]: "store_touch s s"
  by (simp add: store_touch_def list.rel_refl)

lemma del_all2_trans:
  "list_all2 del_evolves a b \<Longrightarrow> list_all2 del_evolves b c \<Longrightarrow> list_all2 del_evolves a c"
  by (rule list_all2_trans [where ?P1.0 = del_evolves and ?P2.0 = del_evolves]) (rule del_evolves_trans)

lemma req_all2_trans:
  "list_all2 req_evolves a b \<Longrightarrow> list_all2 req_evolves b c \<Longrightarrow> list_all2 req_evolves a c"
  by (rule list_all2_trans [where ?P1.0 = req_evolves and ?P2.0 = req_evolves]) (rule req_evolves_trans)

lemma scope_all2_trans:
  "list_all2 scope_evolves a b \<Longrightarrow> list_all2 scope_evolves b c \<Longrightarrow> list_all2 scope_evolves a c"
  by (rule list_all2_trans [where ?P1.0 = scope_evolves and ?P2.0 = scope_evolves]) (rule scope_evolves_trans)

lemma touch_trans: "store_touch a b \<Longrightarrow> store_touch b c \<Longrightarrow> store_touch a c"
  unfolding store_touch_def
  by (auto intro: scope_all2_trans req_all2_trans del_all2_trans)

lemma update_rows_all2:
  assumes "\<And>x. x \<in> set xs \<Longrightarrow> P x \<Longrightarrow> R x (f x)" "\<And>x. R x x"
  shows "list_all2 R xs (update_rows P f xs)"
  using assms(1) by (induction xs) (auto simp: update_rows_def assms(2))

lemma update_rowsE:
  assumes "x \<in> set (update_rows P f xs)"
  obtains q where "q \<in> set xs" "x = (if P q then f q else q)"
  using assms unfolding update_rows_def by auto

lemma touch_deliveries:
  assumes "\<And>d. d \<in> set (cs_deliveries s) \<Longrightarrow> P d \<Longrightarrow> del_evolves d (f d)"
  shows "store_touch s (s\<lparr>cs_deliveries := update_rows P f (cs_deliveries s)\<rparr>)"
  using assms by (simp add: store_touch_def list.rel_refl update_rows_all2)

lemma touch_requests:
  assumes "\<And>r. r \<in> set (cs_requests s) \<Longrightarrow> P r \<Longrightarrow> req_evolves r (f r)"
  shows "store_touch s (s\<lparr>cs_requests := update_rows P f (cs_requests s)\<rparr>)"
  using assms by (simp add: store_touch_def list.rel_refl update_rows_all2)

lemma touch_scopes:
  assumes "\<And>c. c \<in> set (cs_scopes s) \<Longrightarrow> P c \<Longrightarrow> scope_evolves c (f c)"
  shows "store_touch s (s\<lparr>cs_scopes := update_rows P f (cs_scopes s)\<rparr>)"
  using assms by (simp add: store_touch_def list.rel_refl update_rows_all2)

text \<open>Claims: the only way into ownership is out of the queue.\<close>

definition unclaimed :: "delivery list \<Rightarrow> delivery list \<Rightarrow> bool" where
  "unclaimed ds ds' \<longleftrightarrow>
     list_all2 (\<lambda>d d'. del_recipient d' = del_recipient d \<and>
       (del_state d' \<in> set owner_states \<longrightarrow> del_state d \<in> set owner_states)) ds ds'"

lemma unclaimed_refl [simp]: "unclaimed ds ds"
  by (simp add: unclaimed_def list.rel_refl)

lemma unclaimed_trans: "unclaimed a b \<Longrightarrow> unclaimed b c \<Longrightarrow> unclaimed a c"
  unfolding unclaimed_def
proof (induction a b arbitrary: c rule: list_all2_induct)
  case (Cons x xs y ys)
  then show ?case by (cases c) auto
qed simp

lemma unclaimed_update:
  assumes "\<And>d. d \<in> set ds \<Longrightarrow> P d \<Longrightarrow> del_recipient (f d) = del_recipient d \<and>
    (del_state (f d) \<in> set owner_states \<longrightarrow> del_state d \<in> set owner_states)"
  shows "unclaimed ds (update_rows P f ds)"
  unfolding unclaimed_def using assms by (intro update_rows_all2) auto

lemma subseq_distinct: "subseq xs ys \<Longrightarrow> distinct ys \<Longrightarrow> distinct xs"
  by (induction rule: list_emb.induct) (auto dest: list_emb_set)

lemma unclaimed_one_owner:
  assumes "unclaimed ds ds'" "one_delivery_owner ds"
  shows "one_delivery_owner ds'"
proof -
  have "subseq (map del_recipient (filter (\<lambda>d. del_state d \<in> set owner_states) ds'))
      (map del_recipient (filter (\<lambda>d. del_state d \<in> set owner_states) ds))"
    using assms(1) unfolding unclaimed_def by (induction rule: list_all2_induct) auto
  then show ?thesis using assms(2) unfolding one_delivery_owner_def by (rule subseq_distinct)
qed

section \<open>The invariant\<close>

definition ids_inv :: "collab_store \<Rightarrow> bool" where
  "ids_inv s \<longleftrightarrow>
     distinct (map scope_id (cs_scopes s)) \<and> distinct (map req_id (cs_requests s)) \<and>
     distinct (map msg_id (cs_messages s)) \<and> distinct (map del_id (cs_deliveries s))"

text \<open>Deliveries are numbered in order; every message has exactly one delivery.\<close>

definition sequence_inv :: "collab_store \<Rightarrow> bool" where
  "sequence_inv s \<longleftrightarrow>
     sorted_wrt (<) (map del_sequence (cs_deliveries s)) \<and>
     (\<forall>d \<in> set (cs_deliveries s). del_sequence d < cs_next_sequence s) \<and>
     map (\<lambda>d. (del_message_id d, del_request_id d)) (cs_deliveries s) =
       map (\<lambda>m. (msg_id m, msg_request_id m)) (cs_messages s)"

definition capacity_inv :: "collab_store \<Rightarrow> bool" where
  "capacity_inv s \<longleftrightarrow> (\<forall>r. unresolved_count r (cs_deliveries s) \<le> cs_max_pending s)"

definition is_reply :: "collab_message \<Rightarrow> bool" where
  "is_reply m \<longleftrightarrow> msg_kind m = REPLY"

definition thread_inv :: "collab_store \<Rightarrow> bool" where
  "thread_inv s \<longleftrightarrow>
     (\<forall>m \<in> set (cs_messages s). msg_request_id m \<in> req_id ` set (cs_requests s)) \<and>
     (\<forall>rid. map msg_sequence (messages_of rid s) = [1..<Suc (length (messages_of rid s))] \<and>
        length (filter (\<lambda>m. \<not> is_reply m) (messages_of rid s)) \<le> MAX_MESSAGES - 1 \<and>
        length (filter is_reply (messages_of rid s)) \<le> 1)"

definition reply_inv :: "collab_store \<Rightarrow> bool" where
  "reply_inv s \<longleftrightarrow>
     (\<forall>r \<in> set (cs_requests s). req_state r \<noteq> REPLIED \<longrightarrow> filter is_reply (messages_of (req_id r) s) = [])"

definition tables_inv :: "collab_store \<Rightarrow> bool" where
  "tables_inv s \<longleftrightarrow> ids_inv s \<and> sequence_inv s \<and> capacity_inv s \<and> thread_inv s"

definition collab_inv :: "collab_store \<Rightarrow> bool" where
  "collab_inv s \<longleftrightarrow> tables_inv s \<and> reply_inv s \<and> one_delivery_owner (cs_deliveries s)"

lemma all2_map_eq: "list_all2 R xs ys \<Longrightarrow> (\<And>x y. R x y \<Longrightarrow> f y = f x) \<Longrightarrow> map f ys = map f xs"
  by (induction rule: list_all2_induct) auto

lemma touch_ids:
  assumes "store_touch s s'"
  shows "map scope_id (cs_scopes s') = map scope_id (cs_scopes s)"
    and "map req_id (cs_requests s') = map req_id (cs_requests s)"
    and "map del_id (cs_deliveries s') = map del_id (cs_deliveries s)"
    and "map del_sequence (cs_deliveries s') = map del_sequence (cs_deliveries s)"
    and "map (\<lambda>d. (del_message_id d, del_request_id d)) (cs_deliveries s') =
      map (\<lambda>d. (del_message_id d, del_request_id d)) (cs_deliveries s)"
    and "cs_messages s' = cs_messages s"
  using assms unfolding store_touch_def
  by (auto intro!: all2_map_eq simp: scope_evolves_def req_evolves_def del_evolves_def)

lemma touch_messages_of: "store_touch s s' \<Longrightarrow> messages_of rid s' = messages_of rid s"
  by (simp add: messages_of_def store_touch_def)

lemma touch_unresolved:
  assumes "list_all2 del_evolves ds ds'"
  shows "unresolved_count r ds' \<le> unresolved_count r ds"
  using assms unfolding unresolved_count_def
proof (induction rule: list_all2_induct)
  case (Cons d ds d' ds')
  then show ?case
    using unresolved_evolves [of d d'] by (auto simp: del_evolves_def)
qed simp

lemma touch_request:
  assumes "store_touch s s'" "r' \<in> set (cs_requests s')"
  obtains r where "r \<in> set (cs_requests s)" "req_evolves r r'"
  using assms unfolding store_touch_def list_all2_conv_all_nth in_set_conv_nth by fastforce

lemma touch_tables:
  assumes "tables_inv s" "store_touch s s'"
  shows "tables_inv s'"
proof -
  note ids = touch_ids [OF assms(2)] and msgs = touch_messages_of [OF assms(2)]
  have inv: "ids_inv s" "sequence_inv s" "capacity_inv s" "thread_inv s"
    using assms(1) by (auto simp: tables_inv_def)
  have t: "list_all2 del_evolves (cs_deliveries s) (cs_deliveries s')"
    "cs_next_sequence s' = cs_next_sequence s" "cs_max_pending s' = cs_max_pending s"
    using assms(2) by (auto simp: store_touch_def)
  have dseq: "del_sequence ` set (cs_deliveries s') = del_sequence ` set (cs_deliveries s)"
    and rids: "req_id ` set (cs_requests s') = req_id ` set (cs_requests s)"
    using ids by (metis set_map)+
  have "ids_inv s'" using inv(1) ids by (simp add: ids_inv_def)
  moreover have "sequence_inv s'"
    using inv(2) ids dseq t(2) unfolding sequence_inv_def by (metis (no_types, lifting) imageE image_eqI)
  moreover have "capacity_inv s'"
    using inv(3) touch_unresolved [OF t(1)] t(3) unfolding capacity_inv_def by (metis order_trans)
  moreover have "thread_inv s'"
    using inv(4) ids(6) msgs rids by (simp add: thread_inv_def)
  ultimately show ?thesis by (simp add: tables_inv_def)
qed

lemma touch_inv:
  assumes "collab_inv s" "store_touch s s'" "one_delivery_owner (cs_deliveries s')"
  shows "collab_inv s'"
proof -
  have inv: "tables_inv s" "reply_inv s" using assms(1) by (auto simp: collab_inv_def)
  have "reply_inv s'"
    unfolding reply_inv_def
  proof (intro ballI impI)
    fix r' assume r': "r' \<in> set (cs_requests s')" "req_state r' \<noteq> REPLIED"
    then obtain r where r: "r \<in> set (cs_requests s)" "req_evolves r r'"
      using touch_request [OF assms(2)] by blast
    then have "req_state r \<noteq> REPLIED"
      using r'(2) by (auto simp: req_evolves_def dest: request_final)
    with r inv(2) show "filter is_reply (messages_of (req_id r') s') = []"
      by (simp add: reply_inv_def touch_messages_of [OF assms(2)] req_evolves_def)
  qed
  then show ?thesis using touch_tables [OF inv(1) assms(2)] assms(3) by (simp add: collab_inv_def)
qed

lemma touch_inv_unclaimed:
  "collab_inv s \<Longrightarrow> store_touch s s' \<Longrightarrow> unclaimed (cs_deliveries s) (cs_deliveries s') \<Longrightarrow> collab_inv s'"
  by (rule touch_inv) (auto simp: collab_inv_def intro: unclaimed_one_owner)

section \<open>Rows by id\<close>

lemma distinct_map_unique:
  "distinct (map f xs) \<Longrightarrow> x \<in> set xs \<Longrightarrow> y \<in> set xs \<Longrightarrow> f x = f y \<Longrightarrow> x = y"
  by (auto simp: distinct_map inj_on_def)

lemma and_then_Inr: "and_then x f = Inr y \<longleftrightarrow> (\<exists>a. x = Inr a \<and> f a = Inr y)"
  by (auto simp: and_then_def split: sum.split)

lemma if_Inl_Inr: "(if c then Inl e else x) = Inr y \<longleftrightarrow> \<not> c \<and> x = Inr y"
  by auto

lemma find_SomeD: "find P xs = Some x \<Longrightarrow> x \<in> set xs \<and> P x"
  by (induction xs) (auto split: if_splits)

lemma read_scope_row: "read_scope sid s = Inr c \<Longrightarrow> c \<in> set (cs_scopes s) \<and> scope_id c = sid"
  by (simp add: read_scope_def and_then_Inr split: option.split_asm) (drule find_SomeD, simp)

lemma read_request_row:
  "read_request rid actor s = Inr r \<Longrightarrow>
   r \<in> set (cs_requests s) \<and> req_id r = rid \<and> (actor = req_source r \<or> actor = req_target r)"
  by (simp add: read_request_def and_then_Inr if_Inl_Inr split: option.split_asm)
     (elim conjE, drule find_SomeD, auto)

lemma read_delivery_row:
  "read_delivery did recipient s = Inr d \<Longrightarrow>
   d \<in> set (cs_deliveries s) \<and> del_id d = did \<and> del_recipient d = recipient"
  by (simp add: read_delivery_def if_Inl_Inr split: option.split_asm)
     (drule find_SomeD, auto)

lemma request_unique:
  "ids_inv s \<Longrightarrow> r \<in> set (cs_requests s) \<Longrightarrow> r' \<in> set (cs_requests s) \<Longrightarrow> req_id r = req_id r' \<Longrightarrow> r = r'"
  by (rule distinct_map_unique [of req_id "cs_requests s"]) (auto simp: ids_inv_def)

lemma delivery_unique:
  "ids_inv s \<Longrightarrow> d \<in> set (cs_deliveries s) \<Longrightarrow> d' \<in> set (cs_deliveries s) \<Longrightarrow> del_id d = del_id d' \<Longrightarrow> d = d'"
  by (rule distinct_map_unique [of del_id "cs_deliveries s"]) (auto simp: ids_inv_def)

lemma scope_unique:
  "ids_inv s \<Longrightarrow> c \<in> set (cs_scopes s) \<Longrightarrow> c' \<in> set (cs_scopes s) \<Longrightarrow> scope_id c = scope_id c' \<Longrightarrow> c = c'"
  by (rule distinct_map_unique [of scope_id "cs_scopes s"]) (auto simp: ids_inv_def)

section \<open>A successful transaction\<close>

lemma transaction_effect:
  assumes "Q s" "\<And>x s'. f s = Inr (x, s') \<Longrightarrow> Q s'"
  shows "Q (snd (transaction f s))"
  using assms by (auto simp: transaction_def split: sum.split)

lemma checked_effect:
  assumes "Q s" "Q (snd k)"
  shows "Q (snd (checked v s k))"
  using assms by (simp add: checked_def split: sum.split)

lemma effect_if: "(c \<Longrightarrow> Q s) \<Longrightarrow> (\<not> c \<Longrightarrow> Q (snd k)) \<Longrightarrow> Q (snd (if c then (Inl e, s) else k))"
  by simp

declare check_transition.simps [simp del]

lemma check_transition_Inr:
  "check_transition (OfScope a) (OfScope b) = Inr u \<longleftrightarrow> scope_edge a b"
  "check_transition (OfDelivery d) (OfDelivery d') = Inr u \<longleftrightarrow> delivery_edge d d'"
  "check_transition (OfRequest r) (OfRequest r') = Inr u \<longleftrightarrow> r' \<in> set (request_edges r)"
  by (auto simp: scope_edge_def delivery_edge_def check_transition.simps)

section \<open>Operations that touch rows\<close>

text \<open>What an operation must do to be covered by \<open>touch_inv\<close>.\<close>

definition tidy_touch :: "collab_store \<Rightarrow> collab_store \<Rightarrow> bool" where
  "tidy_touch s s' \<longleftrightarrow> store_touch s s' \<and> one_delivery_owner (cs_deliveries s')"

lemma tidy_refl: "collab_inv s \<Longrightarrow> tidy_touch s s"
  by (simp add: tidy_touch_def collab_inv_def)

lemma tidy_unclaimed:
  "collab_inv s \<Longrightarrow> store_touch s s' \<Longrightarrow> unclaimed (cs_deliveries s) (cs_deliveries s') \<Longrightarrow> tidy_touch s s'"
  by (auto simp: tidy_touch_def collab_inv_def intro: unclaimed_one_owner)

lemma tidy_checked: "collab_inv s \<Longrightarrow> tidy_touch s (snd k) \<Longrightarrow> tidy_touch s (snd (checked v s k))"
  by (rule checked_effect) (auto simp: tidy_refl)

lemma tidy_transaction:
  "collab_inv s \<Longrightarrow> (\<And>x s'. f s = Inr (x, s') \<Longrightarrow> tidy_touch s s') \<Longrightarrow> tidy_touch s (snd (transaction f s))"
  by (rule transaction_effect) (auto simp: tidy_refl)

lemma set_state_recipient [simp]:
  "del_recipient (set_delivery_state st reason d) = del_recipient d"
  "del_state (set_delivery_state st reason d) = st"
  by (simp_all add: set_delivery_state_def)

lemma disable_all2: "list_all2 del_evolves ds (disable_deliveries reached reason ds)"
proof -
  let ?mid = "update_rows (\<lambda>d. reached d \<and> del_state d = PENDING) (set_delivery_state CANCELLED reason) ds"
  have "list_all2 del_evolves ds ?mid"
    by (rule update_rows_all2) (auto simp: delivery_edge_def intro!: del_evolves_state)
  moreover have "list_all2 del_evolves ?mid (disable_deliveries reached reason ds)"
    unfolding disable_deliveries_def
    by (rule update_rows_all2) (auto simp: delivery_edge_def intro!: del_evolves_state)
  ultimately show ?thesis by (rule del_all2_trans)
qed

lemma disable_unclaimed: "unclaimed ds (disable_deliveries reached reason ds)"
proof -
  let ?mid = "update_rows (\<lambda>d. reached d \<and> del_state d = PENDING) (set_delivery_state CANCELLED reason) ds"
  have "unclaimed ds ?mid" by (rule unclaimed_update) (simp add: owner_states_def)
  moreover have "unclaimed ?mid (disable_deliveries reached reason ds)"
    unfolding disable_deliveries_def by (rule unclaimed_update) (simp add: owner_states_def)
  ultimately show ?thesis by (rule unclaimed_trans)
qed

lemma restrict_rows_touch:
  assumes "ids_inv s" "scope \<in> set (cs_scopes s)" "scope_edge (scope_state scope) st"
  shows "store_touch s (restrict_scope_rows scope st now s)"
    and "unclaimed (cs_deliveries s) (cs_deliveries (restrict_scope_rows scope st now s))"
proof -
  have "scope_evolves c (c\<lparr>scope_state := st, scope_version := Suc (scope_version c)\<rparr>)"
    if "c \<in> set (cs_scopes s)" "scope_id c = scope_id scope" for c
    using scope_unique [OF assms(1) that(1) assms(2) that(2)] assms(3)
    by (auto simp: scope_evolves_def)
  then have "list_all2 scope_evolves (cs_scopes s) (update_rows (\<lambda>r. scope_id r = scope_id scope)
      (\<lambda>r. r\<lparr>scope_state := st, scope_version := Suc (scope_version r)\<rparr>) (cs_scopes s))"
    by (intro update_rows_all2) auto
  moreover have "list_all2 req_evolves (cs_requests s) (update_rows (\<lambda>r. Q r \<and> req_state r = RQ_PENDING \<and> P r)
      (set_request_state RQ_CANCELLED now) (cs_requests s))" for P Q
    by (intro update_rows_all2) (auto simp: request_edge_def intro!: req_evolves_state)
  ultimately show "store_touch s (restrict_scope_rows scope st now s)"
    by (simp add: store_touch_def restrict_scope_rows_def Let_def disable_all2 list.rel_refl)
  show "unclaimed (cs_deliveries s) (cs_deliveries (restrict_scope_rows scope st now s))"
    by (simp add: restrict_scope_rows_def Let_def disable_unclaimed)
qed

lemma restrict_scope_tidy:
  assumes inv: "collab_inv s"
  shows "tidy_touch s (snd (restrict_scope sid actor st v now s))"
  unfolding restrict_scope_def
proof (intro tidy_checked [OF inv] tidy_transaction [OF inv])
  fix x s'
  have ids: "ids_inv s" using inv by (simp add: collab_inv_def tables_inv_def)
  assume "and_then (read_scope sid s) (\<lambda>scope.
          if scope_source scope \<noteq> actor then Inl (NotFoundError ''scope not found'')
          else if int (scope_version scope) \<noteq> v
          then Inl (ConflictError ''scope version changed'')
          else and_then (check_transition (OfScope (scope_state scope)) (OfScope st)) (\<lambda>_.
            let s' = restrict_scope_rows scope st now s
            in and_then (read_scope sid s') (\<lambda>r. Inr (r, s')))) = Inr (x, s')"
  then obtain scope where "read_scope sid s = Inr scope" "scope_edge (scope_state scope) st"
    "s' = restrict_scope_rows scope st now s"
    by (auto simp: and_then_Inr if_Inl_Inr check_transition_Inr Let_def)
  with restrict_rows_touch [OF ids] read_scope_row show "tidy_touch s s'"
    by (auto intro: tidy_unclaimed [OF inv])
qed

lemma control_request_tidy:
  assumes inv: "collab_inv s"
  shows "tidy_touch s (snd (control_request rid source v ro now s))"
  unfolding control_request_def
proof (intro tidy_checked [OF inv] tidy_transaction [OF inv], goal_cases)
  case (1 x s')
  let ?st = "if ro then RECEIVE_ONLY else REVOKED"
  have ids: "ids_inv s" using inv by (simp add: collab_inv_def tables_inv_def)
  let ?mid = "update_rows (\<lambda>r. req_id r = rid)
      (\<lambda>r. r\<lparr>req_continuation := ?st, req_control_version := Suc (req_control_version r),
             req_updated_at_ms := now\<rparr>) (cs_requests s)"
  let ?cancel = "update_rows (\<lambda>r. req_id r = rid)
      (\<lambda>r. r\<lparr>req_state := RQ_CANCELLED, req_version := Suc (req_version r)\<rparr>) ?mid"
  let ?ds = "disable_deliveries
        (\<lambda>d. del_request_id d = rid \<and> (ro \<longrightarrow> del_recipient d = source)) ''assignment_disabled''
        (cs_deliveries s)"
  from 1 obtain r where r: "read_request rid source s = Inr r" "scope_edge (req_continuation r) ?st"
    and s': "s' = s\<lparr>cs_requests :=
        (if \<not> ro \<and> req_state r \<in> {RQ_PENDING, WORKING, WAITING_INPUT} then ?cancel else ?mid),
        cs_deliveries := ?ds\<rparr>"
    unfolding and_then_Inr if_Inl_Inr Let_def check_transition_Inr by blast
  have uniq: "r' = r" if "r' \<in> set (cs_requests s)" "req_id r' = rid" for r'
    using request_unique [OF ids that(1)] read_request_row [OF r(1)] that(2) by blast
  have mid: "list_all2 req_evolves (cs_requests s) ?mid"
    using uniq r(2) by (intro update_rows_all2) (auto simp: req_evolves_def)
  have midst: "req_state r' = req_state r"
    if m: "r' \<in> set ?mid" "req_id r' = rid" for r'
  proof -
    from m(1) obtain q where q: "q \<in> set (cs_requests s)"
      "r' = (if req_id q = rid then q\<lparr>req_continuation := ?st,
         req_control_version := Suc (req_control_version q), req_updated_at_ms := now\<rparr> else q)"
      by (rule update_rowsE)
    then have "req_id q = rid" using m(2) by (cases "req_id q = rid") simp_all
    with q uniq [OF q(1)] show ?thesis by simp
  qed
  have "list_all2 req_evolves ?mid (update_rows (\<lambda>r. req_id r = rid)
      (\<lambda>r. r\<lparr>req_state := RQ_CANCELLED, req_version := Suc (req_version r)\<rparr>) ?mid)"
    if st: "req_state r \<in> {RQ_PENDING, WORKING, WAITING_INPUT}"
  proof (rule update_rows_all2)
    fix q assume q: "q \<in> set ?mid" "req_id q = rid"
    have "request_edge (req_state r) RQ_CANCELLED"
      using st by (auto simp: request_edge_def)
    then show "req_evolves q (q\<lparr>req_state := RQ_CANCELLED, req_version := Suc (req_version q)\<rparr>)"
      unfolding midst [OF q, symmetric] by (simp add: req_evolves_def r_into_rtranclp)
  qed simp
  from req_all2_trans [OF mid this] mid have "list_all2 req_evolves (cs_requests s) (cs_requests s')"
    unfolding s' by (cases ro) simp_all
  then show ?case
    by (intro tidy_unclaimed [OF inv])
       (simp_all add: store_touch_def s' disable_all2 disable_unclaimed list.rel_refl)
qed

lemma link_resumed_tidy:
  assumes inv: "collab_inv s"
  shows "tidy_touch s (snd (link_resumed_turn did recipient turn s))"
  unfolding link_resumed_turn_def
proof (intro tidy_checked [OF inv] tidy_transaction [OF inv], goal_cases)
  case (1 x s')
  then have "s' = s \<or> s' = s\<lparr>cs_deliveries := update_rows (\<lambda>r. del_id r = did)
      (\<lambda>r. r\<lparr>del_turn_id := Some turn, del_version := Suc (del_version r)\<rparr>) (cs_deliveries s)\<rparr>"
    by (auto simp: and_then_Inr if_Inl_Inr split: if_splits)
  moreover have "store_touch s (s\<lparr>cs_deliveries := update_rows (\<lambda>r. del_id r = did)
      (\<lambda>r. r\<lparr>del_turn_id := Some turn, del_version := Suc (del_version r)\<rparr>) (cs_deliveries s)\<rparr>)"
    by (rule touch_deliveries) (simp add: del_evolves_def)
  moreover have "unclaimed (cs_deliveries s) (update_rows (\<lambda>r. del_id r = did)
      (\<lambda>r. r\<lparr>del_turn_id := Some turn, del_version := Suc (del_version r)\<rparr>) (cs_deliveries s))"
    by (rule unclaimed_update) simp
  ultimately show ?case using tidy_refl [OF inv] by (auto intro: tidy_unclaimed [OF inv])
qed

lemma cancel_clarifications_touch:
  "store_touch s (cancel_pending_clarifications rid s)"
  "unclaimed (cs_deliveries s) (cs_deliveries (cancel_pending_clarifications rid s))"
  unfolding cancel_pending_clarifications_def
   apply (rule touch_deliveries, auto simp: delivery_edge_def intro!: del_evolves_state)
  apply (rule unclaimed_update, simp add: owner_states_def)
  done

lemma fail_request_tidy:
  assumes inv: "collab_inv s"
  shows "tidy_touch s (snd (fail_request rid actor v now s))"
  unfolding fail_request_def
proof (intro tidy_checked [OF inv] tidy_transaction [OF inv], goal_cases)
  case (1 x s')
  let ?c = "cancel_pending_clarifications rid s"
  have ids: "ids_inv s" using inv by (simp add: collab_inv_def tables_inv_def)
  from 1 obtain r where r: "read_request rid actor s = Inr r" "FAILED \<in> set (request_edges (req_state r))"
    and s': "s' = ?c\<lparr>cs_requests := update_rows (\<lambda>r. req_id r = rid) (set_request_state FAILED now) (cs_requests ?c)\<rparr>"
    by (auto simp: and_then_Inr if_Inl_Inr check_transition_Inr Let_def)
  have "store_touch ?c s'"
    unfolding s'
  proof (rule touch_requests)
    fix r' assume "r' \<in> set (cs_requests ?c)" "req_id r' = rid"
    then have "r' = r"
      using request_unique [OF ids] read_request_row [OF r(1)] by (simp add: cancel_pending_clarifications_def)
    then show "req_evolves r' (set_request_state FAILED now r')"
      using r(2) by (auto simp: request_edge_def intro: req_evolves_state)
  qed
  then show ?case
    using cancel_clarifications_touch [of s rid]
    by (intro tidy_unclaimed [OF inv]) (auto simp: s' intro: touch_trans)
qed

lemma has_owner_iff:
  "has_owner r ds \<longleftrightarrow> r \<in> set (map del_recipient (filter (\<lambda>d. del_state d \<in> set owner_states) ds))"
  by (auto simp: has_owner_def list_ex_iff)

text \<open>Giving one unowned recipient an owner.\<close>

lemma claim_owner:
  assumes "one_delivery_owner ds" "\<not> has_owner (del_recipient d) ds" "distinct (map del_id ds)" "d \<in> set ds"
  shows "one_delivery_owner (update_rows (\<lambda>r. del_id r = del_id d) claim_row ds)"
proof -
  have frame: "update_rows (\<lambda>r. del_id r = del_id d) claim_row ys = ys"
    if "del_id d \<notin> del_id ` set ys" for ys
    using that unfolding update_rows_def by (intro map_idI) (auto simp: image_iff)
  obtain as bs where ds: "ds = as @ d # bs" using assms(4) by (auto simp: in_set_conv_decomp)
  then have "update_rows (\<lambda>r. del_id r = del_id d) claim_row ds = as @ claim_row d # bs"
    using assms(3) frame [of as] frame [of bs] by (simp add: update_rows_def)
  moreover have "del_state (claim_row d) \<in> set owner_states"
    "del_recipient (claim_row d) = del_recipient d"
    by (simp_all add: claim_row_def owner_states_def)
  moreover have "del_state d \<notin> set owner_states"
    using assms(2,4) by (auto simp: has_owner_def list_ex_iff)
  ultimately show ?thesis
    using assms(1,2) unfolding ds has_owner_iff one_delivery_owner_def by simp
qed

lemma claim_next_tidy:
  assumes inv: "collab_inv s"
  shows "tidy_touch s (snd (claim_next recipient s))"
  unfolding claim_next_def
proof (intro tidy_checked [OF inv] tidy_transaction [OF inv], goal_cases)
  case (1 x s')
  have ids: "distinct (map del_id (cs_deliveries s))" and own: "one_delivery_owner (cs_deliveries s)"
    using inv by (auto simp: collab_inv_def tables_inv_def ids_inv_def)
  show ?case
  proof (cases "has_owner recipient (cs_deliveries s) \<or>
      find (\<lambda>d. del_recipient d = recipient \<and> del_state d = PENDING) (cs_deliveries s) = None")
    case True
    with 1 show ?thesis using tidy_refl [OF inv] by (auto split: if_splits)
  next
    case False
    then obtain d where d: "find (\<lambda>d. del_recipient d = recipient \<and> del_state d = PENDING) (cs_deliveries s) = Some d"
      and free: "\<not> has_owner recipient (cs_deliveries s)" by auto
    note row = find_SomeD [OF d]
    have s': "s' = s\<lparr>cs_deliveries := update_rows (\<lambda>r. del_id r = del_id d) claim_row (cs_deliveries s)\<rparr>"
      using 1 d free by (simp add: Let_def)
    have "store_touch s s'" unfolding s'
    proof (rule touch_deliveries)
      fix r assume "r \<in> set (cs_deliveries s)" "del_id r = del_id d"
      then have "r = d" using distinct_map_unique [OF ids] row by blast
      then show "del_evolves r (claim_row r)" using row del_evolves_claim by blast
    qed
    moreover have "one_delivery_owner (cs_deliveries s')"
      unfolding s' using claim_owner [OF own _ ids] row free by simp
    ultimately show ?thesis by (simp add: tidy_touch_def)
  qed
qed

lemma start_checks_touch:
  assumes "ids_inv s" "request \<in> set (cs_requests s)" "start_checks d request recipient now s = Inr s1"
  shows "store_touch s s1 \<and> cs_deliveries s1 = cs_deliveries s"
proof -
  have "s1 = s \<or> req_state request = RQ_PENDING \<and>
      s1 = s\<lparr>cs_requests := update_rows (\<lambda>r. req_id r = req_id request)
        (set_request_state WORKING now) (cs_requests s)\<rparr>"
    using assms(3)
    by (auto simp: start_checks_def and_then_Inr if_Inl_Inr split: option.splits if_splits)
  moreover have "store_touch s (s\<lparr>cs_requests := update_rows (\<lambda>r. req_id r = req_id request)
        (set_request_state WORKING now) (cs_requests s)\<rparr>)" if "req_state request = RQ_PENDING"
  proof (rule touch_requests)
    fix r assume "r \<in> set (cs_requests s)" "req_id r = req_id request"
    then have "r = request" using request_unique [OF assms(1)] assms(2) by blast
    then show "req_evolves r (set_request_state WORKING now r)"
      using that by (auto simp: request_edge_def intro: req_evolves_state)
  qed
  ultimately show ?thesis by auto
qed

text \<open>What a successful transition does: the version matched, the edge exists, a start passed its
  checks, and the row was moved.\<close>

lemma transition_Inr:
  assumes "transition_delivery did recipient st v turn reason now s = (Inr r, s')"
  obtains d request s1 where "read_delivery did recipient s = Inr d" "int (del_version d) = v"
    "delivery_edge (del_state d) st" "read_request (del_request_id d) recipient s = Inr request"
    "(if st = RUNNING then start_checks d request recipient now s else Inr s) = Inr s1"
    "s' = s1\<lparr>cs_deliveries := update_rows (\<lambda>r. del_id r = did) (move_row st turn reason) (cs_deliveries s1)\<rparr>"
    "one_delivery_owner (cs_deliveries s')" "\<not> cs_closed s"
    "find (\<lambda>r. del_id r = did) (cs_deliveries s') = Some r"
proof -
  from assms have "\<exists>d request s1. read_delivery did recipient s = Inr d \<and> int (del_version d) = v \<and>
    delivery_edge (del_state d) st \<and> read_request (del_request_id d) recipient s = Inr request \<and>
    (if st = RUNNING then start_checks d request recipient now s else Inr s) = Inr s1 \<and>
    s' = s1\<lparr>cs_deliveries := update_rows (\<lambda>r. del_id r = did) (move_row st turn reason) (cs_deliveries s1)\<rparr> \<and>
    one_delivery_owner (cs_deliveries s') \<and> \<not> cs_closed s \<and>
    find (\<lambda>r. del_id r = did) (cs_deliveries s') = Some r"
    unfolding transition_delivery_def checked_def transaction_def
    by (simp add: and_then_Inr if_Inl_Inr check_transition_Inr Let_def split: sum.split_asm option.split_asm if_split_asm)
       (fastforce simp: and_then_Inr if_Inl_Inr check_transition_Inr Let_def split: option.split_asm if_split_asm)+
  then show thesis using that by blast
qed

lemma transition_delivery_tidy:
  assumes inv: "collab_inv s"
  shows "tidy_touch s (snd (transition_delivery did recipient st v turn reason now s))"
proof (cases "fst (transition_delivery did recipient st v turn reason now s)")
  case (Inl e)
  then have "snd (transition_delivery did recipient st v turn reason now s) = s"
    by (auto simp: transition_delivery_def checked_def transaction_def split: sum.splits if_splits)
  then show ?thesis using tidy_refl [OF inv] by simp
next
  case (Inr r)
  let ?s' = "snd (transition_delivery did recipient st v turn reason now s)"
  have ids: "ids_inv s" using inv by (simp add: collab_inv_def tables_inv_def)
  from Inr have "transition_delivery did recipient st v turn reason now s = (Inr r, ?s')"
    by (simp add: prod_eq_iff)
  then obtain d request s1 where d: "read_delivery did recipient s = Inr d" "delivery_edge (del_state d) st"
    and q: "read_request (del_request_id d) recipient s = Inr request"
      "(if st = RUNNING then start_checks d request recipient now s else Inr s) = Inr s1"
    and s': "?s' = s1\<lparr>cs_deliveries := update_rows (\<lambda>r. del_id r = did) (move_row st turn reason) (cs_deliveries s1)\<rparr>"
      "one_delivery_owner (cs_deliveries ?s')"
    by (rule transition_Inr)
  have s1: "store_touch s s1 \<and> cs_deliveries s1 = cs_deliveries s"
    using q start_checks_touch [OF ids] read_request_row [OF q(1)] by (cases "st = RUNNING") auto
  have "store_touch s1 ?s'" unfolding s'(1)
  proof (rule touch_deliveries)
    fix r assume "r \<in> set (cs_deliveries s1)" "del_id r = did"
    then have "r = d" using delivery_unique [OF ids] read_delivery_row [OF d(1)] s1 by simp
    then show "del_evolves r (move_row st turn reason r)" using d(2) del_evolves_move by blast
  qed
  with s1 s'(2) show ?thesis by (auto simp: tidy_touch_def intro: touch_trans)
qed

lemma distinct_rows_pick:
  assumes "distinct (map f xs)" "x \<in> set xs" "f x \<in> f ` set (take n (filter P xs))"
  shows "P x"
proof -
  from assms(3) obtain y where y: "y \<in> set (take n (filter P xs))" "f x = f y" by blast
  then have "y \<in> set xs" "P y" using set_take_subset [of n "filter P xs"] by auto
  with distinct_map_unique [OF assms(1,2), of y] y(2) show ?thesis by simp
qed

lemma recover_uncertain_tidy:
  assumes inv: "collab_inv s"
  shows "tidy_touch s (snd (recover_uncertain limit s))"
  unfolding recover_uncertain_def
proof (intro tidy_checked [OF inv] tidy_transaction [OF inv], goal_cases)
  case (1 x s')
  let ?P = "\<lambda>d. del_id d \<in> del_id ` set (take (nat limit) (filter (in_states [CLAIMED, RUNNING]) (cs_deliveries s)))"
  have ids: "distinct (map del_id (cs_deliveries s))"
    using inv by (simp add: collab_inv_def tables_inv_def ids_inv_def)
  have s': "s' = s\<lparr>cs_deliveries := update_rows ?P (set_delivery_state REVIEW ''restart'') (cs_deliveries s)\<rparr>"
    using 1 by (simp add: Let_def)
  have st: "del_state d \<in> {CLAIMED, RUNNING}" if "d \<in> set (cs_deliveries s)" "?P d" for d
    using distinct_rows_pick [OF ids that] by (simp add: in_states_def)
  have "store_touch s s'" unfolding s'
    by (rule touch_deliveries) (use st in \<open>fastforce simp: delivery_edge_def intro!: del_evolves_state\<close>)
  moreover have "unclaimed (cs_deliveries s) (cs_deliveries s')" unfolding s'
    by simp (rule unclaimed_update, use st in \<open>fastforce simp: owner_states_def\<close>)
  ultimately show ?case by (rule tidy_unclaimed [OF inv])
qed

lemma reconcile_tidy:
  assumes inv: "collab_inv s"
  shows "tidy_touch s (snd (reconcile_stopped_requests limit now s))"
  unfolding reconcile_stopped_requests_def
proof (intro tidy_checked [OF inv] tidy_transaction [OF inv], goal_cases)
  case (1 x s')
  let ?P = "\<lambda>r. req_id r \<in> req_id ` set (take (nat limit) (filter (stopped_request s) (cs_requests s)))"
  have ids: "distinct (map req_id (cs_requests s))"
    using inv by (simp add: collab_inv_def tables_inv_def ids_inv_def)
  have s': "s' = s\<lparr>cs_requests := update_rows ?P (set_request_state RQ_CANCELLED now) (cs_requests s)\<rparr>"
    using 1 by (simp add: Let_def)
  have st: "req_state r = RQ_PENDING" if "r \<in> set (cs_requests s)" "?P r" for r
    using distinct_rows_pick [OF ids that] by (simp add: stopped_request_def)
  have "store_touch s s'" unfolding s'
    by (rule touch_requests) (use st in \<open>fastforce simp: request_edge_def intro!: req_evolves_state\<close>)
  then show ?case by (intro tidy_unclaimed [OF inv]) (simp_all add: s')
qed

text \<open>The loop of \<open>settle_interrupted\<close>: rows it has not reached yet are still in review.\<close>

lemma settle_one_touch:
  assumes "ids_inv s" "d \<in> set (cs_deliveries s)" "del_state d = REVIEW"
  shows "store_touch s (settle_one now d s)"
    and "unclaimed (cs_deliveries s) (cs_deliveries (settle_one now d s))"
    and "cs_deliveries (settle_one now d s) =
      update_rows (\<lambda>r. del_id r = del_id d) (set_delivery_state SETTLED ''interrupted'') (cs_deliveries s)"
proof -
  let ?s1 = "s\<lparr>cs_deliveries := update_rows (\<lambda>r. del_id r = del_id d)
    (set_delivery_state SETTLED ''interrupted'') (cs_deliveries s)\<rparr>"
  let ?fail = "\<lambda>q. ?s1\<lparr>cs_requests := update_rows (\<lambda>r. req_id r = req_id q)
    (set_request_state FAILED now) (cs_requests ?s1)\<rparr>"
  have cases: "settle_one now d s = ?s1 \<or> (\<exists>q. q \<in> set (cs_requests s) \<and>
      req_state q \<in> {RQ_PENDING, WORKING} \<and> settle_one now d s = ?fail q)"
    by (auto simp: settle_one_def Let_def split: option.splits dest!: find_SomeD)
  have t1: "store_touch s ?s1"
  proof (rule touch_deliveries)
    fix r assume "r \<in> set (cs_deliveries s)" "del_id r = del_id d"
    then have "r = d" using delivery_unique [OF assms(1)] assms(2) by blast
    then show "del_evolves r (set_delivery_state SETTLED ''interrupted'' r)"
      using assms(3) by (simp add: delivery_edge_def del_evolves_state)
  qed
  have t2: "store_touch ?s1 (?fail q)" if q: "q \<in> set (cs_requests s)" "req_state q \<in> {RQ_PENDING, WORKING}" for q
  proof (rule touch_requests)
    fix r assume "r \<in> set (cs_requests ?s1)" "req_id r = req_id q"
    then have "r = q" using request_unique [OF assms(1)] q(1) by simp
    then show "req_evolves r (set_request_state FAILED now r)"
      using q(2) by (auto simp: request_edge_def intro: req_evolves_state)
  qed
  show "store_touch s (settle_one now d s)"
    using cases
  proof (elim disjE exE conjE)
    fix q assume "q \<in> set (cs_requests s)" "req_state q \<in> {RQ_PENDING, WORKING}" "settle_one now d s = ?fail q"
    then show ?thesis using touch_trans [OF t1 t2] by simp
  qed (simp add: t1)
  show *: "cs_deliveries (settle_one now d s) =
      update_rows (\<lambda>r. del_id r = del_id d) (set_delivery_state SETTLED ''interrupted'') (cs_deliveries s)"
    using cases by auto
  show "unclaimed (cs_deliveries s) (cs_deliveries (settle_one now d s))"
    unfolding * by (rule unclaimed_update) (simp add: owner_states_def)
qed

lemma touch_ids_inv: "ids_inv s \<Longrightarrow> store_touch s s' \<Longrightarrow> ids_inv s'"
  using touch_ids [of s s'] by (simp add: ids_inv_def)

lemma settle_fold:
  assumes "ids_inv s" "distinct (map del_id rows)"
    "\<And>d. d \<in> set rows \<Longrightarrow> d \<in> set (cs_deliveries s) \<and> del_state d = REVIEW"
  shows "store_touch s (fold (settle_one now) rows s) \<and>
    unclaimed (cs_deliveries s) (cs_deliveries (fold (settle_one now) rows s))"
  using assms
proof (induction rows arbitrary: s)
  case (Cons d rows)
  have d: "d \<in> set (cs_deliveries s)" "del_state d = REVIEW" using Cons.prems(3) by auto
  note step = settle_one_touch [OF Cons.prems(1) d, of now]
  have "store_touch (settle_one now d s) (fold (settle_one now) rows (settle_one now d s)) \<and>
    unclaimed (cs_deliveries (settle_one now d s))
      (cs_deliveries (fold (settle_one now) rows (settle_one now d s)))"
  proof (rule Cons.IH)
    show "ids_inv (settle_one now d s)" using touch_ids_inv [OF Cons.prems(1) step(1)] .
    show "distinct (map del_id rows)" using Cons.prems(2) by simp
    fix e assume e: "e \<in> set rows"
    then have "e \<in> set (cs_deliveries s) \<and> del_state e = REVIEW" using Cons.prems(3) by simp
    moreover have "del_id e \<noteq> del_id d" using e Cons.prems(2) by (auto simp: image_iff)
    ultimately show "e \<in> set (cs_deliveries (settle_one now d s)) \<and> del_state e = REVIEW"
      unfolding step(3) update_rows_def by force
  qed
  with step show ?case by (auto intro: touch_trans unclaimed_trans)
qed simp

lemma settle_interrupted_tidy:
  assumes inv: "collab_inv s"
  shows "tidy_touch s (snd (settle_interrupted limit now s))"
  unfolding settle_interrupted_def
proof (intro tidy_checked [OF inv] tidy_transaction [OF inv], goal_cases)
  case (1 x s')
  let ?rows = "take (nat limit) (filter (in_states [REVIEW]) (cs_deliveries s))"
  have ids: "ids_inv s" using inv by (simp add: collab_inv_def tables_inv_def)
  have "distinct (map del_id ?rows)"
    using ids by (simp add: ids_inv_def take_map [symmetric] distinct_map_filter)
  moreover have "d \<in> set (cs_deliveries s) \<and> del_state d = REVIEW" if "d \<in> set ?rows" for d
    using in_set_takeD [OF that] by (simp add: in_states_def)
  ultimately have "store_touch s (fold (settle_one now) ?rows s) \<and>
    unclaimed (cs_deliveries s) (cs_deliveries (fold (settle_one now) ?rows s))"
    by (rule settle_fold [OF ids])
  moreover have "s' = fold (settle_one now) ?rows s" using 1 by (simp add: Let_def)
  ultimately show ?case using tidy_unclaimed [OF inv] by simp
qed

section \<open>Operations that append rows\<close>

definition append_ceiling :: "message_kind \<Rightarrow> nat" where
  "append_ceiling kind = (if kind = REPLY then MAX_MESSAGES else MAX_MESSAGES - 1)"

lemma append_Inr:
  assumes "append_message request sender kind body key anchor mid did now s = Inr (m, s')"
  obtains d where
    "s' = s\<lparr>cs_messages := cs_messages s @ [m], cs_deliveries := cs_deliveries s @ [d],
       cs_next_sequence := Suc (cs_next_sequence s)\<rparr>"
    "msg_id m = mid" "msg_request_id m = req_id request" "msg_kind m = kind" "msg_sender m = sender"
    "msg_body m = body" "msg_operation_key m = key" "msg_anchor_turn_id m = anchor"
    "msg_sequence m = Suc (length (messages_of (req_id request) s))"
    "length (messages_of (req_id request) s) < append_ceiling kind"
    "del_id d = did" "del_message_id d = mid" "del_request_id d = req_id request"
    "del_sequence d = cs_next_sequence s"
    "del_recipient d = (if sender = req_source request then req_target request else req_source request)"
    "del_state d \<in> {PENDING, SETTLED, CANCELLED}"
    "del_state d = PENDING \<longrightarrow> unresolved_count (del_recipient d) (cs_deliveries s) < cs_max_pending s"
proof -
  let ?rcp = "if sender = req_source request then req_target request else req_source request"
  from assms obtain scope where scope: "read_scope (req_scope_id request) s = Inr scope"
    and low: "length (messages_of (req_id request) s) < append_ceiling kind"
    by (auto simp: append_message_def Let_def and_then_Inr if_Inl_Inr append_ceiling_def not_le)
  let ?ex = "append_executable scope request ?rcp kind"
  define d where "d = \<lparr>del_id = did, del_message_id = mid, del_request_id = req_id request,
     del_recipient = ?rcp, del_scope_id = req_scope_id request,
     del_state = (if ?ex then PENDING else if kind = PROGRESS then SETTLED else CANCELLED),
     del_version = 0, del_turn_id = None,
     del_reason = (if ?ex then None else if kind = PROGRESS then Some ''notification''
       else Some ''scope_disabled''), del_sequence = cs_next_sequence s\<rparr>"
  have room: "\<not> (?ex \<and> cs_max_pending s \<le> unresolved_count ?rcp (cs_deliveries s))"
    and eqs: "s' = s\<lparr>cs_messages := cs_messages s @ [m], cs_deliveries := cs_deliveries s @ [d],
       cs_next_sequence := Suc (cs_next_sequence s)\<rparr>"
      "m = \<lparr>msg_id = mid, msg_request_id = req_id request,
         msg_sequence = Suc (length (messages_of (req_id request) s)), msg_sender = sender,
         msg_kind = kind, msg_body = body, msg_operation_key = key, msg_anchor_turn_id = anchor,
         msg_created_at_ms = now\<rparr>"
    using assms scope
    by (auto simp: append_message_def Let_def and_then_Inr if_Inl_Inr d_def simp del: if_image_distrib)
  show thesis
    by (rule that [of d, OF eqs(1)]) (use eqs(2) room low in \<open>auto simp: d_def\<close>)
qed

lemma messages_of_snoc [simp]:
  "messages_of rid (s\<lparr>cs_messages := cs_messages s @ [m], cs_deliveries := ds, cs_next_sequence := n\<rparr>) =
   messages_of rid s @ (if msg_request_id m = rid then [m] else [])"
  by (simp add: messages_of_def)

lemma messages_of_other [simp]:
  "messages_of rid (s\<lparr>cs_requests := rs\<rparr>) = messages_of rid s"
  "messages_of rid (s\<lparr>cs_scopes := cs\<rparr>) = messages_of rid s"
  by (simp_all add: messages_of_def)

lemma append_tables:
  assumes inv: "tables_inv s"
    and app: "append_message request sender kind body key anchor mid did now s = Inr (m, s')"
    and fresh: "fresh_message_ids mid did s"
    and known: "req_id request \<in> req_id ` set (cs_requests s)"
    and single: "kind = REPLY \<Longrightarrow> filter is_reply (messages_of (req_id request) s) = []"
  shows "tables_inv s'"
proof -
  from app obtain d where s': "s' = s\<lparr>cs_messages := cs_messages s @ [m],
      cs_deliveries := cs_deliveries s @ [d], cs_next_sequence := Suc (cs_next_sequence s)\<rparr>"
    and m: "msg_id m = mid" "msg_request_id m = req_id request" "msg_kind m = kind"
      "msg_sequence m = Suc (length (messages_of (req_id request) s))"
    and low: "length (messages_of (req_id request) s) < append_ceiling kind"
    and d: "del_id d = did" "del_message_id d = mid" "del_request_id d = req_id request"
      "del_sequence d = cs_next_sequence s" "del_state d \<in> {PENDING, SETTLED, CANCELLED}"
      "del_state d = PENDING \<longrightarrow> unresolved_count (del_recipient d) (cs_deliveries s) < cs_max_pending s"
    by (rule append_Inr)
  have parts: "ids_inv s" "sequence_inv s" "capacity_inv s" "thread_inv s"
    using inv by (auto simp: tables_inv_def)
  have "ids_inv s'"
    using parts(1) fresh m(1) d(1) by (auto simp: s' ids_inv_def fresh_message_ids_def)
  moreover have "sequence_inv s'"
    using parts(2) m(1,2) d by (auto simp: s' sequence_inv_def sorted_wrt_append less_SucI)
  moreover have "unresolved_count r (cs_deliveries s @ [d]) \<le> cs_max_pending s" for r
    using parts(3) d(5,6)
    by (cases "del_recipient d = r \<and> del_state d = PENDING")
       (auto simp: capacity_inv_def unresolved_count_def unresolved_states_def)
  then have "capacity_inv s'" by (simp add: s' capacity_inv_def)
  moreover have "thread_inv s'"
  proof -
    have old: "map msg_sequence (messages_of rid s) = [1..<Suc (length (messages_of rid s))]"
      "length (filter (\<lambda>m. \<not> is_reply m) (messages_of rid s)) \<le> MAX_MESSAGES - 1"
      "length (filter is_reply (messages_of rid s)) \<le> 1" for rid
      using parts(4) by (auto simp: thread_inv_def)
    have more: "length (filter (\<lambda>m. \<not> is_reply m) (messages_of (req_id request) s)) < MAX_MESSAGES - 1"
      if "kind \<noteq> REPLY"
      using low that le_less_trans [OF length_filter_le] by (simp add: append_ceiling_def)
    show ?thesis
      using parts(4) old more m single known unfolding thread_inv_def s'
      by (auto simp: is_reply_def)
  qed
  ultimately show ?thesis by (simp add: tables_inv_def)
qed

lemma append_rest:
  assumes "append_message request sender kind body key anchor mid did now s = Inr (m, s')"
  shows "cs_requests s' = cs_requests s" "cs_scopes s' = cs_scopes s"
    "one_delivery_owner (cs_deliveries s') = one_delivery_owner (cs_deliveries s)"
    "messages_of rid s' = messages_of rid s @ (if rid = req_id request then [m] else [])"
    "msg_kind m = kind"
  by (rule append_Inr [OF assms]; auto simp: one_delivery_owner_def owner_states_def)+

lemma append_inv:
  assumes inv: "collab_inv s"
    and app: "append_message request sender kind body key anchor mid did now s = Inr (m, s')"
    and fresh: "fresh_message_ids mid did s"
    and known: "req_id request \<in> req_id ` set (cs_requests s)" and kind: "kind \<noteq> REPLY"
  shows "collab_inv s'"
proof -
  note rest = append_rest [OF app]
  have "tables_inv s'"
    using append_tables [OF _ app fresh known] inv kind by (simp add: collab_inv_def)
  moreover have "reply_inv s'"
    using inv rest(5) kind unfolding collab_inv_def reply_inv_def rest(1)
    by (auto simp: rest(4) is_reply_def)
  ultimately show ?thesis using inv rest(3) by (simp add: collab_inv_def)
qed

lemma begin_scope_inv:
  assumes inv: "collab_inv s" and fresh: "fresh \<notin> scope_id ` set (cs_scopes s)"
  shows "collab_inv (snd (begin_scope source work fresh s))"
  unfolding begin_scope_def
proof (intro checked_effect [of collab_inv, OF inv] transaction_effect [of collab_inv, OF inv], goal_cases)
  case (1 x s')
  let ?c = "\<lparr>scope_id = fresh, scope_source = source, scope_work_id = work, scope_state = SC_ACTIVE,
    scope_version = 0\<rparr>"
  from 1 have "s' = s \<or> s' = s\<lparr>cs_scopes := cs_scopes s @ [?c]\<rparr>"
    by (auto simp: Let_def and_then_Inr split: option.splits)
  then show ?case
    using inv fresh
    by (auto simp: collab_inv_def tables_inv_def ids_inv_def sequence_inv_def capacity_inv_def
        thread_inv_def reply_inv_def simp del: upt_Suc)
qed

text \<open>Adding a request nobody has written to yet.\<close>

lemma add_request_inv:
  assumes inv: "collab_inv s" and fresh: "req_id request \<notin> req_id ` set (cs_requests s)"
  shows "collab_inv (s\<lparr>cs_requests := cs_requests s @ [request]\<rparr>)"
proof -
  have "messages_of (req_id request) s = []"
    using inv fresh unfolding collab_inv_def tables_inv_def thread_inv_def messages_of_def filter_empty_conv
    by metis
  then show ?thesis
    using inv fresh
    by (auto simp: collab_inv_def tables_inv_def ids_inv_def sequence_inv_def capacity_inv_def
        thread_inv_def reply_inv_def simp del: upt_Suc)
qed

text \<open>The two outcomes of a successful creation.\<close>

lemma create_request_Inr:
  assumes "create_request sid source target key body anchor rid mid did now s = (Inr r, s')"
    and fresh: "rid \<notin> req_id ` set (cs_requests s)"
  obtains (repeated) "s' = s" "r \<in> set (cs_requests s)" "req_scope_id r = sid" "req_operation_key r = key"
      "req_target r = target" "req_body r = body" "req_anchor_turn_id r = anchor"
      "find (\<lambda>r. req_scope_id r = sid \<and> req_operation_key r = key) (cs_requests s) = Some r"
  | (created) m scope where "req_id r = rid" "req_state r = RQ_PENDING" "req_scope_id r = sid"
      "req_source r = source" "req_target r = target" "req_operation_key r = key" "req_body r = body"
      "req_anchor_turn_id r = anchor" "req_continuation r = SC_ACTIVE"
      "append_message r source REQUEST body key anchor mid did now (s\<lparr>cs_requests := cs_requests s @ [r]\<rparr>) = Inr (m, s')"
      "read_scope sid s = Inr scope" "scope_state scope = SC_ACTIVE" "scope_source scope = source"
      "\<not> list_ex (\<lambda>r. req_scope_id r = sid \<and> req_operation_key r = key) (cs_requests s)"
proof -
  from assms obtain scope where scope: "read_scope sid s = Inr scope" "scope_source scope = source"
    by (auto simp: create_request_def checked_def transaction_def and_then_Inr if_Inl_Inr
        split: sum.splits if_splits)
  show thesis
  proof (cases "find (\<lambda>r. req_scope_id r = sid \<and> req_operation_key r = key) (cs_requests s)")
    case (Some q)
    then have "r = q \<and> s' = s \<and> (req_target q, req_body q, req_anchor_turn_id q) = (target, body, anchor)"
      using assms scope
      by (auto simp: create_request_def checked_def transaction_def and_then_def split: sum.splits if_splits)
    with find_SomeD [OF Some] Some show thesis by (intro repeated) auto
  next
    case None
    let ?r = "\<lparr>req_id = rid, req_scope_id = sid, req_source = source, req_target = target,
      req_operation_key = key, req_body = body, req_anchor_turn_id = anchor, req_state = RQ_PENDING,
      req_version = 0, req_created_at_ms = now, req_updated_at_ms = now,
      req_continuation = SC_ACTIVE, req_control_version = 0\<rparr>"
    let ?s1 = "s\<lparr>cs_requests := cs_requests s @ [?r]\<rparr>"
    from assms scope None have act: "scope_state scope = SC_ACTIVE"
      by (auto simp: create_request_def checked_def transaction_def and_then_def Let_def
          split: sum.splits if_splits)
    from assms scope None act obtain m where "read_request rid source ?s1 = Inr r"
      "append_message r source REQUEST body key anchor mid did now ?s1 = Inr (m, s')"
      by (auto simp: create_request_def checked_def transaction_def and_then_Inr Let_def
          split: sum.splits if_splits)
    moreover from read_request_row [OF this(1)] have "r \<in> set (cs_requests s) \<or> r = ?r" "req_id r = rid"
      by auto
    with fresh have "r = ?r" by blast
    ultimately show thesis
      using scope act None by (intro created [of m scope]) (auto simp: find_None_iff list_ex_iff)
  qed
qed

lemma create_request_inv:
  assumes inv: "collab_inv s" and fresh: "rid \<notin> req_id ` set (cs_requests s)" "fresh_message_ids mid did s"
  shows "collab_inv (snd (create_request sid source target key body anchor rid mid did now s))"
proof (cases "create_request sid source target key body anchor rid mid did now s")
  case (Pair x s')
  show ?thesis
  proof (cases x)
    case (Inl e)
    then have "s' = s" using Pair
      by (auto simp: create_request_def checked_def transaction_def split: sum.splits if_splits)
    with Pair inv show ?thesis by simp
  next
    case (Inr r)
    from Pair [unfolded Inr] fresh(1) show ?thesis
    proof (cases rule: create_request_Inr)
      case repeated
      with Pair inv show ?thesis by simp
    next
      case (created m scope)
      have "collab_inv (s\<lparr>cs_requests := cs_requests s @ [r]\<rparr>)"
        by (rule add_request_inv [OF inv]) (simp add: created fresh)
      from append_inv [OF this created(10)] fresh(2) have "collab_inv s'"
        by (simp add: fresh_message_ids_def)
      with Pair show ?thesis by simp
    qed
  qed
qed

text \<open>The outcomes of a successful post: the same message again, a progress note, or a message
  that moves the request.\<close>

lemma post_message_Inr:
  assumes "post_message rid actor kind body key anchor mid did now s = (Inr m, s')"
  obtains (repeated) "s' = s" "m \<in> set (cs_messages s)" "msg_request_id m = rid" "msg_sender m = actor"
      "msg_operation_key m = key" "msg_kind m = kind" "msg_body m = body" "msg_anchor_turn_id m = anchor"
      "find (\<lambda>m. msg_request_id m = rid \<and> msg_sender m = actor \<and> msg_operation_key m = key) (cs_messages s) = Some m"
  | (progress) request s1 where "kind = PROGRESS" "read_request rid actor s = Inr request"
      "append_message request actor kind body key anchor mid did now s = Inr (m, s1)"
      "s' = s1\<lparr>cs_requests := update_rows (\<lambda>r. req_id r = rid) (\<lambda>r. r\<lparr>req_updated_at_ms := now\<rparr>) (cs_requests s1)\<rparr>"
  | (moved) request s1 where "kind \<noteq> PROGRESS" "kind \<noteq> REQUEST" "read_request rid actor s = Inr request"
      "request_edge (req_state request) (next_request_state kind)"
      "append_message request actor kind body key anchor mid did now
         (if kind \<in> {SUPPLEMENT, REPLY} then cancel_pending_clarifications rid s else s) = Inr (m, s1)"
      "s' = s1\<lparr>cs_requests := update_rows (\<lambda>r. req_id r = rid)
         (set_request_state (next_request_state kind) now) (cs_requests s1)\<rparr>"
proof -
  from assms obtain request where request: "read_request rid actor s = Inr request" and kind: "kind \<noteq> REQUEST"
    by (auto simp: post_message_def checked_def transaction_def and_then_Inr
        split: sum.splits if_split_asm)
  let ?find = "find (\<lambda>m. msg_request_id m = rid \<and> msg_sender m = actor \<and> msg_operation_key m = key) (cs_messages s)"
  show thesis
  proof (cases ?find)
    case (Some q)
    then have "m = q \<and> s' = s \<and> (msg_kind q, msg_body q, msg_anchor_turn_id q) = (kind, body, anchor)"
      using assms request
      by (auto simp: post_message_def checked_def transaction_def and_then_def split: sum.splits if_split_asm)
    with find_SomeD [OF Some] Some show thesis by (intro repeated) auto
  next
    case None
    show thesis
    proof (cases "kind = PROGRESS")
      case True
      with assms request None obtain s1 where "append_message request actor kind body key anchor mid did now s = Inr (m, s1)"
        "s' = s1\<lparr>cs_requests := update_rows (\<lambda>r. req_id r = rid) (\<lambda>r. r\<lparr>req_updated_at_ms := now\<rparr>) (cs_requests s1)\<rparr>"
        by (auto simp: post_message_def checked_def transaction_def and_then_Inr
            split: sum.splits if_split_asm)
      with True request show thesis by (rule progress)
    next
      case False
      with assms request None kind obtain s1 where
        "next_request_state kind \<in> set (request_edges (req_state request))"
        "append_message request actor kind body key anchor mid did now
           (if kind \<in> {SUPPLEMENT, REPLY} then cancel_pending_clarifications rid s else s) = Inr (m, s1)"
        "s' = s1\<lparr>cs_requests := update_rows (\<lambda>r. req_id r = rid)
           (set_request_state (next_request_state kind) now) (cs_requests s1)\<rparr>"
        by (simp add: post_message_def checked_def transaction_def and_then_Inr check_transition_Inr Let_def
            split: sum.split_asm if_split_asm) auto
      with False kind request show thesis
        by (intro moved) (auto simp: request_edge_def)
    qed
  qed
qed

lemma cancel_clarifications_frame [simp]:
  "cs_requests (cancel_pending_clarifications rid s) = cs_requests s"
  "cs_scopes (cancel_pending_clarifications rid s) = cs_scopes s"
  "cs_messages (cancel_pending_clarifications rid s) = cs_messages s"
  "cs_max_pending (cancel_pending_clarifications rid s) = cs_max_pending s"
  "messages_of q (cancel_pending_clarifications rid s) = messages_of q s"
  by (simp_all add: cancel_pending_clarifications_def messages_of_def)

lemma cancel_clarifications_inv:
  assumes "collab_inv s"
  shows "collab_inv (cancel_pending_clarifications rid s)"
    "fresh_message_ids mid did (cancel_pending_clarifications rid s) = fresh_message_ids mid did s"
proof -
  show "collab_inv (cancel_pending_clarifications rid s)"
    by (rule touch_inv_unclaimed [OF assms cancel_clarifications_touch])
  have "del_id ` set (cs_deliveries (cancel_pending_clarifications rid s)) = del_id ` set (cs_deliveries s)"
    using touch_ids(3) [OF cancel_clarifications_touch(1), of rid s] by (metis set_map)
  then show "fresh_message_ids mid did (cancel_pending_clarifications rid s) = fresh_message_ids mid did s"
    by (simp add: fresh_message_ids_def)
qed

lemma post_moved_inv:
  assumes inv: "collab_inv s" and fresh: "fresh_message_ids mid did s"
    and request: "request \<in> set (cs_requests s)" "req_id request = rid"
    and kind: "kind \<noteq> REQUEST" "kind \<noteq> PROGRESS" "request_edge (req_state request) (next_request_state kind)"
    and app: "append_message request actor kind body key anchor mid did now s = Inr (m, s1)"
    and s': "s' = s1\<lparr>cs_requests := update_rows (\<lambda>r. req_id r = rid)
         (set_request_state (next_request_state kind) now) (cs_requests s1)\<rparr>"
  shows "collab_inv s'"
proof -
  note rest = append_rest [OF app]
  have ids: "ids_inv s" using inv by (simp add: collab_inv_def tables_inv_def)
  have uniq: "r = request" if "r \<in> set (cs_requests s1)" "req_id r = rid" for r
    using request_unique [OF ids, of r request] that request by (simp add: rest(1))
  have open': "req_state request \<noteq> REPLIED" using kind(3) by (auto simp: request_edge_def)
  then have none: "filter is_reply (messages_of rid s) = []"
    using inv request by (auto simp: collab_inv_def reply_inv_def)
  have "tables_inv s1"
    by (rule append_tables [OF _ app fresh]) (use inv request none in \<open>auto simp: collab_inv_def\<close>)
  moreover have touch: "store_touch s1 s'" unfolding s'
  proof (rule touch_requests)
    fix r assume "r \<in> set (cs_requests s1)" "req_id r = rid"
    then have "r = request" by (rule uniq)
    then show "req_evolves r (set_request_state (next_request_state kind) now r)"
      using kind(3) req_evolves_state by blast
  qed
  ultimately have "tables_inv s'" by (rule touch_tables)
  moreover have "one_delivery_owner (cs_deliveries s')"
    using rest(3) inv by (simp add: s' collab_inv_def)
  moreover have "filter is_reply (messages_of (req_id r) s') = []"
    if r: "r \<in> set (cs_requests s')" "req_state r \<noteq> REPLIED" for r
  proof -
    from r(1) obtain q where q: "q \<in> set (cs_requests s1)"
      "r = (if req_id q = rid then set_request_state (next_request_state kind) now q else q)"
      unfolding s' by (auto elim: update_rowsE)
    have qid: "req_id r = req_id q" using q(2) by (simp add: set_request_state_def)
    show ?thesis
    proof (cases "req_id q = rid")
      case True
      then have "kind \<noteq> REPLY" using q(2) r(2) by (auto simp: set_request_state_def)
      with True none qid request(2) show ?thesis
        by (simp add: touch_messages_of [OF touch] rest(4,5) is_reply_def)
    next
      case False
      then have "r = q" using q(2) by simp
      with False q(1) r(2) inv request(2) show ?thesis
        by (simp add: touch_messages_of [OF touch] rest collab_inv_def reply_inv_def)
    qed
  qed
  ultimately show ?thesis by (simp add: collab_inv_def reply_inv_def)
qed

lemma post_message_inv:
  assumes inv: "collab_inv s" and fresh: "fresh_message_ids mid did s"
  shows "collab_inv (snd (post_message rid actor kind body key anchor mid did now s))"
proof (cases "post_message rid actor kind body key anchor mid did now s")
  case (Pair x s')
  show ?thesis
  proof (cases x)
    case (Inl e)
    then have "s' = s" using Pair
      by (auto simp: post_message_def checked_def transaction_def split: sum.splits if_splits)
    with Pair inv show ?thesis by simp
  next
    case (Inr m)
    from Pair [unfolded Inr] have "collab_inv s'"
    proof (cases rule: post_message_Inr)
      case repeated
      with inv show ?thesis by simp
    next
      case (progress request s1)
      note row = read_request_row [OF progress(2)]
      have "collab_inv s1"
        using append_inv [OF inv progress(3) fresh] row progress(1) by blast
      moreover have "store_touch s1 s'"
        unfolding progress(4) by (rule touch_requests) (simp add: req_evolves_def)
      ultimately show ?thesis by (rule touch_inv_unclaimed) (simp add: progress(4))
    next
      case (moved request s1)
      let ?s0 = "if kind \<in> {SUPPLEMENT, REPLY} then cancel_pending_clarifications rid s else s"
      have s0: "collab_inv ?s0" "fresh_message_ids mid did ?s0" "cs_requests ?s0 = cs_requests s"
        using inv fresh cancel_clarifications_inv [OF inv] by simp_all
      note row = read_request_row [OF moved(3)]
      show ?thesis
        by (rule post_moved_inv [OF s0(1,2) _ _ moved(2,1,4,5,6)]) (simp_all add: s0(3) row)
    qed
    with Pair show ?thesis by simp
  qed
qed

section \<open>The mailbox as an invariant system\<close>

lemma tidy_inv: "collab_inv s \<Longrightarrow> tidy_touch s s' \<Longrightarrow> collab_inv s'"
  by (auto simp: tidy_touch_def intro: touch_inv)

lemma collab_close_inv: "collab_inv s \<Longrightarrow> collab_inv (collab_close s)"
  by (simp add: collab_close_def collab_inv_def tables_inv_def ids_inv_def sequence_inv_def
      capacity_inv_def thread_inv_def reply_inv_def messages_of_def del: upt_Suc)

lemma collab_init_inv: "is_new_collab_store s \<Longrightarrow> collab_inv s"
  by (erule is_new_collab_store.cases)
     (auto simp: new_collab_store_def collab_inv_def tables_inv_def ids_inv_def sequence_inv_def
        capacity_inv_def thread_inv_def reply_inv_def messages_of_def one_delivery_owner_def
        unresolved_count_def split: if_splits)

lemma collab_step_inv: "collab_inv s \<Longrightarrow> collab_step s s' \<Longrightarrow> collab_inv s'"
proof (erule collab_stepE, goal_cases)
  case 1 then show ?case using begin_scope_inv by blast
next case 2 then show ?case using tidy_inv restrict_scope_tidy by blast
next case 3 then show ?case using tidy_inv control_request_tidy by blast
next case 4 then show ?case using tidy_inv link_resumed_tidy by blast
next case 5 then show ?case using create_request_inv by blast
next case 6 then show ?case using post_message_inv by blast
next case 7 then show ?case using tidy_inv fail_request_tidy by blast
next case 8 then show ?case using tidy_inv claim_next_tidy by blast
next case 9 then show ?case using tidy_inv transition_delivery_tidy by blast
next case 10 then show ?case using tidy_inv recover_uncertain_tidy by blast
next case 11 then show ?case using tidy_inv settle_interrupted_tidy by blast
next case 12 then show ?case using tidy_inv reconcile_tidy by blast
next case 13 then show ?case using collab_close_inv by blast
qed

interpretation collab_sys: inv_system is_new_collab_store collab_step collab_inv
  by unfold_locales (auto intro: collab_init_inv collab_step_inv)

end
