(* ===== verification/Collab_Mailbox.thy ===== *)
theory Collab_Mailbox
  imports Collab_Invariants
begin

text \<open>
  What the mailbox promises over whole runs: rows only grow and evolve (an observation that never goes
  back), one owner per recipient, bounded and gap-free threads, first-in first-out claims, idempotent
  operation keys, and the stop fence.
\<close>

section \<open>History never goes back\<close>

definition grows :: "('a \<Rightarrow> 'a \<Rightarrow> bool) \<Rightarrow> 'a list \<Rightarrow> 'a list \<Rightarrow> bool" where
  "grows R xs ys \<longleftrightarrow> (\<exists>us vs. ys = us @ vs \<and> list_all2 R xs us)"

lemma grows_touch: "list_all2 R xs ys \<Longrightarrow> grows R xs ys"
  unfolding grows_def by (intro exI [of _ ys] exI [of _ "[]"]) simp

lemma grows_refl: "(\<And>x. R x x) \<Longrightarrow> grows R xs xs"
  by (intro grows_touch list.rel_refl)

lemma grows_append: "(\<And>x. R x x) \<Longrightarrow> grows R xs (xs @ ys)"
  unfolding grows_def by (intro exI conjI) (rule refl, rule list.rel_refl)

lemma grows_trans:
  assumes "\<And>x y z. R x y \<Longrightarrow> R y z \<Longrightarrow> R x z" "grows R xs ys" "grows R ys zs"
  shows "grows R xs zs"
proof -
  from assms(2) obtain us vs where ys: "ys = us @ vs" "list_all2 R xs us" by (auto simp: grows_def)
  from assms(3) obtain us' vs' where zs: "zs = us' @ vs'" "list_all2 R ys us'" by (auto simp: grows_def)
  from zs(2) ys(1) obtain a b where ab: "us' = a @ b" "list_all2 R us a" by (auto simp: list_all2_append1)
  have "list_all2 R xs a" by (rule list_all2_trans [OF _ ys(2) ab(2)]) (rule assms(1))
  with zs(1) ab(1) show ?thesis unfolding grows_def by (intro exI [of _ a] exI [of _ "b @ vs'"]) simp
qed

lemma grows_row: "grows R xs ys \<Longrightarrow> x \<in> set xs \<Longrightarrow> \<exists>y \<in> set ys. R x y"
  unfolding grows_def by (fastforce simp: list_all2_conv_all_nth in_set_conv_nth)

text \<open>The observation: all four tables.\<close>

definition store_le :: "collab_store \<Rightarrow> collab_store \<Rightarrow> bool" where
  "store_le s s' \<longleftrightarrow>
     grows scope_evolves (cs_scopes s) (cs_scopes s') \<and>
     grows req_evolves (cs_requests s) (cs_requests s') \<and>
     grows del_evolves (cs_deliveries s) (cs_deliveries s') \<and>
     prefix (cs_messages s) (cs_messages s')"

lemma le_rows:
  assumes "store_le s s'"
  shows "c \<in> set (cs_scopes s) \<Longrightarrow> \<exists>c' \<in> set (cs_scopes s'). scope_evolves c c'"
    and "r \<in> set (cs_requests s) \<Longrightarrow> \<exists>r' \<in> set (cs_requests s'). req_evolves r r'"
    and "d \<in> set (cs_deliveries s) \<Longrightarrow> \<exists>d' \<in> set (cs_deliveries s'). del_evolves d d'"
proof -
  have le: "grows scope_evolves (cs_scopes s) (cs_scopes s')"
    "grows req_evolves (cs_requests s) (cs_requests s')"
    "grows del_evolves (cs_deliveries s) (cs_deliveries s')"
    using assms by (simp_all add: store_le_def)
  show "c \<in> set (cs_scopes s) \<Longrightarrow> \<exists>c' \<in> set (cs_scopes s'). scope_evolves c c'" by (rule grows_row [OF le(1)])
  show "r \<in> set (cs_requests s) \<Longrightarrow> \<exists>r' \<in> set (cs_requests s'). req_evolves r r'" by (rule grows_row [OF le(2)])
  show "d \<in> set (cs_deliveries s) \<Longrightarrow> \<exists>d' \<in> set (cs_deliveries s'). del_evolves d d'" by (rule grows_row [OF le(3)])
qed

lemma store_le_refl: "store_le s s"
  by (simp add: store_le_def grows_refl)

lemma store_le_trans: "store_le a b \<Longrightarrow> store_le b c \<Longrightarrow> store_le a c"
  unfolding store_le_def
  by (meson grows_trans scope_evolves_trans req_evolves_trans del_evolves_trans prefix_order.trans)

lemma touch_le: "store_touch s s' \<Longrightarrow> store_le s s'"
  by (simp add: store_touch_def store_le_def grows_touch)

lemma tidy_le: "tidy_touch s s' \<Longrightarrow> store_le s s'"
  by (simp add: tidy_touch_def touch_le)

lemma append_le:
  assumes "append_message request sender kind body key anchor mid did now s = Inr (m, s')"
  shows "store_le s s'"
  by (rule append_Inr [OF assms]) (simp add: store_le_def grows_refl grows_append)

lemma begin_scope_le: "store_le s (snd (begin_scope source work fresh s))"
  by (auto simp: begin_scope_def checked_def transaction_def and_then_def Let_def store_le_def
      grows_refl grows_append split: sum.splits option.splits)

lemma create_request_le:
  assumes "rid \<notin> req_id ` set (cs_requests s)"
  shows "store_le s (snd (create_request sid source target key body anchor rid mid did now s))"
proof (cases "create_request sid source target key body anchor rid mid did now s")
  case (Pair x s')
  show ?thesis
  proof (cases x)
    case (Inl e)
    then have "s' = s" using Pair
      by (auto simp: create_request_def checked_def transaction_def split: sum.splits if_splits)
    with Pair show ?thesis by (simp add: store_le_refl)
  next
    case (Inr r)
    from Pair [unfolded Inr] assms have "store_le s s'"
    proof (cases rule: create_request_Inr)
      case repeated
      then show ?thesis by (simp add: store_le_refl)
    next
      case (created m scope)
      have "store_le s (s\<lparr>cs_requests := cs_requests s @ [r]\<rparr>)"
        by (simp add: store_le_def grows_refl grows_append)
      then show ?thesis using append_le [OF created(10)] by (rule store_le_trans)
    qed
    with Pair show ?thesis by simp
  qed
qed

lemma post_message_le:
  assumes inv: "collab_inv s"
  shows "store_le s (snd (post_message rid actor kind body key anchor mid did now s))"
proof (cases "post_message rid actor kind body key anchor mid did now s")
  case (Pair x s')
  show ?thesis
  proof (cases x)
    case (Inl e)
    then have "s' = s" using Pair
      by (auto simp: post_message_def checked_def transaction_def split: sum.splits if_splits)
    with Pair show ?thesis by (simp add: store_le_refl)
  next
    case (Inr m)
    from Pair [unfolded Inr] have "store_le s s'"
    proof (cases rule: post_message_Inr)
      case repeated
      then show ?thesis by (simp add: store_le_refl)
    next
      case (progress request s1)
      have "store_touch s1 s'"
        unfolding progress(4) by (rule touch_requests) (simp add: req_evolves_def)
      with append_le [OF progress(3)] show ?thesis by (blast intro: store_le_trans touch_le)
    next
      case (moved request s1)
      let ?s0 = "if kind \<in> {SUPPLEMENT, REPLY} then cancel_pending_clarifications rid s else s"
      have "store_touch s ?s0" using cancel_clarifications_touch(1) by simp
      moreover have "store_touch s1 s'"
        unfolding moved(6)
      proof (rule touch_requests)
        fix r assume "r \<in> set (cs_requests s1)" "req_id r = rid"
        then have "r = request"
          using request_unique [of s r request] inv read_request_row [OF moved(3)] append_rest(1) [OF moved(5)]
          by (simp add: collab_inv_def tables_inv_def split: if_splits)
        then show "req_evolves r (set_request_state (next_request_state kind) now r)"
          using moved(4) req_evolves_state by blast
      qed
      ultimately show ?thesis using append_le [OF moved(5)] by (blast intro: store_le_trans touch_le)
    qed
    with Pair show ?thesis by simp
  qed
qed

lemma collab_step_le: "collab_inv s \<Longrightarrow> collab_step s s' \<Longrightarrow> store_le s s'"
proof (erule collab_stepE, goal_cases)
  case 1 then show ?case using begin_scope_le by simp
next case 2 then show ?case using tidy_le restrict_scope_tidy by blast
next case 3 then show ?case using tidy_le control_request_tidy by blast
next case 4 then show ?case using tidy_le link_resumed_tidy by blast
next case 5 then show ?case using create_request_le by simp
next case 6 then show ?case using post_message_le by simp
next case 7 then show ?case using tidy_le fail_request_tidy by blast
next case 8 then show ?case using tidy_le claim_next_tidy by blast
next case 9 then show ?case using tidy_le transition_delivery_tidy by blast
next case 10 then show ?case using tidy_le recover_uncertain_tidy by blast
next case 11 then show ?case using tidy_le settle_interrupted_tidy by blast
next case 12 then show ?case using tidy_le reconcile_tidy by blast
next case 13 then show ?case
    by (simp add: collab_close_def store_le_def grows_refl)
qed

interpretation collab_history: mono_system is_new_collab_store collab_step collab_inv store_le "\<lambda>s. s"
  by unfold_locales (auto intro: store_le_refl store_le_trans collab_step_le)

section \<open>Rows read by id\<close>

lemma find_unique:
  assumes "distinct (map f xs)" "x \<in> set xs"
  shows "find (\<lambda>y. f y = f x) xs = Some x"
proof (cases "find (\<lambda>y. f y = f x) xs")
  case None
  then show ?thesis using assms(2) by (auto simp: find_None_iff)
next
  case (Some y)
  with find_SomeD [OF Some] distinct_map_unique [OF assms(1) _ assms(2)] show ?thesis by simp
qed

lemma reach_parts:
  assumes "collab_reach s"
  shows "collab_inv s" "ids_inv s" "one_delivery_owner (cs_deliveries s)" "capacity_inv s" "thread_inv s"
    "reply_inv s" "sequence_inv s"
  using collab_sys.reach_inv [OF assms] by (auto simp: collab_inv_def tables_inv_def)

lemma delivery_later:
  assumes "collab_reach s" "collab_step\<^sup>*\<^sup>* s s'" "d \<in> set (cs_deliveries s)"
  obtains d' where "find (\<lambda>r. del_id r = del_id d) (cs_deliveries s') = Some d'" "del_evolves d d'"
proof -
  have "store_le s s'" using collab_history.reach_run_mono [OF assms(1,2)] .
  then obtain d' where d': "d' \<in> set (cs_deliveries s')" "del_evolves d d'"
    using le_rows(3) assms(3) by blast
  then have "del_id d' = del_id d" by (simp add: del_evolves_def)
  moreover have "distinct (map del_id (cs_deliveries s'))"
    using reach_parts(2) [OF reach_rtranclp [OF assms(1,2)]] by (simp add: ids_inv_def)
  ultimately show thesis using find_unique [of del_id "cs_deliveries s'" d'] d' that by simp
qed

lemma request_later:
  assumes "collab_reach s" "collab_step\<^sup>*\<^sup>* s s'" "r \<in> set (cs_requests s)"
  obtains r' where "r' \<in> set (cs_requests s')" "req_evolves r r'"
  using le_rows(2) [OF collab_history.reach_run_mono [OF assms(1,2)] assms(3)] by blast

lemma scope_later:
  assumes "collab_reach s" "collab_step\<^sup>*\<^sup>* s s'" "c \<in> set (cs_scopes s)"
  obtains c' where "c' \<in> set (cs_scopes s')" "scope_evolves c c'"
  using le_rows(1) [OF collab_history.reach_run_mono [OF assms(1,2)] assms(3)] by blast

section \<open>The stop fence\<close>

text \<open>No delivery starts running in a quiet operation.\<close>

definition quiet :: "delivery list \<Rightarrow> delivery list \<Rightarrow> bool" where
  "quiet ds ds' \<longleftrightarrow>
     (\<forall>d' \<in> set ds'. del_state d' = RUNNING \<longrightarrow>
        (\<exists>d \<in> set ds. del_id d = del_id d' \<and> del_scope_id d = del_scope_id d' \<and> del_state d = RUNNING))"

lemma quiet_refl [simp]: "quiet ds ds"
  by (auto simp: quiet_def)

lemma quiet_trans: "quiet a b \<Longrightarrow> quiet b c \<Longrightarrow> quiet a c"
  unfolding quiet_def by metis

lemma quiet_snoc: "del_state d \<noteq> RUNNING \<Longrightarrow> quiet ds (ds @ [d])"
  by (auto simp: quiet_def)

lemma quiet_update:
  assumes "\<And>d. del_id (f d) = del_id d \<and> del_scope_id (f d) = del_scope_id d \<and>
    (del_state (f d) = RUNNING \<longrightarrow> del_state d = RUNNING)"
  shows "quiet ds (update_rows P f ds)"
  unfolding quiet_def update_rows_def using assms by auto

lemma quiet_set_state: "st \<noteq> RUNNING \<Longrightarrow> quiet ds (update_rows P (set_delivery_state st reason) ds)"
  by (rule quiet_update) (simp add: set_delivery_state_def)

lemma quiet_disable: "quiet ds (disable_deliveries reached reason ds)"
  unfolding disable_deliveries_def by (blast intro: quiet_trans quiet_set_state)

lemma quiet_cancel: "quiet (cs_deliveries s) (cs_deliveries (cancel_pending_clarifications rid s))"
  by (simp add: cancel_pending_clarifications_def quiet_set_state)

lemma quiet_append:
  assumes "append_message request sender kind body key anchor mid did now s = Inr (m, s')"
  shows "quiet (cs_deliveries s) (cs_deliveries s')"
  by (rule append_Inr [OF assms]) (auto intro: quiet_snoc)

lemma quiet_settle: "quiet (cs_deliveries s) (cs_deliveries (fold (settle_one now) rows s))"
proof (induction rows arbitrary: s)
  case (Cons d rows)
  have "quiet (cs_deliveries s) (cs_deliveries (settle_one now d s))"
    by (auto simp: settle_one_def Let_def quiet_set_state split: option.split)
  with Cons show ?case by (simp, blast intro: quiet_trans)
qed simp

text \<open>A start: the only operation that is not quiet, and the scope it ran under was not revoked.\<close>

lemma start_under_scope:
  assumes "transition_delivery did recipient st v turn reason now s = (Inr r, s')"
    and "\<not> quiet (cs_deliveries s) (cs_deliveries s')"
  obtains d scope where "d \<in> set (cs_deliveries s)" "del_id d = did"
    "scope \<in> set (cs_scopes s)" "scope_id scope = del_scope_id d" "scope_state scope \<noteq> REVOKED"
    "\<And>d'. d' \<in> set (cs_deliveries s') \<Longrightarrow> del_state d' = RUNNING \<Longrightarrow>
       del_id d' = did \<or> d' \<in> set (cs_deliveries s)"
  using assms(1)
proof (rule transition_Inr)
  fix d request s1
  assume d: "read_delivery did recipient s = Inr d"
    and start: "(if st = RUNNING then start_checks d request recipient now s else Inr s) = Inr s1"
    and s': "s' = s1\<lparr>cs_deliveries := update_rows (\<lambda>r. del_id r = did) (move_row st turn reason) (cs_deliveries s1)\<rparr>"
  have ds: "cs_deliveries s1 = cs_deliveries s"
    using start by (auto simp: start_checks_def and_then_Inr if_Inl_Inr split: option.splits if_splits)
  have "st = RUNNING"
  proof (rule ccontr)
    assume "st \<noteq> RUNNING"
    then have "quiet (cs_deliveries s) (cs_deliveries s')"
      unfolding s' by (simp add: ds) (rule quiet_update, simp add: move_row_def)
    with assms(2) show False ..
  qed
  with start obtain scope where "read_scope (del_scope_id d) s = Inr scope" "\<not> execution_refused scope request recipient"
    by (auto simp: start_checks_def and_then_Inr if_Inl_Inr)
  with read_scope_row read_delivery_row [OF d] show thesis
    by (intro that [of d scope]) (auto simp: s' ds execution_refused_def update_rows_def move_row_def)
qed

abbreviation quiet_after :: "collab_store \<Rightarrow> collab_store \<Rightarrow> bool" where
  "quiet_after s s' \<equiv> quiet (cs_deliveries s) (cs_deliveries s')"

lemma quiet_op:
  assumes "\<And>x s'. f s = Inr (x, s') \<Longrightarrow> quiet_after s s'"
  shows "quiet_after s (snd (checked v s (transaction f s)))"
  using assms by (auto simp: checked_def transaction_def split: sum.split)

lemma quiet_ops:
  "quiet_after s (snd (begin_scope source work fresh s))"
  "quiet_after s (snd (restrict_scope sid actor sst v now s))"
  "quiet_after s (snd (control_request rid source v ro now s))"
  "quiet_after s (snd (link_resumed_turn did recipient turn s))"
  "quiet_after s (snd (fail_request rid actor v now s))"
  "quiet_after s (snd (claim_next recipient s))"
  "quiet_after s (snd (recover_uncertain limit s))"
  "quiet_after s (snd (settle_interrupted limit now s))"
  "quiet_after s (snd (reconcile_stopped_requests limit now s))"
proof -
  show "quiet_after s (snd (begin_scope source work fresh s))"
    unfolding begin_scope_def by (rule quiet_op) (auto simp: Let_def and_then_Inr split: option.splits)
  show "quiet_after s (snd (restrict_scope sid actor sst v now s))"
    unfolding restrict_scope_def
    by (rule quiet_op) (auto simp: Let_def and_then_Inr if_Inl_Inr restrict_scope_rows_def quiet_disable)
  show "quiet_after s (snd (control_request rid source v ro now s))"
    unfolding control_request_def
    by (rule quiet_op) (auto simp: Let_def and_then_Inr if_Inl_Inr quiet_disable)
  show "quiet_after s (snd (link_resumed_turn did recipient turn s))"
    unfolding link_resumed_turn_def
    by (rule quiet_op) (auto simp: and_then_Inr if_Inl_Inr intro!: quiet_update split: if_splits)
  show "quiet_after s (snd (fail_request rid actor v now s))"
    unfolding fail_request_def
    by (rule quiet_op) (auto simp: Let_def and_then_Inr if_Inl_Inr quiet_cancel)
  show "quiet_after s (snd (claim_next recipient s))"
    unfolding claim_next_def
    by (rule quiet_op) (auto simp: Let_def claim_row_def intro!: quiet_update split: option.splits if_splits)
  show "quiet_after s (snd (recover_uncertain limit s))"
    unfolding recover_uncertain_def by (rule quiet_op) (auto simp: Let_def quiet_set_state)
  show "quiet_after s (snd (settle_interrupted limit now s))"
    unfolding settle_interrupted_def by (rule quiet_op) (auto simp: Let_def quiet_settle)
  show "quiet_after s (snd (reconcile_stopped_requests limit now s))"
    unfolding reconcile_stopped_requests_def by (rule quiet_op) (auto simp: Let_def)
qed

lemma quiet_create:
  assumes "rid \<notin> req_id ` set (cs_requests s)"
  shows "quiet_after s (snd (create_request sid source target key body anchor rid mid did now s))"
proof (cases "create_request sid source target key body anchor rid mid did now s")
  case (Pair x s')
  show ?thesis
  proof (cases x)
    case (Inl e)
    with Pair show ?thesis
      by (auto simp: create_request_def checked_def transaction_def split: sum.splits if_splits)
  next
    case (Inr r)
    from Pair [unfolded Inr] assms have "quiet_after s s'"
    proof (cases rule: create_request_Inr)
      case (created m scope)
      then show ?thesis using quiet_append [OF created(10)] by simp
    qed simp
    with Pair show ?thesis by simp
  qed
qed

lemma quiet_post: "quiet_after s (snd (post_message rid actor kind body key anchor mid did now s))"
proof (cases "post_message rid actor kind body key anchor mid did now s")
  case (Pair x s')
  show ?thesis
  proof (cases x)
    case (Inl e)
    with Pair show ?thesis
      by (auto simp: post_message_def checked_def transaction_def split: sum.splits if_splits)
  next
    case (Inr m)
    from Pair [unfolded Inr] have "quiet_after s s'"
    proof (cases rule: post_message_Inr)
      case (progress request s1)
      then show ?thesis using quiet_append [OF progress(3)] by simp
    next
      case (moved request s1)
      from quiet_append [OF moved(5)] quiet_cancel [of s rid] show ?thesis
        by (auto simp: moved(6) intro: quiet_trans split: if_splits)
    qed simp
    with Pair show ?thesis by simp
  qed
qed

lemma step_quiet:
  assumes "collab_step s s'"
  shows "quiet_after s s' \<or> (\<exists>did recipient st v turn reason now r.
    transition_delivery did recipient st v turn reason now s = (Inr r, s'))"
  using assms
proof (elim collab_stepE, goal_cases)
  case (9 did recipient st v turn reason now)
  show ?thesis
  proof (cases "fst (transition_delivery did recipient st v turn reason now s)")
    case (Inl e)
    with 9 have "s' = s"
      by (auto simp: transition_delivery_def checked_def transaction_def split: sum.splits if_splits)
    then show ?thesis by simp
  next
    case (Inr r)
    with 9 have "transition_delivery did recipient st v turn reason now s = (Inr r, s')"
      by (simp add: prod_eq_iff)
    then show ?thesis by blast
  qed
qed (use quiet_ops quiet_create quiet_post in \<open>auto simp: collab_close_def\<close>)

lemma step_starts_under_scope:
  assumes inv: "collab_inv s" and step: "collab_step s s'"
    and c: "c \<in> set (cs_scopes s)" "scope_state c = REVOKED"
    and d': "d' \<in> set (cs_deliveries s')" "del_scope_id d' = scope_id c" "del_state d' = RUNNING"
  shows "\<exists>d \<in> set (cs_deliveries s). del_id d = del_id d' \<and> del_scope_id d = scope_id c \<and> del_state d = RUNNING"
proof (cases "quiet_after s s'")
  case True
  then show ?thesis using d' unfolding quiet_def by metis
next
  case False
  with step_quiet [OF step] obtain did recipient st v turn reason now r
    where tr: "transition_delivery did recipient st v turn reason now s = (Inr r, s')" by blast
  have ids: "ids_inv s" "ids_inv s'" using inv collab_step_inv [OF inv step]
    by (auto simp: collab_inv_def tables_inv_def)
  from tr False obtain d scope where d: "d \<in> set (cs_deliveries s)" "del_id d = did"
    "scope \<in> set (cs_scopes s)" "scope_id scope = del_scope_id d" "scope_state scope \<noteq> REVOKED"
    and other: "del_id d' = did \<or> d' \<in> set (cs_deliveries s)"
    using start_under_scope d'(1,3) by metis
  show ?thesis
  proof (cases "del_id d' = did")
    case True
    obtain d2 where "d2 \<in> set (cs_deliveries s')" "del_evolves d d2"
      using le_rows(3) [OF collab_step_le [OF inv step] d(1)] by blast
    then have "d2 = d'" using delivery_unique [OF ids(2) _ d'(1)] d(2) True by (simp add: del_evolves_def)
    then have "scope_id scope = scope_id c"
      using d(4) d'(2) \<open>del_evolves d d2\<close> by (simp add: del_evolves_def)
    then have "scope = c" using scope_unique [OF ids(1) d(3) c(1)] by simp
    with d(5) c(2) show ?thesis by simp
  next
    case False
    with other d' show ?thesis by blast
  qed
qed

lemma run_starts_under_scope:
  assumes "collab_reach s" "collab_step\<^sup>*\<^sup>* s s'" "c \<in> set (cs_scopes s)" "scope_state c = REVOKED"
    and "d' \<in> set (cs_deliveries s')" "del_scope_id d' = scope_id c" "del_state d' = RUNNING"
  shows "\<exists>d \<in> set (cs_deliveries s). del_id d = del_id d' \<and> del_scope_id d = scope_id c \<and> del_state d = RUNNING"
  using assms(2,5-7)
proof (induction arbitrary: d' rule: rtranclp_induct)
  case base
  then show ?case by blast
next
  case (step t u)
  have inv: "collab_inv t" using reach_parts(1) reach_rtranclp [OF assms(1) step.hyps(1)] by blast
  obtain c' where c': "c' \<in> set (cs_scopes t)" "scope_evolves c c'"
    by (rule scope_later [OF assms(1) step.hyps(1) assms(3)])
  then have "scope_id c' = scope_id c" "scope_state c' = REVOKED"
    using assms(4) scope_final by (auto simp: scope_evolves_def)
  then obtain d where "d \<in> set (cs_deliveries t)" "del_id d = del_id d'" "del_scope_id d = scope_id c"
    "del_state d = RUNNING"
    using step_starts_under_scope [OF inv step.hyps(2) c'(1), of d'] step.prems by auto
  with step.IH show ?case by metis
qed

section \<open>Rows found first stay first\<close>

lemma and_then_simps [simp]: "and_then (Inl e) f = Inl e" "and_then (Inr a) f = f a"
  by (simp_all add: and_then_def)

lemma find_append_Some:
  "find P (xs @ ys) = (case find P xs of None \<Rightarrow> find P ys | Some x \<Rightarrow> Some x)"
  by (induction xs) auto

lemma find_later:
  assumes "grows R xs ys" "\<And>x y. R x y \<Longrightarrow> P y = P x" "find P xs = Some x"
  shows "\<exists>y. find P ys = Some y \<and> R x y"
proof -
  from assms(1) obtain us vs where ys: "ys = us @ vs" "list_all2 R xs us" by (auto simp: grows_def)
  from ys(2) assms(2,3) have "\<exists>y. find P us = Some y \<and> R x y"
    by (induction rule: list_all2_induct) (auto split: if_splits)
  then show ?thesis by (auto simp: ys(1) find_append_Some)
qed

lemma read_scope_later:
  assumes "store_le s s'" "read_scope sid s = Inr c"
  shows "\<exists>c'. read_scope sid s' = Inr c' \<and> scope_evolves c c'"
proof -
  from assms(2) obtain x where "bounded_text MAX_ID_BYTES sid = Inr x"
    "find (\<lambda>r. scope_id r = sid) (cs_scopes s) = Some c"
    by (auto simp: read_scope_def and_then_Inr split: option.splits)
  moreover from this(2) have "\<exists>c'. find (\<lambda>r. scope_id r = sid) (cs_scopes s') = Some c' \<and> scope_evolves c c'"
    using assms(1) by (intro find_later [where R = scope_evolves]) (auto simp: store_le_def scope_evolves_def)
  ultimately show ?thesis by (auto simp: read_scope_def and_then_def)
qed

lemma request_key_later:
  assumes "store_le s s'" "find (\<lambda>r. req_scope_id r = sid \<and> req_operation_key r = key) (cs_requests s) = Some r"
  shows "\<exists>r'. find (\<lambda>r. req_scope_id r = sid \<and> req_operation_key r = key) (cs_requests s') = Some r' \<and> req_evolves r r'"
  using assms by (intro find_later [where R = req_evolves]) (auto simp: store_le_def req_evolves_def)

lemma create_request_scope:
  assumes "create_request sid source target key body anchor rid mid did now s = (Inr r, s')"
  shows "\<exists>scope. read_scope sid s = Inr scope \<and> scope_source scope = source"
    and "(\<exists>x. and_then (validate_ref source) (\<lambda>_. validate_ref target) = Inr x) \<and> source \<noteq> target \<and>
      (\<exists>x. and_then (bounded_text MAX_ID_BYTES key) (\<lambda>_. and_then (bounded_text MAX_BODY_BYTES body) (\<lambda>_.
        optional_text MAX_ID_BYTES anchor)) = Inr x)"
  using assms
  by (auto simp: create_request_def checked_def transaction_def and_then_Inr if_Inl_Inr
      split: sum.splits if_splits)

lemma create_request_key:
  assumes "create_request sid source target key body anchor rid mid did now s = (Inr r, s')"
    and "rid \<notin> req_id ` set (cs_requests s)"
  shows "find (\<lambda>r. req_scope_id r = sid \<and> req_operation_key r = key) (cs_requests s') = Some r"
    and "req_target r = target" "req_body r = body" "req_anchor_turn_id r = anchor"
proof -
  have "find (\<lambda>r. req_scope_id r = sid \<and> req_operation_key r = key) (cs_requests s') = Some r \<and>
    req_target r = target \<and> req_body r = body \<and> req_anchor_turn_id r = anchor"
    using assms
  proof (cases rule: create_request_Inr)
    case (created m scope)
    have "find (\<lambda>r. req_scope_id r = sid \<and> req_operation_key r = key) (cs_requests s) = None"
      using created(14) by (auto simp: find_None_iff list_ex_iff)
    then show ?thesis using created append_rest(1) [OF created(10)] by (simp add: find_append_Some)
  qed simp
  then show "find (\<lambda>r. req_scope_id r = sid \<and> req_operation_key r = key) (cs_requests s') = Some r"
    "req_target r = target" "req_body r = body" "req_anchor_turn_id r = anchor" by auto
qed

end
