(* ===== verification/Collab_Worker.thy ===== *)
theory Collab_Worker
  imports Collab_Mailbox
begin

text \<open>
  The layer above the mailbox. \<open>runtime/collaboration/runtime.py\<close>: a worker per recipient claims a
  delivery, renders it, starts a turn through the executor it was given, links the turn and records how
  it ended. \<open>runtime/collaboration/coordinator.py\<close>: the operations of agents and clients, with the
  wake-ups and cancellations they cause. The loops of \<open>runtime/daemon/application.py\<close> that settle what an
  earlier process left behind. The executor is not code of this layer: what it answers is an argument
  (\<open>start_answer\<close>, the reason of \<open>settled\<close>). Between two phases of a delivery any other step of the
  mailbox may happen, so each phase is an operation on the mailbox of its own.
\<close>

section \<open>Rendering\<close>

text \<open>
  The prompt is prose around the facts below; \<open>dt_original\<close> is the assignment quoted back to its source.
\<close>

record delivery_text =
  dt_scope_id :: string
  dt_request_id :: string
  dt_message_id :: string
  dt_is_target :: bool
  dt_source :: string
  dt_target :: string
  dt_kind :: message_kind
  dt_body :: string
  dt_original :: "string option"

record collaboration_message =
  cm_delivery_id :: string
  cm_message_id :: string
  cm_request_id :: string
  cm_scope_id :: string
  cm_work_id :: string
  cm_role :: string
  cm_kind :: message_kind
  cm_sender :: session_ref
  cm_recipient :: session_ref
  cm_anchor_turn_id :: string
  cm_body :: string
  cm_text :: delivery_text

fun message_kind_value :: "message_kind \<Rightarrow> string" where
  "message_kind_value REQUEST = ''request''"
| "message_kind_value CLARIFICATION = ''clarification''"
| "message_kind_value SUPPLEMENT = ''supplement''"
| "message_kind_value REPLY = ''reply''"
| "message_kind_value PROGRESS = ''progress''"

text \<open>The identity a turn carries in its configuration, out of the model's sight.\<close>

definition config_overrides :: "collaboration_message \<Rightarrow> (string \<times> string) list" where
  "config_overrides m =
     [(''collaboration_id'', cm_scope_id m), (''assignment_id'', cm_request_id m),
      (''message_id'', cm_message_id m), (''delivery_id'', cm_delivery_id m),
      (''request_id'', cm_request_id m), (''scope_id'', cm_scope_id m), (''work_id'', cm_work_id m),
      (''role'', cm_role m), (''kind'', message_kind_value (cm_kind m)),
      (''sender_project'', project_id (cm_sender m)), (''sender_thread'', thread_id (cm_sender m)),
      (''recipient_project'', project_id (cm_recipient m)),
      (''recipient_thread'', thread_id (cm_recipient m)), (''anchor_turn_id'', cm_anchor_turn_id m)]"

definition render ::
  "delivery \<Rightarrow> collab_request \<Rightarrow> continuation_scope \<Rightarrow> collab_message \<Rightarrow> collaboration_message" where
  "render d request scope m =
     (let is_target = (del_recipient d = req_target request) in
      \<lparr>cm_delivery_id = del_id d, cm_message_id = msg_id m, cm_request_id = req_id request,
       cm_scope_id = scope_id scope, cm_work_id = scope_work_id scope,
       cm_role = (if is_target then ''target'' else ''source''), cm_kind = msg_kind m,
       cm_sender = msg_sender m, cm_recipient = del_recipient d,
       cm_anchor_turn_id = msg_anchor_turn_id m, cm_body = msg_body m,
       cm_text = \<lparr>dt_scope_id = scope_id scope, dt_request_id = req_id request,
         dt_message_id = msg_id m, dt_is_target = is_target,
         dt_source = global_id (req_source request), dt_target = global_id (req_target request),
         dt_kind = msg_kind m, dt_body = msg_body m,
         dt_original = (if is_target then None else Some (req_body request))\<rparr>\<rparr>)"

section \<open>The phases of one delivery\<close>

text \<open>\<open>except CollaborationError\<close>: database and look-up errors are other classes.\<close>

fun is_collaboration_error :: "collab_error \<Rightarrow> bool" where
  "is_collaboration_error (SqliteIntegrityError e) = False"
| "is_collaboration_error (LookupFailure e) = False"
| "is_collaboration_error _ = True"

definition suppress ::
  "(collab_error + 'a) \<times> collab_store \<Rightarrow> (collab_error + unit) \<times> collab_store" where
  "suppress x =
     (case fst x of
        Inl e \<Rightarrow> (if is_collaboration_error e then Inr () else Inl e, snd x)
      | Inr _ \<Rightarrow> (Inr (), snd x))"

definition may_start ::
  "collab_request \<Rightarrow> continuation_scope \<Rightarrow> session_ref \<Rightarrow> collab_message \<Rightarrow> bool" where
  "may_start request scope recipient m =
     (if req_continuation request = REVOKED \<or> scope_state scope = REVOKED then False
      else if recipient = req_source request then
        (if scope_state scope \<noteq> SC_ACTIVE \<or> req_continuation request \<noteq> SC_ACTIVE then False
         else if msg_kind m = REPLY then req_state request = REPLIED
         else req_state request = WAITING_INPUT)
      else req_state request \<in> {RQ_PENDING, WORKING})"

definition resolve ::
  "delivery \<Rightarrow> string \<Rightarrow> int \<Rightarrow> collab_store \<Rightarrow> (collab_error + unit) \<times> collab_store" where
  "resolve d reason now s =
     (case get_delivery (del_id d) (del_recipient d) s of
        Inl e \<Rightarrow> (if is_collaboration_error e then Inr () else Inl e, s)
      | Inr current \<Rightarrow>
          suppress (resolve_uncertain (del_id current) (del_recipient d)
            (int (del_version current)) reason now s))"

definition abandon_delivery ::
  "delivery \<Rightarrow> string \<Rightarrow> int \<Rightarrow> collab_store \<Rightarrow> (collab_error + unit) \<times> collab_store" where
  "abandon_delivery d reason now s =
     (case get_delivery (del_id d) (del_recipient d) s of
        Inl e \<Rightarrow> (Inl e, s)
      | Inr current \<Rightarrow>
          if del_state current = REVIEW then resolve current reason now s
          else suppress (abandon_claim (del_id current) (del_recipient current)
                 (int (del_version current)) reason now s))"

definition hold_for_review ::
  "delivery \<Rightarrow> string \<Rightarrow> int \<Rightarrow> collab_store \<Rightarrow> (collab_error + unit) \<times> collab_store" where
  "hold_for_review d reason now s =
     suppress (transition_delivery (del_id d) (del_recipient d) REVIEW (int (del_version d))
       None (Some reason) now s)"

text \<open>Before the start: either the worker is done with the delivery, or it has a message to start.\<close>

definition deliver_prepare ::
  "delivery \<Rightarrow> session_ref \<Rightarrow> int \<Rightarrow> collab_store \<Rightarrow>
     (collab_error + (collaboration_message \<times> collab_request) option) \<times> collab_store" where
  "deliver_prepare d recipient now s =
     (case execution_context (del_id d) s of
        Inl e \<Rightarrow> (if is_collaboration_error e then Inr None else Inl e, s)
      | Inr (request, scope, m) \<Rightarrow>
          if \<not> may_start request scope recipient m
          then (case abandon_delivery d ''scope_disabled'' now s of
                  (Inl e, s') \<Rightarrow> (Inl e, s') | (Inr _, s') \<Rightarrow> (Inr None, s'))
          else (Inr (Some (render d request scope m, request)), s))"

text \<open>What the executor answers to \<open>start\<close>.\<close>

datatype start_answer = Started string | SessionBusy | TargetUnavailable | StartRaised

datatype link_result =
    LinkRetry
  | LinkDone
  | LinkCancelled string
  | LinkRunning delivery

definition deliver_link ::
  "delivery \<Rightarrow> session_ref \<Rightarrow> start_answer \<Rightarrow> int \<Rightarrow> int \<Rightarrow> collab_store \<Rightarrow>
     (collab_error + link_result) \<times> collab_store" where
  "deliver_link d recipient answer now1 now2 s =
     (case answer of
        SessionBusy \<Rightarrow> (Inr LinkRetry, s)
      | TargetUnavailable \<Rightarrow>
          (case hold_for_review d ''target_unavailable'' now1 s of
             (Inl e, s') \<Rightarrow> (Inl e, s') | (Inr _, s') \<Rightarrow> (Inr LinkDone, s'))
      | StartRaised \<Rightarrow>
          (case hold_for_review d ''start_failed'' now1 s of
             (Inl e, s') \<Rightarrow> (Inl e, s') | (Inr _, s') \<Rightarrow> (Inr LinkDone, s'))
      | Started turn \<Rightarrow>
          (case transition_delivery (del_id d) recipient RUNNING (int (del_version d))
                  (Some turn) None now1 s of
             (Inr running, s') \<Rightarrow> (Inr (LinkRunning running), s')
           | (Inl e, s') \<Rightarrow>
               if is_collaboration_error e
               then (case resolve d ''stopped'' now2 s' of
                       (Inl e', s'') \<Rightarrow> (Inl e', s'')
                     | (Inr _, s'') \<Rightarrow> (Inr (LinkCancelled turn), s''))
               else (Inl e, s')))"

definition latest_request ::
  "collab_request \<Rightarrow> session_ref \<Rightarrow> collab_store \<Rightarrow> collab_error + collab_request option" where
  "latest_request request recipient s =
     (case get_request (req_id request) recipient s of
        Inr r \<Rightarrow> Inr (Some r)
      | Inl e \<Rightarrow> if is_collaboration_error e then Inr None else Inl e)"

definition or_text :: "string option \<Rightarrow> string \<Rightarrow> string option" where
  "or_text a b = (case a of Some x \<Rightarrow> if x = [] then Some b else Some x | None \<Rightarrow> Some b)"

text \<open>The request of a target that has not answered is failed, then the delivery is settled.\<close>

definition finish_settle ::
  "delivery \<Rightarrow> session_ref \<Rightarrow> string option \<Rightarrow> int \<Rightarrow> collab_store \<Rightarrow>
     (collab_error + unit) \<times> collab_store" where
  "finish_settle running recipient reason now s =
     suppress (transition_delivery (del_id running) recipient SETTLED (int (del_version running))
       (del_turn_id running) reason now s)"

definition finish_delivery ::
  "delivery \<Rightarrow> collab_request \<Rightarrow> session_ref \<Rightarrow> string option \<Rightarrow> int \<Rightarrow> int \<Rightarrow> collab_store \<Rightarrow>
     (collab_error + unit) \<times> collab_store" where
  "finish_delivery running request recipient reason now1 now2 s =
     (if recipient = req_target request then
        (case latest_request request recipient s of
           Inl e \<Rightarrow> (Inl e, s)
         | Inr None \<Rightarrow> finish_settle running recipient reason now2 s
         | Inr (Some latest) \<Rightarrow>
             if req_state latest \<in> {RQ_PENDING, WORKING} then
               (case suppress (fail_request (req_id latest) recipient (int (req_version latest)) now1 s) of
                  (Inl e, s1) \<Rightarrow> (Inl e, s1)
                | (Inr _, s1) \<Rightarrow>
                    finish_settle running recipient (or_text reason ''no_result'') now2 s1)
             else finish_settle running recipient reason now2 s)
      else finish_settle running recipient reason now2 s)"

definition deliver_settled ::
  "delivery \<Rightarrow> collab_request \<Rightarrow> session_ref \<Rightarrow> string option \<Rightarrow> int \<Rightarrow> int \<Rightarrow> collab_store \<Rightarrow>
     (collab_error + unit) \<times> collab_store" where
  "deliver_settled running request recipient reason now1 now2 s =
     (case get_delivery (del_id running) recipient s of
        Inl e \<Rightarrow> (Inl e, s)
      | Inr current \<Rightarrow> finish_delivery current request recipient reason now1 now2 s)"

section \<open>Restart\<close>

definition COLLABORATION_BATCH :: int where "COLLABORATION_BATCH = 100"

definition count_states :: "delivery_state list \<Rightarrow> collab_store \<Rightarrow> nat" where
  "count_states sts s = length (filter (in_states sts) (cs_deliveries s))"

lemma count_update_le:
  assumes "\<And>d. \<not> Q (f d)"
  shows "length (filter Q (update_rows P f ds)) \<le> length (filter Q ds)"
  using assms by (induction ds) (auto simp: update_rows_def)

lemma count_update_less:
  assumes "\<And>d. \<not> Q (f d)" "d \<in> set ds" "P d" "Q d"
  shows "length (filter Q (update_rows P f ds)) < length (filter Q ds)"
  using assms(2)
proof (induction ds)
  case (Cons x xs)
  have "length (filter Q (update_rows P f xs)) \<le> length (filter Q xs)"
    by (rule count_update_le) (rule assms(1))
  with Cons assms show ?case by (auto simp: update_rows_def)
qed simp

lemma transaction_Inr:
  "checked v s (transaction f s) = (Inr x, s') \<longleftrightarrow> (\<exists>y. v = Inr y) \<and> \<not> cs_closed s \<and> f s = Inr (x, s')"
  by (auto simp: checked_def transaction_def split: sum.split prod.split)

lemma recover_shrinks:
  assumes "recover_uncertain limit s = (Inr n, s')" "n \<noteq> 0"
  shows "count_states [CLAIMED, RUNNING] s' < count_states [CLAIMED, RUNNING] s"
proof -
  let ?rows = "take (nat limit) (filter (in_states [CLAIMED, RUNNING]) (cs_deliveries s))"
  have s': "n = length ?rows" "s' = s\<lparr>cs_deliveries := update_rows (\<lambda>r. del_id r \<in> del_id ` set ?rows)
      (set_delivery_state REVIEW ''restart'') (cs_deliveries s)\<rparr>"
    using assms(1) by (auto simp: recover_uncertain_def transaction_Inr Let_def)
  then obtain d where d: "d \<in> set ?rows" using assms(2) by (cases ?rows) auto
  then have "d \<in> set (cs_deliveries s)" "in_states [CLAIMED, RUNNING] d" by (auto dest: in_set_takeD)
  with d show ?thesis
    unfolding count_states_def s'(2)
    by (simp add: count_update_less [where d = d] in_states_def set_delivery_state_def)
qed

lemma settle_one_count:
  "count_states [REVIEW] (settle_one now d s) \<le> count_states [REVIEW] s"
  "d \<in> set (cs_deliveries s) \<Longrightarrow> del_state d = REVIEW \<Longrightarrow>
     count_states [REVIEW] (settle_one now d s) < count_states [REVIEW] s"
proof -
  have eq: "cs_deliveries (settle_one now d s) = update_rows (\<lambda>r. del_id r = del_id d)
      (set_delivery_state SETTLED ''interrupted'') (cs_deliveries s)"
    by (auto simp: settle_one_def Let_def split: option.split)
  show "count_states [REVIEW] (settle_one now d s) \<le> count_states [REVIEW] s"
    unfolding count_states_def eq
    by (rule count_update_le) (simp add: in_states_def set_delivery_state_def)
  assume "d \<in> set (cs_deliveries s)" "del_state d = REVIEW"
  then show "count_states [REVIEW] (settle_one now d s) < count_states [REVIEW] s"
    unfolding count_states_def eq
    by (intro count_update_less [where d = d]) (simp_all add: in_states_def set_delivery_state_def)
qed

lemma settle_fold_count: "count_states [REVIEW] (fold (settle_one now) rows s) \<le> count_states [REVIEW] s"
proof (induction rows arbitrary: s)
  case (Cons d rows)
  have "count_states [REVIEW] (fold (settle_one now) rows (settle_one now d s)) \<le>
      count_states [REVIEW] (settle_one now d s)" by (rule Cons.IH)
  then show ?case using settle_one_count(1) [of now d s] by simp
qed simp

lemma settle_shrinks:
  assumes "settle_interrupted limit now s = (Inr n, s')" "n \<noteq> 0"
  shows "count_states [REVIEW] s' < count_states [REVIEW] s"
proof -
  let ?rows = "take (nat limit) (filter (in_states [REVIEW]) (cs_deliveries s))"
  have s': "n = length ?rows" "s' = fold (settle_one now) ?rows s"
    using assms(1) by (auto simp: settle_interrupted_def transaction_Inr Let_def)
  then obtain d ds where rows: "?rows = d # ds" using assms(2) by (cases ?rows) auto
  then have "d \<in> set ?rows" by simp
  then have "d \<in> set (cs_deliveries s)" "del_state d = REVIEW"
    by (auto dest: in_set_takeD simp: in_states_def)
  then have "count_states [REVIEW] (settle_one now d s) < count_states [REVIEW] s"
    by (rule settle_one_count(2))
  then show ?thesis
    using settle_fold_count [of now ds "settle_one now d s"] by (simp add: s'(2) rows)
qed

text \<open>\<open>while store.recover_uncertain(limit=...): pass\<close>, and the same for \<open>settle_interrupted\<close>.\<close>

function recover_all :: "int \<Rightarrow> collab_store \<Rightarrow> (collab_error + unit) \<times> collab_store" where
  "recover_all limit s =
     (case recover_uncertain limit s of
        (Inl e, s') \<Rightarrow> (Inl e, s')
      | (Inr n, s') \<Rightarrow> if n = 0 then (Inr (), s') else recover_all limit s')"
  by auto
termination
  by (relation "measure (\<lambda>(limit, s). count_states [CLAIMED, RUNNING] s)") (auto intro: recover_shrinks [OF sym])

function settle_all :: "int \<Rightarrow> int \<Rightarrow> collab_store \<Rightarrow> (collab_error + unit) \<times> collab_store" where
  "settle_all limit now s =
     (case settle_interrupted limit now s of
        (Inl e, s') \<Rightarrow> (Inl e, s')
      | (Inr n, s') \<Rightarrow> if n = 0 then (Inr (), s') else settle_all limit now s')"
  by auto
termination
  by (relation "measure (\<lambda>(limit, now, s). count_states [REVIEW] s)") (auto intro: settle_shrinks [OF sym])

declare recover_all.simps [simp del] settle_all.simps [simp del]

definition start_collaboration :: "int \<Rightarrow> collab_store \<Rightarrow> (collab_error + unit) \<times> collab_store" where
  "start_collaboration now s =
     (case recover_all COLLABORATION_BATCH s of
        (Inl e, s1) \<Rightarrow> (Inl e, collab_close s1)
      | (Inr _, s1) \<Rightarrow>
          (case settle_all COLLABORATION_BATCH now s1 of
             (Inl e, s2) \<Rightarrow> (Inl e, collab_close s2)
           | (Inr _, s2) \<Rightarrow> (Inr (), s2)))"

section \<open>The dispatcher and its workers\<close>

text \<open>
  A worker is at the head of its loop (\<open>Seeking\<close>), holds a claim it is about to deliver, waits for
  \<open>start\<close>, waits for the turn to settle, or pauses with its claim because the target was busy.
\<close>

datatype worker_phase =
    Seeking
  | Holding delivery
  | Starting delivery collaboration_message collab_request
  | Executing delivery collab_request
  | Pausing delivery

record collab_runtime =
  crt_store :: collab_store
  crt_workers :: nat
  crt_tasks :: "(string \<times> session_ref \<times> worker_phase) list"
  crt_dispatching :: bool
  crt_stopping :: bool

definition new_collab_runtime :: "int \<Rightarrow> collab_store \<Rightarrow> collab_error + collab_runtime" where
  "new_collab_runtime workers s =
     (if workers < 1 then Inl (CollaborationError ''workers must be a positive integer'')
      else Inr \<lparr>crt_store = s, crt_workers = nat workers, crt_tasks = [], crt_dispatching = False,
                crt_stopping = False\<rparr>)"

definition start_runtime :: "collab_runtime \<Rightarrow> collab_runtime" where
  "start_runtime w =
     (if crt_dispatching w then w else w\<lparr>crt_stopping := False, crt_dispatching := True\<rparr>)"

text \<open>\<open>stop\<close> asks the loops to end; when its time is up, what is left is cancelled.\<close>

definition stop_runtime :: "collab_runtime \<Rightarrow> collab_runtime" where
  "stop_runtime w = w\<lparr>crt_stopping := True, crt_dispatching := False\<rparr>"

definition cancel_tasks :: "collab_runtime \<Rightarrow> collab_runtime" where
  "cancel_tasks w = w\<lparr>crt_tasks := []\<rparr>"

fun spawn :: "nat \<Rightarrow> session_ref list \<Rightarrow> (string \<times> session_ref \<times> worker_phase) list \<Rightarrow>
    (string \<times> session_ref \<times> worker_phase) list" where
  "spawn workers [] tasks = tasks"
| "spawn workers (r # rs) tasks =
     (if workers \<le> length tasks then tasks
      else if global_id r \<in> fst ` set tasks then spawn workers rs tasks
      else spawn workers rs (tasks @ [(global_id r, r, Seeking)]))"

text \<open>One round of \<open>_dispatch\<close>: a broken store gives no recipients, and the sweep is best effort.\<close>

definition dispatch_round :: "int \<Rightarrow> collab_runtime \<Rightarrow> collab_runtime" where
  "dispatch_round now w =
     (if crt_stopping w then w
      else
        let recipients = (case pending_recipients (4 * int (crt_workers w)) (crt_store w) of
                            Inl _ \<Rightarrow> [] | Inr rs \<Rightarrow> rs)
        in w\<lparr>crt_tasks := spawn (crt_workers w) recipients (crt_tasks w),
             crt_store := snd (reconcile_stopped_requests 100 now (crt_store w))\<rparr>)"

definition forget :: "string \<Rightarrow> collab_runtime \<Rightarrow> collab_runtime" where
  "forget k w = w\<lparr>crt_tasks := filter (\<lambda>x. fst x \<noteq> k) (crt_tasks w)\<rparr>"

definition set_phase :: "string \<Rightarrow> worker_phase \<Rightarrow> collab_runtime \<Rightarrow> collab_runtime" where
  "set_phase k ph w =
     w\<lparr>crt_tasks := map (\<lambda>(j, r, p). if j = k then (j, r, ph) else (j, r, p)) (crt_tasks w)\<rparr>"

text \<open>What the executor and the clock answer to a worker.\<close>

record work_input =
  wi_answer :: start_answer
  wi_reason :: "string option"
  wi_now1 :: int
  wi_now2 :: int

text \<open>The next move of the worker of \<open>k\<close>; an exception ends it.\<close>

definition work_step :: "string \<Rightarrow> session_ref \<Rightarrow> worker_phase \<Rightarrow> work_input \<Rightarrow> collab_runtime \<Rightarrow> collab_runtime" where
  "work_step k recipient ph inp w =
     (let s = crt_store w in
      case ph of
        Seeking \<Rightarrow>
          if crt_stopping w then forget k w
          else (case claim_next recipient s of
                  (Inl e, s') \<Rightarrow> forget k (w\<lparr>crt_store := s'\<rparr>)
                | (Inr None, s') \<Rightarrow> forget k (w\<lparr>crt_store := s'\<rparr>)
                | (Inr (Some d), s') \<Rightarrow> set_phase k (Holding d) (w\<lparr>crt_store := s'\<rparr>))
      | Pausing d \<Rightarrow> if crt_stopping w then forget k w else set_phase k (Holding d) w
      | Holding d \<Rightarrow>
          (case deliver_prepare d recipient (wi_now1 inp) s of
             (Inl e, s') \<Rightarrow> forget k (w\<lparr>crt_store := s'\<rparr>)
           | (Inr None, s') \<Rightarrow> set_phase k Seeking (w\<lparr>crt_store := s'\<rparr>)
           | (Inr (Some (m, request)), s') \<Rightarrow>
               set_phase k (Starting d m request) (w\<lparr>crt_store := s'\<rparr>))
      | Starting d m request \<Rightarrow>
          (case deliver_link d recipient (wi_answer inp) (wi_now1 inp) (wi_now2 inp) s of
             (Inl e, s') \<Rightarrow> forget k (w\<lparr>crt_store := s'\<rparr>)
           | (Inr LinkRetry, s') \<Rightarrow> set_phase k (Pausing d) (w\<lparr>crt_store := s'\<rparr>)
           | (Inr (LinkRunning running), s') \<Rightarrow>
               set_phase k (Executing running request) (w\<lparr>crt_store := s'\<rparr>)
           | (Inr _, s') \<Rightarrow> set_phase k Seeking (w\<lparr>crt_store := s'\<rparr>))
      | Executing running request \<Rightarrow>
          (case deliver_settled running request recipient (wi_reason inp) (wi_now1 inp) (wi_now2 inp) s of
             (Inl e, s') \<Rightarrow> forget k (w\<lparr>crt_store := s'\<rparr>)
           | (Inr _, s') \<Rightarrow> set_phase k Seeking (w\<lparr>crt_store := s'\<rparr>)))"

inductive runtime_step :: "collab_runtime \<Rightarrow> collab_runtime \<Rightarrow> bool" where
  run_mailbox: "collab_step (crt_store w) s' \<Longrightarrow> runtime_step w (w\<lparr>crt_store := s'\<rparr>)"
| run_start: "runtime_step w (start_runtime w)"
| run_stop: "runtime_step w (stop_runtime w)"
| run_cancel: "crt_stopping w \<Longrightarrow> runtime_step w (cancel_tasks w)"
| run_dispatch: "crt_dispatching w \<Longrightarrow> runtime_step w (dispatch_round now w)"
| run_work: "(k, recipient, ph) \<in> set (crt_tasks w) \<Longrightarrow> runtime_step w (work_step k recipient ph inp w)"

inductive is_new_runtime :: "collab_runtime \<Rightarrow> bool" where
  "new_collab_runtime workers s = Inr w \<Longrightarrow> collab_reach s \<Longrightarrow> is_new_runtime w"

inductive_cases runtime_stepE: "runtime_step w w'"

abbreviation runtime_reach :: "collab_runtime \<Rightarrow> bool" where
  "runtime_reach \<equiv> reach is_new_runtime runtime_step"

section \<open>The coordinator\<close>

text \<open>
  The effects an operation has besides the mailbox, in order. The deployment's policy, the reachability
  of a target and whether a cancellation raises are arguments; \<open>None\<close> is a hook that was not given.
\<close>

datatype coordinator_effect = Wake session_ref | CancelTurn session_ref string

datatype coordinator_error = StoreError collab_error | CancelRaised

record coordinator =
  co_has_wake :: bool
  co_cancel_turn :: "(session_ref \<Rightarrow> string \<Rightarrow> bool) option"
  co_allows :: "(session_ref \<Rightarrow> session_ref \<Rightarrow> bool) option"
  co_reachable :: "(session_ref \<Rightarrow> string option) option"

definition notify_peer :: "coordinator \<Rightarrow> session_ref \<Rightarrow> coordinator_effect list" where
  "notify_peer co recipient = (if co_has_wake co then [Wake recipient] else [])"

definition begin_work ::
  "session_ref \<Rightarrow> string \<Rightarrow> string \<Rightarrow> collab_store \<Rightarrow> (collab_error + continuation_scope) \<times> collab_store" where
  "begin_work source work_id fresh s = begin_scope source work_id fresh s"

definition collab_work :: "string \<Rightarrow> session_ref \<Rightarrow> collab_store \<Rightarrow> collab_error + continuation_scope" where
  "collab_work collaboration_id source s = get_scope collaboration_id source s"

definition current_work ::
  "session_ref \<Rightarrow> string \<Rightarrow> string \<Rightarrow> collab_store \<Rightarrow> (collab_error + continuation_scope) \<times> collab_store" where
  "current_work source uuid fresh s =
     (case active_scope source s of
        Inl e \<Rightarrow> (Inl e, s)
      | Inr (Some scope) \<Rightarrow> (Inr scope, s)
      | Inr None \<Rightarrow> begin_scope source (''adhoc-'' @ uuid) fresh s)"

definition coordinator_request ::
  "coordinator \<Rightarrow> string \<Rightarrow> session_ref \<Rightarrow> session_ref \<Rightarrow> string \<Rightarrow> string \<Rightarrow> string \<Rightarrow>
     string \<Rightarrow> string \<Rightarrow> string \<Rightarrow> int \<Rightarrow> collab_store \<Rightarrow>
     (collab_error + collab_request) \<times> collab_store \<times> coordinator_effect list" where
  "coordinator_request co sid source target key body anchor rid mid did now s =
     (if (case co_allows co of None \<Rightarrow> False | Some f \<Rightarrow> \<not> f source target)
      then (Inl (NotPermittedError ''this deployment does not allow that target''), s, [])
      else case Option.bind (co_reachable co) (\<lambda>f. f target) of
             Some reason \<Rightarrow> (Inl (TargetUnavailableError reason), s, [])
           | None \<Rightarrow>
               (case create_request sid source target key body anchor rid mid did now s of
                  (Inl e, s') \<Rightarrow> (Inl e, s', [])
                | (Inr r, s') \<Rightarrow> (Inr r, s', notify_peer co (req_target r))))"

definition respond ::
  "coordinator \<Rightarrow> string \<Rightarrow> session_ref \<Rightarrow> message_kind \<Rightarrow> string \<Rightarrow> string \<Rightarrow> string \<Rightarrow>
     string \<Rightarrow> string \<Rightarrow> int \<Rightarrow> collab_store \<Rightarrow>
     (collab_error + collab_message) \<times> collab_store \<times> coordinator_effect list" where
  "respond co rid actor kind body key anchor mid did now s =
     (case get_request rid actor s of
        Inl e \<Rightarrow> (Inl e, s, [])
      | Inr request \<Rightarrow>
          (case post_message rid actor kind body key anchor mid did now s of
             (Inl e, s') \<Rightarrow> (Inl e, s', [])
           | (Inr m, s') \<Rightarrow>
               (Inr m, s', notify_peer co
                  (if actor = req_source request then req_target request else req_source request))))"

text \<open>\<open>stop\<close> goes on after a cancellation that raises.\<close>

definition stop_effects :: "coordinator \<Rightarrow> session_ref \<Rightarrow> delivery list \<Rightarrow> coordinator_effect list" where
  "stop_effects co source ds =
     (case co_cancel_turn co of
        None \<Rightarrow> []
      | Some _ \<Rightarrow> concat (map (\<lambda>d. case del_turn_id d of
            None \<Rightarrow> []
          | Some t \<Rightarrow> if del_recipient d \<noteq> source then [] else [CancelTurn (del_recipient d) t]) ds))"

definition coordinator_stop ::
  "coordinator \<Rightarrow> string \<Rightarrow> session_ref \<Rightarrow> int \<Rightarrow> bool \<Rightarrow> int \<Rightarrow> collab_store \<Rightarrow>
     (collab_error + continuation_scope) \<times> collab_store \<times> coordinator_effect list" where
  "coordinator_stop co sid source v receive_only now s =
     (case restrict_scope sid source (if receive_only then RECEIVE_ONLY else REVOKED) v now s of
        (Inl e, s') \<Rightarrow> (Inl e, s', [])
      | (Inr scope, s') \<Rightarrow>
          (case (if co_cancel_turn co = None then Inr [] else running_deliveries (scope_id scope) s') of
             Inl e \<Rightarrow> (Inl e, s', [])
           | Inr ds \<Rightarrow> (Inr scope, s', stop_effects co source ds @ notify_peer co source)))"

text \<open>\<open>stop_assignment\<close> does not: the first cancellation that raises ends it.\<close>

fun cancel_linked ::
  "coordinator \<Rightarrow> session_ref \<Rightarrow> bool \<Rightarrow> delivery list \<Rightarrow>
     (coordinator_error + unit) \<times> coordinator_effect list" where
  "cancel_linked co source receive_only [] = (Inr (), [])"
| "cancel_linked co source receive_only (d # ds) =
     (case del_turn_id d of
        None \<Rightarrow> cancel_linked co source receive_only ds
      | Some t \<Rightarrow>
          if del_state d \<noteq> RUNNING \<or> (receive_only \<and> del_recipient d \<noteq> source)
          then cancel_linked co source receive_only ds
          else case co_cancel_turn co of
                 None \<Rightarrow> cancel_linked co source receive_only ds
               | Some raises \<Rightarrow>
                   if raises (del_recipient d) t
                   then (Inl CancelRaised, [CancelTurn (del_recipient d) t])
                   else let (r, es) = cancel_linked co source receive_only ds
                        in (r, CancelTurn (del_recipient d) t # es))"

definition stop_assignment ::
  "coordinator \<Rightarrow> string \<Rightarrow> session_ref \<Rightarrow> int \<Rightarrow> bool \<Rightarrow> int \<Rightarrow> collab_store \<Rightarrow>
     (coordinator_error + collab_request) \<times> collab_store \<times> coordinator_effect list" where
  "stop_assignment co rid source v receive_only now s =
     (case control_request rid source v receive_only now s of
        (Inl e, s') \<Rightarrow> (Inl (StoreError e), s', [])
      | (Inr request, s') \<Rightarrow>
          (case request_deliveries (req_id request) source s' of
             Inl e \<Rightarrow> (Inl (StoreError e), s', [])
           | Inr ds \<Rightarrow>
               (case cancel_linked co source receive_only ds of
                  (Inl e, es) \<Rightarrow> (Inl e, s', es)
                | (Inr _, es) \<Rightarrow>
                    (Inr request, s', es @ notify_peer co source @ notify_peer co (req_target request)))))"

section \<open>What the phases do\<close>

text \<open>The restart loops: how they end.\<close>

lemma recover_all_keeps:
  assumes "Q s" "\<And>limit s. Q s \<Longrightarrow> Q (snd (recover_uncertain limit s))"
  shows "Q (snd (recover_all limit s))"
  using assms(1)
proof (induction limit s rule: recover_all.induct)
  case (1 limit s)
  then show ?case
    using assms(2) [of s limit]
    by (subst recover_all.simps) (auto split: prod.split sum.split)
qed

lemma settle_all_keeps:
  assumes "Q s" "\<And>limit now s. Q s \<Longrightarrow> Q (snd (settle_interrupted limit now s))"
  shows "Q (snd (settle_all limit now s))"
  using assms(1)
proof (induction limit now s rule: settle_all.induct)
  case (1 limit now s)
  then show ?case
    using assms(2) [of s limit now]
    by (subst settle_all.simps) (auto split: prod.split sum.split)
qed

lemma recover_all_ends:
  assumes "\<not> cs_closed s" "1 \<le> limit" "limit \<le> MAX_PAGE_SIZE"
  shows "\<exists>s'. recover_all limit s = (Inr (), s') \<and> \<not> cs_closed s' \<and> count_states [CLAIMED, RUNNING] s' = 0"
  using assms
proof (induction limit s rule: recover_all.induct)
  case (1 limit s)
  let ?rows = "take (nat limit) (filter (in_states [CLAIMED, RUNNING]) (cs_deliveries s))"
  let ?s' = "s\<lparr>cs_deliveries := update_rows (\<lambda>r. del_id r \<in> del_id ` set ?rows)
      (set_delivery_state REVIEW ''restart'') (cs_deliveries s)\<rparr>"
  have run: "recover_uncertain limit s = (Inr (length ?rows), ?s')"
    using "1.prems" by (simp add: recover_uncertain_def checked_def transaction_def page_size_def Let_def)
  show ?case
  proof (cases "?rows = []")
    case True
    then have none: "filter (in_states [CLAIMED, RUNNING]) (cs_deliveries s) = []"
      using "1.prems"(2) by auto
    then have "?s' = s" by (simp add: update_rows_def)
    with none run "1.prems"(1) show ?thesis by (subst recover_all.simps) (simp add: count_states_def)
  next
    case False
    then have len: "length ?rows \<noteq> 0" by simp
    then have "\<exists>s'. recover_all limit ?s' = (Inr (), s') \<and> \<not> cs_closed s' \<and> count_states [CLAIMED, RUNNING] s' = 0"
      using "1.IH" [OF run [symmetric] refl] "1.prems" by simp
    with len show ?thesis by (subst recover_all.simps) (simp only: run prod.case sum.case if_False)
  qed
qed

lemma settle_all_ends:
  assumes "\<not> cs_closed s" "1 \<le> limit" "limit \<le> MAX_PAGE_SIZE"
  shows "\<exists>s'. settle_all limit now s = (Inr (), s') \<and> count_states [REVIEW] s' = 0"
  using assms
proof (induction limit now s rule: settle_all.induct)
  case (1 limit now s)
  let ?rows = "take (nat limit) (filter (in_states [REVIEW]) (cs_deliveries s))"
  let ?s' = "fold (settle_one now) ?rows s"
  have run: "settle_interrupted limit now s = (Inr (length ?rows), ?s')"
    using "1.prems" by (simp add: settle_interrupted_def checked_def transaction_def page_size_def Let_def)
  have closed: "cs_closed (fold (settle_one now) rows s) = cs_closed s" for rows s
    by (induction rows arbitrary: s) (auto simp: settle_one_def Let_def split: option.split)
  show ?case
  proof (cases "?rows = []")
    case True
    then have none: "filter (in_states [REVIEW]) (cs_deliveries s) = []"
      using "1.prems"(2) by auto
    with run show ?thesis by (subst settle_all.simps) (simp add: count_states_def)
  next
    case False
    then have len: "length ?rows \<noteq> 0" by simp
    then have "\<exists>s'. settle_all limit now ?s' = (Inr (), s') \<and> count_states [REVIEW] s' = 0"
      using "1.IH" [OF run [symmetric] refl] "1.prems" closed by simp
    with len show ?thesis by (subst settle_all.simps) (simp only: run prod.case sum.case if_False)
  qed
qed

end
