(* ===== verification/Collab_Properties.thy ===== *)
theory Collab_Properties
  imports Collab_Mailbox
begin

text \<open>
  The contract of the mailbox: its properties, each with a concrete mailbox on which it applies. The
  sample mailbox holds two sessions; the first asks the second for work.
\<close>

section \<open>A sample mailbox\<close>

definition asker :: session_ref where "asker = \<lparr>project_id = ''p'', thread_id = ''a''\<rparr>"
definition worker :: session_ref where "worker = \<lparr>project_id = ''p'', thread_id = ''b''\<rparr>"

definition empty_mailbox :: collab_store where
  "empty_mailbox = \<lparr>cs_closed = False, cs_max_pending = 2, cs_scopes = [], cs_requests = [],
     cs_messages = [], cs_deliveries = [], cs_next_sequence = 1\<rparr>"

definition opened_mailbox :: collab_store where
  "opened_mailbox = snd (begin_scope asker ''work'' ''s1'' empty_mailbox)"

definition asked_mailbox :: collab_store where
  "asked_mailbox = snd (create_request ''s1'' asker worker ''k'' ''do'' [] ''r1'' ''m1'' ''d1'' 5 opened_mailbox)"

definition claimed_mailbox :: collab_store where
  "claimed_mailbox = snd (claim_next worker asked_mailbox)"

definition running_mailbox :: collab_store where
  "running_mailbox = snd (transition_delivery ''d1'' worker RUNNING 1 (Some ''t1'') None 6 claimed_mailbox)"

definition revoked_mailbox :: collab_store where
  "revoked_mailbox = snd (restrict_scope ''s1'' asker REVOKED 0 7 running_mailbox)"

lemmas text_eval = bounded_text_def optional_text_def validate_ref_def py_strip_def py_isspace_def
  utf8_size_def MAX_ID_BYTES_def MAX_BODY_BYTES_def MAX_REASON_BYTES_def

lemmas store_eval = checked_def transaction_def and_then_def check_version_def check_transition.simps
  read_scope_def read_request_def read_delivery_def update_rows_def Let_def

lemma refs_eval [simp]: "validate_ref asker = Inr asker" "validate_ref worker = Inr worker"
  "asker \<noteq> worker" "worker \<noteq> asker"
  by (simp_all add: text_eval asker_def worker_def)

lemma texts_eval [simp]: "bounded_text MAX_ID_BYTES ''work'' = Inr ''work''"
  "bounded_text MAX_ID_BYTES ''s1'' = Inr ''s1''" "bounded_text MAX_ID_BYTES ''r1'' = Inr ''r1''"
  "bounded_text MAX_ID_BYTES ''d1'' = Inr ''d1''" "bounded_text MAX_ID_BYTES ''d2'' = Inr ''d2''"
  "bounded_text MAX_ID_BYTES ''t1'' = Inr ''t1''" "bounded_text MAX_ID_BYTES ''t2'' = Inr ''t2''"
  "bounded_text MAX_ID_BYTES ''k'' = Inr ''k''" "bounded_text MAX_ID_BYTES ''l'' = Inr ''l''"
  "bounded_text MAX_BODY_BYTES ''do'' = Inr ''do''" "bounded_text MAX_BODY_BYTES ''ok'' = Inr ''ok''"
  "optional_text MAX_ID_BYTES [] = Inr []"
  by (simp_all add: text_eval)

definition sample_scope :: "scope_state \<Rightarrow> nat \<Rightarrow> continuation_scope" where
  "sample_scope st v = \<lparr>scope_id = ''s1'', scope_source = asker, scope_work_id = ''work'',
     scope_state = st, scope_version = v\<rparr>"

definition sample_request :: "request_state \<Rightarrow> nat \<Rightarrow> int \<Rightarrow> collab_request" where
  "sample_request st v now = \<lparr>req_id = ''r1'', req_scope_id = ''s1'', req_source = asker,
     req_target = worker, req_operation_key = ''k'', req_body = ''do'', req_anchor_turn_id = [],
     req_state = st, req_version = v, req_created_at_ms = 5, req_updated_at_ms = now,
     req_continuation = SC_ACTIVE, req_control_version = 0\<rparr>"

definition sample_message :: collab_message where
  "sample_message = \<lparr>msg_id = ''m1'', msg_request_id = ''r1'', msg_sequence = 1, msg_sender = asker,
     msg_kind = REQUEST, msg_body = ''do'', msg_operation_key = ''k'', msg_anchor_turn_id = [],
     msg_created_at_ms = 5\<rparr>"

definition sample_delivery :: "delivery_state \<Rightarrow> nat \<Rightarrow> string option \<Rightarrow> delivery" where
  "sample_delivery st v turn = \<lparr>del_id = ''d1'', del_message_id = ''m1'', del_request_id = ''r1'',
     del_recipient = worker, del_scope_id = ''s1'', del_state = st, del_version = v,
     del_turn_id = turn, del_reason = None, del_sequence = 1\<rparr>"

lemmas sample_defs = sample_scope_def sample_request_def sample_message_def sample_delivery_def empty_mailbox_def

lemma opened_value: "opened_mailbox = empty_mailbox\<lparr>cs_scopes := [sample_scope SC_ACTIVE 0]\<rparr>"
  by (simp add: opened_mailbox_def begin_scope_def store_eval sample_defs)

lemma asked_value: "asked_mailbox = empty_mailbox\<lparr>cs_scopes := [sample_scope SC_ACTIVE 0],
   cs_requests := [sample_request RQ_PENDING 0 5], cs_messages := [sample_message],
   cs_deliveries := [sample_delivery PENDING 0 None], cs_next_sequence := 2\<rparr>"
  by (simp add: asked_mailbox_def opened_value create_request_def append_message_def messages_of_def
      append_executable_def unresolved_count_def MAX_MESSAGES_def store_eval sample_defs)

lemma claimed_value: "claimed_mailbox = asked_mailbox\<lparr>cs_deliveries := [sample_delivery CLAIMED 1 None]\<rparr>"
  by (simp add: claimed_mailbox_def asked_value claim_next_def has_owner_def claim_row_def owner_states_def
      store_eval sample_defs)

lemma running_value: "running_mailbox = asked_mailbox\<lparr>cs_requests := [sample_request WORKING 1 6],
    cs_deliveries := [sample_delivery RUNNING 2 (Some ''t1'')]\<rparr>"
  by (simp add: running_mailbox_def claimed_value asked_value transition_delivery_def start_checks_def
      start_allowed_def execution_refused_def move_row_def or_else_def set_request_state_def
      one_delivery_owner_def store_eval sample_defs)

lemma revoked_value: "revoked_mailbox = running_mailbox\<lparr>cs_scopes := [sample_scope REVOKED 1]\<rparr>"
  by (simp add: revoked_mailbox_def running_value asked_value restrict_scope_def restrict_scope_rows_def
      disable_deliveries_def request_owned_def store_eval sample_defs)

lemma empty_reach: "collab_reach empty_mailbox"
  by (rule reach.reach_init, rule is_new_collab_store.intros [of 2])
     (simp add: new_collab_store_def empty_mailbox_def)

lemma opened_reach: "collab_reach opened_mailbox"
  unfolding opened_mailbox_def
  by (rule reach.reach_step [OF empty_reach]) (rule step_begin_scope, simp add: empty_mailbox_def)

lemma asked_reach: "collab_reach asked_mailbox"
  unfolding asked_mailbox_def
  by (rule reach.reach_step [OF opened_reach], rule step_create_request)
     (simp_all add: opened_value empty_mailbox_def fresh_message_ids_def)

lemma claimed_reach: "collab_reach claimed_mailbox"
  unfolding claimed_mailbox_def by (rule reach.reach_step [OF asked_reach step_claim_next])

lemma running_step: "collab_step claimed_mailbox running_mailbox"
  unfolding running_mailbox_def by (rule step_transition_delivery)

lemma running_run: "collab_step\<^sup>*\<^sup>* claimed_mailbox running_mailbox"
  using running_step by (rule r_into_rtranclp)

lemma running_reach: "collab_reach running_mailbox"
  by (rule reach.reach_step [OF claimed_reach running_step])

lemma revoked_reach: "collab_reach revoked_mailbox"
  unfolding revoked_mailbox_def by (rule reach.reach_step [OF running_reach step_restrict_scope])

section \<open>History\<close>

text \<open>
  C27: Deliveries are never lost and never rewritten. In every later state the delivery is still found
  under its id, with the same message, recipient and sequence; its state has moved only along the
  edges of the transition table, so a settled or cancelled delivery stays as it is, and a version that
  has not moved certifies that nothing in the row has changed.
\<close>

theorem delivery_history:
  assumes "collab_reach s" "collab_step\<^sup>*\<^sup>* s s'" "d \<in> set (cs_deliveries s)"
  shows "\<exists>d'. find (\<lambda>r. del_id r = del_id d) (cs_deliveries s') = Some d' \<and>
    del_message_id d' = del_message_id d \<and> del_recipient d' = del_recipient d \<and>
    del_sequence d' = del_sequence d \<and>
    (\<lambda>a b. b \<in> set (delivery_edges a))\<^sup>*\<^sup>* (del_state d) (del_state d') \<and>
    (del_state d = SETTLED \<or> del_state d = CANCELLED \<longrightarrow> del_state d' = del_state d) \<and>
    (del_version d' = del_version d \<longrightarrow> d' = d)"
proof -
  have edge: "delivery_edge = (\<lambda>a b. b \<in> set (delivery_edges a))"
    by (simp add: fun_eq_iff delivery_edge_def)
  obtain d' where d': "find (\<lambda>r. del_id r = del_id d) (cs_deliveries s') = Some d'" "del_evolves d d'"
    by (rule delivery_later [OF assms])
  then show ?thesis
    using delivery_final [of "del_state d" "del_state d'"]
    by (intro exI [of _ d']) (auto simp: del_evolves_def edge)
qed

theorem delivery_history_witness:
  "\<exists>d'. find (\<lambda>r. del_id r = ''d1'') (cs_deliveries running_mailbox) = Some d' \<and>
     (\<lambda>a b. b \<in> set (delivery_edges a))\<^sup>*\<^sup>* CLAIMED (del_state d')"
proof -
  have d: "sample_delivery CLAIMED 1 None \<in> set (cs_deliveries claimed_mailbox)"
    by (simp add: claimed_value)
  from delivery_history [OF claimed_reach running_run d]
  show ?thesis by (auto simp: sample_delivery_def)
qed

section \<open>Ownership and bounds\<close>

text \<open>
  C28: A session is worked for one delivery at a time: in every reachable mailbox two deliveries of
  the same recipient that are claimed, running or held for review are the same delivery.
\<close>

theorem one_worker_per_recipient:
  assumes "collab_reach s" "d1 \<in> set (cs_deliveries s)" "d2 \<in> set (cs_deliveries s)"
    and "del_recipient d1 = del_recipient d2"
    and "del_state d1 \<in> {CLAIMED, RUNNING, REVIEW}" "del_state d2 \<in> {CLAIMED, RUNNING, REVIEW}"
  shows "d1 = d2"
proof -
  have "distinct (map del_recipient (filter (\<lambda>d. del_state d \<in> set owner_states) (cs_deliveries s)))"
    using reach_parts(3) [OF assms(1)] by (simp add: one_delivery_owner_def)
  then show ?thesis
    by (rule distinct_map_unique) (use assms in \<open>auto simp: owner_states_def\<close>)
qed

theorem one_worker_per_recipient_witness:
  "hd (cs_deliveries running_mailbox) = last (cs_deliveries running_mailbox)"
  by (rule one_worker_per_recipient [OF running_reach]) (simp_all add: running_value sample_delivery_def)

text \<open>
  The mailbox is bounded and every thread is numbered without a gap. A recipient never has more
  unresolved deliveries than the configured capacity; the messages of a request are numbered
  1, 2, ..., n with n at most 64; at most one of them is a reply; and only a reply is the 64th.
\<close>

theorem mailbox_bounded:
  assumes "collab_reach s"
  shows "unresolved_count r (cs_deliveries s) \<le> cs_max_pending s \<and>
    map msg_sequence (messages_of rid s) = [1..<Suc (length (messages_of rid s))] \<and>
    length (messages_of rid s) \<le> MAX_MESSAGES \<and>
    length (filter (\<lambda>m. msg_kind m = REPLY) (messages_of rid s)) \<le> 1 \<and>
    (length (messages_of rid s) = MAX_MESSAGES \<longrightarrow> REPLY \<in> msg_kind ` set (messages_of rid s))"
proof -
  let ?ms = "messages_of rid s"
  have t: "map msg_sequence ?ms = [1..<Suc (length ?ms)]"
    "length (filter (\<lambda>m. \<not> is_reply m) ?ms) \<le> MAX_MESSAGES - 1" "length (filter is_reply ?ms) \<le> 1"
    using reach_parts(5) [OF assms] by (auto simp: thread_inv_def)
  have sum: "length (filter is_reply ?ms) + length (filter (\<lambda>m. \<not> is_reply m) ?ms) = length ?ms"
    by (rule sum_length_filter_compl)
  have "REPLY \<in> msg_kind ` set ?ms" if "length ?ms = MAX_MESSAGES"
  proof -
    have "filter is_reply ?ms \<noteq> []" using that sum t(2) by (auto simp: MAX_MESSAGES_def)
    then obtain m where "m \<in> set ?ms" "is_reply m" by (auto simp: filter_empty_conv)
    then show ?thesis by (metis imageI is_reply_def)
  qed
  moreover have "is_reply = (\<lambda>m. msg_kind m = REPLY)" by (simp add: fun_eq_iff is_reply_def)
  ultimately show ?thesis
    using t sum reach_parts(4) [OF assms] unfolding capacity_inv_def MAX_MESSAGES_def by auto
qed

theorem mailbox_bounded_witness:
  "unresolved_count worker (cs_deliveries running_mailbox) \<le> 2 \<and>
   map msg_sequence (messages_of ''r1'' running_mailbox) = [1]"
proof -
  have "cs_max_pending running_mailbox = 2" "length (messages_of ''r1'' running_mailbox) = 1"
    by (simp_all add: running_value asked_value messages_of_def sample_defs)
  with mailbox_bounded [OF running_reach, of worker "''r1''"] show ?thesis by simp
qed

section \<open>Claims\<close>

lemma find_first_sorted:
  assumes "sorted_wrt (<) (map f xs)" "find P xs = Some d" "e \<in> set xs" "P e"
  shows "f d \<le> (f e :: nat)"
  using assms by (induction xs) (auto split: if_splits)

text \<open>
  Claims are first-in first-out. A recipient that owns something, or has nothing pending, gets
  nothing and nothing changes; otherwise it gets its pending delivery with the lowest sequence, which
  becomes claimed with the next version, and every other row stays as it was.
\<close>

theorem claim_is_fifo:
  assumes "collab_reach s" "\<not> cs_closed s" "validate_ref r = Inr r" "claim_next r s = (Inr c, s')"
  shows "(c = None \<longleftrightarrow> (\<forall>d \<in> set (cs_deliveries s). del_recipient d = r \<longrightarrow> del_state d \<noteq> PENDING) \<or>
       (\<exists>d \<in> set (cs_deliveries s). del_recipient d = r \<and> del_state d \<in> {CLAIMED, RUNNING, REVIEW})) \<and>
    (c = None \<longrightarrow> s' = s) \<and>
    (\<forall>x. c = Some x \<longrightarrow>
       (\<exists>d \<in> set (cs_deliveries s). del_recipient d = r \<and> del_state d = PENDING \<and>
          x = d\<lparr>del_state := CLAIMED, del_version := Suc (del_version d)\<rparr> \<and>
          (\<forall>e \<in> set (cs_deliveries s). del_recipient e = r \<and> del_state e = PENDING \<longrightarrow>
             del_sequence d \<le> del_sequence e) \<and>
          cs_deliveries s' = map (\<lambda>e. if del_id e = del_id d then x else e) (cs_deliveries s)))"
proof -
  let ?ds = "cs_deliveries s"
  let ?P = "\<lambda>d. del_recipient d = r \<and> del_state d = PENDING"
  have ids: "distinct (map del_id ?ds)" and seq: "sorted_wrt (<) (map del_sequence ?ds)"
    using reach_parts(2,7) [OF assms(1)] by (auto simp: ids_inv_def sequence_inv_def)
  have owner: "has_owner r ?ds \<longleftrightarrow>
      (\<exists>d \<in> set ?ds. del_recipient d = r \<and> del_state d \<in> {CLAIMED, RUNNING, REVIEW})"
    by (simp add: has_owner_def list_ex_iff owner_states_def)
  show ?thesis
  proof (cases "has_owner r ?ds \<or> find ?P ?ds = None")
    case True
    with assms(2-4) have "c = None \<and> s' = s"
      by (auto simp: claim_next_def checked_def transaction_def split: if_splits)
    with True owner show ?thesis by (auto simp: find_None_iff)
  next
    case False
    then obtain d where d: "find ?P ?ds = Some d" and free: "\<not> has_owner r ?ds" by auto
    note row = find_SomeD [OF d]
    have eqs: "update_rows (\<lambda>e. del_id e = del_id d) claim_row ?ds =
        map (\<lambda>e. if del_id e = del_id d then claim_row d else e) ?ds"
      unfolding update_rows_def
      by (intro map_cong refl) (use distinct_map_unique [OF ids _ conjunct1 [OF row]] in auto)
    let ?new = "map (\<lambda>e. if del_id e = del_id d then claim_row d else e) ?ds"
    have "map del_id ?new = map del_id ?ds" by (simp add: claim_row_def)
    then have "distinct (map del_id ?new)" using ids by metis
    moreover have "claim_row d \<in> set ?new" using row by force
    ultimately have "find (\<lambda>e. del_id e = del_id d) ?new = Some (claim_row d)"
      using find_unique [of del_id ?new "claim_row d"] by (simp add: claim_row_def)
    with assms(2-4) d free eqs have c: "c = Some (claim_row d)"
      "cs_deliveries s' = map (\<lambda>e. if del_id e = del_id d then claim_row d else e) ?ds"
      by (auto simp: claim_next_def checked_def transaction_def Let_def)
    have "del_sequence d \<le> del_sequence e" if "e \<in> set ?ds" "?P e" for e
      using find_first_sorted [OF seq d that] .
    with c row free owner show ?thesis by (auto simp: claim_row_def)
  qed
qed

theorem claim_is_fifo_witness:
  "\<exists>d \<in> set (cs_deliveries asked_mailbox). del_state d = PENDING \<and>
     fst (claim_next worker asked_mailbox) = Inr (Some (d\<lparr>del_state := CLAIMED, del_version := Suc (del_version d)\<rparr>))"
proof -
  have c: "claim_next worker asked_mailbox = (Inr (Some (sample_delivery CLAIMED 1 None)), claimed_mailbox)"
    by (simp add: claimed_value asked_value claim_next_def has_owner_def claim_row_def owner_states_def
      store_eval sample_defs)
  from claim_is_fifo [OF asked_reach _ _ c] show ?thesis
    by (simp add: c) (simp add: asked_value sample_defs)
qed

section \<open>Operation keys and versions\<close>

text \<open>
  A retried request is not a second request. Once a request has been created under an operation
  key of a scope, then in every later state of the open store creating it again with the same content
  returns the request as it now is and changes nothing, whatever ids the retry has drawn; and with any
  other content or target the key is refused, also without a change.
\<close>

theorem request_key_idempotent:
  assumes "collab_reach s" "rid \<notin> req_id ` set (cs_requests s)" "fresh_message_ids mid did s"
    and "create_request sid source target key body anchor rid mid did now s = (Inr r, s1)"
    and "collab_step\<^sup>*\<^sup>* s1 s2" "\<not> cs_closed s2"
  shows "(\<exists>r'. create_request sid source target key body anchor rid' mid' did' now' s2 = (Inr r', s2) \<and>
       req_id r' = req_id r \<and> r' \<in> set (cs_requests s2)) \<and>
    snd (create_request sid source target' key body' anchor' rid' mid' did' now' s2) = s2"
proof -
  have step: "collab_step s s1"
    using step_create_request [OF assms(2,3), of sid source target key body anchor now] assms(4) by simp
  have inv: "collab_inv s" using reach_parts(1) [OF assms(1)] .
  have le2: "store_le s1 s2"
    using collab_history.run_mono [OF assms(5)] collab_step_inv [OF inv step] by simp
  have le: "store_le s s2" using store_le_trans [OF collab_step_le [OF inv step] le2] .
  note args = create_request_scope [OF assms(4)]
  from args(1) obtain scope where scope: "read_scope sid s2 = Inr scope" "scope_source scope = source"
    using read_scope_later [OF le] by (auto simp: scope_evolves_def)
  obtain r' where r': "find (\<lambda>r. req_scope_id r = sid \<and> req_operation_key r = key) (cs_requests s2) = Some r'"
    "req_evolves r r'"
    using request_key_later [OF le2 create_request_key(1) [OF assms(4,2)]] by blast
  have same: "req_id r' = req_id r" "req_target r' = target" "req_body r' = body" "req_anchor_turn_id r' = anchor"
    using r'(2) create_request_key(2-4) [OF assms(4,2)] by (simp_all add: req_evolves_def)
  have "create_request sid source target key body anchor rid' mid' did' now' s2 = (Inr r', s2)"
    using args(2) scope r'(1) same assms(6)
    by (auto simp: create_request_def checked_def transaction_def)
  moreover have "snd (create_request sid source target' key body' anchor' rid' mid' did' now' s2) = s2"
    using scope r'(1) assms(6)
    by (auto simp: create_request_def checked_def transaction_def split: sum.split)
  ultimately show ?thesis using same(1) find_SomeD [OF r'(1)] by blast
qed

theorem request_key_idempotent_witness:
  "\<exists>r'. create_request ''s1'' asker worker ''k'' ''do'' [] ''r2'' ''m2'' ''d2'' 9 running_mailbox =
     (Inr r', running_mailbox) \<and> req_id r' = ''r1''"
proof -
  have c: "create_request ''s1'' asker worker ''k'' ''do'' [] ''r1'' ''m1'' ''d1'' 5 opened_mailbox =
      (Inr (sample_request RQ_PENDING 0 5), asked_mailbox)"
    by (simp add: asked_value opened_value create_request_def append_message_def messages_of_def
      append_executable_def unresolved_count_def MAX_MESSAGES_def store_eval sample_defs)
  have run: "collab_step\<^sup>*\<^sup>* asked_mailbox running_mailbox"
    using running_run by (rule converse_rtranclp_into_rtranclp [rotated])
       (simp add: claimed_mailbox_def step_claim_next)
  have "''r1'' \<notin> req_id ` set (cs_requests opened_mailbox)" "fresh_message_ids ''m1'' ''d1'' opened_mailbox"
    "\<not> cs_closed running_mailbox"
    by (simp_all add: opened_value running_value asked_value empty_mailbox_def fresh_message_ids_def)
  note key = request_key_idempotent [OF opened_reach this(1,2) c run this(3)]
  have "req_id (sample_request RQ_PENDING 0 5) = ''r1''" by (simp add: sample_request_def)
  with key show ?thesis by metis
qed

text \<open>
  C29: The stop fence holds. Once a collaboration scope is revoked, no delivery of it ever starts
  again: whatever the workers, the agents and the clients do afterwards, a delivery of the scope that
  is running later was already running when the scope was revoked.
\<close>

theorem stop_fence:
  assumes "collab_reach s" "c \<in> set (cs_scopes s)" "scope_state c = REVOKED" "collab_step\<^sup>*\<^sup>* s s'"
    and "d' \<in> set (cs_deliveries s')" "del_scope_id d' = scope_id c" "del_state d' = RUNNING"
  shows "\<exists>d \<in> set (cs_deliveries s). del_id d = del_id d' \<and> del_state d = RUNNING"
  using run_starts_under_scope [OF assms(1,4,2,3,5-7)] by blast

theorem stop_fence_witness:
  "\<exists>d \<in> set (cs_deliveries revoked_mailbox). del_id d = ''d1'' \<and> del_state d = RUNNING"
proof -
  have "sample_scope REVOKED 1 \<in> set (cs_scopes revoked_mailbox)"
    "sample_delivery RUNNING 2 (Some ''t1'') \<in> set (cs_deliveries revoked_mailbox)"
    by (simp_all add: revoked_value running_value)
  from stop_fence [OF revoked_reach this(1) _ rtranclp.rtrancl_refl this(2)] show ?thesis
    by (simp add: sample_defs)
qed

text \<open>
  A delivery version can be used once. When a transition has succeeded at a version, every other
  attempt at that version is refused in every later state and changes nothing, so of two workers that
  read the same row only one can move it.
\<close>

theorem version_used_once:
  assumes "collab_reach s" "transition_delivery did recipient st v turn reason now s = (Inr r, s1)"
    and "collab_step\<^sup>*\<^sup>* s1 s2"
  shows "\<exists>e. transition_delivery did recipient' st' v turn' reason' now' s2 = (Inl e, s2)"
proof -
  from assms(2) obtain d request s0 where d: "read_delivery did recipient s = Inr d" "int (del_version d) = v"
    and start: "(if st = RUNNING then start_checks d request recipient now s else Inr s) = Inr s0"
    and s1: "s1 = s0\<lparr>cs_deliveries := update_rows (\<lambda>r. del_id r = did) (move_row st turn reason) (cs_deliveries s0)\<rparr>"
    by (rule transition_Inr)
  have ds: "cs_deliveries s0 = cs_deliveries s"
    using start by (auto simp: start_checks_def and_then_Inr if_Inl_Inr split: option.splits if_splits)
  have step: "collab_step s s1"
    using step_transition_delivery [of s did recipient st v turn reason now] assms(2) by simp
  have reach1: "collab_reach s1" using reach.reach_step [OF assms(1) step] .
  note row = read_delivery_row [OF d(1)]
  have moved: "move_row st turn reason d \<in> set (cs_deliveries s1)"
    using row unfolding s1 by (auto simp: ds update_rows_def)
  have "del_id (move_row st turn reason d) = did" using row by (simp add: move_row_def)
  then obtain d2 where d2: "find (\<lambda>x. del_id x = did) (cs_deliveries s2) = Some d2"
    "del_evolves (move_row st turn reason d) d2"
    using delivery_later [OF reach1 assms(3) moved] by metis
  then have "v < int (del_version d2)"
    using d(2) by (auto simp: del_evolves_def move_row_def)
  then have "x \<noteq> Inr y" if "x = fst (transition_delivery did recipient' st' v turn' reason' now' s2)" for x y
    using d2(1) unfolding that transition_delivery_def checked_def transaction_def
    by (auto simp: read_delivery_def and_then_Inr if_Inl_Inr split: sum.splits if_splits)
  then obtain e where e: "fst (transition_delivery did recipient' st' v turn' reason' now' s2) = Inl e"
    by (metis sum.exhaust_sel)
  then have "snd (transition_delivery did recipient' st' v turn' reason' now' s2) = s2"
    by (auto simp: transition_delivery_def checked_def transaction_def split: sum.splits if_splits)
  with e show ?thesis by (metis prod.collapse)
qed

theorem version_used_once_witness:
  "\<exists>e. transition_delivery ''d1'' worker RUNNING 1 (Some ''t2'') None 8 running_mailbox = (Inl e, running_mailbox)"
proof -
  have "transition_delivery ''d1'' worker RUNNING 1 (Some ''t1'') None 6 claimed_mailbox =
      (Inr (sample_delivery RUNNING 2 (Some ''t1'')), running_mailbox)"
    by (simp add: running_value claimed_value asked_value transition_delivery_def start_checks_def
      start_allowed_def execution_refused_def move_row_def or_else_def set_request_state_def
      one_delivery_owner_def store_eval sample_defs)
  from version_used_once [OF claimed_reach this rtranclp.rtrancl_refl] show ?thesis .
qed

section \<open>Replies\<close>

text \<open>
  The final reply always fits. However many clarifications, supplements and progress notes a
  request has seen, the target of a request that is being worked can post its reply: with a valid text
  under a new operation key, and unless the mailbox of the source is full, the reply is accepted as the
  next message and the request becomes replied.
\<close>

theorem reply_always_fits:
  assumes "collab_reach s" "\<not> cs_closed s" "read_request rid target s = Inr q" "target = req_target q"
    and "target \<noteq> req_source q"
    and "req_state q = WORKING \<or> req_state q = WAITING_INPUT" "read_scope (req_scope_id q) s = Inr c"
    and "bounded_text MAX_BODY_BYTES body = Inr body" "bounded_text MAX_ID_BYTES key = Inr key"
    and "find (\<lambda>m. msg_request_id m = rid \<and> msg_sender m = target \<and> msg_operation_key m = key) (cs_messages s) = None"
    and "unresolved_count (req_source q) (cs_deliveries s) < cs_max_pending s"
  shows "\<exists>m s'. post_message rid target REPLY body key [] mid did now s = (Inr m, s') \<and>
    msg_sequence m = Suc (length (messages_of rid s)) \<and> msg_body m = body \<and>
    cs_messages s' = cs_messages s @ [m] \<and>
    (\<exists>q' \<in> set (cs_requests s'). req_id q' = rid \<and> req_state q' = REPLIED)"
proof -
  note row = read_request_row [OF assms(3)]
  have inv: "reply_inv s" "thread_inv s" using reach_parts [OF assms(1)] by auto
  let ?s1 = "cancel_pending_clarifications rid s"
  have "filter is_reply (messages_of rid s) = []"
    using inv(1) row assms(6) by (auto simp: reply_inv_def)
  moreover have "length (filter (\<lambda>m. \<not> is_reply m) (messages_of rid s)) \<le> MAX_MESSAGES - 1"
    using inv(2) by (simp add: thread_inv_def)
  ultimately have room: "length (messages_of rid s) < MAX_MESSAGES"
    using sum_length_filter_compl [of is_reply "messages_of rid s"] by (simp add: MAX_MESSAGES_def)
  have full: "\<not> cs_max_pending s \<le> unresolved_count (req_source q) (cs_deliveries ?s1)"
    using touch_unresolved [of "cs_deliveries s" "cs_deliveries ?s1" "req_source q"]
      cancel_clarifications_touch(1) [of s rid] assms(11) by (auto simp: store_touch_def)
  have scope: "read_scope (req_scope_id q) ?s1 = Inr c"
    using assms(7) by (simp add: read_scope_def)
  have "\<exists>m s2. append_message q target REPLY body key [] mid did now ?s1 = Inr (m, s2)"
    using room full scope row assms(4,5) by (simp add: append_message_def Let_def not_le)
  then obtain m s2 where app: "append_message q target REPLY body key [] mid did now ?s1 = Inr (m, s2)"
    by blast
  let ?s3 = "s2\<lparr>cs_requests := update_rows (\<lambda>r. req_id r = rid) (set_request_state REPLIED now) (cs_requests s2)\<rparr>"
  have edge: "check_transition (OfRequest (req_state q)) (OfRequest REPLIED) = Inr ()"
    using assms(6) by (auto simp: check_transition_Inr)
  have post: "post_message rid target REPLY body key [] mid did now s = (Inr m, ?s3)"
    using assms(2-5,8-10) app edge
    by (simp add: post_message_def checked_def transaction_def Let_def optional_text_def)
  obtain d where m: "msg_sequence m = Suc (length (messages_of rid s))" "msg_body m = body"
    "cs_messages s2 = cs_messages s @ [m]"
    by (rule append_Inr [OF app]) (use row in auto)
  have "set_request_state REPLIED now q \<in> set (cs_requests ?s3)"
    using row append_rest(1) [OF app] by (auto simp: update_rows_def)
  then have "\<exists>q' \<in> set (cs_requests ?s3). req_id q' = rid \<and> req_state q' = REPLIED"
    by (rule rev_bexI) (use row in \<open>simp add: set_request_state_def\<close>)
  with post m show ?thesis by (intro exI [of _ m] exI [of _ ?s3]) simp
qed

theorem reply_always_fits_witness:
  "\<exists>m s'. post_message ''r1'' worker REPLY ''ok'' ''k'' [] ''m2'' ''d2'' 9 running_mailbox = (Inr m, s') \<and>
     msg_sequence m = 2"
proof -
  have "\<exists>m s'. post_message ''r1'' worker REPLY ''ok'' ''k'' [] ''m2'' ''d2'' 9 running_mailbox = (Inr m, s') \<and>
    msg_sequence m = Suc (length (messages_of ''r1'' running_mailbox)) \<and> msg_body m = ''ok'' \<and>
    cs_messages s' = cs_messages running_mailbox @ [m] \<and>
    (\<exists>q' \<in> set (cs_requests s'). req_id q' = ''r1'' \<and> req_state q' = REPLIED)"
    by (rule reply_always_fits [OF running_reach, where q = "sample_request WORKING 1 6" and c = "sample_scope SC_ACTIVE 0"])
       (simp_all add: running_value asked_value store_eval sample_defs unresolved_count_def)
  moreover have "length (messages_of ''r1'' running_mailbox) = 1"
    by (simp add: running_value asked_value sample_defs messages_of_def)
  ultimately show ?thesis by auto
qed

section \<open>Session references\<close>

lemma dropWhile_hd: "xs \<noteq> [] \<Longrightarrow> \<not> P (hd xs) \<Longrightarrow> dropWhile P xs = xs"
  by (cases xs) auto

lemma dropWhile_nonempty: "dropWhile P xs \<noteq> [] \<Longrightarrow> \<not> P (hd (dropWhile P xs))"
  by (rule hd_dropWhile)

lemma py_strip_ends:
  assumes "py_strip s \<noteq> []"
  shows "\<not> py_isspace (hd (py_strip s)) \<and> \<not> py_isspace (last (py_strip s))"
proof -
  have "\<not> py_isspace (last (py_strip s))"
    using assms dropWhile_nonempty [of py_isspace "rev (dropWhile py_isspace s)"]
    by (simp add: py_strip_def last_rev)
  moreover have "\<not> py_isspace (hd (py_strip s))"
  proof -
    have "dropWhile py_isspace (py_strip s) = py_strip s"
      unfolding py_strip_def by (rule dropWhile_rev_idem [OF dropWhile_idem])
    then show ?thesis using assms by (metis dropWhile_nonempty)
  qed
  ultimately show ?thesis by simp
qed

lemma py_strip_same:
  assumes "s \<noteq> []" "\<not> py_isspace (hd s)" "\<not> py_isspace (last s)"
  shows "py_strip s = s"
  using assms by (simp add: py_strip_def dropWhile_hd hd_rev)

lemma py_strip_set: "set (py_strip s) \<subseteq> set s"
  unfolding py_strip_def by (auto dest!: set_dropWhileD)

lemma before_colon_free: "CHR '':'' \<notin> set (before_colon s)"
  unfolding before_colon_def by (auto dest: set_takeWhileD)

text \<open>
  Global ids round-trip. Whatever text a reference was parsed from, its parts are stripped and
  not empty, the project part holds no colon, and parsing the global id of the reference gives the same
  reference again.
\<close>

theorem global_id_roundtrip:
  assumes "parse_global_id v = Inr r"
  shows "parse_global_id (global_id r) = Inr r \<and> CHR '':'' \<notin> set (project_id r) \<and>
    project_id r \<noteq> [] \<and> thread_id r \<noteq> [] \<and>
    py_strip (project_id r) = project_id r \<and> py_strip (thread_id r) = thread_id r"
proof -
  let ?b = "before_colon (py_strip v)" and ?a = "after_colon (py_strip v)"
  from assms have r: "r = \<lparr>project_id = py_strip ?b, thread_id = py_strip ?a\<rparr>"
    "py_strip ?b \<noteq> []" "py_strip ?a \<noteq> []"
    by (auto simp: parse_global_id_def Let_def split: if_splits)
  have colon: "CHR '':'' \<notin> set (py_strip ?b)"
    using py_strip_set before_colon_free by blast
  have "py_strip (global_id r) = global_id r"
    using r py_strip_ends [OF r(2)] py_strip_ends [OF r(3)]
    by (intro py_strip_same) (auto simp: global_id_def)
  then show ?thesis
    using r colon before_after_colon [OF colon, of "py_strip ?a"]
    by (simp add: parse_global_id_def Let_def global_id_def)
qed

theorem global_id_roundtrip_witness:
  "parse_global_id '' p : a '' = Inr asker \<and> parse_global_id (global_id asker) = Inr asker"
proof -
  have p: "parse_global_id '' p : a '' = Inr asker"
    by (simp add: parse_global_id_def Let_def py_strip_def py_isspace_def before_colon_def after_colon_def asker_def)
  with global_id_roundtrip [OF p] show ?thesis by simp
qed

end
