(* ===== verification/Collab_Execution.thy ===== *)
theory Collab_Execution
  imports Collab_Worker Collab_Properties
begin

text \<open>
  What the layer above the mailbox achieves: a restart frees every mailbox, a finished turn closes its
  delivery and fails a request that was left unanswered, how a refused start ends, and what stopping
  leaves behind.
\<close>

section \<open>Restart\<close>

definition restart_row :: "delivery \<Rightarrow> delivery \<Rightarrow> bool" where
  "restart_row d d' \<longleftrightarrow> del_id d' = del_id d \<and>
     (d' = d \<or> (del_state d \<in> set owner_states \<and> del_state d' \<in> {REVIEW, SETTLED}))"

lemma restart_row_refl: "restart_row d d"
  by (simp add: restart_row_def)

lemma restart_row_trans: "restart_row a b \<Longrightarrow> restart_row b c \<Longrightarrow> restart_row a c"
  by (auto simp: restart_row_def)

lemma restart_rows_trans:
  "list_all2 restart_row a b \<Longrightarrow> list_all2 restart_row b c \<Longrightarrow> list_all2 restart_row a c"
  by (rule list_all2_trans [where ?P1.0 = restart_row and ?P2.0 = restart_row]) (rule restart_row_trans)

lemma recover_rows:
  assumes "collab_inv s"
  shows "list_all2 restart_row (cs_deliveries s) (cs_deliveries (snd (recover_uncertain limit s)))"
proof -
  have ids: "distinct (map del_id (cs_deliveries s))"
    using assms by (simp add: collab_inv_def tables_inv_def ids_inv_def)
  let ?P = "\<lambda>d. del_id d \<in> del_id ` set (take (nat limit) (filter (in_states [CLAIMED, RUNNING]) (cs_deliveries s)))"
  have "list_all2 restart_row (cs_deliveries s)
      (update_rows ?P (set_delivery_state REVIEW ''restart'') (cs_deliveries s))"
  proof (rule update_rows_all2 [OF _ restart_row_refl])
    fix d assume "d \<in> set (cs_deliveries s)" "?P d"
    then have "in_states [CLAIMED, RUNNING] d" by (rule distinct_rows_pick [OF ids])
    then show "restart_row d (set_delivery_state REVIEW ''restart'' d)"
      by (auto simp: in_states_def restart_row_def set_delivery_state_def owner_states_def)
  qed
  then show ?thesis
    by (auto simp: recover_uncertain_def checked_def transaction_def Let_def list.rel_refl restart_row_refl
        split: sum.split)
qed

lemma settle_one_rows:
  assumes "ids_inv s" "d \<in> set (cs_deliveries s)" "del_state d = REVIEW"
  shows "list_all2 restart_row (cs_deliveries s) (cs_deliveries (settle_one now d s))"
  unfolding settle_one_touch(3) [OF assms]
proof (rule update_rows_all2 [OF _ restart_row_refl])
  fix e assume "e \<in> set (cs_deliveries s)" "del_id e = del_id d"
  then have "e = d" using delivery_unique [OF assms(1)] assms(2) by blast
  then show "restart_row e (set_delivery_state SETTLED ''interrupted'' e)"
    using assms(3) by (simp add: restart_row_def set_delivery_state_def owner_states_def)
qed

lemma settle_fold_rows:
  assumes "ids_inv s" "distinct (map del_id rows)"
    "\<And>d. d \<in> set rows \<Longrightarrow> d \<in> set (cs_deliveries s) \<and> del_state d = REVIEW"
  shows "list_all2 restart_row (cs_deliveries s) (cs_deliveries (fold (settle_one now) rows s))"
  using assms
proof (induction rows arbitrary: s)
  case Nil
  then show ?case by (simp add: list.rel_refl restart_row_refl)
next
  case (Cons d rows)
  have d: "d \<in> set (cs_deliveries s)" "del_state d = REVIEW" using Cons.prems(3) by auto
  note step = settle_one_touch [OF Cons.prems(1) d, of now]
  have "list_all2 restart_row (cs_deliveries (settle_one now d s))
      (cs_deliveries (fold (settle_one now) rows (settle_one now d s)))"
  proof (rule Cons.IH)
    show "ids_inv (settle_one now d s)" using touch_ids_inv [OF Cons.prems(1) step(1)] .
    show "distinct (map del_id rows)" using Cons.prems(2) by simp
    fix e assume e: "e \<in> set rows"
    then have "e \<in> set (cs_deliveries s) \<and> del_state e = REVIEW" using Cons.prems(3) by simp
    moreover have "del_id e \<noteq> del_id d" using e Cons.prems(2) by (auto simp: image_iff)
    ultimately show "e \<in> set (cs_deliveries (settle_one now d s)) \<and> del_state e = REVIEW"
      unfolding step(3) update_rows_def by force
  qed
  with settle_one_rows [OF Cons.prems(1) d] show ?case by (auto intro: restart_rows_trans)
qed

lemma settle_rows:
  assumes "collab_inv s"
  shows "list_all2 restart_row (cs_deliveries s) (cs_deliveries (snd (settle_interrupted limit now s)))"
proof -
  have ids: "ids_inv s" using assms by (simp add: collab_inv_def tables_inv_def)
  let ?rows = "take (nat limit) (filter (in_states [REVIEW]) (cs_deliveries s))"
  have "distinct (map del_id ?rows)"
    using ids by (simp add: ids_inv_def take_map [symmetric] distinct_map_filter)
  moreover have "d \<in> set (cs_deliveries s) \<and> del_state d = REVIEW" if "d \<in> set ?rows" for d
    using in_set_takeD [OF that] by (simp add: in_states_def)
  ultimately have "list_all2 restart_row (cs_deliveries s) (cs_deliveries (fold (settle_one now) ?rows s))"
    by (rule settle_fold_rows [OF ids])
  then show ?thesis
    by (auto simp: settle_interrupted_def checked_def transaction_def Let_def list.rel_refl restart_row_refl
        split: sum.split)
qed

lemma restart_rows:
  assumes "collab_inv s"
  shows "collab_inv (snd (recover_all limit s)) \<and>
      list_all2 restart_row (cs_deliveries s) (cs_deliveries (snd (recover_all limit s)))"
    and "collab_inv (snd (settle_all limit now s)) \<and>
      list_all2 restart_row (cs_deliveries s) (cs_deliveries (snd (settle_all limit now s)))"
proof -
  have init: "collab_inv s \<and> list_all2 restart_row (cs_deliveries s) (cs_deliveries s)"
    using assms by (simp add: list.rel_refl restart_row_refl)
  show "collab_inv (snd (recover_all limit s)) \<and>
      list_all2 restart_row (cs_deliveries s) (cs_deliveries (snd (recover_all limit s)))"
    using init by (rule recover_all_keeps)
      (use recover_rows restart_rows_trans tidy_inv recover_uncertain_tidy in blast)
  show "collab_inv (snd (settle_all limit now s)) \<and>
      list_all2 restart_row (cs_deliveries s) (cs_deliveries (snd (settle_all limit now s)))"
    using init by (rule settle_all_keeps)
      (use settle_rows restart_rows_trans tidy_inv settle_interrupted_tidy in blast)
qed

text \<open>
  C31: A restart frees every mailbox and replays nothing. Starting the daemon on an open mailbox ends:
  every delivery an earlier process had claimed, was running or held for review is settled, every other
  delivery is untouched, and then every recipient with a pending delivery can claim again.
\<close>

theorem restart_frees_mailboxes:
  assumes "collab_reach s" "\<not> cs_closed s"
  shows "\<exists>s'. start_collaboration now s = (Inr (), s') \<and>
    list_all2 (\<lambda>d d'. if del_state d \<in> {CLAIMED, RUNNING, REVIEW}
        then del_id d' = del_id d \<and> del_state d' = SETTLED else d' = d)
      (cs_deliveries s) (cs_deliveries s') \<and>
    (\<forall>r. \<not> has_owner r (cs_deliveries s'))"
proof -
  have inv: "collab_inv s" using reach_parts(1) [OF assms(1)] .
  have batch: "1 \<le> COLLABORATION_BATCH" "COLLABORATION_BATCH \<le> MAX_PAGE_SIZE"
    by (simp_all add: COLLABORATION_BATCH_def MAX_PAGE_SIZE_def)
  obtain s1 where s1: "recover_all COLLABORATION_BATCH s = (Inr (), s1)" "\<not> cs_closed s1"
      "count_states [CLAIMED, RUNNING] s1 = 0"
    using recover_all_ends [OF assms(2) batch] by blast
  obtain s2 where s2: "settle_all COLLABORATION_BATCH now s1 = (Inr (), s2)" "count_states [REVIEW] s2 = 0"
    using settle_all_ends [OF s1(2) batch] by blast
  have rows1: "collab_inv s1" "list_all2 restart_row (cs_deliveries s) (cs_deliveries s1)"
    using restart_rows(1) [OF inv, of COLLABORATION_BATCH] s1(1) by simp_all
  have rows2: "list_all2 restart_row (cs_deliveries s1) (cs_deliveries s2)"
    using restart_rows(2) [OF rows1(1), of COLLABORATION_BATCH now] s2(1) by simp
  have none1: "del_state d \<notin> {CLAIMED, RUNNING}" if "d \<in> set (cs_deliveries s1)" for d
    using s1(3) that by (auto simp: count_states_def in_states_def filter_empty_conv)
  have none2: "del_state d \<notin> set owner_states" if d: "d \<in> set (cs_deliveries s2)" for d
  proof -
    obtain e where "e \<in> set (cs_deliveries s1)" "restart_row e d"
      using rows2 d unfolding list_all2_conv_all_nth in_set_conv_nth by fastforce
    moreover have "del_state d \<noteq> REVIEW"
      using s2(2) d by (auto simp: count_states_def in_states_def filter_empty_conv)
    ultimately show ?thesis using none1 by (auto simp: restart_row_def owner_states_def)
  qed
  have "list_all2 restart_row (cs_deliveries s) (cs_deliveries s2)"
    using rows1(2) rows2 by (rule restart_rows_trans)
  then have "list_all2 (\<lambda>d d'. if del_state d \<in> {CLAIMED, RUNNING, REVIEW}
        then del_id d' = del_id d \<and> del_state d' = SETTLED else d' = d) (cs_deliveries s) (cs_deliveries s2)"
    by (rule list.rel_mono_strong) (use none2 in \<open>auto simp: restart_row_def owner_states_def\<close>)
  moreover have "\<not> has_owner r (cs_deliveries s2)" for r
    using none2 by (auto simp: has_owner_def list_ex_iff)
  ultimately show ?thesis using s1(1) s2(1) by (simp add: start_collaboration_def)
qed

theorem restart_frees_mailboxes_witness:
  "\<exists>s'. start_collaboration 9 running_mailbox = (Inr (), s') \<and> \<not> has_owner worker (cs_deliveries s')"
proof -
  have "\<not> cs_closed running_mailbox" by (simp add: running_value asked_value empty_mailbox_def)
  from restart_frees_mailboxes [OF running_reach this] show ?thesis by blast
qed

section \<open>The end of a turn\<close>

text \<open>A transition out of ownership on the row as it is, at its version, cannot be refused.\<close>

lemma settle_row:
  assumes inv: "collab_inv s" and "\<not> cs_closed s" "bounded_text MAX_ID_BYTES did = Inr did"
    and "validate_ref r = Inr r" "find (\<lambda>x. del_id x = did) (cs_deliveries s) = Some d"
    and "del_recipient d = r" "del_state d = RUNNING \<or> del_state d = REVIEW"
    and "read_request (del_request_id d) r s = Inr q"
    and "turn = del_turn_id d \<or> turn = None" "case turn of None \<Rightarrow> True | Some t \<Rightarrow> bounded_text MAX_ID_BYTES t = Inr t"
    and "case reason of None \<Rightarrow> True | Some x \<Rightarrow> bounded_text MAX_REASON_BYTES x = Inr x"
  shows "transition_delivery did r SETTLED (int (del_version d)) turn reason now s =
    (Inr (move_row SETTLED turn reason d),
     s\<lparr>cs_deliveries := update_rows (\<lambda>x. del_id x = did) (move_row SETTLED turn reason) (cs_deliveries s)\<rparr>)"
proof -
  let ?ds = "update_rows (\<lambda>x. del_id x = did) (move_row SETTLED turn reason) (cs_deliveries s)"
  have row: "d \<in> set (cs_deliveries s)" "del_id d = did" using find_SomeD [OF assms(5)] by auto
  have ids: "distinct (map del_id (cs_deliveries s))"
    using inv by (simp add: collab_inv_def tables_inv_def ids_inv_def)
  have "map del_id ?ds = map del_id (cs_deliveries s)"
    by (simp add: update_rows_def move_row_def)
  then have "distinct (map del_id ?ds)" using ids by metis
  moreover have "move_row SETTLED turn reason d \<in> set ?ds" using row by (auto simp: update_rows_def)
  ultimately have found: "find (\<lambda>x. del_id x = did) ?ds = Some (move_row SETTLED turn reason d)"
    using find_unique [of del_id ?ds "move_row SETTLED turn reason d"] row by (simp add: move_row_def)
  have own: "one_delivery_owner ?ds"
    using inv by (intro unclaimed_one_owner [OF unclaimed_update])
      (auto simp: collab_inv_def move_row_def owner_states_def)
  have read: "read_delivery did r s = Inr d" using assms(5,6) by (simp add: read_delivery_def)
  have edge: "check_transition (OfDelivery (del_state d)) (OfDelivery SETTLED) = Inr ()"
    using assms(7) by (auto simp: check_transition_Inr delivery_edge_def)
  show ?thesis
    using assms(2-4,8-11) found own read edge
    by (auto simp: transition_delivery_def checked_def transaction_def check_version_def Let_def
        split: option.splits)
qed

definition short_reason :: "string option \<Rightarrow> bool" where
  "short_reason reason \<longleftrightarrow>
     (case reason of None \<Rightarrow> True | Some x \<Rightarrow> bounded_text MAX_REASON_BYTES x = Inr x)"

definition sound_turn :: "string option \<Rightarrow> bool" where
  "sound_turn turn \<longleftrightarrow> (case turn of None \<Rightarrow> True | Some t \<Rightarrow> bounded_text MAX_ID_BYTES t = Inr t)"

lemma no_result_text: "bounded_text MAX_REASON_BYTES ''no_result'' = Inr ''no_result''"
  by (simp add: text_eval)

lemma short_or_text: "short_reason reason \<Longrightarrow> short_reason (or_text reason ''no_result'')"
  by (auto simp: short_reason_def or_text_def no_result_text split: option.splits)

lemma fail_working:
  fixes now :: int
  assumes "collab_inv s" "\<not> cs_closed s" "read_request rid r s = Inr q" "r = req_target q" "req_state q = WORKING"
  defines "s2 \<equiv> (cancel_pending_clarifications rid s)\<lparr>cs_requests :=
        update_rows (\<lambda>x. req_id x = rid) (set_request_state FAILED now) (cs_requests s)\<rparr>"
  shows "fail_request rid r (int (req_version q)) now s = (Inr (set_request_state FAILED now q), s2)"
    and "read_request rid r s2 = Inr (set_request_state FAILED now q)"
proof -
  let ?s2 = "(cancel_pending_clarifications rid s)\<lparr>cs_requests :=
    update_rows (\<lambda>x. req_id x = rid) (set_request_state FAILED now) (cs_requests s)\<rparr>"
  from assms(3) have valid: "\<exists>x. bounded_text MAX_ID_BYTES rid = Inr x" "\<exists>x. validate_ref r = Inr x"
    and found: "find (\<lambda>x. req_id x = rid) (cs_requests s) = Some q"
    by (auto simp: read_request_def and_then_Inr split: option.splits if_splits)
  note row = find_SomeD [OF found]
  have "distinct (map req_id (cs_requests s))"
    using assms(1) by (simp add: collab_inv_def tables_inv_def ids_inv_def)
  moreover have "map req_id (cs_requests ?s2) = map req_id (cs_requests s)"
    by (simp add: update_rows_def set_request_state_def)
  ultimately have "distinct (map req_id (cs_requests ?s2))" by metis
  moreover have "set_request_state FAILED now q \<in> set (cs_requests ?s2)"
    using row by (auto simp: update_rows_def)
  ultimately have "find (\<lambda>x. req_id x = rid) (cs_requests ?s2) = Some (set_request_state FAILED now q)"
    using find_unique [of req_id "cs_requests ?s2" "set_request_state FAILED now q"] row
    by (simp add: set_request_state_def)
  then show read: "read_request rid r s2 = Inr (set_request_state FAILED now q)"
    using valid assms(4) by (auto simp: s2_def read_request_def set_request_state_def)
  show "fail_request rid r (int (req_version q)) now s = (Inr (set_request_state FAILED now q), s2)"
    using assms(2-5) read [unfolded s2_def]
    by (simp add: fail_request_def checked_def transaction_def check_version_def Let_def
        check_transition.simps s2_def)
qed

text \<open>
  The end of a turn closes the delivery and never claims a success that was not earned. When the
  turn of a running delivery has settled, the delivery is settled under its turn; a request its target
  has left working is failed, and every other request row stays as it is, so a reply, a question or a
  cancellation that arrived in time is kept.
\<close>

theorem settled_turn_closes_delivery:
  assumes "collab_reach s" "\<not> cs_closed s" "bounded_text MAX_ID_BYTES did = Inr did" "validate_ref r = Inr r"
    and "find (\<lambda>x. del_id x = did) (cs_deliveries s) = Some d" "del_recipient d = r" "del_state d = RUNNING"
    and "sound_turn (del_turn_id d)" "short_reason reason"
    and "read_request (del_request_id d) r s = Inr q" "del_id running = did"
    and "req_id request = del_request_id d" "req_target request = req_target q"
  shows "\<exists>s' d'. deliver_settled running request r reason now1 now2 s = (Inr (), s') \<and>
    find (\<lambda>x. del_id x = did) (cs_deliveries s') = Some d' \<and> del_state d' = SETTLED \<and>
    del_turn_id d' = del_turn_id d \<and>
    (if r = req_target q \<and> req_state q = WORKING
     then cs_requests s' = map (\<lambda>x. if req_id x = req_id q
         then x\<lparr>req_state := FAILED, req_version := Suc (req_version x), req_updated_at_ms := now1\<rparr> else x)
         (cs_requests s)
     else cs_requests s' = cs_requests s)"
proof -
  have inv: "collab_inv s" using reach_parts(1) [OF assms(1)] .
  have rid: "req_id q = del_request_id d" using read_request_row [OF assms(10)] by simp
  have "get_delivery did r s = Inr d"
    using assms(2-6) by (simp add: get_delivery_def read_transaction_def read_delivery_def)
  then have start: "deliver_settled running request r reason now1 now2 s =
      finish_delivery d request r reason now1 now2 s"
    using assms(11) by (simp add: deliver_settled_def)
  have did: "del_id d = did" using find_SomeD [OF assms(5)] by simp
  have latest: "latest_request request r s = Inr (Some q)"
    using assms(2,10,12) by (simp add: latest_request_def get_request_def read_transaction_def)
  text \<open>Settling in a state that still has the row.\<close>
  have settle: "\<exists>s' d'. finish_settle d r rs now2 t = (Inr (), s') \<and>
      find (\<lambda>x. del_id x = did) (cs_deliveries s') = Some d' \<and> del_state d' = SETTLED \<and>
      del_turn_id d' = del_turn_id d \<and> cs_requests s' = cs_requests t"
    if t: "collab_inv t" "\<not> cs_closed t" "find (\<lambda>x. del_id x = did) (cs_deliveries t) = Some d"
      "read_request (del_request_id d) r t = Inr q'" "short_reason rs" for t rs q'
  proof -
    let ?d' = "move_row SETTLED (del_turn_id d) rs d"
    let ?ds = "update_rows (\<lambda>x. del_id x = did) (move_row SETTLED (del_turn_id d) rs) (cs_deliveries t)"
    have tr: "transition_delivery did r SETTLED (int (del_version d)) (del_turn_id d) rs now2 t =
        (Inr ?d', t\<lparr>cs_deliveries := ?ds\<rparr>)"
      by (rule settle_row [OF t(1,2) assms(3,4) t(3) assms(6) _ t(4)])
         (use assms(7,8) t(5) in \<open>auto simp: short_reason_def sound_turn_def\<close>)
    have "map del_id ?ds = map del_id (cs_deliveries t)" by (simp add: update_rows_def move_row_def)
    moreover have "distinct (map del_id (cs_deliveries t))"
      using t(1) by (simp add: collab_inv_def tables_inv_def ids_inv_def)
    ultimately have "distinct (map del_id ?ds)" by metis
    moreover have "?d' \<in> set ?ds" using find_SomeD [OF t(3)] by (auto simp: update_rows_def)
    ultimately have "find (\<lambda>x. del_id x = did) ?ds = Some ?d'"
      using find_unique [of del_id ?ds ?d'] did by (simp add: move_row_def)
    with tr did show ?thesis
      by (intro exI [of _ "t\<lparr>cs_deliveries := ?ds\<rparr>"] exI [of _ ?d'])
         (simp add: finish_settle_def suppress_def move_row_def or_else_def split: option.split)
  qed
  have rest: ?thesis if "finish_delivery d request r reason now1 now2 s = finish_settle d r rs now2 s"
    "\<not> (r = req_target q \<and> req_state q = WORKING)" "short_reason rs" for rs
    using settle [OF inv assms(2,5,10) that(3)] start that(1,2) by auto
  show ?thesis
  proof (cases "r = req_target q \<and> req_state q \<in> {RQ_PENDING, WORKING}")
    case False
    with latest assms(9,13) show ?thesis
      by (intro rest [of reason]) (auto simp: finish_delivery_def)
  next
    case True
    show ?thesis
    proof (cases "req_state q = WORKING")
      case False
      with True have "req_state q = RQ_PENDING" by simp
      with True have "suppress (fail_request (del_request_id d) r (int (req_version q)) now1 s) = (Inr (), s)"
        using assms(2,10) rid
        by (simp add: fail_request_def checked_def transaction_def check_version_def check_transition.simps
            suppress_def)
      with latest True False assms(9,13) rid show ?thesis
        by (intro rest [of "or_text reason ''no_result''"]) (auto simp: finish_delivery_def short_or_text)
    next
      case work: True
      let ?t = "(cancel_pending_clarifications (del_request_id d) s)\<lparr>cs_requests :=
        update_rows (\<lambda>x. req_id x = del_request_id d) (set_request_state FAILED now1) (cs_requests s)\<rparr>"
      note fail = fail_working [OF inv assms(2,10) conjunct1 [OF True] work, of now1]
      have t: "collab_inv ?t"
        using tidy_inv [OF inv fail_request_tidy [OF inv], of "del_request_id d" r "int (req_version q)" now1] fail(1)
        by simp
      have "d \<in> set (cs_deliveries ?t)"
        using find_SomeD [OF assms(5)] assms(7)
        by (auto simp: cancel_pending_clarifications_def update_rows_def)
      moreover have "distinct (map del_id (cs_deliveries ?t))"
        using t unfolding collab_inv_def tables_inv_def ids_inv_def by blast
      ultimately have "find (\<lambda>x. del_id x = did) (cs_deliveries ?t) = Some d"
        using find_unique did by metis
      from settle [OF t _ this fail(2) short_or_text [OF assms(9)]] assms(2) obtain s' d' where
        "finish_settle d r (or_text reason ''no_result'') now2 ?t = (Inr (), s')"
        "find (\<lambda>x. del_id x = did) (cs_deliveries s') = Some d'" "del_state d' = SETTLED"
        "del_turn_id d' = del_turn_id d" "cs_requests s' = cs_requests ?t"
        by (auto simp: cancel_pending_clarifications_def)
      then show ?thesis
        using start latest True work assms(13) rid fail(1)
        by (intro exI [of _ s'] exI [of _ d'])
           (simp add: finish_delivery_def suppress_def update_rows_def set_request_state_def)
    qed
  qed
qed

theorem settled_turn_closes_delivery_witness:
  "\<exists>s' d'. deliver_settled (sample_delivery RUNNING 2 (Some ''t1'')) (sample_request RQ_PENDING 0 5) worker None 8 9
       running_mailbox = (Inr (), s') \<and>
     find (\<lambda>x. del_id x = ''d1'') (cs_deliveries s') = Some d' \<and> del_state d' = SETTLED \<and>
     map req_state (cs_requests s') = [FAILED]"
proof -
  have eq: "cs_requests running_mailbox = [sample_request WORKING 1 6]" by (simp add: running_value)
  have "\<exists>s' d'. deliver_settled (sample_delivery RUNNING 2 (Some ''t1'')) (sample_request RQ_PENDING 0 5) worker None 8 9
       running_mailbox = (Inr (), s') \<and>
    find (\<lambda>x. del_id x = ''d1'') (cs_deliveries s') = Some d' \<and> del_state d' = SETTLED \<and>
    del_turn_id d' = Some ''t1'' \<and>
    (if worker = req_target (sample_request WORKING 1 6) \<and> req_state (sample_request WORKING 1 6) = WORKING
     then cs_requests s' = map (\<lambda>x. if req_id x = req_id (sample_request WORKING 1 6)
         then x\<lparr>req_state := FAILED, req_version := Suc (req_version x), req_updated_at_ms := 8\<rparr> else x)
         (cs_requests running_mailbox)
     else cs_requests s' = cs_requests running_mailbox)"
    using settled_turn_closes_delivery [OF running_reach, where did = "''d1''" and r = worker and
      d = "sample_delivery RUNNING 2 (Some ''t1'')" and q = "sample_request WORKING 1 6" and
      running = "sample_delivery RUNNING 2 (Some ''t1'')" and request = "sample_request RQ_PENDING 0 5"
      and reason = None and ?now1.0 = 8 and ?now2.0 = 9]
    by (simp add: running_value asked_value store_eval sample_defs sound_turn_def short_reason_def)
  then show ?thesis by (auto simp: eq sample_request_def)
qed

section \<open>A refused start\<close>

text \<open>A question that was answered while its source was starting on it: the target asks, the source
  claims the question, and the target replies before the source's turn is linked.\<close>

definition asked_back_mailbox :: collab_store where
  "asked_back_mailbox = snd (post_message ''r1'' worker CLARIFICATION ''ok'' ''l'' [] ''m2'' ''d2'' 7 running_mailbox)"

definition question_claimed_mailbox :: collab_store where
  "question_claimed_mailbox = snd (claim_next asker asked_back_mailbox)"

definition answered_mailbox :: collab_store where
  "answered_mailbox = snd (post_message ''r1'' worker REPLY ''do'' ''k'' [] ''m3'' ''d3'' 8 question_claimed_mailbox)"

definition question :: "delivery_state \<Rightarrow> nat \<Rightarrow> delivery" where
  "question st v = \<lparr>del_id = ''d2'', del_message_id = ''m2'', del_request_id = ''r1'', del_recipient = asker,
     del_scope_id = ''s1'', del_state = st, del_version = v, del_turn_id = None, del_reason = None,
     del_sequence = 2\<rparr>"

definition question_message :: collab_message where
  "question_message = \<lparr>msg_id = ''m2'', msg_request_id = ''r1'', msg_sequence = 2, msg_sender = worker,
     msg_kind = CLARIFICATION, msg_body = ''ok'', msg_operation_key = ''l'', msg_anchor_turn_id = [],
     msg_created_at_ms = 7\<rparr>"

lemma asked_back_value: "asked_back_mailbox = empty_mailbox\<lparr>cs_scopes := [sample_scope SC_ACTIVE 0],
    cs_requests := [sample_request WAITING_INPUT 2 7], cs_messages := [sample_message, question_message],
    cs_deliveries := [sample_delivery RUNNING 2 (Some ''t1''), question PENDING 0], cs_next_sequence := 3\<rparr>"
  by (simp add: asked_back_mailbox_def running_value asked_value post_message_def append_message_def messages_of_def
      append_executable_def unresolved_count_def MAX_MESSAGES_def set_request_state_def question_def
      question_message_def store_eval sample_defs)

lemma question_claimed_value: "question_claimed_mailbox = asked_back_mailbox\<lparr>
    cs_deliveries := [sample_delivery RUNNING 2 (Some ''t1''), question CLAIMED 1]\<rparr>"
  by (simp add: question_claimed_mailbox_def asked_back_value claim_next_def has_owner_def claim_row_def
      owner_states_def question_def store_eval sample_defs)

lemma answered_value:
  "cs_requests answered_mailbox = [sample_request REPLIED 3 8]"
  "cs_scopes answered_mailbox = [sample_scope SC_ACTIVE 0]" "\<not> cs_closed answered_mailbox"
  "find (\<lambda>x. del_id x = ''d2'') (cs_deliveries answered_mailbox) = Some (question CLAIMED 1)"
  "find (\<lambda>m. msg_id m = ''m2'') (cs_messages answered_mailbox) = Some question_message"
  by (simp_all add: answered_mailbox_def question_claimed_value asked_back_value running_value asked_value
      post_message_def append_message_def messages_of_def append_executable_def unresolved_count_def
      unresolved_states_def is_clarification_def cancel_pending_clarifications_def MAX_MESSAGES_def
      set_request_state_def set_delivery_state_def question_def question_message_def store_eval sample_defs)

lemma answered_reach: "collab_reach answered_mailbox"
proof -
  have "collab_reach asked_back_mailbox"
    unfolding asked_back_mailbox_def
    by (rule reach.reach_step [OF running_reach step_post_message])
       (simp add: fresh_message_ids_def running_value asked_value sample_defs)
  then have "collab_reach question_claimed_mailbox"
    unfolding question_claimed_mailbox_def by (rule reach.reach_step) (rule step_claim_next)
  then show ?thesis
    unfolding answered_mailbox_def
    by (rule reach.reach_step, intro step_post_message)
       (simp add: fresh_message_ids_def question_claimed_value asked_back_value question_def
         question_message_def sample_defs)
qed

text \<open>
  C32: How a refused start ends. When the store refuses to link the turn a worker has just started, the
  turn is cancelled. If the stop fence has put the delivery in review, it is settled and its recipient
  is free again. If the delivery is still claimed, because it was the request that moved on, the row is
  left as it is: settling is no transition of a claimed delivery, so the mailbox of the recipient stays
  owned by a delivery no worker holds, and nothing can be claimed from it.
\<close>

theorem refused_start_outcome:
  assumes "collab_reach s" "\<not> cs_closed s" "bounded_text MAX_ID_BYTES did = Inr did" "validate_ref r = Inr r"
    and "find (\<lambda>x. del_id x = did) (cs_deliveries s) = Some x" "del_recipient x = r"
    and "read_request (del_request_id x) r s = Inr q" "del_id d = did" "del_recipient d = r"
    and "fst (transition_delivery did r RUNNING (int (del_version d)) (Some turn) None now1 s) = Inl e"
    and "is_collaboration_error e"
  shows "(del_state x = REVIEW \<longrightarrow>
      (\<exists>s' x'. deliver_link d r (Started turn) now1 now2 s = (Inr (LinkCancelled turn), s') \<and>
         find (\<lambda>x. del_id x = did) (cs_deliveries s') = Some x' \<and> del_state x' = SETTLED \<and>
         \<not> has_owner r (cs_deliveries s'))) \<and>
    (del_state x = CLAIMED \<longrightarrow>
      deliver_link d r (Started turn) now1 now2 s = (Inr (LinkCancelled turn), s) \<and>
      claim_next r s = (Inr None, s))"
proof (intro conjI impI)
  have inv: "collab_inv s" using reach_parts(1) [OF assms(1)] .
  have row: "x \<in> set (cs_deliveries s)" "del_id x = did" using find_SomeD [OF assms(5)] by auto
  have "snd (transition_delivery did r RUNNING (int (del_version d)) (Some turn) None now1 s) = s"
    using assms(10) by (auto simp: transition_delivery_def checked_def transaction_def split: sum.splits if_splits)
  then have refused: "transition_delivery did r RUNNING (int (del_version d)) (Some turn) None now1 s = (Inl e, s)"
    using assms(10) by (metis prod.collapse)
  have stopped: "bounded_text MAX_REASON_BYTES ''stopped'' = Inr ''stopped''" by (simp add: text_eval)
  have current: "get_delivery did r s = Inr x"
    using assms(2-6) by (simp add: get_delivery_def read_transaction_def read_delivery_def)
  have link: "deliver_link d r (Started turn) now1 now2 s =
      (case suppress (transition_delivery did r SETTLED (int (del_version x)) None (Some ''stopped'') now2 s) of
         (Inl e', s') \<Rightarrow> (Inl e', s') | (Inr _, s') \<Rightarrow> (Inr (LinkCancelled turn), s'))"
    using refused assms(8,9,11) current row(2) stopped
    by (simp add: deliver_link_def resolve_def resolve_uncertain_def checked_def)
  {
    assume review: "del_state x = REVIEW"
    let ?s' = "s\<lparr>cs_deliveries := update_rows (\<lambda>y. del_id y = did) (move_row SETTLED None (Some ''stopped'')) (cs_deliveries s)\<rparr>"
    have tr: "transition_delivery did r SETTLED (int (del_version x)) None (Some ''stopped'') now2 s =
        (Inr (move_row SETTLED None (Some ''stopped'') x), ?s')"
      by (rule settle_row [OF inv assms(2-6) _ assms(7)]) (simp_all add: review stopped)
    have inv': "collab_inv ?s'"
      using tidy_inv [OF inv transition_delivery_tidy [OF inv], of did r SETTLED "int (del_version x)" None "Some ''stopped''" now2] tr
      by simp
    have moved: "move_row SETTLED None (Some ''stopped'') x \<in> set (cs_deliveries ?s')"
      using row by (auto simp: update_rows_def)
    have "distinct (map del_id (cs_deliveries ?s'))"
      using inv' unfolding collab_inv_def tables_inv_def ids_inv_def by blast
    from find_unique [OF this moved] row(2)
    have "find (\<lambda>y. del_id y = did) (cs_deliveries ?s') = Some (move_row SETTLED None (Some ''stopped'') x)"
      by (simp add: move_row_def)
    moreover have "\<not> has_owner r (cs_deliveries ?s')"
    proof
      assume "has_owner r (cs_deliveries ?s')"
      then obtain y where y: "y \<in> set (cs_deliveries ?s')" "del_recipient y = r" "del_state y \<in> set owner_states"
        by (auto simp: has_owner_def list_ex_iff)
      from y(1) obtain z where z: "z \<in> set (cs_deliveries s)"
        "y = (if del_id z = did then move_row SETTLED None (Some ''stopped'') z else z)"
        by (auto elim: update_rowsE)
      have "del_id z \<noteq> did"
      proof
        assume "del_id z = did"
        with z(2) have "del_state y = SETTLED" by (simp add: move_row_def)
        with y(3) show False by (simp add: owner_states_def)
      qed
      with z have other: "del_id y \<noteq> did" "y \<in> set (cs_deliveries s)" by simp_all
      have "distinct (map del_recipient (filter (\<lambda>d. del_state d \<in> set owner_states) (cs_deliveries s)))"
        using reach_parts(3) [OF assms(1)] by (simp add: one_delivery_owner_def)
      then have "y = x"
        by (rule distinct_map_unique) (use y(2,3) other(2) row(1) review assms(6) in \<open>simp_all add: owner_states_def\<close>)
      with other row show False by simp
    qed
    ultimately show "\<exists>s' x'. deliver_link d r (Started turn) now1 now2 s = (Inr (LinkCancelled turn), s') \<and>
         find (\<lambda>x. del_id x = did) (cs_deliveries s') = Some x' \<and> del_state x' = SETTLED \<and>
         \<not> has_owner r (cs_deliveries s')"
      by (intro exI [of _ ?s'] exI [of _ "move_row SETTLED None (Some ''stopped'') x"])
         (simp add: link tr suppress_def move_row_def)
  }
  {
    assume claimed: "del_state x = CLAIMED"
    have "has_owner r (cs_deliveries s)"
      using row(1) assms(6) claimed by (auto simp: has_owner_def list_ex_iff owner_states_def)
    then show "claim_next r s = (Inr None, s)"
      using assms(2,4) by (simp add: claim_next_def checked_def transaction_def)
    have "suppress (transition_delivery did r SETTLED (int (del_version x)) None (Some ''stopped'') now2 s) = (Inr (), s)"
      using assms(2-6) claimed stopped
      by (simp add: transition_delivery_def checked_def transaction_def check_version_def read_delivery_def
          check_transition.simps suppress_def)
    then show "deliver_link d r (Started turn) now1 now2 s = (Inr (LinkCancelled turn), s)"
      by (simp add: link)
  }
qed

theorem refused_start_outcome_witness:
  "deliver_link (question CLAIMED 1) asker (Started ''t2'') 9 9 answered_mailbox =
     (Inr (LinkCancelled ''t2''), answered_mailbox) \<and>
   claim_next asker answered_mailbox = (Inr None, answered_mailbox)"
proof -
  have request: "read_request ''r1'' asker answered_mailbox = Inr (sample_request REPLIED 3 8)"
    by (simp add: answered_value read_request_def and_then_def sample_request_def)
  have refused: "fst (transition_delivery ''d2'' asker RUNNING (int (del_version (question CLAIMED 1))) (Some ''t2'') None 9
      answered_mailbox) = Inl (ConflictError ''request no longer permits execution'')"
    using request answered_value
    by (simp add: transition_delivery_def start_checks_def start_allowed_def execution_refused_def
        question_def question_message_def store_eval sample_request_def sample_scope_def)
  have "(del_state (question CLAIMED 1) = REVIEW \<longrightarrow>
      (\<exists>s' x'. deliver_link (question CLAIMED 1) asker (Started ''t2'') 9 9 answered_mailbox =
           (Inr (LinkCancelled ''t2''), s') \<and>
         find (\<lambda>x. del_id x = ''d2'') (cs_deliveries s') = Some x' \<and> del_state x' = SETTLED \<and>
         \<not> has_owner asker (cs_deliveries s'))) \<and>
    (del_state (question CLAIMED 1) = CLAIMED \<longrightarrow>
      deliver_link (question CLAIMED 1) asker (Started ''t2'') 9 9 answered_mailbox =
        (Inr (LinkCancelled ''t2''), answered_mailbox) \<and>
      claim_next asker answered_mailbox = (Inr None, answered_mailbox))"
    by (rule refused_start_outcome [OF answered_reach answered_value(3) _ _ answered_value(4) _ _ _ _ refused])
       (simp_all add: question_def request)
  then show ?thesis by (simp add: question_def)
qed

section \<open>Stopping an assignment\<close>

lemma deliveries_of_request:
  assumes "collab_reach s"
  shows "length (filter (\<lambda>d. del_request_id d = rid) (cs_deliveries s)) \<le> MAX_MESSAGES"
proof -
  have "map snd (map (\<lambda>d. (del_message_id d, del_request_id d)) (cs_deliveries s)) =
      map snd (map (\<lambda>m. (msg_id m, msg_request_id m)) (cs_messages s))"
    using reach_parts(7) [OF assms] by (simp add: sequence_inv_def)
  then have ids: "map del_request_id (cs_deliveries s) = map msg_request_id (cs_messages s)"
    by (simp add: comp_def)
  have "length (filter (\<lambda>i. i = rid) (map del_request_id (cs_deliveries s))) =
      length (filter (\<lambda>i. i = rid) (map msg_request_id (cs_messages s)))"
    unfolding ids ..
  then have "length (filter (\<lambda>d. del_request_id d = rid) (cs_deliveries s)) = length (messages_of rid s)"
    by (simp add: filter_map comp_def messages_of_def)
  moreover have "length (filter (\<lambda>m. \<not> is_reply m) (messages_of rid s)) \<le> MAX_MESSAGES - 1"
    "length (filter is_reply (messages_of rid s)) \<le> 1"
    using reach_parts(5) [OF assms] by (auto simp: thread_inv_def)
  ultimately show ?thesis
    using sum_length_filter_compl [of is_reply "messages_of rid s"] by (simp add: MAX_MESSAGES_def)
qed

lemma cancel_linked_raised:
  "cancel_linked co source ro ds = (Inl e, es) \<Longrightarrow>
   e = CancelRaised \<and> (\<exists>pre r t raises. es = pre @ [CancelTurn r t] \<and> co_cancel_turn co = Some raises \<and> raises r t) \<and>
   (\<forall>r. Wake r \<notin> set es)"
proof (induction ds arbitrary: es)
  case (Cons d ds)
  then show ?case
    by (fastforce split: option.splits if_splits prod.splits simp: append_eq_Cons_conv)
qed simp

lemma cancel_linked_all:
  assumes "cancel_linked co source ro ds = (Inr u, es)" "co_cancel_turn co = Some raises"
    "d \<in> set ds" "del_state d = RUNNING" "del_turn_id d = Some t" "ro \<longrightarrow> del_recipient d = source"
  shows "CancelTurn (del_recipient d) t \<in> set es"
  using assms
  by (induction ds arbitrary: es) (auto split: option.splits if_splits prod.splits)

text \<open>
  Stopping one assignment. When it succeeds, the turn of every running delivery of the assignment
  (of the source's own ones when only the results are refused) has been asked to cancel, and both
  sessions are woken. When a cancellation raises, the caller gets that error and nobody is woken and no
  further turn is cancelled, although the fence is in force: unlike \<open>stop\<close>, this operation does not
  swallow it.
\<close>

theorem stop_assignment_outcome:
  assumes "collab_reach s" "co_cancel_turn co = Some raises" "co_has_wake co"
    and "stop_assignment co rid source v ro now s = (res, s', es)"
  shows "case res of
      Inr q \<Rightarrow> (\<forall>d t. d \<in> set (cs_deliveries s') \<and> del_request_id d = rid \<and> del_state d = RUNNING \<and>
          del_turn_id d = Some t \<and> (ro \<longrightarrow> del_recipient d = source) \<longrightarrow>
          CancelTurn (del_recipient d) t \<in> set es) \<and>
        Wake source \<in> set es \<and> Wake (req_target q) \<in> set es
    | Inl CancelRaised \<Rightarrow> (\<exists>q. control_request rid source v ro now s = (Inr q, s')) \<and>
        (\<exists>pre r t. es = pre @ [CancelTurn r t] \<and> raises r t) \<and> (\<forall>r. Wake r \<notin> set es)
    | Inl (StoreError e) \<Rightarrow> es = []"
proof (cases "control_request rid source v ro now s")
  case (Pair cr s1)
  show ?thesis
  proof (cases cr)
    case (Inl e)
    with Pair assms(4) show ?thesis by (auto simp: stop_assignment_def)
  next
    case (Inr q)
    have step: "collab_step s s1"
      using step_control_request [of s rid source v ro now] Pair by simp
    have rid: "req_id q = rid"
      using Pair unfolding Inr control_request_def
      by (auto simp: transaction_Inr and_then_Inr if_Inl_Inr Let_def dest: read_request_row)
    note few = deliveries_of_request [OF reach.reach_step [OF assms(1) step], of rid]
    show ?thesis
    proof (cases "request_deliveries rid source s1")
      case (Inl e)
      with Pair Inr rid assms(4) show ?thesis by (auto simp: stop_assignment_def)
    next
      case ds: (Inr ds)
      then have all: "ds = filter (\<lambda>d. del_request_id d = rid) (cs_deliveries s1)"
        using few by (auto simp: request_deliveries_def read_transaction_def and_then_Inr split: if_splits)
      show ?thesis
      proof (cases "cancel_linked co source ro ds")
        case run: (Pair r es')
        show ?thesis
        proof (cases r)
          case (Inl e)
          with run cancel_linked_raised [of co source ro ds e es'] Pair Inr rid ds assms(2,4) show ?thesis
            by (auto simp: stop_assignment_def)
        next
          case ok: (Inr u)
          then have "res = Inr q" "s' = s1" "es = es' @ notify_peer co source @ notify_peer co (req_target q)"
            using run Pair Inr rid ds assms(4) by (auto simp: stop_assignment_def)
          with cancel_linked_all [of co source ro ds u es' raises] run ok assms(2,3) all show ?thesis
            by (auto simp: notify_peer_def)
        qed
      qed
    qed
  qed
qed

definition sample_coordinator :: coordinator where
  "sample_coordinator = \<lparr>co_has_wake = True, co_cancel_turn = Some (\<lambda>r t. True), co_allows = None,
     co_reachable = None\<rparr>"

lemma control_running:
  "control_request ''r1'' asker 0 False 9 running_mailbox =
     (Inr ((sample_request RQ_CANCELLED 2 9)\<lparr>req_continuation := REVOKED, req_control_version := 1\<rparr>),
      running_mailbox\<lparr>cs_requests :=
        [(sample_request RQ_CANCELLED 2 9)\<lparr>req_continuation := REVOKED, req_control_version := 1\<rparr>]\<rparr>)"
  by (simp add: control_request_def running_value asked_value disable_deliveries_def store_eval sample_defs)

theorem stop_assignment_outcome_witness:
  "\<exists>s'. stop_assignment sample_coordinator ''r1'' asker 0 False 9 running_mailbox =
       (Inl CancelRaised, s', [CancelTurn worker ''t1'']) \<and>
     map req_continuation (cs_requests s') = [REVOKED]"
proof -
  let ?s = "running_mailbox\<lparr>cs_requests :=
    [(sample_request RQ_CANCELLED 2 9)\<lparr>req_continuation := REVOKED, req_control_version := 1\<rparr>]\<rparr>"
  have ds: "request_deliveries ''r1'' asker ?s = Inr [sample_delivery RUNNING 2 (Some ''t1'')]"
    by (simp add: request_deliveries_def read_transaction_def running_value asked_value store_eval sample_defs
        MAX_MESSAGES_def)
  have run: "stop_assignment sample_coordinator ''r1'' asker 0 False 9 running_mailbox =
      (Inl CancelRaised, ?s, [CancelTurn worker ''t1''])"
    using ds by (simp add: stop_assignment_def control_running sample_request_def sample_coordinator_def)
      (simp add: sample_delivery_def)
  from stop_assignment_outcome [OF running_reach _ _ run] show ?thesis
    using run by (simp add: sample_coordinator_def)
qed

section \<open>The runtime over the mailbox\<close>

text \<open>Every phase of a worker is a run of mailbox steps.\<close>

lemma transition_run: "collab_step\<^sup>*\<^sup>* s (snd (transition_delivery did r st v turn reason now s))"
  by (rule r_into_rtranclp) (rule step_transition_delivery)

lemma suppress_snd [simp]: "snd (suppress x) = snd x"
  by (auto simp: suppress_def split: sum.split)

lemma checked_run: "collab_step\<^sup>*\<^sup>* s (snd k) \<Longrightarrow> collab_step\<^sup>*\<^sup>* s (snd (checked v s k))"
  by (auto simp: checked_def split: sum.split)

lemma resolve_run: "collab_step\<^sup>*\<^sup>* s (snd (resolve d reason now s))"
  by (auto simp: resolve_def resolve_uncertain_def split: sum.split intro: checked_run transition_run)

lemma abandon_run: "collab_step\<^sup>*\<^sup>* s (snd (abandon_delivery d reason now s))"
  by (auto simp: abandon_delivery_def abandon_claim_def split: sum.split
      intro: checked_run transition_run resolve_run)

lemma hold_run: "collab_step\<^sup>*\<^sup>* s (snd (hold_for_review d reason now s))"
  by (simp add: hold_for_review_def transition_run)

lemma prepare_run: "collab_step\<^sup>*\<^sup>* s (snd (deliver_prepare d r now s))"
  using abandon_run [of s d "''scope_disabled''" now]
  by (auto simp: deliver_prepare_def split: sum.split prod.split)

lemma link_run: "collab_step\<^sup>*\<^sup>* s (snd (deliver_link d r answer now1 now2 s))"
proof (cases answer)
  case (Started t)
  let ?tr = "transition_delivery (del_id d) r RUNNING (int (del_version d)) (Some t) None now1 s"
  have "collab_step\<^sup>*\<^sup>* s (snd ?tr)" by (rule transition_run)
  moreover have "collab_step\<^sup>*\<^sup>* (snd ?tr) (snd (resolve d ''stopped'' now2 (snd ?tr)))" by (rule resolve_run)
  ultimately show ?thesis
    using Started by (auto simp: deliver_link_def split: sum.split prod.split intro: rtranclp_trans)
qed (use hold_run [of s d _ now1] in \<open>auto simp: deliver_link_def split: sum.split prod.split; metis snd_conv\<close>)+

lemma settle_run: "collab_step\<^sup>*\<^sup>* s (snd (finish_settle d r reason now s))"
  by (simp add: finish_settle_def transition_run)

lemma finish_run: "collab_step\<^sup>*\<^sup>* s (snd (finish_delivery d q r reason now1 now2 s))"
proof -
  have fail: "collab_step\<^sup>*\<^sup>* s (snd (fail_request rid a v now1 s))" for rid a v
    by (rule r_into_rtranclp) (rule step_fail_request)
  have "collab_step\<^sup>*\<^sup>* s (snd (case suppress x of (Inl e, s1) \<Rightarrow> (Inl e, s1)
      | (Inr _, s1) \<Rightarrow> finish_settle d r (or_text reason ''no_result'') now2 s1))"
    if "collab_step\<^sup>*\<^sup>* s (snd x)" for x :: "(collab_error + collab_request) \<times> collab_store"
    using rtranclp_trans [OF that settle_run] that
    by (auto simp: suppress_def split: sum.split)
  then show ?thesis
    using fail settle_run by (auto simp: finish_delivery_def split: sum.split option.split)
qed

lemma settled_run: "collab_step\<^sup>*\<^sup>* s (snd (deliver_settled d q r reason now1 now2 s))"
  by (auto simp: deliver_settled_def finish_run split: sum.split)

lemma runtime_frame [simp]:
  "crt_store (forget k w) = crt_store w" "crt_store (set_phase k ph w) = crt_store w"
  "crt_workers (forget k w) = crt_workers w" "crt_workers (set_phase k ph w) = crt_workers w"
  by (simp_all add: forget_def set_phase_def)

lemma work_store_run: "collab_step\<^sup>*\<^sup>* (crt_store w) (crt_store (work_step k r ph inp w))"
proof -
  have claim: "collab_step\<^sup>*\<^sup>* (crt_store w) (snd (claim_next r (crt_store w)))"
    by (rule r_into_rtranclp) (rule step_claim_next)
  show ?thesis
    using claim prepare_run [of "crt_store w"] link_run [of "crt_store w"] settled_run [of "crt_store w"]
    by (cases ph)
       (auto simp: work_step_def Let_def split: sum.split prod.split option.split link_result.split; metis snd_conv)+
qed

lemma runtime_store_run:
  assumes "runtime_step w w'"
  shows "collab_step\<^sup>*\<^sup>* (crt_store w) (crt_store w')"
  using assms
proof (elim runtime_stepE, goal_cases)
  case (5 now)
  have "collab_step (crt_store w) (snd (reconcile_stopped_requests 100 now (crt_store w)))"
    by (rule step_reconcile)
  with 5 show ?case by (auto simp: dispatch_round_def Let_def)
next
  case 6
  then show ?case using work_store_run by blast
qed (auto simp: start_runtime_def stop_runtime_def cancel_tasks_def)

section \<open>Workers\<close>

fun phase_delivery :: "worker_phase \<Rightarrow> delivery option" where
  "phase_delivery Seeking = None"
| "phase_delivery (Holding d) = Some d"
| "phase_delivery (Starting d m q) = Some d"
| "phase_delivery (Executing d q) = Some d"
| "phase_delivery (Pausing d) = Some d"

definition task_ok :: "string \<times> session_ref \<times> worker_phase \<Rightarrow> bool" where
  "task_ok x \<longleftrightarrow> fst x = global_id (fst (snd x)) \<and>
     (\<forall>d. phase_delivery (snd (snd x)) = Some d \<longrightarrow> del_recipient d = fst (snd x))"

definition workers_inv :: "collab_runtime \<Rightarrow> bool" where
  "workers_inv w \<longleftrightarrow> length (crt_tasks w) \<le> crt_workers w \<and> distinct (map fst (crt_tasks w)) \<and>
     (\<forall>x \<in> set (crt_tasks w). task_ok x)"

definition runtime_inv :: "collab_runtime \<Rightarrow> bool" where
  "runtime_inv w \<longleftrightarrow> collab_reach (crt_store w) \<and> workers_inv w"

lemma spawn_ok:
  assumes "length tasks \<le> n" "distinct (map fst tasks)" "\<forall>x \<in> set tasks. task_ok x"
  shows "length (spawn n rs tasks) \<le> n \<and> distinct (map fst (spawn n rs tasks)) \<and>
    (\<forall>x \<in> set (spawn n rs tasks). task_ok x)"
  using assms
  by (induction n rs tasks rule: spawn.induct) (auto simp: task_ok_def image_iff Suc_le_eq)

lemma workers_forget: "workers_inv w \<Longrightarrow> workers_inv (forget k w)"
  by (auto simp: workers_inv_def forget_def distinct_map_filter le_trans [OF length_filter_le])

lemma workers_phase:
  assumes "workers_inv w" "(k, r, ph0) \<in> set (crt_tasks w)" "\<And>d. phase_delivery ph = Some d \<Longrightarrow> del_recipient d = r"
  shows "workers_inv (set_phase k ph w)"
proof -
  have "map fst (crt_tasks (set_phase k ph w)) = map fst (crt_tasks w)"
    by (auto simp: set_phase_def split: prod.split)
  moreover have "task_ok y" if "y \<in> set (crt_tasks (set_phase k ph w))" for y
  proof -
    from that obtain r' p where x: "(fst y, r', p) \<in> set (crt_tasks w)"
      "y = (fst y, r', if fst y = k then ph else p)"
      by (auto simp: set_phase_def split: if_splits)
    show ?thesis
    proof (cases "fst y = k")
      case True
      then have "r' = r"
        using x(1) assms(1,2) by (auto simp: workers_inv_def dest: eq_key_imp_eq_value)
      with True x assms show ?thesis by (auto simp: task_ok_def workers_inv_def)
    next
      case False
      with x assms(1) show ?thesis by (auto simp: workers_inv_def)
    qed
  qed
  moreover have "length (crt_tasks (set_phase k ph w)) = length (crt_tasks w)"
    by (simp add: set_phase_def)
  ultimately show ?thesis
    using assms(1) unfolding workers_inv_def by simp
qed

lemma workers_store [simp]: "workers_inv (w\<lparr>crt_store := s\<rparr>) = workers_inv w"
  by (simp add: workers_inv_def)

lemma claim_recipient:
  assumes "ids_inv s" "claim_next r s = (Inr (Some d), s')"
  shows "del_recipient d = r"
proof -
  from assms(2) obtain e where e: "find (\<lambda>d. del_recipient d = r \<and> del_state d = PENDING) (cs_deliveries s) = Some e"
    and d: "find (\<lambda>x. del_id x = del_id e) (update_rows (\<lambda>x. del_id x = del_id e) claim_row (cs_deliveries s)) = Some d"
    by (auto simp: claim_next_def transaction_Inr Let_def split: option.splits if_splits)
  from find_SomeD [OF d] obtain q where q: "q \<in> set (cs_deliveries s)" "del_id d = del_id e"
    "d = (if del_id q = del_id e then claim_row q else q)"
    by (auto elim: update_rowsE)
  then have "del_id q = del_id e" by (auto simp: claim_row_def split: if_splits)
  then have "q = e" using delivery_unique [OF assms(1) q(1)] find_SomeD [OF e] by blast
  then show ?thesis using q(3) find_SomeD [OF e] by (simp add: claim_row_def)
qed

lemma link_recipient:
  assumes "ids_inv s" "deliver_link d r answer now1 now2 s = (Inr (LinkRunning x), s')"
  shows "del_recipient x = r"
proof -
  from assms(2) obtain t where
    "transition_delivery (del_id d) r RUNNING (int (del_version d)) (Some t) None now1 s = (Inr x, s')"
    by (auto simp: deliver_link_def split: start_answer.splits sum.splits prod.splits if_splits)
  then show ?thesis
  proof (rule transition_Inr)
    fix e request s1
    assume e: "read_delivery (del_id d) r s = Inr e"
      and start: "(if RUNNING = RUNNING then start_checks e request r now1 s else Inr s) = Inr s1"
      and s': "s' = s1\<lparr>cs_deliveries := update_rows (\<lambda>y. del_id y = del_id d) (move_row RUNNING (Some t) None) (cs_deliveries s1)\<rparr>"
      and x: "find (\<lambda>y. del_id y = del_id d) (cs_deliveries s') = Some x"
    have ds: "cs_deliveries s1 = cs_deliveries s"
      using start by (auto simp: start_checks_def and_then_Inr if_Inl_Inr split: option.splits if_splits)
    from find_SomeD [OF x] obtain q where q: "q \<in> set (cs_deliveries s)" "del_id x = del_id d"
      "x = (if del_id q = del_id d then move_row RUNNING (Some t) None q else q)"
      unfolding s' by (auto simp: ds elim: update_rowsE)
    have same: "del_id q = del_id d" using q(2,3) by (cases "del_id q = del_id d") simp_all
    note row = read_delivery_row [OF e]
    have "q = e" by (rule delivery_unique [OF assms(1) q(1)]) (use row same in simp_all)
    then show ?thesis using q(3) row by (simp add: move_row_def)
  qed
qed

lemma work_step_workers:
  assumes inv: "runtime_inv w" and task: "(k, r, ph) \<in> set (crt_tasks w)"
  shows "workers_inv (work_step k r ph inp w)"
proof -
  have w: "workers_inv w" and ids: "ids_inv (crt_store w)"
    using inv reach_parts(2) by (auto simp: runtime_inv_def)
  have own: "del_recipient d = r" if "phase_delivery ph = Some d" for d
    using w task that by (auto simp: workers_inv_def task_ok_def)
  have set: "workers_inv (set_phase k ph' (w\<lparr>crt_store := s'\<rparr>))"
    if "\<And>d. phase_delivery ph' = Some d \<Longrightarrow> del_recipient d = r" for ph' s'
    by (rule workers_phase [of _ k r ph]) (use w task that in auto)
  show ?thesis
  proof (cases ph)
    case Seeking
    then show ?thesis
      using w claim_recipient [OF ids, of r]
      by (auto simp: work_step_def Let_def split: sum.split prod.split option.split intro!: workers_forget set)
  next
    case (Holding d)
    then show ?thesis
      using w own
      by (auto simp: work_step_def Let_def split: sum.split prod.split option.split intro!: workers_forget set)
  next
    case (Starting d m q)
    then show ?thesis
      using w own link_recipient [OF ids, of d r]
      by (auto simp: work_step_def Let_def split: sum.split prod.split link_result.split intro!: workers_forget set)
  next
    case (Executing d q)
    then show ?thesis
      using w by (auto simp: work_step_def Let_def split: sum.split prod.split intro!: workers_forget set)
  next
    case (Pausing d)
    then show ?thesis
      using w own set [of "Holding d" "crt_store w"]
      by (auto simp: work_step_def Let_def intro!: workers_forget)
  qed
qed

lemma runtime_step_inv:
  assumes "runtime_inv w" "runtime_step w w'"
  shows "runtime_inv w'"
proof -
  have "collab_reach (crt_store w')"
    using assms(1) runtime_store_run [OF assms(2)] reach_rtranclp by (auto simp: runtime_inv_def)
  moreover have "workers_inv w'"
    using assms(2)
  proof (elim runtime_stepE, goal_cases)
    case (5 now)
    with assms(1) show ?case
      using spawn_ok [of "crt_tasks w" "crt_workers w"]
      by (auto simp: runtime_inv_def workers_inv_def dispatch_round_def Let_def)
  next
    case 6
    with assms(1) work_step_workers show ?case by blast
  qed (use assms(1) in \<open>auto simp: runtime_inv_def workers_inv_def start_runtime_def stop_runtime_def cancel_tasks_def\<close>)
  ultimately show ?thesis by (simp add: runtime_inv_def)
qed

interpretation runtime_sys: inv_system is_new_runtime runtime_step runtime_inv
proof unfold_locales
  fix w assume "is_new_runtime w"
  then show "runtime_inv w"
    by (auto simp: is_new_runtime.simps new_collab_runtime_def runtime_inv_def workers_inv_def split: if_splits)
next
  fix w w' assume "runtime_inv w" "runtime_step w w'"
  then show "runtime_inv w'" by (rule runtime_step_inv)
qed

text \<open>
  C30: The runtime keeps its promise of bounded, exclusive work. In every state of the runtime, whatever
  the agents, the executor and the dispatcher have done, there are at most as many workers as configured,
  no two of them serve the same session, a worker only handles deliveries of its own session, and the
  mailbox below is one that its own operations can reach, so that everything proved of the mailbox holds
  under the runtime.
\<close>

theorem workers_bounded_and_exclusive:
  assumes "runtime_reach w"
  shows "length (crt_tasks w) \<le> crt_workers w \<and> collab_reach (crt_store w) \<and>
    distinct (map (\<lambda>x. fst (snd x)) (crt_tasks w)) \<and>
    (\<forall>x \<in> set (crt_tasks w). \<forall>d. phase_delivery (snd (snd x)) = Some d \<longrightarrow> del_recipient d = fst (snd x))"
proof -
  have inv: "runtime_inv w" using runtime_sys.reach_inv [OF assms] .
  then have keys: "distinct (map fst (crt_tasks w))" "\<forall>x \<in> set (crt_tasks w). task_ok x"
    by (auto simp: runtime_inv_def workers_inv_def)
  have "map fst (crt_tasks w) = map global_id (map (\<lambda>x. fst (snd x)) (crt_tasks w))"
    using keys(2) by (auto simp: task_ok_def)
  then have "distinct (map (\<lambda>x. fst (snd x)) (crt_tasks w))"
    using keys(1) by (metis distinct_map)
  with inv show ?thesis by (auto simp: runtime_inv_def workers_inv_def task_ok_def)
qed

definition sample_runtime :: collab_runtime where
  "sample_runtime = dispatch_round 9 (start_runtime \<lparr>crt_store = asked_mailbox, crt_workers = 2, crt_tasks = [],
     crt_dispatching = False, crt_stopping = False\<rparr>)"

lemma sample_runtime_reach: "runtime_reach sample_runtime"
proof -
  let ?w = "\<lparr>crt_store = asked_mailbox, crt_workers = 2, crt_tasks = [], crt_dispatching = False,
    crt_stopping = False\<rparr>"
  have "is_new_runtime ?w"
    by (rule is_new_runtime.intros [of 2 asked_mailbox]) (simp_all add: new_collab_runtime_def asked_reach)
  then have "runtime_reach ?w" by (rule reach.reach_init)
  then have "runtime_reach (start_runtime ?w)" by (rule reach.reach_step) (rule run_start)
  then show ?thesis
    unfolding sample_runtime_def by (rule reach.reach_step) (rule run_dispatch, simp add: start_runtime_def)
qed

theorem workers_bounded_and_exclusive_witness:
  "map (\<lambda>x. fst (snd x)) (crt_tasks sample_runtime) = [worker] \<and> collab_reach (crt_store sample_runtime)"
proof -
  have "map (\<lambda>x. fst (snd x)) (crt_tasks sample_runtime) = [worker]"
    by (simp add: sample_runtime_def dispatch_round_def start_runtime_def pending_recipients_def page_size_def
        MAX_PAGE_SIZE_def read_transaction_def asked_value has_owner_def owner_states_def sample_defs Let_def)
  with workers_bounded_and_exclusive [OF sample_runtime_reach] show ?thesis by simp
qed

end
