(* ===== verification/Spec2Isabelle.thy ===== *)
theory Spec2Isabelle
  imports Manager_Contract Routing_Contract Access_Contract Attachment_Contract Session_Delivery Token_Rate
    Ptc_Scheduler Goal_Lifecycle Project_Tasks Collab_Execution
begin

text \<open>
  Synapse is an agent runtime: sessions run the turns of a language-model agent, a daemon serves them to
  clients of a terminal, a web console or an editor. This library models the stateful core of that
  runtime: what a client sees, what may run at the same time, who may do what, what is billed, and what
  is delivered. All paths below are relative to \<open>src/src/synapse\<close>.

  \<^bold>\<open>How the parts interact.\<close> A call of a client passes the access control (\<open>runtime/service/access.py\<close>)
  and the router (\<open>runtime/service/routing.py\<close>), which finds or builds the manager of the project. The
  manager (\<open>runtime/sessions/manager.py\<close>) opens sessions and lets a bounded number of turns run. A session
  (\<open>runtime/sessions/runtime.py\<close>) runs one turn of the agent loop (\<open>runtime/agent_loop\<close>) at a time,
  publishes the turn events (\<open>runtime/service/event_types.py\<close>) through its broker
  (\<open>runtime/sessions/events.py\<close>), hands guidance to the running turn (\<open>runtime/steer.py\<close>), waits for
  approvals, charges the usage, and settles and closes. During a turn the goal of the thread
  (\<open>goals\<close>) is charged, project tasks (\<open>tasks\<close>) are edited by tools, generated programs call tools
  through the barrier of \<open>runtime/ptc/scheduler.py\<close>, and the output rate is measured
  (\<open>runtime/token_rate.py\<close>). Sessions write to each other through the durable mailbox of
  \<open>runtime/collaboration\<close>, whose delivery runtime starts turns through the managers.

  \<^bold>\<open>Conventions.\<close> A dataclass is a \<open>record\<close> with a short prefix for its fields, an enum or a union a
  \<open>datatype\<close>, an exception a value of an error type in a sum. Text is an Isabelle \<open>string\<close>, so code points
  below 256; Python integers are \<open>int\<close> or \<open>nat\<close>, floats rational numbers, bytes \<open>8 word\<close>. The clock,
  generated identifiers and everything that code outside the repository answers are arguments. A
  component that is used by threads or coroutines is a step relation: one step is one locked section, or
  the piece of a coroutine between two suspensions, so that every interleaving of such pieces is a run.
  Theory \<open>Prelude\<close> has the step systems (\<open>reach\<close>), the locales for invariants, monotone observations,
  forward simulations and guarded table rows, which are interpreted on the models, and ordered
  dictionaries; \<open>Py_Text\<close> has the operations on Python text and values.

  \<^bold>\<open>Theories.\<close>
  \<^item> \<open>Service_Access\<close> (\<open>access.py\<close>): capabilities, principals, grants, the authorizers, and each port of
    the wrapper as the check of its request, a capability and a call of the delegate. \<open>Access_Contract\<close>
    states the abstract policy \<open>may\<close>, that the authorizers decide it, that every port is guarded by it
    before the delegate is called, that a connection scope only narrows, and what the project list shows.
  \<^item> \<open>Project_Routing\<close> (\<open>routing.py\<close>, \<open>project_list.py\<close>, \<open>LocalAgentRuntimeService.list_projects\<close>): the
    catalog adapters with their pages, and \<open>RuntimeManagerRouter\<close> as the step relation \<open>router_step\<close>.
    \<open>Routing_Contract\<close>: one build per project, the shutdown closes every manager once, paging is exact.
  \<^item> \<open>Session_Manager\<close> (\<open>manager.py\<close>): opening, submitting under a permit, closing, deleting, eviction and
    shutdown as the pieces of their coroutines (\<open>manager_step\<close>). \<open>Manager_Permits\<close> has the invariant of
    permits and submit locks and shows that each session the manager holds is a reachable session;
    \<open>Manager_Contract\<close> the bound on running turns and the places where the code departs from it.
  \<^item> \<open>Session_Runtime\<close> (\<open>sessions/runtime.py\<close>, \<open>errors.py\<close>): reservations, approvals, start, cancellation,
    guidance, the phases of a settlement and the close (\<open>session_step\<close>), on top of \<open>Session_Turn\<close>
    (\<open>agent_loop/model.py\<close>, \<open>request.py\<close>, \<open>turn.py\<close>), \<open>Session_Events\<close> and \<open>Steer_Queue\<close>.
    \<open>Session_Invariants\<close>, \<open>Session_Front\<close>, \<open>Session_Approvals\<close>, \<open>Session_Resumes\<close> and \<open>Session_Ledger\<close>
    have its invariants; \<open>Session_Contract\<close> the properties of turns, approvals, usage, guidance and close.
  \<^item> \<open>Turn_Events\<close>, \<open>Session_Events\<close>: the events and the broker: emission, retention, cursors,
    subscriptions, and the serial drainer as a step relation (\<open>broker_step\<close>). \<open>Session_Replay\<close>: a reader
    gets exactly the retained events after its cursor and is told of a gap exactly when there is one.
    \<open>Session_Delivery\<close>: subscribers see every event once, in order, and how a close can be stranded.
  \<^item> \<open>Steer_Queue\<close> (\<open>steer.py\<close>): the queue of guidance with its listeners (\<open>steer_step\<close>), which refines an
    abstract notebook.
  \<^item> \<open>Ptc_Scheduler\<close>: the fair read/write barrier of tool calls, its exclusion, fairness and progress.
  \<^item> \<open>Goal_Store\<close>, \<open>Goal_Runtime\<close>, \<open>Goal_Lifecycle\<close> (\<open>goals\<close>): the stored goal with the SQL updates as
    guarded writes of a row, the accounting of turns, the tools; the goal's life cycle and exact billing.
  \<^item> \<open>Project_Tasks\<close> (\<open>tasks\<close>): validation, the table, the service and its tools; every stored task is
    well formed.
  \<^item> \<open>Collab_Model\<close>, \<open>Collab_Store\<close>, \<open>Collab_Delivery\<close> (\<open>collaboration/model.py\<close>, \<open>store.py\<close>): the tables
    of the mailbox and its transactions (\<open>collab_step\<close>); \<open>Collab_Invariants\<close> and \<open>Collab_Mailbox\<close> their
    invariants and observations; \<open>Collab_Properties\<close> the history of a delivery, exclusive ownership and
    the stop fence. \<open>Collab_Worker\<close> (\<open>runtime.py\<close>, \<open>coordinator.py\<close>, and the start-up loops of
    \<open>daemon/application.py\<close>) is the layer that turns deliveries into turns; \<open>Collab_Execution\<close> shows that
    it refines a bounded pool of exclusive workers and that a restart frees every mailbox.
  \<^item> \<open>Token_Rate\<close>: the tracker of the output rate is equal to a definition on the whole list of events.
  \<^item> \<open>Attachment_Model\<close>, \<open>Image_Check\<close>, \<open>Attachment_Store\<close> (\<open>service/attachments.py\<close>,
    \<open>attachment_image.py\<close>, \<open>attachment_store.py\<close>): validation, base64 and image check, and the store of
    uploaded images, where an operation gives the directory tree after each of its writes, so that a
    process may stop anywhere (\<open>att_calls\<close>). \<open>Attachment_Changes\<close> breaks the writes down into single
    changes; \<open>Attachment_Contract\<close> shows that the bytes on disk keep to the quota, that a finished upload
    survives crashes, is never changed and reads back as the chunks that were sent, and what a begin that
    dies halfway costs.

  \<^bold>\<open>Bounds and termination.\<close> Capacities are those of the code (permits, pending messages, replay window,
  queue of a drainer, page limits), most of them fields of the state, so the theorems hold for every
  value. Loops over stored rows are structural recursions; the grant loop of the barrier, the scan of a
  JPEG header and the like terminate by a measure; the client loop \<open>read_pages\<close> carries fuel, and the
  theorem says how much is enough. That a close can complete, that a waiting ticket is served and that a
  restart ends with free mailboxes are proved as the existence of such runs or of the result, not as
  partial correctness.

  \<^bold>\<open>Not modelled.\<close> The daemon, the transports, persistence and the process side of the tool calls are
  process, network and file I/O; the terminal user interface, the web console, the editor adapter, the
  provider clients and the middlewares are bound to third-party frameworks whose behaviour is not in the
  repository; prompts, configuration and command text are prose and data. What each part leaves out is
  said in the header of its theory.
\<close>

end
